(* ===== verification/Prelude.thy ===== *)
theory Prelude
  imports Main "HOL-Library.AList" "HOL-Library.Char_ord" "HOL-Library.List_Lexorder"
    "HOL-Library.Product_Lexorder" "HOL-Library.Multiset"
begin

text \<open>
  Shared notions of the development.  The program is TypeScript, so this theory holds the pieces of
  the JavaScript language and standard library that the components use: insertion-ordered maps
  (\<open>Map\<close>, as association lists with the update-in-place of \<open>AList\<close>), duplicate-free arrays made by
  \<open>[...new Set(xs)]\<close>, stable sorting with a comparator, string trimming and splitting, and decimal
  numerals.  It also declares the theorem collections the component theories use:
  \<open>jsmap_simps\<close> for rewriting maps, \<open>js_str\<close> for evaluating string functions and \<open>wf_intros\<close> for
  preservation of well-formedness.
\<close>

named_theorems jsmap_simps
named_theorems js_str
named_theorems wf_intros

subsection \<open>Insertion-ordered maps\<close>

type_synonym ('k, 'v) jsmap = "('k \<times> 'v) list"

abbreviation jm_keys :: "('k, 'v) jsmap \<Rightarrow> 'k list" where
  "jm_keys m \<equiv> map fst m"

abbreviation jm_values :: "('k, 'v) jsmap \<Rightarrow> 'v list" where
  "jm_values m \<equiv> map snd m"

definition jm_get :: "('k, 'v) jsmap \<Rightarrow> 'k \<Rightarrow> 'v option" where
  "jm_get m k = map_of m k"

definition jm_has :: "('k, 'v) jsmap \<Rightarrow> 'k \<Rightarrow> bool" where
  "jm_has m k = (map_of m k \<noteq> None)"

definition jm_set :: "('k, 'v) jsmap \<Rightarrow> 'k \<Rightarrow> 'v \<Rightarrow> ('k, 'v) jsmap" where
  "jm_set m k v = AList.update k v m"

definition jm_delete :: "('k, 'v) jsmap \<Rightarrow> 'k \<Rightarrow> ('k, 'v) jsmap" where
  "jm_delete m k = AList.delete k m"

definition jm_wf :: "('k, 'v) jsmap \<Rightarrow> bool" where
  "jm_wf m = distinct (jm_keys m)"

text \<open>
  The contract of \<open>Map\<close>: what a lookup returns after each operation.  Components that only rely on
  these laws are developed inside the locale.
\<close>

locale keyed_store =
  fixes get :: "'s \<Rightarrow> 'k \<Rightarrow> 'v option"
    and put :: "'s \<Rightarrow> 'k \<Rightarrow> 'v \<Rightarrow> 's"
    and del :: "'s \<Rightarrow> 'k \<Rightarrow> 's"
    and ok :: "'s \<Rightarrow> bool"
  assumes get_put: "get (put s k v) k' = (if k' = k then Some v else get s k')"
    and get_del: "get (del s k) k' = (if k' = k then None else get s k')"
    and ok_put: "ok s \<Longrightarrow> ok (put s k v)"
    and ok_del: "ok s \<Longrightarrow> ok (del s k)"
begin

definition del_all :: "'s \<Rightarrow> 'k list \<Rightarrow> 's" where
  "del_all s ks = foldl del s ks"

definition put_all :: "'s \<Rightarrow> 'k list \<Rightarrow> 'v \<Rightarrow> 's" where
  "put_all s ks v = foldl (\<lambda>t k. put t k v) s ks"

lemma get_del_all: "get (del_all s ks) k = (if k \<in> set ks then None else get s k)"
  by (induction ks arbitrary: s) (auto simp: del_all_def get_del)

lemma get_put_all: "get (put_all s ks v) k = (if k \<in> set ks then Some v else get s k)"
  by (induction ks arbitrary: s) (auto simp: put_all_def get_put)

lemma ok_del_all: "ok s \<Longrightarrow> ok (del_all s ks)"
  by (induction ks arbitrary: s) (auto simp: del_all_def intro: ok_del)

lemma ok_put_all: "ok s \<Longrightarrow> ok (put_all s ks v)"
  by (induction ks arbitrary: s) (auto simp: put_all_def intro: ok_put)

end

interpretation jm: keyed_store jm_get jm_set jm_delete jm_wf
  by unfold_locales
    (simp_all add: jm_get_def jm_set_def jm_delete_def jm_wf_def update_conv' delete_conv'
      distinct_update distinct_delete)

lemmas jm_get_set [simp, jsmap_simps] = jm.get_put
lemmas jm_get_delete [simp, jsmap_simps] = jm.get_del
lemmas jm_wf_set [simp, wf_intros] = jm.ok_put
lemmas jm_wf_delete [simp, wf_intros] = jm.ok_del

lemma jm_wf_Nil [simp]: "jm_wf []"
  by (simp add: jm_wf_def)

lemma jm_get_Nil [simp, jsmap_simps]: "jm_get [] k = None"
  by (simp add: jm_get_def)

lemma jm_get_Cons: "jm_get (p # m) k = (if fst p = k then Some (snd p) else jm_get m k)"
  by (cases p) (simp add: jm_get_def)

lemma jm_has_iff: "jm_has m k \<longleftrightarrow> (\<exists>v. jm_get m k = Some v)"
  by (simp add: jm_has_def jm_get_def)

lemma jm_get_Some_iff: "jm_wf m \<Longrightarrow> jm_get m k = Some v \<longleftrightarrow> (k, v) \<in> set m"
  by (simp add: jm_wf_def jm_get_def)

lemma jm_get_None_iff: "jm_get m k = None \<longleftrightarrow> k \<notin> set (jm_keys m)"
  by (simp add: jm_get_def map_of_eq_None_iff)

lemma set_jm_keys: "set (jm_keys m) = {k. jm_get m k \<noteq> None}"
  by (auto simp: jm_get_None_iff)

lemma jm_get_key: "jm_get m k = Some v \<Longrightarrow> k \<in> set (jm_keys m)"
  by (metis jm_get_None_iff option.distinct(1))

lemma jm_keys_set: "set (jm_keys (jm_set m k v)) = insert k (set (jm_keys m))"
  unfolding set_jm_keys by auto

lemma jm_keys_delete: "set (jm_keys (jm_delete m k)) = set (jm_keys m) - {k}"
  unfolding set_jm_keys by (auto split: if_splits)

lemma jm_set_new: "jm_get m k = None \<Longrightarrow> jm_set m k v = m @ [(k, v)]"
  by (induction m) (auto simp: jm_set_def jm_get_Cons split: if_splits)

lemma jm_delete_filter: "jm_delete m k = filter (\<lambda>p. fst p \<noteq> k) m"
  by (simp add: jm_delete_def AList.delete_eq case_prod_unfold eq_commute)

lemma jm_wf_filter [wf_intros]: "jm_wf m \<Longrightarrow> jm_wf (filter P m)"
  by (simp add: jm_wf_def distinct_map_filter)

lemma jm_get_filter_keys: "jm_get (filter (\<lambda>p. P (fst p)) m) k = (if P k then jm_get m k else None)"
  by (induction m) (auto simp: jm_get_Cons)

lemma length_filter_bound [wf_intros]: "int (length xs) \<le> n \<Longrightarrow> int (length (filter P xs)) \<le> n"
  using length_filter_le [of P xs] by linarith

lemma length_jm_delete_bound [wf_intros]:
  "int (length m) \<le> n \<Longrightarrow> int (length (jm_delete m k)) \<le> n"
  unfolding jm_delete_filter by (rule length_filter_bound)

lemma jm_delete_first: "jm_wf (p # m) \<Longrightarrow> jm_delete (p # m) (fst p) = m"
  by (auto simp: jm_wf_def jm_delete_filter image_iff filter_id_conv)

subsection \<open>Arrays\<close>

text \<open>\<open>[...new Set(xs)]\<close> keeps the first occurrence of each element.\<close>

definition js_uniq :: "'a list \<Rightarrow> 'a list" where
  "js_uniq xs = rev (remdups (rev xs))"

lemma set_js_uniq [simp]: "set (js_uniq xs) = set xs"
  by (simp add: js_uniq_def)

lemma distinct_js_uniq [simp]: "distinct (js_uniq xs)"
  by (simp add: js_uniq_def)

lemma js_uniq_distinct [simp]: "distinct xs \<Longrightarrow> js_uniq xs = xs"
  by (simp add: js_uniq_def distinct_remdups_id)

text \<open>
  \<open>xs.sort(cmp)\<close> is stable.  For a consistent comparator the language standard fixes the result,
  which is that of a stable insertion sort.
\<close>

fun insert_by :: "('a \<Rightarrow> 'a \<Rightarrow> int) \<Rightarrow> 'a \<Rightarrow> 'a list \<Rightarrow> 'a list" where
  "insert_by c x [] = [x]"
| "insert_by c x (y # ys) = (if c x y \<le> 0 then x # y # ys else y # insert_by c x ys)"

fun js_sort_by :: "('a \<Rightarrow> 'a \<Rightarrow> int) \<Rightarrow> 'a list \<Rightarrow> 'a list" where
  "js_sort_by c [] = []"
| "js_sort_by c (x # xs) = insert_by c x (js_sort_by c xs)"

lemma mset_insert_by [simp]: "mset (insert_by c x xs) = add_mset x (mset xs)"
  by (induction xs) auto

lemma mset_js_sort_by [simp]: "mset (js_sort_by c xs) = mset xs"
  by (induction xs) auto

lemma set_js_sort_by [simp]: "set (js_sort_by c xs) = set xs"
  by (metis mset_js_sort_by set_mset_mset)

lemma length_js_sort_by [simp]: "length (js_sort_by c xs) = length xs"
  by (metis mset_js_sort_by size_mset)

text \<open>
  The contract of a comparator passed to \<open>sort\<close>: it orders values by a key from a linear order.
  Inside the locale the stable insertion sort is shown to be the library's \<open>sort_key\<close>.
\<close>

locale key_comparator =
  fixes cmp :: "'a \<Rightarrow> 'a \<Rightarrow> int"
    and key :: "'a \<Rightarrow> 'k::linorder"
  assumes cmp_le: "cmp a b \<le> 0 \<longleftrightarrow> key a \<le> key b"
    and cmp_ge: "0 \<le> cmp a b \<longleftrightarrow> key b \<le> key a"
begin

lemma cmp_less: "cmp a b < 0 \<longleftrightarrow> key a < key b"
  using cmp_ge [of a b] by auto

lemma cmp_greater: "0 < cmp a b \<longleftrightarrow> key b < key a"
  using cmp_le [of a b] by auto

lemma cmp_zero: "cmp a b = 0 \<longleftrightarrow> key a = key b"
  using cmp_le [of a b] cmp_ge [of a b] by auto

lemma cmp_trans: "cmp a b \<le> 0 \<Longrightarrow> cmp b c \<le> 0 \<Longrightarrow> cmp a c \<le> 0"
  by (simp add: cmp_le)

lemma insert_by_insort: "insert_by cmp x xs = insort_key key x xs"
  by (induction xs) (auto simp: cmp_le)

lemma js_sort_by_sort_key: "js_sort_by cmp xs = sort_key key xs"
  by (induction xs) (auto simp: insert_by_insort)

lemma sorted_js_sort_by: "sorted (map key (js_sort_by cmp xs))"
  by (simp add: js_sort_by_sort_key)

end

text \<open>\<open>(a, b) => a - b\<close>, the comparator of every numeric sort in the code.\<close>

definition num_cmp :: "int \<Rightarrow> int \<Rightarrow> int" where
  "num_cmp a b = a - b"

interpretation num: key_comparator num_cmp "\<lambda>n. n"
  by unfold_locales (auto simp: num_cmp_def)

definition js_sort_num :: "int list \<Rightarrow> int list" where
  "js_sort_num xs = js_sort_by num_cmp xs"

lemma js_sort_num_eq: "js_sort_num xs = sort xs"
  by (simp add: js_sort_num_def num.js_sort_by_sort_key)

lemma set_js_sort_num [simp]: "set (js_sort_num xs) = set xs"
  by (simp add: js_sort_num_def)

lemma distinct_js_sort_num [simp]: "distinct (js_sort_num xs) = distinct xs"
  by (simp add: js_sort_num_eq)

lemma js_sort_num_sorted [simp]: "sorted xs \<Longrightarrow> js_sort_num xs = xs"
  by (simp add: js_sort_num_eq sorted_sort_id)

lemma js_sort_num_eq_iff:
  "distinct xs \<Longrightarrow> distinct ys \<Longrightarrow> js_sort_num xs = js_sort_num ys \<longleftrightarrow> set xs = set ys"
  by (metis distinct_js_sort_num js_sort_num_eq set_js_sort_num sorted_distinct_set_unique sorted_sort)

subsection \<open>Results\<close>

text \<open>
  A function that may throw returns a sum: \<open>Inl\<close> the error, \<open>Inr\<close> the value.  \<open>map_res\<close> runs such a
  function over an array and stops at the first error.
\<close>

fun map_res :: "('a \<Rightarrow> 'e + 'b) \<Rightarrow> 'a list \<Rightarrow> 'e + 'b list" where
  "map_res f [] = Inr []"
| "map_res f (x # xs) =
     (case f x of Inl e \<Rightarrow> Inl e
      | Inr y \<Rightarrow> (case map_res f xs of Inl e \<Rightarrow> Inl e | Inr ys \<Rightarrow> Inr (y # ys)))"

lemma map_res_InrD:
  "map_res f xs = Inr ys \<Longrightarrow> list_all2 (\<lambda>x y. f x = Inr y) xs ys"
  by (induction xs arbitrary: ys) (auto split: sum.splits)

lemma map_res_Inl: "map_res f xs = Inl e \<Longrightarrow> \<exists>x \<in> set xs. f x = Inl e"
  by (induction xs) (auto split: sum.splits)

text \<open>A loop whose body may throw.\<close>

fun fold_res :: "('s \<Rightarrow> 'a \<Rightarrow> 'e + 's) \<Rightarrow> 's \<Rightarrow> 'a list \<Rightarrow> 'e + 's" where
  "fold_res f s [] = Inr s"
| "fold_res f s (x # xs) = (case f s x of Inl e \<Rightarrow> Inl e | Inr s' \<Rightarrow> fold_res f s' xs)"

lemma fold_res_ConsE:
  assumes "fold_res f s (x # xs) = Inr s'"
  obtains t where "f s x = Inr t" "fold_res f t xs = Inr s'"
  using assms by (auto split: sum.splits)

lemma fold_res_invariant:
  assumes "fold_res f s xs = Inr s'" and "P s"
    and "\<And>t x t'. P t \<Longrightarrow> x \<in> set xs \<Longrightarrow> f t x = Inr t' \<Longrightarrow> P t'"
  shows "P s'"
  using assms
proof (induction xs arbitrary: s)
  case (Cons x xs)
  obtain t where t: "f s x = Inr t" "fold_res f t xs = Inr s'"
    using Cons.prems(1) by (rule fold_res_ConsE)
  show ?case
  proof (rule Cons.IH [OF t(2)])
    show "P t" by (rule Cons.prems(3) [OF Cons.prems(2) _ t(1)]) simp
    show "P u'" if "P u" "y \<in> set xs" "f u y = Inr u'" for u y u'
      by (rule Cons.prems(3) [OF that(1) _ that(3)]) (simp add: that(2))
  qed
qed simp

end
