(* ===== verification/JsString.thy ===== *)
theory JsString
  imports Prelude
begin

text \<open>
  JavaScript strings.  A string is a list of code units; the development works with code units below
  256 (\<open>char\<close>), which covers every identifier, version and numeral the modelled code parses.
  \<open>js_trim\<close>, \<open>js_split\<close>, \<open>js_split_ws\<close>, \<open>js_split_bars\<close> and \<open>js_join\<close> are the library calls
  \<open>trim()\<close>, \<open>split(c)\<close>, \<open>split(/\<backslash>s+/)\<close>, \<open>split('||')\<close> and \<open>join(sep)\<close>; \<open>nat_to_str\<close> is the decimal
  rendering of a template literal and \<open>nat_of_digits\<close> the value of a match of \<open>\<backslash>d+\<close>.
\<close>

definition js_ws :: "char \<Rightarrow> bool" where
  "js_ws c = ((of_char c :: nat) \<in> {9, 10, 11, 12, 13, 32, 160})"

definition js_digit :: "char \<Rightarrow> bool" where
  "js_digit c = (48 \<le> (of_char c :: nat) \<and> (of_char c :: nat) \<le> 57)"

definition js_alpha :: "char \<Rightarrow> bool" where
  "js_alpha c = ((65 \<le> (of_char c :: nat) \<and> (of_char c :: nat) \<le> 90) \<or>
                 (97 \<le> (of_char c :: nat) \<and> (of_char c :: nat) \<le> 122))"

definition js_trim :: "string \<Rightarrow> string" where
  "js_trim s = rev (dropWhile js_ws (rev (dropWhile js_ws s)))"

definition js_all_digits :: "string \<Rightarrow> bool" where
  "js_all_digits s = (s \<noteq> [] \<and> list_all js_digit s)"

definition js_span :: "(char \<Rightarrow> bool) \<Rightarrow> string \<Rightarrow> string \<times> string" where
  "js_span P s = (takeWhile P s, dropWhile P s)"

fun js_split :: "char \<Rightarrow> string \<Rightarrow> string list" where
  "js_split c [] = [[]]"
| "js_split c (x # xs) =
     (if x = c then [] # js_split c xs
      else (case js_split c xs of [] \<Rightarrow> [[x]] | y # ys \<Rightarrow> (x # y) # ys))"

fun js_split_bars :: "string \<Rightarrow> string list" where
  "js_split_bars [] = [[]]"
| "js_split_bars [x] = [[x]]"
| "js_split_bars (x # y # r) =
     (if x = CHR ''|'' \<and> y = CHR ''|'' then [] # js_split_bars r
      else (case js_split_bars (y # r) of [] \<Rightarrow> [[x]] | w # ws \<Rightarrow> (x # w) # ws))"

lemma length_dropWhile_ws:
  assumes "dropWhile (\<lambda>c. \<not> js_ws c) s \<noteq> []"
  shows "length (dropWhile js_ws (dropWhile (\<lambda>c. \<not> js_ws c) s)) < length s"
proof -
  let ?r = "dropWhile (\<lambda>c. \<not> js_ws c) s"
  obtain c cs where c: "?r = c # cs" "js_ws c"
    using assms hd_dropWhile [OF assms] by (cases ?r) auto
  then have "length (dropWhile js_ws ?r) \<le> length cs"
    by (simp add: length_dropWhile_le)
  also have "length cs < length ?r"
    by (simp add: c)
  also have "length ?r \<le> length s"
    by (rule length_dropWhile_le)
  finally show ?thesis .
qed

function js_split_ws :: "string \<Rightarrow> string list" where
  "js_split_ws s =
     (let w = takeWhile (\<lambda>c. \<not> js_ws c) s; r = dropWhile (\<lambda>c. \<not> js_ws c) s
      in if r = [] then [w] else w # js_split_ws (dropWhile js_ws r))"
  by pat_completeness auto
termination
  by (relation "measure length") (simp_all add: length_dropWhile_ws)

declare js_split_ws.simps [simp del]

fun js_join :: "string \<Rightarrow> string list \<Rightarrow> string" where
  "js_join sep [] = []"
| "js_join sep [x] = x"
| "js_join sep (x # y # r) = x @ sep @ js_join sep (y # r)"

text \<open>An optional text is truthy when it is there and not empty.\<close>

definition truthy :: "string option \<Rightarrow> bool" where
  "truthy v = (v \<noteq> None \<and> v \<noteq> Some [])"

definition js_nonempty :: "string list \<Rightarrow> string list" where
  "js_nonempty ss = filter (\<lambda>s. s \<noteq> []) ss"

fun js_starts_with :: "string \<Rightarrow> string \<Rightarrow> bool" where
  "js_starts_with s [] = True"
| "js_starts_with [] (p # ps) = False"
| "js_starts_with (c # cs) (p # ps) = (c = p \<and> js_starts_with cs ps)"

definition js_ends_with :: "string \<Rightarrow> string \<Rightarrow> bool" where
  "js_ends_with s p = js_starts_with (rev s) (rev p)"

definition digit_val :: "char \<Rightarrow> nat" where
  "digit_val c = of_char c - 48"

definition nat_of_digits :: "string \<Rightarrow> nat" where
  "nat_of_digits s = foldl (\<lambda>n c. 10 * n + digit_val c) 0 s"

fun nat_to_str :: "nat \<Rightarrow> string" where
  "nat_to_str n = (if n < 10 then [char_of (48 + n)]
                   else nat_to_str (n div 10) @ [char_of (48 + n mod 10)])"

declare nat_to_str.simps [simp del]

subsection \<open>UTF-8\<close>

text \<open>\<open>Buffer.from(s)\<close> and \<open>TextEncoder\<close>: the bytes of a text.\<close>

definition utf8_char :: "char \<Rightarrow> nat list" where
  "utf8_char c = (let n = of_char c in
     if n < 128 then [n] else [192 + n div 64, 128 + n mod 64])"

definition utf8 :: "string \<Rightarrow> nat list" where
  "utf8 s = concat (map utf8_char s)"

lemma utf8_char_inj: "utf8_char c @ a = utf8_char d @ b \<Longrightarrow> c = d \<and> a = b"
proof -
  assume eq: "utf8_char c @ a = utf8_char d @ b"
  have c: "(of_char c :: nat) < 256" and d: "(of_char d :: nat) < 256"
    by (rule nat_of_char_less_256)+
  have "(of_char c :: nat) = of_char d \<and> a = b"
  proof (cases "(of_char c :: nat) < 128")
    case True
    then show ?thesis using eq d by (auto simp: utf8_char_def Let_def split: if_splits)
  next
    case False
    then have "(of_char d :: nat) \<ge> 128"
      using eq by (auto simp: utf8_char_def Let_def split: if_splits)
    with False eq have "(of_char c :: nat) div 64 = of_char d div 64"
      "(of_char c :: nat) mod 64 = of_char d mod 64" "a = b"
      by (auto simp: utf8_char_def Let_def)
    then show ?thesis by (metis div_mult_mod_eq)
  qed
  then show "c = d \<and> a = b" by simp
qed

lemma utf8_simps [simp]:
  "utf8 [] = []"
  "utf8 (c # s) = utf8_char c @ utf8 s"
  "utf8 (s @ t) = utf8 s @ utf8 t"
  by (simp_all add: utf8_def)

lemma utf8_char_nonempty [simp]: "utf8_char c \<noteq> []"
  by (simp add: utf8_char_def Let_def)

lemma utf8_inj [simp]: "utf8 s = utf8 t \<longleftrightarrow> s = t"
proof
  show "utf8 s = utf8 t \<Longrightarrow> s = t"
  proof (induction s arbitrary: t)
    case Nil
    then show ?case by (cases t) auto
  next
    case (Cons c s)
    then obtain d t' where t: "t = d # t'" by (cases t) auto
    from Cons.prems have "utf8_char c @ utf8 s = utf8_char d @ utf8 t'" by (simp add: t)
    from utf8_char_inj [OF this] Cons.IH show ?case by (simp add: t)
  qed
qed simp

text \<open>How many bytes a text takes beyond its code units.\<close>

definition wide :: "string \<Rightarrow> nat" where
  "wide s = length (filter (\<lambda>c. \<not> (of_char c :: nat) < 128) s)"

lemma length_utf8: "length (utf8 s) = length s + wide s"
  by (induction s) (simp_all add: wide_def utf8_char_def Let_def)

subsection \<open>Splitting and joining\<close>

lemma js_split_nonempty [simp]: "js_split c s \<noteq> []"
  by (induction s) (auto split: list.splits)

lemma js_split_no_sep: "c \<notin> set s \<Longrightarrow> js_split c s = [s]"
  by (induction s) auto

lemma js_split_append: "c \<notin> set a \<Longrightarrow> js_split c (a @ c # b) = a # js_split c b"
  by (induction a) auto

lemma js_split_prefix:
  "c \<notin> set a \<Longrightarrow> js_split c (a @ b) = (a @ hd (js_split c b)) # tl (js_split c b)"
  by (induction a) auto

lemma js_split_join:
  "xs \<noteq> [] \<Longrightarrow> \<forall>x \<in> set xs. c \<notin> set x \<Longrightarrow> js_split c (js_join [c] xs) = xs"
  by (induction "[c]" xs rule: js_join.induct) (auto simp: js_split_no_sep js_split_append)

lemma js_join_split: "js_join [c] (js_split c s) = s"
proof (induction s)
  case Nil
  show ?case by simp
next
  case (Cons x s)
  then show ?case
    by (cases "js_split c s"; cases "tl (js_split c s)") (auto split: list.splits)
qed

lemma set_js_join: "set (js_join sep xs) \<subseteq> set sep \<union> \<Union> (set ` set xs)"
  by (induction sep xs rule: js_join.induct) auto

lemma js_join_eq_Nil: "xs \<noteq> [] \<Longrightarrow> \<forall>x \<in> set xs. x \<noteq> [] \<Longrightarrow> js_join sep xs \<noteq> []"
  by (induction sep xs rule: js_join.induct) auto

lemma js_starts_with_iff: "js_starts_with s p \<longleftrightarrow> (\<exists>r. s = p @ r)"
  by (induction s p rule: js_starts_with.induct) auto

lemma js_starts_with_append [simp]: "js_starts_with (p @ r) p"
  by (auto simp: js_starts_with_iff)

lemma js_ends_with_iff: "js_ends_with s p \<longleftrightarrow> (\<exists>r. s = r @ p)"
proof
  assume "js_ends_with s p"
  then obtain r where "rev s = rev p @ r"
    by (auto simp: js_ends_with_def js_starts_with_iff)
  then have "s = rev r @ p"
    by (metis rev_append rev_rev_ident)
  then show "\<exists>r. s = r @ p" ..
qed (auto simp: js_ends_with_def js_starts_with_iff)

lemma js_trim_no_ws: "s = [] \<or> (\<not> js_ws (hd s) \<and> \<not> js_ws (last s)) \<Longrightarrow> js_trim s = s"
proof (cases "s = []")
  case True
  then show ?thesis by (simp add: js_trim_def)
next
  case False
  assume "s = [] \<or> (\<not> js_ws (hd s) \<and> \<not> js_ws (last s))"
  with False have h: "\<not> js_ws (hd s)" "\<not> js_ws (last s)" by auto
  from h(1) False have "dropWhile js_ws s = s"
    by (cases s) auto
  moreover from h(2) False have "dropWhile js_ws (rev s) = rev s"
    by (cases "rev s") (auto simp: hd_rev [symmetric])
  ultimately show ?thesis by (simp add: js_trim_def)
qed

lemma js_trim_Cons: "\<not> js_ws c \<Longrightarrow> js_trim (c # w) = c # rev (dropWhile js_ws (rev w))"
  by (simp add: js_trim_def dropWhile_append)

lemma js_trim_Cons2:
  "\<not> js_ws c \<Longrightarrow> \<not> js_ws d \<Longrightarrow> \<exists>u. js_trim (c # d # w) = c # d # u"
proof (cases "list_all js_ws w")
  case True
  then show "\<not> js_ws c \<Longrightarrow> \<not> js_ws d \<Longrightarrow> ?thesis"
    by (intro exI [of _ "[]"]) (auto simp: js_trim_def dropWhile_append list_all_iff)
next
  case False
  then show "\<not> js_ws c \<Longrightarrow> \<not> js_ws d \<Longrightarrow> ?thesis"
    by (intro exI [of _ "rev (dropWhile js_ws (rev w))"])
      (auto simp: js_trim_def dropWhile_append list_all_iff)
qed

lemma set_in_js_join: "w \<in> set xs \<Longrightarrow> set w \<subseteq> set (js_join sep xs)"
  by (induction sep xs rule: js_join.induct) auto

lemma js_span_append:
  "list_all P a \<Longrightarrow> b = [] \<or> \<not> P (hd b) \<Longrightarrow> js_span P (a @ b) = (a, b)"
proof -
  assume a: "list_all P a" and b: "b = [] \<or> \<not> P (hd b)"
  have "takeWhile P b = []" "dropWhile P b = b"
    using b by (cases b; simp)+
  moreover have "\<forall>x \<in> set a. P x" using a by (simp add: list_all_iff)
  ultimately show ?thesis
    by (simp add: js_span_def takeWhile_append2 dropWhile_append2)
qed

subsection \<open>Decimal numerals\<close>

lemma js_digit_char_of [simp]: "(n::nat) < 10 \<Longrightarrow> js_digit (char_of (48 + n))"
  by (simp add: js_digit_def)

lemma digit_val_char_of [simp]: "(n::nat) < 10 \<Longrightarrow> digit_val (char_of (48 + n)) = n"
  by (simp add: digit_val_def)

lemma nat_to_str_nonempty [simp]: "nat_to_str n \<noteq> []"
  by (subst nat_to_str.simps) simp

lemma nat_to_str_digits: "list_all js_digit (nat_to_str n)"
proof (induction n rule: nat_to_str.induct)
  case (1 n)
  then show ?case
    by (subst nat_to_str.simps) simp
qed

lemma nat_of_digits_append: "nat_of_digits (s @ [c]) = 10 * nat_of_digits s + digit_val c"
  by (simp add: nat_of_digits_def)

lemma nat_of_digits_nat_to_str [simp]: "nat_of_digits (nat_to_str n) = n"
proof (induction n rule: nat_to_str.induct)
  case (1 n)
  show ?case
  proof (cases "n < 10")
    case True
    then show ?thesis
      by (subst nat_to_str.simps) (simp add: nat_of_digits_def)
  next
    case False
    then have "nat_to_str n = nat_to_str (n div 10) @ [char_of (48 + n mod 10)]"
      by (subst nat_to_str.simps) simp
    with False "1.IH" show ?thesis
      by (simp add: nat_of_digits_append)
  qed
qed

lemma nat_to_str_inj [simp]: "nat_to_str m = nat_to_str n \<longleftrightarrow> m = n"
  by (metis nat_of_digits_nat_to_str)

lemma nat_to_str_all_digits [simp]: "js_all_digits (nat_to_str n)"
  by (simp add: js_all_digits_def nat_to_str_digits)

lemma js_digit_not_ws: "js_digit c \<Longrightarrow> \<not> js_ws c"
  by (auto simp: js_digit_def js_ws_def)

lemmas [js_str] = js_ws_def js_digit_def js_alpha_def js_trim_def js_span_def js_all_digits_def
  nat_of_digits_def digit_val_def js_nonempty_def js_ends_with_def

end
