(* ===== verification/SemVer.thy ===== *)
theory SemVer
  imports JsString
begin

text \<open>
  \<open>src/core/utils/semver.ts\<close>: versions, their precedence, and requirement ranges.  The regular
  expressions of the source are deterministic on every prefix (each alternative is decided by the next
  character), so a left-to-right scanner computes the same captures; the one pattern that backtracks,
  the operator prefix of \<open>expandToken\<close>, lists its candidates in the engine's order.  Numerals are exact
  naturals; JavaScript agrees below \<open>2 ^ 53\<close>.
\<close>

subsection \<open>Versions\<close>

record semver =
  major :: nat
  minor :: nat
  patch :: nat
  prerelease :: "string list"

datatype semver_error =
    EmptyVersion
  | InvalidSemver string
  | InvalidMajor
  | InvalidMinor
  | InvalidPatch
  | InvalidRequirement string
  | InvalidToken string
  | InvalidPartial string
  | UnsupportedOperator string string

text \<open>
  The constructor: a part that is not a non-negative integer (\<open>None\<close>) throws.
\<close>

definition new_SemVer ::
  "nat option \<Rightarrow> nat option \<Rightarrow> nat option \<Rightarrow> string list \<Rightarrow> semver_error + semver" where
  "new_SemVer ma mi pa pre =
     (case ma of None \<Rightarrow> Inl InvalidMajor | Some a \<Rightarrow>
      (case mi of None \<Rightarrow> Inl InvalidMinor | Some b \<Rightarrow>
       (case pa of None \<Rightarrow> Inl InvalidPatch | Some c \<Rightarrow>
         Inr \<lparr>major = a, minor = b, patch = c, prerelease = pre\<rparr>)))"

abbreviation ver :: "nat \<Rightarrow> nat \<Rightarrow> nat \<Rightarrow> string list \<Rightarrow> semver" where
  "ver a b c pre \<equiv> \<lparr>major = a, minor = b, patch = c, prerelease = pre\<rparr>"

definition strip_v :: "string \<Rightarrow> string" where
  "strip_v s = (case s of [] \<Rightarrow> [] | c # r \<Rightarrow> if c = CHR ''v'' \<or> c = CHR ''V'' then r else s)"

definition tag_char :: "char \<Rightarrow> bool" where
  "tag_char c = (js_digit c \<or> js_alpha c \<or> c = CHR ''.'' \<or> c = CHR ''-'')"

text \<open>\<open>(?:\<backslash>.(\<backslash>d+))?\<close> and \<open>(?:-([0-9A-Za-z.-]+))?\<close>: the capture and the rest of the input.\<close>

definition opt_dot_num :: "string \<Rightarrow> string option \<times> string" where
  "opt_dot_num s =
     (case s of [] \<Rightarrow> (None, [])
      | c # r \<Rightarrow>
          if c = CHR ''.'' then
            (let d = fst (js_span js_digit r); r' = snd (js_span js_digit r)
             in if d = [] then (None, s) else (Some d, r'))
          else (None, s))"

definition opt_tag :: "char \<Rightarrow> string \<Rightarrow> string option \<times> string" where
  "opt_tag lead s =
     (case s of [] \<Rightarrow> (None, [])
      | c # r \<Rightarrow>
          if c = lead then
            (let d = fst (js_span tag_char r); r' = snd (js_span tag_char r)
             in if d = [] then (None, s) else (Some d, r'))
          else (None, s))"

definition match_version ::
  "string \<Rightarrow> (string \<times> string option \<times> string option \<times> string option) option" where
  "match_version s =
     (let d = fst (js_span js_digit s); r0 = snd (js_span js_digit s) in
      if d = [] then None
      else
        (let (b, r1) = opt_dot_num r0; (c, r2) = opt_dot_num r1;
             (pre, r3) = opt_tag (CHR ''-'') r2; (bld, r4) = opt_tag (CHR ''+'') r3
         in if r4 = [] then Some (d, b, c, pre) else None))"

definition opt_num :: "string option \<Rightarrow> nat" where
  "opt_num d = (case d of None \<Rightarrow> 0 | Some s \<Rightarrow> nat_of_digits s)"

definition opt_tags :: "string option \<Rightarrow> string list" where
  "opt_tags d = (case d of None \<Rightarrow> [] | Some s \<Rightarrow> if s = [] then [] else js_nonempty (js_split (CHR ''.'') s))"

definition SemVer_parse :: "string \<Rightarrow> semver_error + semver" where
  "SemVer_parse input =
     (if input = [] then Inl EmptyVersion
      else case match_version (strip_v (js_trim input)) of
          None \<Rightarrow> Inl (InvalidSemver input)
        | Some (a, b, c, pre) \<Rightarrow>
            new_SemVer (Some (nat_of_digits a)) (Some (opt_num b)) (Some (opt_num c)) (opt_tags pre))"

definition SemVer_toString :: "semver \<Rightarrow> string" where
  "SemVer_toString v =
     (let base = nat_to_str (major v) @ ''.'' @ nat_to_str (minor v) @ ''.'' @ nat_to_str (patch v)
      in if prerelease v = [] then base else base @ ''-'' @ js_join ''.'' (prerelease v))"

definition hasPrerelease :: "semver \<Rightarrow> bool" where
  "hasPrerelease v = (prerelease v \<noteq> [])"

subsection \<open>Precedence\<close>

fun comparePrerelease_from :: "string list \<Rightarrow> string list \<Rightarrow> int" where
  "comparePrerelease_from [] [] = 0"
| "comparePrerelease_from [] (y # ys) = -1"
| "comparePrerelease_from (x # xs) [] = 1"
| "comparePrerelease_from (x # xs) (y # ys) =
     (let xNum = js_all_digits x; yNum = js_all_digits y in
      if xNum \<and> yNum then
        (if nat_of_digits x \<noteq> nat_of_digits y
         then (if nat_of_digits x < nat_of_digits y then -1 else 1)
         else comparePrerelease_from xs ys)
      else if xNum \<and> \<not> yNum then -1
      else if \<not> xNum \<and> yNum then 1
      else if x \<noteq> y then (if x < y then -1 else 1)
      else comparePrerelease_from xs ys)"

definition comparePrerelease :: "string list \<Rightarrow> string list \<Rightarrow> int" where
  "comparePrerelease a b =
     (if a = [] \<and> b = [] then 0
      else if a = [] then 1
      else if b = [] then -1
      else comparePrerelease_from a b)"

definition SemVer_compare :: "semver \<Rightarrow> semver \<Rightarrow> int" where
  "SemVer_compare a b =
     (if major a \<noteq> major b then (if major a < major b then -1 else 1)
      else if minor a \<noteq> minor b then (if minor a < minor b then -1 else 1)
      else if patch a \<noteq> patch b then (if patch a < patch b then -1 else 1)
      else comparePrerelease (prerelease a) (prerelease b))"

definition isEqual :: "semver \<Rightarrow> semver \<Rightarrow> bool" where
  "isEqual a b = (SemVer_compare a b = 0)"

definition isGreaterThan :: "semver \<Rightarrow> semver \<Rightarrow> bool" where
  "isGreaterThan a b = (SemVer_compare a b > 0)"

definition isGreaterThanOrEqual :: "semver \<Rightarrow> semver \<Rightarrow> bool" where
  "isGreaterThanOrEqual a b = (SemVer_compare a b \<ge> 0)"

definition isLessThan :: "semver \<Rightarrow> semver \<Rightarrow> bool" where
  "isLessThan a b = (SemVer_compare a b < 0)"

definition isLessThanOrEqual :: "semver \<Rightarrow> semver \<Rightarrow> bool" where
  "isLessThanOrEqual a b = (SemVer_compare a b \<le> 0)"

text \<open>
  The reference order.  A prerelease identifier is a number or a word, numbers first; a version is
  ordered by its triple, then prereleases before the release, then the identifiers lexicographically.
\<close>

datatype ident = Num nat | Word string

instantiation ident :: linorder
begin

fun less_ident :: "ident \<Rightarrow> ident \<Rightarrow> bool" where
  "less_ident (Num m) (Num n) = (m < n)"
| "less_ident (Num m) (Word w) = True"
| "less_ident (Word v) (Num n) = False"
| "less_ident (Word v) (Word w) = (v < w)"

definition less_eq_ident :: "ident \<Rightarrow> ident \<Rightarrow> bool" where
  "less_eq_ident a b = (a < b \<or> a = b)"

instance
proof
  fix x y z :: ident
  show "x < y \<longleftrightarrow> x \<le> y \<and> \<not> y \<le> x"
    by (cases x; cases y) (auto simp: less_eq_ident_def)
  show "x \<le> x"
    by (simp add: less_eq_ident_def)
  show "x \<le> y \<Longrightarrow> y \<le> z \<Longrightarrow> x \<le> z"
    by (cases x; cases y; cases z) (auto simp: less_eq_ident_def)
  show "x \<le> y \<Longrightarrow> y \<le> x \<Longrightarrow> x = y"
    by (cases x; cases y) (auto simp: less_eq_ident_def)
  show "x \<le> y \<or> y \<le> x"
    by (cases x; cases y) (auto simp: less_eq_ident_def)
qed

end

definition ident_of :: "string \<Rightarrow> ident" where
  "ident_of s = (if js_all_digits s then Num (nat_of_digits s) else Word s)"

definition semver_key :: "semver \<Rightarrow> nat \<times> nat \<times> nat \<times> bool \<times> ident list" where
  "semver_key v = (major v, minor v, patch v, prerelease v = [], map ident_of (prerelease v))"

definition sign_cmp :: "'a::linorder \<Rightarrow> 'a \<Rightarrow> int" where
  "sign_cmp a b = (if a < b then -1 else if a = b then 0 else 1)"

lemma comparePrerelease_from_key:
  "comparePrerelease_from xs ys = sign_cmp (map ident_of xs) (map ident_of ys)"
  by (induction xs ys rule: comparePrerelease_from.induct)
    (auto simp: sign_cmp_def ident_of_def Let_def)

lemma SemVer_compare_key: "SemVer_compare a b = sign_cmp (semver_key a) (semver_key b)"
  by (auto simp: SemVer_compare_def semver_key_def comparePrerelease_def comparePrerelease_from_key
      sign_cmp_def)

interpretation semver: key_comparator SemVer_compare semver_key
  by unfold_locales (auto simp: SemVer_compare_key sign_cmp_def)

subsection \<open>Requirement ranges\<close>

datatype ComparatorOp = OpGt | OpGe | OpLt | OpLe | OpEq

record Comparator =
  comp_op :: ComparatorOp
  comp_version :: semver

abbreviation cmpr :: "ComparatorOp \<Rightarrow> semver \<Rightarrow> Comparator" where
  "cmpr o' v \<equiv> \<lparr>comp_op = o', comp_version = v\<rparr>"

record SemVerRange =
  range_groups :: "Comparator list list"
  includePrerelease :: bool

datatype RangeInput = RStr string | RArr "string list"

definition compareWithOp :: "semver \<Rightarrow> ComparatorOp \<Rightarrow> semver \<Rightarrow> bool" where
  "compareWithOp v o' r =
     (let cmp = SemVer_compare v r in
      case o' of OpGt \<Rightarrow> cmp > 0 | OpGe \<Rightarrow> cmp \<ge> 0 | OpLt \<Rightarrow> cmp < 0 | OpLe \<Rightarrow> cmp \<le> 0 | OpEq \<Rightarrow> cmp = 0)"

record PartialVer =
  pv_major :: nat
  pv_minor :: "nat option"
  pv_patch :: "nat option"
  pv_prerelease :: "string list"

definition isX :: "string \<Rightarrow> bool" where
  "isX s = (s = ''x'' \<or> s = ''X'' \<or> s = ''*'')"

text \<open>\<open>(\<backslash>d+|x|X|\<backslash>*)\<close> at the start of the input, and the same after a dot, optional.\<close>

definition match_part :: "string \<Rightarrow> (string \<times> string) option" where
  "match_part s =
     (let d = fst (js_span js_digit s); r = snd (js_span js_digit s) in
      if d \<noteq> [] then Some (d, r)
      else case s of [] \<Rightarrow> None | c # r' \<Rightarrow> if isX [c] then Some ([c], r') else None)"

definition opt_dot_part :: "string \<Rightarrow> string option \<times> string" where
  "opt_dot_part s =
     (case s of [] \<Rightarrow> (None, [])
      | c # r \<Rightarrow>
          if c = CHR ''.'' then
            (case match_part r of None \<Rightarrow> (None, s) | Some (d, r') \<Rightarrow> (Some d, r'))
          else (None, s))"

definition part_num :: "string option \<Rightarrow> nat option" where
  "part_num d = (case d of None \<Rightarrow> None | Some s \<Rightarrow> if isX s then None else Some (nat_of_digits s))"

definition parsePartial :: "string \<Rightarrow> semver_error + PartialVer" where
  "parsePartial input =
     (case match_part (strip_v (js_trim input)) of
        None \<Rightarrow> Inl (InvalidPartial input)
      | Some (a, r0) \<Rightarrow>
          (let (b, r1) = opt_dot_part r0; (c, r2) = opt_dot_part r1; (pre, r3) = opt_tag (CHR ''-'') r2
           in if r3 \<noteq> [] then Inl (InvalidPartial input)
              else if isX a then Inl (InvalidPartial input)
              else Inr \<lparr>pv_major = nat_of_digits a, pv_minor = part_num b, pv_patch = part_num c,
                        pv_prerelease = opt_tags pre\<rparr>))"

definition default0 :: "nat option \<Rightarrow> nat" where
  "default0 x = (case x of None \<Rightarrow> 0 | Some n \<Rightarrow> n)"

definition caretComparators :: "PartialVer \<Rightarrow> Comparator list" where
  "caretComparators v =
     (let ma = pv_major v; mi = default0 (pv_minor v); pa = default0 (pv_patch v);
          lower = ver ma mi pa (pv_prerelease v)
      in if ma > 0 then [cmpr OpGe lower, cmpr OpLt (ver (ma + 1) 0 0 [])]
         else if mi > 0 then [cmpr OpGe lower, cmpr OpLt (ver 0 (mi + 1) 0 [])]
         else [cmpr OpGe lower, cmpr OpLt (ver 0 0 (pa + 1) [])])"

definition tildeComparators :: "PartialVer \<Rightarrow> Comparator list" where
  "tildeComparators v =
     (case pv_minor v of
        None \<Rightarrow> [cmpr OpGe (ver (pv_major v) 0 0 (pv_prerelease v)),
                 cmpr OpLt (ver (pv_major v + 1) 0 0 [])]
      | Some mi \<Rightarrow> [cmpr OpGe (ver (pv_major v) mi (default0 (pv_patch v)) (pv_prerelease v)),
                    cmpr OpLt (ver (pv_major v) (mi + 1) 0 [])])"

definition completeVersionString :: "string \<Rightarrow> string" where
  "completeVersionString rest =
     (let normalized = strip_v (js_trim rest);
          parts = js_split (CHR ''-'') normalized;
          core = hd parts;
          pre = (if length parts > 1 then js_join ''-'' (tl parts) else []);
          segs = js_split (CHR ''.'') core;
          padded = segs @ replicate (3 - length segs) ''0'';
          base = js_join ''.'' (take 3 padded)
      in if pre \<noteq> [] then base @ ''-'' @ pre else base)"

text \<open>
  \<open>Number(s)\<close> on a segment without dots, kept only when it is a non-negative integer: the empty string
  is 0, radix prefixes are read, a sign and an exponent are allowed; everything else is \<open>NaN\<close>, negative,
  fractional or infinite, which the constructor rejects.
\<close>

definition radix_digit :: "nat \<Rightarrow> char \<Rightarrow> nat option" where
  "radix_digit b c =
     (let n = (of_char c :: nat);
          d = (if 48 \<le> n \<and> n \<le> 57 then n - 48
               else if 97 \<le> n \<and> n \<le> 102 then n - 87
               else if 65 \<le> n \<and> n \<le> 70 then n - 55 else b)
      in if d < b then Some d else None)"

fun radix_value :: "nat \<Rightarrow> nat \<Rightarrow> string \<Rightarrow> nat option" where
  "radix_value b acc [] = Some acc"
| "radix_value b acc (c # cs) =
     (case radix_digit b c of None \<Rightarrow> None | Some d \<Rightarrow> radix_value b (b * acc + d) cs)"

definition js_sign :: "string \<Rightarrow> bool \<times> string" where
  "js_sign s = (case s of [] \<Rightarrow> (False, []) | c # r \<Rightarrow>
     if c = CHR ''-'' then (True, r) else if c = CHR ''+'' then (False, r) else (False, s))"

definition decimal_value :: "string \<Rightarrow> nat option" where
  "decimal_value t =
     (let (neg, u) = js_sign t; d = fst (js_span js_digit u); r = snd (js_span js_digit u);
          signed = (\<lambda>n. if neg \<and> n > 0 then None else Some n)
      in if d = [] then None
         else case r of
             [] \<Rightarrow> signed (nat_of_digits d)
           | e # r' \<Rightarrow>
               (let (eneg, x) = js_sign r' in
                if (e = CHR ''e'' \<or> e = CHR ''E'') \<and> js_all_digits x then
                  (if \<not> eneg then signed (nat_of_digits d * 10 ^ nat_of_digits x)
                   else if nat_of_digits d mod 10 ^ nat_of_digits x = 0
                   then signed (nat_of_digits d div 10 ^ nat_of_digits x) else None)
                else None))"

definition js_number_seg :: "string \<Rightarrow> nat option" where
  "js_number_seg s =
     (let t = js_trim s in
      if t = [] then Some 0
      else case t of
          z # x # r \<Rightarrow>
            (if z = CHR ''0'' \<and> (x = CHR ''x'' \<or> x = CHR ''X'') then
               (if r = [] then None else radix_value 16 0 r)
             else if z = CHR ''0'' \<and> (x = CHR ''o'' \<or> x = CHR ''O'') then
               (if r = [] then None else radix_value 8 0 r)
             else if z = CHR ''0'' \<and> (x = CHR ''b'' \<or> x = CHR ''B'') then
               (if r = [] then None else radix_value 2 0 r)
             else decimal_value t)
        | _ \<Rightarrow> decimal_value t)"

definition expandXRange :: "string \<Rightarrow> semver_error + Comparator list" where
  "expandXRange rest =
     (let segs = js_split (CHR ''.'') (strip_v (js_trim rest));
          bound = (\<lambda>lo hi. case lo of Inl e \<Rightarrow> Inl e | Inr l \<Rightarrow>
                     (case hi of Inl e \<Rightarrow> Inl e | Inr h \<Rightarrow> Inr [cmpr OpGe l, cmpr OpLt h]));
          ma = js_number_seg (hd segs)
      in if isX (hd segs) then Inr []
         else case tl segs of
             [] \<Rightarrow> bound (new_SemVer ma (Some 0) (Some 0) [])
                        (new_SemVer (map_option Suc ma) (Some 0) (Some 0) [])
           | b # cs \<Rightarrow>
               if isX b then bound (new_SemVer ma (Some 0) (Some 0) [])
                                   (new_SemVer (map_option Suc ma) (Some 0) (Some 0) [])
               else (let mi = js_number_seg b in
                 case cs of
                   [] \<Rightarrow> bound (new_SemVer ma mi (Some 0) [])
                              (new_SemVer ma (map_option Suc mi) (Some 0) [])
                 | c # _ \<Rightarrow>
                     if isX c then bound (new_SemVer ma mi (Some 0) [])
                                         (new_SemVer ma (map_option Suc mi) (Some 0) [])
                     else (case new_SemVer ma mi (js_number_seg c) [] of
                             Inl e \<Rightarrow> Inl e | Inr v \<Rightarrow> Inr [cmpr OpEq v])))"

text \<open>
  \<open>/^([><]=?|=|==|\<backslash>^|~)?v?(.+)$/i\<close> on a token without blanks: the candidates in the order a
  backtracking engine tries them, the first with a non-empty rest being the match.
\<close>

definition op_candidates :: "string \<Rightarrow> (string option \<times> string) list" where
  "op_candidates t =
     (case t of [] \<Rightarrow> []
      | c # r \<Rightarrow>
          (if c = CHR ''>'' \<or> c = CHR ''<'' then
             (case r of [] \<Rightarrow> [] | d # r' \<Rightarrow> if d = CHR ''='' then [(Some [c, d], r')] else []) @ [(Some [c], r)]
           else if c = CHR ''='' then
             (Some ''='', r) # (case r of [] \<Rightarrow> [] | d # r' \<Rightarrow> if d = CHR ''='' then [(Some ''=='', r')] else [])
           else if c = CHR ''^'' then [(Some ''^'', r)]
           else if c = CHR ''~'' then [(Some ''~'', r)]
           else []))
     @ [(None, t)]"

definition v_candidates :: "string option \<times> string \<Rightarrow> (string option \<times> string) list" where
  "v_candidates p = (fst p, strip_v (snd p)) # [p]"

definition match_token :: "string \<Rightarrow> (string option \<times> string) option" where
  "match_token t = find (\<lambda>p. snd p \<noteq> []) (concat (map v_candidates (op_candidates t)))"

definition norm_op :: "string option \<Rightarrow> string" where
  "norm_op raw =
     (let o0 = (case raw of None \<Rightarrow> ''=='' | Some s \<Rightarrow> s);
          o1 = (if o0 = ''=>'' then ''>='' else o0);
          o2 = (if o1 = ''=<'' then ''<='' else o1)
      in if o2 = ''='' then ''=='' else o2)"

definition comparator_op :: "string \<Rightarrow> ComparatorOp option" where
  "comparator_op s =
     (if s = ''=='' then Some OpEq else if s = ''>'' then Some OpGt else if s = ''>='' then Some OpGe
      else if s = ''<'' then Some OpLt else if s = ''<='' then Some OpLe else None)"

definition js_lower :: "string \<Rightarrow> string" where
  "js_lower s = map (\<lambda>c. let n = (of_char c :: nat) in
     if (65 \<le> n \<and> n \<le> 90) \<or> (192 \<le> n \<and> n \<le> 222 \<and> n \<noteq> 215) then char_of (n + 32) else c) s"

definition expandToken :: "string \<Rightarrow> semver_error + Comparator list" where
  "expandToken token =
     (let t = js_trim token in
      if t = [] then Inr []
      else if t = ''*'' \<or> t = ''x'' \<or> t = ''X'' \<or> js_lower t = ''any'' then Inr []
      else case match_token t of
          None \<Rightarrow> Inl (InvalidToken token)
        | Some (raw, rest) \<Rightarrow>
            (let opRaw = norm_op raw in
             if list_ex (\<lambda>c. isX [c]) rest \<and> opRaw = ''=='' then expandXRange rest
             else if opRaw = ''^'' then
               (case parsePartial rest of Inl e \<Rightarrow> Inl e | Inr v \<Rightarrow> Inr (caretComparators v))
             else if opRaw = ''~'' then
               (case parsePartial rest of Inl e \<Rightarrow> Inl e | Inr v \<Rightarrow> Inr (tildeComparators v))
             else case comparator_op opRaw of
                 None \<Rightarrow> Inl (UnsupportedOperator opRaw token)
               | Some o' \<Rightarrow>
                   (case SemVer_parse (completeVersionString rest) of
                      Inl e \<Rightarrow> Inl e | Inr v \<Rightarrow> Inr [cmpr o' v])))"

text \<open>One side of the hyphen pattern: the matched text and the rest of the input.\<close>

definition match_side :: "string \<Rightarrow> (string \<times> string) option" where
  "match_side s0 =
     (let s = strip_v s0; d = fst (js_span js_digit s); r0 = snd (js_span js_digit s);
          txt = (\<lambda>lead x. case x of None \<Rightarrow> [] | Some w \<Rightarrow> lead # w) in
      if d = [] then None
      else
        (let (b, r1) = opt_dot_num r0; (c, r2) = opt_dot_num r1; (pre, r3) = opt_tag (CHR ''-'') r2
         in Some (d @ txt (CHR ''.'') b @ txt (CHR ''.'') c @ txt (CHR ''-'') pre, r3)))"

definition match_hyphen :: "string \<Rightarrow> (string \<times> string) option" where
  "match_hyphen work =
     (case match_side work of None \<Rightarrow> None
      | Some (lo, r) \<Rightarrow>
          (let w = fst (js_span js_ws r); r' = snd (js_span js_ws r) in
           if w = [] then None
           else case r' of [] \<Rightarrow> None
             | h # r2 \<Rightarrow>
                 (let w' = fst (js_span js_ws r2); r3 = snd (js_span js_ws r2) in
                  if h \<noteq> CHR ''-'' \<or> w' = [] then None
                  else case match_side r3 of None \<Rightarrow> None
                    | Some (hi, r4) \<Rightarrow> if r4 = [] then Some (lo, hi) else None)))"

definition expandGroupToComparators :: "string \<Rightarrow> semver_error + Comparator list" where
  "expandGroupToComparators groupStr =
     (let work = js_trim groupStr in
      case match_hyphen work of
        Some (lo, hi) \<Rightarrow>
          (case SemVer_parse lo of Inl e \<Rightarrow> Inl e
           | Inr l \<Rightarrow> (case SemVer_parse hi of Inl e \<Rightarrow> Inl e
               | Inr h \<Rightarrow> Inr [cmpr OpGe l, cmpr OpLe h]))
      | None \<Rightarrow>
          (case map_res expandToken (js_nonempty (map js_trim (js_split_ws work))) of
             Inl e \<Rightarrow> Inl e | Inr css \<Rightarrow> Inr (concat css)))"

definition range_any :: "bool \<Rightarrow> SemVerRange" where
  "range_any ip = \<lparr>range_groups = [[]], includePrerelease = ip\<rparr>"

definition parse_requirement :: "string \<Rightarrow> bool \<Rightarrow> semver_error + SemVerRange" where
  "parse_requirement requirement ip =
     (let raw = js_trim requirement in
      if raw = [] \<or> raw = ''*'' \<or> js_lower raw = ''any'' \<or> raw = ''x'' \<or> raw = ''X'' then Inr (range_any ip)
      else (let orGroups = js_nonempty (map js_trim (js_split_bars raw)) in
        if orGroups = [] then Inl (InvalidRequirement requirement)
        else case map_res expandGroupToComparators orGroups of
            Inl e \<Rightarrow> Inl e
          | Inr gs \<Rightarrow> Inr \<lparr>range_groups = gs, includePrerelease = ip\<rparr>))"

definition SemVerRange_parse :: "RangeInput \<Rightarrow> bool \<Rightarrow> semver_error + SemVerRange" where
  "SemVerRange_parse requirement ip =
     (case requirement of
        RStr s \<Rightarrow> parse_requirement s ip
      | RArr ss \<Rightarrow>
          (if ss = [] then Inr (range_any ip)
           else (let joined = js_nonempty (map js_trim ss) in
             if joined = [] then Inr (range_any ip)
             else parse_requirement (js_join '' '' joined) ip)))"

definition satisfiesGroup :: "bool \<Rightarrow> semver \<Rightarrow> Comparator list \<Rightarrow> bool" where
  "satisfiesGroup ip v g =
     (if g = [] then True
      else if \<not> ip \<and> hasPrerelease v \<and> \<not> list_ex (\<lambda>c. hasPrerelease (comp_version c)) g then False
      else list_all (\<lambda>c. compareWithOp v (comp_op c) (comp_version c)) g)"

definition range_satisfies :: "SemVerRange \<Rightarrow> semver \<Rightarrow> bool" where
  "range_satisfies r v = list_ex (satisfiesGroup (includePrerelease r) v) (range_groups r)"

definition SemVerRange_satisfies :: "string \<Rightarrow> RangeInput \<Rightarrow> bool \<Rightarrow> semver_error + bool" where
  "SemVerRange_satisfies current requirement ip =
     (case SemVer_parse current of Inl e \<Rightarrow> Inl e
      | Inr v \<Rightarrow> (case SemVerRange_parse requirement ip of Inl e \<Rightarrow> Inl e
          | Inr r \<Rightarrow> Inr (range_satisfies r v)))"

definition SemVer_satisfies :: "string \<Rightarrow> RangeInput \<Rightarrow> bool \<Rightarrow> semver_error + bool" where
  "SemVer_satisfies current requirement ip = SemVerRange_satisfies current requirement ip"

subsection \<open>Scanning lemmas\<close>

definition ident_char :: "char \<Rightarrow> bool" where
  "ident_char c = (js_digit c \<or> js_alpha c \<or> c = CHR ''-'')"

definition wf_prerelease :: "string list \<Rightarrow> bool" where
  "wf_prerelease pre = list_all (\<lambda>s. s \<noteq> [] \<and> list_all ident_char s) pre"

lemma js_digit_simps [simp]:
  "\<not> js_digit CHR ''.''" "\<not> js_digit CHR ''-''" "\<not> js_digit CHR ''+''" "\<not> js_digit CHR ''=''"
  "\<not> js_ws CHR ''=''" "\<not> js_ws CHR ''-''"
  by (simp_all add: js_digit_def js_ws_def)

lemma js_digit_neq:
  "js_digit c \<Longrightarrow> c \<noteq> CHR ''v'' \<and> c \<noteq> CHR ''V'' \<and> c \<noteq> CHR ''.'' \<and> c \<noteq> CHR ''-'' \<and> c \<noteq> CHR ''=''
     \<and> c \<noteq> CHR ''>'' \<and> c \<noteq> CHR ''<'' \<and> c \<noteq> CHR ''^'' \<and> c \<noteq> CHR ''~'' \<and> c \<noteq> CHR ''x'' \<and> c \<noteq> CHR ''X''
     \<and> c \<noteq> CHR ''*'' \<and> c \<noteq> CHR ''o'' \<and> c \<noteq> CHR ''O'' \<and> c \<noteq> CHR ''b'' \<and> c \<noteq> CHR ''B''"
  by (auto simp: js_digit_def)

lemma nat_to_str_Cons: "\<exists>c cs. nat_to_str n = c # cs \<and> js_digit c \<and> list_all js_digit cs"
  using nat_to_str_digits [of n] nat_to_str_nonempty [of n] by (cases "nat_to_str n") auto

lemma nat_to_str_no_char: "\<not> js_digit c \<Longrightarrow> c \<notin> set (nat_to_str n)"
  using nat_to_str_digits [of n] by (auto simp: list_all_iff)

lemma js_span_nat_to_str:
  "r = [] \<or> \<not> js_digit (hd r) \<Longrightarrow> js_span js_digit (nat_to_str n @ r) = (nat_to_str n, r)"
  by (rule js_span_append [OF nat_to_str_digits])

lemma strip_v_digit: "js_digit c \<Longrightarrow> strip_v (c # r) = c # r"
  using js_digit_neq [of c] by (simp add: strip_v_def)

lemma ident_char_tag: "ident_char c \<Longrightarrow> tag_char c"
  by (auto simp: ident_char_def tag_char_def)

lemma ident_char_props: "ident_char c \<Longrightarrow> \<not> js_ws c \<and> c \<noteq> CHR ''.''"
  by (auto simp: ident_char_def js_digit_def js_alpha_def js_ws_def)

lemma wf_prerelease_no_dot: "wf_prerelease pre \<Longrightarrow> \<forall>s \<in> set pre. CHR ''.'' \<notin> set s"
  by (fastforce simp: wf_prerelease_def list_all_iff dest: ident_char_props)

lemma wf_prerelease_join:
  assumes "wf_prerelease pre"
  shows "list_all tag_char (js_join ''.'' pre)"
proof -
  have "\<forall>c \<in> set (js_join ''.'' pre). c = CHR ''.'' \<or> ident_char c"
    using set_js_join [of "''.''" pre] assms by (fastforce simp: wf_prerelease_def list_all_iff)
  then show ?thesis
    unfolding list_all_iff by (metis ident_char_tag tag_char_def)
qed

lemma wf_prerelease_join_nonempty:
  "wf_prerelease pre \<Longrightarrow> pre \<noteq> [] \<Longrightarrow> js_join ''.'' pre \<noteq> []"
  by (rule js_join_eq_Nil) (auto simp: wf_prerelease_def list_all_iff)

lemma opt_tags_join:
  assumes "wf_prerelease pre" "pre \<noteq> []"
  shows "opt_tags (Some (js_join ''.'' pre)) = pre"
proof -
  have "js_split (CHR ''.'') (js_join ''.'' pre) = pre"
    by (rule js_split_join [OF assms(2) wf_prerelease_no_dot [OF assms(1)]])
  moreover have "js_nonempty pre = pre"
    using assms(1) by (simp add: js_nonempty_def filter_id_conv wf_prerelease_def list_all_iff)
  ultimately show ?thesis
    using wf_prerelease_join_nonempty [OF assms] by (simp add: opt_tags_def)
qed

definition pre_suffix :: "string list \<Rightarrow> string" where
  "pre_suffix pre = (if pre = [] then [] else CHR ''-'' # js_join ''.'' pre)"

lemma SemVer_toString_suffix:
  "SemVer_toString v = nat_to_str (major v) @ CHR ''.'' # nat_to_str (minor v) @ CHR ''.'' #
     nat_to_str (patch v) @ pre_suffix (prerelease v)"
  by (simp add: SemVer_toString_def pre_suffix_def Let_def)

lemma SemVer_toString_last:
  assumes "wf_prerelease (prerelease v)"
  shows "\<not> js_ws (last (SemVer_toString v))"
proof (cases "prerelease v = []")
  case True
  have "js_digit (last (nat_to_str (patch v)))"
    using nat_to_str_digits [of "patch v"] by (simp add: list_all_iff)
  with True show ?thesis
    by (auto simp: SemVer_toString_suffix pre_suffix_def dest: js_digit_not_ws)
next
  case False
  let ?j = "js_join ''.'' (prerelease v)"
  have ne: "?j \<noteq> []"
    using assms False by (rule wf_prerelease_join_nonempty)
  then have "tag_char (last ?j)"
    using wf_prerelease_join [OF assms] by (simp add: list_all_iff)
  then have "\<not> js_ws (last ?j)"
    by (auto simp: tag_char_def js_digit_def js_alpha_def js_ws_def)
  with ne False show ?thesis
    by (simp add: SemVer_toString_suffix pre_suffix_def)
qed

lemma js_trim_toString:
  assumes "wf_prerelease (prerelease v)"
  shows "js_trim (SemVer_toString v) = SemVer_toString v"
proof (rule js_trim_no_ws)
  obtain c cs where c: "nat_to_str (major v) = c # cs" "js_digit c"
    using nat_to_str_Cons by blast
  then have "\<not> js_ws (hd (SemVer_toString v))"
    by (simp add: SemVer_toString_suffix js_digit_not_ws)
  with SemVer_toString_last [OF assms]
  show "SemVer_toString v = [] \<or>
      \<not> js_ws (hd (SemVer_toString v)) \<and> \<not> js_ws (last (SemVer_toString v))" by blast
qed

lemma opt_dot_num_digits:
  "r = [] \<or> \<not> js_digit (hd r) \<Longrightarrow> opt_dot_num (CHR ''.'' # nat_to_str n @ r) = (Some (nat_to_str n), r)"
  by (simp add: opt_dot_num_def js_span_nat_to_str)

lemma opt_tag_suffix:
  "wf_prerelease pre \<Longrightarrow> opt_tag (CHR ''-'') (pre_suffix pre) =
     (if pre = [] then None else Some (js_join ''.'' pre), [])"
  using js_span_append [OF wf_prerelease_join, of pre "[]"] wf_prerelease_join_nonempty [of pre]
  by (simp add: opt_tag_def pre_suffix_def)

lemma match_version_toString:
  assumes "wf_prerelease (prerelease v)"
  shows "match_version (SemVer_toString v) =
     Some (nat_to_str (major v), Some (nat_to_str (minor v)), Some (nat_to_str (patch v)),
       if prerelease v = [] then None else Some (js_join ''.'' (prerelease v)))"
proof -
  have suffix: "pre_suffix (prerelease v) = [] \<or> \<not> js_digit (hd (pre_suffix (prerelease v)))"
    by (simp add: pre_suffix_def)
  show ?thesis
    unfolding match_version_def SemVer_toString_suffix
    using suffix opt_tag_suffix [OF assms]
    by (simp add: js_span_nat_to_str opt_dot_num_digits opt_tag_def [of "CHR ''+''"])
qed

subsection \<open>Range lemmas\<close>

lemma compareWithOp_simps [simp]:
  "compareWithOp v OpGt r \<longleftrightarrow> semver_key r < semver_key v"
  "compareWithOp v OpGe r \<longleftrightarrow> semver_key r \<le> semver_key v"
  "compareWithOp v OpLt r \<longleftrightarrow> semver_key v < semver_key r"
  "compareWithOp v OpLe r \<longleftrightarrow> semver_key v \<le> semver_key r"
  "compareWithOp v OpEq r \<longleftrightarrow> semver_key v = semver_key r"
  by (simp_all add: compareWithOp_def semver.cmp_less semver.cmp_greater semver.cmp_zero
      semver.cmp_le semver.cmp_ge)

text \<open>A comparator set without \<open>==\<close> holes accepts an interval of the precedence order.\<close>

lemma compareWithOp_convex:
  assumes "semver_key lo \<le> semver_key v" "semver_key v \<le> semver_key hi"
    and "compareWithOp lo o' r" "compareWithOp hi o' r"
  shows "compareWithOp v o' r"
  using assms by (cases o') auto

lemma release_key:
  "prerelease v = [] \<Longrightarrow> semver_key v = (major v, minor v, patch v, True, [])"
  by (simp add: semver_key_def)

lemma release_ge_iff:
  "prerelease v = [] \<Longrightarrow> semver_key (ver a b c pre) \<le> semver_key v \<longleftrightarrow>
     (a, b, c) \<le> (major v, minor v, patch v)"
  by (auto simp: semver_key_def)

lemma release_less_iff:
  "prerelease v = [] \<Longrightarrow> semver_key v < semver_key (ver a b c []) \<longleftrightarrow>
     (major v, minor v, patch v) < (a, b, c)"
  by (auto simp: semver_key_def)

lemma satisfiesGroup_release:
  "prerelease v = [] \<Longrightarrow> satisfiesGroup ip v g \<longleftrightarrow>
     list_all (\<lambda>c. compareWithOp v (comp_op c) (comp_version c)) g"
  by (simp add: satisfiesGroup_def hasPrerelease_def)

lemma match_token_head:
  assumes "\<not> (c = CHR ''>'' \<or> c = CHR ''<'' \<or> c = CHR ''='' \<or> c = CHR ''^'' \<or> c = CHR ''~'')"
    and "c \<noteq> CHR ''v''" "c \<noteq> CHR ''V''"
  shows "match_token (c # r) = Some (None, c # r)"
  using assms by (simp add: match_token_def op_candidates_def v_candidates_def strip_v_def)

lemma js_sign_digit: "js_digit c \<Longrightarrow> js_sign (c # r) = (False, c # r)"
  by (auto simp: js_sign_def js_digit_def)

lemma js_sign_nat_to_str: "js_sign (nat_to_str n @ r) = (False, nat_to_str n @ r)"
  using nat_to_str_Cons [of n] by (auto simp: js_sign_digit)

lemma js_number_seg_nat_to_str [simp]: "js_number_seg (nat_to_str n) = Some n"
proof -
  obtain c cs where c: "nat_to_str n = c # cs" "js_digit c" "list_all js_digit cs"
    using nat_to_str_Cons by blast
  have trim: "js_trim (nat_to_str n) = nat_to_str n"
  proof (rule js_trim_no_ws)
    have "\<forall>x \<in> set (nat_to_str n). \<not> js_ws x"
      using nat_to_str_digits [of n] js_digit_not_ws by (simp add: list_all_iff)
    then show "nat_to_str n = [] \<or> \<not> js_ws (hd (nat_to_str n)) \<and> \<not> js_ws (last (nat_to_str n))"
      using nat_to_str_nonempty [of n] hd_in_set last_in_set by blast
  qed
  have dec: "decimal_value (nat_to_str n) = Some n"
  proof -
    show ?thesis
      using js_span_nat_to_str [of "[]" n] js_sign_nat_to_str [of n "[]"] by (simp add: decimal_value_def)
  qed
  show ?thesis
  proof (cases cs)
    case Nil
    with c trim dec show ?thesis by (simp add: js_number_seg_def)
  next
    case (Cons d ds)
    with c have "js_digit d" by simp
    with Cons c trim dec js_digit_neq [of d] show ?thesis
      by (simp add: js_number_seg_def)
  qed
qed

lemma js_number_seg_dash: "js_number_seg (nat_to_str n @ CHR ''-'' # w) = None"
proof -
  let ?s = "nat_to_str n @ CHR ''-'' # w"
  obtain c cs where c: "nat_to_str n = c # cs" "js_digit c" "list_all js_digit cs"
    using nat_to_str_Cons by blast
  obtain w' where trim: "js_trim ?s = nat_to_str n @ CHR ''-'' # w'"
  proof
    let ?w = "rev (dropWhile js_ws (rev w))"
    show "js_trim ?s = nat_to_str n @ CHR ''-'' # ?w"
      using c by (simp add: js_trim_def js_digit_not_ws dropWhile_append)
  qed
  let ?t = "nat_to_str n @ CHR ''-'' # w'"
  have dec: "decimal_value ?t = None"
  proof -
    show ?thesis
      using js_span_nat_to_str [of "CHR ''-'' # w'" n] js_sign_nat_to_str [of n "CHR ''-'' # w'"]
      by (simp add: decimal_value_def split: prod.splits)
  qed
  show ?thesis
  proof (cases cs)
    case Nil
    with c dec trim show ?thesis by (simp add: js_number_seg_def)
  next
    case (Cons d ds)
    with c have "js_digit d" by simp
    with Cons c trim dec js_digit_neq [of d] show ?thesis
      by (simp add: js_number_seg_def)
  qed
qed

lemma js_split_head_Cons:
  "x \<noteq> c \<Longrightarrow> \<exists>w ws. js_split c (x # s) = (x # w) # ws"
  by (cases "js_split c s") auto

lemma js_join_head_Cons: "\<exists>w. js_join sep ((x # y) # ys) = x # w"
  by (cases ys) auto

lemma SemVer_parse_eq_sign: "\<exists>e. SemVer_parse (CHR ''='' # w) = Inl e"
proof -
  obtain u where u: "js_trim (CHR ''='' # w) = CHR ''='' # u"
    by (simp add: js_trim_Cons)
  have "match_version (CHR ''='' # u) = None"
    by (simp add: match_version_def js_span_def)
  with u show ?thesis
    by (simp add: SemVer_parse_def strip_v_def)
qed

lemma completeVersionString_eq_sign: "\<exists>w. completeVersionString (CHR ''='' # r) = CHR ''='' # w"
proof -
  obtain u where u: "js_trim (CHR ''='' # r) = CHR ''='' # u"
    by (simp add: js_trim_Cons)
  obtain p ps where p: "js_split (CHR ''-'') (CHR ''='' # u) = (CHR ''='' # p) # ps"
    using js_split_head_Cons [of "CHR ''=''" "CHR ''-''"] by fastforce
  obtain q qs where q: "js_split (CHR ''.'') (CHR ''='' # p) = (CHR ''='' # q) # qs"
    using js_split_head_Cons [of "CHR ''=''" "CHR ''.''"] by fastforce
  let ?t = "take 2 (qs @ replicate (2 - length qs) ''0'')"
  obtain w where "js_join ''.'' ((CHR ''='' # q) # ?t) = CHR ''='' # w"
    using js_join_head_Cons by blast
  with u p q show ?thesis
    by (simp add: completeVersionString_def strip_v_def numeral_3_eq_3 numeral_2_eq_2 Let_def del: js_join.simps)
qed

lemma expandXRange_eq_sign: "\<exists>e. expandXRange (CHR ''='' # r) = Inl e"
proof -
  obtain u where u: "js_trim (CHR ''='' # r) = CHR ''='' # u"
    by (simp add: js_trim_Cons)
  obtain q qs where q: "js_split (CHR ''.'') (CHR ''='' # u) = (CHR ''='' # q) # qs"
    using js_split_head_Cons [of "CHR ''=''" "CHR ''.''"] by fastforce
  obtain q' where q': "js_trim (CHR ''='' # q) = CHR ''='' # q'"
    by (simp add: js_trim_Cons)
  have "decimal_value (CHR ''='' # q') = None"
    by (simp add: decimal_value_def js_sign_def js_span_def)
  with q' have "js_number_seg (CHR ''='' # q) = None"
    by (cases q') (simp_all add: js_number_seg_def)
  with u q show ?thesis
    by (auto simp: expandXRange_def strip_v_def new_SemVer_def isX_def Let_def split: list.splits)
qed

subsection \<open>Properties\<close>

text \<open>
  C37. \<open>compare\<close> is the precedence order of semantic versions: it is the sign of the comparison of the
  keys (triple, release flag, identifiers), which live in a linear order, so it is antisymmetric,
  transitive and total, and sorting an array with it sorts by precedence, stably.
\<close>

theorem compare_is_precedence:
  "SemVer_compare a b = sign_cmp (semver_key a) (semver_key b) \<and>
   SemVer_compare b a = - SemVer_compare a b \<and>
   js_sort_by SemVer_compare vs = sort_key semver_key vs \<and>
   (isLessThan a b \<noteq> isGreaterThanOrEqual a b) \<and> (isGreaterThan a b \<noteq> isLessThanOrEqual a b)"
  by (simp add: SemVer_compare_key semver.js_sort_by_sort_key isLessThan_def isGreaterThanOrEqual_def
      isGreaterThan_def isLessThanOrEqual_def) (auto simp: sign_cmp_def)

text \<open>
  C38. Printing a version and parsing it back gives the version, for every version whose prerelease
  identifiers are non-empty words over \<open>[0-9A-Za-z-]\<close>.
\<close>

theorem parse_toString:
  assumes "wf_prerelease (prerelease v)"
  shows "SemVer_parse (SemVer_toString v) = Inr v"
proof -
  obtain c cs where c: "SemVer_toString v = c # cs" "js_digit c"
    using nat_to_str_Cons [of "major v"] by (auto simp: SemVer_toString_suffix)
  then have "strip_v (js_trim (SemVer_toString v)) = SemVer_toString v"
    by (metis js_trim_toString [OF assms] strip_v_digit)
  then show ?thesis
    using c match_version_toString [OF assms] opt_tags_join [OF assms]
    by (simp add: SemVer_parse_def new_SemVer_def opt_num_def opt_tags_def [of None])
qed

theorem parse_toString_witness:
  "SemVer_parse (SemVer_toString (ver 1 20 3 [''rc-1'', ''7''])) = Inr (ver 1 20 3 [''rc-1'', ''7''])"
  by (rule parse_toString) (simp add: wf_prerelease_def ident_char_def js_digit_def js_alpha_def)

text \<open>
  A caret requirement accepts exactly the releases that are at least its (zero-filled) base and
  agree with it up to the left-most non-zero part.  When every part is zero or missing it accepts
  \<open>0.0.0\<close> only: \<open>^0\<close> and \<open>^0.0\<close> exclude \<open>0.0.1\<close>.
\<close>

theorem caret_accepts:
  assumes "prerelease v = []"
  shows "satisfiesGroup ip v (caretComparators p) \<longleftrightarrow>
    (let ma = pv_major p; mi = default0 (pv_minor p); pa = default0 (pv_patch p) in
      (ma, mi, pa) \<le> (major v, minor v, patch v) \<and>
      (if ma > 0 then major v = ma
       else if mi > 0 then major v = 0 \<and> minor v = mi
       else major v = 0 \<and> minor v = 0 \<and> patch v = pa))"
  unfolding satisfiesGroup_release [OF assms]
  by (auto simp: caretComparators_def Let_def release_ge_iff [OF assms] release_less_iff [OF assms])

theorem caret_accepts_witness:
  "satisfiesGroup False (ver 0 4 7 []) (caretComparators \<lparr>pv_major = 0, pv_minor = Some 4, pv_patch = None, pv_prerelease = []\<rparr>)
   \<and> \<not> satisfiesGroup False (ver 0 0 1 []) (caretComparators \<lparr>pv_major = 0, pv_minor = None, pv_patch = None, pv_prerelease = []\<rparr>)"
  by (simp add: caret_accepts default0_def)

text \<open>
  A tilde requirement accepts exactly the releases that are at least its base and agree with it on
  the major and, when it names one, the minor part.
\<close>

theorem tilde_accepts:
  assumes "prerelease v = []"
  shows "satisfiesGroup ip v (tildeComparators p) \<longleftrightarrow>
    major v = pv_major p \<and>
    (case pv_minor p of None \<Rightarrow> True
     | Some mi \<Rightarrow> minor v = mi \<and> default0 (pv_patch p) \<le> patch v)"
  unfolding satisfiesGroup_release [OF assms]
  by (auto simp: tildeComparators_def release_ge_iff [OF assms] release_less_iff [OF assms]
      split: option.splits)

theorem tilde_accepts_witness:
  "satisfiesGroup False (ver 2 1 9 []) (tildeComparators \<lparr>pv_major = 2, pv_minor = Some 1, pv_patch = Some 3, pv_prerelease = []\<rparr>)"
  by (simp add: tilde_accepts default0_def)

text \<open>
  The operator \<open>==\<close>, listed among the operators of the grammar, is never accepted: the pattern takes
  the first \<open>=\<close> as the operator and leaves the second in the version, so every token that starts with
  \<open>==\<close> throws.
\<close>

theorem double_equals_throws: "\<exists>e. expandToken (''=='' @ r) = Inl e"
proof -
  obtain u where u: "js_trim (''=='' @ r) = CHR ''='' # CHR ''='' # u"
    using js_trim_Cons2 [of "CHR ''=''" "CHR ''=''" r] by auto
  have m: "match_token (CHR ''='' # CHR ''='' # u) = Some (Some ''='', CHR ''='' # u)"
    by (simp add: match_token_def op_candidates_def v_candidates_def strip_v_def)
  have lower: "js_lower (CHR ''='' # CHR ''='' # u) \<noteq> ''any''"
    by (simp add: js_lower_def)
  obtain w where w: "completeVersionString (CHR ''='' # u) = CHR ''='' # w"
    using completeVersionString_eq_sign by blast
  obtain e where e: "SemVer_parse (CHR ''='' # w) = Inl e"
    using SemVer_parse_eq_sign by blast
  obtain e' where e': "expandXRange (CHR ''='' # u) = Inl e'"
    using expandXRange_eq_sign by blast
  show ?thesis
    using u m lower w e e' by (simp add: expandToken_def norm_op_def comparator_op_def Let_def)
qed

text \<open>
  A prerelease that contains an \<open>x\<close>, \<open>X\<close> (for example \<open>1.5.0-next.1\<close>) can be parsed as a version, but
  the same text used as an exact requirement throws, because the token is taken for a wildcard range.
\<close>

theorem exact_prerelease_with_x_throws:
  assumes "wf_prerelease (prerelease v)" and "CHR ''x'' \<in> \<Union> (set ` set (prerelease v))"
  shows "expandToken (SemVer_toString v) = Inl InvalidPatch"
proof -
  let ?t = "SemVer_toString v" and ?pre = "prerelease v"
  obtain c cs where c: "?t = c # cs" "js_digit c"
    using nat_to_str_Cons [of "major v"] by (auto simp: SemVer_toString_suffix)
  from assms(2) obtain p ps where pre: "?pre = p # ps"
    by (cases ?pre) auto
  have x: "list_ex (\<lambda>c. isX [c]) ?t"
  proof -
    from assms(2) obtain w where w: "w \<in> set ?pre" "CHR ''x'' \<in> set w" by blast
    have "set w \<subseteq> set (js_join ''.'' ?pre)"
      using w(1) by (rule set_in_js_join)
    with w(2) pre have "CHR ''x'' \<in> set ?t"
      by (auto simp: SemVer_toString_suffix pre_suffix_def)
    then show ?thesis by (auto simp: list_ex_iff isX_def)
  qed
  have m: "match_token ?t = Some (None, ?t)"
    using c js_digit_neq [OF c(2)] by (auto intro!: match_token_head)
  have nx: "?t \<noteq> ''*'' \<and> ?t \<noteq> ''x'' \<and> ?t \<noteq> ''X'' \<and> js_lower ?t \<noteq> ''any''"
  proof -
    have "js_lower ?t = c # js_lower cs"
      using c by (simp add: js_lower_def js_digit_def Let_def)
    moreover have "c \<noteq> CHR ''a''"
      using c(2) by (auto simp: js_digit_def)
    ultimately show ?thesis
      using c(1) js_digit_neq [OF c(2)] by simp
  qed
  have nd: "CHR ''.'' \<notin> set (nat_to_str n)" for n
    by (rule nat_to_str_no_char) simp
  obtain q qs where q: "js_split (CHR ''.'') (nat_to_str (patch v) @ CHR ''-'' # js_join ''.'' ?pre)
      = (nat_to_str (patch v) @ CHR ''-'' # q) # qs"
  proof -
    obtain q qs where "js_split (CHR ''.'') (CHR ''-'' # js_join ''.'' ?pre) = (CHR ''-'' # q) # qs"
      using js_split_head_Cons [of "CHR ''-''" "CHR ''.''"] by fastforce
    then have
      "js_split (CHR ''.'') (nat_to_str (patch v) @ CHR ''-'' # js_join ''.'' ?pre)
        = (nat_to_str (patch v) @ CHR ''-'' # q) # qs"
      by (simp only: js_split_prefix [OF nd] list.sel)
    then show thesis by (rule that)
  qed
  have segs: "js_split (CHR ''.'') ?t =
      nat_to_str (major v) # nat_to_str (minor v) # (nat_to_str (patch v) @ CHR ''-'' # q) # qs"
    using pre q by (simp add: SemVer_toString_suffix pre_suffix_def js_split_append nd)
  have nX: "\<not> isX (nat_to_str n)" for n
    using nat_to_str_Cons [of n] by (auto simp: isX_def js_digit_def)
  have nX': "\<not> isX (nat_to_str n @ CHR ''-'' # q)" for n
    using nat_to_str_Cons [of n] by (auto simp: isX_def)
  have t: "?t \<noteq> []" "strip_v ?t = ?t" "js_trim ?t = ?t"
    using c strip_v_digit [OF c(2), of cs] js_trim_toString [OF assms(1)] by simp_all
  have "expandXRange ?t = Inl InvalidPatch"
    using t segs nX nX' by (simp add: expandXRange_def js_number_seg_dash new_SemVer_def)
  then show ?thesis
    using t x m nx by (simp add: expandToken_def norm_op_def)
qed

theorem exact_prerelease_with_x_throws_witness:
  "expandToken (SemVer_toString (ver 1 5 0 [''next'', ''1''])) = Inl InvalidPatch"
  by (rule exact_prerelease_with_x_throws)
    (simp_all add: wf_prerelease_def ident_char_def js_digit_def js_alpha_def)

end
