(* ===== verification/TTLCache.thy ===== *)
theory TTLCache
  imports JsString
begin

text \<open>
  \<open>src/core/helpers/cache.ts\<close>: the bounded cache with expiry and the registry of named caches.  The
  clock is an argument (\<open>Date.now()\<close> in milliseconds), the entries are an insertion-ordered map.  The
  invariant \<open>cache_ok\<close> (no duplicate key, never more entries than \<open>maxSize\<close>) is kept by every operation;
  the background timer is the operation \<open>cleanup\<close> issued at arbitrary times.
\<close>

subsection \<open>State and operations\<close>

record 'v CacheItem =
  item_value :: 'v
  expiresAt :: "int option"

record ('k, 'v) TTLCache =
  maxSize :: int
  defaultTTL :: "int option"
  cdata :: "('k, 'v CacheItem) jsmap"
  hits :: nat
  misses :: nat
  expiredCount :: nat
  evictedCount :: nat

datatype cache_error = MaxSizeNotPositive

definition new_TTLCache :: "int option \<Rightarrow> int option \<Rightarrow> cache_error + ('k, 'v) TTLCache" where
  "new_TTLCache ms ttl =
     (let m = (case ms of None \<Rightarrow> 1024 | Some n \<Rightarrow> n) in
      if m \<le> 0 then Inl MaxSizeNotPositive
      else Inr \<lparr>maxSize = m, defaultTTL = ttl, cdata = [], hits = 0, misses = 0,
                expiredCount = 0, evictedCount = 0\<rparr>)"

definition is_expired :: "int \<Rightarrow> 'v CacheItem \<Rightarrow> bool" where
  "is_expired now it = (case expiresAt it of None \<Rightarrow> False | Some t \<Rightarrow> now \<ge> t)"

definition calculateExpiry :: "('k, 'v) TTLCache \<Rightarrow> int \<Rightarrow> int option \<Rightarrow> int option" where
  "calculateExpiry c now ttl =
     (case (case ttl of Some t \<Rightarrow> Some t | None \<Rightarrow> defaultTTL c) of
        None \<Rightarrow> None
      | Some t \<Rightarrow> if t = 0 then None else Some (now + t))"

definition evictOne :: "('k, 'v) TTLCache \<Rightarrow> ('k, 'v) TTLCache" where
  "evictOne c =
     (case cdata c of [] \<Rightarrow> c
      | p # _ \<Rightarrow> c\<lparr>cdata := jm_delete (cdata c) (fst p), evictedCount := Suc (evictedCount c)\<rparr>)"

definition cache_set ::
  "('k, 'v) TTLCache \<Rightarrow> int \<Rightarrow> 'k \<Rightarrow> 'v \<Rightarrow> int option \<Rightarrow> ('k, 'v) TTLCache" where
  "cache_set c now k v ttl =
     (let exp = calculateExpiry c now ttl;
          d = (if jm_has (cdata c) k then jm_delete (cdata c) k else cdata c);
          c' = c\<lparr>cdata := jm_set d k \<lparr>item_value = v, expiresAt = exp\<rparr>\<rparr>
      in if int (length (cdata c')) > maxSize c' then evictOne c' else c')"

definition cache_get :: "('k, 'v) TTLCache \<Rightarrow> int \<Rightarrow> 'k \<Rightarrow> 'v option \<times> ('k, 'v) TTLCache" where
  "cache_get c now k =
     (case jm_get (cdata c) k of
        None \<Rightarrow> (None, c\<lparr>misses := Suc (misses c)\<rparr>)
      | Some it \<Rightarrow>
          if is_expired now it then
            (None, c\<lparr>cdata := jm_delete (cdata c) k, expiredCount := Suc (expiredCount c),
                     misses := Suc (misses c)\<rparr>)
          else (Some (item_value it), c\<lparr>hits := Suc (hits c)\<rparr>))"

definition cache_has :: "('k, 'v) TTLCache \<Rightarrow> int \<Rightarrow> 'k \<Rightarrow> bool \<times> ('k, 'v) TTLCache" where
  "cache_has c now k =
     (case jm_get (cdata c) k of
        None \<Rightarrow> (False, c)
      | Some it \<Rightarrow>
          if is_expired now it then
            (False, c\<lparr>cdata := jm_delete (cdata c) k, expiredCount := Suc (expiredCount c)\<rparr>)
          else (True, c))"

definition cache_delete :: "('k, 'v) TTLCache \<Rightarrow> 'k \<Rightarrow> bool \<times> ('k, 'v) TTLCache" where
  "cache_delete c k = (jm_has (cdata c) k, c\<lparr>cdata := jm_delete (cdata c) k\<rparr>)"

definition cache_entries :: "('k, 'v) TTLCache \<Rightarrow> int \<Rightarrow> ('k \<times> 'v) list" where
  "cache_entries c now =
     map (\<lambda>p. (fst p, item_value (snd p))) (filter (\<lambda>p. \<not> is_expired now (snd p)) (cdata c))"

definition cache_cleanup :: "('k, 'v) TTLCache \<Rightarrow> int \<Rightarrow> ('k, 'v) TTLCache" where
  "cache_cleanup c now =
     (let purged = length (filter (\<lambda>p. is_expired now (snd p)) (cdata c));
          c' = c\<lparr>cdata := filter (\<lambda>p. \<not> is_expired now (snd p)) (cdata c)\<rparr>
      in if purged > 0 then c'\<lparr>expiredCount := expiredCount c + purged\<rparr> else c')"

definition cache_clear :: "('k, 'v) TTLCache \<Rightarrow> ('k, 'v) TTLCache" where
  "cache_clear c = c\<lparr>cdata := [], hits := 0, misses := 0\<rparr>"

record CacheStats =
  st_size :: nat
  st_hits :: nat
  st_misses :: nat
  st_expired :: nat
  st_evicted :: nat

definition cache_stats :: "('k, 'v) TTLCache \<Rightarrow> CacheStats" where
  "cache_stats c = \<lparr>st_size = length (cdata c), st_hits = hits c, st_misses = misses c,
     st_expired = expiredCount c, st_evicted = evictedCount c\<rparr>"

text \<open>The module-level registry: caches are identified by a number.\<close>

type_synonym cache_registry = "(string, nat) jsmap"

definition registerCache :: "cache_registry \<Rightarrow> string \<Rightarrow> nat \<Rightarrow> cache_registry" where
  "registerCache r name cache =
     (let key = js_trim name in if key = [] then r else jm_set r key cache)"

definition getRegisteredCache :: "cache_registry \<Rightarrow> string \<Rightarrow> nat option" where
  "getRegisteredCache r name = jm_get r name"

definition unregisterCache :: "cache_registry \<Rightarrow> string \<Rightarrow> nat option \<Rightarrow> cache_registry" where
  "unregisterCache r name cache =
     (case jm_get r name of None \<Rightarrow> r
      | Some existing \<Rightarrow>
          (case cache of
             Some c \<Rightarrow> if existing \<noteq> c then r else jm_delete r name
           | None \<Rightarrow> jm_delete r name))"

subsection \<open>Histories\<close>

datatype ('k, 'v) cache_op =
    Do_set int 'k 'v "int option"
  | Do_get int 'k
  | Do_has int 'k
  | Do_delete 'k
  | Do_cleanup int
  | Do_clear

fun cache_step :: "('k, 'v) TTLCache \<Rightarrow> ('k, 'v) cache_op \<Rightarrow> ('k, 'v) TTLCache" where
  "cache_step c (Do_set now k v ttl) = cache_set c now k v ttl"
| "cache_step c (Do_get now k) = snd (cache_get c now k)"
| "cache_step c (Do_has now k) = snd (cache_has c now k)"
| "cache_step c (Do_delete k) = snd (cache_delete c k)"
| "cache_step c (Do_cleanup now) = cache_cleanup c now"
| "cache_step c Do_clear = cache_clear c"

definition cache_run :: "('k, 'v) TTLCache \<Rightarrow> ('k, 'v) cache_op list \<Rightarrow> ('k, 'v) TTLCache" where
  "cache_run c ops = foldl cache_step c ops"

definition cache_ok :: "('k, 'v) TTLCache \<Rightarrow> bool" where
  "cache_ok c = (jm_wf (cdata c) \<and> int (length (cdata c)) \<le> maxSize c \<and> maxSize c > 0)"

text \<open>How many reads the history has since its last \<open>clear\<close>.\<close>

fun reads_since_clear :: "nat \<Rightarrow> ('k, 'v) cache_op list \<Rightarrow> nat" where
  "reads_since_clear n [] = n"
| "reads_since_clear n (Do_get now k # ops) = reads_since_clear (Suc n) ops"
| "reads_since_clear n (Do_clear # ops) = reads_since_clear 0 ops"
| "reads_since_clear n (_ # ops) = reads_since_clear n ops"

subsection \<open>Lemmas\<close>

lemmas cache_defs = cache_set_def cache_get_def cache_has_def cache_delete_def cache_cleanup_def
  cache_clear_def evictOne_def

lemma jm_has_absent [simp]: "\<not> jm_has m k \<Longrightarrow> jm_get m k = None"
  by (auto simp: jm_has_iff)

lemma set_data:
  "(if jm_has d k then jm_delete d k else d) = filter (\<lambda>p. fst p \<noteq> k) d"
  by (auto simp: jm_delete_filter jm_has_def map_of_eq_None_iff image_iff intro!: filter_True [symmetric])

lemma jm_set_filter: "jm_set (filter (\<lambda>p. fst p \<noteq> k) d) k v = filter (\<lambda>p. fst p \<noteq> k) d @ [(k, v)]"
  by (rule jm_set_new) (simp add: jm_get_filter_keys [where P = "\<lambda>x. x \<noteq> k"])

text \<open>What \<open>set\<close> leaves: the other entries in order, the new one last, the first one dropped on overflow.\<close>

lemma cache_set_data:
  assumes "jm_wf (cdata c)"
  shows "cdata (cache_set c now k v ttl) =
    (let d = filter (\<lambda>p. fst p \<noteq> k) (cdata c) @ [(k, \<lparr>item_value = v, expiresAt = calculateExpiry c now ttl\<rparr>)]
     in if int (length d) > maxSize c then tl d else d)"
proof -
  define d where "d = filter (\<lambda>p. fst p \<noteq> k) (cdata c) @
    [(k, \<lparr>item_value = v, expiresAt = calculateExpiry c now ttl\<rparr>)]"
  have "jm_wf d"
    using assms by (auto simp: d_def jm_wf_def distinct_map_filter)
  then have "d = p # r \<Longrightarrow> jm_delete d (fst p) = r" for p r
    by (auto simp: jm_delete_first)
  moreover have "cache_set c now k v ttl = (let c' = c\<lparr>cdata := d\<rparr> in
      if int (length d) > maxSize c then evictOne c' else c')"
    by (simp add: cache_set_def set_data jm_set_filter d_def Let_def)
  ultimately show ?thesis
    unfolding d_def [symmetric] by (cases d) (auto simp: evictOne_def Let_def)
qed

lemma cache_set_frame:
  "maxSize (cache_set c now k v ttl) = maxSize c"
  "hits (cache_set c now k v ttl) = hits c"
  "misses (cache_set c now k v ttl) = misses c"
  by (simp_all add: cache_set_def evictOne_def Let_def split: list.splits)

lemma cache_set_ok [wf_intros]:
  assumes "cache_ok c"
  shows "cache_ok (cache_set c now k v ttl)"
proof -
  let ?d = "filter (\<lambda>p. fst p \<noteq> k) (cdata c) @ [(k, \<lparr>item_value = v, expiresAt = calculateExpiry c now ttl\<rparr>)]"
  have wf: "jm_wf ?d"
    using assms by (auto simp: jm_wf_def cache_ok_def distinct_map_filter)
  then have "jm_wf (tl ?d)"
    by (cases ?d) (auto simp: jm_wf_def)
  moreover have "int (length (filter (\<lambda>p. fst p \<noteq> k) (cdata c))) \<le> maxSize c"
    using assms by (auto simp: cache_ok_def intro: wf_intros)
  ultimately show ?thesis
    using assms wf by (auto simp: cache_ok_def cache_set_frame cache_set_data Let_def)
qed

lemma length_jm_delete_le: "length (jm_delete m k) \<le> length m"
  by (simp add: jm_delete_filter)

lemma cache_step_ok: "cache_ok c \<Longrightarrow> cache_ok (cache_step c x)"
proof (cases x)
  case (Do_set now k v ttl)
  then show "cache_ok c \<Longrightarrow> ?thesis" by (simp add: cache_set_ok)
qed (auto simp: cache_ok_def cache_defs Let_def intro: wf_intros split: option.splits)

lemma new_TTLCache_ok: "new_TTLCache ms ttl = Inr c \<Longrightarrow> cache_ok c"
  by (auto simp: new_TTLCache_def cache_ok_def Let_def split: if_splits)

lemma cache_run_ok: "cache_ok c \<Longrightarrow> cache_ok (cache_run c ops)"
  by (induction ops arbitrary: c) (auto simp: cache_run_def cache_step_ok)

lemma cache_step_frame:
  "maxSize (cache_step c x) = maxSize c" "defaultTTL (cache_step c x) = defaultTTL c"
  by (cases x; simp add: cache_defs Let_def split: option.splits list.splits)+

text \<open>
  The reference: an unbounded map that remembers the last write of a key and forgets it on \<open>delete\<close> and
  \<open>clear\<close> only.  The cache may forget more, but what it holds is what the reference holds.
\<close>

fun last_write ::
  "('k, 'v) TTLCache \<Rightarrow> 'k \<Rightarrow> 'v CacheItem option \<Rightarrow> ('k, 'v) cache_op list \<Rightarrow> 'v CacheItem option" where
  "last_write c k acc [] = acc"
| "last_write c k acc (Do_set now k' v ttl # ops) =
     last_write c k (if k' = k then Some \<lparr>item_value = v, expiresAt = calculateExpiry c now ttl\<rparr> else acc) ops"
| "last_write c k acc (Do_delete k' # ops) = last_write c k (if k' = k then None else acc) ops"
| "last_write c k acc (Do_clear # ops) = last_write c k None ops"
| "last_write c k acc (_ # ops) = last_write c k acc ops"

lemma jm_get_tl_Some: "jm_wf m \<Longrightarrow> jm_get (tl m) k = Some v \<Longrightarrow> jm_get m k = Some v"
proof (cases m)
  case (Cons p r)
  assume "jm_wf m" and "jm_get (tl m) k = Some v"
  then have "jm_get r k = Some v" and "jm_wf r" and "fst p \<notin> set (jm_keys r)"
    using Cons by (simp_all add: jm_wf_def)
  then show ?thesis
    unfolding Cons jm_get_Cons by (metis jm_get_None_iff option.distinct(1))
qed simp

lemma cache_set_get:
  assumes "jm_wf (cdata c)" and "jm_get (cdata (cache_set c now k' v ttl)) k = Some it"
  shows "(k = k' \<longrightarrow> it = \<lparr>item_value = v, expiresAt = calculateExpiry c now ttl\<rparr>) \<and>
         (k \<noteq> k' \<longrightarrow> jm_get (cdata c) k = Some it)"
proof -
  let ?n = "\<lparr>item_value = v, expiresAt = calculateExpiry c now ttl\<rparr>"
  let ?d = "filter (\<lambda>p. fst p \<noteq> k') (cdata c) @ [(k', ?n)]"
  have wf: "jm_wf ?d"
    using assms(1) by (auto simp: jm_wf_def distinct_map_filter)
  have "jm_get ?d k = Some it"
    using assms(2) jm_get_tl_Some [OF wf] by (auto simp: cache_set_data [OF assms(1)] Let_def split: if_splits)
  moreover have "jm_get ?d k = (if k = k' then Some ?n else jm_get (cdata c) k)"
    using jm_get_set [of "filter (\<lambda>p. fst p \<noteq> k') (cdata c)" k' ?n k]
    by (simp add: jm_set_filter jm_get_filter_keys [where P = "\<lambda>x. x \<noteq> k'"])
  ultimately show ?thesis by auto
qed

lemma calculateExpiry_cong:
  "defaultTTL c = defaultTTL c' \<Longrightarrow> calculateExpiry c now ttl = calculateExpiry c' now ttl"
  by (cases ttl) (simp_all add: calculateExpiry_def)

lemma jm_get_filter_Some: "jm_wf m \<Longrightarrow> jm_get (filter P m) k = Some v \<Longrightarrow> jm_get m k = Some v"
  using jm_get_Some_iff [of m k v] jm_get_Some_iff [of "filter P m" k v] jm_wf_filter [of m P] by auto

lemma cache_step_get:
  assumes wf: "jm_wf (cdata c)" and get: "jm_get (cdata (cache_step c x)) k = Some it"
  shows "case x of
      Do_set now k' v ttl \<Rightarrow> (if k' = k then it = \<lparr>item_value = v, expiresAt = calculateExpiry c now ttl\<rparr>
                              else jm_get (cdata c) k = Some it)
    | Do_delete k' \<Rightarrow> k' \<noteq> k \<and> jm_get (cdata c) k = Some it
    | Do_clear \<Rightarrow> False
    | _ \<Rightarrow> jm_get (cdata c) k = Some it"
proof (cases x)
  case (Do_set now k' v ttl)
  then show ?thesis using cache_set_get [OF wf] get by auto
next
  case (Do_cleanup now)
  then show ?thesis
    using get jm_get_filter_Some [OF wf] by (auto simp: cache_cleanup_def Let_def split: if_splits)
qed (use get in \<open>auto simp: cache_get_def cache_has_def cache_delete_def cache_clear_def
      split: option.splits if_splits\<close>)

lemma cache_run_last_write:
  assumes "cache_ok c" "defaultTTL c = defaultTTL c0"
    and "\<And>it. jm_get (cdata c) k = Some it \<Longrightarrow> acc = Some it"
    and "jm_get (cdata (cache_run c ops)) k = Some it"
  shows "last_write c0 k acc ops = Some it"
  using assms
proof (induction ops arbitrary: c acc)
  case Nil
  then show ?case by (simp add: cache_run_def)
next
  case (Cons x ops)
  have run: "cache_run c (x # ops) = cache_run (cache_step c x) ops"
    by (simp add: cache_run_def)
  have wf: "jm_wf (cdata c)"
    using Cons.prems(1) by (simp add: cache_ok_def)
  have ih: "last_write c0 k acc' ops = Some it"
    if "\<And>it'. jm_get (cdata (cache_step c x)) k = Some it' \<Longrightarrow> acc' = Some it'" for acc'
  proof (rule Cons.IH [OF cache_step_ok [OF Cons.prems(1)]])
    show "defaultTTL (cache_step c x) = defaultTTL c0"
      using Cons.prems(2) by (simp add: cache_step_frame)
    show "jm_get (cdata (cache_run (cache_step c x) ops)) k = Some it"
      using Cons.prems(4) by (simp add: run)
  qed (rule that)
  note step = cache_step_get [OF wf, of x k] Cons.prems(3)
  show ?case
  proof (cases x)
    case (Do_set now k' v ttl)
    then show ?thesis
      using step by (auto intro!: ih simp: calculateExpiry_cong [OF Cons.prems(2)] split: if_splits)
  qed (use step in \<open>fastforce intro!: ih\<close>)+
qed

lemma cache_step_counters:
  "hits (cache_step c x) + misses (cache_step c x) =
     (case x of Do_get now k \<Rightarrow> Suc (hits c + misses c) | Do_clear \<Rightarrow> 0 | _ \<Rightarrow> hits c + misses c)"
  by (cases x) (auto simp: cache_set_frame cache_get_def cache_has_def cache_delete_def cache_cleanup_def
      cache_clear_def Let_def split: option.splits)

lemma cache_run_counters:
  "hits (cache_run c ops) + misses (cache_run c ops) = reads_since_clear (hits c + misses c) ops"
proof (induction ops arbitrary: c)
  case (Cons x ops)
  have "cache_run c (x # ops) = cache_run (cache_step c x) ops"
    by (simp add: cache_run_def)
  then show ?case
    using Cons [of "cache_step c x"] cache_step_counters [of c x] by (cases x) auto
qed (simp add: cache_run_def)

subsection \<open>Properties\<close>

text \<open>
  C39. Whatever the sequence of operations and the clock, a constructed cache holds no key twice and
  never more entries than its \<open>maxSize\<close>, and its hit and miss counters add up to the reads since the
  last \<open>clear\<close>.
\<close>

theorem cache_bounded:
  assumes "new_TTLCache ms ttl = Inr c"
  shows "distinct (jm_keys (cdata (cache_run c ops))) \<and>
    int (length (cdata (cache_run c ops))) \<le> maxSize c \<and>
    st_hits (cache_stats (cache_run c ops)) + st_misses (cache_stats (cache_run c ops)) = reads_since_clear 0 ops"
proof -
  have "maxSize (cache_run c' ops) = maxSize c'" for c' :: "('a, 'b) TTLCache"
    by (induction ops arbitrary: c') (auto simp: cache_run_def cache_step_frame)
  moreover have "hits c = 0 \<and> misses c = 0"
    using assms by (auto simp: new_TTLCache_def Let_def split: if_splits)
  ultimately show ?thesis
    using cache_run_ok [OF new_TTLCache_ok [OF assms], of ops] cache_run_counters [of c ops]
    by (simp add: cache_ok_def jm_wf_def cache_stats_def)
qed

theorem cache_bounded_witness:
  "int (length (cdata (cache_run \<lparr>maxSize = 1, defaultTTL = None, cdata = [], hits = 0, misses = 0,
     expiredCount = 0, evictedCount = 0\<rparr> [Do_set 5 ''a'' (1::nat) None, Do_set 6 ''b'' 2 None, Do_get 7 ''a'']))) \<le> 1"
  using cache_bounded [of "Some 1" None "\<lparr>maxSize = 1, defaultTTL = None, cdata = [], hits = 0, misses = 0,
     expiredCount = 0, evictedCount = 0\<rparr>" "[Do_set 5 ''a'' (1::nat) None, Do_set 6 ''b'' 2 None, Do_get 7 ''a'']"]
  by (simp add: new_TTLCache_def)

text \<open>
  C40. A read never returns a stale value: what \<open>get\<close> returns at time \<open>now\<close> is the value of the last
  \<open>set\<close> of that key with no later \<open>delete\<close> or \<open>clear\<close>, and that write has not expired at \<open>now\<close>.
\<close>

theorem get_returns_last_live_write:
  assumes "new_TTLCache ms ttl = Inr c"
    and "fst (cache_get (cache_run c ops) now k) = Some v"
  shows "\<exists>it. last_write c k None ops = Some it \<and> item_value it = v \<and> \<not> is_expired now it"
proof -
  obtain it where it: "jm_get (cdata (cache_run c ops)) k = Some it" "\<not> is_expired now it" "item_value it = v"
    using assms(2) by (auto simp: cache_get_def split: option.splits if_splits)
  have "cdata c = []"
    using assms(1) by (auto simp: new_TTLCache_def Let_def split: if_splits)
  then have "last_write c k None ops = Some it"
    by (intro cache_run_last_write [OF new_TTLCache_ok [OF assms(1)] refl _ it(1)]) simp
  with it show ?thesis by blast
qed

theorem get_returns_last_live_write_witness:
  "\<exists>it. last_write \<lparr>maxSize = 2, defaultTTL = Some 10, cdata = [], hits = 0, misses = 0,
     expiredCount = 0, evictedCount = 0\<rparr> ''k'' None [Do_set 5 ''k'' (1::nat) None, Do_set 6 ''k'' 2 None] = Some it \<and>
     item_value it = 2 \<and> \<not> is_expired 15 it"
  by (rule get_returns_last_live_write [of "Some 2" "Some 10"])
    (simp_all add: new_TTLCache_def cache_run_def cache_set_def cache_get_def calculateExpiry_def
      is_expired_def jm_has_def jm_set_def jm_delete_def jm_get_def)

text \<open>
  \<open>set\<close> makes the value readable until its expiry, puts the key last in the eviction order, and
  evicts the oldest written key exactly when the bound is exceeded.  A time to live of 0 never expires.
\<close>

theorem set_then_get:
  assumes "cache_ok c"
  shows "fst (cache_get (cache_set c now k v ttl) now' k) =
      (case calculateExpiry c now ttl of None \<Rightarrow> Some v | Some t \<Rightarrow> if now' < t then Some v else None) \<and>
    jm_keys (cdata (cache_set c now k v ttl)) =
      (let ks = filter (\<lambda>x. x \<noteq> k) (jm_keys (cdata c)) @ [k]
       in if int (length ks) > maxSize c then tl ks else ks) \<and>
    calculateExpiry c now (Some 0) = None"
proof -
  let ?n = "\<lparr>item_value = v, expiresAt = calculateExpiry c now ttl\<rparr>"
  let ?f = "filter (\<lambda>p. fst p \<noteq> k) (cdata c)"
  have wf: "jm_wf (cdata c)" and pos: "maxSize c > 0"
    using assms by (simp_all add: cache_ok_def)
  have keys: "jm_keys ?f = filter (\<lambda>x. x \<noteq> k) (jm_keys (cdata c))"
    by (simp add: filter_map comp_def)
  have "jm_get (cdata (cache_set c now k v ttl)) k = Some ?n"
  proof (cases ?f)
    case Nil
    with pos show ?thesis by (simp add: cache_set_data [OF wf] jm_get_Cons)
  next
    case (Cons p r)
    have "k \<notin> set (jm_keys ?f)" by auto
    then have "k \<notin> set (jm_keys r)" "fst p \<noteq> k" using Cons by auto
    with Cons show ?thesis
      by (simp add: Let_def cache_set_data [OF wf] jm_get_def map_of_append map_add_def map_of_eq_None_iff [THEN iffD2])
  qed
  moreover have "jm_keys (cdata (cache_set c now k v ttl)) =
      (let ks = filter (\<lambda>x. x \<noteq> k) (jm_keys (cdata c)) @ [k]
       in if int (length ks) > maxSize c then tl ks else ks)"
    by (simp add: cache_set_data [OF wf] keys [symmetric] Let_def map_tl)
  ultimately show ?thesis
    by (auto simp: cache_get_def is_expired_def calculateExpiry_def split: option.splits)
qed

theorem set_then_get_witness:
  "fst (cache_get (cache_set (\<lparr>maxSize = 1, defaultTTL = None, cdata = [], hits = 0, misses = 0,
     expiredCount = 0, evictedCount = 0\<rparr> :: (string, nat) TTLCache) 5 ''k'' 3 (Some 10)) 14 ''k'') = Some 3"
  by (subst set_then_get [THEN conjunct1]) (simp_all add: cache_ok_def calculateExpiry_def)

end
