(* ===== verification/CrossHostTypes.thy ===== *)
theory CrossHostTypes
  imports Complex_Main JsString
begin

text \<open>
  \<open>src/core/crosshost/types.ts\<close> and \<open>protocol/channels.ts\<close>: the data of the cross-host control plane, the
  messages the orchestrator and its workers exchange, and the channels they use.  A Redis command is a
  value of \<open>redis_command\<close> holding the message before \<open>encodeMessage\<close> packs it (the packer is a
  third-party library whose \<open>unpack\<close> gives the packed value back); the order of commands is kept.
  Clocks are milliseconds; machine identifiers are strings; shard identifiers are integers, so that the
  range checks of the code are checks of the model.
\<close>

subsection \<open>Data\<close>

type_synonym machine = string
type_synonym shard_id = int

datatype CompatMode = Strict | Range

datatype RegisterReasonCode =
    R_OK | HMAC_INVALID | VERSION_MISMATCH_STRICT | VERSION_OUT_OF_RANGE | PLUGIN_SET_MISMATCH
  | DUPLICATE_MACHINE_ID | CLAIM_CONFLICT | INVALID_PAYLOAD | CHALLENGE_EXPIRED | CHALLENGE_MISSING
  | MACHINE_ID_REQUIRED | UNAUTHORIZED | INTERNAL

datatype AssignmentReason = Join | Leave | Rebalance | Drain | Reshard | Manual | Recovery

record PluginIdVersion =
  plugin_id :: string
  plugin_version :: string

record DesiredState =
  ds_zeneVersion :: string
  ds_plugins :: "PluginIdVersion list"

record WorkerView =
  wv_machineId :: machine
  wv_zeneVersion :: string
  wv_plugins :: "PluginIdVersion list"
  wv_nodeVersion :: string
  wv_platform :: string
  wv_arch :: string
  wv_bootGeneration :: string
  wv_labels :: "(string, string) jsmap"
  wv_registeredAt :: int
  wv_lastSeenAt :: int
  wv_shards :: "shard_id list"
  wv_snapshotVersionAck :: int
  wv_apiBaseUrl :: "string option"

text \<open>Loads are JavaScript numbers; the model computes them exactly, in the rationals.\<close>

record WorkerStats =
  ws_machineId :: machine
  ws_guildCount :: rat
  ws_memberCount :: "rat option"
  ws_eventRate :: rat
  ws_commandRate :: rat

record LoadWeights =
  lw_guild :: rat
  lw_member :: rat
  lw_event :: rat
  lw_command :: rat
  lw_shard :: rat

datatype StrategyId = LeastLoaded | Sticky | ManualS | RegionAware

record shard_move =
  mv_shardId :: shard_id
  mv_from :: "machine option"
  mv_to :: machine

record AssignmentDiff =
  assignments :: "(machine, shard_id list) jsmap"
  moves :: "shard_move list"

subsection \<open>Messages and commands\<close>

record AssignmentUpdateMessage =
  au_generation :: int
  au_machineId :: machine
  au_shards :: "shard_id list"
  au_totalShards :: int
  au_reason :: AssignmentReason

record IdentifyGrantMessage =
  ig_machineId :: machine
  ig_shardId :: shard_id
  ig_grantId :: string
  ig_expiresAt :: int
  ig_allowResume :: bool

record UpdateInstructMessage =
  ui_machineId :: machine
  ui_generation :: int
  ui_desiredState :: DesiredState
  ui_instructId :: string

record UpdateAckMessage =
  ua_machineId :: machine
  ua_instructId :: string
  ua_ok :: bool
  ua_message :: string
  ua_at :: int

datatype message =
    M_assign AssignmentUpdateMessage
  | M_grant IdentifyGrantMessage
  | M_instruct UpdateInstructMessage

datatype redis_command =
    Publish string message
  | SetPX string message int

definition channelAssignmentUpdate :: "string \<Rightarrow> string" where
  "channelAssignmentUpdate prefix = prefix @ '':assignment:update''"

definition channelIdentifyGrant :: "string \<Rightarrow> string" where
  "channelIdentifyGrant prefix = prefix @ '':identify:grant''"

definition channelUpdateInstruct :: "string \<Rightarrow> string" where
  "channelUpdateInstruct prefix = prefix @ '':update:instruct''"

text \<open>The assignment and grant messages of a sequence of commands, in the order they were published.\<close>

fun published_assigns :: "redis_command list \<Rightarrow> AssignmentUpdateMessage list" where
  "published_assigns [] = []"
| "published_assigns (Publish ch (M_assign m) # cs) = m # published_assigns cs"
| "published_assigns (_ # cs) = published_assigns cs"

fun published_grants :: "redis_command list \<Rightarrow> IdentifyGrantMessage list" where
  "published_grants [] = []"
| "published_grants (Publish ch (M_grant m) # cs) = m # published_grants cs"
| "published_grants (_ # cs) = published_grants cs"

named_theorems bus_simps

lemma published_assigns_append [simp, bus_simps]:
  "published_assigns (xs @ ys) = published_assigns xs @ published_assigns ys"
  by (induction xs rule: published_assigns.induct) auto

lemma published_grants_append [simp, bus_simps]:
  "published_grants (xs @ ys) = published_grants xs @ published_grants ys"
  by (induction xs rule: published_grants.induct) auto

end
