(* ===== verification/IdentifyQueue.thy ===== *)
theory IdentifyQueue
  imports CrossHostTypes
begin

text \<open>
  \<open>src/core/crosshost/orchestrator/identifyQueue.ts\<close>: the identify queue.  A grant waits until its bucket
  is ready and then blocks the bucket for 5500 ms.  \<open>grant\<close> is split where the code awaits the timer:
  \<open>grant_ready\<close> is what it reads before, \<open>grant_fire\<close> what it does after; \<open>grant\<close> and \<open>grantMany\<close> compose
  them for a caller that awaits each grant, and the step relation \<open>iq_step\<close> allows callers to interleave.
  Random grant identifiers are drawn from the stream \<open>randomIds\<close>.
\<close>

subsection \<open>State and operations\<close>

definition GRANT_TTL_MS :: int where
  "GRANT_TTL_MS = 60000"

definition grantRedisKey :: "string \<Rightarrow> machine \<Rightarrow> shard_id \<Rightarrow> string" where
  "grantRedisKey prefix m s = prefix @ '':identify-grant:'' @ m @ '':'' @ nat_to_str (nat s)"

record IdentifyQueue =
  maxConcurrency :: int
  iq_hasMain :: bool
  iq_prefix :: string
  bucketNextAt :: "int list"
  randomIds :: "nat \<Rightarrow> string"
  drawn :: nat

definition new_IdentifyQueue :: "int \<Rightarrow> bool \<Rightarrow> string \<Rightarrow> (nat \<Rightarrow> string) \<Rightarrow> IdentifyQueue" where
  "new_IdentifyQueue n hasMain prefix rnd =
     \<lparr>maxConcurrency = max 1 n, iq_hasMain = hasMain, iq_prefix = prefix,
      bucketNextAt = replicate (nat (max 1 n)) 0, randomIds = rnd, drawn = 0\<rparr>"

definition setMaxConcurrency :: "IdentifyQueue \<Rightarrow> int \<Rightarrow> IdentifyQueue" where
  "setMaxConcurrency q n =
     q\<lparr>maxConcurrency := max 1 n,
       bucketNextAt := bucketNextAt q @ replicate (nat (max 1 n) - length (bucketNextAt q)) 0\<rparr>"

definition bucket_of :: "IdentifyQueue \<Rightarrow> shard_id \<Rightarrow> nat" where
  "bucket_of q s = nat (s mod maxConcurrency q)"

definition grant_ready :: "IdentifyQueue \<Rightarrow> nat \<Rightarrow> int" where
  "grant_ready q b = (if b < length (bucketNextAt q) then bucketNextAt q ! b else 0)"

definition grant_fire ::
  "IdentifyQueue \<Rightarrow> nat \<Rightarrow> int \<Rightarrow> machine \<Rightarrow> shard_id \<Rightarrow> bool
   \<Rightarrow> IdentifyGrantMessage \<times> IdentifyQueue \<times> redis_command list" where
  "grant_fire q b now m s allowResume =
     (let q' = q\<lparr>bucketNextAt := (bucketNextAt q)[b := now + 5500], drawn := Suc (drawn q)\<rparr>;
          msg = \<lparr>ig_machineId = m, ig_shardId = s, ig_grantId = randomIds q (drawn q),
                 ig_expiresAt = now + GRANT_TTL_MS, ig_allowResume = allowResume\<rparr>;
          stored = (if iq_hasMain q
                    then [SetPX (grantRedisKey (iq_prefix q) m s) (M_grant msg) GRANT_TTL_MS] else [])
      in (msg, q', stored @ [Publish (channelIdentifyGrant (iq_prefix q)) (M_grant msg)]))"

text \<open>The awaited grant: the clock it returns is the instant the grant was issued.\<close>

definition grant ::
  "IdentifyQueue \<Rightarrow> int \<Rightarrow> machine \<Rightarrow> shard_id \<Rightarrow> bool
   \<Rightarrow> IdentifyGrantMessage \<times> IdentifyQueue \<times> int \<times> redis_command list" where
  "grant q now m s allowResume =
     (let b = bucket_of q s; now' = max now (grant_ready q b);
          (msg, q', cmds) = grant_fire q b now' m s allowResume
      in (msg, q', now', cmds))"

fun grant_each ::
  "IdentifyQueue \<Rightarrow> int \<Rightarrow> machine \<Rightarrow> shard_id list \<Rightarrow> bool
   \<Rightarrow> IdentifyGrantMessage list \<times> IdentifyQueue \<times> int \<times> redis_command list" where
  "grant_each q now m [] allowResume = ([], q, now, [])"
| "grant_each q now m (s # ss) allowResume =
     (let (msg, q', now', c) = grant q now m s allowResume;
          (msgs, q'', now'', cs) = grant_each q' now' m ss allowResume
      in (msg # msgs, q'', now'', c @ cs))"

definition grantMany ::
  "IdentifyQueue \<Rightarrow> int \<Rightarrow> machine \<Rightarrow> shard_id list \<Rightarrow> bool
   \<Rightarrow> IdentifyGrantMessage list \<times> IdentifyQueue \<times> int \<times> redis_command list" where
  "grantMany q now m shards allowResume = grant_each q now m (js_sort_num shards) allowResume"

text \<open>
  The worker's fallback: the stored grant, when it decodes, is not expired and is for this machine and
  shard.  The reply of the store and the decoder (base64 and the packer) are arguments.
\<close>

definition loadGrantFromRedis ::
  "('w \<Rightarrow> IdentifyGrantMessage option) \<Rightarrow> 'w option \<Rightarrow> int \<Rightarrow> machine \<Rightarrow> shard_id
   \<Rightarrow> IdentifyGrantMessage option" where
  "loadGrantFromRedis decode raw now m s =
     (case raw of None \<Rightarrow> None
      | Some w \<Rightarrow>
          (case decode w of None \<Rightarrow> None
           | Some msg \<Rightarrow>
               if ig_expiresAt msg < now then None
               else if ig_machineId msg \<noteq> m \<or> ig_shardId msg \<noteq> s then None
               else Some msg))"

subsection \<open>Interleaved callers\<close>

record iq_pending =
  ip_machine :: machine
  ip_shard :: shard_id
  ip_resume :: bool
  ip_bucket :: nat
  ip_wake :: int

record iq_system =
  iq_queue :: IdentifyQueue
  iq_waiting :: "iq_pending list"
  iq_clock :: int
  iq_log :: "(nat \<times> IdentifyGrantMessage) list"

definition iq_emit :: "iq_system \<Rightarrow> iq_pending \<Rightarrow> iq_system" where
  "iq_emit st p =
     (let (msg, q', cmds) =
            grant_fire (iq_queue st) (ip_bucket p) (iq_clock st) (ip_machine p) (ip_shard p) (ip_resume p)
      in st\<lparr>iq_queue := q', iq_log := iq_log st @ [(ip_bucket p, msg)]\<rparr>)"

definition iq_call :: "iq_system \<Rightarrow> machine \<Rightarrow> shard_id \<Rightarrow> bool \<Rightarrow> iq_system" where
  "iq_call st m s r =
     (let b = bucket_of (iq_queue st) s; readyAt = grant_ready (iq_queue st) b;
          p = \<lparr>ip_machine = m, ip_shard = s, ip_resume = r, ip_bucket = b, ip_wake = readyAt\<rparr>
      in if readyAt > iq_clock st then st\<lparr>iq_waiting := iq_waiting st @ [p]\<rparr> else iq_emit st p)"

definition iq_wakeup :: "iq_system \<Rightarrow> iq_pending \<Rightarrow> iq_system" where
  "iq_wakeup st p = (iq_emit st p)\<lparr>iq_waiting := remove1 p (iq_waiting st)\<rparr>"

definition iq_resize :: "iq_system \<Rightarrow> int \<Rightarrow> iq_system" where
  "iq_resize st n = st\<lparr>iq_queue := setMaxConcurrency (iq_queue st) n\<rparr>"

text \<open>
  With \<open>serial\<close> no grant of a bucket is asked for while another waits for the same bucket; without it
  callers interleave freely at the awaits, as the code lets them.
\<close>

inductive iq_step :: "bool \<Rightarrow> iq_system \<Rightarrow> iq_system \<Rightarrow> bool" for serial where
  call: "0 \<le> s \<Longrightarrow> serial \<longrightarrow> bucket_of (iq_queue st) s \<notin> set (map ip_bucket (iq_waiting st)) \<Longrightarrow>
      iq_step serial st (iq_call st m s r)"
| wakeup: "p \<in> set (iq_waiting st) \<Longrightarrow> ip_wake p \<le> iq_clock st \<Longrightarrow> iq_step serial st (iq_wakeup st p)"
| resize: "iq_step serial st (iq_resize st n)"
| tick: "iq_clock st \<le> t \<Longrightarrow> iq_step serial st (st\<lparr>iq_clock := t\<rparr>)"

inductive_cases iq_stepE: "iq_step serial st st'"

definition iq_start :: "int \<Rightarrow> bool \<Rightarrow> string \<Rightarrow> (nat \<Rightarrow> string) \<Rightarrow> int \<Rightarrow> iq_system" where
  "iq_start n hasMain prefix rnd t =
     \<lparr>iq_queue = new_IdentifyQueue n hasMain prefix rnd, iq_waiting = [], iq_clock = t, iq_log = []\<rparr>"

subsection \<open>Invariants\<close>

text \<open>Every bucket number a shard can have is an index of the array.\<close>

definition queue_ok :: "IdentifyQueue \<Rightarrow> bool" where
  "queue_ok q = (1 \<le> maxConcurrency q \<and> maxConcurrency q \<le> int (length (bucketNextAt q)))"

text \<open>\<open>spaced\<close>: two grants of one bucket are at least 5500 ms apart, in the order issued.\<close>

definition spaced :: "(nat \<times> IdentifyGrantMessage) list \<Rightarrow> bool" where
  "spaced = sorted_wrt (\<lambda>x y. fst x = fst y \<longrightarrow> ig_expiresAt (snd x) + 5500 \<le> ig_expiresAt (snd y))"

definition blocked_by :: "IdentifyQueue \<Rightarrow> nat \<times> IdentifyGrantMessage \<Rightarrow> bool" where
  "blocked_by q x = (fst x < length (bucketNextAt q) \<and>
     ig_expiresAt (snd x) - GRANT_TTL_MS + 5500 \<le> bucketNextAt q ! fst x)"

lemma new_queue_ok [wf_intros]: "queue_ok (new_IdentifyQueue n h p rnd)"
  by (simp add: queue_ok_def new_IdentifyQueue_def)

lemma setMaxConcurrency_ok [wf_intros]: "queue_ok (setMaxConcurrency q n)"
  by (auto simp: queue_ok_def setMaxConcurrency_def)

lemma bucket_of_less:
  assumes "queue_ok q"
  shows "bucket_of q s < length (bucketNextAt q)"
proof -
  have "0 \<le> s mod maxConcurrency q" "s mod maxConcurrency q < maxConcurrency q"
    using assms by (simp_all add: queue_ok_def)
  then show ?thesis
    using assms by (simp add: queue_ok_def bucket_of_def)
qed

lemma grant_fire_simps:
  "grant_fire q b now m s r = (msg, q', cmds) \<Longrightarrow>
     q' = q\<lparr>bucketNextAt := (bucketNextAt q)[b := now + 5500], drawn := Suc (drawn q)\<rparr> \<and>
     msg = \<lparr>ig_machineId = m, ig_shardId = s, ig_grantId = randomIds q (drawn q),
            ig_expiresAt = now + GRANT_TTL_MS, ig_allowResume = r\<rparr> \<and>
     published_grants cmds = [msg] \<and> published_assigns cmds = []"
  by (auto simp: grant_fire_def Let_def)

lemma blocked_by_fire:
  assumes "blocked_by q x" and "grant_ready q b \<le> now" and "b < length (bucketNextAt q)"
  shows "blocked_by (q\<lparr>bucketNextAt := (bucketNextAt q)[b := now + 5500], drawn := d\<rparr>) x"
  using assms by (cases "fst x = b") (auto simp: blocked_by_def grant_ready_def)

lemma spaced_snoc:
  assumes "spaced xs" and "\<And>x. x \<in> set xs \<Longrightarrow> blocked_by q x" and "grant_ready q b \<le> now"
    and "ig_expiresAt msg = now + GRANT_TTL_MS"
  shows "spaced (xs @ [(b, msg)])"
proof -
  have "fst x = b \<longrightarrow> ig_expiresAt (snd x) + 5500 \<le> ig_expiresAt msg" if "x \<in> set xs" for x
    using assms(2) [OF that] assms(3,4) by (auto simp: blocked_by_def grant_ready_def)
  then show ?thesis
    using assms(1) by (auto simp: spaced_def sorted_wrt_append)
qed

text \<open>The invariant of the serial system.\<close>

definition iq_inv :: "iq_system \<Rightarrow> bool" where
  "iq_inv st = (queue_ok (iq_queue st) \<and> spaced (iq_log st) \<and>
     (\<forall>x \<in> set (iq_log st). blocked_by (iq_queue st) x) \<and> distinct (map ip_bucket (iq_waiting st)) \<and>
     (\<forall>p \<in> set (iq_waiting st). ip_bucket p < length (bucketNextAt (iq_queue st)) \<and>
        ip_wake p = grant_ready (iq_queue st) (ip_bucket p)))"

text \<open>Issuing a grant keeps the invariant when the other grants that wait are of other buckets.\<close>

lemma iq_emit_inv:
  assumes "iq_inv st" and "ip_bucket p < length (bucketNextAt (iq_queue st))"
    and "grant_ready (iq_queue st) (ip_bucket p) \<le> iq_clock st"
    and "distinct (map ip_bucket ws)" and "set ws \<subseteq> set (iq_waiting st)"
    and "ip_bucket p \<notin> set (map ip_bucket ws)"
  shows "iq_inv ((iq_emit st p)\<lparr>iq_waiting := ws\<rparr>)"
proof -
  obtain msg q' cmds where f: "grant_fire (iq_queue st) (ip_bucket p) (iq_clock st) (ip_machine p) (ip_shard p) (ip_resume p) = (msg, q', cmds)"
    by (rule prod_cases3)
  note g = grant_fire_simps [OF f]
  have b: "blocked_by q' (ip_bucket p, msg)"
    using g assms(2) by (simp add: blocked_by_def)
  have s: "spaced (iq_log st @ [(ip_bucket p, msg)])"
    using assms(1-3) g by (intro spaced_snoc [of _ "iq_queue st"]) (auto simp: iq_inv_def)
  have l: "blocked_by q' x" if "x \<in> set (iq_log st)" for x
    using that assms(1-3) g blocked_by_fire by (auto simp: iq_inv_def)
  have w: "ip_bucket w < length (bucketNextAt q') \<and> ip_wake w = grant_ready q' (ip_bucket w)"
    if "w \<in> set ws" for w
  proof -
    have "ip_bucket w \<noteq> ip_bucket p" using that assms(6) by (metis image_eqI set_map)
    moreover have "w \<in> set (iq_waiting st)" using that assms(5) by blast
    ultimately show ?thesis using assms(1) g by (auto simp: iq_inv_def grant_ready_def)
  qed
  have q: "queue_ok q'" using assms(1) g by (auto simp: iq_inv_def queue_ok_def)
  show ?thesis
    using b s l w q assms(4) by (auto simp: iq_inv_def iq_emit_def f)
qed

lemma iq_resize_inv:
  assumes "iq_inv st"
  shows "iq_inv (iq_resize st n)"
proof -
  let ?q = "iq_queue st" and ?q' = "setMaxConcurrency (iq_queue st) n"
  have ready: "grant_ready ?q' b = grant_ready ?q b" for b
    by (auto simp: grant_ready_def setMaxConcurrency_def nth_append)
  have len: "length (bucketNextAt ?q) \<le> length (bucketNextAt ?q')"
    by (simp add: setMaxConcurrency_def)
  have "blocked_by ?q x \<Longrightarrow> blocked_by ?q' x" for x
    using len ready [of "fst x"] by (auto simp: blocked_by_def grant_ready_def split: if_splits)
  then show ?thesis
    using assms len by (auto simp: iq_inv_def iq_resize_def ready setMaxConcurrency_ok)
qed

lemma distinct_map_remove1: "distinct (map f xs) \<Longrightarrow> distinct (map f (remove1 x xs))"
  by (induction xs) (use notin_set_remove1 in \<open>force+\<close>)

lemma remove1_bucket:
  assumes "distinct (map f xs)" "x \<in> set xs"
  shows "f x \<notin> set (map f (remove1 x xs))"
proof -
  obtain us vs where "xs = us @ x # vs" "x \<notin> set us" using assms(2) by (meson split_list_first)
  then show ?thesis using assms(1) by (auto simp: remove1_append)
qed

lemma iq_step_inv:
  assumes "iq_step True st st'" and inv: "iq_inv st"
  shows "iq_inv st'"
  using assms(1)
proof (cases rule: iq_step.cases)
  case (call s m r)
  have b: "bucket_of (iq_queue st) s < length (bucketNextAt (iq_queue st))"
    using inv by (simp add: iq_inv_def bucket_of_less)
  show ?thesis
  proof (cases "grant_ready (iq_queue st) (bucket_of (iq_queue st) s) > iq_clock st")
    case True
    then show ?thesis
      using call inv b by (auto simp: iq_call_def Let_def iq_inv_def)
  next
    case False
    let ?p = "\<lparr>ip_machine = m, ip_shard = s, ip_resume = r, ip_bucket = bucket_of (iq_queue st) s,
                ip_wake = grant_ready (iq_queue st) (bucket_of (iq_queue st) s)\<rparr>"
    have "iq_waiting (iq_emit st ?p) = iq_waiting st"
      by (simp add: iq_emit_def split: prod.splits)
    moreover have "iq_inv ((iq_emit st ?p)\<lparr>iq_waiting := iq_waiting st\<rparr>)"
      using False b call inv by (intro iq_emit_inv [OF inv]) (auto simp: iq_inv_def)
    moreover have "st' = iq_emit st ?p"
      using False call by (simp add: iq_call_def Let_def)
    ultimately show ?thesis by (metis iq_system.surjective iq_system.update_convs(2))
  qed
next
  case (wakeup p)
  have d: "distinct (map ip_bucket (iq_waiting st))" using inv by (simp add: iq_inv_def)
  have "iq_inv ((iq_emit st p)\<lparr>iq_waiting := remove1 p (iq_waiting st)\<rparr>)"
  proof (rule iq_emit_inv [OF inv])
    show "distinct (map ip_bucket (remove1 p (iq_waiting st)))"
      by (rule distinct_map_remove1 [OF d])
    show "set (remove1 p (iq_waiting st)) \<subseteq> set (iq_waiting st)" by (rule set_remove1_subset)
    show "ip_bucket p \<notin> set (map ip_bucket (remove1 p (iq_waiting st)))"
      by (rule remove1_bucket [OF d wakeup(2)])
  qed (use wakeup inv in \<open>auto simp: iq_inv_def\<close>)
  then show ?thesis using wakeup by (simp add: iq_wakeup_def)
next
  case (resize n)
  then show ?thesis using iq_resize_inv [OF inv] by simp
next
  case (tick t)
  then show ?thesis using inv by (simp add: iq_inv_def)
qed

lemma iq_reachable_inv: "(iq_step True)\<^sup>*\<^sup>* st st' \<Longrightarrow> iq_inv st \<Longrightarrow> iq_inv st'"
  by (induction rule: rtranclp_induct) (auto intro: iq_step_inv)

lemma iq_start_inv: "iq_inv (iq_start n h p rnd t)"
  by (simp add: iq_inv_def iq_start_def new_queue_ok spaced_def)

subsection \<open>Awaited grants\<close>

lemma grant_simps:
  assumes "grant q now m s r = (msg, q', now', cs)"
  shows "now' = max now (grant_ready q (bucket_of q s)) \<and>
     q' = q\<lparr>bucketNextAt := (bucketNextAt q)[bucket_of q s := now' + 5500], drawn := Suc (drawn q)\<rparr> \<and>
     msg = \<lparr>ig_machineId = m, ig_shardId = s, ig_grantId = randomIds q (drawn q),
            ig_expiresAt = now' + GRANT_TTL_MS, ig_allowResume = r\<rparr> \<and>
     published_grants cs = [msg] \<and> published_assigns cs = []"
  using assms grant_fire_simps by (auto simp: grant_def Let_def split: prod.splits)

lemma grant_ok: "grant q now m s r = (msg, q', now', cs) \<Longrightarrow> queue_ok q' = queue_ok q"
  by (drule grant_simps) (simp add: queue_ok_def)

lemma grant_each_Cons:
  assumes "grant_each q now m (s # ss) r = (msgs, q', now', cs)"
  obtains g q1 t c gs c' where "grant q now m s r = (g, q1, t, c)"
    and "grant_each q1 t m ss r = (gs, q', now', c')" and "msgs = g # gs" and "cs = c @ c'"
  using assms by (auto split: prod.splits)

lemma grant_each_simps:
  assumes "grant_each q now m ss r = (msgs, q', now', cs)"
  shows "map ig_shardId msgs = ss \<and> (\<forall>g \<in> set msgs. ig_machineId g = m \<and> ig_allowResume g = r) \<and>
    published_grants cs = msgs \<and> published_assigns cs = [] \<and> now \<le> now' \<and>
    queue_ok q' = queue_ok q \<and> maxConcurrency q' = maxConcurrency q \<and>
    length (bucketNextAt q') = length (bucketNextAt q)"
  using assms
proof (induction ss arbitrary: q now msgs cs q' now')
  case (Cons s ss)
  obtain g q1 t c gs c' where g: "grant q now m s r = (g, q1, t, c)"
    and gs: "grant_each q1 t m ss r = (gs, q', now', c')" and msgs: "msgs = g # gs" "cs = c @ c'"
    using Cons.prems by (rule grant_each_Cons)
  show ?case
    using Cons.IH [OF gs] grant_simps [OF g] grant_ok [OF g] by (simp add: msgs)
qed simp

lemma grant_each_spaced:
  assumes "queue_ok q" and "grant_each q now m ss r = (msgs, q', now', cs)"
    and "spaced done" and "\<And>x. x \<in> set done \<Longrightarrow> blocked_by q x"
  shows "spaced (done @ map (\<lambda>g. (bucket_of q (ig_shardId g), g)) msgs)"
  using assms
proof (induction ss arbitrary: q now msgs cs q' now' "done")
  case (Cons s ss)
  obtain g q1 t c gs c' where g: "grant q now m s r = (g, q1, t, c)"
    and gs: "grant_each q1 t m ss r = (gs, q', now', c')" and msgs: "msgs = g # gs" "cs = c @ c'"
    using Cons.prems(2) by (rule grant_each_Cons)
  note gd = grant_simps [OF g] grant_ok [OF g]
  have b: "bucket_of q s < length (bucketNextAt q)"
    using Cons.prems(1) by (rule bucket_of_less)
  let ?done = "done @ [(bucket_of q s, g)]"
  have "spaced ?done"
    using Cons.prems(3,4) gd by (intro spaced_snoc [of _ q _ t]) auto
  moreover have "blocked_by q1 x" if "x \<in> set ?done" for x
  proof (cases "x \<in> set done")
    case True
    then have "blocked_by q x" by (rule Cons.prems(4))
    then show ?thesis using gd b blocked_by_fire [of q x "bucket_of q s" t] by simp
  next
    case False
    then have "x = (bucket_of q s, g)" using that by simp
    then show ?thesis using gd b by (simp add: blocked_by_def)
  qed
  ultimately have "spaced (?done @ map (\<lambda>g. (bucket_of q1 (ig_shardId g), g)) gs)"
    using Cons.IH [OF _ gs] Cons.prems(1) gd(2) by blast
  moreover have "bucket_of q1 = bucket_of q"
    using gd by (auto simp: bucket_of_def fun_eq_iff)
  moreover have "ig_shardId g = s"
    using gd by simp
  ultimately show ?case by (simp add: msgs)
qed simp

lemma grant_each_time:
  assumes "queue_ok q" and "maxConcurrency q = 1" and "grant_each q now m ss r = (msgs, q', now', cs)"
  shows "map ig_expiresAt msgs =
    map (\<lambda>i. max now (grant_ready q 0) + 5500 * int i + GRANT_TTL_MS) [0..<length ss]"
  using assms
proof (induction ss arbitrary: q now msgs cs q' now')
  case (Cons s ss)
  obtain g q1 t c gs c' where g: "grant q now m s r = (g, q1, t, c)"
    and gs: "grant_each q1 t m ss r = (gs, q', now', c')" and msgs: "msgs = g # gs" "cs = c @ c'"
    using Cons.prems(3) by (rule grant_each_Cons)
  note gd = grant_simps [OF g] grant_ok [OF g]
  have b: "bucket_of q s = 0"
    using Cons.prems(2) by (simp add: bucket_of_def)
  have "0 < length (bucketNextAt q)"
    using bucket_of_less [OF Cons.prems(1), of s] b by simp
  then have t: "t = max now (grant_ready q 0)" "max t (grant_ready q1 0) = t + 5500"
    using gd b by (auto simp: grant_ready_def)
  have "map ig_expiresAt gs = map (\<lambda>i. t + 5500 + 5500 * int i + GRANT_TTL_MS) [0..<length ss]"
    using Cons.IH [OF _ _ gs] Cons.prems gd t by simp
  moreover have "[0..<Suc (length ss)] = 0 # map Suc [0..<length ss]"
    by (simp add: upt_conv_Cons map_Suc_upt del: upt_Suc)
  moreover have "ig_expiresAt g = t + GRANT_TTL_MS"
    using gd by simp
  ultimately show ?case
    by (simp add: msgs t(1) comp_def algebra_simps del: upt_Suc)
qed simp

subsection \<open>Properties\<close>

text \<open>
  C35. As long as no grant is asked for a bucket while another one waits for the same bucket, two grants
  of one bucket are never less than 5500 ms apart, whatever the shards, the machines, the timers' delays and
  the changes of the concurrency limit, and however grants of different buckets overlap.  Nothing in the
  code enforces the condition; the theorem after this one shows what happens without it.
\<close>

theorem serial_grants_spaced:
  assumes "(iq_step True)\<^sup>*\<^sup>* (iq_start n h p rnd t) st"
    and "i < j" "j < length (iq_log st)" "fst (iq_log st ! i) = fst (iq_log st ! j)"
  shows "ig_expiresAt (snd (iq_log st ! i)) + 5500 \<le> ig_expiresAt (snd (iq_log st ! j))"
proof -
  have "spaced (iq_log st)"
    using iq_reachable_inv [OF assms(1) iq_start_inv] by (simp add: iq_inv_def)
  then show ?thesis
    using assms(2-4) by (auto simp: spaced_def sorted_wrt_iff_nth_less)
qed

theorem serial_grants_spaced_witness:
  "(5500::int) \<le> ig_expiresAt (snd (iq_log (iq_call ((iq_call (iq_start 1 False ''p'' (\<lambda>_. ''g'') 9) ''a'' 0 True)\<lparr>iq_clock := 5509\<rparr>) ''a'' 1 True) ! 1)) - 60009"
proof -
  let ?s0 = "iq_start 1 False ''p'' (\<lambda>_. ''g'') 9"
  let ?s1 = "iq_call ?s0 ''a'' 0 True"
  let ?s2 = "?s1\<lparr>iq_clock := 5509\<rparr>"
  let ?s3 = "iq_call ?s2 ''a'' 1 True"
  note ev = iq_start_def iq_call_def iq_emit_def grant_fire_def Let_def new_IdentifyQueue_def bucket_of_def
    grant_ready_def GRANT_TTL_MS_def
  have "iq_step True ?s0 ?s1" by (rule call) (simp_all add: ev)
  moreover have "iq_step True ?s1 ?s2" by (rule tick) (simp add: ev)
  moreover have "iq_step True ?s2 ?s3" by (rule call) (simp_all add: ev)
  ultimately have "(iq_step True)\<^sup>*\<^sup>* ?s0 ?s3"
    by (meson converse_rtranclp_into_rtranclp rtranclp.rtrancl_refl)
  from serial_grants_spaced [OF this, of 0 1] show ?thesis
    by (simp add: ev)
qed

text \<open>
  Callers that overlap break the spacing: with one bucket busy, two callers read the same wake-up
  time before either reserves it, and both grants are issued at the same instant.  The queue is shared
  by the rebalancer, the shard-move endpoint and the update controller, which do not exclude each other.
\<close>

theorem overlapping_grants_collide:
  "\<exists>st. (iq_step False)\<^sup>*\<^sup>* (iq_start n h p rnd 0) st \<and> length (iq_log st) = 3 \<and>
     fst (iq_log st ! 1) = fst (iq_log st ! 2) \<and>
     ig_shardId (snd (iq_log st ! 1)) \<noteq> ig_shardId (snd (iq_log st ! 2)) \<and>
     ig_expiresAt (snd (iq_log st ! 1)) = ig_expiresAt (snd (iq_log st ! 2))"
proof -
  define c where "c = max 1 n"
  have c: "max 1 n = c" "0 < c" "\<not> c \<le> 0" "c \<noteq> 0" by (simp_all add: c_def)
  define s0 where "s0 = iq_start n h p rnd 0"
  define s1 where "s1 = iq_call s0 ''a'' 0 True"
  define s2 where "s2 = iq_call s1 ''b'' c True"
  define s3 where "s3 = iq_call s2 ''c'' (2 * c) True"
  define s4 where "s4 = s3\<lparr>iq_clock := 5500\<rparr>"
  define s5 where "s5 = iq_wakeup s4 (iq_waiting s4 ! 0)"
  define s6 where "s6 = iq_wakeup s5 (iq_waiting s5 ! 0)"
  let ?w = "\<lambda>m k. \<lparr>ip_machine = m, ip_shard = k * c, ip_resume = True, ip_bucket = 0, ip_wake = 5500\<rparr>"
  let ?g = "\<lambda>m k i t. (0 :: nat, \<lparr>ig_machineId = m, ig_shardId = k * c, ig_grantId = rnd i,
     ig_expiresAt = t + GRANT_TTL_MS, ig_allowResume = True\<rparr>)"
  have q1: "iq_queue s1 = (iq_queue s0)\<lparr>bucketNextAt := (replicate (nat c) 0)[0 := 5500], drawn := 1\<rparr>"
    and l1: "iq_waiting s1 = []" "iq_clock s1 = 0" "iq_log s1 = [?g ''a'' 0 0 0]"
    using c by (simp_all add: s1_def s0_def iq_start_def iq_call_def iq_emit_def grant_fire_def Let_def
        new_IdentifyQueue_def bucket_of_def grant_ready_def)
  have st3: "iq_queue s3 = iq_queue s1" "iq_clock s3 = 0" "iq_log s3 = iq_log s1"
    "iq_waiting s3 = [?w ''b'' 1, ?w ''c'' 2]"
    using c by (simp_all add: s3_def s2_def iq_call_def Let_def q1 l1 s0_def iq_start_def
        new_IdentifyQueue_def bucket_of_def grant_ready_def)
  have st6: "iq_log s6 = [?g ''a'' 0 0 0, ?g ''b'' 1 1 5500, ?g ''c'' 2 2 5500]"
    using c by (simp add: s6_def s5_def s4_def iq_wakeup_def iq_emit_def grant_fire_def Let_def st3 q1 l1
        s0_def iq_start_def new_IdentifyQueue_def numeral_2_eq_2)
  have "iq_step False s0 s1" "iq_step False s1 s2" "iq_step False s2 s3"
    using c by (auto simp: s1_def s2_def s3_def intro!: call)
  moreover have "iq_step False s3 s4"
    unfolding s4_def by (rule tick) (simp add: st3)
  moreover have "iq_step False s4 s5" "iq_step False s5 s6"
    unfolding s5_def s6_def
    by (rule wakeup; simp add: s4_def s5_def iq_wakeup_def iq_emit_def grant_fire_def Let_def st3)+
  ultimately have "(iq_step False)\<^sup>*\<^sup>* s0 s6"
    by (meson converse_rtranclp_into_rtranclp rtranclp.rtrancl_refl)
  then show ?thesis
    using st6 c by (intro exI [of _ s6]) (simp add: s0_def)
qed

text \<open>
  \<open>grantMany\<close> issues exactly one grant per listed shard, in increasing shard order, all for the
  machine and the resume flag it was given, publishes exactly those, and keeps every bucket's grants 5500 ms
  apart, also from what the queue issued before.  With one bucket the i-th of them is issued 5500 i ms after
  the bucket is ready.
\<close>

theorem grantMany_correct:
  assumes "queue_ok q" and "grantMany q now m shards r = (msgs, q', now', cs)"
  shows "map ig_shardId msgs = sort shards \<and> published_grants cs = msgs \<and>
    (\<forall>g \<in> set msgs. ig_machineId g = m \<and> ig_allowResume g = r) \<and>
    spaced (map (\<lambda>g. (bucket_of q (ig_shardId g), g)) msgs) \<and> queue_ok q' \<and> now \<le> now' \<and>
    (maxConcurrency q = 1 \<longrightarrow> map ig_expiresAt msgs =
       map (\<lambda>i. max now (grant_ready q 0) + 5500 * int i + GRANT_TTL_MS) [0..<length shards])"
proof -
  have g: "grant_each q now m (sort shards) r = (msgs, q', now', cs)"
    using assms(2) by (simp add: grantMany_def js_sort_num_eq)
  show ?thesis
    using grant_each_simps [OF g] grant_each_spaced [OF assms(1) g, of "[]"] grant_each_time [OF assms(1) _ g] assms(1)
    by (simp add: spaced_def)
qed

theorem grantMany_correct_witness:
  "map ig_shardId (fst (grantMany (new_IdentifyQueue 1 False ''p'' (\<lambda>_. ''g'')) 7 ''m'' [4, 2] True)) = sort [4, 2]"
proof -
  let ?q = "new_IdentifyQueue 1 False ''p'' (\<lambda>_. ''g'')"
  obtain msgs q' now' cs where g: "grantMany ?q 7 ''m'' [4, 2] True = (msgs, q', now', cs)"
    by (rule prod_cases4)
  show ?thesis
    using grantMany_correct [OF new_queue_ok g] by (simp add: g)
qed

end
