(* ===== verification/ShardMap.thy ===== *)
theory ShardMap
  imports IdentifyQueue
begin

text \<open>
  \<open>src/core/crosshost/orchestrator/shardMap.ts\<close>: which machine owns which shard.  The map of owners, the
  generation counter and the shard total are the record \<open>ShardMap\<close>; \<open>control\<close> adds what \<open>assign\<close> shares with
  the identify queue: the queue, the clock and the commands sent to Redis.  A throw is \<open>Inl\<close>.
  \<open>assign\<close>, \<open>clearMachine\<close> and \<open>moveShard\<close> are the calls whose commands Redis takes; \<open>assign_redis\<close>,
  \<open>clear_redis\<close> and \<open>move_redis\<close> are the same calls with what Redis answers, which may be a rejection
  after the map has changed.
\<close>

subsection \<open>State and operations\<close>

record ShardMap =
  generation :: int
  totalShards :: int
  owner :: "(shard_id, machine) jsmap"
  sm_prefix :: string

datatype shard_error = InvalidTotalShards int | ShardOutOfRange int | RedisFailed

definition new_ShardMap :: "int \<Rightarrow> string \<Rightarrow> shard_error + ShardMap" where
  "new_ShardMap n prefix =
     (if n < 1 then Inl (InvalidTotalShards n)
      else Inr \<lparr>generation = 1, totalShards = n, owner = [], sm_prefix = prefix\<rparr>)"

definition setTotalShards :: "ShardMap \<Rightarrow> int \<Rightarrow> shard_error + ShardMap" where
  "setTotalShards sm n = (if n < 1 then Inl (InvalidTotalShards n) else Inr (sm\<lparr>totalShards := n\<rparr>))"

definition shardsFor :: "ShardMap \<Rightarrow> machine \<Rightarrow> shard_id list" where
  "shardsFor sm m = js_sort_num (map fst (filter (\<lambda>p. snd p = m) (owner sm)))"

definition ownerOf :: "ShardMap \<Rightarrow> shard_id \<Rightarrow> machine option" where
  "ownerOf sm s = jm_get (owner sm) s"

definition out_of_range :: "ShardMap \<Rightarrow> shard_id \<Rightarrow> bool" where
  "out_of_range sm s = (s < 0 \<or> s \<ge> totalShards sm)"

text \<open>The two ownership loops of \<open>assign\<close> and its generation step.\<close>

definition assign_owners :: "ShardMap \<Rightarrow> machine \<Rightarrow> shard_id list \<Rightarrow> ShardMap" where
  "assign_owners sm m ss =
     (let gone = map fst (filter (\<lambda>p. snd p = m \<and> fst p \<notin> set ss) (owner sm));
          o1 = foldl jm_delete (owner sm) gone;
          o2 = foldl (\<lambda>d s. jm_set d s m) o1 ss
      in sm\<lparr>owner := o2, generation := generation sm + 1\<rparr>)"

definition assignment_message :: "ShardMap \<Rightarrow> machine \<Rightarrow> shard_id list \<Rightarrow> AssignmentReason \<Rightarrow> AssignmentUpdateMessage" where
  "assignment_message sm m ss reason =
     \<lparr>au_generation = generation sm, au_machineId = m, au_shards = ss, au_totalShards = totalShards sm,
      au_reason = reason\<rparr>"

record control =
  shardMap :: ShardMap
  identifyQueue :: IdentifyQueue
  clock :: int
  sent :: "redis_command list"

definition publish_assignment :: "'a control_scheme \<Rightarrow> AssignmentUpdateMessage \<Rightarrow> 'a control_scheme" where
  "publish_assignment c msg =
     c\<lparr>sent := sent c @ [Publish (channelAssignmentUpdate (sm_prefix (shardMap c))) (M_assign msg)]\<rparr>"

definition assign ::
  "'a control_scheme \<Rightarrow> machine \<Rightarrow> shard_id list \<Rightarrow> AssignmentReason \<Rightarrow> bool
   \<Rightarrow> shard_error + (AssignmentUpdateMessage \<times> 'a control_scheme)" where
  "assign c m shards reason withQueue =
     (case find (out_of_range (shardMap c)) shards of
        Some s \<Rightarrow> Inl (ShardOutOfRange s)
      | None \<Rightarrow>
          (let ss = js_sort_num (js_uniq shards);
               sm = assign_owners (shardMap c) m ss;
               msg = assignment_message sm m ss reason;
               c' = publish_assignment (c\<lparr>shardMap := sm\<rparr>) msg
           in if withQueue \<and> ss \<noteq> []
              then (let (msgs, q', now', cmds) = grantMany (identifyQueue c') (clock c') m ss (reason \<noteq> Join)
                    in Inr (msg, c'\<lparr>identifyQueue := q', clock := now', sent := sent c' @ cmds\<rparr>))
              else Inr (msg, c')))"

definition clearMachine :: "'a control_scheme \<Rightarrow> machine \<Rightarrow> AssignmentReason \<Rightarrow> 'a control_scheme" where
  "clearMachine c m reason =
     (let had = shardsFor (shardMap c) m in
      if had = [] then c
      else (let sm = (shardMap c)\<lparr>owner := foldl jm_delete (owner (shardMap c)) had,
                                  generation := generation (shardMap c) + 1\<rparr>
            in publish_assignment (c\<lparr>shardMap := sm\<rparr>) (assignment_message sm m [] reason)))"

record shard_dump =
  dump_totalShards :: int
  dump_generation :: int
  dump_owners :: "(machine, shard_id list) jsmap"
  dump_shardToMachine :: "(shard_id, machine) jsmap"

definition group_owners :: "(machine, shard_id list) jsmap \<Rightarrow> (shard_id, machine) jsmap \<Rightarrow> (machine, shard_id list) jsmap" where
  "group_owners m0 own =
     foldl (\<lambda>d p. jm_set d (snd p) ((case jm_get d (snd p) of None \<Rightarrow> [] | Some l \<Rightarrow> l) @ [fst p])) m0 own"

definition sort_values :: "(machine, shard_id list) jsmap \<Rightarrow> (machine, shard_id list) jsmap" where
  "sort_values d = map (\<lambda>p. (fst p, js_sort_num (snd p))) d"

definition dump :: "ShardMap \<Rightarrow> shard_dump" where
  "dump sm = \<lparr>dump_totalShards = totalShards sm, dump_generation = generation sm,
     dump_owners = sort_values (group_owners [] (owner sm)), dump_shardToMachine = owner sm\<rparr>"

text \<open>\<open>moveShard\<close> may throw after its first assignment: the state is returned with the error.\<close>

definition moveShard ::
  "'a control_scheme \<Rightarrow> shard_id \<Rightarrow> machine \<Rightarrow> AssignmentReason \<Rightarrow> bool
   \<Rightarrow> (shard_error + machine option) \<times> 'a control_scheme" where
  "moveShard c s to reason withQueue =
     (let sm = shardMap c; from = ownerOf sm s in
      if out_of_range sm s then (Inl (ShardOutOfRange s), c)
      else if from = Some to then (Inr from, c)
      else (let toList = shardsFor sm to;
                toList' = (if s \<in> set toList then toList else toList @ [s])
            in case assign c to toList' reason withQueue of
                 Inl e \<Rightarrow> (Inl e, c)
               | Inr (_, c1) \<Rightarrow>
                   (case from of
                      None \<Rightarrow> (Inr from, c1)
                    | Some f \<Rightarrow>
                        if f = [] then (Inr from, c1)
                        else (case assign c1 f (filter (\<lambda>x. x \<noteq> s) (shardsFor sm f)) reason withQueue of
                                Inl e \<Rightarrow> (Inl e, c1)
                              | Inr (_, c2) \<Rightarrow> (Inr from, c2)))))"

subsection \<open>When Redis rejects a command\<close>

text \<open>
  The awaited commands of an assignment: the announcement, then one grant after the other.  A rejection
  ends the call with an error, but the owners and the generation have changed, the earlier commands are
  sent, and the rejected grant (\<open>Rejects_grant n\<close>: the first command of the grant number \<open>n\<close>, from 0) has
  waited for its bucket and reserved it.
\<close>

datatype redis_answer = Redis_ok | Rejects_publish | Rejects_grant nat

definition assign_redis ::
  "redis_answer \<Rightarrow> 'a control_scheme \<Rightarrow> machine \<Rightarrow> shard_id list \<Rightarrow> AssignmentReason \<Rightarrow> bool
   \<Rightarrow> (shard_error + AssignmentUpdateMessage) \<times> 'a control_scheme" where
  "assign_redis ans c m shards reason withQueue =
     (case assign c m shards reason withQueue of
        Inl e \<Rightarrow> (Inl e, c)
      | Inr (msg, c') \<Rightarrow>
          (case ans of
             Redis_ok \<Rightarrow> (Inr msg, c')
           | Rejects_publish \<Rightarrow> (Inl RedisFailed, c\<lparr>shardMap := shardMap c'\<rparr>)
           | Rejects_grant n \<Rightarrow>
               (let ss = au_shards msg; c1 = publish_assignment (c\<lparr>shardMap := shardMap c'\<rparr>) msg in
                if withQueue \<and> n < length ss
                then (let (ms, q', now', cmds) = grantMany (identifyQueue c1) (clock c1) m (take (n + 1) ss) (reason \<noteq> Join);
                          (ms0, q0, now0, taken) = grantMany (identifyQueue c1) (clock c1) m (take n ss) (reason \<noteq> Join)
                      in (Inl RedisFailed, c1\<lparr>identifyQueue := q', clock := now', sent := sent c1 @ taken\<rparr>))
                else (Inr msg, c'))))"

definition clear_redis ::
  "bool \<Rightarrow> 'a control_scheme \<Rightarrow> machine \<Rightarrow> AssignmentReason \<Rightarrow> (shard_error + unit) \<times> 'a control_scheme" where
  "clear_redis up c m reason =
     (let c' = clearMachine c m reason in
      if up \<or> shardsFor (shardMap c) m = [] then (Inr (), c') else (Inl RedisFailed, c\<lparr>shardMap := shardMap c'\<rparr>))"

definition move_redis ::
  "redis_answer \<Rightarrow> redis_answer \<Rightarrow> 'a control_scheme \<Rightarrow> shard_id \<Rightarrow> machine \<Rightarrow> AssignmentReason \<Rightarrow> bool
   \<Rightarrow> (shard_error + machine option) \<times> 'a control_scheme" where
  "move_redis ans1 ans2 c s to reason withQueue =
     (let sm = shardMap c; from = ownerOf sm s in
      if out_of_range sm s then (Inl (ShardOutOfRange s), c)
      else if from = Some to then (Inr from, c)
      else (let toList = shardsFor sm to;
                toList' = (if s \<in> set toList then toList else toList @ [s])
            in case assign_redis ans1 c to toList' reason withQueue of
                 (Inl e, c1) \<Rightarrow> (Inl e, c1)
               | (Inr _, c1) \<Rightarrow>
                   (case from of
                      None \<Rightarrow> (Inr from, c1)
                    | Some f \<Rightarrow>
                        if f = [] then (Inr from, c1)
                        else (case assign_redis ans2 c1 f (filter (\<lambda>x. x \<noteq> s) (shardsFor sm f)) reason withQueue of
                                (Inl e, c2) \<Rightarrow> (Inl e, c2)
                              | (Inr _, c2) \<Rightarrow> (Inr from, c2)))))"

lemma assign_redis_ok: "assign_redis Redis_ok c m ss r q = (case assign c m ss r q of Inl e \<Rightarrow> (Inl e, c) | Inr (msg, c') \<Rightarrow> (Inr msg, c'))"
  by (simp add: assign_redis_def split: sum.split)

lemma clear_redis_ok: "clear_redis True c m r = (Inr (), clearMachine c m r)"
  by (simp add: clear_redis_def)

lemma move_redis_ok: "move_redis Redis_ok Redis_ok c s to r q = moveShard c s to r q"
  by (simp add: move_redis_def moveShard_def assign_redis_ok Let_def split: sum.split option.split)

subsection \<open>The contract of an assigner\<close>

text \<open>
  What the rebalancer and the update controller rely on: \<open>give\<close> makes the listed shards, and only
  those, the machine's.  The lemmas about a loop of such calls are proved once here.
\<close>

locale shard_assigner =
  fixes own :: "'s \<Rightarrow> shard_id \<Rightarrow> machine option"
    and gen :: "'s \<Rightarrow> int"
    and total :: "'s \<Rightarrow> int"
    and ok :: "'s \<Rightarrow> bool"
    and give :: "'s \<Rightarrow> machine \<times> shard_id list \<Rightarrow> 'e + 's"
  assumes give_defined: "ok s \<Longrightarrow> (\<exists>s'. give s (m, ss) = Inr s') \<longleftrightarrow> (\<forall>x \<in> set ss. 0 \<le> x \<and> x < total s)"
    and own_give: "ok s \<Longrightarrow> give s (m, ss) = Inr s' \<Longrightarrow>
      own s' x = (if x \<in> set ss then Some m else if own s x = Some m then None else own s x)"
    and gen_give: "ok s \<Longrightarrow> give s (m, ss) = Inr s' \<Longrightarrow> gen s \<le> gen s'"
    and total_give: "ok s \<Longrightarrow> give s (m, ss) = Inr s' \<Longrightarrow> total s' = total s"
    and ok_give: "ok s \<Longrightarrow> give s (m, ss) = Inr s' \<Longrightarrow> ok s'"
begin

lemma give_all_frame:
  assumes "ok s" and "fold_res give s as = Inr s'"
  shows "ok s' \<and> gen s \<le> gen s' \<and> total s' = total s"
  using assms
proof (induction as arbitrary: s)
  case (Cons a as)
  obtain t where t: "give s a = Inr t" "fold_res give t as = Inr s'"
    using Cons.prems(2) by (rule fold_res_ConsE)
  have "ok t" "gen s \<le> gen t" "total t = total s"
    using Cons.prems(1) t(1) ok_give gen_give total_give by (cases a; blast)+
  then show ?case using Cons.IH [OF _ t(2)] by auto
qed simp

lemma give_all_defined:
  assumes "ok s" and "\<And>m ss x. (m, ss) \<in> set as \<Longrightarrow> x \<in> set ss \<Longrightarrow> 0 \<le> x \<and> x < total s"
  shows "\<exists>s'. fold_res give s as = Inr s'"
  using assms
proof (induction as arbitrary: s)
  case (Cons a as)
  obtain m ss where a: "a = (m, ss)" by (cases a)
  obtain t where t: "give s a = Inr t"
    using give_defined [OF Cons.prems(1), of m ss] Cons.prems(2) [of m ss] by (auto simp: a)
  have "total t = total s" "ok t"
    using Cons.prems(1) t total_give ok_give by (auto simp: a)
  then show ?case using Cons.IH [of t] Cons.prems(2) t by auto
qed simp

text \<open>Machines outside the list keep what no listed machine takes.\<close>

lemma own_give_all_other:
  assumes "ok s" and "fold_res give s as = Inr s'" and "m \<notin> fst ` set as"
  shows "own s' x = Some m \<longleftrightarrow> own s x = Some m \<and> (\<forall>(m', ss) \<in> set as. x \<notin> set ss)"
  using assms
proof (induction as arbitrary: s)
  case (Cons a as)
  obtain m' ss where a: "a = (m', ss)" by (cases a)
  obtain t where t: "give s a = Inr t" "fold_res give t as = Inr s'"
    using Cons.prems(2) by (rule fold_res_ConsE)
  have "ok t" using ok_give Cons.prems(1) t(1) a by blast
  moreover have "own t x = Some m \<longleftrightarrow> own s x = Some m \<and> x \<notin> set ss"
    using own_give [OF Cons.prems(1) t(1) [unfolded a]] Cons.prems(3) by (auto simp: a)
  ultimately show ?case
    using Cons.IH [OF _ t(2)] Cons.prems(3) by (auto simp: a)
qed simp

text \<open>After the loop every listed machine owns its list, when the lists do not overlap.\<close>

lemma own_give_all:
  assumes "ok s" and "fold_res give s as = Inr s'" and "distinct (map fst as)"
    and "\<And>m ss m' ss'. (m, ss) \<in> set as \<Longrightarrow> (m', ss') \<in> set as \<Longrightarrow> m \<noteq> m' \<Longrightarrow> set ss \<inter> set ss' = {}"
    and "(m, ss) \<in> set as"
  shows "own s' x = Some m \<longleftrightarrow> x \<in> set ss"
  using assms
proof (induction as arbitrary: s)
  case (Cons a as)
  obtain t where t: "give s a = Inr t" "fold_res give t as = Inr s'"
    using Cons.prems(2) by (rule fold_res_ConsE)
  have ok: "ok t" using ok_give Cons.prems(1) t(1) by (cases a) blast
  have rest: "distinct (map fst as)" and
    disj: "\<And>m ss m' ss'. (m, ss) \<in> set as \<Longrightarrow> (m', ss') \<in> set as \<Longrightarrow> m \<noteq> m' \<Longrightarrow> set ss \<inter> set ss' = {}"
    using Cons.prems(3,4) by (simp, meson list.set_intros(2))
  show ?case
  proof (cases "a = (m, ss)")
    case True
    have m: "m \<notin> fst ` set as" using Cons.prems(3) True by auto
    have "x \<notin> set ss'" if "x \<in> set ss" "(m', ss') \<in> set as" for m' ss'
    proof -
      have "m \<noteq> m'" using m that(2) by force
      then have "set ss \<inter> set ss' = {}"
        using Cons.prems(4) [of m ss m' ss'] that(2) by (simp add: True)
      then show ?thesis using that(1) by blast
    qed
    moreover have "own t x = Some m \<longleftrightarrow> x \<in> set ss"
      using own_give [OF Cons.prems(1) t(1) [unfolded True]] by simp
    ultimately show ?thesis
      using own_give_all_other [OF ok t(2) m] by auto
  next
    case False
    then have "(m, ss) \<in> set as" using Cons.prems(5) by simp
    with ok t(2) rest disj show ?thesis by (rule Cons.IH)
  qed
qed simp

end

subsection \<open>Ownership\<close>

definition shardmap_ok :: "ShardMap \<Rightarrow> bool" where
  "shardmap_ok sm = (jm_wf (owner sm) \<and> (\<forall>s \<in> set (jm_keys (owner sm)). 0 \<le> s \<and> s < totalShards sm))"

lemma set_shardsFor: "jm_wf (owner sm) \<Longrightarrow> set (shardsFor sm m) = {s. ownerOf sm s = Some m}"
  by (force simp: shardsFor_def ownerOf_def jm_get_Some_iff)

lemma distinct_shardsFor: "jm_wf (owner sm) \<Longrightarrow> distinct (shardsFor sm m)"
  by (simp add: shardsFor_def jm_wf_def distinct_map_filter)

lemma sorted_shardsFor: "sorted (shardsFor sm m)"
  by (simp add: shardsFor_def js_sort_num_eq)

lemma shardsFor_eq:
  "jm_wf (owner sm) \<Longrightarrow> sorted ss \<Longrightarrow> distinct ss \<Longrightarrow> shardsFor sm m = ss \<longleftrightarrow> {s. ownerOf sm s = Some m} = set ss"
  by (metis set_shardsFor sorted_distinct_set_unique sorted_shardsFor distinct_shardsFor)

lemma shardsFor_cong:
  assumes "jm_wf (owner sm)" "jm_wf (owner sm')" "\<And>s. ownerOf sm s = Some m \<longleftrightarrow> ownerOf sm' s = Some m"
  shows "shardsFor sm m = shardsFor sm' m"
  using assms by (simp add: shardsFor_eq sorted_shardsFor distinct_shardsFor set_shardsFor)

lemma foldl_jm_delete: "foldl jm_delete d ks = jm.del_all d ks"
  by (simp add: jm.del_all_def)

lemma foldl_jm_set: "foldl (\<lambda>d s. jm_set d s v) d ks = jm.put_all d ks v"
  by (simp add: jm.put_all_def)

lemma ownerOf_assign_owners:
  assumes "jm_wf (owner sm)"
  shows "ownerOf (assign_owners sm m ss) s =
    (if s \<in> set ss then Some m else if ownerOf sm s = Some m then None else ownerOf sm s)"
proof -
  have "s \<in> set (map fst (filter (\<lambda>p. snd p = m \<and> fst p \<notin> set ss) (owner sm))) \<longleftrightarrow>
      ownerOf sm s = Some m \<and> s \<notin> set ss"
    using assms by (force simp: ownerOf_def jm_get_Some_iff)
  then show ?thesis
    by (simp add: assign_owners_def ownerOf_def Let_def foldl_jm_delete foldl_jm_set
        jm.get_put_all jm.get_del_all del: set_map)
qed

lemma assign_owners_frame:
  "generation (assign_owners sm m ss) = generation sm + 1"
  "totalShards (assign_owners sm m ss) = totalShards sm"
  "sm_prefix (assign_owners sm m ss) = sm_prefix sm"
  "jm_wf (owner sm) \<Longrightarrow> jm_wf (owner (assign_owners sm m ss))"
  by (simp_all add: assign_owners_def Let_def foldl_jm_delete foldl_jm_set jm.ok_put_all jm.ok_del_all)

lemma shardmap_ok_owners: "shardmap_ok sm \<Longrightarrow> ownerOf sm s = Some m \<Longrightarrow> 0 \<le> s \<and> s < totalShards sm"
  unfolding shardmap_ok_def ownerOf_def set_jm_keys by auto

lemma shardmap_okI:
  assumes "jm_wf (owner sm)" "\<And>s m. ownerOf sm s = Some m \<Longrightarrow> 0 \<le> s \<and> s < totalShards sm"
  shows "shardmap_ok sm"
  using assms unfolding shardmap_ok_def ownerOf_def set_jm_keys by auto

lemma assign_owners_ok [wf_intros]:
  assumes "shardmap_ok sm" and "\<forall>s \<in> set ss. \<not> out_of_range sm s"
  shows "shardmap_ok (assign_owners sm m ss)"
proof (rule shardmap_okI)
  have wf: "jm_wf (owner sm)" using assms(1) by (simp add: shardmap_ok_def)
  then show "jm_wf (owner (assign_owners sm m ss))" by (rule assign_owners_frame)
  show "0 \<le> s \<and> s < totalShards (assign_owners sm m ss)" if "ownerOf (assign_owners sm m ss) s = Some m'" for s m'
    using that assms shardmap_ok_owners [OF assms(1)]
    by (auto simp: ownerOf_assign_owners [OF wf] assign_owners_frame out_of_range_def split: if_splits)
qed

subsection \<open>What \<open>assign\<close> does\<close>

text \<open>What a successful \<open>assign\<close> leaves, the published commands included.\<close>

definition assign_post ::
  "'a control_scheme \<Rightarrow> machine \<Rightarrow> shard_id list \<Rightarrow> AssignmentReason \<Rightarrow> bool
   \<Rightarrow> AssignmentUpdateMessage \<Rightarrow> 'a control_scheme \<Rightarrow> bool" where
  "assign_post c m shards reason withQueue msg c' =
     (let ss = sort (js_uniq shards) in
      shardMap c' = assign_owners (shardMap c) m ss \<and>
      msg = assignment_message (shardMap c') m ss reason \<and>
      published_assigns (sent c') = published_assigns (sent c) @ [msg] \<and>
      (\<exists>gs. published_grants (sent c') = published_grants (sent c) @ gs \<and>
            map ig_shardId gs = (if withQueue then ss else []) \<and>
            (\<forall>g \<in> set gs. ig_machineId g = m \<and> ig_allowResume g = (reason \<noteq> Join))) \<and>
      queue_ok (identifyQueue c') = queue_ok (identifyQueue c) \<and> clock c \<le> clock c' \<and>
      control.more c' = control.more c)"

lemma find_out_of_range_None: "find P xs = None \<longleftrightarrow> (\<forall>x \<in> set xs. \<not> P x)"
  by (induction xs) auto

lemma assign_Inl_iff: "(\<exists>e. assign c m shards reason q = Inl e) \<longleftrightarrow> (\<exists>s \<in> set shards. out_of_range (shardMap c) s)"
  using find_out_of_range_None [of "out_of_range (shardMap c)" shards]
  by (auto simp: assign_def Let_def split: option.splits prod.splits if_splits)

lemma assign_InrD:
  assumes "assign c m shards reason q = Inr (msg, c')"
  shows "(\<forall>s \<in> set shards. \<not> out_of_range (shardMap c) s) \<and> assign_post c m shards reason q msg c'"
proof -
  let ?ss = "sort (js_uniq shards)"
  let ?sm = "assign_owners (shardMap c) m ?ss"
  let ?c1 = "publish_assignment (c\<lparr>shardMap := ?sm\<rparr>) (assignment_message ?sm m ?ss reason)"
  have nf: "find (out_of_range (shardMap c)) shards = None"
    using assms by (auto simp: assign_def split: option.splits)
  have c1: "shardMap ?c1 = ?sm" "identifyQueue ?c1 = identifyQueue c" "clock ?c1 = clock c"
    "published_assigns (sent ?c1) = published_assigns (sent c) @ [assignment_message ?sm m ?ss reason]"
    "published_grants (sent ?c1) = published_grants (sent c)" "control.more ?c1 = control.more c"
    by (simp_all add: publish_assignment_def)
  have res: "assign c m shards reason q =
      (if q \<and> ?ss \<noteq> []
       then (let (msgs, q', now', cmds) = grantMany (identifyQueue ?c1) (clock ?c1) m ?ss (reason \<noteq> Join)
             in Inr (assignment_message ?sm m ?ss reason,
                     ?c1\<lparr>identifyQueue := q', clock := now', sent := sent ?c1 @ cmds\<rparr>))
       else Inr (assignment_message ?sm m ?ss reason, ?c1))"
    using nf by (simp add: assign_def Let_def js_sort_num_eq)
  have "assign_post c m shards reason q msg c'"
  proof (cases "q \<and> ?ss \<noteq> []")
    case True
    obtain msgs q' now' cmds where g: "grant_each (identifyQueue c) (clock c) m ?ss (reason \<noteq> Join) = (msgs, q', now', cmds)"
      by (rule prod_cases4)
    then have gm: "grantMany (identifyQueue ?c1) (clock ?c1) m ?ss (reason \<noteq> Join) = (msgs, q', now', cmds)"
      by (simp add: grantMany_def js_sort_num_eq c1 sorted_sort_id)
    have "assign c m shards reason q = Inr (assignment_message ?sm m ?ss reason,
        ?c1\<lparr>identifyQueue := q', clock := now', sent := sent ?c1 @ cmds\<rparr>)"
      unfolding res using True by (simp only: gm Let_def prod.case simp_thms if_True)
    then have "msg = assignment_message ?sm m ?ss reason"
      and "c' = ?c1\<lparr>identifyQueue := q', clock := now', sent := sent ?c1 @ cmds\<rparr>"
      using assms by simp_all
    then show ?thesis
      using True grant_each_simps [OF g] by (simp add: assign_post_def Let_def c1)
  next
    case False
    have "(assignment_message ?sm m ?ss reason, ?c1) = (msg, c')"
      using assms False unfolding res by (simp only: if_False sum.inject)
    then have "msg = assignment_message ?sm m ?ss reason" and "c' = ?c1"
      by fast+
    then show ?thesis
      using False by (auto simp: assign_post_def Let_def c1)
  qed
  then show ?thesis
    using nf by (simp add: find_out_of_range_None)
qed

lemma assign_ok: "shardmap_ok (shardMap c) \<Longrightarrow> assign c m shards reason q = Inr (msg, c') \<Longrightarrow> shardmap_ok (shardMap c')"
  using assign_InrD [of c m shards reason q msg c'] assign_owners_ok [of "shardMap c" "sort (js_uniq shards)" m]
  by (simp add: assign_post_def Let_def)

lemma ownerOf_assign:
  "jm_wf (owner (shardMap c)) \<Longrightarrow> assign c m shards reason q = Inr (msg, c') \<Longrightarrow> ownerOf (shardMap c') s =
     (if s \<in> set shards then Some m else if ownerOf (shardMap c) s = Some m then None else ownerOf (shardMap c) s)"
  using assign_InrD [of c m shards reason q msg c'] by (simp add: assign_post_def Let_def ownerOf_assign_owners)

lemma assign_total: "assign c m shards reason q = Inr (msg, c') \<Longrightarrow> totalShards (shardMap c') = totalShards (shardMap c)"
  using assign_InrD [of c m shards reason q msg c'] by (simp add: assign_post_def Let_def assign_owners_frame)

definition assign_give ::
  "AssignmentReason \<Rightarrow> bool \<Rightarrow> 'a control_scheme \<Rightarrow> machine \<times> shard_id list \<Rightarrow> shard_error + 'a control_scheme" where
  "assign_give reason withQueue c p = map_sum id snd (assign c (fst p) (snd p) reason withQueue)"

lemma assign_give_Inr: "assign_give reason q c (m, ss) = Inr c' \<longleftrightarrow> (\<exists>msg. assign c m ss reason q = Inr (msg, c'))"
  by (cases "assign c m ss reason q") (auto simp: assign_give_def)

interpretation assigner: shard_assigner "\<lambda>c. ownerOf (shardMap c)" "\<lambda>c. generation (shardMap c)"
    "\<lambda>c. totalShards (shardMap c)" "\<lambda>c. shardmap_ok (shardMap c)" "assign_give reason withQueue"
  for reason withQueue
proof
  fix c c' :: "'a control_scheme" and m ss x
  assume ok: "shardmap_ok (shardMap c)"
  then have wf: "jm_wf (owner (shardMap c))" by (simp add: shardmap_ok_def)
  show "(\<exists>s'. assign_give reason withQueue c (m, ss) = Inr s') \<longleftrightarrow> (\<forall>x \<in> set ss. 0 \<le> x \<and> x < totalShards (shardMap c))"
  proof -
    have "(\<forall>x \<in> set ss. 0 \<le> x \<and> x < totalShards (shardMap c)) \<longleftrightarrow> \<not> (\<exists>s \<in> set ss. out_of_range (shardMap c) s)"
      by (auto simp: out_of_range_def not_le not_less)
    also have "\<dots> \<longleftrightarrow> (\<exists>r. assign c m ss reason withQueue = Inr r)"
      unfolding assign_Inl_iff [of c m ss reason withQueue, symmetric]
      by (cases "assign c m ss reason withQueue") auto
    finally show ?thesis by (auto simp: assign_give_Inr)
  qed
  assume g: "assign_give reason withQueue c (m, ss) = Inr c'"
  then obtain msg where a: "assign c m ss reason withQueue = Inr (msg, c')" by (auto simp: assign_give_Inr)
  note post = assign_InrD [OF a]
  show "ownerOf (shardMap c') x = (if x \<in> set ss then Some m
      else if ownerOf (shardMap c) x = Some m then None else ownerOf (shardMap c) x)"
    by (rule ownerOf_assign [OF wf a])
  show "generation (shardMap c) \<le> generation (shardMap c')" "totalShards (shardMap c') = totalShards (shardMap c)"
    using post by (simp_all add: assign_post_def Let_def assign_owners_frame)
  show "shardmap_ok (shardMap c')" by (rule assign_ok [OF ok a])
qed

subsection \<open>What the workers were told\<close>

text \<open>The shards a machine believes it has: those of the last message addressed to it.\<close>

fun view_of :: "AssignmentUpdateMessage list \<Rightarrow> machine \<Rightarrow> shard_id list \<Rightarrow> shard_id list" where
  "view_of [] m ss = ss"
| "view_of (msg # msgs) m ss = view_of msgs m (if au_machineId msg = m then au_shards msg else ss)"

lemma view_of_append: "view_of (xs @ ys) m ss = view_of ys m (view_of xs m ss)"
  by (induction xs arbitrary: ss) auto

definition told :: "'a control_scheme \<Rightarrow> machine \<Rightarrow> shard_id list" where
  "told c m = view_of (published_assigns (sent c)) m []"

lemma told_assign:
  assumes "assign c m shards reason q = Inr (msg, c')"
  shows "told c' m' = (if m' = m then sort (js_uniq shards) else told c m')"
  using assign_InrD [OF assms]
  by (auto simp: told_def assign_post_def Let_def view_of_append assignment_message_def)

definition announced :: "'a control_scheme \<Rightarrow> machine \<Rightarrow> bool" where
  "announced c m = (told c m = shardsFor (shardMap c) m)"

lemma shardsFor_assign:
  assumes wf: "jm_wf (owner (shardMap c))" and a: "assign c m shards reason q = Inr (msg, c')"
  shows "shardsFor (shardMap c') m' =
    (if m' = m then sort (js_uniq shards) else filter (\<lambda>s. s \<notin> set shards) (shardsFor (shardMap c) m'))"
proof -
  have wf': "jm_wf (owner (shardMap c'))"
    using assign_InrD [OF a] wf by (simp add: assign_post_def Let_def assign_owners_frame)
  show ?thesis
    by (subst shardsFor_eq [OF wf'])
      (auto simp: ownerOf_assign [OF wf a] set_shardsFor [OF wf] distinct_shardsFor [OF wf] sorted_shardsFor
        sorted_wrt_filter)
qed

text \<open>An assignment that takes no shard from another machine keeps everyone informed.\<close>

lemma assign_announced:
  assumes wf: "jm_wf (owner (shardMap c))" and a: "assign c m shards reason q = Inr (msg, c')"
    and "m' = m \<or> announced c m' \<and> set shards \<inter> set (shardsFor (shardMap c) m') = {}"
  shows "announced c' m'"
proof -
  have "set shards \<inter> set (shardsFor (shardMap c) m') = {} \<Longrightarrow>
      filter (\<lambda>s. s \<notin> set shards) (shardsFor (shardMap c) m') = shardsFor (shardMap c) m'"
    by (rule filter_True) blast
  then show ?thesis
    using assms(3) by (auto simp: announced_def told_assign [OF a] shardsFor_assign [OF wf a])
qed

subsection \<open>Sequences of operations\<close>

datatype control_op =
    Op_assign machine "shard_id list" AssignmentReason bool redis_answer
  | Op_clear machine AssignmentReason bool
  | Op_move shard_id machine AssignmentReason bool redis_answer redis_answer
  | Op_total int

fun control_step :: "'a control_scheme \<Rightarrow> control_op \<Rightarrow> 'a control_scheme" where
  "control_step c (Op_assign m ss r q ans) = snd (assign_redis ans c m ss r q)"
| "control_step c (Op_clear m r up) = snd (clear_redis up c m r)"
| "control_step c (Op_move s m r q ans1 ans2) = snd (move_redis ans1 ans2 c s m r q)"
| "control_step c (Op_total n) = (case setTotalShards (shardMap c) n of Inl e \<Rightarrow> c | Inr sm \<Rightarrow> c\<lparr>shardMap := sm\<rparr>)"

text \<open>
  The invariant: owners in range, every message published under its own generation, in increasing
  order, none above the current one.
\<close>

definition control_ok :: "'a control_scheme \<Rightarrow> bool" where
  "control_ok c = (shardmap_ok (shardMap c) \<and>
     sorted_wrt (<) (map au_generation (published_assigns (sent c))) \<and>
     (\<forall>msg \<in> set (published_assigns (sent c)). au_generation msg \<le> generation (shardMap c)))"

lemma control_ok_publish:
  assumes "control_ok c" and "published_assigns (sent c') = published_assigns (sent c) @ [msg]"
    and "shardmap_ok (shardMap c')" and "au_generation msg = generation (shardMap c')"
    and "generation (shardMap c') = generation (shardMap c) + 1"
  shows "control_ok c'"
  using assms by (fastforce simp: control_ok_def sorted_wrt_append)

lemma assign_control_ok:
  assumes ok: "control_ok c" and a: "assign c m ss r q = Inr (msg, c')"
  shows "control_ok c'"
proof (rule control_ok_publish [OF ok])
  note post = assign_InrD [OF a]
  show "published_assigns (sent c') = published_assigns (sent c) @ [msg]"
    using post by (simp add: assign_post_def Let_def)
  show "shardmap_ok (shardMap c')"
    using ok a assign_ok by (auto simp: control_ok_def)
  show "au_generation msg = generation (shardMap c')"
    using post by (simp add: assign_post_def Let_def assignment_message_def)
  show "generation (shardMap c') = generation (shardMap c) + 1"
    using post by (simp add: assign_post_def Let_def assign_owners_frame)
qed

lemma ownerOf_clear:
  "jm_wf (owner (shardMap c)) \<Longrightarrow> ownerOf (shardMap (clearMachine c m r)) s =
     (if ownerOf (shardMap c) s = Some m then None else ownerOf (shardMap c) s)"
  using set_shardsFor [of "shardMap c" m]
  by (auto simp: clearMachine_def Let_def publish_assignment_def ownerOf_def foldl_jm_delete jm.get_del_all)

lemma clear_frame:
  "jm_wf (owner (shardMap c)) \<Longrightarrow> jm_wf (owner (shardMap (clearMachine c m r)))"
  "totalShards (shardMap (clearMachine c m r)) = totalShards (shardMap c)"
  by (simp_all add: clearMachine_def Let_def publish_assignment_def foldl_jm_delete jm.ok_del_all)

lemma clear_ok:
  assumes "shardmap_ok (shardMap c)"
  shows "shardmap_ok (shardMap (clearMachine c m r))"
proof (rule shardmap_okI)
  have wf: "jm_wf (owner (shardMap c))" using assms by (simp add: shardmap_ok_def)
  then show "jm_wf (owner (shardMap (clearMachine c m r)))" by (rule clear_frame)
  show "0 \<le> s \<and> s < totalShards (shardMap (clearMachine c m r))"
    if "ownerOf (shardMap (clearMachine c m r)) s = Some m'" for s m'
    using that shardmap_ok_owners [OF assms] by (auto simp: ownerOf_clear [OF wf] clear_frame split: if_splits)
qed

lemma clear_control_ok:
  assumes "control_ok c"
  shows "control_ok (clearMachine c m r)"
proof (cases "shardsFor (shardMap c) m = []")
  case False
  then show ?thesis
    using assms clear_ok [of c m r]
    by (intro control_ok_publish [OF assms, of _ "assignment_message (shardMap (clearMachine c m r)) m [] r"])
      (auto simp: control_ok_def clearMachine_def Let_def publish_assignment_def assignment_message_def)
qed (use assms in \<open>simp add: clearMachine_def\<close>)

lemma moveShard_control_ok: "control_ok c \<Longrightarrow> control_ok (snd (moveShard c s m r q))"
  by (auto simp: moveShard_def Let_def split: sum.splits option.splits dest!: assign_control_ok [rotated])

definition new_control :: "ShardMap \<Rightarrow> IdentifyQueue \<Rightarrow> int \<Rightarrow> control" where
  "new_control sm q now = \<lparr>shardMap = sm, identifyQueue = q, clock = now, sent = []\<rparr>"

lemma new_control_ok: "new_ShardMap n p = Inr sm \<Longrightarrow> control_ok (new_control sm q now)"
  by (auto simp: new_ShardMap_def new_control_def control_ok_def shardmap_ok_def split: if_splits)

text \<open>
  What every operation keeps, whatever Redis answers: owners are at least zero and below a bound that every
  total so far respects, and the generations that were published grow up to the current one.
\<close>

definition control_inv :: "int \<Rightarrow> 'a control_scheme \<Rightarrow> bool" where
  "control_inv b c = (jm_wf (owner (shardMap c)) \<and> totalShards (shardMap c) \<le> b \<and>
     (\<forall>s m. ownerOf (shardMap c) s = Some m \<longrightarrow> 0 \<le> s \<and> s < b) \<and>
     sorted_wrt (<) (map au_generation (published_assigns (sent c))) \<and>
     (\<forall>msg \<in> set (published_assigns (sent c)). au_generation msg \<le> generation (shardMap c)))"

lemma control_inv_publish:
  assumes "control_inv b c" "published_assigns (sent c') = published_assigns (sent c) @ ms" "ms \<in> {[], [msg]}"
    and "au_generation msg = generation (shardMap c')" "generation (shardMap c') = generation (shardMap c) + 1"
    and "jm_wf (owner (shardMap c'))" "totalShards (shardMap c') = totalShards (shardMap c)"
    and "\<And>s m. ownerOf (shardMap c') s = Some m \<Longrightarrow> 0 \<le> s \<and> s < b"
  shows "control_inv b c'"
  using assms by (fastforce simp: control_inv_def sorted_wrt_append)

lemma published_take_grants: "published_assigns (snd (snd (snd (grantMany q now m ss r)))) = []"
proof -
  obtain msgs q' now' cs where g: "grant_each q now m (js_sort_num ss) r = (msgs, q', now', cs)" by (rule prod_cases4)
  then show ?thesis using grant_each_simps [OF g] by (simp add: grantMany_def)
qed

lemma assign_redis_inv:
  assumes inv: "control_inv b c"
  shows "control_inv b (snd (assign_redis ans c m ss r q))"
proof (cases "assign c m ss r q")
  case (Inl e)
  then show ?thesis using inv by (simp add: assign_redis_def)
next
  case (Inr p)
  obtain msg c' where a: "assign c m ss r q = Inr (msg, c')" using Inr by (cases p) simp
  have wf: "jm_wf (owner (shardMap c))" using inv by (simp add: control_inv_def)
  note post = assign_InrD [OF a]
  let ?c = "snd (assign_redis ans c m ss r q)"
  have sm: "shardMap ?c = shardMap c'"
    by (simp add: assign_redis_def a publish_assignment_def Let_def case_prod_unfold split: redis_answer.split)
  have pub: "\<exists>ms \<in> {[], [msg]}. published_assigns (sent ?c) = published_assigns (sent c) @ ms"
    using post published_take_grants
    by (auto simp: assign_redis_def a publish_assignment_def Let_def case_prod_unfold assign_post_def split: redis_answer.split)
  have f: "au_generation msg = generation (shardMap c')" "generation (shardMap c') = generation (shardMap c) + 1"
    "jm_wf (owner (shardMap c'))" "totalShards (shardMap c') = totalShards (shardMap c)"
    using post wf by (simp_all add: assign_post_def Let_def assignment_message_def assign_owners_frame)
  have "0 \<le> s \<and> s < b" if "ownerOf (shardMap c') s = Some k" for s k
    using that inv post by (auto simp: ownerOf_assign [OF wf a] control_inv_def out_of_range_def split: if_splits)
  then show ?thesis using control_inv_publish [OF inv, of ?c _ msg] pub f unfolding sm by blast
qed

lemma clear_redis_inv:
  assumes inv: "control_inv b c"
  shows "control_inv b (snd (clear_redis up c m r))"
proof (cases "shardsFor (shardMap c) m = []")
  case True
  then show ?thesis using inv by (simp add: clear_redis_def clearMachine_def)
next
  case False
  have wf: "jm_wf (owner (shardMap c))" using inv by (simp add: control_inv_def)
  let ?c = "snd (clear_redis up c m r)" and ?msg = "assignment_message (shardMap (clearMachine c m r)) m [] r"
  have sm: "shardMap ?c = shardMap (clearMachine c m r)" by (simp add: clear_redis_def Let_def)
  have pub: "published_assigns (sent ?c) = published_assigns (sent c) @ (if up then [?msg] else [])"
    using False by (simp add: clear_redis_def clearMachine_def Let_def publish_assignment_def assignment_message_def)
  have f: "au_generation ?msg = generation (shardMap (clearMachine c m r))" "generation (shardMap (clearMachine c m r)) = generation (shardMap c) + 1"
    using False by (simp_all add: clearMachine_def Let_def publish_assignment_def assignment_message_def)
  have own: "0 \<le> s \<and> s < b" if "ownerOf (shardMap (clearMachine c m r)) s = Some k" for s k
    using that inv by (auto simp: ownerOf_clear [OF wf] control_inv_def split: if_splits)
  show ?thesis
    by (rule control_inv_publish [OF inv pub, of ?msg]) (use f own clear_frame [of c m r] wf in \<open>auto simp: sm\<close>)
qed

lemma move_redis_inv:
  assumes inv: "control_inv b c"
  shows "control_inv b (snd (move_redis ans1 ans2 c s m r q))"
proof -
  have a: "control_inv b c2" if "assign_redis ans c1 m' ss r q = (x, c2)" "control_inv b c1" for ans c1 m' ss x c2
    using assign_redis_inv [OF that(2), of ans m' ss r q] that(1) by simp
  show ?thesis using inv by (auto simp: move_redis_def Let_def split: prod.splits sum.splits option.splits dest!: a)
qed

text \<open>Whatever Redis answers, an assignment that does not throw for its range has changed the owners.\<close>

lemma assign_redis_done:
  assumes ok: "shardmap_ok (shardMap c)" and rg: "\<forall>s \<in> set ss. \<not> out_of_range (shardMap c) s"
  shows "\<exists>x c1. assign_redis ans c m ss r q = (x, c1) \<and> shardmap_ok (shardMap c1) \<and>
    totalShards (shardMap c1) = totalShards (shardMap c) \<and> (x = Inl RedisFailed \<or> (\<exists>msg. x = Inr msg)) \<and>
    (ans = Redis_ok \<longrightarrow> (\<exists>msg. x = Inr msg)) \<and>
    (\<forall>s. ownerOf (shardMap c1) s =
      (if s \<in> set ss then Some m else if ownerOf (shardMap c) s = Some m then None else ownerOf (shardMap c) s))"
proof -
  have "\<not> (\<exists>e. assign c m ss r q = Inl e)" unfolding assign_Inl_iff using rg by blast
  then obtain msg c' where a: "assign c m ss r q = Inr (msg, c')" by (cases "assign c m ss r q") auto
  have wf: "jm_wf (owner (shardMap c))" using ok by (simp add: shardmap_ok_def)
  let ?p = "assign_redis ans c m ss r q"
  have sm: "shardMap (snd ?p) = shardMap c'"
    by (simp add: assign_redis_def a publish_assignment_def Let_def case_prod_unfold split: redis_answer.split)
  have res: "fst ?p = Inl RedisFailed \<or> (\<exists>msg. fst ?p = Inr msg)" "ans = Redis_ok \<longrightarrow> (\<exists>msg. fst ?p = Inr msg)"
    by (auto simp: assign_redis_def a Let_def case_prod_unfold split: redis_answer.split)
  have own: "\<forall>s. ownerOf (shardMap c') s =
      (if s \<in> set ss then Some m else if ownerOf (shardMap c) s = Some m then None else ownerOf (shardMap c) s)"
    using ownerOf_assign [OF wf a] by blast
  have p: "?p = (fst ?p, snd ?p)" by simp
  show ?thesis
    by (rule exI [of _ "fst ?p"], rule exI [of _ "snd ?p"]) (use p res own assign_ok [OF ok a] assign_total [OF a] in \<open>simp add: sm\<close>)
qed

lemma move_redis_done:
  assumes ok: "shardmap_ok (shardMap c)" and named: "ownerOf (shardMap c) s \<noteq> Some []"
    and rg: "0 \<le> s" "s < totalShards (shardMap c)"
  shows "\<exists>x c'. move_redis ans1 ans2 c s to r q = (x, c') \<and>
    (\<forall>y. ownerOf (shardMap c') y = (if y = s then Some to else ownerOf (shardMap c) y)) \<and>
    (x = Inl RedisFailed \<or> x = Inr (ownerOf (shardMap c) s)) \<and>
    (ans1 = Redis_ok \<and> ans2 = Redis_ok \<longrightarrow> x = Inr (ownerOf (shardMap c) s))"
proof (cases "ownerOf (shardMap c) s = Some to")
  case True
  then show ?thesis using rg by (auto simp: move_redis_def Let_def out_of_range_def)
next
  case False
  have wf: "jm_wf (owner (shardMap c))" using ok by (simp add: shardmap_ok_def)
  let ?to = "shardsFor (shardMap c) to"
  have new: "s \<notin> set ?to" using False by (simp add: set_shardsFor [OF wf])
  have "\<forall>y \<in> set (?to @ [s]). \<not> out_of_range (shardMap c) y"
    using rg shardmap_ok_owners [OF ok] by (fastforce simp: out_of_range_def set_shardsFor [OF wf])
  from assign_redis_done [OF ok this, of ans1 to r q]
  obtain x c1 where a1: "assign_redis ans1 c to (?to @ [s]) r q = (x, c1)" "shardmap_ok (shardMap c1)"
      "totalShards (shardMap c1) = totalShards (shardMap c)" "x = Inl RedisFailed \<or> (\<exists>msg. x = Inr msg)"
      "ans1 = Redis_ok \<longrightarrow> (\<exists>msg. x = Inr msg)"
      "\<forall>y. ownerOf (shardMap c1) y = (if y \<in> set (?to @ [s]) then Some to
         else if ownerOf (shardMap c) y = Some to then None else ownerOf (shardMap c) y)"
    by (elim exE conjE) (rule that)
  have own1: "ownerOf (shardMap c1) y = (if y = s then Some to else ownerOf (shardMap c) y)" for y
    using a1(6) by (auto simp: set_shardsFor [OF wf])
  have run: "move_redis ans1 ans2 c s to r q = (case (x, c1) of (Inl e, c1) \<Rightarrow> (Inl e, c1)
      | (Inr _, c1) \<Rightarrow> (case ownerOf (shardMap c) s of None \<Rightarrow> (Inr (ownerOf (shardMap c) s), c1)
        | Some f \<Rightarrow> if f = [] then (Inr (ownerOf (shardMap c) s), c1)
            else (case assign_redis ans2 c1 f (filter (\<lambda>x. x \<noteq> s) (shardsFor (shardMap c) f)) r q of
                    (Inl e, c2) \<Rightarrow> (Inl e, c2) | (Inr _, c2) \<Rightarrow> (Inr (ownerOf (shardMap c) s), c2))))"
    using rg False new a1(1) by (simp add: move_redis_def Let_def out_of_range_def)
  show ?thesis
  proof (cases "x = Inl RedisFailed")
    case True
    then show ?thesis using run own1 a1(5) by auto
  next
    case x: False
    then obtain msg where m: "x = Inr msg" using a1(4) by blast
    show ?thesis
    proof (cases "ownerOf (shardMap c) s")
      case None
      then show ?thesis using run own1 m by simp
    next
      case (Some f)
      have ft: "f \<noteq> to" "f \<noteq> []" using False Some named by auto
      let ?f = "filter (\<lambda>x. x \<noteq> s) (shardsFor (shardMap c) f)"
      have "\<forall>y \<in> set ?f. \<not> out_of_range (shardMap c1) y"
        using shardmap_ok_owners [OF ok] by (fastforce simp: out_of_range_def a1(3) set_shardsFor [OF wf])
      from assign_redis_done [OF a1(2) this, of ans2 f r q]
      obtain x2 c2 where a2: "assign_redis ans2 c1 f ?f r q = (x2, c2)"
          "x2 = Inl RedisFailed \<or> (\<exists>msg. x2 = Inr msg)" "ans2 = Redis_ok \<longrightarrow> (\<exists>msg. x2 = Inr msg)"
          "\<forall>y. ownerOf (shardMap c2) y = (if y \<in> set ?f then Some f
             else if ownerOf (shardMap c1) y = Some f then None else ownerOf (shardMap c1) y)"
        by (elim exE conjE) (rule that)
      have own2: "ownerOf (shardMap c2) y = (if y = s then Some to else ownerOf (shardMap c) y)" for y
        using a2(4) own1 ft by (auto simp: set_shardsFor [OF wf] Some)
      have r2: "move_redis ans1 ans2 c s to r q = (case x2 of Inl e \<Rightarrow> (Inl e, c2) | Inr _ \<Rightarrow> (Inr (ownerOf (shardMap c) s), c2))"
        using run m Some ft a2(1) by simp
      show ?thesis
      proof (cases "x2 = Inl RedisFailed")
        case True
        then show ?thesis using r2 own2 a2(3) by auto
      next
        case False
        then obtain msg2 where "x2 = Inr msg2" using a2(2) by blast
        then show ?thesis using r2 own2 by simp
      qed
    qed
  qed
qed

fun op_total :: "control_op \<Rightarrow> int" where
  "op_total (Op_total n) = n"
| "op_total _ = 1"

lemma control_step_inv:
  assumes "control_inv b c" "op_total x \<le> b"
  shows "control_inv b (control_step c x)"
proof (cases x)
  case (Op_total n)
  then show ?thesis using assms by (simp add: setTotalShards_def control_inv_def ownerOf_def)
qed (use assms in \<open>simp_all add: assign_redis_inv clear_redis_inv move_redis_inv\<close>)

lemma control_run_inv: "control_inv b c \<Longrightarrow> \<forall>x \<in> set ops. op_total x \<le> b \<Longrightarrow> control_inv b (foldl control_step c ops)"
  by (induction ops arbitrary: c) (simp_all add: control_step_inv)

lemma assign_post_facts:
  assumes "assign_post c m shards reason True msg c'"
  shows "generation (shardMap c') = generation (shardMap c) + 1 \<and>
    published_assigns (sent c') = published_assigns (sent c) @ [msg] \<and>
    au_machineId msg = m \<and> au_generation msg = generation (shardMap c') \<and>
    sorted (au_shards msg) \<and> distinct (au_shards msg) \<and> set (au_shards msg) = set shards \<and>
    (\<exists>gs. published_grants (sent c') = published_grants (sent c) @ gs \<and> map ig_shardId gs = au_shards msg \<and>
      (\<forall>g \<in> set gs. ig_machineId g = m \<and> ig_allowResume g = (reason \<noteq> Join)))"
  using assms by (simp add: assign_post_def Let_def assignment_message_def assign_owners_frame)

subsection \<open>Properties\<close>

text \<open>
  \<open>assign\<close> throws, changing nothing, exactly when a listed shard is out of range.  Otherwise the
  machine owns exactly the listed shards, every other shard keeps its owner, the generation grows by one,
  one message announces the sorted list under that generation, and each listed shard gets exactly one
  identify grant, resumable unless the machine just joined.
\<close>

theorem assign_correct:
  assumes "shardmap_ok (shardMap c)"
  shows "((\<exists>e. assign c m shards reason True = Inl e) \<longleftrightarrow> (\<exists>s \<in> set shards. s < 0 \<or> totalShards (shardMap c) \<le> s)) \<and>
    (\<forall>msg c'. assign c m shards reason True = Inr (msg, c') \<longrightarrow>
      (\<forall>s. ownerOf (shardMap c') s = (if s \<in> set shards then Some m
         else if ownerOf (shardMap c) s = Some m then None else ownerOf (shardMap c) s)) \<and>
      shardmap_ok (shardMap c') \<and> generation (shardMap c') = generation (shardMap c) + 1 \<and>
      published_assigns (sent c') = published_assigns (sent c) @ [msg] \<and>
      au_machineId msg = m \<and> au_generation msg = generation (shardMap c') \<and>
      sorted (au_shards msg) \<and> distinct (au_shards msg) \<and> set (au_shards msg) = set shards \<and>
      (\<exists>gs. published_grants (sent c') = published_grants (sent c) @ gs \<and> map ig_shardId gs = au_shards msg \<and>
        (\<forall>g \<in> set gs. ig_machineId g = m \<and> ig_allowResume g = (reason \<noteq> Join))))"
proof -
  have wf: "jm_wf (owner (shardMap c))" using assms by (simp add: shardmap_ok_def)
  have "(\<exists>e. assign c m shards reason True = Inl e) \<longleftrightarrow> (\<exists>s \<in> set shards. s < 0 \<or> totalShards (shardMap c) \<le> s)"
    unfolding assign_Inl_iff by (simp add: out_of_range_def)
  moreover have "(\<forall>s. ownerOf (shardMap c') s = (if s \<in> set shards then Some m
         else if ownerOf (shardMap c) s = Some m then None else ownerOf (shardMap c) s)) \<and>
      shardmap_ok (shardMap c') \<and> generation (shardMap c') = generation (shardMap c) + 1 \<and>
      published_assigns (sent c') = published_assigns (sent c) @ [msg] \<and>
      au_machineId msg = m \<and> au_generation msg = generation (shardMap c') \<and>
      sorted (au_shards msg) \<and> distinct (au_shards msg) \<and> set (au_shards msg) = set shards \<and>
      (\<exists>gs. published_grants (sent c') = published_grants (sent c) @ gs \<and> map ig_shardId gs = au_shards msg \<and>
        (\<forall>g \<in> set gs. ig_machineId g = m \<and> ig_allowResume g = (reason \<noteq> Join)))"
    if "assign c m shards reason True = Inr (msg, c')" for msg c'
    using ownerOf_assign [OF wf that] assign_ok [OF assms that]
      assign_post_facts [OF assign_InrD [OF that, THEN conjunct2]]
    by (intro conjI allI) simp_all
  ultimately show ?thesis by (intro conjI allI impI) blast+
qed

definition demo_control :: control where
  "demo_control = new_control \<lparr>generation = 1, totalShards = 4, owner = [(0, ''a''), (1, ''a''), (2, ''b'')], sm_prefix = ''p''\<rparr>
     (new_IdentifyQueue 1 True ''p'' (\<lambda>n. nat_to_str n)) 0"

lemma demo_control_ok: "shardmap_ok (shardMap demo_control)"
  by (simp add: demo_control_def new_control_def shardmap_ok_def jm_wf_def)

theorem assign_correct_witness:
  "\<exists>e. assign demo_control ''b'' [2, 4] Join True = Inl e"
  using assign_correct [OF demo_control_ok, of "''b''" "[2, 4]" Join]
  by (simp add: demo_control_def new_control_def)

lemma moveShard_done:
  assumes "control_ok c" and "\<forall>m. announced c m" and "ownerOf (shardMap c) s \<noteq> Some []"
    and "0 \<le> s" "s < totalShards (shardMap c)"
  shows "\<exists>c'. moveShard c s to reason q = (Inr (ownerOf (shardMap c) s), c') \<and> (\<forall>m. announced c' m) \<and>
    (\<forall>x. ownerOf (shardMap c') x = (if x = s then Some to else ownerOf (shardMap c) x))"
proof (cases "ownerOf (shardMap c) s = Some to")
  case True
  then show ?thesis
    using assms by (auto simp: moveShard_def Let_def out_of_range_def)
next
  case False
  let ?to = "shardsFor (shardMap c) to"
  have ok: "shardmap_ok (shardMap c)" using assms(1) by (simp add: control_ok_def)
  then have wf: "jm_wf (owner (shardMap c))" by (simp add: shardmap_ok_def)
  have new: "s \<notin> set ?to" using False by (simp add: set_shardsFor [OF wf])
  have "\<not> (\<exists>e. assign c to (?to @ [s]) reason q = Inl e)"
    unfolding assign_Inl_iff using assms(4,5)
    by (auto simp: out_of_range_def set_shardsFor [OF wf] not_le not_less dest!: shardmap_ok_owners [OF ok])
  then obtain msg c1 where a1: "assign c to (?to @ [s]) reason q = Inr (msg, c1)"
    by (cases "assign c to (?to @ [s]) reason q") auto
  have ok1: "shardmap_ok (shardMap c1)" by (rule assign_ok [OF ok a1])
  then have wf1: "jm_wf (owner (shardMap c1))" by (simp add: shardmap_ok_def)
  have own1: "ownerOf (shardMap c1) x = (if x = s then Some to else ownerOf (shardMap c) x)" for x
    using ownerOf_assign [OF wf a1, of x] by (auto simp: set_shardsFor [OF wf])
  have ann1: "announced c1 m" if "Some m \<noteq> ownerOf (shardMap c) s" for m
    by (rule assign_announced [OF wf a1]) (use assms(2) that in \<open>auto simp: set_shardsFor [OF wf]\<close>)
  show ?thesis
  proof (cases "ownerOf (shardMap c) s")
    case None
    then show ?thesis
      using assms(4,5) False new a1 own1 by (auto simp: moveShard_def Let_def out_of_range_def intro: ann1)
  next
    case (Some f)
    let ?f = "filter (\<lambda>x. x \<noteq> s) (shardsFor (shardMap c) f)"
    have ft: "f \<noteq> to" "f \<noteq> []" using False Some assms(3) by auto
    have "\<not> (\<exists>e. assign c1 f ?f reason q = Inl e)"
      unfolding assign_Inl_iff using own1
      by (auto simp: out_of_range_def set_shardsFor [OF wf] not_le not_less assign_total [OF a1] split: if_splits dest!: shardmap_ok_owners [OF ok])
    then obtain msg2 c2 where a2: "assign c1 f ?f reason q = Inr (msg2, c2)"
      by (cases "assign c1 f ?f reason q") auto
    have "ownerOf (shardMap c2) x = (if x = s then Some to else ownerOf (shardMap c) x)" for x
      using ownerOf_assign [OF wf1 a2, of x] own1 ft by (auto simp: set_shardsFor [OF wf] Some)
    moreover have "announced c2 m" for m
      by (rule assign_announced [OF wf1 a2]) (use ann1 Some own1 in \<open>auto simp: set_shardsFor wf wf1\<close>)
    ultimately show ?thesis
      using assms(4,5) False new a1 a2 ft by (auto simp: moveShard_def Let_def out_of_range_def Some)
  qed
qed



text \<open>
  C2. Whatever sequence of assignments, clearings, moves and changes of the total the orchestrator runs,
  with whatever Redis answers, every owned shard is at least zero and below the largest total so far, the
  messages that were published carry strictly increasing generations, and the current generation is at
  least that of the last message.
\<close>

theorem control_history:
  assumes "new_ShardMap n prefix = Inr sm"
  shows "let c = foldl control_step (new_control sm q now) ops in
    (\<forall>s m. ownerOf (shardMap c) s = Some m \<longrightarrow> 0 \<le> s \<and> s < Max (set (n # map op_total ops))) \<and>
    sorted_wrt (<) (map au_generation (published_assigns (sent c))) \<and>
    (\<forall>msg \<in> set (published_assigns (sent c)). au_generation msg \<le> generation (shardMap c))"
proof -
  let ?b = "Max (set (n # map op_total ops))"
  have "n \<le> ?b" "\<forall>x \<in> set ops. op_total x \<le> ?b" by simp_all
  moreover from this(1) have "control_inv ?b (new_control sm q now)"
    using assms by (auto simp: new_ShardMap_def new_control_def control_inv_def ownerOf_def split: if_splits)
  ultimately show ?thesis using control_run_inv [of ?b "new_control sm q now" ops] unfolding control_inv_def Let_def by blast
qed

theorem control_history_witness:
  "sorted_wrt (<) (map au_generation (published_assigns (sent (foldl control_step
     (new_control \<lparr>generation = 1, totalShards = 2, owner = [], sm_prefix = ''p''\<rparr>
       (new_IdentifyQueue 1 True ''p'' (\<lambda>n. nat_to_str n)) 0)
     [Op_assign ''a'' [0] Join True Redis_ok, Op_total 1, Op_move 0 ''b'' Manual True Rejects_publish Redis_ok, Op_clear ''b'' Recovery True]))))"
  using control_history [of 2 "''p''" "\<lparr>generation = 1, totalShards = 2, owner = [], sm_prefix = ''p''\<rparr>"
    "new_IdentifyQueue 1 True ''p'' (\<lambda>n. nat_to_str n)" 0
    "[Op_assign ''a'' [0] Join True Redis_ok, Op_total 1, Op_move 0 ''b'' Manual True Rejects_publish Redis_ok, Op_clear ''b'' Recovery True]"]
  unfolding Let_def by (simp only: new_ShardMap_def) simp

end
