(* ===== verification/Strategies.thy ===== *)
theory Strategies
  imports ShardMap
begin

text \<open>
  \<open>src/core/crosshost/orchestrator/metrics.ts\<close> and \<open>orchestrator/strategies/\<close>: load scores, imbalance and
  the four assignment strategies.  A strategy is a pure function from the cluster's state to a diff; the
  \<open>reason\<close> text of the diff, which is only logged, is left out.  Machine sets are lists in insertion order.
\<close>

subsection \<open>Load\<close>

definition computeLoadScore :: "WorkerStats option \<Rightarrow> LoadWeights \<Rightarrow> nat \<Rightarrow> rat" where
  "computeLoadScore stats w shardCount =
     (case stats of
        None \<Rightarrow> lw_shard w * of_nat shardCount
      | Some st \<Rightarrow>
          (let members = (case ws_memberCount st of None \<Rightarrow> 0 | Some n \<Rightarrow> n * lw_member w)
           in lw_guild w * ws_guildCount st + members + lw_event w * ws_eventRate st +
              lw_command w * ws_commandRate st + lw_shard w * of_nat shardCount))"

definition computeImbalance :: "rat list \<Rightarrow> rat" where
  "computeImbalance scores =
     (case scores of
        [] \<Rightarrow> 0
      | x # xs \<Rightarrow>
          (let mx = foldl max x xs; mn = foldl min x xs;
               avg = sum_list scores / of_nat (length scores);
               denom = max avg (1 / 1000000)
           in (mx - mn) / denom))"

subsection \<open>Inputs and shared loops\<close>

record StrategyInput =
  si_workers :: "WorkerView list"
  si_stats :: "(machine, WorkerStats) jsmap"
  si_totalShards :: int
  si_owner :: "(shard_id, machine) jsmap"
  si_imbalanceThreshold :: rat
  si_maxMoves :: int
  si_minImprovement :: rat
  si_weights :: LoadWeights
  si_excludeMachineIds :: "machine list"
  si_manualShards :: "(machine, shard_id list) jsmap"
  si_regionLabelKey :: string

definition eligible_workers :: "StrategyInput \<Rightarrow> WorkerView list" where
  "eligible_workers inp = filter (\<lambda>w. wv_machineId w \<notin> set (si_excludeMachineIds inp)) (si_workers inp)"

definition eligible_ids :: "StrategyInput \<Rightarrow> machine list" where
  "eligible_ids inp = map wv_machineId (eligible_workers inp)"

definition owned_count :: "(shard_id, machine) jsmap \<Rightarrow> machine \<Rightarrow> nat" where
  "owned_count own m = length (filter (\<lambda>x. x = m) (jm_values own))"

definition score_of :: "StrategyInput \<Rightarrow> machine \<Rightarrow> nat \<Rightarrow> rat" where
  "score_of inp m n = computeLoadScore (jm_get (si_stats inp) m) (si_weights inp) n"

text \<open>The selection loops: the first element whose score is strictly below all before it.\<close>

fun pick_min :: "('a \<Rightarrow> 'c::linorder) \<Rightarrow> 'a \<Rightarrow> 'c option \<Rightarrow> 'a list \<Rightarrow> 'a" where
  "pick_min sc best bs [] = best"
| "pick_min sc best bs (x # xs) =
     (if (case bs of None \<Rightarrow> True | Some b \<Rightarrow> sc x < b) then pick_min sc x (Some (sc x)) xs
      else pick_min sc best bs xs)"

definition shard_range :: "int \<Rightarrow> shard_id list" where
  "shard_range n = map int [0..<nat n]"

definition empty_lists :: "machine list \<Rightarrow> (machine, shard_id list) jsmap" where
  "empty_lists ids = foldl (\<lambda>d m. jm_set d m []) [] ids"

definition shardsByMachine ::
  "(shard_id, machine) jsmap \<Rightarrow> machine list \<Rightarrow> (machine, shard_id list) jsmap" where
  "shardsByMachine own ids = sort_values (group_owners (empty_lists ids) own)"

definition scoresFor :: "machine list \<Rightarrow> (shard_id, machine) jsmap \<Rightarrow> StrategyInput \<Rightarrow> (machine, rat) jsmap" where
  "scoresFor ids own inp =
     (let byMachine = shardsByMachine own ids in
      foldl (\<lambda>d m. jm_set d m (score_of inp m (length (case jm_get byMachine m of None \<Rightarrow> [] | Some l \<Rightarrow> l)))) [] ids)"

definition rat_cmp :: "rat \<Rightarrow> rat \<Rightarrow> int" where
  "rat_cmp a b = (if a < b then - 1 else if a = b then 0 else 1)"

definition score_at :: "(machine, rat) jsmap \<Rightarrow> machine \<Rightarrow> rat" where
  "score_at scores m = (case jm_get scores m of None \<Rightarrow> 0 | Some s \<Rightarrow> s)"

subsection \<open>Least loaded\<close>

definition fill_one :: "StrategyInput \<Rightarrow> machine list \<Rightarrow> (shard_id, machine) jsmap \<Rightarrow> shard_id \<Rightarrow> (shard_id, machine) jsmap" where
  "fill_one inp ids own s =
     (if jm_has own s then own
      else jm_set own s (pick_min (\<lambda>m. score_of inp m (owned_count own m)) (hd ids) None ids))"

definition fill :: "StrategyInput \<Rightarrow> machine list \<Rightarrow> (shard_id, machine) jsmap" where
  "fill inp ids = foldl (fill_one inp ids) (si_owner inp) (shard_range (si_totalShards inp))"

definition imbalance_of :: "StrategyInput \<Rightarrow> machine list \<Rightarrow> (shard_id, machine) jsmap \<Rightarrow> rat" where
  "imbalance_of inp ids own = computeImbalance (jm_values (scoresFor ids own inp))"

fun try_recipients ::
  "StrategyInput \<Rightarrow> machine list \<Rightarrow> (shard_id, machine) jsmap \<Rightarrow> machine \<Rightarrow> shard_id \<Rightarrow> machine list
   \<Rightarrow> ((shard_id, machine) jsmap \<times> shard_move) option" where
  "try_recipients inp ids own donor s [] = None"
| "try_recipients inp ids own donor s (r # rs) =
     (if r = donor then try_recipients inp ids own donor s rs
      else (let own' = jm_set own s r;
                improvement = imbalance_of inp ids own - imbalance_of inp ids own'
            in if improvement \<ge> si_minImprovement inp
               then Some (own', \<lparr>mv_shardId = s, mv_from = Some donor, mv_to = r\<rparr>)
               else try_recipients inp ids own donor s rs))"

fun try_donors ::
  "StrategyInput \<Rightarrow> machine list \<Rightarrow> (shard_id, machine) jsmap \<Rightarrow> machine list \<Rightarrow> machine list
   \<Rightarrow> ((shard_id, machine) jsmap \<times> shard_move) option" where
  "try_donors inp ids own recipients [] = None"
| "try_donors inp ids own recipients (d # ds) =
     (let donorShards = map fst (filter (\<lambda>p. snd p = d) own) in
      if donorShards = [] then try_donors inp ids own recipients ds
      else (case try_recipients inp ids own d (last donorShards) recipients of
              Some r \<Rightarrow> Some r
            | None \<Rightarrow> try_donors inp ids own recipients ds))"

definition rotate_from :: "nat \<Rightarrow> 'a list \<Rightarrow> 'a list" where
  "rotate_from k xs = map (\<lambda>i. xs ! ((k + i) mod length xs)) [0..<length xs]"

fun move_loop ::
  "nat \<Rightarrow> StrategyInput \<Rightarrow> machine list \<Rightarrow> (shard_id, machine) jsmap \<Rightarrow> shard_move list \<Rightarrow> nat
   \<Rightarrow> (shard_id, machine) jsmap \<times> shard_move list" where
  "move_loop 0 inp ids own mvs donorIndex = (own, mvs)"
| "move_loop (Suc n) inp ids own mvs donorIndex =
     (let scores = scoresFor ids own inp in
      if imbalance_of inp ids own \<le> si_imbalanceThreshold inp then (own, mvs)
      else (let sorted = js_sort_by (\<lambda>a b. rat_cmp (score_at scores b) (score_at scores a)) ids;
                recipients = js_sort_by (\<lambda>a b. rat_cmp (score_at scores a) (score_at scores b)) ids
            in case try_donors inp ids own recipients (rotate_from donorIndex sorted) of
                 None \<Rightarrow> (own, mvs)
               | Some (own', mv) \<Rightarrow>
                   move_loop n inp ids own' (mvs @ [mv]) ((donorIndex + 1) mod max (length ids) 1)))"

definition leastLoaded_propose :: "StrategyInput \<Rightarrow> AssignmentDiff" where
  "leastLoaded_propose inp =
     (let ids = eligible_ids inp in
      if ids = [] then \<lparr>assignments = [], moves = []\<rparr>
      else (let (own, mvs) = move_loop (nat (si_maxMoves inp)) inp ids (fill inp ids) [] 0
            in \<lparr>assignments = shardsByMachine own ids, moves = mvs\<rparr>))"

subsection \<open>Sticky\<close>

definition sticky_propose :: "StrategyInput \<Rightarrow> AssignmentDiff" where
  "sticky_propose inp =
     (let ids = js_uniq (eligible_ids inp) in
      if ids = [] then \<lparr>assignments = [], moves = []\<rparr>
      else (let scores = map (\<lambda>m. score_of inp m (owned_count (si_owner inp) m)) ids in
            if computeImbalance scores \<le> si_imbalanceThreshold inp
            then \<lparr>assignments = sort_values (group_owners (empty_lists ids)
                                 (filter (\<lambda>p. snd p \<in> set ids) (si_owner inp))),
                  moves = []\<rparr>
            else leastLoaded_propose inp))"

subsection \<open>Manual\<close>

datatype manual_error =
    MachineNotLive machine
  | ManualShardOutOfRange shard_id machine
  | DoubleOwnership shard_id machine machine

definition overlay_shard ::
  "int \<Rightarrow> machine \<Rightarrow> (shard_id, machine) jsmap \<Rightarrow> shard_id \<Rightarrow> manual_error + (shard_id, machine) jsmap" where
  "overlay_shard n m ov s =
     (if s < 0 \<or> s \<ge> n then Inl (ManualShardOutOfRange s m)
      else (case jm_get ov s of
              Some prev \<Rightarrow> if prev \<noteq> m then Inl (DoubleOwnership s prev m) else Inr (jm_set ov s m)
            | None \<Rightarrow> Inr (jm_set ov s m)))"

definition overlay_machine ::
  "int \<Rightarrow> machine list \<Rightarrow> (shard_id, machine) jsmap \<Rightarrow> machine \<times> shard_id list
   \<Rightarrow> manual_error + (shard_id, machine) jsmap" where
  "overlay_machine n live ov p =
     (if fst p \<notin> set live then Inl (MachineNotLive (fst p))
      else fold_res (overlay_shard n (fst p)) ov (snd p))"

definition validateManualOverlay ::
  "(machine, shard_id list) jsmap \<Rightarrow> int \<Rightarrow> machine list \<Rightarrow> manual_error + (shard_id, machine) jsmap" where
  "validateManualOverlay manual n live = fold_res (overlay_machine n live) [] manual"

definition seed_owner :: "(shard_id, machine) jsmap \<Rightarrow> (shard_id, machine) jsmap \<Rightarrow> (shard_id, machine) jsmap" where
  "seed_owner own ov = foldl (\<lambda>d p. jm_set d (fst p) (snd p)) own ov"

definition manual_propose :: "StrategyInput \<Rightarrow> AssignmentDiff" where
  "manual_propose inp =
     (case validateManualOverlay (si_manualShards inp) (si_totalShards inp) (eligible_ids inp) of
        Inl e \<Rightarrow> leastLoaded_propose inp
      | Inr ov \<Rightarrow> leastLoaded_propose (inp\<lparr>si_owner := seed_owner (si_owner inp) ov\<rparr>))"

subsection \<open>Region aware\<close>

definition region_of :: "StrategyInput \<Rightarrow> WorkerView \<Rightarrow> string option" where
  "region_of inp w = jm_get (wv_labels w) (si_regionLabelKey inp)"

definition region_score :: "StrategyInput \<Rightarrow> (shard_id, machine) jsmap \<Rightarrow> string option \<Rightarrow> WorkerView \<Rightarrow> rat" where
  "region_score inp own currentRegion w =
     (let score = score_of inp (wv_machineId w) (owned_count own (wv_machineId w)); region = region_of inp w in
      if truthy currentRegion \<and> region = currentRegion then score - 1
      else if truthy region \<and> \<not> truthy currentRegion then score - 1 / 4
      else score)"

definition region_best :: "StrategyInput \<Rightarrow> WorkerView list \<Rightarrow> (shard_id, machine) jsmap \<Rightarrow> shard_id \<Rightarrow> machine" where
  "region_best inp eligible own s =
     (let currentWorker = find (\<lambda>w. Some (wv_machineId w) = jm_get own s) eligible;
          currentRegion = (case currentWorker of None \<Rightarrow> None | Some w \<Rightarrow> region_of inp w);
          start = (case currentWorker of
                     Some w \<Rightarrow> if wv_machineId w \<noteq> [] then w else hd eligible
                   | None \<Rightarrow> hd eligible)
      in wv_machineId (pick_min (region_score inp own currentRegion) start None eligible))"

definition region_shard ::
  "StrategyInput \<Rightarrow> WorkerView list \<Rightarrow> (shard_id, machine) jsmap \<times> shard_move list \<Rightarrow> shard_id
   \<Rightarrow> (shard_id, machine) jsmap \<times> shard_move list" where
  "region_shard inp eligible st s =
     (let (own, mvs) = st; current = jm_get own s; best = region_best inp eligible own s
      in if current \<noteq> Some best
         then (jm_set own s best, mvs @ [\<lparr>mv_shardId = s, mv_from = current, mv_to = best\<rparr>])
         else (own, mvs))"

definition group_known :: "(machine, shard_id list) jsmap \<Rightarrow> (shard_id, machine) jsmap \<Rightarrow> (machine, shard_id list) jsmap" where
  "group_known m0 own =
     foldl (\<lambda>d p. case jm_get d (snd p) of None \<Rightarrow> d | Some l \<Rightarrow> jm_set d (snd p) (l @ [fst p])) m0 own"

definition regionAware_propose :: "StrategyInput \<Rightarrow> AssignmentDiff" where
  "regionAware_propose inp =
     (let eligible = eligible_workers inp in
      if eligible = [] then \<lparr>assignments = [], moves = []\<rparr>
      else (let (own, mvs) = foldl (region_shard inp eligible) (si_owner inp, []) (shard_range (si_totalShards inp))
            in if int (length mvs) > si_maxMoves inp then leastLoaded_propose inp
               else \<lparr>assignments = sort_values (group_known (empty_lists (map wv_machineId eligible)) own),
                     moves = take (nat (si_maxMoves inp)) mvs\<rparr>))"

definition getStrategy :: "StrategyId \<Rightarrow> StrategyInput \<Rightarrow> AssignmentDiff" where
  "getStrategy sid =
     (case sid of
        LeastLoaded \<Rightarrow> leastLoaded_propose
      | Sticky \<Rightarrow> sticky_propose
      | ManualS \<Rightarrow> manual_propose
      | RegionAware \<Rightarrow> regionAware_propose)"

subsection \<open>Grouping shards by machine\<close>

definition shards_of :: "(shard_id, machine) jsmap \<Rightarrow> machine \<Rightarrow> shard_id list" where
  "shards_of own m = map fst (filter (\<lambda>p. snd p = m) own)"

lemma set_shards_of: "jm_wf own \<Longrightarrow> set (shards_of own m) = {s. jm_get own s = Some m}"
  by (force simp: shards_of_def jm_get_Some_iff)

lemma distinct_shards_of: "jm_wf own \<Longrightarrow> distinct (shards_of own m)"
  by (simp add: shards_of_def jm_wf_def distinct_map_filter)

lemma shards_of_Nil: "shards_of own m = [] \<longleftrightarrow> m \<notin> set (jm_values own)"
  by (auto simp: shards_of_def filter_empty_conv)

lemma jm_get_group_owners:
  "jm_get (group_owners d own) m =
     (case jm_get d m of
        Some l \<Rightarrow> Some (l @ shards_of own m)
      | None \<Rightarrow> if m \<in> set (jm_values own) then Some (shards_of own m) else None)"
proof (induction own arbitrary: d)
  case (Cons p own)
  have "group_owners d (p # own) =
      group_owners (jm_set d (snd p) ((case jm_get d (snd p) of None \<Rightarrow> [] | Some l \<Rightarrow> l) @ [fst p])) own"
    by (simp add: group_owners_def)
  then show ?case
    using shards_of_Nil [of own m]
    by (auto simp: Cons shards_of_def split: option.splits)
qed (simp add: group_owners_def shards_of_def split: option.split)

lemma jm_wf_group_owners [wf_intros]: "jm_wf d \<Longrightarrow> jm_wf (group_owners d own)"
  by (induction own arbitrary: d) (auto simp: group_owners_def)

lemma empty_lists_get: "jm_get (empty_lists ids) m = (if m \<in> set ids then Some [] else None)"
  by (simp add: empty_lists_def jm.put_all_def [symmetric] jm.get_put_all)

lemma jm_wf_empty_lists [wf_intros]: "jm_wf (empty_lists ids)"
  by (simp add: empty_lists_def jm.put_all_def [symmetric] jm.ok_put_all)

lemma sort_values_get: "jm_get (sort_values d) m = map_option js_sort_num (jm_get d m)"
  by (induction d) (auto simp: sort_values_def jm_get_Cons)

lemma jm_wf_sort_values [wf_intros]: "jm_wf d \<Longrightarrow> jm_wf (sort_values d)"
  by (simp add: jm_wf_def sort_values_def comp_def)

lemma shardsByMachine_get:
  "jm_get (shardsByMachine own ids) m =
     (if m \<in> set ids \<or> m \<in> set (jm_values own) then Some (sort (shards_of own m)) else None)"
  by (auto simp: shardsByMachine_def sort_values_get jm_get_group_owners empty_lists_get js_sort_num_eq)

lemma jm_wf_shardsByMachine [wf_intros]: "jm_wf (shardsByMachine own ids)"
  by (simp add: shardsByMachine_def wf_intros)

lemma group_known_eq:
  assumes "jm_wf d"
  shows "group_known d own = group_owners d (filter (\<lambda>p. snd p \<in> set (jm_keys d)) own)"
  using assms
proof (induction own arbitrary: d)
  case (Cons p own)
  show ?case
  proof (cases "jm_get d (snd p)")
    case None
    then have "snd p \<notin> set (jm_keys d)" by (simp add: jm_get_None_iff)
    moreover have "group_known d (p # own) = group_known d own"
      using None by (simp add: group_known_def)
    ultimately show ?thesis by (simp add: Cons)
  next
    case (Some l)
    let ?d = "jm_set d (snd p) (l @ [fst p])"
    have k: "snd p \<in> set (jm_keys d)" using Some jm_get_None_iff [of d "snd p"] by auto
    then have "set (jm_keys ?d) = set (jm_keys d)" by (auto simp: jm_keys_set simp del: set_map)
    moreover have "group_known d (p # own) = group_known ?d own"
      using Some by (simp add: group_known_def)
    moreover have "group_owners d (p # xs) = group_owners ?d xs" for xs
      using Some by (simp add: group_owners_def)
    ultimately show ?thesis using k Cons by simp
  qed
qed (simp add: group_known_def group_owners_def)

subsection \<open>Ownership maps a strategy may return\<close>

definition input_ok :: "StrategyInput \<Rightarrow> bool" where
  "input_ok inp = (jm_wf (si_owner inp) \<and>
     (\<forall>s \<in> set (jm_keys (si_owner inp)). 0 \<le> s \<and> s < si_totalShards inp))"

text \<open>Owned shards are in range, and only eligible machines gain shards.\<close>

definition own_valid :: "StrategyInput \<Rightarrow> (shard_id, machine) jsmap \<Rightarrow> bool" where
  "own_valid inp own = (jm_wf own \<and>
     (\<forall>s m. jm_get own s = Some m \<longrightarrow> 0 \<le> s \<and> s < si_totalShards inp \<and>
        (m \<in> set (eligible_ids inp) \<or> jm_get (si_owner inp) s = Some m)))"

definition covers_all :: "StrategyInput \<Rightarrow> (shard_id, machine) jsmap \<Rightarrow> bool" where
  "covers_all inp own = (\<forall>s. 0 \<le> s \<and> s < si_totalShards inp \<longrightarrow> jm_get own s \<noteq> None)"

lemma input_own_valid: "input_ok inp \<Longrightarrow> own_valid inp (si_owner inp)"
  unfolding input_ok_def own_valid_def set_jm_keys by auto

lemma own_valid_set:
  "own_valid inp own \<Longrightarrow> 0 \<le> s \<Longrightarrow> s < si_totalShards inp \<Longrightarrow> m \<in> set (eligible_ids inp) \<Longrightarrow>
   own_valid inp (jm_set own s m)"
  by (auto simp: own_valid_def)

lemma covers_all_set: "covers_all inp own \<Longrightarrow> covers_all inp (jm_set own s m)"
  by (simp add: covers_all_def)

lemma set_shard_range: "set (shard_range n) = {s. 0 \<le> s \<and> s < n}"
proof -
  have "s \<in> int ` {..<nat n}" if "0 \<le> s" "s < n" for s
    using that by (intro image_eqI [of _ _ "nat s"]) auto
  then show ?thesis by (auto simp: shard_range_def atLeast0LessThan)
qed

lemma pick_min_in: "pick_min sc b bs xs \<in> insert b (set xs)"
  by (induction sc b bs xs rule: pick_min.induct) auto

text \<open>The selection loop picks a minimum of what it was given.\<close>

lemma pick_min_le:
  "bs = None \<or> bs = Some (sc b) \<Longrightarrow> bs = None \<longrightarrow> xs \<noteq> [] \<Longrightarrow>
   (\<forall>x \<in> set xs. sc (pick_min sc b bs xs) \<le> sc x) \<and> (bs \<noteq> None \<longrightarrow> sc (pick_min sc b bs xs) \<le> sc b)"
proof (induction sc b bs xs rule: pick_min.induct)
  case (2 sc b bs x xs)
  show ?case
  proof (cases "case bs of None \<Rightarrow> True | Some v \<Rightarrow> sc x < v")
    case True
    then show ?thesis using 2 by (auto split: option.splits)
  next
    case False
    then show ?thesis using 2 by (auto split: option.splits)
  qed
qed simp

lemma fill_one_valid:
  assumes "own_valid inp own" "eligible_ids inp \<noteq> []" "0 \<le> s" "s < si_totalShards inp"
  shows "own_valid inp (fill_one inp (eligible_ids inp) own s)"
proof -
  let ?ids = "eligible_ids inp"
  have "pick_min (\<lambda>m. score_of inp m (owned_count own m)) (hd ?ids) None ?ids \<in> set ?ids"
    using pick_min_in [of "\<lambda>m. score_of inp m (owned_count own m)" "hd ?ids" None ?ids] assms(2) by auto
  then show ?thesis
    using assms by (simp add: fill_one_def own_valid_set)
qed

lemma fill_one_get:
  "jm_get (fill_one inp ids own s) x = jm_get own x \<or> x = s"
  "jm_get (fill_one inp ids own s) s \<noteq> None"
  "jm_get own x \<noteq> None \<Longrightarrow> jm_get (fill_one inp ids own s) x = jm_get own x"
  by (auto simp: fill_one_def jm_has_def jm_get_def [symmetric])

lemma foldl_fill_valid:
  assumes "own_valid inp own" "eligible_ids inp \<noteq> []" "set ss \<subseteq> set (shard_range (si_totalShards inp))"
  shows "own_valid inp (foldl (fill_one inp (eligible_ids inp)) own ss) \<and>
    (\<forall>x. jm_get own x \<noteq> None \<longrightarrow> jm_get (foldl (fill_one inp (eligible_ids inp)) own ss) x = jm_get own x) \<and>
    (\<forall>s \<in> set ss. jm_get (foldl (fill_one inp (eligible_ids inp)) own ss) s \<noteq> None)"
  using assms
proof (induction ss arbitrary: own)
  case (Cons s ss)
  let ?o = "fill_one inp (eligible_ids inp) own s"
  have "own_valid inp ?o"
    using Cons.prems by (intro fill_one_valid) (auto simp: set_shard_range)
  then show ?case
    using Cons.IH [of ?o] Cons.prems fill_one_get [where inp = inp and ids = "eligible_ids inp" and own = own and s = s] by auto
qed simp

lemma fill_valid:
  assumes "input_ok inp" "eligible_ids inp \<noteq> []"
  shows "own_valid inp (fill inp (eligible_ids inp))" "covers_all inp (fill inp (eligible_ids inp))"
    "\<And>s m. jm_get (si_owner inp) s = Some m \<Longrightarrow> jm_get (fill inp (eligible_ids inp)) s = Some m"
  using foldl_fill_valid [OF input_own_valid [OF assms(1)] assms(2), of "shard_range (si_totalShards inp)"]
  by (auto simp: fill_def covers_all_def set_shard_range)

subsection \<open>The contract of a strategy\<close>

text \<open>
  What the rebalance engine relies on: the lists of a diff are sorted, in range, disjoint, give new shards
  to eligible machines only, stay within the move limit, and cover every shard once there is a move.
\<close>

definition lists_disjoint :: "(machine, shard_id list) jsmap \<Rightarrow> bool" where
  "lists_disjoint as = (\<forall>(m, ss) \<in> set as. \<forall>(m', ss') \<in> set as. m \<noteq> m' \<longrightarrow> set ss \<inter> set ss' = {})"

locale strategy_contract =
  fixes propose :: "StrategyInput \<Rightarrow> AssignmentDiff"
  assumes keys: "input_ok inp \<Longrightarrow> jm_wf (assignments (propose inp))"
    and lists: "input_ok inp \<Longrightarrow> (m, ss) \<in> set (assignments (propose inp)) \<Longrightarrow>
      sorted ss \<and> distinct ss \<and> (\<forall>s \<in> set ss. 0 \<le> s \<and> s < si_totalShards inp)"
    and disjoint: "input_ok inp \<Longrightarrow> lists_disjoint (assignments (propose inp))"
    and gains: "input_ok inp \<Longrightarrow> (m, ss) \<in> set (assignments (propose inp)) \<Longrightarrow> s \<in> set ss \<Longrightarrow>
      m \<in> set (eligible_ids inp) \<or> jm_get (si_owner inp) s = Some m"
    and covers: "input_ok inp \<Longrightarrow> moves (propose inp) \<noteq> [] \<Longrightarrow> 0 \<le> s \<Longrightarrow> s < si_totalShards inp \<Longrightarrow>
      \<exists>(m, ss) \<in> set (assignments (propose inp)). s \<in> set ss"
    and limit: "int (length (moves (propose inp))) \<le> max 0 (si_maxMoves inp)"
begin

lemma at_most_one:
  assumes "input_ok inp" "(m, ss) \<in> set (assignments (propose inp))" "(m', ss') \<in> set (assignments (propose inp))"
    and "s \<in> set ss" "s \<in> set ss'"
  shows "m = m'"
  using disjoint [OF assms(1)] assms(2-5) by (fastforce simp: lists_disjoint_def)

lemma exactly_one:
  assumes "input_ok inp" "moves (propose inp) \<noteq> []" "0 \<le> s" "s < si_totalShards inp"
  shows "\<exists>!m. \<exists>ss. (m, ss) \<in> set (assignments (propose inp)) \<and> s \<in> set ss"
  using covers [OF assms] at_most_one [OF assms(1)] by (auto intro!: ex1I)

end

text \<open>Applying a diff with an assigner: each shard ends with the machine the diff names.\<close>

locale applied_strategy = strategy_contract propose + shard_assigner own gen "total" ok give
  for propose :: "StrategyInput \<Rightarrow> AssignmentDiff"
    and own :: "'s \<Rightarrow> shard_id \<Rightarrow> machine option" and gen "total" ok
    and give :: "'s \<Rightarrow> machine \<times> shard_id list \<Rightarrow> 'e + 's"
begin

lemma apply_defined:
  assumes "ok s" and "input_ok inp" and "total s = si_totalShards inp"
  shows "\<exists>s'. fold_res give s (assignments (propose inp)) = Inr s'"
  using lists [OF assms(2)] by (intro give_all_defined [OF assms(1)]) (auto simp: assms(3))

lemma apply_owner:
  assumes "ok s" and "input_ok inp" and "fold_res give s (assignments (propose inp)) = Inr s'"
    and "(m, ss) \<in> set (assignments (propose inp))"
  shows "own s' x = Some m \<longleftrightarrow> x \<in> set ss"
proof (rule own_give_all [OF assms(1,3) _ _ assms(4)])
  show "distinct (map fst (assignments (propose inp)))"
    using keys [OF assms(2)] by (simp add: jm_wf_def)
  show "set l \<inter> set l' = {}" if "(k, l) \<in> set (assignments (propose inp))"
    "(k', l') \<in> set (assignments (propose inp))" "k \<noteq> k'" for k l k' l'
    using at_most_one [OF assms(2) that(1,2)] that(3) by auto
qed

lemma apply_covers:
  assumes "ok s" and "input_ok inp" and "fold_res give s (assignments (propose inp)) = Inr s'"
    and "moves (propose inp) \<noteq> []" and "0 \<le> x" "x < si_totalShards inp"
  shows "\<exists>m. own s' x = Some m \<and> (m \<in> set (eligible_ids inp) \<or> jm_get (si_owner inp) x = Some m)"
proof -
  obtain m ss where "(m, ss) \<in> set (assignments (propose inp))" "x \<in> set ss"
    using covers [OF assms(2,4-6)] by auto
  then show ?thesis
    using apply_owner [OF assms(1-3)] gains [OF assms(2)] by blast
qed

end

text \<open>A diff made by grouping a valid ownership map meets the contract.\<close>

definition diff_ok :: "StrategyInput \<Rightarrow> AssignmentDiff \<Rightarrow> bool" where
  "diff_ok inp d = (jm_wf (assignments d) \<and> lists_disjoint (assignments d) \<and>
     (\<forall>(m, ss) \<in> set (assignments d). sorted ss \<and> distinct ss \<and>
        (\<forall>s \<in> set ss. 0 \<le> s \<and> s < si_totalShards inp \<and>
           (m \<in> set (eligible_ids inp) \<or> jm_get (si_owner inp) s = Some m))) \<and>
     (moves d \<noteq> [] \<longrightarrow> (\<forall>s. 0 \<le> s \<and> s < si_totalShards inp \<longrightarrow> (\<exists>(m, ss) \<in> set (assignments d). s \<in> set ss))) \<and>
     int (length (moves d)) \<le> max 0 (si_maxMoves inp))"

lemma grouped_diff_ok:
  assumes valid: "own_valid inp own" and wf: "jm_wf as"
    and get: "\<And>m ss. jm_get as m = Some ss \<Longrightarrow> ss = sort (shards_of own m)"
    and cov: "mvs \<noteq> [] \<Longrightarrow> covers_all inp own \<and> (\<forall>m \<in> set (jm_values own). jm_get as m \<noteq> None)"
    and len: "int (length mvs) \<le> max 0 (si_maxMoves inp)"
  shows "diff_ok inp \<lparr>assignments = as, moves = mvs\<rparr>"
proof -
  have jw: "jm_wf own" using valid by (simp add: own_valid_def)
  have get': "ss = sort (shards_of own m)" if "(m, ss) \<in> set as" for m ss
    using that get jm_get_Some_iff [OF wf] by blast
  have set': "set ss = {s. jm_get own s = Some m}" if "(m, ss) \<in> set as" for m ss
    using get' [OF that] by (simp add: set_shards_of [OF jw])
  have dis: "lists_disjoint as"
    unfolding lists_disjoint_def by (auto dest!: set')
  have each: "sorted ss \<and> distinct ss \<and> (\<forall>s \<in> set ss. 0 \<le> s \<and> s < si_totalShards inp \<and>
           (m \<in> set (eligible_ids inp) \<or> jm_get (si_owner inp) s = Some m))" if "(m, ss) \<in> set as" for m ss
    using get' [OF that] valid by (auto simp: distinct_shards_of [OF jw] set_shards_of [OF jw] own_valid_def)
  have all: "\<forall>(m, ss) \<in> set as. sorted ss \<and> distinct ss \<and> (\<forall>s \<in> set ss. 0 \<le> s \<and> s < si_totalShards inp \<and>
           (m \<in> set (eligible_ids inp) \<or> jm_get (si_owner inp) s = Some m))"
  proof
    fix p assume "p \<in> set as"
    then show "case p of (m, ss) \<Rightarrow> sorted ss \<and> distinct ss \<and> (\<forall>s \<in> set ss. 0 \<le> s \<and> s < si_totalShards inp \<and>
           (m \<in> set (eligible_ids inp) \<or> jm_get (si_owner inp) s = Some m))"
      using each [of "fst p" "snd p"] by (simp add: case_prod_unfold)
  qed
  have "\<exists>(m, ss) \<in> set as. s \<in> set ss" if nm: "mvs \<noteq> []" and rg: "0 \<le> s" "s < si_totalShards inp" for s
  proof -
    obtain m where m: "jm_get own s = Some m"
      using cov [OF nm] rg by (auto simp: covers_all_def)
    then have "m \<in> set (jm_values own)" by (force simp: jm_get_Some_iff [OF jw])
    then obtain ss where "jm_get as m = Some ss" using cov [OF nm] by auto
    moreover from this have "s \<in> set ss" using get [of m ss] m by (simp add: set_shards_of [OF jw])
    ultimately show ?thesis by (auto simp: jm_get_Some_iff [OF wf])
  qed
  then show ?thesis
    unfolding diff_ok_def AssignmentDiff.select_convs using wf dis all len by blast
qed

lemma diff_ok_empty: "diff_ok inp \<lparr>assignments = [], moves = []\<rparr>"
  by (simp add: diff_ok_def lists_disjoint_def)

lemma strategy_contractI:
  assumes "\<And>inp. input_ok inp \<Longrightarrow> diff_ok inp (propose inp)"
    and "\<And>inp. int (length (moves (propose inp))) \<le> max 0 (si_maxMoves inp)"
  shows "strategy_contract propose"
  using assms by unfold_locales (fastforce simp: diff_ok_def)+

subsection \<open>Least loaded: the move loop\<close>

definition apply_moves :: "(shard_id, machine) jsmap \<Rightarrow> shard_move list \<Rightarrow> (shard_id, machine) jsmap" where
  "apply_moves own mvs = foldl (\<lambda>w mv. jm_set w (mv_shardId mv) (mv_to mv)) own mvs"

lemma apply_moves_snoc: "apply_moves own (mvs @ [mv]) = jm_set (apply_moves own mvs) (mv_shardId mv) (mv_to mv)"
  by (simp add: apply_moves_def)

text \<open>One accepted move: the donor owns the shard, the recipient is another machine of the list, and the
  imbalance falls by the required amount.\<close>

definition good_move ::
  "StrategyInput \<Rightarrow> machine list \<Rightarrow> machine list \<Rightarrow> (shard_id, machine) jsmap \<Rightarrow> shard_move \<Rightarrow> bool" where
  "good_move inp ids recipients own mv =
     (jm_get own (mv_shardId mv) = mv_from mv \<and> mv_from mv \<noteq> None \<and> mv_to mv \<in> set recipients \<and>
      mv_from mv \<noteq> Some (mv_to mv) \<and>
      imbalance_of inp ids (jm_set own (mv_shardId mv) (mv_to mv)) + si_minImprovement inp \<le> imbalance_of inp ids own)"

lemma try_recipients_Some:
  "try_recipients inp ids own d s rs = Some (own', mv) \<Longrightarrow> jm_get own s = Some d \<Longrightarrow>
     own' = jm_set own (mv_shardId mv) (mv_to mv) \<and> good_move inp ids rs own mv"
  by (induction rs) (auto simp: good_move_def Let_def split: if_splits)

lemma try_donors_Some:
  "try_donors inp ids own rs ds = Some (own', mv) \<Longrightarrow> jm_wf own \<Longrightarrow>
     own' = jm_set own (mv_shardId mv) (mv_to mv) \<and> good_move inp ids rs own mv"
proof (induction ds)
  case (Cons d ds)
  let ?l = "map fst (filter (\<lambda>p. snd p = d) own)"
  have "?l \<noteq> [] \<Longrightarrow> last ?l \<in> set ?l" by (rule last_in_set)
  then have "?l \<noteq> [] \<Longrightarrow> jm_get own (last ?l) = Some d"
    using set_shards_of [OF Cons.prems(2), of d] unfolding shards_of_def by blast
  then show ?case
    using Cons try_recipients_Some [of inp ids own d "last ?l" rs own' mv]
    by (auto simp: Let_def split: if_splits option.splits simp del: map_is_Nil_conv)
qed simp

definition loop_inv :: "StrategyInput \<Rightarrow> (shard_id, machine) jsmap \<Rightarrow> (shard_id, machine) jsmap \<Rightarrow> shard_move list \<Rightarrow> bool" where
  "loop_inv inp start own mvs =
     (own_valid inp own \<and> covers_all inp own \<and> apply_moves start mvs = own \<and>
      imbalance_of inp (eligible_ids inp) own + of_nat (length mvs) * si_minImprovement inp
        \<le> imbalance_of inp (eligible_ids inp) start)"

lemma loop_inv_step:
  assumes inv: "loop_inv inp start own mvs"
    and good: "good_move inp (eligible_ids inp) rs own mv" "set rs = set (eligible_ids inp)"
  shows "loop_inv inp start (jm_set own (mv_shardId mv) (mv_to mv)) (mvs @ [mv])"
proof -
  obtain d where "jm_get own (mv_shardId mv) = Some d" using good by (auto simp: good_move_def)
  then have "own_valid inp (jm_set own (mv_shardId mv) (mv_to mv))"
    using inv good by (intro own_valid_set) (auto simp: loop_inv_def own_valid_def good_move_def)
  moreover have "covers_all inp (jm_set own (mv_shardId mv) (mv_to mv))"
    using inv covers_all_set unfolding loop_inv_def by blast
  moreover have "apply_moves start (mvs @ [mv]) = jm_set own (mv_shardId mv) (mv_to mv)"
    using inv by (simp add: loop_inv_def apply_moves_def)
  moreover have "imbalance_of inp (eligible_ids inp) (jm_set own (mv_shardId mv) (mv_to mv)) +
      (of_nat (length mvs) * si_minImprovement inp + si_minImprovement inp) \<le> imbalance_of inp (eligible_ids inp) start"
    using inv good unfolding loop_inv_def good_move_def by linarith
  ultimately show ?thesis
    unfolding loop_inv_def by (simp only: length_append list.size of_nat_add) (simp add: distrib_right add.commute)
qed

lemma move_loop_inv:
  assumes "loop_inv inp start own mvs" and "move_loop n inp (eligible_ids inp) own mvs k = (own', mvs')"
  shows "loop_inv inp start own' mvs' \<and> length mvs' \<le> length mvs + n"
  using assms
proof (induction n arbitrary: own mvs k)
  case (Suc n)
  let ?ids = "eligible_ids inp"
  define scores where "scores = scoresFor ?ids own inp"
  define rs where "rs = js_sort_by (\<lambda>a b. rat_cmp (score_at scores a) (score_at scores b)) ?ids"
  define ds where "ds = rotate_from k (js_sort_by (\<lambda>a b. rat_cmp (score_at scores b) (score_at scores a)) ?ids)"
  have step: "move_loop (Suc n) inp ?ids own mvs k =
      (if imbalance_of inp ?ids own \<le> si_imbalanceThreshold inp then (own, mvs)
       else case try_donors inp ?ids own rs ds of None \<Rightarrow> (own, mvs)
         | Some (o', mv) \<Rightarrow> move_loop n inp ?ids o' (mvs @ [mv]) ((k + 1) mod max (length ?ids) 1))"
    by (simp add: Let_def scores_def rs_def ds_def)
  show ?case
  proof (cases "imbalance_of inp ?ids own \<le> si_imbalanceThreshold inp \<or> try_donors inp ?ids own rs ds = None")
    case True
    then show ?thesis using Suc.prems by (auto simp: step simp del: move_loop.simps split: if_splits)
  next
    case False
    then obtain o' mv where d: "try_donors inp ?ids own rs ds = Some (o', mv)" by auto
    have "jm_wf own" using Suc.prems(1) by (simp add: loop_inv_def own_valid_def)
    then have g: "o' = jm_set own (mv_shardId mv) (mv_to mv)" "good_move inp ?ids rs own mv"
      using try_donors_Some [OF d] by auto
    have "loop_inv inp start o' (mvs @ [mv])"
      unfolding g(1) by (rule loop_inv_step [OF Suc.prems(1) g(2)]) (simp add: rs_def)
    moreover have "move_loop n inp ?ids o' (mvs @ [mv]) ((k + 1) mod max (length ?ids) 1) = (own', mvs')"
      using Suc.prems(2) d False by (simp add: step del: move_loop.simps)
    ultimately show ?thesis
      using Suc.IH by fastforce
  qed
qed simp

text \<open>The lemma the other strategies share.\<close>

lemma leastLoaded_loop:
  assumes "input_ok inp" and "eligible_ids inp \<noteq> []"
  obtains own mvs where
    "leastLoaded_propose inp = \<lparr>assignments = shardsByMachine own (eligible_ids inp), moves = mvs\<rparr>"
    and "loop_inv inp (fill inp (eligible_ids inp)) own mvs" and "length mvs \<le> nat (si_maxMoves inp)"
proof -
  let ?ids = "eligible_ids inp"
  obtain own mvs where m: "move_loop (nat (si_maxMoves inp)) inp ?ids (fill inp ?ids) [] 0 = (own, mvs)"
    by (cases "move_loop (nat (si_maxMoves inp)) inp ?ids (fill inp ?ids) [] 0")
  have "loop_inv inp (fill inp ?ids) (fill inp ?ids) []"
    using fill_valid [OF assms] by (simp add: loop_inv_def apply_moves_def)
  from move_loop_inv [OF this m] show ?thesis
    using that [of own mvs] assms(2) by (simp add: leastLoaded_propose_def m)
qed

lemma leastLoaded_diff_ok:
  assumes "input_ok inp"
  shows "diff_ok inp (leastLoaded_propose inp)"
proof (cases "eligible_ids inp = []")
  case True
  then show ?thesis by (simp add: leastLoaded_propose_def diff_ok_empty)
next
  case False
  obtain own mvs where l: "leastLoaded_propose inp = \<lparr>assignments = shardsByMachine own (eligible_ids inp), moves = mvs\<rparr>"
    and inv: "loop_inv inp (fill inp (eligible_ids inp)) own mvs" and len: "length mvs \<le> nat (si_maxMoves inp)"
    by (rule leastLoaded_loop [OF assms False])
  show ?thesis
    unfolding l
  proof (rule grouped_diff_ok)
    show "own_valid inp own" using inv by (simp add: loop_inv_def)
    show "jm_wf (shardsByMachine own (eligible_ids inp))" by (rule jm_wf_shardsByMachine)
    show "covers_all inp own \<and> (\<forall>m \<in> set (jm_values own). jm_get (shardsByMachine own (eligible_ids inp)) m \<noteq> None)"
      using inv by (auto simp: loop_inv_def shardsByMachine_get)
  qed (use len in \<open>auto simp: shardsByMachine_get split: if_splits\<close>)
qed

lemma length_move_loop: "length (snd (move_loop n inp ids own mvs k)) \<le> length mvs + n"
proof (induction n arbitrary: own mvs k)
  case (Suc n)
  show ?case
    using Suc [of _ "mvs @ [_]"] by (fastforce simp: Let_def split: option.splits prod.splits)
qed simp

lemma leastLoaded_limit: "int (length (moves (leastLoaded_propose inp))) \<le> max 0 (si_maxMoves inp)"
  using length_move_loop [of "nat (si_maxMoves inp)" inp "eligible_ids inp" "fill inp (eligible_ids inp)" "[]" 0]
  by (auto simp: leastLoaded_propose_def Let_def split: prod.splits)

interpretation leastLoaded: strategy_contract leastLoaded_propose
  by (rule strategy_contractI) (simp_all add: leastLoaded_diff_ok leastLoaded_limit)

subsection \<open>The other strategies\<close>

lemma js_uniq_Nil: "js_uniq xs = [] \<longleftrightarrow> xs = []"
  by (simp add: js_uniq_def)

lemma own_valid_filter: "own_valid inp own \<Longrightarrow> own_valid inp (filter P own)"
  unfolding own_valid_def using jm_get_Some_iff [of own] jm_get_Some_iff [of "filter P own"] jm_wf_filter [of own P]
  by auto

lemma sticky_diff_ok:
  assumes "input_ok inp"
  shows "diff_ok inp (sticky_propose inp)"
proof -
  let ?ids = "js_uniq (eligible_ids inp)"
  let ?own = "filter (\<lambda>p. snd p \<in> set ?ids) (si_owner inp)"
  have "diff_ok inp \<lparr>assignments = sort_values (group_owners (empty_lists ?ids) ?own), moves = []\<rparr>"
  proof (rule grouped_diff_ok)
    show "own_valid inp ?own"
      by (rule own_valid_filter [OF input_own_valid [OF assms]])
  qed (auto simp: wf_intros sort_values_get jm_get_group_owners empty_lists_get js_sort_num_eq
      split: option.splits if_splits)
  then show ?thesis
    using leastLoaded_diff_ok [OF assms] diff_ok_empty by (simp add: sticky_propose_def Let_def)
qed

lemma sticky_limit: "int (length (moves (sticky_propose inp))) \<le> max 0 (si_maxMoves inp)"
  using leastLoaded_limit by (simp add: sticky_propose_def Let_def)

text \<open>The overlay the manual strategy accepts is the union of its lists.\<close>

definition overlay_inv ::
  "int \<Rightarrow> machine list \<Rightarrow> (shard_id, machine) jsmap \<Rightarrow> bool" where
  "overlay_inv n live ov = (jm_wf ov \<and> (\<forall>s m. jm_get ov s = Some m \<longrightarrow> 0 \<le> s \<and> s < n \<and> m \<in> set live))"

lemma overlay_shard_inv:
  "overlay_inv n live ov \<Longrightarrow> m \<in> set live \<Longrightarrow> overlay_shard n m ov s = Inr ov' \<Longrightarrow> overlay_inv n live ov'"
  by (auto simp: overlay_shard_def overlay_inv_def split: if_splits option.splits)

lemma overlay_machine_inv:
  assumes "overlay_inv n live ov" "overlay_machine n live ov p = Inr ov'"
  shows "overlay_inv n live ov'"
proof -
  have m: "fst p \<in> set live" "fold_res (overlay_shard n (fst p)) ov (snd p) = Inr ov'"
    using assms(2) by (auto simp: overlay_machine_def split: if_splits)
  show ?thesis
    by (rule fold_res_invariant [OF m(2), of "overlay_inv n live"]) (use assms(1) m(1) overlay_shard_inv in auto)
qed

lemma validateManualOverlay_inv:
  assumes "validateManualOverlay manual n live = Inr ov"
  shows "overlay_inv n live ov"
proof -
  have f: "fold_res (overlay_machine n live) [] manual = Inr ov"
    using assms by (simp add: validateManualOverlay_def)
  show ?thesis
  proof (rule fold_res_invariant [OF f])
    show "overlay_inv n live []" by (simp add: overlay_inv_def)
  qed (rule overlay_machine_inv)
qed

lemma seed_owner_get:
  "jm_wf ov \<Longrightarrow> jm_get (seed_owner own ov) s = (case jm_get ov s of Some m \<Rightarrow> Some m | None \<Rightarrow> jm_get own s)"
proof (induction ov arbitrary: own)
  case (Cons p ov)
  have "fst p \<notin> set (jm_keys ov)" using Cons.prems by (simp add: jm_wf_def)
  then have "jm_get ov (fst p) = None" by (simp add: jm_get_None_iff)
  moreover have "seed_owner own (p # ov) = seed_owner (jm_set own (fst p) (snd p)) ov"
    by (simp add: seed_owner_def)
  ultimately show ?case
    using Cons.IH [of "jm_set own (fst p) (snd p)"] Cons.prems
    by (auto simp: jm_get_Cons jm_wf_def split: option.split)
qed (simp add: seed_owner_def)

lemma seed_owner_wf: "jm_wf own \<Longrightarrow> jm_wf (seed_owner own ov)"
  by (induction ov arbitrary: own) (auto simp: seed_owner_def)

lemma manual_diff_ok:
  assumes "input_ok inp"
  shows "diff_ok inp (manual_propose inp)"
proof (cases "validateManualOverlay (si_manualShards inp) (si_totalShards inp) (eligible_ids inp)")
  case (Inl e)
  then show ?thesis using leastLoaded_diff_ok [OF assms] by (simp add: manual_propose_def)
next
  case (Inr ov)
  let ?inp = "inp\<lparr>si_owner := seed_owner (si_owner inp) ov\<rparr>"
  have inv: "overlay_inv (si_totalShards inp) (eligible_ids inp) ov"
    by (rule validateManualOverlay_inv [OF Inr])
  then have get: "jm_get (seed_owner (si_owner inp) ov) s =
      (case jm_get ov s of Some m \<Rightarrow> Some m | None \<Rightarrow> jm_get (si_owner inp) s)" for s
    by (simp add: seed_owner_get overlay_inv_def)
  have el: "eligible_ids ?inp = eligible_ids inp"
    by (simp add: eligible_ids_def eligible_workers_def)
  have "input_ok ?inp"
    using assms inv unfolding input_ok_def set_jm_keys
    by (auto simp: get overlay_inv_def seed_owner_wf split: option.splits)
  then have "diff_ok ?inp (leastLoaded_propose ?inp)" by (rule leastLoaded_diff_ok)
  moreover have "m \<in> set (eligible_ids inp)"
    if "jm_get (seed_owner (si_owner inp) ov) s = Some m" "jm_get (si_owner inp) s \<noteq> Some m" for s m
    using that inv by (auto simp: get overlay_inv_def split: option.splits)
  ultimately have "diff_ok inp (leastLoaded_propose ?inp)"
    unfolding diff_ok_def el by (auto 0 3 simp: el)
  then show ?thesis by (simp add: manual_propose_def Inr)
qed

lemma manual_limit: "int (length (moves (manual_propose inp))) \<le> max 0 (si_maxMoves inp)"
  using leastLoaded_limit [of inp] leastLoaded_limit [of "inp\<lparr>si_owner := _\<rparr>"]
  by (auto simp: manual_propose_def split: sum.splits)

text \<open>Region aware: the loop leaves every shard with an eligible worker.\<close>

lemma region_best_in:
  assumes "eligible_workers inp \<noteq> []"
  shows "region_best inp (eligible_workers inp) own s \<in> set (eligible_ids inp)"
proof -
  let ?el = "eligible_workers inp"
  let ?start = "case find (\<lambda>w. Some (wv_machineId w) = jm_get own s) ?el of
     Some w \<Rightarrow> if wv_machineId w \<noteq> [] then w else hd ?el | None \<Rightarrow> hd ?el"
  have "?start \<in> set ?el"
    using assms by (auto split: option.split dest!: find_Some_iff [THEN iffD1])
  then have "pick_min sc ?start None ?el \<in> set ?el" for sc :: "WorkerView \<Rightarrow> rat"
    using pick_min_in [of sc ?start None ?el] by auto
  then show ?thesis by (simp add: region_best_def Let_def eligible_ids_def)
qed

definition region_inv ::
  "StrategyInput \<Rightarrow> (shard_id, machine) jsmap \<times> shard_move list \<Rightarrow> shard_id list \<Rightarrow> bool" where
  "region_inv inp st ss = (own_valid inp (fst st) \<and> apply_moves (si_owner inp) (snd st) = fst st \<and>
     (\<forall>s \<in> set ss. \<exists>m \<in> set (eligible_ids inp). jm_get (fst st) s = Some m))"

lemma region_shard_inv:
  assumes "region_inv inp st ss" "eligible_workers inp \<noteq> []" "0 \<le> s" "s < si_totalShards inp"
  shows "region_inv inp (region_shard inp (eligible_workers inp) st s) (ss @ [s])"
proof -
  obtain own mvs where st: "st = (own, mvs)" by (cases st)
  define best where "best = region_best inp (eligible_workers inp) own s"
  have best: "best \<in> set (eligible_ids inp)"
    unfolding best_def by (rule region_best_in [OF assms(2)])
  have r: "region_shard inp (eligible_workers inp) st s =
      (if jm_get own s \<noteq> Some best
       then (jm_set own s best, mvs @ [\<lparr>mv_shardId = s, mv_from = jm_get own s, mv_to = best\<rparr>])
       else (own, mvs))"
    by (simp add: region_shard_def st Let_def best_def)
  show ?thesis
    using assms(1,3,4) best unfolding r
    by (cases "jm_get own s = Some best") (auto simp: st region_inv_def own_valid_set apply_moves_snoc)
qed

lemma region_foldl_inv:
  assumes "region_inv inp st done" "eligible_workers inp \<noteq> []" "set ss \<subseteq> set (shard_range (si_totalShards inp))"
  shows "region_inv inp (foldl (region_shard inp (eligible_workers inp)) st ss) (done @ ss)"
  using assms
proof (induction ss arbitrary: st "done")
  case (Cons s ss)
  have "region_inv inp (region_shard inp (eligible_workers inp) st s) (done @ [s])"
    using Cons.prems by (intro region_shard_inv) (auto simp: set_shard_range)
  from Cons.IH [OF this] show ?case using Cons.prems by simp
qed simp

lemma region_loop:
  assumes "input_ok inp" "eligible_workers inp \<noteq> []"
  obtains own mvs where
    "foldl (region_shard inp (eligible_workers inp)) (si_owner inp, []) (shard_range (si_totalShards inp)) = (own, mvs)"
    and "region_inv inp (own, mvs) (shard_range (si_totalShards inp))"
proof -
  have "region_inv inp (si_owner inp, []) []"
    by (simp add: region_inv_def input_own_valid [OF assms(1)] apply_moves_def)
  from region_foldl_inv [OF this assms(2) order.refl] show ?thesis
    using that by (cases "foldl (region_shard inp (eligible_workers inp)) (si_owner inp, []) (shard_range (si_totalShards inp))") auto
qed

lemma region_lists:
  assumes "jm_wf own"
  shows "jm_wf (sort_values (group_known (empty_lists ids) own))"
    and "jm_get (sort_values (group_known (empty_lists ids) own)) m =
      (if m \<in> set ids then Some (sort (shards_of own m)) else None)"
proof -
  have k: "set (jm_keys (empty_lists ids)) = set ids"
    unfolding set_jm_keys by (simp add: empty_lists_get)
  have g: "group_known (empty_lists ids) own = group_owners (empty_lists ids) (filter (\<lambda>p. snd p \<in> set ids) own)"
    using group_known_eq [OF jm_wf_empty_lists [of ids], of own] by (simp only: k)
  have "shards_of (filter (\<lambda>p. snd p \<in> set ids) own) m = shards_of own m" if "m \<in> set ids"
    unfolding shards_of_def filter_filter using that by (metis (mono_tags, lifting))
  then show "jm_get (sort_values (group_known (empty_lists ids) own)) m =
      (if m \<in> set ids then Some (sort (shards_of own m)) else None)"
    by (auto simp: g sort_values_get jm_get_group_owners empty_lists_get js_sort_num_eq)
  show "jm_wf (sort_values (group_known (empty_lists ids) own))"
    by (simp add: g wf_intros)
qed

lemma regionAware_diff_ok:
  assumes "input_ok inp"
  shows "diff_ok inp (regionAware_propose inp)"
proof (cases "eligible_workers inp = []")
  case True
  then show ?thesis by (simp add: regionAware_propose_def diff_ok_empty)
next
  case False
  obtain own mvs where f: "foldl (region_shard inp (eligible_workers inp)) (si_owner inp, [])
      (shard_range (si_totalShards inp)) = (own, mvs)"
    and inv: "region_inv inp (own, mvs) (shard_range (si_totalShards inp))"
    by (rule region_loop [OF assms False])
  have valid: "own_valid inp own" using inv by (simp add: region_inv_def)
  then have jw: "jm_wf own" by (simp add: own_valid_def)
  have el: "map wv_machineId (eligible_workers inp) = eligible_ids inp" by (simp add: eligible_ids_def)
  have owned: "m \<in> set (eligible_ids inp)" if mem: "m \<in> set (jm_values own)" for m
  proof -
    obtain s where "(s, m) \<in> set own" using mem by auto
    then have s: "jm_get own s = Some m" by (simp add: jm_get_Some_iff [OF jw])
    then have "s \<in> set (shard_range (si_totalShards inp))"
      using valid by (simp add: own_valid_def set_shard_range)
    then obtain m' where "m' \<in> set (eligible_ids inp)" "jm_get own s = Some m'"
      using inv by (auto simp: region_inv_def)
    then show ?thesis using s by simp
  qed
  have cov: "covers_all inp own"
    unfolding covers_all_def
  proof (intro allI impI)
    fix s assume "0 \<le> s \<and> s < si_totalShards inp"
    then have "s \<in> set (shard_range (si_totalShards inp))" by (simp add: set_shard_range)
    then show "jm_get own s \<noteq> None" using inv by (auto simp: region_inv_def)
  qed
  have "diff_ok inp \<lparr>assignments = sort_values (group_known (empty_lists (eligible_ids inp)) own),
      moves = take (nat (si_maxMoves inp)) mvs\<rparr>"
  proof (rule grouped_diff_ok [OF valid])
    show "covers_all inp own \<and>
      (\<forall>m \<in> set (jm_values own). jm_get (sort_values (group_known (empty_lists (eligible_ids inp)) own)) m \<noteq> None)"
      using cov owned by (simp add: region_lists [OF jw])
  qed (auto simp: region_lists [OF jw] split: if_splits)
  then show ?thesis
    using leastLoaded_diff_ok [OF assms] False
    by (cases "si_maxMoves inp < int (length mvs)") (simp_all add: regionAware_propose_def Let_def f el)
qed

lemma regionAware_limit: "int (length (moves (regionAware_propose inp))) \<le> max 0 (si_maxMoves inp)"
  using leastLoaded_limit [of inp] by (auto simp: regionAware_propose_def Let_def split: prod.splits)

interpretation sticky: strategy_contract sticky_propose
  by (rule strategy_contractI) (simp_all add: sticky_diff_ok sticky_limit)

interpretation manual: strategy_contract manual_propose
  by (rule strategy_contractI) (simp_all add: manual_diff_ok manual_limit)

interpretation regionAware: strategy_contract regionAware_propose
  by (rule strategy_contractI) (simp_all add: regionAware_diff_ok regionAware_limit)

lemma getStrategy_contract: "strategy_contract (getStrategy sid)"
  by (cases sid)
    (simp_all add: getStrategy_def leastLoaded.strategy_contract_axioms sticky.strategy_contract_axioms
      manual.strategy_contract_axioms regionAware.strategy_contract_axioms)

interpretation chosen: strategy_contract "getStrategy sid" for sid
  by (rule getStrategy_contract)

subsection \<open>The manual overlay\<close>

definition pins :: "(machine, shard_id list) jsmap \<Rightarrow> machine \<Rightarrow> shard_id \<Rightarrow> bool" where
  "pins manual m s = (\<exists>(m', ss) \<in> set manual. m' = m \<and> s \<in> set ss)"

lemma pins_Cons: "pins ((m', ss) # manual) m s \<longleftrightarrow> m' = m \<and> s \<in> set ss \<or> pins manual m s"
  by (auto simp: pins_def)

lemma overlay_shards_Inr:
  "fold_res (overlay_shard n m) ov ss = Inr ov' \<Longrightarrow>
     (\<forall>s \<in> set ss. 0 \<le> s \<and> s < n \<and> (jm_get ov s = None \<or> jm_get ov s = Some m)) \<and>
     jm_get ov' s = (if s \<in> set ss then Some m else jm_get ov s)"
proof (induction ss arbitrary: ov)
  case (Cons x ss)
  obtain t where t: "overlay_shard n m ov x = Inr t" "fold_res (overlay_shard n m) t ss = Inr ov'"
    using Cons.prems by (rule fold_res_ConsE)
  have x: "0 \<le> x \<and> x < n \<and> (jm_get ov x = None \<or> jm_get ov x = Some m) \<and> t = jm_set ov x m"
    using t(1) by (auto simp: overlay_shard_def split: if_splits option.splits)
  show ?case using Cons.IH [OF t(2)] x by (auto split: if_splits)
qed simp

lemma overlay_shards_defined:
  "\<forall>s \<in> set ss. 0 \<le> s \<and> s < n \<and> (jm_get ov s = None \<or> jm_get ov s = Some m) \<Longrightarrow>
     \<exists>ov'. fold_res (overlay_shard n m) ov ss = Inr ov'"
proof (induction ss arbitrary: ov)
  case (Cons x ss)
  have "overlay_shard n m ov x = Inr (jm_set ov x m)"
    using Cons.prems by (auto simp: overlay_shard_def)
  then show ?case using Cons.IH [of "jm_set ov x m"] Cons.prems by auto
qed simp

lemma overlay_machines_Inr:
  "fold_res (overlay_machine n live) ov manual = Inr ov' \<Longrightarrow>
     (\<forall>(m, ss) \<in> set manual. m \<in> set live \<and> (\<forall>s \<in> set ss. 0 \<le> s \<and> s < n)) \<and>
     (\<forall>m s. pins manual m s \<longrightarrow> (jm_get ov s = None \<or> jm_get ov s = Some m) \<and> (\<forall>m'. pins manual m' s \<longrightarrow> m' = m)) \<and>
     (\<forall>m s. jm_get ov' s = Some m \<longleftrightarrow> pins manual m s \<or> jm_get ov s = Some m)"
proof (induction manual arbitrary: ov)
  case (Cons p manual)
  obtain m ss where p: "p = (m, ss)" by (cases p)
  obtain t where t: "overlay_machine n live ov p = Inr t" "fold_res (overlay_machine n live) t manual = Inr ov'"
    using Cons.prems by (rule fold_res_ConsE)
  have m: "m \<in> set live" "fold_res (overlay_shard n m) ov ss = Inr t"
    using t(1) by (auto simp: overlay_machine_def p split: if_splits)
  note o = overlay_shards_Inr [OF m(2)]
  have get: "jm_get t s = (if s \<in> set ss then Some m else jm_get ov s)" for s
    using o by blast
  have new: "\<forall>s \<in> set ss. 0 \<le> s \<and> s < n \<and> (jm_get ov s = None \<or> jm_get ov s = Some m)"
    using o by blast
  from Cons.IH [OF t(2)] new m(1) show ?case
    unfolding p pins_Cons get by (auto split: if_splits) (metis option.distinct(1) option.inject)+
qed (simp add: pins_def)

lemma overlay_machines_defined:
  "\<forall>(m, ss) \<in> set manual. m \<in> set live \<and> (\<forall>s \<in> set ss. 0 \<le> s \<and> s < n) \<Longrightarrow>
   \<forall>m s. pins manual m s \<longrightarrow> (jm_get ov s = None \<or> jm_get ov s = Some m) \<and> (\<forall>m'. pins manual m' s \<longrightarrow> m' = m) \<Longrightarrow>
   \<exists>ov'. fold_res (overlay_machine n live) ov manual = Inr ov'"
proof (induction manual arbitrary: ov)
  case (Cons p manual)
  obtain m ss where p: "p = (m, ss)" by (cases p)
  have "\<forall>s \<in> set ss. 0 \<le> s \<and> s < n \<and> (jm_get ov s = None \<or> jm_get ov s = Some m)"
    using Cons.prems by (auto simp: p pins_Cons)
  then obtain t where t: "fold_res (overlay_shard n m) ov ss = Inr t"
    using overlay_shards_defined by blast
  then have "overlay_machine n live ov p = Inr t"
    using Cons.prems(1) by (auto simp: overlay_machine_def p)
  moreover have "\<exists>ov'. fold_res (overlay_machine n live) t manual = Inr ov'"
  proof (rule Cons.IH)
    show "\<forall>m' s. pins manual m' s \<longrightarrow> (jm_get t s = None \<or> jm_get t s = Some m') \<and> (\<forall>m''. pins manual m'' s \<longrightarrow> m'' = m')"
      using Cons.prems(2) overlay_shards_Inr [OF t] unfolding p pins_Cons by auto
  qed (use Cons.prems(1) in auto)
  ultimately show ?case by simp
qed simp

subsection \<open>Properties\<close>

text \<open>
  C1. Whichever strategy is configured, and whether or not it moves anything, its diff lists each machine
  once, gives shards only to eligible machines or the current owner, never lists a shard for two machines
  and stays within the move limit; and once it moves anything every shard is listed for exactly one machine.
  The owners it is given are a map of shards in range (\<open>input_ok\<close>).
\<close>

theorem strategies_sound:
  assumes "input_ok inp"
  shows "let d = getStrategy sid inp in
    distinct (jm_keys (assignments d)) \<and> int (length (moves d)) \<le> max 0 (si_maxMoves inp) \<and>
    (\<forall>(m, ss) \<in> set (assignments d). sorted ss \<and> distinct ss \<and>
       (\<forall>s \<in> set ss. 0 \<le> s \<and> s < si_totalShards inp \<and>
          (m \<in> set (eligible_ids inp) \<or> jm_get (si_owner inp) s = Some m))) \<and>
    (\<forall>m ss m' ss' s. (m, ss) \<in> set (assignments d) \<and> (m', ss') \<in> set (assignments d) \<and> s \<in> set ss \<and> s \<in> set ss' \<longrightarrow> m = m') \<and>
    (moves d \<noteq> [] \<longrightarrow> (\<forall>s. 0 \<le> s \<and> s < si_totalShards inp \<longrightarrow>
       (\<exists>!m. \<exists>ss. (m, ss) \<in> set (assignments d) \<and> s \<in> set ss)))"
proof -
  let ?d = "getStrategy sid inp"
  have "\<forall>(m, ss) \<in> set (assignments ?d). sorted ss \<and> distinct ss \<and>
       (\<forall>s \<in> set ss. 0 \<le> s \<and> s < si_totalShards inp \<and>
          (m \<in> set (eligible_ids inp) \<or> jm_get (si_owner inp) s = Some m))"
  proof
    fix p assume p: "p \<in> set (assignments ?d)"
    then show "case p of (m, ss) \<Rightarrow> sorted ss \<and> distinct ss \<and> (\<forall>s \<in> set ss. 0 \<le> s \<and> s < si_totalShards inp \<and>
        (m \<in> set (eligible_ids inp) \<or> jm_get (si_owner inp) s = Some m))"
      using chosen.lists [OF assms, of "fst p" "snd p"] chosen.gains [OF assms, of "fst p" "snd p"]
      by (auto simp: case_prod_unfold)
  qed
  moreover have "\<forall>m ss m' ss' s. (m, ss) \<in> set (assignments ?d) \<and> (m', ss') \<in> set (assignments ?d) \<and>
      s \<in> set ss \<and> s \<in> set ss' \<longrightarrow> m = m'"
    using chosen.at_most_one [OF assms, of _ _ sid] by blast
  ultimately show ?thesis
    using chosen.keys [OF assms, of sid] chosen.limit [of sid inp] chosen.exactly_one [OF assms, of sid]
    unfolding Let_def by (simp add: jm_wf_def)
qed

definition demo_weights :: LoadWeights where
  "demo_weights = \<lparr>lw_guild = 1, lw_member = 0, lw_event = 0, lw_command = 0, lw_shard = 1\<rparr>"

definition demo_worker :: "machine \<Rightarrow> WorkerView" where
  "demo_worker m = \<lparr>wv_machineId = m, wv_zeneVersion = ''1.0.0'', wv_plugins = [], wv_nodeVersion = ''22'',
     wv_platform = ''linux'', wv_arch = ''x64'', wv_bootGeneration = ''g'', wv_labels = [],
     wv_registeredAt = 0, wv_lastSeenAt = 0, wv_shards = [], wv_snapshotVersionAck = 0, wv_apiBaseUrl = None\<rparr>"

definition demo_input :: "(shard_id, machine) jsmap \<Rightarrow> (machine, shard_id list) jsmap \<Rightarrow> StrategyInput" where
  "demo_input own manual = \<lparr>si_workers = [demo_worker ''a'', demo_worker ''b''], si_stats = [],
     si_totalShards = 4, si_owner = own, si_imbalanceThreshold = 1 / 2, si_maxMoves = 2,
     si_minImprovement = 1 / 10, si_weights = demo_weights, si_excludeMachineIds = [],
     si_manualShards = manual, si_regionLabelKey = ''region''\<rparr>"

lemma demo_input_ok: "input_ok (demo_input [(0, ''a''), (1, ''a''), (2, ''a''), (3, ''b'')] manual)"
  by (simp add: input_ok_def demo_input_def jm_wf_def)

theorem strategies_sound_witness:
  "distinct (jm_keys (assignments (getStrategy RegionAware (demo_input [(0, ''a''), (1, ''a''), (2, ''a''), (3, ''b'')] []))))"
  using strategies_sound [OF demo_input_ok, of RegionAware "[]"] by (simp add: Let_def)

text \<open>
  The least-loaded strategy first gives every unowned shard to an eligible machine, leaving owners
  as they are, and then makes at most \<open>maxMoves\<close> moves; its assignment is that ownership with the listed
  moves replayed, and each of its moves lowered the imbalance by at least \<open>minImprovement\<close>.
\<close>

theorem leastLoaded_improves:
  assumes "input_ok inp" and "eligible_ids inp \<noteq> []"
  shows "let d = leastLoaded_propose inp; start = fill inp (eligible_ids inp);
             final = apply_moves start (moves d) in
    assignments d = shardsByMachine final (eligible_ids inp) \<and>
    (\<forall>s. 0 \<le> s \<and> s < si_totalShards inp \<longrightarrow>
       (case jm_get (si_owner inp) s of
          Some m \<Rightarrow> jm_get start s = Some m
        | None \<Rightarrow> \<exists>m \<in> set (eligible_ids inp). jm_get start s = Some m)) \<and>
    imbalance_of inp (eligible_ids inp) final + of_nat (length (moves d)) * si_minImprovement inp
      \<le> imbalance_of inp (eligible_ids inp) start \<and>
    length (moves d) \<le> nat (si_maxMoves inp)"
proof -
  obtain own mvs where l: "leastLoaded_propose inp = \<lparr>assignments = shardsByMachine own (eligible_ids inp), moves = mvs\<rparr>"
    and inv: "loop_inv inp (fill inp (eligible_ids inp)) own mvs" and len: "length mvs \<le> nat (si_maxMoves inp)"
    by (rule leastLoaded_loop [OF assms])
  note fv = fill_valid [OF assms]
  have "\<exists>m \<in> set (eligible_ids inp). jm_get (fill inp (eligible_ids inp)) s = Some m"
    if "0 \<le> s" "s < si_totalShards inp" "jm_get (si_owner inp) s = None" for s
    using fv(1,2) that by (fastforce simp: own_valid_def covers_all_def)
  then show ?thesis
    using inv len fv(3) by (auto simp: l Let_def loop_inv_def split: option.split)
qed

theorem leastLoaded_improves_witness:
  "length (moves (leastLoaded_propose (demo_input [(0, ''a''), (1, ''a''), (2, ''a''), (3, ''b'')] []))) \<le> 2"
  using leastLoaded_improves [OF demo_input_ok, of "[]"]
  by (simp add: Let_def demo_input_def eligible_ids_def eligible_workers_def demo_worker_def)

text \<open>
  The manual overlay is all or nothing: it is accepted exactly when every listed machine is live, every
  listed shard is in range and no shard is listed for two machines, and then it pins each listed shard to
  its machine and nothing else.
\<close>

theorem manual_overlay_exact:
  "((\<exists>ov. validateManualOverlay manual n live = Inr ov) \<longleftrightarrow>
     (\<forall>(m, ss) \<in> set manual. m \<in> set live \<and> (\<forall>s \<in> set ss. 0 \<le> s \<and> s < n)) \<and>
     (\<forall>m m' s. pins manual m s \<and> pins manual m' s \<longrightarrow> m = m')) \<and>
   (\<forall>ov. validateManualOverlay manual n live = Inr ov \<longrightarrow>
     (\<forall>m s. jm_get ov s = Some m \<longleftrightarrow> pins manual m s))"
  using overlay_machines_Inr [of n live "[]" manual] overlay_machines_defined [of manual live n "[]"]
  unfolding validateManualOverlay_def by (intro conjI iffI) (auto, blast+)?

end
