(* ===== verification/Auth.thy ===== *)
theory Auth
  imports CrossHostTypes SemVer
begin

text \<open>
  \<open>src/core/crosshost/auth/hmac.ts\<close>, \<open>auth/tokens.ts\<close>, \<open>auth/claim.ts\<close> and
  \<open>orchestrator/deepCheck.ts\<close>: registration proofs, machine tokens, the orchestrator claim and the
  compatibility check.  The cryptographic primitives are parameters: \<open>hmac key payload\<close> is the keyed
  digest in hexadecimal, \<open>b64hmac\<close> the same in base64url, \<open>collate\<close> the locale comparison of strings;
  random values are arguments.  Replies of Redis are arguments too, and the commands sent are results.
\<close>

subsection \<open>Challenges and proofs\<close>

definition CHALLENGE_TTL_MS :: int where
  "CHALLENGE_TTL_MS = 60000"

record ChallengeRecord =
  ch_challengeId :: string
  ch_nonce :: string
  ch_machineId :: machine
  ch_expiresAt :: int

definition createChallenge :: "string \<Rightarrow> string \<Rightarrow> int \<Rightarrow> machine \<Rightarrow> ChallengeRecord" where
  "createChallenge challengeId nonce now m =
     \<lparr>ch_challengeId = challengeId, ch_nonce = nonce, ch_machineId = m, ch_expiresAt = now + CHALLENGE_TTL_MS\<rparr>"

definition pluginKey :: "PluginIdVersion \<Rightarrow> string" where
  "pluginKey p = plugin_id p @ ''@'' @ plugin_version p"

definition sortedPluginKeys :: "(string \<Rightarrow> string \<Rightarrow> int) \<Rightarrow> PluginIdVersion list \<Rightarrow> string list" where
  "sortedPluginKeys collate ps = js_sort_by collate (map pluginKey ps)"

definition buildManifestHash ::
  "(string \<Rightarrow> string \<Rightarrow> string) \<Rightarrow> (string \<Rightarrow> string \<Rightarrow> int) \<Rightarrow> string \<Rightarrow> PluginIdVersion list \<Rightarrow> string" where
  "buildManifestHash hmac collate zeneVersion ps =
     hmac ''manifest'' (zeneVersion @ ''|'' @ js_join '','' (sortedPluginKeys collate ps))"

definition computeRegisterHmac ::
  "(string \<Rightarrow> string \<Rightarrow> string) \<Rightarrow> string \<Rightarrow> string \<Rightarrow> machine \<Rightarrow> string \<Rightarrow> string \<Rightarrow> string \<Rightarrow> string" where
  "computeRegisterHmac hmac secret nonce m manifestHash zeneVersion bootGeneration =
     hmac secret (js_join ''|'' [nonce, m, manifestHash, zeneVersion, bootGeneration])"

text \<open>\<open>Buffer.from(s, 'hex')\<close>: pairs of hexadecimal digits up to the first pair that is not one.\<close>

definition hex_val :: "char \<Rightarrow> nat option" where
  "hex_val c =
     (let n = of_char c :: nat in
      if 48 \<le> n \<and> n \<le> 57 then Some (n - 48)
      else if 97 \<le> n \<and> n \<le> 102 then Some (n - 87)
      else if 65 \<le> n \<and> n \<le> 70 then Some (n - 55)
      else None)"

fun hex_bytes :: "string \<Rightarrow> nat list" where
  "hex_bytes (a # b # s) =
     (case (hex_val a, hex_val b) of
        (Some x, Some y) \<Rightarrow> (16 * x + y) # hex_bytes s
      | _ \<Rightarrow> [])"
| "hex_bytes _ = []"

definition verifyHmacEqual :: "string \<Rightarrow> string \<Rightarrow> bool" where
  "verifyHmacEqual expectedHex providedHex =
     (let a = hex_bytes expectedHex; b = hex_bytes providedHex in
      if length a = 0 \<or> length a \<noteq> length b then False else a = b)"

subsection \<open>Machine tokens\<close>

record MachineTokenClaims =
  tk_mid :: machine
  tk_iat :: int
  tk_exp :: int
  tk_jti :: string

record token_codec =
  tc_encode :: "MachineTokenClaims \<Rightarrow> string"
  tc_decode :: "string \<Rightarrow> MachineTokenClaims option"
  tc_b64hmac :: "string \<Rightarrow> string \<Rightarrow> string"
  tc_fromB64url :: "string \<Rightarrow> nat list"

definition issueMachineToken ::
  "token_codec \<Rightarrow> string \<Rightarrow> string \<Rightarrow> int \<Rightarrow> machine \<Rightarrow> int \<Rightarrow> string \<times> int \<times> MachineTokenClaims" where
  "issueMachineToken tc jti secret now m ttlSec =
     (let iat = now div 1000;
          ex = iat + max 60 ttlSec;
          claims = \<lparr>tk_mid = m, tk_iat = iat, tk_exp = ex, tk_jti = jti\<rparr>;
          payload = tc_encode tc claims;
          sig = tc_b64hmac tc secret payload
      in (payload @ ''.'' @ sig, ex * 1000, claims))"

definition verifyMachineToken ::
  "token_codec \<Rightarrow> string \<Rightarrow> int \<Rightarrow> string \<Rightarrow> machine option \<Rightarrow> MachineTokenClaims option" where
  "verifyMachineToken tc secret now token expectedMachineId =
     (case js_split (CHR ''.'') token of
        [payload, sig] \<Rightarrow>
          if payload = [] \<or> sig = [] then None
          else if tc_fromB64url tc sig \<noteq> tc_fromB64url tc (tc_b64hmac tc secret payload) then None
          else (case tc_decode tc payload of
                  None \<Rightarrow> None
                | Some claims \<Rightarrow>
                    if tk_exp claims < now div 1000 then None
                    else (case expectedMachineId of
                            Some m \<Rightarrow> if tk_mid claims \<noteq> m then None else Some claims
                          | None \<Rightarrow> Some claims))
      | _ \<Rightarrow> None)"

subsection \<open>Compatibility check\<close>

text \<open>The result is the reason code, \<open>R_OK\<close> for compatible; the message texts are left out.\<close>

definition samePluginIds :: "PluginIdVersion list \<Rightarrow> PluginIdVersion list \<Rightarrow> bool" where
  "samePluginIds desired incoming =
     (let a = js_uniq (map plugin_id desired); b = js_uniq (map plugin_id incoming) in
      length a = length b \<and> (\<forall>i \<in> set a. i \<in> set b))"

definition findDesiredVersion :: "PluginIdVersion list \<Rightarrow> string \<Rightarrow> string option" where
  "findDesiredVersion desired i = map_option plugin_version (find (\<lambda>p. plugin_id p = i) desired)"

fun check_plugins ::
  "PluginIdVersion list \<Rightarrow> PluginIdVersion list \<Rightarrow> semver_error + RegisterReasonCode" where
  "check_plugins desired [] = Inr R_OK"
| "check_plugins desired (p # ps) =
     (case findDesiredVersion desired (plugin_id p) of
        None \<Rightarrow> Inr PLUGIN_SET_MISMATCH
      | Some wantVer \<Rightarrow>
          if plugin_version p = wantVer then check_plugins desired ps
          else (case SemVer_satisfies (plugin_version p) (RStr wantVer) False of
                  Inl e \<Rightarrow> Inl e
                | Inr ok \<Rightarrow> if \<not> ok then Inr VERSION_OUT_OF_RANGE else check_plugins desired ps))"

definition runDeepCheck ::
  "(string \<Rightarrow> string \<Rightarrow> int) \<Rightarrow> CompatMode \<Rightarrow> DesiredState \<Rightarrow> string \<Rightarrow> PluginIdVersion list
   \<Rightarrow> semver_error + RegisterReasonCode" where
  "runDeepCheck collate mode desired zeneVersion ps =
     (case mode of
        Strict \<Rightarrow>
          if zeneVersion \<noteq> ds_zeneVersion desired then Inr VERSION_MISMATCH_STRICT
          else if sortedPluginKeys collate (ds_plugins desired) \<noteq> sortedPluginKeys collate ps
          then Inr PLUGIN_SET_MISMATCH
          else Inr R_OK
      | Range \<Rightarrow>
          (case SemVer_satisfies zeneVersion (RStr (ds_zeneVersion desired)) False of
             Inl e \<Rightarrow> Inl e
           | Inr ok \<Rightarrow>
               if \<not> ok then Inr VERSION_OUT_OF_RANGE
               else if \<not> samePluginIds (ds_plugins desired) ps then Inr PLUGIN_SET_MISMATCH
               else check_plugins (ds_plugins desired) ps))"

subsection \<open>The orchestrator claim\<close>

definition CLAIM_KEY :: string where
  "CLAIM_KEY = ''zene:crosshost:orchestrator:claim''"

datatype claim_command =
    ClaimSetNX string string int
  | ClaimSet string string int
  | ClaimDel string
  | ClaimExit

definition acquire_result :: "string \<Rightarrow> string option \<Rightarrow> string option" where
  "acquire_result token reply = (if reply = Some ''OK'' then Some token else None)"

definition acquire_command :: "string \<Rightarrow> claim_command" where
  "acquire_command token = ClaimSetNX CLAIM_KEY token 30"

definition renew_claim :: "bool \<Rightarrow> string \<Rightarrow> string option \<Rightarrow> claim_command list" where
  "renew_claim stopped token current =
     (if stopped then [] else if current \<noteq> Some token then [ClaimExit] else [ClaimSet CLAIM_KEY token 30])"

definition stop_claim :: "string \<Rightarrow> string option \<Rightarrow> claim_command list" where
  "stop_claim token current = (if current = Some token then [ClaimDel CLAIM_KEY] else [])"

subsection \<open>Lemmas\<close>

lemma verifyHmacEqual_iff: "verifyHmacEqual a b \<longleftrightarrow> hex_bytes a = hex_bytes b \<and> hex_bytes a \<noteq> []"
  by (auto simp: verifyHmacEqual_def Let_def)

lemma check_plugins_OK:
  "check_plugins desired ps = Inr R_OK \<longleftrightarrow>
     (\<forall>p \<in> set ps. \<exists>v. findDesiredVersion desired (plugin_id p) = Some v \<and>
        (plugin_version p = v \<or> SemVer_satisfies (plugin_version p) (RStr v) False = Inr True))"
  by (induction ps) (auto split: option.splits sum.splits)

lemma samePluginIds_iff: "samePluginIds desired incoming \<longleftrightarrow> plugin_id ` set desired = plugin_id ` set incoming"
proof -
  let ?a = "js_uniq (map plugin_id desired)" and ?b = "js_uniq (map plugin_id incoming)"
  have len: "length ?a = card (plugin_id ` set desired)" "length ?b = card (plugin_id ` set incoming)"
    using distinct_card [OF distinct_js_uniq, of "map plugin_id desired"]
      distinct_card [OF distinct_js_uniq, of "map plugin_id incoming"] by simp_all
  show ?thesis
    using card_subset_eq [of "plugin_id ` set incoming" "plugin_id ` set desired"]
    by (auto simp: samePluginIds_def Let_def len)
qed

lemma expiry_second: "(e::int) < n div 1000 \<longleftrightarrow> \<not> n < e * 1000 + 1000"
proof -
  have "n = n div 1000 * 1000 + n mod 1000" "0 \<le> n mod 1000" "n mod 1000 < 1000"
    by simp_all
  then show ?thesis by linarith
qed

lemma sort_key_eq_iff_mset:
  assumes "inj key"
  shows "sort_key key xs = sort_key key ys \<longleftrightarrow> mset xs = mset ys"
proof
  have map_sort: "map key (sort_key key zs) = sort (map key zs)" for zs
    by (rule properties_for_sort [symmetric]) simp_all
  assume "mset xs = mset ys"
  then have "mset (map key xs) = mset (map key ys)" by simp
  then have "sort (map key xs) = sort (map key ys)"
    by (metis properties_for_sort sorted_sort mset_sort)
  then show "sort_key key xs = sort_key key ys"
    using assms by (simp add: map_sort [symmetric] inj_map_eq_map)
qed (metis mset_sort)

subsection \<open>Properties\<close>

text \<open>
  C34. A machine token verifies under the secret that issued it, for its machine or for any, exactly until
  the end of its expiry second, that is up to 999 ms after the \<open>expiresAt\<close> the issuer reports, and never for
  another machine.  The encoded claims and signature contain no dot, and decoding gives the claims back.
\<close>

theorem token_roundtrip:
  assumes "issueMachineToken tc jti secret now m ttl = (token, expiresAt, claims)"
    and "tc_decode tc (tc_encode tc claims) = Some claims"
    and "CHR ''.'' \<notin> set (tc_encode tc claims)" "tc_encode tc claims \<noteq> []"
    and "CHR ''.'' \<notin> set (tc_b64hmac tc secret (tc_encode tc claims))" "tc_b64hmac tc secret (tc_encode tc claims) \<noteq> []"
  shows "verifyMachineToken tc secret now' token expected =
      (if now' < expiresAt + 1000 \<and> (expected = None \<or> expected = Some m) then Some claims else None) \<and>
    tk_mid claims = m \<and> now div 1000 + 60 \<le> tk_exp claims"
proof -
  have claims: "claims = \<lparr>tk_mid = m, tk_iat = now div 1000, tk_exp = now div 1000 + max 60 ttl, tk_jti = jti\<rparr>"
    and token: "token = tc_encode tc claims @ ''.'' @ tc_b64hmac tc secret (tc_encode tc claims)"
    and ex: "expiresAt = tk_exp claims * 1000"
    using assms(1) by (auto simp: issueMachineToken_def Let_def)
  have "js_split (CHR ''.'') token = [tc_encode tc claims, tc_b64hmac tc secret (tc_encode tc claims)]"
    using js_split_append [OF assms(3)] js_split_no_sep [OF assms(5)] by (simp add: token)
  moreover have "tk_exp claims < now' div 1000 \<longleftrightarrow> \<not> now' < expiresAt + 1000"
    unfolding ex by (rule expiry_second)
  ultimately have "verifyMachineToken tc secret now' token expected =
      (if now' < expiresAt + 1000 then
         (case expected of Some m \<Rightarrow> if tk_mid claims \<noteq> m then None else Some claims | None \<Rightarrow> Some claims) else None)"
    using assms(2,4,6) by (simp add: verifyMachineToken_def)
  moreover have "tk_mid claims = m" "now div 1000 + 60 \<le> tk_exp claims" by (simp_all add: claims)
  ultimately show ?thesis
    by (cases expected) auto
qed

definition demo_codec :: token_codec where
  "demo_codec = \<lparr>tc_encode = (\<lambda>c. ''claims''),
     tc_decode = (\<lambda>s. Some \<lparr>tk_mid = ''w1'', tk_iat = 5, tk_exp = 65, tk_jti = ''j''\<rparr>),
     tc_b64hmac = (\<lambda>k p. k @ p), tc_fromB64url = map of_char\<rparr>"

theorem token_roundtrip_witness:
  "verifyMachineToken demo_codec ''k'' 65999 ''claims.kclaims'' (Some ''w1'') \<noteq> None \<and>
   verifyMachineToken demo_codec ''k'' 66000 ''claims.kclaims'' (Some ''w1'') = None"
  using token_roundtrip [of demo_codec "''j''" "''k''" 5000 "''w1''" 30 "''claims.kclaims''" 65000
      "\<lparr>tk_mid = ''w1'', tk_iat = 5, tk_exp = 65, tk_jti = ''j''\<rparr>" 65999 "Some ''w1''"]
    token_roundtrip [of demo_codec "''j''" "''k''" 5000 "''w1''" 30 "''claims.kclaims''" 65000
      "\<lparr>tk_mid = ''w1'', tk_iat = 5, tk_exp = 65, tk_jti = ''j''\<rparr>" 66000 "Some ''w1''"]
  by (simp add: demo_codec_def issueMachineToken_def Let_def)

text \<open>
  In strict mode a worker passes the compatibility check exactly when its version is the desired one
  and its plugin keys are the desired ones, as a multiset and in any order.  The comparison of strings
  orders distinct strings; where the locale's collation treats distinct strings as equal this needs it.
\<close>

theorem deepCheck_strict:
  fixes key :: "string \<Rightarrow> 'k::linorder"
  assumes "key_comparator collate key" and "inj key"
  shows "runDeepCheck collate Strict desired v ps = Inr R_OK \<longleftrightarrow>
    v = ds_zeneVersion desired \<and> mset (map pluginKey ps) = mset (map pluginKey (ds_plugins desired))"
proof -
  note sk = key_comparator.js_sort_by_sort_key [OF assms(1)]
  show ?thesis
    by (auto simp: runDeepCheck_def sortedPluginKeys_def sk sort_key_eq_iff_mset [OF assms(2)])
qed

definition str_cmp :: "string \<Rightarrow> string \<Rightarrow> int" where
  "str_cmp a b = (if a < b then - 1 else if a = b then 0 else 1)"

lemma str_cmp_comparator: "key_comparator str_cmp id"
  by unfold_locales (auto simp: str_cmp_def)

theorem deepCheck_strict_witness:
  "runDeepCheck str_cmp Strict \<lparr>ds_zeneVersion = ''1.0.0'', ds_plugins = [\<lparr>plugin_id = ''a'', plugin_version = ''1''\<rparr>]\<rparr>
     ''1.0.0'' [] \<noteq> Inr R_OK"
  using deepCheck_strict [OF str_cmp_comparator, of
    "\<lparr>ds_zeneVersion = ''1.0.0'', ds_plugins = [\<lparr>plugin_id = ''a'', plugin_version = ''1''\<rparr>]\<rparr>" "''1.0.0''" "[]"]
  by simp

text \<open>
  In range mode a worker passes exactly when its version satisfies the desired requirement, its set of
  plugin identifiers is the desired one, and each plugin has the desired version or satisfies it.
\<close>

theorem deepCheck_range:
  "runDeepCheck collate Range desired v ps = Inr R_OK \<longleftrightarrow>
     SemVer_satisfies v (RStr (ds_zeneVersion desired)) False = Inr True \<and>
     plugin_id ` set (ds_plugins desired) = plugin_id ` set ps \<and>
     (\<forall>p \<in> set ps. \<exists>want. findDesiredVersion (ds_plugins desired) (plugin_id p) = Some want \<and>
        (plugin_version p = want \<or> SemVer_satisfies (plugin_version p) (RStr want) False = Inr True))"
  by (auto simp: runDeepCheck_def samePluginIds_iff check_plugins_OK split: sum.splits if_splits)

end
