(* ===== verification/Membership.thy ===== *)
theory Membership
  imports Auth
begin

text \<open>
  \<open>src/core/crosshost/orchestrator/membership.ts\<close>: the registry of workers and the registration
  handshake.  A machine asks for a challenge and answers it with an HMAC; a challenge is consumed by the
  first registration that names it.  The cryptographic parameters are those of \<open>Auth\<close>, collected in
  \<open>crypto\<close>.  Reading the plugin directory and \<open>package.json\<close> at start-up is file I/O and not modelled.
\<close>

subsection \<open>State and operations\<close>

record crypto =
  cr_hmac :: "string \<Rightarrow> string \<Rightarrow> string"
  cr_collate :: "string \<Rightarrow> string \<Rightarrow> int"
  cr_tokens :: token_codec

record MembershipConfig =
  mc_clusterSecret :: string
  mc_compatMode :: CompatMode
  mc_tokenTtlSec :: int
  mc_redisAlias :: string
  mc_channelPrefix :: string

record Membership =
  workers :: "(machine, WorkerView) jsmap"
  challenges :: "(string, ChallengeRecord) jsmap"
  mb_generation :: int
  mb_snapshotVersion :: int
  mb_totalShards :: int
  mb_desiredState :: DesiredState
  mb_config :: MembershipConfig

definition new_Membership :: "MembershipConfig \<Rightarrow> DesiredState \<Rightarrow> Membership" where
  "new_Membership config desired =
     \<lparr>workers = [], challenges = [], mb_generation = 1, mb_snapshotVersion = 0, mb_totalShards = 1,
      mb_desiredState = desired, mb_config = config\<rparr>"

definition update_worker :: "Membership \<Rightarrow> machine \<Rightarrow> (WorkerView \<Rightarrow> WorkerView) \<Rightarrow> Membership" where
  "update_worker mb m f =
     (case jm_get (workers mb) m of None \<Rightarrow> mb | Some w \<Rightarrow> mb\<lparr>workers := jm_set (workers mb) m (f w)\<rparr>)"

definition setWorkerShards :: "Membership \<Rightarrow> machine \<Rightarrow> shard_id list \<Rightarrow> Membership" where
  "setWorkerShards mb m ss = update_worker mb m (\<lambda>w. w\<lparr>wv_shards := ss\<rparr>)"

definition removeWorker :: "Membership \<Rightarrow> machine \<Rightarrow> bool \<times> Membership" where
  "removeWorker mb m = (jm_has (workers mb) m, mb\<lparr>workers := jm_delete (workers mb) m\<rparr>)"

definition isLive :: "Membership \<Rightarrow> int \<Rightarrow> machine \<Rightarrow> int \<Rightarrow> bool" where
  "isLive mb now m maxAgeMs =
     (case jm_get (workers mb) m of None \<Rightarrow> False | Some w \<Rightarrow> now - wv_lastSeenAt w \<le> maxAgeMs)"

definition setWorkerSnapshotAck :: "Membership \<Rightarrow> int \<Rightarrow> machine \<Rightarrow> int \<Rightarrow> Membership" where
  "setWorkerSnapshotAck mb now m v =
     update_worker mb m (\<lambda>w. w\<lparr>wv_snapshotVersionAck := v, wv_lastSeenAt := now\<rparr>)"

definition bumpGeneration :: "Membership \<Rightarrow> int option \<Rightarrow> Membership" where
  "bumpGeneration mb n =
     (case n of
        Some k \<Rightarrow> if k > mb_generation mb then mb\<lparr>mb_generation := k\<rparr>
                  else mb\<lparr>mb_generation := mb_generation mb + 1\<rparr>
      | None \<Rightarrow> mb\<lparr>mb_generation := mb_generation mb + 1\<rparr>)"

definition setApiBaseUrl :: "Membership \<Rightarrow> int \<Rightarrow> machine \<Rightarrow> string option \<Rightarrow> Membership" where
  "setApiBaseUrl mb now m url = update_worker mb m (\<lambda>w. w\<lparr>wv_apiBaseUrl := url, wv_lastSeenAt := now\<rparr>)"

definition touch :: "Membership \<Rightarrow> int \<Rightarrow> machine \<Rightarrow> Membership" where
  "touch mb now m = update_worker mb m (\<lambda>w. w\<lparr>wv_lastSeenAt := now\<rparr>)"

definition listWorkers :: "Membership \<Rightarrow> WorkerView list" where
  "listWorkers mb = jm_values (workers mb)"

definition issueChallenge ::
  "Membership \<Rightarrow> string \<Rightarrow> string \<Rightarrow> int \<Rightarrow> machine \<Rightarrow> ChallengeRecord \<times> Membership" where
  "issueChallenge mb challengeId nonce now m =
     (let existing = filter (\<lambda>c. ch_machineId c = m) (jm_values (challenges mb));
          d = foldl (\<lambda>d c. jm_delete d (ch_challengeId c)) (challenges mb) existing;
          r = createChallenge challengeId nonce now m
      in (r, mb\<lparr>challenges := jm_set d (ch_challengeId r) r\<rparr>))"

record RegisterBody =
  rb_machineId :: machine
  rb_zeneVersion :: string
  rb_plugins :: "PluginIdVersion list"
  rb_nodeVersion :: string
  rb_platform :: string
  rb_arch :: string
  rb_bootGeneration :: string
  rb_labels :: "(string, string) jsmap option"
  rb_apiBaseUrl :: "string option"
  rb_challengeId :: string
  rb_hmac :: string

record AcceptResult =
  ac_generation :: int
  ac_assignedShards :: "shard_id list"
  ac_totalShards :: int
  ac_machineToken :: string
  ac_machineTokenExpiresAt :: int
  ac_snapshotVersion :: int
  ac_desiredState :: DesiredState
  ac_compatMode :: CompatMode
  ac_redisAlias :: string
  ac_channelPrefix :: string

datatype RegisterResult = Accept AcceptResult | Reject RegisterReasonCode

definition expected_hmac :: "crypto \<Rightarrow> Membership \<Rightarrow> ChallengeRecord \<Rightarrow> RegisterBody \<Rightarrow> string" where
  "expected_hmac cr mb ch body =
     computeRegisterHmac (cr_hmac cr) (mc_clusterSecret (mb_config mb)) (ch_nonce ch) (rb_machineId body)
       (buildManifestHash (cr_hmac cr) (cr_collate cr) (rb_zeneVersion body) (rb_plugins body))
       (rb_zeneVersion body) (rb_bootGeneration body)"

definition worker_view ::
  "Membership \<Rightarrow> (machine \<Rightarrow> shard_id list) option \<Rightarrow> int \<Rightarrow> RegisterBody \<Rightarrow> WorkerView" where
  "worker_view mb shardLookup now body =
     (let existing = jm_get (workers mb) (rb_machineId body) in
      \<lparr>wv_machineId = rb_machineId body, wv_zeneVersion = rb_zeneVersion body, wv_plugins = rb_plugins body,
       wv_nodeVersion = rb_nodeVersion body, wv_platform = rb_platform body, wv_arch = rb_arch body,
       wv_bootGeneration = rb_bootGeneration body,
       wv_labels = (case rb_labels body of None \<Rightarrow> [] | Some l \<Rightarrow> l),
       wv_registeredAt = now, wv_lastSeenAt = now,
       wv_shards = (case shardLookup of
                      Some f \<Rightarrow> f (rb_machineId body)
                    | None \<Rightarrow> (case existing of Some w \<Rightarrow> wv_shards w | None \<Rightarrow> [])),
       wv_snapshotVersionAck = 0,
       wv_apiBaseUrl = (case rb_apiBaseUrl body of
                          Some u \<Rightarrow> if u \<noteq> [] then Some u
                                    else (case existing of Some w \<Rightarrow> wv_apiBaseUrl w | None \<Rightarrow> None)
                        | None \<Rightarrow> (case existing of Some w \<Rightarrow> wv_apiBaseUrl w | None \<Rightarrow> None))\<rparr>)"

text \<open>The registration.  A malformed version makes the range check throw, after the challenge is gone.\<close>

definition register ::
  "crypto \<Rightarrow> (machine \<Rightarrow> shard_id list) option \<Rightarrow> string \<Rightarrow> int \<Rightarrow> Membership \<Rightarrow> RegisterBody
   \<Rightarrow> (semver_error + RegisterResult) \<times> Membership" where
  "register cr shardLookup jti now mb body =
     (case jm_get (challenges mb) (rb_challengeId body) of
        None \<Rightarrow> (Inr (Reject CHALLENGE_MISSING), mb)
      | Some challenge \<Rightarrow>
          (let mb1 = mb\<lparr>challenges := jm_delete (challenges mb) (rb_challengeId body)\<rparr> in
           if ch_expiresAt challenge < now then (Inr (Reject CHALLENGE_EXPIRED), mb1)
           else if ch_machineId challenge \<noteq> rb_machineId body then (Inr (Reject HMAC_INVALID), mb1)
           else if \<not> verifyHmacEqual (expected_hmac cr mb1 challenge body) (rb_hmac body)
           then (Inr (Reject HMAC_INVALID), mb1)
           else (case runDeepCheck (cr_collate cr) (mc_compatMode (mb_config mb1)) (mb_desiredState mb1)
                        (rb_zeneVersion body) (rb_plugins body) of
                   Inl e \<Rightarrow> (Inl e, mb1)
                 | Inr reason \<Rightarrow>
                     if reason \<noteq> R_OK then (Inr (Reject reason), mb1)
                     else (let view = worker_view mb1 shardLookup now body;
                               mb2 = mb1\<lparr>workers := jm_set (workers mb1) (rb_machineId body) view\<rparr>;
                               (token, expiresAt, claims) =
                                 issueMachineToken (cr_tokens cr) jti (mc_clusterSecret (mb_config mb2)) now
                                   (rb_machineId body) (mc_tokenTtlSec (mb_config mb2))
                           in (Inr (Accept \<lparr>ac_generation = mb_generation mb2, ac_assignedShards = wv_shards view,
                                 ac_totalShards = mb_totalShards mb2, ac_machineToken = token,
                                 ac_machineTokenExpiresAt = expiresAt, ac_snapshotVersion = mb_snapshotVersion mb2,
                                 ac_desiredState = mb_desiredState mb2,
                                 ac_compatMode = mc_compatMode (mb_config mb2),
                                 ac_redisAlias = mc_redisAlias (mb_config mb2),
                                 ac_channelPrefix = mc_channelPrefix (mb_config mb2)\<rparr>), mb2)))))"

subsection \<open>Histories\<close>

datatype mb_op =
    Mb_challenge string string int machine
  | Mb_register string int RegisterBody
  | Mb_touch int machine
  | Mb_setShards machine "shard_id list"
  | Mb_ack int machine int
  | Mb_bump "int option"
  | Mb_apiUrl int machine "string option"
  | Mb_remove machine

fun mb_step :: "crypto \<Rightarrow> (machine \<Rightarrow> shard_id list) option \<Rightarrow> Membership \<Rightarrow> mb_op \<Rightarrow> Membership" where
  "mb_step cr lk mb (Mb_challenge cid nonce now m) = snd (issueChallenge mb cid nonce now m)"
| "mb_step cr lk mb (Mb_register jti now body) = snd (register cr lk jti now mb body)"
| "mb_step cr lk mb (Mb_touch now m) = touch mb now m"
| "mb_step cr lk mb (Mb_setShards m ss) = setWorkerShards mb m ss"
| "mb_step cr lk mb (Mb_ack now m v) = setWorkerSnapshotAck mb now m v"
| "mb_step cr lk mb (Mb_bump n) = bumpGeneration mb n"
| "mb_step cr lk mb (Mb_apiUrl now m u) = setApiBaseUrl mb now m u"
| "mb_step cr lk mb (Mb_remove m) = snd (removeWorker mb m)"

definition issues :: "string \<Rightarrow> mb_op \<Rightarrow> bool" where
  "issues cid x = (case x of Mb_challenge c nonce now m \<Rightarrow> c = cid | _ \<Rightarrow> False)"

subsection \<open>Invariant\<close>

text \<open>Keys agree with the records, and no machine has two challenges outstanding.\<close>

definition mb_ok :: "Membership \<Rightarrow> bool" where
  "mb_ok mb = (jm_wf (workers mb) \<and> jm_wf (challenges mb) \<and>
     (\<forall>m w. jm_get (workers mb) m = Some w \<longrightarrow> wv_machineId w = m) \<and>
     (\<forall>i c. jm_get (challenges mb) i = Some c \<longrightarrow> ch_challengeId c = i) \<and>
     (\<forall>i j c d. jm_get (challenges mb) i = Some c \<longrightarrow> jm_get (challenges mb) j = Some d \<longrightarrow>
        ch_machineId c = ch_machineId d \<longrightarrow> i = j))"

lemma new_Membership_ok: "mb_ok (new_Membership config desired)"
  by (simp add: mb_ok_def new_Membership_def)

lemma listWorkers_keys: "mb_ok mb \<Longrightarrow> map wv_machineId (listWorkers mb) = jm_keys (workers mb)"
  using jm_get_Some_iff [of "workers mb"] by (auto simp: mb_ok_def listWorkers_def)

lemma listWorkers_distinct: "mb_ok mb \<Longrightarrow> distinct (map wv_machineId (listWorkers mb))"
  using listWorkers_keys [of mb] by (simp add: mb_ok_def jm_wf_def)

lemma update_worker_ok:
  "mb_ok mb \<Longrightarrow> (\<And>w. wv_machineId (f w) = wv_machineId w) \<Longrightarrow> mb_ok (update_worker mb m f)"
  by (auto simp: mb_ok_def update_worker_def split: option.split)

lemmas mb_updates = touch_def setWorkerShards_def setWorkerSnapshotAck_def setApiBaseUrl_def

lemma foldl_delete_map: "foldl (\<lambda>d c. jm_delete d (f c)) d cs = jm.del_all d (map f cs)"
  by (induction cs arbitrary: d) (auto simp: jm.del_all_def)

lemma issueChallenge_get:
  assumes "mb_ok mb"
  shows "jm_get (challenges (snd (issueChallenge mb cid nonce now m))) i =
    (if i = cid then Some (createChallenge cid nonce now m)
     else case jm_get (challenges mb) i of
            Some c \<Rightarrow> if ch_machineId c = m then None else Some c | None \<Rightarrow> None)"
proof -
  have wf: "jm_wf (challenges mb)" and ids: "\<And>i c. jm_get (challenges mb) i = Some c \<Longrightarrow> ch_challengeId c = i"
    using assms by (auto simp: mb_ok_def)
  have "i \<in> set (map ch_challengeId (filter (\<lambda>c. ch_machineId c = m) (jm_values (challenges mb)))) \<longleftrightarrow>
      (\<exists>c. jm_get (challenges mb) i = Some c \<and> ch_machineId c = m)" for i
    using ids jm_get_Some_iff [OF wf] by (fastforce simp: image_iff)
  then show ?thesis
    by (auto simp: issueChallenge_def Let_def foldl_delete_map jm.get_del_all createChallenge_def
        simp del: set_map split: option.split)
qed

lemma issueChallenge_ok:
  assumes "mb_ok mb"
  shows "mb_ok (snd (issueChallenge mb cid nonce now m))"
proof -
  let ?mb = "snd (issueChallenge mb cid nonce now m)"
  have "jm_wf (challenges ?mb)" "workers ?mb = workers mb"
    using assms by (simp_all add: issueChallenge_def Let_def foldl_delete_map jm.ok_del_all mb_ok_def)
  then show ?thesis
    using assms unfolding mb_ok_def
    by (auto simp: issueChallenge_get [OF assms] createChallenge_def split: if_splits option.splits)
qed

lemma register_cases:
  obtains (missing) "jm_get (challenges mb) (rb_challengeId body) = None"
      "register cr lk jti now mb body = (Inr (Reject CHALLENGE_MISSING), mb)"
  | (consumed) r where "jm_get (challenges mb) (rb_challengeId body) \<noteq> None"
      "register cr lk jti now mb body = (r, mb\<lparr>challenges := jm_delete (challenges mb) (rb_challengeId body)\<rparr>)"
      "\<not> (\<exists>a. r = Inr (Accept a))"
  | (accepted) a view where "jm_get (challenges mb) (rb_challengeId body) \<noteq> None"
      "register cr lk jti now mb body = (Inr (Accept a),
        mb\<lparr>challenges := jm_delete (challenges mb) (rb_challengeId body),
           workers := jm_set (workers mb) (rb_machineId body) view\<rparr>)"
      "wv_machineId view = rb_machineId body"
proof (cases "jm_get (challenges mb) (rb_challengeId body)")
  case None
  then show ?thesis using missing by (simp add: register_def)
next
  case (Some ch)
  let ?mb1 = "mb\<lparr>challenges := jm_delete (challenges mb) (rb_challengeId body)\<rparr>"
  have "(\<exists>r. register cr lk jti now mb body = (r, ?mb1) \<and> \<not> (\<exists>a. r = Inr (Accept a))) \<or>
    (\<exists>a. register cr lk jti now mb body = (Inr (Accept a),
       ?mb1\<lparr>workers := jm_set (workers mb) (rb_machineId body) (worker_view ?mb1 lk now body)\<rparr>))"
    by (simp add: register_def Some Let_def split: sum.split prod.split)
  then show ?thesis
  proof (elim disjE exE conjE)
    fix r assume "register cr lk jti now mb body = (r, ?mb1)" "\<not> (\<exists>a. r = Inr (Accept a))"
    then show ?thesis using consumed Some by simp
  next
    fix a assume "register cr lk jti now mb body = (Inr (Accept a),
       ?mb1\<lparr>workers := jm_set (workers mb) (rb_machineId body) (worker_view ?mb1 lk now body)\<rparr>)"
    then show ?thesis using accepted Some by (simp add: worker_view_def Let_def)
  qed
qed

lemma register_ok: "mb_ok mb \<Longrightarrow> mb_ok (snd (register cr lk jti now mb body))"
  by (cases rule: register_cases [of mb body cr lk jti now]) (auto simp: mb_ok_def split: if_splits)

lemma mb_step_ok: "mb_ok mb \<Longrightarrow> mb_ok (mb_step cr lk mb x)"
proof (cases x)
  case (Mb_bump n)
  then show "mb_ok mb \<Longrightarrow> ?thesis" by (auto simp: mb_ok_def bumpGeneration_def split: option.split)
next
  case (Mb_remove m)
  then show "mb_ok mb \<Longrightarrow> ?thesis" by (auto simp: mb_ok_def removeWorker_def)
qed (simp_all add: issueChallenge_ok register_ok mb_updates update_worker_ok)

lemma mb_run_ok: "mb_ok mb \<Longrightarrow> mb_ok (foldl (mb_step cr lk) mb xs)"
  by (induction xs arbitrary: mb) (auto simp: mb_step_ok)

text \<open>A challenge that is gone stays gone until it is issued again.\<close>

lemma mb_step_missing:
  assumes "mb_ok mb" "jm_get (challenges mb) cid = None" "\<not> issues cid x"
  shows "jm_get (challenges (mb_step cr lk mb x)) cid = None"
proof (cases x)
  case (Mb_challenge c nonce now m)
  then show ?thesis using assms by (auto simp: issueChallenge_get issues_def)
next
  case (Mb_register jti now body)
  then show ?thesis
    using assms(2) by (cases rule: register_cases [of mb body cr lk jti now]) auto
qed (use assms in \<open>auto simp: mb_updates update_worker_def bumpGeneration_def removeWorker_def split: option.split\<close>)

lemma mb_run_missing:
  "mb_ok mb \<Longrightarrow> jm_get (challenges mb) cid = None \<Longrightarrow> \<forall>x \<in> set xs. \<not> issues cid x \<Longrightarrow>
     jm_get (challenges (foldl (mb_step cr lk) mb xs)) cid = None"
  by (induction xs arbitrary: mb) (auto simp: mb_step_ok mb_step_missing)

subsection \<open>Properties\<close>

text \<open>
  A challenge is good for one registration: once a registration names it, whatever its outcome, every
  later registration that names it is rejected as missing until that identifier is issued again, and
  leaves the registry unchanged.
\<close>

theorem challenge_single_use:
  assumes "mb_ok mb" and "rb_challengeId body' = rb_challengeId body"
    and "\<forall>x \<in> set xs. \<not> issues (rb_challengeId body) x"
  shows "let mb' = foldl (mb_step cr lk) (snd (register cr lk jti now mb body)) xs in
    register cr lk jti' now' mb' body' = (Inr (Reject CHALLENGE_MISSING), mb')"
proof -
  let ?mb = "snd (register cr lk jti now mb body)"
  have "jm_get (challenges ?mb) (rb_challengeId body) = None"
    by (cases rule: register_cases [of mb body cr lk jti now]) auto
  then have "jm_get (challenges (foldl (mb_step cr lk) ?mb xs)) (rb_challengeId body) = None"
    by (rule mb_run_missing [OF register_ok [OF assms(1)] _ assms(3)])
  then show ?thesis by (simp add: register_def assms(2) Let_def)
qed

definition demo_config :: MembershipConfig where
  "demo_config = \<lparr>mc_clusterSecret = ''0a'', mc_compatMode = Strict, mc_tokenTtlSec = 60,
     mc_redisAlias = ''main'', mc_channelPrefix = ''p''\<rparr>"

definition demo_crypto :: crypto where
  "demo_crypto = \<lparr>cr_hmac = (\<lambda>k p. k), cr_collate = str_cmp, cr_tokens = demo_codec\<rparr>"

definition demo_body :: RegisterBody where
  "demo_body = \<lparr>rb_machineId = ''w1'', rb_zeneVersion = ''1.0.0'', rb_plugins = [], rb_nodeVersion = ''22'',
     rb_platform = ''linux'', rb_arch = ''x64'', rb_bootGeneration = ''b1'', rb_labels = None,
     rb_apiBaseUrl = None, rb_challengeId = ''c1'', rb_hmac = ''0A''\<rparr>"

definition demo_membership :: Membership where
  "demo_membership = snd (issueChallenge (new_Membership demo_config
     \<lparr>ds_zeneVersion = ''1.0.0'', ds_plugins = []\<rparr>) ''c1'' ''n'' 0 ''w1'')"

lemma demo_membership_ok: "mb_ok demo_membership"
  unfolding demo_membership_def by (rule issueChallenge_ok [OF new_Membership_ok])

theorem challenge_single_use_witness:
  "fst (register demo_crypto None ''t'' 7 (snd (register demo_crypto None ''j'' 5 demo_membership demo_body)) demo_body)
     = Inr (Reject CHALLENGE_MISSING)"
  using challenge_single_use [OF demo_membership_ok refl, of "[]" demo_body demo_crypto None "''j''" 5 "''t''" 7]
  by (simp add: Let_def)

text \<open>
  C33. A registration is accepted only for a challenge that was issued to that machine and has not
  expired, with an HMAC whose bytes are those computed from the cluster secret, the challenge's nonce, the
  manifest and the boot generation, and a passed compatibility check.  It then records exactly the
  registering machine, as seen now; a rejected or failed registration changes no worker.
\<close>

theorem register_accepts:
  assumes "register cr lk jti now mb body = (res, mb')"
  shows "((\<exists>a. res = Inr (Accept a)) \<longleftrightarrow>
      (\<exists>ch. jm_get (challenges mb) (rb_challengeId body) = Some ch \<and> now \<le> ch_expiresAt ch \<and>
        ch_machineId ch = rb_machineId body \<and>
        hex_bytes (rb_hmac body) = hex_bytes (expected_hmac cr mb ch body) \<and> hex_bytes (rb_hmac body) \<noteq> [] \<and>
        runDeepCheck (cr_collate cr) (mc_compatMode (mb_config mb)) (mb_desiredState mb)
          (rb_zeneVersion body) (rb_plugins body) = Inr R_OK)) \<and>
    ((\<exists>a. res = Inr (Accept a)) \<longrightarrow>
       (\<exists>w. jm_get (workers mb') (rb_machineId body) = Some w \<and> wv_lastSeenAt w = now \<and>
          wv_machineId w = rb_machineId body \<and> wv_bootGeneration w = rb_bootGeneration body) \<and>
       (\<forall>m. m \<noteq> rb_machineId body \<longrightarrow> jm_get (workers mb') m = jm_get (workers mb) m)) \<and>
    (\<not> (\<exists>a. res = Inr (Accept a)) \<longrightarrow> workers mb' = workers mb)"
proof (cases "jm_get (challenges mb) (rb_challengeId body)")
  case None
  then show ?thesis using assms by (auto simp: register_def)
next
  case (Some ch)
  have hm: "expected_hmac cr (mb\<lparr>challenges := d\<rparr>) ch body = expected_hmac cr mb ch body" for d
    by (simp add: expected_hmac_def)
  have view: "wv_lastSeenAt (worker_view x lk now body) = now"
    "wv_machineId (worker_view x lk now body) = rb_machineId body"
    "wv_bootGeneration (worker_view x lk now body) = rb_bootGeneration body" for x
    by (simp_all add: worker_view_def Let_def)
  show ?thesis
    using assms
    by (auto simp: register_def Some Let_def hm view verifyHmacEqual_iff split: if_splits sum.splits prod.splits)
qed

theorem register_accepts_witness:
  "\<exists>a. fst (register demo_crypto None ''j'' 60000 demo_membership demo_body) = Inr (Accept a)"
  using register_accepts [of demo_crypto None "''j''" 60000 demo_membership demo_body
      "fst (register demo_crypto None ''j'' 60000 demo_membership demo_body)"
      "snd (register demo_crypto None ''j'' 60000 demo_membership demo_body)"]
  by (simp add: demo_membership_def issueChallenge_def new_Membership_def createChallenge_def CHALLENGE_TTL_MS_def
      demo_config_def demo_crypto_def demo_body_def expected_hmac_def computeRegisterHmac_def hex_val_def
      runDeepCheck_def sortedPluginKeys_def Let_def)

text \<open>
  C32. Whatever requests arrive, in any order, the registry's keys agree with its records, and no machine
  has two challenges outstanding.
\<close>

theorem membership_invariant:
  "let mb = foldl (mb_step cr lk) (new_Membership config desired) xs in
     (\<forall>m w. jm_get (workers mb) m = Some w \<longrightarrow> wv_machineId w = m) \<and>
     distinct (map ch_machineId (jm_values (challenges mb))) \<and>
     distinct (map wv_machineId (listWorkers mb))"
proof -
  let ?mb = "foldl (mb_step cr lk) (new_Membership config desired) xs"
  have ok: "mb_ok ?mb" by (rule mb_run_ok [OF new_Membership_ok])
  then have wf: "jm_wf (workers ?mb)" "jm_wf (challenges ?mb)" by (simp_all add: mb_ok_def)
  have "inj_on (\<lambda>p. ch_machineId (snd p)) (set (challenges ?mb))"
    using ok jm_get_Some_iff [OF wf(2)] by (auto simp: mb_ok_def inj_on_def) (metis option.inject)+
  then have "distinct (map (\<lambda>p. ch_machineId (snd p)) (challenges ?mb))"
    using wf(2) by (simp add: distinct_map jm_wf_def)
  then have d2: "distinct (map ch_machineId (jm_values (challenges ?mb)))"
    by (simp add: comp_def)
  show ?thesis
    unfolding Let_def using listWorkers_distinct [OF ok] d2 ok by (simp only: mb_ok_def) blast
qed

text \<open>A machine asks twice, registers and reports its shards.\<close>

definition demo_run :: Membership where
  "demo_run = foldl (mb_step demo_crypto None) (new_Membership demo_config \<lparr>ds_zeneVersion = ''1.0.0'', ds_plugins = []\<rparr>)
     [Mb_challenge ''c1'' ''n1'' 0 ''w1'', Mb_challenge ''c2'' ''0a'' 0 ''w1'', Mb_setShards ''w1'' [2, 1]]"

theorem membership_invariant_witness:
  "map ch_machineId (jm_values (challenges demo_run)) = [''w1''] \<and> distinct (map ch_machineId (jm_values (challenges demo_run)))"
proof
  show "map ch_machineId (jm_values (challenges demo_run)) = [''w1'']" unfolding demo_run_def by code_simp
  show "distinct (map ch_machineId (jm_values (challenges demo_run)))"
    using membership_invariant [of demo_crypto None demo_config "\<lparr>ds_zeneVersion = ''1.0.0'', ds_plugins = []\<rparr>"
        "[Mb_challenge ''c1'' ''n1'' 0 ''w1'', Mb_challenge ''c2'' ''0a'' 0 ''w1'', Mb_setShards ''w1'' [2, 1]]"]
    unfolding Let_def demo_run_def by blast
qed

end
