(* ===== verification/Rebalance.thy ===== *)
theory Rebalance
  imports Strategies Membership
begin

text \<open>
  \<open>src/core/crosshost/orchestrator/rebalance.ts\<close>: the rebalance engine.  \<open>cluster\<close> adds to \<open>control\<close> what the
  engine shares with the rest of the orchestrator: the registry, the last statistics of each worker, the
  set of workers being updated, and the settings.  \<open>maybeRebalance\<close> is one run of the engine with no other
  operation at its awaits and every command accepted by Redis; the theory \<open>RebalanceRun\<close> has the same run
  cut at its awaits, with what Redis answers.  The clock it reads is that of \<open>control\<close>.
\<close>

subsection \<open>State and operations\<close>

record CrossHostEnv =
  env_heartbeatMs :: int
  env_suspectAfter :: int
  env_deadGraceMs :: int
  env_rebalanceCooldownMs :: int
  env_loadImbalanceThreshold :: rat
  env_rebalanceMaxMoves :: int
  env_rebalanceMinImprovement :: rat
  env_assignmentStrategy :: StrategyId
  env_regionLabelKey :: string
  env_maxConcurrentUpdates :: int
  env_loadWeights :: LoadWeights
  env_manualShards :: "(machine, shard_id list) jsmap"

record cluster = control +
  env :: CrossHostEnv
  membership :: Membership
  stats :: "(machine, WorkerStats) jsmap"
  updating :: "machine list"
  lastRunAt :: int

definition recordStats :: "cluster \<Rightarrow> WorkerStats \<Rightarrow> cluster" where
  "recordStats c st = c\<lparr>stats := jm_set (stats c) (ws_machineId st) st\<rparr>"

definition available :: "cluster \<Rightarrow> WorkerView list" where
  "available c = filter (\<lambda>w. wv_machineId w \<notin> set (updating c)) (listWorkers (membership c))"

definition apply_assignment ::
  "AssignmentReason \<Rightarrow> cluster \<Rightarrow> machine \<times> shard_id list \<Rightarrow> shard_error + cluster" where
  "apply_assignment reason c p =
     (let m = fst p; nxt = js_sort_num (snd p) in
      if shardsFor (shardMap c) m = nxt then Inr c
      else (case assign c m nxt reason True of
              Inl e \<Rightarrow> Inl e
            | Inr (_, c1) \<Rightarrow>
                Inr (c1\<lparr>membership := bumpGeneration (setWorkerShards (membership c1) m nxt)
                                       (Some (generation (shardMap c1)))\<rparr>)))"

text \<open>The greedy fill: each unowned shard goes to the first of the workers with the fewest shards.\<close>

definition fill_target ::
  "machine list \<Rightarrow> (machine, nat) jsmap \<times> (machine, shard_id list) jsmap \<Rightarrow> shard_id
   \<Rightarrow> (machine, nat) jsmap \<times> (machine, shard_id list) jsmap" where
  "fill_target ids st s =
     (let (counts, target) = st;
          count = (\<lambda>m. case jm_get counts m of None \<Rightarrow> 0 | Some n \<Rightarrow> n);
          bestId = pick_min count (hd ids) (Some (count (hd ids))) ids;
          list = (case jm_get target bestId of None \<Rightarrow> [] | Some l \<Rightarrow> l)
      in (jm_set counts bestId (count bestId + 1), jm_set target bestId (list @ [s])))"

definition unowned_shards :: "ShardMap \<Rightarrow> shard_id list" where
  "unowned_shards sm =
     filter (\<lambda>s. ownerOf sm s = None \<or> ownerOf sm s = Some []) (shard_range (totalShards sm))"

definition initial_targets :: "ShardMap \<Rightarrow> machine list \<Rightarrow> (machine, shard_id list) jsmap" where
  "initial_targets sm ids = foldl (\<lambda>d m. jm_set d m (shardsFor sm m)) [] ids"

definition initial_counts :: "ShardMap \<Rightarrow> machine list \<Rightarrow> (machine, nat) jsmap" where
  "initial_counts sm ids = foldl (\<lambda>d m. jm_set d m (length (shardsFor sm m))) [] ids"

definition fill_apply ::
  "AssignmentReason \<Rightarrow> bool \<times> cluster \<Rightarrow> machine \<times> shard_id list \<Rightarrow> shard_error + bool \<times> cluster" where
  "fill_apply reason st p =
     (let nxt = js_sort_num (js_uniq (snd p)) in
      if shardsFor (shardMap (snd st)) (fst p) = nxt then Inr st
      else (case apply_assignment reason (snd st) (fst p, nxt) of Inl e \<Rightarrow> Inl e | Inr c \<Rightarrow> Inr (True, c)))"

definition fillUnownedShards :: "AssignmentReason \<Rightarrow> cluster \<Rightarrow> shard_error + bool \<times> cluster" where
  "fillUnownedShards reason c =
     (let ids = map wv_machineId (available c); unowned = unowned_shards (shardMap c) in
      if ids = [] then Inr (False, c)
      else if unowned = [] then Inr (False, c)
      else (let target = snd (foldl (fill_target ids)
                          (initial_counts (shardMap c) ids, initial_targets (shardMap c) ids) unowned)
            in fold_res (fill_apply reason) (False, c) target))"

definition onWorkerJoined :: "cluster \<Rightarrow> shard_error + cluster" where
  "onWorkerJoined c = (case fillUnownedShards Join c of Inl e \<Rightarrow> Inl e | Inr (_, c') \<Rightarrow> Inr c')"

definition owner_snapshot :: "ShardMap \<Rightarrow> (shard_id, machine) jsmap" where
  "owner_snapshot sm =
     foldl (\<lambda>d s. case ownerOf sm s of Some m \<Rightarrow> if m \<noteq> [] then jm_set d s m else d | None \<Rightarrow> d)
       [] (shard_range (totalShards sm))"

definition strategy_input :: "cluster \<Rightarrow> StrategyInput" where
  "strategy_input c =
     \<lparr>si_workers = available c, si_stats = stats c, si_totalShards = totalShards (shardMap c),
      si_owner = owner_snapshot (shardMap c), si_imbalanceThreshold = env_loadImbalanceThreshold (env c),
      si_maxMoves = env_rebalanceMaxMoves (env c), si_minImprovement = env_rebalanceMinImprovement (env c),
      si_weights = env_loadWeights (env c), si_excludeMachineIds = updating c,
      si_manualShards = env_manualShards (env c), si_regionLabelKey = env_regionLabelKey (env c)\<rparr>"

definition cluster_imbalance :: "cluster \<Rightarrow> rat" where
  "cluster_imbalance c =
     computeImbalance (map (\<lambda>w. computeLoadScore (jm_get (stats c) (wv_machineId w)) (env_loadWeights (env c))
                                  (length (shardsFor (shardMap c) (wv_machineId w)))) (available c))"

definition stamp :: "cluster \<Rightarrow> cluster" where
  "stamp c = c\<lparr>lastRunAt := clock c\<rparr>"

definition propose_and_apply :: "cluster \<Rightarrow> shard_error + cluster" where
  "propose_and_apply c =
     (let diff = getStrategy (env_assignmentStrategy (env c)) (strategy_input c) in
      if moves diff = [] then Inr (stamp c)
      else (case fold_res (apply_assignment Rebalance) c (assignments diff) of
              Inl e \<Rightarrow> Inl e
            | Inr c' \<Rightarrow> Inr (stamp c')))"

definition maybeRebalance :: "bool \<Rightarrow> cluster \<Rightarrow> shard_error + cluster" where
  "maybeRebalance force c =
     (if \<not> force \<and> clock c - lastRunAt c < env_rebalanceCooldownMs (env c) then Inr c
      else (case fillUnownedShards (if force then Join else Rebalance) c of
              Inl e \<Rightarrow> Inl e
            | Inr (filled, c1) \<Rightarrow>
                if available c1 = [] then Inr (stamp c1)
                else if \<not> force \<and> cluster_imbalance c1 \<le> env_loadImbalanceThreshold (env c1) then Inr (stamp c1)
                else if length (available c1) < 2 then Inr (stamp c1)
                else propose_and_apply c1))"

subsection \<open>Applying assignments\<close>

definition cluster_ok :: "cluster \<Rightarrow> bool" where
  "cluster_ok c = (control_ok c \<and> mb_ok (membership c))"

lemma apply_assignment_cases:
  assumes "apply_assignment reason c (m, ss) = Inr c'"
  obtains (same) "shardsFor (shardMap c) m = sort ss" "c' = c"
  | (assigned) msg c1 where "shardsFor (shardMap c) m \<noteq> sort ss"
      "assign c m (sort ss) reason True = Inr (msg, c1)"
      "c' = c1\<lparr>membership := bumpGeneration (setWorkerShards (membership c1) m (sort ss)) (Some (generation (shardMap c1)))\<rparr>"
  using assms by (auto simp: apply_assignment_def Let_def js_sort_num_eq split: if_splits sum.splits)

lemma cluster_more:
  fixes c c1 :: cluster
  assumes "control.more c1 = control.more c"
  shows "env c1 = env c" "membership c1 = membership c" "stats c1 = stats c" "updating c1 = updating c"
    "lastRunAt c1 = lastRunAt c"
  using assms by (cases c; cases c1; simp)+

lemma assign_cluster_more:
  "assign c m ss reason q = Inr (msg, c1) \<Longrightarrow> control.more c1 = control.more c"
  using assign_InrD [of c m ss reason q msg c1] by (simp add: assign_post_def Let_def)

lemma apply_assignment_frame:
  assumes "apply_assignment reason c p = Inr c'"
  shows "env c' = env c \<and> stats c' = stats c \<and> updating c' = updating c \<and> lastRunAt c' = lastRunAt c"
proof -
  obtain m ss where p: "p = (m, ss)" by (cases p)
  from assms show ?thesis
    unfolding p
  proof (cases rule: apply_assignment_cases)
    case (assigned msg c1)
    then show ?thesis using cluster_more [OF assign_cluster_more [OF assigned(2)]] by simp
  qed simp
qed

text \<open>The registry keeps its machines: only the shard lists change.\<close>

lemma setWorkerShards_machines: "map wv_machineId (listWorkers (setWorkerShards mb m ss)) = map wv_machineId (listWorkers mb)"
  if "mb_ok mb" for mb
proof -
  have ok': "mb_ok (setWorkerShards mb m ss)"
    unfolding setWorkerShards_def by (rule update_worker_ok [OF that]) simp
  have "jm_keys (workers (setWorkerShards mb m ss)) = jm_keys (workers mb)"
  proof (cases "jm_get (workers mb) m")
    case (Some w)
    then have "m \<in> set (jm_keys (workers mb))" using jm_get_None_iff [of "workers mb" m] by auto
    then have "jm_keys (jm_set (workers mb) m v) = jm_keys (workers mb)" for v
      by (simp add: jm_set_def update_keys)
    then show ?thesis using Some by (simp add: setWorkerShards_def update_worker_def)
  qed (simp add: setWorkerShards_def update_worker_def)
  then show ?thesis using listWorkers_keys [OF that] listWorkers_keys [OF ok'] by simp
qed

lemma bumpGeneration_workers: "workers (bumpGeneration mb n) = workers mb"
  by (simp add: bumpGeneration_def split: option.split)

lemma bump_ok: "mb_ok (bumpGeneration mb n) = mb_ok mb"
  by (simp add: bumpGeneration_def mb_ok_def split: option.split)

lemma apply_assignment_ok:
  assumes "cluster_ok c" and "apply_assignment reason c p = Inr c'"
  shows "cluster_ok c' \<and> map wv_machineId (listWorkers (membership c')) = map wv_machineId (listWorkers (membership c))"
proof -
  obtain m ss where p: "p = (m, ss)" by (cases p)
  from assms(2) show ?thesis
    unfolding p
  proof (cases rule: apply_assignment_cases)
    case (assigned msg c1)
    have mb: "membership c1 = membership c" by (rule cluster_more [OF assign_cluster_more [OF assigned(2)]])
    have ok: "mb_ok (membership c)" "control_ok c1"
      using assms(1) assign_control_ok [OF _ assigned(2)] by (auto simp: cluster_ok_def)
    then have "mb_ok (setWorkerShards (membership c) m (sort ss))"
      by (simp add: setWorkerShards_def update_worker_ok)
    then show ?thesis
      using ok setWorkerShards_machines [OF ok(1), of m "sort ss"]
      by (simp add: cluster_ok_def assigned(3) mb bump_ok listWorkers_def bumpGeneration_workers control_ok_def)
  qed (use assms(1) in simp)
qed

interpretation applier: shard_assigner "\<lambda>c. ownerOf (shardMap c)" "\<lambda>c. generation (shardMap c)"
    "\<lambda>c. totalShards (shardMap c)" cluster_ok "apply_assignment reason"
  for reason
proof
  fix c c' :: cluster and m ss x
  assume ok: "cluster_ok c"
  then have sok: "shardmap_ok (shardMap c)" by (simp add: cluster_ok_def control_ok_def)
  then have wf: "jm_wf (owner (shardMap c))" by (simp add: shardmap_ok_def)
  have range: "\<forall>x \<in> set ss. 0 \<le> x \<and> x < totalShards (shardMap c)" if "shardsFor (shardMap c) m = sort ss"
    using that set_shardsFor [OF wf, of m] shardmap_ok_owners [OF sok] by auto
  show "(\<exists>s'. apply_assignment reason c (m, ss) = Inr s') \<longleftrightarrow> (\<forall>x \<in> set ss. 0 \<le> x \<and> x < totalShards (shardMap c))"
  proof (cases "shardsFor (shardMap c) m = sort ss")
    case True
    then show ?thesis using range by (simp add: apply_assignment_def js_sort_num_eq)
  next
    case False
    have "(\<exists>s'. assign_give reason True c (m, sort ss) = Inr s') \<longleftrightarrow> (\<forall>x \<in> set (sort ss). 0 \<le> x \<and> x < totalShards (shardMap c))"
      by (rule assigner.give_defined [OF sok])
    then show ?thesis
      using False by (cases "assign c m (sort ss) reason True")
        (auto simp: apply_assignment_def js_sort_num_eq assign_give_Inr Let_def)
  qed
  assume a: "apply_assignment reason c (m, ss) = Inr c'"
  show "ownerOf (shardMap c') x = (if x \<in> set ss then Some m
      else if ownerOf (shardMap c) x = Some m then None else ownerOf (shardMap c) x)"
    using a
  proof (cases rule: apply_assignment_cases)
    case same
    then show ?thesis using set_shardsFor [OF wf, of m] by auto
  next
    case (assigned msg c1)
    show ?thesis using ownerOf_assign [OF wf assigned(2), of x] by (simp add: assigned(3))
  qed
  have "generation (shardMap c) \<le> generation (shardMap c') \<and> totalShards (shardMap c') = totalShards (shardMap c)"
    using a
  proof (cases rule: apply_assignment_cases)
    case (assigned msg c1)
    then have "assign_give reason True c (m, sort ss) = Inr c1" by (auto simp: assign_give_Inr)
    from assigner.gen_give [OF sok this] assigner.total_give [OF sok this] show ?thesis
      by (simp add: assigned(3))
  qed simp
  then show "generation (shardMap c) \<le> generation (shardMap c')" "totalShards (shardMap c') = totalShards (shardMap c)"
    by simp_all
  show "cluster_ok c'" using apply_assignment_ok [OF ok a] by simp
qed

interpretation applied: applied_strategy "getStrategy sid" "\<lambda>c. ownerOf (shardMap c)" "\<lambda>c. generation (shardMap c)"
    "\<lambda>c. totalShards (shardMap c)" cluster_ok "apply_assignment reason"
  for sid reason
  by unfold_locales

subsection \<open>Who is told\<close>

lemma announced_membership: "announced (c\<lparr>membership := x\<rparr>) m = announced (c :: cluster) m"
  by (simp add: announced_def told_def)

lemma apply_announced:
  assumes "cluster_ok c" and "apply_assignment reason c (m, ss) = Inr c'"
    and "\<forall>m'. announced c m'" and "\<And>m'. m' \<noteq> m \<Longrightarrow> set ss \<inter> {s. ownerOf (shardMap c) s = Some m'} = {}"
  shows "\<forall>m'. announced c' m'"
  using assms(2)
proof (cases rule: apply_assignment_cases)
  case (assigned msg c1)
  have wf: "jm_wf (owner (shardMap c))" using assms(1) by (simp add: cluster_ok_def control_ok_def shardmap_ok_def)
  have "announced c1 m'" for m'
    using assms(3,4) by (intro assign_announced [OF wf assigned(2)]) (auto simp: set_shardsFor [OF wf])
  then show ?thesis by (simp add: assigned(3) announced_membership)
qed (use assms(3) in simp)

text \<open>A loop in which no list takes a shard from another machine keeps everyone informed.\<close>

lemma fold_announced:
  assumes "cluster_ok c" and "fold_res (apply_assignment reason) c as = Inr c'" and "distinct (map fst as)"
    and "\<And>m ss m' ss'. (m, ss) \<in> set as \<Longrightarrow> (m', ss') \<in> set as \<Longrightarrow> m \<noteq> m' \<Longrightarrow> set ss \<inter> set ss' = {}"
    and "\<And>m ss m'. (m, ss) \<in> set as \<Longrightarrow> m' \<noteq> m \<Longrightarrow> set ss \<inter> {s. ownerOf (shardMap c) s = Some m'} = {}"
    and "\<forall>m. announced c m"
  shows "\<forall>m. announced c' m"
  using assms
proof (induction as arbitrary: c)
  case (Cons a as)
  obtain m ss where a: "a = (m, ss)" by (cases a)
  obtain t where t: "apply_assignment reason c (m, ss) = Inr t" "fold_res (apply_assignment reason) t as = Inr c'"
    using Cons.prems(2) unfolding a by (rule fold_res_ConsE)
  have own: "ownerOf (shardMap t) x = (if x \<in> set ss then Some m
      else if ownerOf (shardMap c) x = Some m then None else ownerOf (shardMap c) x)" for x
    by (rule applier.own_give [OF Cons.prems(1) t(1)])
  show ?case
  proof (rule Cons.IH [OF _ t(2)])
    show "cluster_ok t" by (rule applier.ok_give [OF Cons.prems(1) t(1)])
    show "distinct (map fst as)" using Cons.prems(3) by simp
    show "set l \<inter> set l' = {}" if "(k, l) \<in> set as" "(k', l') \<in> set as" "k \<noteq> k'" for k l k' l'
      using Cons.prems(4) [of k l k' l'] that by simp
    show "\<forall>m. announced t m"
      by (rule apply_announced [OF Cons.prems(1) t(1) Cons.prems(6)]) (rule Cons.prems(5), simp_all add: a)
    show "set l \<inter> {s. ownerOf (shardMap t) s = Some k'} = {}" if l: "(k, l) \<in> set as" and ne: "k' \<noteq> k" for k l k'
    proof -
      have "k \<noteq> m" using Cons.prems(3) l by (force simp: a)
      then have "set l \<inter> set ss = {}" using Cons.prems(4) [of k l m ss] l by (simp add: a)
      moreover have "set l \<inter> {s. ownerOf (shardMap c) s = Some k'} = {}"
        by (rule Cons.prems(5) [OF _ ne]) (simp add: l)
      ultimately show ?thesis by (auto simp: own)
    qed
  qed
qed simp

subsection \<open>Filling\<close>

lemma fill_apply_eq:
  "map_sum id snd (fill_apply reason (b, c) p) = apply_assignment reason c (fst p, js_uniq (snd p))"
  by (auto simp: fill_apply_def apply_assignment_def Let_def js_sort_num_eq sorted_sort_id
      split: sum.split)

lemma fold_fill_apply_eq:
  "map_sum id snd (fold_res (fill_apply reason) (b, c) t) =
     fold_res (apply_assignment reason) c (map (\<lambda>p. (fst p, js_uniq (snd p))) t)"
proof (induction t arbitrary: b c)
  case (Cons p t)
  note eq = fill_apply_eq [of reason b c p, symmetric]
  show ?case
  proof (cases "fill_apply reason (b, c) p")
    case (Inr r)
    then show ?thesis using Cons.IH [of "fst r" "snd r"] by (simp add: eq)
  qed (simp add: eq)
qed simp

definition targets_inv ::
  "ShardMap \<Rightarrow> machine list \<Rightarrow> (machine, shard_id list) jsmap \<Rightarrow> (shard_id \<Rightarrow> machine) \<Rightarrow> shard_id list \<Rightarrow> bool" where
  "targets_inv sm ids target f given =
     (jm_wf target \<and> (\<forall>s \<in> set given. f s \<in> set ids) \<and>
      (\<forall>m. jm_get target m = None \<longleftrightarrow> m \<notin> set ids) \<and>
      (\<forall>m l. jm_get target m = Some l \<longrightarrow> set l = set (shardsFor sm m) \<union> {s \<in> set given. f s = m}))"

lemma put_each_get: "jm_get (foldl (\<lambda>d m. jm_set d m (g m)) d ids) m = (if m \<in> set ids then Some (g m) else jm_get d m)"
  by (induction ids arbitrary: d) auto

lemma put_each_wf: "jm_wf d \<Longrightarrow> jm_wf (foldl (\<lambda>d m. jm_set d m (g m)) d ids)"
  by (induction ids arbitrary: d) auto

lemma initial_targets_inv: "targets_inv sm ids (initial_targets sm ids) f []"
  by (simp add: targets_inv_def initial_targets_def put_each_get put_each_wf)

lemma fill_target_inv:
  assumes "targets_inv sm ids target f given" and "ids \<noteq> []" and "s \<notin> set given"
  shows "\<exists>m. targets_inv sm ids (snd (fill_target ids (counts, target) s)) (f(s := m)) (given @ [s])"
proof -
  let ?count = "\<lambda>m. case jm_get counts m of None \<Rightarrow> 0 | Some n \<Rightarrow> n"
  define best where "best = pick_min ?count (hd ids) (Some (?count (hd ids))) ids"
  have best: "best \<in> set ids"
    using pick_min_in [of ?count "hd ids" "Some (?count (hd ids))" ids] assms(2) by (auto simp: best_def)
  obtain l where l: "jm_get target best = Some l"
    using assms(1) best by (cases "jm_get target best") (auto simp: targets_inv_def)
  have "snd (fill_target ids (counts, target) s) = jm_set target best (l @ [s])"
    by (simp add: fill_target_def Let_def best_def [symmetric] l)
  then have "targets_inv sm ids (snd (fill_target ids (counts, target) s)) (f(s := best)) (given @ [s])"
    using assms(1,3) best l by (auto simp: targets_inv_def)
  then show ?thesis by blast
qed

lemma foldl_fill_target_inv:
  assumes "targets_inv sm ids target f given" and "ids \<noteq> []" and "distinct (given @ ss)"
  shows "\<exists>g. targets_inv sm ids (snd (foldl (fill_target ids) (counts, target) ss)) g (given @ ss)"
  using assms
proof (induction ss arbitrary: counts target f given)
  case (Cons s ss)
  obtain f' where m: "targets_inv sm ids (snd (fill_target ids (counts, target) s)) f' (given @ [s])"
    using fill_target_inv [OF Cons.prems(1,2), of s counts] Cons.prems(3) by auto
  obtain counts' target' where ft: "fill_target ids (counts, target) s = (counts', target')"
    by (cases "fill_target ids (counts, target) s")
  show ?case
    using Cons.IH [of target' f' "given @ [s]" counts'] m Cons.prems(2,3) by (simp add: ft)
qed auto

text \<open>What a fill leaves: owned shards stay, unowned ones go to available workers, everyone is told.\<close>

definition named :: "ShardMap \<Rightarrow> bool" where
  "named sm = (\<forall>s. ownerOf sm s \<noteq> Some [])"

definition fill_post :: "cluster \<Rightarrow> cluster \<Rightarrow> bool" where
  "fill_post c c' =
     (cluster_ok c' \<and> totalShards (shardMap c') = totalShards (shardMap c) \<and>
      (\<forall>s m. ownerOf (shardMap c) s = Some m \<longrightarrow> ownerOf (shardMap c') s = Some m) \<and>
      (\<forall>s m. ownerOf (shardMap c') s = Some m \<longrightarrow> ownerOf (shardMap c) s = Some m \<or>
         m \<in> wv_machineId ` set (available c)) \<and>
      (available c \<noteq> [] \<longrightarrow> (\<forall>s. 0 \<le> s \<and> s < totalShards (shardMap c) \<longrightarrow> ownerOf (shardMap c') s \<noteq> None)) \<and>
      ((\<forall>m. announced c m) \<longrightarrow> (\<forall>m. announced c' m)) \<and>
      env c' = env c \<and> stats c' = stats c \<and> updating c' = updating c \<and>
      map wv_machineId (listWorkers (membership c')) = map wv_machineId (listWorkers (membership c)))"

lemma fold_apply_frame:
  assumes "cluster_ok c" "fold_res (apply_assignment reason) c as = Inr c'"
  shows "env c' = env c \<and> stats c' = stats c \<and> updating c' = updating c \<and>
    map wv_machineId (listWorkers (membership c')) = map wv_machineId (listWorkers (membership c)) \<and> cluster_ok c'"
proof (rule fold_res_invariant [OF assms(2)])
  fix t x t'
  assume a: "apply_assignment reason t x = Inr t'" and
    i: "env t = env c \<and> stats t = stats c \<and> updating t = updating c \<and>
      map wv_machineId (listWorkers (membership t)) = map wv_machineId (listWorkers (membership c)) \<and> cluster_ok t"
  show "env t' = env c \<and> stats t' = stats c \<and> updating t' = updating c \<and>
      map wv_machineId (listWorkers (membership t')) = map wv_machineId (listWorkers (membership c)) \<and> cluster_ok t'"
    using apply_assignment_frame [OF a] apply_assignment_ok [OF _ a] i by simp
qed (use assms(1) in simp)

lemma unowned_named: "named sm \<Longrightarrow> set (unowned_shards sm) = {s. 0 \<le> s \<and> s < totalShards sm \<and> ownerOf sm s = None}"
  by (auto simp: unowned_shards_def set_shard_range named_def)

lemma distinct_unowned: "distinct (unowned_shards sm)"
  by (auto simp: unowned_shards_def shard_range_def distinct_map inj_on_def)

lemma map_sum_snd_Inr: "map_sum id snd x = Inr c' \<Longrightarrow> \<exists>b. x = Inr (b, c')"
  by (cases x) auto

lemma fill_done:
  assumes ok: "cluster_ok c" and nm: "named (shardMap c)"
  shows "\<exists>b c'. fillUnownedShards reason c = Inr (b, c') \<and> fill_post c c'"
proof (cases "available c = [] \<or> unowned_shards (shardMap c) = []")
  case True
  then have "fillUnownedShards reason c = Inr (False, c)"
    by (auto simp: fillUnownedShards_def Let_def)
  moreover have "fill_post c c"
    using True ok unowned_named [OF nm] by (auto simp: fill_post_def)
  ultimately show ?thesis by blast
next
  case False
  let ?sm = "shardMap c" and ?ids = "map wv_machineId (available c)" and ?un = "unowned_shards (shardMap c)"
  have sok: "shardmap_ok ?sm" using ok by (simp add: cluster_ok_def control_ok_def)
  then have wf: "jm_wf (owner ?sm)" by (simp add: shardmap_ok_def)
  define target where "target = snd (foldl (fill_target ?ids) (initial_counts ?sm ?ids, initial_targets ?sm ?ids) ?un)"
  obtain f where f: "targets_inv ?sm ?ids target f ?un"
    using foldl_fill_target_inv [OF initial_targets_inv [of ?sm ?ids "\<lambda>_. []"], of ?un "initial_counts ?sm ?ids"]
      False distinct_unowned [of ?sm]
    by (auto simp: target_def)
  define as where "as = map (\<lambda>p. (fst p, js_uniq (snd p))) target"
  have jw: "jm_wf target" using f by (simp add: targets_inv_def)
  have keys: "map fst as = jm_keys target" by (simp add: as_def comp_def)
  then have dist: "distinct (map fst as)" using jw by (simp add: jm_wf_def)
  have get: "m \<in> set ?ids \<and> (x \<in> set ss \<longleftrightarrow> ownerOf ?sm x = Some m \<or> x \<in> set ?un \<and> f x = m)"
    if asm: "(m, ss) \<in> set as" for m ss x
  proof -
    obtain l where l: "(m, l) \<in> set target" "set ss = set l" using asm by (auto simp: as_def)
    then have "jm_get target m = Some l" using jm_get_Some_iff [OF jw] by simp
    moreover from this have "m \<in> set ?ids" using f by (metis option.distinct(1) targets_inv_def)
    ultimately show ?thesis using f l(2) by (auto simp: targets_inv_def set_shardsFor [OF wf])
  qed
  have mem: "\<exists>ss. (m, ss) \<in> set as" if "m \<in> set ?ids" for m
  proof -
    have "jm_get target m \<noteq> None" using f that by (simp add: targets_inv_def)
    then have "m \<in> set (map fst as)" unfolding keys by (simp add: jm_get_None_iff)
    then show ?thesis by auto
  qed
  have rg: "0 \<le> x \<and> x < totalShards ?sm" if "(m, ss) \<in> set as" "x \<in> set ss" for m ss x
    using get [OF that(1)] that(2) shardmap_ok_owners [OF sok] unowned_named [OF nm] by auto
  have disj: "set ss \<inter> set ss' = {}" if "(m, ss) \<in> set as" "(m', ss') \<in> set as" "m \<noteq> m'" for m ss m' ss'
    using get [OF that(1)] get [OF that(2)] that(3) unowned_named [OF nm] by auto
  obtain c' where c': "fold_res (apply_assignment reason) c as = Inr c'"
    using applier.give_all_defined [OF ok, of as reason] rg by blast
  have eq: "fillUnownedShards reason c = fold_res (fill_apply reason) (False, c) target"
    using False by (simp add: fillUnownedShards_def Let_def target_def)
  have sum: "map_sum id snd (fold_res (fill_apply reason) (False, c) target) = Inr c'"
    unfolding fold_fill_apply_eq as_def [symmetric] by (rule c')
  obtain b where b: "fillUnownedShards reason c = Inr (b, c')"
    using map_sum_snd_Inr [OF sum] unfolding eq by blast
  have own: "ownerOf (shardMap c') x = Some m \<longleftrightarrow> x \<in> set ss" if "(m, ss) \<in> set as" for m ss x
    by (rule applier.own_give_all [OF ok c' dist disj that])
  have other: "ownerOf (shardMap c') x = Some m \<longleftrightarrow> ownerOf ?sm x = Some m" if m: "m \<notin> set ?ids" for m x
  proof -
    have "m \<notin> fst ` set as" 
    proof
      assume "m \<in> fst ` set as"
      then obtain ss where "(m, ss) \<in> set as" by auto
      from get [OF this, of 0] m show False by simp
    qed
    then have "ownerOf (shardMap c') x = Some m \<longleftrightarrow> ownerOf ?sm x = Some m \<and> (\<forall>(m', ss) \<in> set as. x \<notin> set ss)"
      by (rule applier.own_give_all_other [OF ok c'])
    moreover have "x \<notin> set ss" if "ownerOf ?sm x = Some m" "(m', ss) \<in> set as" for m' ss
      using get [OF that(2), of x] that(1) m unowned_named [OF nm] by auto
    ultimately show ?thesis by auto
  qed
  have keep: "ownerOf (shardMap c') x = Some m" if held: "ownerOf ?sm x = Some m" for x m
  proof (cases "m \<in> set ?ids")
    case True
    then obtain ss where ss: "(m, ss) \<in> set as" using mem by blast
    show ?thesis using own [OF ss, of x] get [OF ss, of x] held by simp
  qed (use other held in simp)
  have gain: "ownerOf ?sm x = Some m \<or> m \<in> set ?ids" if "ownerOf (shardMap c') x = Some m" for x m
    using other that by blast
  have full: "ownerOf (shardMap c') x \<noteq> None" if "0 \<le> x" "x < totalShards ?sm" for x
  proof (cases "ownerOf ?sm x")
    case None
    then have x: "x \<in> set ?un" using that unowned_named [OF nm] by simp
    then have "f x \<in> set ?ids" using f by (simp add: targets_inv_def)
    then obtain ss where ss: "(f x, ss) \<in> set as" using mem by blast
    then have "x \<in> set ss" using get [OF ss, of x] x by simp
    then show ?thesis using own [OF ss, of x] by simp
  qed (use keep in simp)
  have tell: "\<forall>m. announced c' m" if "\<forall>m. announced c m"
  proof (rule fold_announced [OF ok c' dist disj _ that])
    show "set ss \<inter> {s. ownerOf (shardMap c) s = Some m'} = {}" if "(m, ss) \<in> set as" "m' \<noteq> m" for m ss m'
      using get [OF that(1)] that(2) unowned_named [OF nm] by auto
  qed
  have "totalShards (shardMap c') = totalShards ?sm" using applier.give_all_frame [OF ok c'] by simp
  then have "fill_post c c'"
    using keep gain full tell fold_apply_frame [OF ok c'] by (auto simp: fill_post_def)
  then show ?thesis using b by blast
qed

subsection \<open>Proposing and applying\<close>

lemma owner_snapshot_get:
  assumes "shardmap_ok sm" "named sm"
  shows "jm_get (owner_snapshot sm) s = ownerOf sm s"
proof -
  let ?f = "\<lambda>d s. case ownerOf sm s of Some m \<Rightarrow> if m \<noteq> [] then jm_set d s m else d | None \<Rightarrow> d"
  have "jm_get (foldl ?f d ss) s = (if s \<in> set ss \<and> ownerOf sm s \<noteq> None then ownerOf sm s else jm_get d s)" for d ss
  proof (induction ss arbitrary: d)
    case (Cons x ss)
    then show ?case using assms(2) by (auto simp: named_def split: option.split)
  qed simp
  then show ?thesis
    using shardmap_ok_owners [OF assms(1), of s]
    by (cases "ownerOf sm s") (auto simp: owner_snapshot_def set_shard_range)
qed

lemma owner_snapshot_wf: "jm_wf (owner_snapshot sm)"
proof -
  let ?f = "\<lambda>d s. case ownerOf sm s of Some m \<Rightarrow> if m \<noteq> [] then jm_set d s m else d | None \<Rightarrow> d"
  have "jm_wf d \<Longrightarrow> jm_wf (foldl ?f d ss)" for d ss
    by (induction ss arbitrary: d) (auto split: option.split)
  then show ?thesis by (simp add: owner_snapshot_def)
qed

lemma strategy_input_ok:
  assumes "shardmap_ok (shardMap c)" "named (shardMap c)"
  shows "input_ok (strategy_input c)"
  using shardmap_ok_owners [OF assms(1)] owner_snapshot_get [OF assms]
  unfolding input_ok_def set_jm_keys by (auto simp: strategy_input_def owner_snapshot_wf)

lemma eligible_strategy_input: "eligible_ids (strategy_input c) = map wv_machineId (available c)"
  by (simp add: eligible_ids_def eligible_workers_def strategy_input_def available_def)

lemma stamp_simps [simp]:
  "env (stamp c) = env c" "updating (stamp c) = updating c"
  "shardMap (stamp c) = shardMap c" "membership (stamp c) = membership c" "cluster_ok (stamp c) = cluster_ok c"
  "announced (stamp c) m = announced c m" "named (shardMap (stamp c)) = named (shardMap c)"
  by (simp_all add: stamp_def cluster_ok_def control_ok_def announced_def told_def)

lemma propose_and_apply_done:
  assumes ok: "cluster_ok c" and nm: "named (shardMap c)"
  shows "\<exists>c'. propose_and_apply c = Inr c' \<and> cluster_ok c' \<and> totalShards (shardMap c') = totalShards (shardMap c) \<and>
    env c' = env c \<and> updating c' = updating c \<and>
    map wv_machineId (listWorkers (membership c')) = map wv_machineId (listWorkers (membership c)) \<and>
    (let d = getStrategy (env_assignmentStrategy (env c)) (strategy_input c) in
     if moves d = [] then shardMap c' = shardMap c
     else (\<forall>(m, ss) \<in> set (assignments d). \<forall>s. ownerOf (shardMap c') s = Some m \<longleftrightarrow> s \<in> set ss) \<and>
       (\<forall>s. 0 \<le> s \<and> s < totalShards (shardMap c) \<longrightarrow>
         (\<exists>m. ownerOf (shardMap c') s = Some m \<and>
           (m \<in> wv_machineId ` set (available c) \<or> ownerOf (shardMap c) s = Some m))))"
proof -
  let ?inp = "strategy_input c" and ?sid = "env_assignmentStrategy (env c)"
  define d where "d = getStrategy ?sid ?inp"
  have sok: "shardmap_ok (shardMap c)" using ok by (simp add: cluster_ok_def control_ok_def)
  have inp: "input_ok ?inp" by (rule strategy_input_ok [OF sok nm])
  have tot: "si_totalShards ?inp = totalShards (shardMap c)" by (simp add: strategy_input_def)
  show ?thesis
  proof (cases "moves d = []")
    case True
    then show ?thesis using ok by (simp add: propose_and_apply_def Let_def d_def [symmetric])
  next
    case False
    obtain c' where c': "fold_res (apply_assignment Rebalance) c (assignments d) = Inr c'"
      using applied.apply_defined [OF ok inp tot [symmetric], of Rebalance ?sid] by (auto simp: d_def)
    have own: "\<forall>s. ownerOf (shardMap c') s = Some m \<longleftrightarrow> s \<in> set ss" if "(m, ss) \<in> set (assignments d)" for m ss
      using applied.apply_owner [OF ok inp c' [unfolded d_def] that [unfolded d_def]] by blast
    have cov: "\<exists>m. ownerOf (shardMap c') s = Some m \<and>
        (m \<in> wv_machineId ` set (available c) \<or> ownerOf (shardMap c) s = Some m)"
      if "0 \<le> s" "s < totalShards (shardMap c)" for s
      using applied.apply_covers [OF ok inp c' [unfolded d_def] False [unfolded d_def], of s] that tot
        owner_snapshot_get [OF sok nm]
      by (simp add: eligible_strategy_input) (simp add: strategy_input_def)
    have "propose_and_apply c = Inr (stamp c')"
      using False c' by (simp add: propose_and_apply_def Let_def d_def [symmetric])
    then show ?thesis
      using own cov False applier.give_all_frame [OF ok c'] fold_apply_frame [OF ok c']
      by (simp add: Let_def d_def [symmetric]) auto
  qed
qed

text \<open>One cycle, with everything later proofs need of it.\<close>

lemma maybeRebalance_done:
  assumes ok: "cluster_ok c" and nm: "named (shardMap c)" and ne: "\<forall>w \<in> set (available c). wv_machineId w \<noteq> []"
  shows "\<exists>c'. maybeRebalance force c = Inr c' \<and> cluster_ok c' \<and> env c' = env c \<and> updating c' = updating c \<and>
    map wv_machineId (listWorkers (membership c')) = map wv_machineId (listWorkers (membership c)) \<and>
    totalShards (shardMap c') = totalShards (shardMap c) \<and>
    (\<not> force \<and> clock c - lastRunAt c < env_rebalanceCooldownMs (env c) \<longrightarrow> c' = c) \<and>
    (\<forall>s m. ownerOf (shardMap c') s = Some m \<longrightarrow>
       m \<in> wv_machineId ` set (available c) \<or> ownerOf (shardMap c) s = Some m) \<and>
    (force \<or> clock c - lastRunAt c \<ge> env_rebalanceCooldownMs (env c) \<longrightarrow> available c \<noteq> [] \<longrightarrow>
      (\<forall>s. 0 \<le> s \<and> s < totalShards (shardMap c) \<longrightarrow> ownerOf (shardMap c') s \<noteq> None))"
proof (cases "\<not> force \<and> clock c - lastRunAt c < env_rebalanceCooldownMs (env c)")
  case True
  then show ?thesis using ok by (auto simp: maybeRebalance_def)
next
  case False
  obtain b c1 where f: "fillUnownedShards (if force then Join else Rebalance) c = Inr (b, c1)" and post: "fill_post c c1"
    using fill_done [OF ok nm] by blast
  have ok1: "cluster_ok c1" and tot1: "totalShards (shardMap c1) = totalShards (shardMap c)"
    using post by (simp_all add: fill_post_def)
  have gain1: "ownerOf (shardMap c) s = Some m \<or> m \<in> wv_machineId ` set (available c)"
    if "ownerOf (shardMap c1) s = Some m" for s m
    using post that unfolding fill_post_def by blast
  then have nm1: "named (shardMap c1)"
    using nm ne by (fastforce simp: named_def)
  have filter_ids: "map wv_machineId (available d) = filter (\<lambda>m. m \<notin> set (updating d)) (map wv_machineId (listWorkers (membership d)))"
    for d by (simp add: available_def filter_map comp_def)
  have ids1: "map wv_machineId (available c1) = map wv_machineId (available c)"
    using post by (simp add: filter_ids fill_post_def)
  then have avail1: "wv_machineId ` set (available c1) = wv_machineId ` set (available c)"
    by (metis list.set_map)
  have full1: "\<exists>m. ownerOf (shardMap c1) s = Some m" if "available c \<noteq> []" "0 \<le> s" "s < totalShards (shardMap c)" for s
    using post that by (auto simp: fill_post_def)
  obtain c2 where c2: "propose_and_apply c1 = Inr c2" "cluster_ok c2" "env c2 = env c1" "updating c2 = updating c1"
      "map wv_machineId (listWorkers (membership c2)) = map wv_machineId (listWorkers (membership c1))"
      "totalShards (shardMap c2) = totalShards (shardMap c1)"
    and moved: "shardMap c2 = shardMap c1 \<or> (\<forall>s. 0 \<le> s \<and> s < totalShards (shardMap c1) \<longrightarrow>
         (\<exists>m. ownerOf (shardMap c2) s = Some m \<and>
           (m \<in> wv_machineId ` set (available c1) \<or> ownerOf (shardMap c1) s = Some m)))"
    using propose_and_apply_done [OF ok1 nm1] by (auto simp: Let_def split: if_splits)
  have run: "maybeRebalance force c = (if available c1 = [] then Inr (stamp c1)
      else if \<not> force \<and> cluster_imbalance c1 \<le> env_loadImbalanceThreshold (env c1) then Inr (stamp c1)
      else if length (available c1) < 2 then Inr (stamp c1) else propose_and_apply c1)"
    by (simp only: maybeRebalance_def if_not_P [OF False] f sum.case prod.case)
  then consider "maybeRebalance force c = Inr (stamp c1)" | "maybeRebalance force c = Inr c2"
    using c2(1) by (auto split: if_splits)
  then show ?thesis
  proof cases
    case 1
    have "cluster_ok (stamp c1) \<and> env (stamp c1) = env c \<and> updating (stamp c1) = updating c \<and>
        map wv_machineId (listWorkers (membership (stamp c1))) = map wv_machineId (listWorkers (membership c))"
      using post ok1 by (simp add: fill_post_def)
    then show ?thesis using 1 False full1 gain1 tot1 by (intro exI [of _ "stamp c1"]) auto
  next
    case 2
    have own: "m \<in> wv_machineId ` set (available c) \<or> ownerOf (shardMap c) s = Some m"
      if o: "ownerOf (shardMap c2) s = Some m" for s m
    proof -
      have r: "0 \<le> s \<and> s < totalShards (shardMap c1)"
        using shardmap_ok_owners [OF _ o] c2(2,6) by (simp add: cluster_ok_def control_ok_def)
      from moved have "m \<in> wv_machineId ` set (available c1) \<or> ownerOf (shardMap c1) s = Some m"
      proof
        assume "shardMap c2 = shardMap c1"
        then show ?thesis using o by simp
      next
        assume "\<forall>s. 0 \<le> s \<and> s < totalShards (shardMap c1) \<longrightarrow> (\<exists>m. ownerOf (shardMap c2) s = Some m \<and>
           (m \<in> wv_machineId ` set (available c1) \<or> ownerOf (shardMap c1) s = Some m))"
        with r obtain k where "ownerOf (shardMap c2) s = Some k"
          "k \<in> wv_machineId ` set (available c1) \<or> ownerOf (shardMap c1) s = Some k" by blast
        then show ?thesis using o by simp
      qed
      then show ?thesis using gain1 unfolding avail1 by blast
    qed
    have "ownerOf (shardMap c2) s \<noteq> None" if "available c \<noteq> []" "0 \<le> s" "s < totalShards (shardMap c)" for s
      using moved full1 [OF that] that(2,3) unfolding tot1 by auto
    moreover have "env c2 = env c \<and> updating c2 = updating c \<and>
        map wv_machineId (listWorkers (membership c2)) = map wv_machineId (listWorkers (membership c))"
      using c2(3-5) post by (simp add: fill_post_def)
    ultimately show ?thesis using 2 False own c2(2,6) tot1 by (intro exI [of _ c2]) auto
  qed
qed

subsection \<open>Properties\<close>

text \<open>
  A worker that joins, and every cycle that runs, completes without an exception; filling never moves an
  owned shard, gives every unowned shard to a worker that is not being updated, and leaves every machine
  knowing exactly what it owns if that was so before.
\<close>

theorem onWorkerJoined_fills:
  assumes "cluster_ok c" and "named (shardMap c)"
  shows "\<exists>c'. onWorkerJoined c = Inr c' \<and> cluster_ok c' \<and>
    (\<forall>s m. ownerOf (shardMap c) s = Some m \<longrightarrow> ownerOf (shardMap c') s = Some m) \<and>
    (available c \<noteq> [] \<longrightarrow> (\<forall>s. 0 \<le> s \<and> s < totalShards (shardMap c) \<longrightarrow>
       (\<exists>m. ownerOf (shardMap c') s = Some m \<and>
          (ownerOf (shardMap c) s = None \<longrightarrow> m \<in> wv_machineId ` set (available c))))) \<and>
    ((\<forall>m. announced c m) \<longrightarrow> (\<forall>m. announced c' m))"
proof -
  obtain b c' where f: "fillUnownedShards Join c = Inr (b, c')" and post: "fill_post c c'"
    using fill_done [OF assms] by blast
  have "onWorkerJoined c = Inr c'" by (simp add: onWorkerJoined_def f)
  then show ?thesis using post by (fastforce simp: fill_post_def)
qed

text \<open>
  C4. A rebalance cycle that runs alone while Redis accepts every command, on a consistent cluster
  (\<open>cluster_ok\<close>) in which no owner and no available worker has the empty identifier, does not throw, and
  when it runs with a worker available every shard is owned afterwards, by an available worker or by the
  machine that owned it before.  Outside its cooldown it always runs, and when forced it ignores the cooldown.
\<close>

theorem maybeRebalance_covers:
  assumes ok: "cluster_ok c" and nm: "named (shardMap c)" and "\<forall>w \<in> set (available c). wv_machineId w \<noteq> []"
  shows "\<exists>c'. maybeRebalance force c = Inr c' \<and> cluster_ok c' \<and>
    (\<not> force \<and> clock c - lastRunAt c < env_rebalanceCooldownMs (env c) \<longrightarrow> c' = c) \<and>
    (force \<or> clock c - lastRunAt c \<ge> env_rebalanceCooldownMs (env c) \<longrightarrow> available c \<noteq> [] \<longrightarrow>
      (\<forall>s. 0 \<le> s \<and> s < totalShards (shardMap c) \<longrightarrow>
        (\<exists>m. ownerOf (shardMap c') s = Some m \<and>
          (m \<in> wv_machineId ` set (available c) \<or> ownerOf (shardMap c) s = Some m))))"
proof -
  from maybeRebalance_done [OF assms, of force]
  obtain c' where c': "maybeRebalance force c = Inr c'" "cluster_ok c'"
    and cool: "\<not> force \<and> clock c - lastRunAt c < env_rebalanceCooldownMs (env c) \<longrightarrow> c' = c"
    and own: "\<forall>s m. ownerOf (shardMap c') s = Some m \<longrightarrow>
       m \<in> wv_machineId ` set (available c) \<or> ownerOf (shardMap c) s = Some m"
    and full: "force \<or> clock c - lastRunAt c \<ge> env_rebalanceCooldownMs (env c) \<longrightarrow> available c \<noteq> [] \<longrightarrow>
      (\<forall>s. 0 \<le> s \<and> s < totalShards (shardMap c) \<longrightarrow> ownerOf (shardMap c') s \<noteq> None)"
    by (elim exE conjE) (rule that)
  have "\<exists>m. ownerOf (shardMap c') s = Some m \<and> (m \<in> wv_machineId ` set (available c) \<or> ownerOf (shardMap c) s = Some m)"
    if "ownerOf (shardMap c') s \<noteq> None" for s
    using own that by auto
  then show ?thesis using c'(1,2) cool full by (intro exI [of _ c'] conjI) simp_all
qed

definition demo_env :: "StrategyId \<Rightarrow> (machine, shard_id list) jsmap \<Rightarrow> CrossHostEnv" where
  "demo_env sid manual = \<lparr>env_heartbeatMs = 5000, env_suspectAfter = 3, env_deadGraceMs = 10000,
     env_rebalanceCooldownMs = 60000, env_loadImbalanceThreshold = 1 / 2, env_rebalanceMaxMoves = 1,
     env_rebalanceMinImprovement = 1 / 10, env_assignmentStrategy = sid, env_regionLabelKey = ''region'',
     env_maxConcurrentUpdates = 1, env_loadWeights = demo_weights, env_manualShards = manual\<rparr>"

definition demo_cluster :: "CrossHostEnv \<Rightarrow> (machine \<times> shard_id list) list \<Rightarrow> cluster" where
  "demo_cluster e given =
     \<lparr>shardMap = \<lparr>generation = 3, totalShards = 4, owner = concat (map (\<lambda>p. map (\<lambda>s. (s, fst p)) (snd p)) given),
        sm_prefix = ''p''\<rparr>,
      identifyQueue = new_IdentifyQueue 1 True ''p'' (\<lambda>n. ''g''), clock = 0,
      sent = map (\<lambda>p. Publish ''p'' (M_assign \<lparr>au_generation = (if fst p = ''a'' then 2 else 3), au_machineId = fst p,
        au_shards = snd p, au_totalShards = 4, au_reason = Join\<rparr>)) given,
      env = e,
      membership = \<lparr>workers = [(''a'', demo_worker ''a''), (''b'', demo_worker ''b'')], challenges = [],
        mb_generation = 3, mb_snapshotVersion = 0, mb_totalShards = 4,
        mb_desiredState = \<lparr>ds_zeneVersion = ''1.0.0'', ds_plugins = []\<rparr>, mb_config = demo_config\<rparr>,
      stats = [], updating = [], lastRunAt = 0\<rparr>"

lemma demo_workers_get:
  "jm_get [(''a'', demo_worker ''a''), (''b'', demo_worker ''b'')] m =
     (if m = ''a'' then Some (demo_worker ''a'') else if m = ''b'' then Some (demo_worker ''b'') else None)"
  by (auto simp: jm_get_def)

lemma demo_cluster_ok:
  "cluster_ok (demo_cluster e [(''b'', [0, 1, 2, 3])])"
  "named (shardMap (demo_cluster e [(''b'', [0, 1, 2, 3])]))"
  "\<forall>m. announced (demo_cluster e [(''b'', [0, 1, 2, 3])]) m"
  "cluster_ok (demo_cluster e [(''a'', [0, 1]), (''b'', [2, 3])])"
  by (auto simp: cluster_ok_def control_ok_def shardmap_ok_def demo_cluster_def mb_ok_def jm_wf_def demo_workers_get
      demo_worker_def named_def ownerOf_def jm_get_def announced_def told_def shardsFor_def js_sort_num_eq split: if_splits)

theorem onWorkerJoined_fills_witness:
  "\<exists>c'. onWorkerJoined (demo_cluster (demo_env LeastLoaded []) [(''b'', [0, 1, 2, 3])]) = Inr c' \<and>
     ownerOf (shardMap c') 3 = Some ''b''"
  using onWorkerJoined_fills [OF demo_cluster_ok(1,2), of "demo_env LeastLoaded []"]
  by (auto simp: demo_cluster_def ownerOf_def jm_get_def)

theorem maybeRebalance_covers_witness:
  "\<exists>c'. maybeRebalance True (demo_cluster (demo_env LeastLoaded []) [(''b'', [0, 1, 2, 3])]) = Inr c' \<and>
     ownerOf (shardMap c') 3 \<noteq> None"
proof -
  let ?c = "demo_cluster (demo_env LeastLoaded []) [(''b'', [0, 1, 2, 3])]"
  have av: "available ?c = [demo_worker ''a'', demo_worker ''b'']" "totalShards (shardMap ?c) = 4"
    by (simp_all add: available_def listWorkers_def demo_cluster_def)
  obtain c' where "maybeRebalance True ?c = Inr c'" and
    cov: "\<forall>s. 0 \<le> s \<and> s < 4 \<longrightarrow> (\<exists>m. ownerOf (shardMap c') s = Some m \<and>
      (m \<in> wv_machineId ` set (available ?c) \<or> ownerOf (shardMap ?c) s = Some m))"
    using maybeRebalance_covers [OF demo_cluster_ok(1,2), of "demo_env LeastLoaded []" True]
    by (auto simp: av demo_worker_def)
  moreover have "ownerOf (shardMap c') 3 \<noteq> None" using cov [rule_format, of 3] by auto
  ultimately show ?thesis by blast
qed

text \<open>
  C5. A rebalance that moves a shard from a machine listed after the recipient tells only the recipient: when
  the donor's turn comes the shard map already shows its reduced list, so no message is sent, and the
  donor, which knew exactly what it owned before, still believes it runs the shard.
\<close>

theorem rebalance_stale_donor:
  "\<exists>c c'. cluster_ok c \<and> (\<forall>m. announced c m) \<and> maybeRebalance True c = Inr c' \<and>
     ownerOf (shardMap c') 3 = Some ''a'' \<and> 3 \<in> set (told c' ''a'') \<and> 3 \<in> set (told c' ''b'')"
proof -
  let ?c = "demo_cluster (demo_env LeastLoaded []) [(''b'', [0, 1, 2, 3])]"
  have "case maybeRebalance True ?c of Inl e \<Rightarrow> False
     | Inr c' \<Rightarrow> ownerOf (shardMap c') 3 = Some ''a'' \<and> 3 \<in> set (told c' ''a'') \<and> 3 \<in> set (told c' ''b'')"
    by code_simp
  then show ?thesis
    using demo_cluster_ok(1,3) [of "demo_env LeastLoaded []"]
    by (cases "maybeRebalance True ?c") auto
qed

text \<open>
  The manual overlay is not applied unless the least-loaded strategy happens to move something: when the
  pinned ownership is already within the imbalance threshold, a cycle leaves the shard map as it is,
  whatever shards the operator pinned to other machines.
\<close>

theorem manual_overlay_ignored:
  assumes "env_assignmentStrategy (env c) = ManualS"
    and "validateManualOverlay (env_manualShards (env c)) (totalShards (shardMap c)) (map wv_machineId (available c)) = Inr ov"
    and "let inp = (strategy_input c)\<lparr>si_owner := seed_owner (si_owner (strategy_input c)) ov\<rparr> in
      imbalance_of inp (eligible_ids inp) (fill inp (eligible_ids inp)) \<le> env_loadImbalanceThreshold (env c)"
  shows "propose_and_apply c = Inr (stamp c)"
proof -
  let ?inp = "(strategy_input c)\<lparr>si_owner := seed_owner (si_owner (strategy_input c)) ov\<rparr>"
  have "move_loop n ?inp (eligible_ids ?inp) (fill ?inp (eligible_ids ?inp)) [] 0 = (fill ?inp (eligible_ids ?inp), [])" for n
    using assms(3) by (cases n) (simp_all add: Let_def strategy_input_def)
  then have "moves (leastLoaded_propose ?inp) = []"
    by (simp add: leastLoaded_propose_def Let_def)
  moreover have "manual_propose (strategy_input c) = leastLoaded_propose ?inp"
    using assms(2) by (simp add: manual_propose_def eligible_strategy_input) (simp add: strategy_input_def)
  ultimately show ?thesis
    by (simp add: propose_and_apply_def getStrategy_def assms(1))
qed

definition pinned_cluster :: cluster where
  "pinned_cluster = demo_cluster (demo_env ManualS [(''a'', [2]), (''b'', [0])]) [(''a'', [0, 1]), (''b'', [2, 3])]"

theorem manual_overlay_ignored_witness:
  "propose_and_apply pinned_cluster = Inr (stamp pinned_cluster) \<and> ownerOf (shardMap (stamp pinned_cluster)) 2 = Some ''b''"
proof -
  have v: "validateManualOverlay (env_manualShards (env pinned_cluster)) (totalShards (shardMap pinned_cluster))
      (map wv_machineId (available pinned_cluster)) = Inr [(2, ''a''), (0, ''b'')]"
    by code_simp
  have i: "let inp = (strategy_input pinned_cluster)\<lparr>si_owner := seed_owner (si_owner (strategy_input pinned_cluster)) [(2, ''a''), (0, ''b'')]\<rparr> in
      imbalance_of inp (eligible_ids inp) (fill inp (eligible_ids inp)) \<le> env_loadImbalanceThreshold (env pinned_cluster)"
    by code_simp
  have "env_assignmentStrategy (env pinned_cluster) = ManualS" "ownerOf (shardMap pinned_cluster) 2 = Some ''b''"
    by code_simp+
  then show ?thesis using manual_overlay_ignored [OF _ v i] by simp
qed

end
