(* ===== verification/Updates.thy ===== *)
theory Updates
  imports Rebalance
begin

text \<open>
  \<open>src/core/crosshost/orchestrator/updateController.ts\<close>: rolling updates.  \<open>runOne\<close> is split where it
  awaits: it starts, then polls until the worker is drained, then waits for the acknowledgement or its
  timeout.  The runs in progress are the records \<open>draining\<close> and \<open>pendingAcks\<close>; \<open>up_step\<close> lets timers,
  acknowledgements, ticks and other activity of the orchestrator happen in any order.  The Redis round trip
  of the drain assignment is not an interleaving point.
\<close>

subsection \<open>State and operations\<close>

record drain_run =
  dr_machine :: machine
  dr_start :: int
  dr_desired :: DesiredState

record pending_ack =
  pa_instructId :: string
  pa_machine :: machine
  pa_deadline :: int

record update_state = cluster +
  draining :: "drain_run list"
  pendingAcks :: "pending_ack list"

definition cluster_of :: "update_state \<Rightarrow> cluster" where
  "cluster_of u = cluster.truncate u"

definition workerNeedsUpdate :: "Membership \<Rightarrow> machine \<Rightarrow> DesiredState \<Rightarrow> bool" where
  "workerNeedsUpdate mb m desired =
     (case find (\<lambda>w. wv_machineId w = m) (listWorkers mb) of
        None \<Rightarrow> False
      | Some w \<Rightarrow>
          if wv_zeneVersion w \<noteq> ds_zeneVersion desired then True
          else (let want = js_uniq (map pluginKey (ds_plugins desired)); got = js_uniq (map pluginKey (wv_plugins w)) in
                if length want \<noteq> length got then True
                else (\<exists>k \<in> set want. k \<notin> set got)))"

definition drained :: "cluster \<Rightarrow> machine \<Rightarrow> bool" where
  "drained c m =
     (shardsFor (shardMap c) m = [] \<and>
      (case find (\<lambda>w. wv_machineId w = m) (listWorkers (membership c)) of None \<Rightarrow> True | Some w \<Rightarrow> wv_shards w = []))"

definition set_add :: "'a list \<Rightarrow> 'a \<Rightarrow> 'a list" where
  "set_add xs x = (if x \<in> set xs then xs else xs @ [x])"

definition finish_update :: "update_state \<Rightarrow> machine \<Rightarrow> update_state" where
  "finish_update u m = u\<lparr>updating := filter (\<lambda>x. x \<noteq> m) (updating u)\<rparr>"

definition send_instruct :: "update_state \<Rightarrow> string \<Rightarrow> drain_run \<Rightarrow> update_state" where
  "send_instruct u iid d =
     (let msg = \<lparr>ui_machineId = dr_machine d, ui_generation = generation (shardMap u),
                 ui_desiredState = dr_desired d, ui_instructId = iid\<rparr>
      in u\<lparr>sent := sent u @ [Publish (channelUpdateInstruct (sm_prefix (shardMap u))) (M_instruct msg)],
           pendingAcks := pendingAcks u @
             [\<lparr>pa_instructId = iid, pa_machine = dr_machine d, pa_deadline = clock u + 600000\<rparr>]\<rparr>)"

text \<open>One poll of \<open>waitUntilDrained\<close>: instruct, give up after two minutes, or poll again later.\<close>

definition poll_drain :: "update_state \<Rightarrow> string \<Rightarrow> drain_run \<Rightarrow> update_state" where
  "poll_drain u iid d =
     (let u1 = u\<lparr>draining := remove1 d (draining u)\<rparr> in
      if drained (cluster_of u) (dr_machine d) then send_instruct u1 iid d
      else if clock u - dr_start d > 120000 then finish_update u1 (dr_machine d)
      else u\<lparr>draining := remove1 d (draining u) @ [d]\<rparr>)"

definition runOne :: "update_state \<Rightarrow> string \<Rightarrow> machine \<Rightarrow> DesiredState \<Rightarrow> update_state" where
  "runOne u iid m desired =
     (let u1 = u\<lparr>updating := set_add (updating u) m\<rparr> in
      case assign u1 m [] Drain True of
        Inl e \<Rightarrow> finish_update u1 m
      | Inr (_, u2) \<Rightarrow>
          (let u3 = u2\<lparr>membership := setWorkerShards (membership u2) m []\<rparr>;
               d = \<lparr>dr_machine = m, dr_start = clock u3, dr_desired = desired\<rparr>
           in poll_drain (u3\<lparr>draining := draining u3 @ [d]\<rparr>) iid d))"

definition tick_selected :: "update_state \<Rightarrow> machine list" where
  "tick_selected u =
     (let desired = mb_desiredState (membership u);
          candidates = filter (\<lambda>w. workerNeedsUpdate (membership u) (wv_machineId w) desired)
                         (filter (\<lambda>w. wv_machineId w \<notin> set (updating u)) (listWorkers (membership u)));
          slots = env_maxConcurrentUpdates (env u) - int (length (updating u))
      in if slots \<le> 0 \<or> candidates = [] then [] else map wv_machineId (take (nat slots) candidates))"

definition tick :: "update_state \<Rightarrow> (machine \<Rightarrow> string) \<Rightarrow> update_state" where
  "tick u ids = foldl (\<lambda>v m. runOne v (ids m) m (mb_desiredState (membership u))) u (tick_selected u)"

definition on_ack :: "update_state \<Rightarrow> UpdateAckMessage \<Rightarrow> update_state" where
  "on_ack u ack =
     (case find (\<lambda>p. pa_instructId p = ua_instructId ack) (pendingAcks u) of
        None \<Rightarrow> u
      | Some p \<Rightarrow> finish_update (u\<lparr>pendingAcks := remove1 p (pendingAcks u)\<rparr>) (pa_machine p))"

definition ack_timeout :: "update_state \<Rightarrow> pending_ack \<Rightarrow> update_state" where
  "ack_timeout u p =
     (if p \<in> set (pendingAcks u) \<and> clock u \<ge> pa_deadline p
      then finish_update (u\<lparr>pendingAcks := remove1 p (pendingAcks u)\<rparr>) (pa_machine p) else u)"

text \<open>
  Steps of the controller, and of the rest of the orchestrator, which may change anything but the
  controller's own runs and the set of machines being updated.  Instruct ids are 12 random bytes, taken
  here to be fresh.
\<close>

definition fresh_id :: "update_state \<Rightarrow> string \<Rightarrow> bool" where
  "fresh_id u iid = (iid \<notin> pa_instructId ` set (pendingAcks u))"

inductive up_step :: "update_state \<Rightarrow> update_state \<Rightarrow> bool" where
  up_tick: "inj_on ids (set (tick_selected u)) \<Longrightarrow> \<forall>m \<in> set (tick_selected u). fresh_id u (ids m) \<Longrightarrow> up_step u (tick u ids)"
| up_poll: "d \<in> set (draining u) \<Longrightarrow> fresh_id u iid \<Longrightarrow> up_step u (poll_drain u iid d)"
| up_ack: "up_step u (on_ack u ack)"
| up_timeout: "up_step u (ack_timeout u p)"
| up_other: "updating v = updating u \<Longrightarrow> draining v = draining u \<Longrightarrow> pendingAcks v = pendingAcks u \<Longrightarrow>
     env v = env u \<Longrightarrow> mb_ok (membership v) \<Longrightarrow> up_step u v"

subsection \<open>One run\<close>

lemma assign_nothing:
  "assign c m [] r q =
     Inr (assignment_message (assign_owners (shardMap c) m []) m [] r,
          publish_assignment (c\<lparr>shardMap := assign_owners (shardMap c) m []\<rparr>)
            (assignment_message (assign_owners (shardMap c) m []) m [] r))"
  by (simp add: assign_def js_uniq_def js_sort_num_eq Let_def)

definition drain_assigned :: "update_state \<Rightarrow> machine \<Rightarrow> update_state" where
  "drain_assigned u m =
     (let sm = assign_owners (shardMap u) m []
      in u\<lparr>updating := set_add (updating u) m, shardMap := sm, sent := sent u @ [Publish (channelAssignmentUpdate (sm_prefix sm))
             (M_assign (assignment_message sm m [] Drain))],
           membership := setWorkerShards (membership u) m []\<rparr>)"

lemma runOne_drain_assigned:
  "runOne u iid m desired =
     (let d = \<lparr>dr_machine = m, dr_start = clock u, dr_desired = desired\<rparr>
      in poll_drain (drain_assigned u m\<lparr>draining := draining u @ [d]\<rparr>) iid d)"
  by (simp add: runOne_def assign_nothing Let_def drain_assigned_def publish_assignment_def)

lemma listWorkers_find:
  assumes "mb_ok mb"
  shows "find (\<lambda>w. wv_machineId w = m) (listWorkers mb) = jm_get (workers mb) m"
proof -
  have ids: "wv_machineId (snd p) = fst p" if "p \<in> set (workers mb)" for p
    using that assms jm_get_Some_iff [of "workers mb" "fst p" "snd p"] by (auto simp: mb_ok_def)
  then have "find (\<lambda>w. wv_machineId w = m) (map snd ws) = map_of ws m" if "set ws \<subseteq> set (workers mb)" for ws
    using that by (induction ws) auto
  then show ?thesis by (simp add: listWorkers_def jm_get_def)
qed

lemma drain_assigned_drained:
  assumes "jm_wf (owner (shardMap u))" "mb_ok (membership u)"
  shows "drained (cluster_of (drain_assigned u m\<lparr>draining := ds\<rparr>)) m"
proof -
  have "shardsFor (assign_owners (shardMap u) m []) m = []"
    using ownerOf_assign_owners [OF assms(1), of m "[]"] set_shardsFor [OF assign_owners_frame(4) [OF assms(1)], of m "[]" m]
    by (auto split: if_splits)
  moreover have ok: "mb_ok (setWorkerShards (membership u) m [])"
    unfolding setWorkerShards_def by (rule update_worker_ok [OF assms(2)]) simp
  moreover have "find (\<lambda>w. wv_machineId w = m) (listWorkers (setWorkerShards (membership u) m [])) =
      map_option (\<lambda>w. w\<lparr>wv_shards := []\<rparr>) (jm_get (workers (membership u)) m)"
    unfolding listWorkers_find [OF ok] by (simp add: setWorkerShards_def update_worker_def split: option.split)
  ultimately show ?thesis
    by (simp add: drained_def cluster_of_def drain_assigned_def Let_def cluster.truncate_def split: option.split)
qed

text \<open>
  Draining does not wait for the worker: starting an update empties the machine's entry in both the
  map and the registry, so the first poll already finds it drained.  The drain assignment and the update
  instruction leave back to back, whatever the worker still runs, and the machine's shards have no owner.
\<close>

theorem runOne_instructs_at_once:
  assumes "shardmap_ok (shardMap u)" "mb_ok (membership u)"
  shows "let u' = runOne u iid m desired; g = generation (shardMap u) + 1; p = sm_prefix (shardMap u) in
     sent u' = sent u @
       [Publish (channelAssignmentUpdate p) (M_assign \<lparr>au_generation = g, au_machineId = m, au_shards = [],
          au_totalShards = totalShards (shardMap u), au_reason = Drain\<rparr>),
        Publish (channelUpdateInstruct p) (M_instruct \<lparr>ui_machineId = m, ui_generation = g,
          ui_desiredState = desired, ui_instructId = iid\<rparr>)] \<and>
     (\<forall>s. ownerOf (shardMap u') s = (if ownerOf (shardMap u) s = Some m then None else ownerOf (shardMap u) s)) \<and>
     m \<in> set (updating u') \<and>
     pendingAcks u' = pendingAcks u @ [\<lparr>pa_instructId = iid, pa_machine = m, pa_deadline = clock u + 600000\<rparr>]"
proof -
  let ?d = "\<lparr>dr_machine = m, dr_start = clock u, dr_desired = desired\<rparr>"
  let ?v = "drain_assigned u m\<lparr>draining := draining u @ [?d]\<rparr>"
  have wf: "jm_wf (owner (shardMap u))" using assms(1) by (simp add: shardmap_ok_def)
  have "drained (cluster_of ?v) m" by (rule drain_assigned_drained [OF wf assms(2)])
  then have run: "runOne u iid m desired = send_instruct (?v\<lparr>draining := remove1 ?d (draining ?v)\<rparr>) iid ?d"
    by (simp add: runOne_drain_assigned Let_def poll_drain_def)
  show ?thesis
    by (simp add: run Let_def send_instruct_def drain_assigned_def assign_owners_frame assignment_message_def
        ownerOf_assign_owners [OF wf] set_add_def)
qed

subsection \<open>The updates in progress\<close>

definition runs :: "update_state \<Rightarrow> machine list" where
  "runs u = map dr_machine (draining u) @ map pa_machine (pendingAcks u)"

definition up_ok :: "update_state \<Rightarrow> bool" where
  "up_ok u = (mb_ok (membership u) \<and> distinct (updating u) \<and> mset (runs u) = mset (updating u))"

lemma mset_finish: "distinct xs \<Longrightarrow> {#x \<in># mset xs. x \<noteq> m#} = mset xs - {#m#}"
  by (rule multiset_eqI) (simp add: distinct_count_atmost_1)

lemma up_ok_runs_member: "up_ok u \<Longrightarrow> set (updating u) = set (runs u)"
  unfolding up_ok_def by (metis set_mset_mset)

lemma finish_update_ok:
  assumes "up_ok u" "membership v = membership u" "updating v = updating u" "mset (runs v) = mset (runs u) - {#m#}"
  shows "up_ok (finish_update v m)"
  using assms by (simp add: up_ok_def finish_update_def runs_def mset_finish)

lemma poll_drain_ok:
  assumes ok: "up_ok u" and d: "d \<in> set (draining u)"
  shows "up_ok (poll_drain u iid d)" "length (updating (poll_drain u iid d)) \<le> length (updating u)"
    "env (poll_drain u iid d) = env u"
proof -
  have m: "mset (map dr_machine (remove1 d (draining u))) = mset (map dr_machine (draining u)) - {#dr_machine d#}"
    and i: "dr_machine d \<in># mset (map dr_machine (draining u))"
    using d by (simp_all add: image_mset_Diff)
  have up: "dr_machine d \<in># mset (updating u)"
    using up_ok_runs_member [OF ok] d by (simp add: runs_def)
  have "up_ok (finish_update (u\<lparr>draining := remove1 d (draining u)\<rparr>) (dr_machine d))"
    by (rule finish_update_ok [OF ok]) (use m i in \<open>simp_all add: runs_def\<close>)
  moreover have "up_ok (send_instruct (u\<lparr>draining := remove1 d (draining u)\<rparr>) iid d)"
    using ok m i up by (simp add: up_ok_def runs_def send_instruct_def Let_def)
  moreover have "up_ok (u\<lparr>draining := remove1 d (draining u) @ [d]\<rparr>)"
    using ok m i up by (simp add: up_ok_def runs_def)
  ultimately show "up_ok (poll_drain u iid d)"
    by (simp add: poll_drain_def Let_def)
qed (simp_all add: poll_drain_def send_instruct_def finish_update_def Let_def)

lemma runOne_ok:
  assumes ok: "up_ok u" and new: "m \<notin> set (updating u)"
  shows "up_ok (runOne u iid m desired)" "length (updating (runOne u iid m desired)) \<le> length (updating u) + 1"
    "env (runOne u iid m desired) = env u" "set (updating (runOne u iid m desired)) \<subseteq> insert m (set (updating u))"
proof -
  let ?d = "\<lparr>dr_machine = m, dr_start = clock u, dr_desired = desired\<rparr>"
  let ?v = "drain_assigned u m\<lparr>draining := draining u @ [?d]\<rparr>"
  have "mb_ok (setWorkerShards (membership u) m [])"
    unfolding setWorkerShards_def using ok by (intro update_worker_ok) (simp_all add: up_ok_def)
  then have v: "up_ok ?v" "updating ?v = updating u @ [m]" "env ?v = env u"
    using ok new by (simp_all add: up_ok_def runs_def drain_assigned_def Let_def set_add_def)
  have run: "runOne u iid m desired = poll_drain ?v iid ?d" by (simp add: runOne_drain_assigned Let_def)
  have d: "?d \<in> set (draining ?v)" by simp
  show "up_ok (runOne u iid m desired)" "length (updating (runOne u iid m desired)) \<le> length (updating u) + 1"
    "env (runOne u iid m desired) = env u"
    using poll_drain_ok [OF v(1) d, of iid] unfolding run v(2,3) by simp_all
  show "set (updating (runOne u iid m desired)) \<subseteq> insert m (set (updating u))"
    using v(2) unfolding run by (auto simp: poll_drain_def send_instruct_def finish_update_def Let_def)
qed

lemma runOnes_ok:
  assumes "up_ok u" "distinct ms" "set ms \<inter> set (updating u) = {}"
  shows "let v = foldl (\<lambda>v m. runOne v (ids m) m desired) u ms in
     up_ok v \<and> length (updating v) \<le> length (updating u) + length ms \<and> env v = env u"
  using assms
proof (induction ms arbitrary: u)
  case (Cons m ms)
  let ?w = "runOne u (ids m) m desired"
  have new: "m \<notin> set (updating u)" using Cons.prems by simp
  note w = runOne_ok [OF Cons.prems(1) new, of "ids m" desired]
  have "set ms \<inter> set (updating ?w) = {}" using w(4) Cons.prems by fastforce
  then show ?case using Cons.IH [OF w(1)] Cons.prems w(2,3) by (simp add: Let_def)
qed simp

lemma tick_selected_facts:
  assumes "mb_ok (membership u)"
  shows "distinct (tick_selected u)" "set (tick_selected u) \<inter> set (updating u) = {}"
    "tick_selected u = [] \<or> int (length (updating u)) + int (length (tick_selected u)) \<le> env_maxConcurrentUpdates (env u)"
proof -
  have "distinct (map wv_machineId (listWorkers (membership u)))"
    by (rule listWorkers_distinct [OF assms])
  then show "distinct (tick_selected u)"
    by (simp add: tick_selected_def Let_def take_map [symmetric] distinct_map_filter)
  show "set (tick_selected u) \<inter> set (updating u) = {}"
    by (auto simp: tick_selected_def Let_def dest: in_set_takeD)
  show "tick_selected u = [] \<or> int (length (updating u)) + int (length (tick_selected u)) \<le> env_maxConcurrentUpdates (env u)"
    by (auto simp: tick_selected_def Let_def)
qed

definition up_bound :: "update_state \<Rightarrow> bool" where
  "up_bound u = (int (length (updating u)) \<le> max 0 (env_maxConcurrentUpdates (env u)))"

lemma tick_ok:
  assumes "up_ok u" "up_bound u"
  shows "up_ok (tick u ids)" "up_bound (tick u ids)" "env (tick u ids) = env u"
proof -
  have "mb_ok (membership u)" using assms(1) by (simp add: up_ok_def)
  note f = tick_selected_facts [OF this]
  note r = runOnes_ok [OF assms(1) f(1,2), of ids "mb_desiredState (membership u)", folded tick_def, unfolded Let_def]
  show "up_ok (tick u ids)" "env (tick u ids) = env u" using r by simp_all
  show "up_bound (tick u ids)" using r f(3) assms(2) by (auto simp: up_bound_def)
qed

lemma ack_removed_ok:
  assumes ok: "up_ok u" and p: "p \<in> set (pendingAcks u)"
  shows "up_ok (finish_update (u\<lparr>pendingAcks := remove1 p (pendingAcks u)\<rparr>) (pa_machine p))"
  by (rule finish_update_ok [OF ok]) (use p in \<open>simp_all add: runs_def image_mset_Diff\<close>)

lemma up_step_ok:
  assumes "up_step u v" "up_ok u" "up_bound u"
  shows "up_ok v \<and> up_bound v \<and> env v = env u"
  using assms
proof (cases rule: up_step.cases)
  case (up_tick ids)
  then show ?thesis using tick_ok assms by simp
next
  case (up_poll d iid)
  then show ?thesis using poll_drain_ok [OF assms(2), of d iid] assms(3) by (auto simp: up_bound_def)
next
  case (up_ack ack)
  then show ?thesis
    using ack_removed_ok [OF assms(2)] assms(2,3)
    by (auto simp: on_ack_def up_bound_def finish_update_def find_Some_iff intro: length_filter_bound split: option.splits)
next
  case (up_timeout p)
  then show ?thesis
    using ack_removed_ok [OF assms(2)] assms(2,3)
    by (auto simp: ack_timeout_def up_bound_def finish_update_def intro: length_filter_bound)
next
  case up_other
  then show ?thesis using assms by (simp add: up_ok_def up_bound_def runs_def)
qed

text \<open>
  C31. However ticks, polls, acknowledgements and timeouts interleave with the rest of the orchestrator, the
  machines marked as updating are exactly those with a run in progress, each with one run, and there are
  never more of them than the configured maximum.
\<close>

theorem updates_bounded:
  assumes "up_step\<^sup>*\<^sup>* u v" "updating u = []" "draining u = []" "pendingAcks u = []" "mb_ok (membership u)"
    "0 \<le> env_maxConcurrentUpdates (env u)"
  shows "int (length (updating v)) \<le> env_maxConcurrentUpdates (env u) \<and> distinct (updating v) \<and>
     mset (updating v) = mset (map dr_machine (draining v)) + mset (map pa_machine (pendingAcks v))"
proof -
  have "up_ok v \<and> up_bound v \<and> env v = env u"
    using assms(1)
  proof induction
    case base
    then show ?case using assms by (simp add: up_ok_def up_bound_def runs_def)
  next
    case (step v w)
    then show ?case using up_step_ok by metis
  qed
  then show ?thesis using assms(6) by (auto simp: up_ok_def up_bound_def runs_def)
qed

subsection \<open>A concrete run\<close>

definition demo_updates :: update_state where
  "demo_updates =
     (let c = demo_cluster (demo_env LeastLoaded []) [(''a'', [0, 1]), (''b'', [2, 3])]
      in cluster.extend (c\<lparr>membership := membership c
             \<lparr>mb_desiredState := \<lparr>ds_zeneVersion = ''2.0.0'', ds_plugins = []\<rparr>\<rparr>\<rparr>)
           (update_state.fields [] []))"

lemma demo_updates_ok: "shardmap_ok (shardMap demo_updates)" "mb_ok (membership demo_updates)"
  using demo_cluster_ok(4) [of "demo_env LeastLoaded []"]
  by (simp_all add: demo_updates_def Let_def cluster_ok_def control_ok_def mb_ok_def cluster.extend_def update_state.fields_def)

theorem runOne_instructs_at_once_witness:
  "shardsFor (shardMap demo_updates) ''a'' = [0, 1] \<and>
   published_assigns (sent (runOne demo_updates ''i'' ''a'' \<lparr>ds_zeneVersion = ''2.0.0'', ds_plugins = []\<rparr>)) =
     published_assigns (sent demo_updates) @
       [\<lparr>au_generation = 4, au_machineId = ''a'', au_shards = [], au_totalShards = 4, au_reason = Drain\<rparr>]"
proof -
  have v: "generation (shardMap demo_updates) = 3" "totalShards (shardMap demo_updates) = 4"
    "shardsFor (shardMap demo_updates) ''a'' = [0, 1]"
    by code_simp+
  then show ?thesis
    using runOne_instructs_at_once [OF demo_updates_ok, of "''i''" "''a''" "\<lparr>ds_zeneVersion = ''2.0.0'', ds_plugins = []\<rparr>"]
    by (simp add: Let_def)
qed

theorem updates_bounded_witness:
  "up_step\<^sup>*\<^sup>* demo_updates (tick demo_updates (\<lambda>m. m)) \<and>
   updating (tick demo_updates (\<lambda>m. m)) = [''a''] \<and>
   int (length (updating (tick demo_updates (\<lambda>m. m)))) \<le> 1"
proof -
  have v: "updating demo_updates = []" "draining demo_updates = []" "pendingAcks demo_updates = []"
    "env_maxConcurrentUpdates (env demo_updates) = 1" "updating (tick demo_updates (\<lambda>m. m)) = [''a'']"
    by code_simp+
  have r: "up_step\<^sup>*\<^sup>* demo_updates (tick demo_updates (\<lambda>m. m))"
    by (rule r_into_rtranclp, rule up_tick) (simp_all add: fresh_id_def v)
  then show ?thesis
    using updates_bounded [OF r v(1-3) demo_updates_ok(2)] v by simp
qed

end
