(* ===== verification/RebalanceRun.thy ===== *)
theory RebalanceRun
  imports Rebalance
begin

text \<open>
  \<open>src/core/crosshost/orchestrator/rebalance.ts\<close>, a run of \<open>maybeRebalance\<close> cut where the code awaits: after
  each assignment, whose commands Redis may reject (\<open>redis_answer\<close>), and after the fill.  Between two
  steps other runs and other operations may change the cluster.  The grants of one assignment are one step
  with it.  \<open>run_alone\<close> shows that a run that nothing interrupts is \<open>maybeRebalance\<close>.
\<close>

subsection \<open>The steps of a run\<close>

text \<open>Where a run waits: for the assignment of a machine, with the rest of the loop, or after the fill.\<close>

datatype rebalance_pc =
    Rb_fill "machine \<times> shard_id list" "(machine \<times> shard_id list) list"
  | Rb_filled
  | Rb_apply "machine \<times> shard_id list" "(machine \<times> shard_id list) list"
  | Rb_done
  | Rb_failed shard_error

definition settle_assignment :: "cluster \<Rightarrow> machine \<times> shard_id list \<Rightarrow> cluster" where
  "settle_assignment c p =
     c\<lparr>membership := bumpGeneration (setWorkerShards (membership c) (fst p) (snd p)) (Some (generation (shardMap c)))\<rparr>"

text \<open>The loop up to its next await: machines that already have their list are skipped.\<close>

fun next_assignment ::
  "AssignmentReason \<Rightarrow> redis_answer \<Rightarrow> cluster \<Rightarrow> (machine \<times> shard_id list) list
   \<Rightarrow> cluster \<times> (shard_error + (machine \<times> shard_id list) \<times> (machine \<times> shard_id list) list) option" where
  "next_assignment reason ans c [] = (c, None)"
| "next_assignment reason ans c (p # ps) =
     (if shardsFor (shardMap c) (fst p) = snd p then next_assignment reason ans c ps
      else (case assign_redis ans c (fst p) (snd p) reason True of
              (Inl e, c1) \<Rightarrow> (c1, Some (Inl e))
            | (Inr _, c1) \<Rightarrow> (c1, Some (Inr (p, ps)))))"

definition fill_list :: "cluster \<Rightarrow> (machine \<times> shard_id list) list" where
  "fill_list c =
     (let ids = map wv_machineId (available c); unowned = unowned_shards (shardMap c) in
      if ids = [] \<or> unowned = [] then []
      else map (\<lambda>p. (fst p, js_sort_num (js_uniq (snd p))))
             (snd (foldl (fill_target ids) (initial_counts (shardMap c) ids, initial_targets (shardMap c) ids) unowned)))"

definition rb_fill :: "bool \<Rightarrow> redis_answer \<Rightarrow> cluster \<Rightarrow> (machine \<times> shard_id list) list \<Rightarrow> cluster \<times> rebalance_pc" where
  "rb_fill force ans c todo =
     (case next_assignment (if force then Join else Rebalance) ans c todo of
        (c1, None) \<Rightarrow> (c1, Rb_filled)
      | (c1, Some (Inl e)) \<Rightarrow> (c1, Rb_failed e)
      | (c1, Some (Inr (p, ps))) \<Rightarrow> (c1, Rb_fill p ps))"

definition rb_apply :: "redis_answer \<Rightarrow> cluster \<Rightarrow> (machine \<times> shard_id list) list \<Rightarrow> cluster \<times> rebalance_pc" where
  "rb_apply ans c todo =
     (case next_assignment Rebalance ans c todo of
        (c1, None) \<Rightarrow> (stamp c1, Rb_done)
      | (c1, Some (Inl e)) \<Rightarrow> (c1, Rb_failed e)
      | (c1, Some (Inr (p, ps))) \<Rightarrow> (c1, Rb_apply p ps))"

definition rb_start :: "bool \<Rightarrow> redis_answer \<Rightarrow> cluster \<Rightarrow> cluster \<times> rebalance_pc" where
  "rb_start force ans c =
     (if \<not> force \<and> clock c - lastRunAt c < env_rebalanceCooldownMs (env c) then (c, Rb_done)
      else rb_fill force ans c (fill_list c))"

definition rb_decide :: "bool \<Rightarrow> redis_answer \<Rightarrow> cluster \<Rightarrow> cluster \<times> rebalance_pc" where
  "rb_decide force ans c =
     (if available c = [] then (stamp c, Rb_done)
      else if \<not> force \<and> cluster_imbalance c \<le> env_loadImbalanceThreshold (env c) then (stamp c, Rb_done)
      else if length (available c) < 2 then (stamp c, Rb_done)
      else (let diff = getStrategy (env_assignmentStrategy (env c)) (strategy_input c) in
            if moves diff = [] then (stamp c, Rb_done)
            else rb_apply ans c (map (\<lambda>p. (fst p, js_sort_num (snd p))) (assignments diff))))"

fun rb_step :: "bool \<Rightarrow> redis_answer \<Rightarrow> cluster \<times> rebalance_pc \<Rightarrow> cluster \<times> rebalance_pc" where
  "rb_step force ans (c, Rb_fill p ps) = rb_fill force ans (settle_assignment c p) ps"
| "rb_step force ans (c, Rb_filled) = rb_decide force ans c"
| "rb_step force ans (c, Rb_apply p ps) = rb_apply ans (settle_assignment c p) ps"
| "rb_step force ans (c, Rb_done) = (c, Rb_done)"
| "rb_step force ans (c, Rb_failed e) = (c, Rb_failed e)"

subsection \<open>A run that nothing interrupts\<close>

definition sorted_lists :: "(machine \<times> shard_id list) list \<Rightarrow> bool" where
  "sorted_lists todo = (\<forall>p \<in> set todo. sorted (snd p))"

lemma apply_assignment_sort: "apply_assignment reason c (m, sort ss) = apply_assignment reason c (m, ss)"
  by (simp add: apply_assignment_def js_sort_num_eq sorted_sort_id)

lemma fold_apply_sort:
  "fold_res (apply_assignment reason) c (map (\<lambda>p. (fst p, js_sort_num (snd p))) as) = fold_res (apply_assignment reason) c as"
  by (induction as arbitrary: c) (auto simp: js_sort_num_eq apply_assignment_sort split: sum.split)

lemma next_assignment_ok:
  assumes "next_assignment reason Redis_ok c todo = (c1, r)" "sorted_lists todo"
  shows "fold_res (apply_assignment reason) c todo =
    (case r of None \<Rightarrow> Inr c1 | Some (Inl e) \<Rightarrow> Inl e
     | Some (Inr (p, ps)) \<Rightarrow> fold_res (apply_assignment reason) (settle_assignment c1 p) ps) \<and>
    (\<forall>p ps. r = Some (Inr (p, ps)) \<longrightarrow> length ps < length todo \<and> sorted_lists ps)"
  using assms
proof (induction todo)
  case (Cons q todo)
  obtain m ss where q: "q = (m, ss)" by (cases q)
  have srt: "sort ss = ss" "sorted_lists todo" using Cons.prems(2) by (simp_all add: sorted_lists_def q sorted_sort_id)
  show ?case
  proof (cases "shardsFor (shardMap c) m = ss")
    case True
    then have "next_assignment reason Redis_ok c todo = (c1, r)" using Cons.prems(1) by (simp add: q)
    moreover have "apply_assignment reason c q = Inr c" using True srt by (simp add: q apply_assignment_def js_sort_num_eq)
    ultimately show ?thesis using Cons.IH srt(2) by (auto simp: less_Suc_eq)
  next
    case False
    show ?thesis
    proof (cases "assign c m ss reason True")
      case (Inl e)
      then have "apply_assignment reason c q = Inl e" using False srt by (simp add: q apply_assignment_def js_sort_num_eq)
      then show ?thesis using Cons.prems(1) False Inl by (auto simp: q assign_redis_ok)
    next
      case (Inr x)
      then obtain msg c2 where x: "assign c m ss reason True = Inr (msg, c2)" by (cases x) simp
      then have "apply_assignment reason c q = Inr (settle_assignment c2 q)"
        using False srt by (simp add: q apply_assignment_def js_sort_num_eq settle_assignment_def)
      then show ?thesis using Cons.prems(1) False x srt by (auto simp: q assign_redis_ok)
    qed
  qed
qed simp

definition rb_iter :: "bool \<Rightarrow> nat \<Rightarrow> cluster \<times> rebalance_pc \<Rightarrow> cluster \<times> rebalance_pc" where
  "rb_iter force n st = (rb_step force Redis_ok ^^ n) st"

lemma rb_iter_step: "rb_iter force n (rb_step force Redis_ok st) = rb_iter force (Suc n) st"
  by (simp add: rb_iter_def funpow_swap1)

lemma rb_iter_add: "rb_iter force n (rb_iter force m st) = rb_iter force (n + m) st"
  by (simp add: rb_iter_def funpow_add)

lemma rb_fill_alone:
  assumes "sorted_lists todo"
  shows "\<exists>n. case fold_res (apply_assignment (if force then Join else Rebalance)) c todo of
    Inr c' \<Rightarrow> rb_iter force n (rb_fill force Redis_ok c todo) = (c', Rb_filled)
  | Inl e \<Rightarrow> snd (rb_iter force n (rb_fill force Redis_ok c todo)) = Rb_failed e"
  using assms
proof (induction "length todo" arbitrary: c todo rule: less_induct)
  case less
  obtain c1 r where r: "next_assignment (if force then Join else Rebalance) Redis_ok c todo = (c1, r)" by fastforce
  note f = next_assignment_ok [OF r less.prems]
  show ?case
  proof (cases "\<exists>p ps. r = Some (Inr (p, ps))")
    case True
    then obtain p ps where p: "r = Some (Inr (p, ps))" by blast
    have eq: "rb_fill force Redis_ok c todo = (c1, Rb_fill p ps)" by (simp add: rb_fill_def r p)
    obtain n where n: "case fold_res (apply_assignment (if force then Join else Rebalance)) (settle_assignment c1 p) ps of
        Inr c' \<Rightarrow> rb_iter force n (rb_fill force Redis_ok (settle_assignment c1 p) ps) = (c', Rb_filled)
      | Inl e \<Rightarrow> snd (rb_iter force n (rb_fill force Redis_ok (settle_assignment c1 p) ps)) = Rb_failed e"
      using less.hyps [of ps "settle_assignment c1 p"] f p by blast
    have "rb_iter force n (rb_fill force Redis_ok (settle_assignment c1 p) ps) = rb_iter force (Suc n) (rb_fill force Redis_ok c todo)"
      unfolding eq rb_iter_step [symmetric] by simp
    moreover have "fold_res (apply_assignment (if force then Join else Rebalance)) c todo = fold_res (apply_assignment (if force then Join else Rebalance)) (settle_assignment c1 p) ps"
      using f by (simp add: p)
    ultimately show ?thesis using n by (intro exI [of _ "Suc n"]) (simp only:)
  next
    case False
    have "rb_fill force Redis_ok c todo = (case (c1, r) of
        (c1, None) \<Rightarrow> (c1, Rb_filled)
      | (c1, Some (Inl e)) \<Rightarrow> (c1, Rb_failed e)
      | (c1, Some (Inr (p, ps))) \<Rightarrow> (c1, Rb_fill p ps))" unfolding rb_fill_def r ..
    then show ?thesis using f False
      by (intro exI [of _ 0]) (cases r; auto simp: rb_iter_def split: sum.splits)
  qed
qed

lemma rb_apply_alone:
  assumes "sorted_lists todo"
  shows "\<exists>n. case fold_res (apply_assignment Rebalance) c todo of
    Inr c' \<Rightarrow> rb_iter force n (rb_apply Redis_ok c todo) = (stamp c', Rb_done)
  | Inl e \<Rightarrow> snd (rb_iter force n (rb_apply Redis_ok c todo)) = Rb_failed e"
  using assms
proof (induction "length todo" arbitrary: c todo rule: less_induct)
  case less
  obtain c1 r where r: "next_assignment Rebalance Redis_ok c todo = (c1, r)" by fastforce
  note f = next_assignment_ok [OF r less.prems]
  show ?case
  proof (cases "\<exists>p ps. r = Some (Inr (p, ps))")
    case True
    then obtain p ps where p: "r = Some (Inr (p, ps))" by blast
    have eq: "rb_apply Redis_ok c todo = (c1, Rb_apply p ps)" by (simp add: rb_apply_def r p)
    obtain n where n: "case fold_res (apply_assignment Rebalance) (settle_assignment c1 p) ps of
        Inr c' \<Rightarrow> rb_iter force n (rb_apply Redis_ok (settle_assignment c1 p) ps) = (stamp c', Rb_done)
      | Inl e \<Rightarrow> snd (rb_iter force n (rb_apply Redis_ok (settle_assignment c1 p) ps)) = Rb_failed e"
      using less.hyps [of ps "settle_assignment c1 p"] f p by blast
    have "rb_iter force n (rb_apply Redis_ok (settle_assignment c1 p) ps) = rb_iter force (Suc n) (rb_apply Redis_ok c todo)"
      unfolding eq rb_iter_step [symmetric] by simp
    moreover have "fold_res (apply_assignment Rebalance) c todo = fold_res (apply_assignment Rebalance) (settle_assignment c1 p) ps"
      using f by (simp add: p)
    ultimately show ?thesis using n by (intro exI [of _ "Suc n"]) (simp only:)
  next
    case False
    then show ?thesis using f
      by (intro exI [of _ 0]) (auto simp: rb_apply_def r rb_iter_def split: option.splits sum.splits)
  qed
qed

lemma fill_list_fold:
  "map_sum id snd (fillUnownedShards reason c) = fold_res (apply_assignment reason) c (fill_list c)"
proof (cases "available c = [] \<or> unowned_shards (shardMap c) = []")
  case True
  then show ?thesis by (auto simp: fillUnownedShards_def fill_list_def Let_def)
next
  case False
  let ?ids = "map wv_machineId (available c)"
  define t where "t = snd (foldl (fill_target ?ids) (initial_counts (shardMap c) ?ids, initial_targets (shardMap c) ?ids) (unowned_shards (shardMap c)))"
  have "fillUnownedShards reason c = fold_res (fill_apply reason) (False, c) t"
    using False by (simp add: fillUnownedShards_def Let_def t_def)
  moreover have "fill_list c = map (\<lambda>p. (fst p, js_sort_num (snd p))) (map (\<lambda>p. (fst p, js_uniq (snd p))) t)"
    using False by (simp add: fill_list_def Let_def t_def)
  ultimately show ?thesis by (simp only: fold_fill_apply_eq fold_apply_sort)
qed

lemma fill_list_sorted: "sorted_lists (fill_list c)"
  by (auto simp: sorted_lists_def fill_list_def Let_def js_sort_num_eq)

text \<open>
  A run of which Redis accepts every command and which nothing interrupts does what \<open>maybeRebalance\<close> says,
  its error included.
\<close>

lemma run_alone:
  "\<exists>n. case maybeRebalance force c of
     Inr c' \<Rightarrow> rb_iter force n (rb_start force Redis_ok c) = (c', Rb_done)
   | Inl e \<Rightarrow> snd (rb_iter force n (rb_start force Redis_ok c)) = Rb_failed e"
proof (cases "\<not> force \<and> clock c - lastRunAt c < env_rebalanceCooldownMs (env c)")
  case True
  then show ?thesis by (intro exI [of _ 0]) (simp add: maybeRebalance_def rb_start_def rb_iter_def)
next
  case False
  let ?reason = "if force then Join else Rebalance"
  have start: "rb_start force Redis_ok c = rb_fill force Redis_ok c (fill_list c)"
    using False by (simp only: rb_start_def if_False)
  obtain n where n: "case fold_res (apply_assignment ?reason) c (fill_list c) of
      Inr c' \<Rightarrow> rb_iter force n (rb_start force Redis_ok c) = (c', Rb_filled)
    | Inl e \<Rightarrow> snd (rb_iter force n (rb_start force Redis_ok c)) = Rb_failed e"
    using rb_fill_alone [OF fill_list_sorted, where c = c and force = force] unfolding start by blast
  have run: "maybeRebalance force c = (case fillUnownedShards ?reason c of Inl e \<Rightarrow> Inl e
      | Inr (filled, c1) \<Rightarrow> if available c1 = [] then Inr (stamp c1)
      else if \<not> force \<and> cluster_imbalance c1 \<le> env_loadImbalanceThreshold (env c1) then Inr (stamp c1)
      else if length (available c1) < 2 then Inr (stamp c1) else propose_and_apply c1)"
    by (simp only: maybeRebalance_def if_not_P [OF False])
  show ?thesis
  proof (cases "fillUnownedShards ?reason c")
    case (Inl e)
    then have "fold_res (apply_assignment ?reason) c (fill_list c) = Inl e"
      unfolding fill_list_fold [symmetric] by simp
    then show ?thesis using n Inl unfolding run by auto
  next
    case (Inr x)
    obtain b c1 where f: "fillUnownedShards ?reason c = Inr (b, c1)" using Inr by (cases x) simp
    then have "fold_res (apply_assignment ?reason) c (fill_list c) = Inr c1"
      unfolding fill_list_fold [symmetric] by simp
    with n have n1: "rb_iter force (Suc n) (rb_start force Redis_ok c) = rb_decide force Redis_ok c1"
      by (simp add: rb_iter_def)
    let ?d = "getStrategy (env_assignmentStrategy (env c1)) (strategy_input c1)"
    let ?as = "map (\<lambda>p. (fst p, js_sort_num (snd p))) (assignments ?d)"
    have "sorted_lists ?as" by (auto simp: sorted_lists_def js_sort_num_eq)
    from rb_apply_alone [OF this, where c = c1 and force = force] obtain k where k:
      "case fold_res (apply_assignment Rebalance) c1 (assignments ?d) of
         Inr c' \<Rightarrow> rb_iter force k (rb_apply Redis_ok c1 ?as) = (stamp c', Rb_done)
       | Inl e \<Rightarrow> snd (rb_iter force k (rb_apply Redis_ok c1 ?as)) = Rb_failed e"
      unfolding fold_apply_sort by blast
    have short: "\<exists>n. rb_iter force n (rb_start force Redis_ok c) = (stamp c1, Rb_done)"
      if "rb_decide force Redis_ok c1 = (stamp c1, Rb_done)"
      using n1 that by metis
    have long: "rb_iter force (k + Suc n) (rb_start force Redis_ok c) = rb_iter force k (rb_decide force Redis_ok c1)"
      using n1 by (metis rb_iter_add)
    consider "available c1 = [] \<or> (\<not> force \<and> cluster_imbalance c1 \<le> env_loadImbalanceThreshold (env c1)) \<or>
        length (available c1) < 2 \<or> moves ?d = []"
      | "available c1 \<noteq> []" "\<not> (\<not> force \<and> cluster_imbalance c1 \<le> env_loadImbalanceThreshold (env c1))"
        "\<not> length (available c1) < 2" "moves ?d \<noteq> []" by blast
    then show ?thesis
    proof cases
      case 1
      then have "rb_decide force Redis_ok c1 = (stamp c1, Rb_done)" "maybeRebalance force c = Inr (stamp c1)"
        unfolding run f by (auto simp: rb_decide_def propose_and_apply_def Let_def)
      then show ?thesis using short by simp
    next
      case 2
      have d: "rb_decide force Redis_ok c1 = rb_apply Redis_ok c1 ?as"
        using 2 by (simp only: rb_decide_def Let_def if_False)
      have m: "maybeRebalance force c = (case fold_res (apply_assignment Rebalance) c1 (assignments ?d) of
          Inl e \<Rightarrow> Inl e | Inr c' \<Rightarrow> Inr (stamp c'))"
        unfolding run f using 2 by (simp only: sum.case prod.case if_False propose_and_apply_def Let_def)
      show ?thesis unfolding m using k long unfolding d
        by (intro exI [of _ "k + Suc n"]) (auto split: sum.split)
    qed
  qed
qed

subsection \<open>What every interleaving keeps\<close>

definition members :: "cluster \<Rightarrow> machine list" where
  "members c = map wv_machineId (listWorkers (membership c))"

definition available_ids :: "cluster \<Rightarrow> machine set" where
  "available_ids c = set (members c) - set (updating c)"

lemma available_ids_eq: "wv_machineId ` set (available c) = available_ids c"
  by (auto simp: available_ids_def available_def members_def)

text \<open>\<open>R s m\<close>: the machine may be given the shard.\<close>

definition todo_ok :: "(shard_id \<Rightarrow> machine \<Rightarrow> bool) \<Rightarrow> (machine \<times> shard_id list) list \<Rightarrow> bool" where
  "todo_ok R todo = (\<forall>p \<in> set todo. \<forall>s \<in> set (snd p). R s (fst p))"

fun pc_ok :: "(shard_id \<Rightarrow> machine \<Rightarrow> bool) \<Rightarrow> rebalance_pc \<Rightarrow> bool" where
  "pc_ok R (Rb_fill p ps) = todo_ok R ps"
| "pc_ok R (Rb_apply p ps) = todo_ok R ps"
| "pc_ok R _ = True"

definition run_inv :: "(shard_id \<Rightarrow> machine \<Rightarrow> bool) \<Rightarrow> int \<Rightarrow> cluster \<Rightarrow> bool" where
  "run_inv R b c = (control_inv b c \<and> totalShards (shardMap c) = b \<and> mb_ok (membership c) \<and>
     (\<forall>s m. ownerOf (shardMap c) s = Some m \<longrightarrow> R s m) \<and>
     (\<forall>m \<in> available_ids c. \<forall>s. 0 \<le> s \<and> s < b \<longrightarrow> R s m) \<and> (\<forall>s. \<not> R s []))"

lemma run_inv_map: "run_inv R b c \<Longrightarrow> shardmap_ok (shardMap c) \<and> named (shardMap c)"
proof
  assume inv: "run_inv R b c"
  then show "shardmap_ok (shardMap c)"
    by (intro shardmap_okI) (auto simp: run_inv_def control_inv_def)
  show "named (shardMap c)" unfolding named_def using inv unfolding run_inv_def by blast
qed

lemma assign_redis_owner:
  assumes inv: "control_inv b c" and a: "assign_redis ans c m ss r q = (x, c1)"
  shows "control_inv b c1 \<and> totalShards (shardMap c1) = totalShards (shardMap c) \<and> control.more c1 = control.more c \<and>
    (ownerOf (shardMap c1) s = Some k \<longrightarrow> ownerOf (shardMap c) s = Some k \<or> k = m \<and> s \<in> set ss)"
proof (cases "assign c m ss r q")
  case (Inl e)
  then show ?thesis using a inv by (simp add: assign_redis_def)
next
  case (Inr p)
  obtain msg c' where as: "assign c m ss r q = Inr (msg, c')" using Inr by (cases p) simp
  have wf: "jm_wf (owner (shardMap c))" using inv by (simp add: control_inv_def)
  note post = assign_InrD [OF as]
  have c1: "c1 = snd (assign_redis ans c m ss r q)" using a by simp
  have sm: "shardMap c1 = shardMap c'"
    unfolding c1 by (simp add: assign_redis_def as publish_assignment_def Let_def case_prod_unfold split: redis_answer.split)
  have more: "control.more c1 = control.more c"
    unfolding c1 using post
    by (simp add: assign_redis_def as publish_assignment_def assign_post_def Let_def case_prod_unfold split: redis_answer.split)
  have inv1: "control_inv b c1" unfolding c1 by (rule assign_redis_inv [OF inv])
  have total: "totalShards (shardMap c') = totalShards (shardMap c)" by (rule assign_total [OF as])
  have own: "ownerOf (shardMap c') s = Some k \<longrightarrow> ownerOf (shardMap c) s = Some k \<or> k = m \<and> s \<in> set ss"
    by (simp add: ownerOf_assign [OF wf as])
  show ?thesis using inv1 more total own unfolding sm by blast
qed

lemma run_inv_assign:
  assumes inv: "run_inv R b c" and a: "assign_redis ans c m ss r q = (x, c1)" and ok: "\<forall>s \<in> set ss. R s m"
  shows "run_inv R b c1 \<and> members c1 = members c \<and> updating c1 = updating c"
proof -
  have ci: "control_inv b c" using inv by (simp add: run_inv_def)
  note f = assign_redis_owner [OF ci a]
  then have more: "membership c1 = membership c" "updating c1 = updating c"
    using cluster_more [of c1 c] by blast+
  have "R s k" if "ownerOf (shardMap c1) s = Some k" for s k
    using f [of s k] that ok inv by (auto simp: run_inv_def)
  then show ?thesis using f inv by (auto simp: run_inv_def more members_def available_ids_def)
qed

lemma run_inv_next:
  assumes "run_inv R b c" "todo_ok R todo" "next_assignment reason ans c todo = (c1, r)"
  shows "run_inv R b c1 \<and> members c1 = members c \<and> updating c1 = updating c \<and>
    (\<forall>p ps. r = Some (Inr (p, ps)) \<longrightarrow> todo_ok R ps)"
  using assms
proof (induction todo)
  case (Cons q todo)
  show ?case
  proof (cases "shardsFor (shardMap c) (fst q) = snd q")
    case True
    then show ?thesis using Cons by (simp add: todo_ok_def)
  next
    case False
    obtain x c2 where a: "assign_redis ans c (fst q) (snd q) reason True = (x, c2)" by fastforce
    have "\<forall>s \<in> set (snd q). R s (fst q)" using Cons.prems(2) by (simp add: todo_ok_def)
    note f = run_inv_assign [OF Cons.prems(1) a this]
    then show ?thesis
      using Cons.prems(2,3) False a by (cases x) (auto simp: todo_ok_def)
  qed
qed simp

lemma settle_members:
  assumes "mb_ok (membership c)"
  shows "members (settle_assignment c p) = members c \<and> mb_ok (membership (settle_assignment c p)) \<and>
    updating (settle_assignment c p) = updating c \<and> shardMap (settle_assignment c p) = shardMap c \<and>
    sent (settle_assignment c p) = sent c"
  using setWorkerShards_machines [OF assms, of "fst p" "snd p"] assms
  by (simp add: settle_assignment_def members_def listWorkers_def bumpGeneration_workers bump_ok setWorkerShards_def update_worker_ok)

lemma run_inv_settle:
  assumes "run_inv R b c"
  shows "run_inv R b (settle_assignment c p) \<and> members (settle_assignment c p) = members c \<and>
    updating (settle_assignment c p) = updating c"
  using settle_members [of c p] assms by (auto simp: run_inv_def control_inv_def available_ids_def)

lemma run_inv_stamp: "run_inv R b (stamp c) = run_inv R b c" "members (stamp c) = members c" "updating (stamp c) = updating c"
  by (simp_all add: run_inv_def control_inv_def available_ids_def members_def stamp_def)

lemma fill_list_ok:
  assumes inv: "run_inv R b c"
  shows "todo_ok R (fill_list c)"
proof (cases "available c = [] \<or> unowned_shards (shardMap c) = []")
  case True
  then show ?thesis by (auto simp: fill_list_def Let_def todo_ok_def)
next
  case False
  let ?ids = "map wv_machineId (available c)" and ?un = "unowned_shards (shardMap c)"
  have wf: "jm_wf (owner (shardMap c))" and nm: "named (shardMap c)"
    using run_inv_map [OF inv] by (simp_all add: shardmap_ok_def)
  define t where "t = snd (foldl (fill_target ?ids) (initial_counts (shardMap c) ?ids, initial_targets (shardMap c) ?ids) ?un)"
  obtain f where f: "targets_inv (shardMap c) ?ids t f ?un"
    using foldl_fill_target_inv [OF initial_targets_inv [of "shardMap c" ?ids "\<lambda>_. []"], of ?un "initial_counts (shardMap c) ?ids"]
      False distinct_unowned [of "shardMap c"] by (auto simp: t_def)
  have "R s m" if "(m, l) \<in> set t" "s \<in> set l" for m l s
  proof -
    have g: "jm_get t m = Some l" using f that(1) jm_get_Some_iff [of t] by (simp add: targets_inv_def)
    then have m: "m \<in> set ?ids" using f by (metis option.distinct(1) targets_inv_def)
    have "s \<in> set (shardsFor (shardMap c) m) \<or> s \<in> set ?un" using f g that(2) by (auto simp: targets_inv_def)
    moreover have "m \<in> available_ids c" using m available_ids_eq [of c] by auto
    ultimately show ?thesis
      using inv unowned_named [OF nm] by (auto simp: set_shardsFor [OF wf] run_inv_def)
  qed
  moreover have "fill_list c = map (\<lambda>p. (fst p, js_sort_num (js_uniq (snd p)))) t"
    using False by (simp add: fill_list_def Let_def t_def)
  ultimately show ?thesis by (auto simp: todo_ok_def)
qed

definition run_kept :: "(shard_id \<Rightarrow> machine \<Rightarrow> bool) \<Rightarrow> int \<Rightarrow> cluster \<Rightarrow> cluster \<times> rebalance_pc \<Rightarrow> bool" where
  "run_kept R b c r = (run_inv R b (fst r) \<and> members (fst r) = members c \<and> updating (fst r) = updating c \<and> pc_ok R (snd r))"

lemma rb_fill_kept: "run_inv R b c \<Longrightarrow> todo_ok R todo \<Longrightarrow> run_kept R b c (rb_fill force ans c todo)"
proof -
  assume inv: "run_inv R b c" and ok: "todo_ok R todo"
  obtain c1 r where n: "next_assignment (if force then Join else Rebalance) ans c todo = (c1, r)" by fastforce
  have "rb_fill force ans c todo = (case (c1, r) of
      (c1, None) \<Rightarrow> (c1, Rb_filled)
    | (c1, Some (Inl e)) \<Rightarrow> (c1, Rb_failed e)
    | (c1, Some (Inr (p, ps))) \<Rightarrow> (c1, Rb_fill p ps))" unfolding rb_fill_def n ..
  then show ?thesis using run_inv_next [OF inv ok n]
    by (cases r) (auto simp: run_kept_def split: sum.split)
qed

lemma rb_apply_kept: "run_inv R b c \<Longrightarrow> todo_ok R todo \<Longrightarrow> run_kept R b c (rb_apply ans c todo)"
proof -
  assume inv: "run_inv R b c" and ok: "todo_ok R todo"
  obtain c1 r where n: "next_assignment Rebalance ans c todo = (c1, r)" by fastforce
  have "rb_apply ans c todo = (case (c1, r) of
      (c1, None) \<Rightarrow> (stamp c1, Rb_done)
    | (c1, Some (Inl e)) \<Rightarrow> (c1, Rb_failed e)
    | (c1, Some (Inr (p, ps))) \<Rightarrow> (c1, Rb_apply p ps))" unfolding rb_apply_def n ..
  then show ?thesis using run_inv_next [OF inv ok n]
    by (cases r) (auto simp: run_kept_def run_inv_stamp split: sum.split)
qed

lemma rb_start_kept: "run_inv R b c \<Longrightarrow> run_kept R b c (rb_start force ans c)"
  using rb_fill_kept [OF _ fill_list_ok] by (auto simp: rb_start_def run_kept_def)

lemma rb_decide_kept:
  assumes inv: "run_inv R b c"
  shows "run_kept R b c (rb_decide force ans c)"
proof -
  let ?d = "getStrategy (env_assignmentStrategy (env c)) (strategy_input c)"
  have ok: "shardmap_ok (shardMap c)" "named (shardMap c)" using run_inv_map [OF inv] by blast+
  note inp = strategy_input_ok [OF ok]
  have "R s m" if "(m, ss) \<in> set (assignments ?d)" "s \<in> set ss" for m ss s
  proof -
    have "0 \<le> s \<and> s < b"
      using chosen.lists [OF inp that(1)] that(2) inv by (auto simp: strategy_input_def run_inv_def)
    moreover have "m \<in> available_ids c \<or> ownerOf (shardMap c) s = Some m"
      using chosen.gains [OF inp that] owner_snapshot_get [OF ok]
      unfolding eligible_strategy_input available_ids_eq [symmetric] by (auto simp: strategy_input_def)
    ultimately show ?thesis using inv by (auto simp: run_inv_def)
  qed
  then have "todo_ok R (map (\<lambda>p. (fst p, js_sort_num (snd p))) (assignments ?d))" by (auto simp: todo_ok_def)
  from rb_apply_kept [OF inv this, of ans] show ?thesis
    using inv by (simp add: rb_decide_def Let_def run_kept_def run_inv_stamp)
qed

lemma rb_step_kept:
  assumes "run_inv R b c" "pc_ok R pc"
  shows "run_kept R b c (rb_step force ans (c, pc))"
proof (cases pc)
  case (Rb_fill p ps)
  then show ?thesis
    using rb_fill_kept [of R b "settle_assignment c p" ps force ans] run_inv_settle [OF assms(1), of p] assms(2)
    by (simp add: run_kept_def)
next
  case (Rb_apply p ps)
  then show ?thesis
    using rb_apply_kept [of R b "settle_assignment c p" ps ans] run_inv_settle [OF assms(1), of p] assms(2)
    by (simp add: run_kept_def)
qed (use assms rb_decide_kept in \<open>simp_all add: run_kept_def\<close>)

end
