(* ===== verification/ControlPlane.thy ===== *)
theory ControlPlane
  imports Updates RebalanceRun
begin

text \<open>
  The orchestrator's control plane: the heartbeats, statistics and failure watch that
  \<open>src/core/crosshost/bootstrap.ts\<close> wires up, and the HTTP routes of \<open>orchestrator/server.ts\<close>.  A reply is
  its status and reason, or the value sent; the texts of the messages are left out.  A check of the failure
  watch starts one recovery per dead worker and waits for none: all of them clear their worker first, and
  then they advance step by step (\<open>RebalanceRun\<close>) in any order, with what Redis answers.
\<close>

subsection \<open>Heartbeats, statistics and the failure watch\<close>

record HeartbeatMessage =
  hb_machineId :: machine
  hb_generation :: int
  hb_shards :: "shard_id list"
  hb_snapshotVersionAck :: int
  hb_apiBaseUrl :: "string option option"

definition on_heartbeat :: "cluster \<Rightarrow> HeartbeatMessage \<Rightarrow> cluster" where
  "on_heartbeat c hb =
     (let now = clock c; m = hb_machineId hb;
          mb1 = touch (membership c) now m;
          mb2 = setWorkerSnapshotAck mb1 now m (hb_snapshotVersionAck hb);
          mb3 = setWorkerShards mb2 m (hb_shards hb);
          mb4 = (case hb_apiBaseUrl hb of None \<Rightarrow> mb3 | Some url \<Rightarrow> setApiBaseUrl mb3 now m url)
      in c\<lparr>membership := (if hb_generation hb > mb_generation mb4 then bumpGeneration mb4 (Some (hb_generation hb)) else mb4)\<rparr>)"

definition on_stats :: "cluster \<Rightarrow> WorkerStats \<Rightarrow> cluster" where
  "on_stats c st = recordStats c st"

definition suspect_ms :: "CrossHostEnv \<Rightarrow> int" where
  "suspect_ms e = env_heartbeatMs e * env_suspectAfter e"

definition dead_ms :: "CrossHostEnv \<Rightarrow> int" where
  "dead_ms e = suspect_ms e + env_deadGraceMs e"

definition dead_workers :: "cluster \<Rightarrow> machine list" where
  "dead_workers c =
     map wv_machineId (filter (\<lambda>w. clock c - wv_lastSeenAt w > dead_ms (env c)) (listWorkers (membership c)))"

text \<open>A recovery waits for the command of \<open>clearMachine\<close>, then inside its rebalance run; \<open>Rc_stopped\<close>: it was rejected.\<close>

datatype recovery = Rc_cleared machine | Rc_run machine rebalance_pc | Rc_stopped machine

fun rc_machine :: "recovery \<Rightarrow> machine" where
  "rc_machine (Rc_cleared m) = m"
| "rc_machine (Rc_run m pc) = m"
| "rc_machine (Rc_stopped m) = m"

fun recovery_step :: "redis_answer \<Rightarrow> cluster \<Rightarrow> recovery \<Rightarrow> cluster \<times> recovery" where
  "recovery_step ans c (Rc_cleared m) =
     (let (c', pc) = rb_start True ans (c\<lparr>membership := snd (removeWorker (membership c) m)\<rparr>) in (c', Rc_run m pc))"
| "recovery_step ans c (Rc_run m pc) = (let (c', pc') = rb_step True ans (c, pc) in (c', Rc_run m pc'))"
| "recovery_step ans c (Rc_stopped m) = (c, Rc_stopped m)"

text \<open>\<open>up m\<close>: Redis takes the command that clears \<open>m\<close>.\<close>

definition start_recovery :: "(machine \<Rightarrow> bool) \<Rightarrow> cluster \<times> recovery list \<Rightarrow> machine \<Rightarrow> cluster \<times> recovery list" where
  "start_recovery up st m =
     (let (c, rs) = st in
      case clear_redis (up m) c m Recovery of
        (Inl _, c') \<Rightarrow> (c', rs @ [Rc_stopped m])
      | (Inr _, c') \<Rightarrow> (c', rs @ [Rc_cleared m]))"

definition watch_start :: "(machine \<Rightarrow> bool) \<Rightarrow> cluster \<Rightarrow> cluster \<times> recovery list" where
  "watch_start up c = foldl (start_recovery up) (c, []) (dead_workers c)"

definition watch_step :: "cluster \<times> recovery list \<Rightarrow> nat \<times> redis_answer \<Rightarrow> cluster \<times> recovery list" where
  "watch_step st x =
     (let (c, rs) = st; (i, ans) = x in
      if i < length rs then (let (c', r) = recovery_step ans c (rs ! i) in (c', rs[i := r])) else (c, rs))"

definition failure_watch :: "(machine \<Rightarrow> bool) \<Rightarrow> (nat \<times> redis_answer) list \<Rightarrow> cluster \<Rightarrow> cluster \<times> recovery list" where
  "failure_watch up sched c = foldl watch_step (watch_start up c) sched"

definition rebalance_timer :: "cluster \<Rightarrow> bool \<Rightarrow> cluster" where
  "rebalance_timer c force = (case maybeRebalance force c of Inl e \<Rightarrow> c | Inr c' \<Rightarrow> c')"

datatype cp_event =
    Ev_heartbeat HeartbeatMessage
  | Ev_stats WorkerStats
  | Ev_failure_watch "machine \<Rightarrow> bool"
  | Ev_recovery nat redis_answer
  | Ev_rebalance bool
  | Ev_time int

fun cp_step :: "cluster \<times> recovery list \<Rightarrow> cp_event \<Rightarrow> cluster \<times> recovery list" where
  "cp_step (c, rs) (Ev_heartbeat hb) = (on_heartbeat c hb, rs)"
| "cp_step (c, rs) (Ev_stats st) = (on_stats c st, rs)"
| "cp_step (c, rs) (Ev_failure_watch up) = (let (c', rs') = watch_start up c in (c', rs @ rs'))"
| "cp_step (c, rs) (Ev_recovery i ans) = watch_step (c, rs) (i, ans)"
| "cp_step (c, rs) (Ev_rebalance force) = (rebalance_timer c force, rs)"
| "cp_step (c, rs) (Ev_time t) = (c\<lparr>clock := max (clock c) t\<rparr>, rs)"

definition new_cluster :: "CrossHostEnv \<Rightarrow> MembershipConfig \<Rightarrow> DesiredState \<Rightarrow> ShardMap \<Rightarrow> IdentifyQueue \<Rightarrow> int \<Rightarrow> cluster" where
  "new_cluster e config desired sm q now =
     \<lparr>shardMap = sm, identifyQueue = q, clock = now, sent = [], env = e,
      membership = (new_Membership config desired)\<lparr>mb_totalShards := totalShards sm\<rparr>,
      stats = [], updating = [], lastRunAt = 0\<rparr>"

subsection \<open>The HTTP routes\<close>

datatype 'a reply = Reply 'a | Failure nat RegisterReasonCode | Thrown

definition requireMachineAuth :: "token_codec \<Rightarrow> string \<Rightarrow> int \<Rightarrow> string option \<Rightarrow> machine option" where
  "requireMachineAuth tc secret now auth =
     (case auth of
        None \<Rightarrow> None
      | Some h \<Rightarrow>
          if \<not> js_starts_with h ''Bearer '' then None
          else (case verifyMachineToken tc secret now (js_trim (drop 7 h)) None of
                  None \<Rightarrow> None
                | Some claims \<Rightarrow> Some (tk_mid claims)))"

definition sized :: "nat \<Rightarrow> string \<Rightarrow> bool" where
  "sized n s = (1 \<le> length s \<and> length s \<le> n)"

definition http_challenge ::
  "cluster \<Rightarrow> string \<Rightarrow> string \<Rightarrow> string option \<Rightarrow> ChallengeRecord reply \<times> cluster" where
  "http_challenge c challengeId nonce machineId =
     (case machineId of
        None \<Rightarrow> (Failure 400 INVALID_PAYLOAD, c)
      | Some m \<Rightarrow>
          if \<not> sized 128 m then (Failure 400 INVALID_PAYLOAD, c)
          else (let (r, mb) = issueChallenge (membership c) challengeId nonce (clock c) m
                in (Reply r, c\<lparr>membership := mb\<rparr>)))"

text \<open>The schema of a registration; recognising a URL is the schema library's part.\<close>

definition registerRequestSchema :: "(string \<Rightarrow> bool) \<Rightarrow> RegisterBody \<Rightarrow> bool" where
  "registerRequestSchema is_url b =
     (sized 128 (rb_machineId b) \<and> sized 64 (rb_zeneVersion b) \<and> length (rb_plugins b) \<le> 512 \<and>
      list_all (\<lambda>p. sized 128 (plugin_id p) \<and> sized 64 (plugin_version p)) (rb_plugins b) \<and>
      sized 64 (rb_nodeVersion b) \<and> sized 64 (rb_platform b) \<and> sized 64 (rb_arch b) \<and>
      sized 128 (rb_bootGeneration b) \<and>
      (case rb_apiBaseUrl b of None \<Rightarrow> True | Some u \<Rightarrow> is_url u \<and> length u \<le> 512) \<and>
      sized 128 (rb_challengeId b) \<and> sized 256 (rb_hmac b))"

definition register_status :: "RegisterReasonCode \<Rightarrow> nat" where
  "register_status reason =
     (if reason \<in> {HMAC_INVALID, CHALLENGE_MISSING, CHALLENGE_EXPIRED} then 401
      else if reason = DUPLICATE_MACHINE_ID then 409 else 403)"

text \<open>
  The registration, up to the join hook: the hook starts the fill of unowned shards and is not waited for,
  so the answer is made from the map as it is then.
\<close>

definition http_register ::
  "crypto \<Rightarrow> (string \<Rightarrow> bool) \<Rightarrow> string \<Rightarrow> cluster \<Rightarrow> RegisterBody \<Rightarrow> AcceptResult reply \<times> cluster" where
  "http_register cr is_url jti c body =
     (if \<not> registerRequestSchema is_url body then (Failure 400 INVALID_PAYLOAD, c)
      else (let (r, mb) = register cr (Some (shardsFor (shardMap c))) jti (clock c) (membership c) body;
                c' = c\<lparr>membership := mb\<rparr>
            in case r of
                 Inl e \<Rightarrow> (Thrown, c')
               | Inr (Reject reason) \<Rightarrow> (Failure (register_status reason) reason, c')
               | Inr (Accept ac) \<Rightarrow> (Reply ac, c')))"

definition register_answer :: "cluster \<Rightarrow> machine \<Rightarrow> AcceptResult \<Rightarrow> AcceptResult" where
  "register_answer c m ac = ac\<lparr>ac_generation := generation (shardMap c), ac_assignedShards := shardsFor (shardMap c) m\<rparr>"

definition http_workers ::
  "token_codec \<Rightarrow> cluster \<Rightarrow> string option \<Rightarrow> (machine \<times> int \<times> shard_id list \<times> int) list reply" where
  "http_workers tc c auth =
     (case requireMachineAuth tc (mc_clusterSecret (mb_config (membership c))) (clock c) auth of
        None \<Rightarrow> Failure 401 UNAUTHORIZED
      | Some _ \<Rightarrow> Reply (map (\<lambda>w. (wv_machineId w, wv_lastSeenAt w, shardsFor (shardMap c) (wv_machineId w),
                     mb_generation (membership c))) (listWorkers (membership c))))"

definition http_shards ::
  "token_codec \<Rightarrow> cluster \<Rightarrow> string option \<Rightarrow> (shard_dump \<times> (machine \<times> int \<times> shard_id list) list) reply" where
  "http_shards tc c auth =
     (case requireMachineAuth tc (mc_clusterSecret (mb_config (membership c))) (clock c) auth of
        None \<Rightarrow> Failure 401 UNAUTHORIZED
      | Some _ \<Rightarrow> Reply (dump (shardMap c), map (\<lambda>w. (wv_machineId w, wv_lastSeenAt w,
                     shardsFor (shardMap c) (wv_machineId w))) (listWorkers (membership c))))"

record ShiftReply =
  sr_shardId :: shard_id
  sr_from :: "machine option"
  sr_to :: machine
  sr_generation :: int
  sr_dump :: shard_dump

text \<open>\<open>ans1\<close> and \<open>ans2\<close> are what Redis answers to the two assignments. \<open>shardId\<close> is \<open>None\<close> when the body's value is not an integer, \<open>to\<close> when it is not a string.\<close>

definition shard_shift ::
  "token_codec \<Rightarrow> redis_answer \<Rightarrow> redis_answer \<Rightarrow> cluster \<Rightarrow> string option \<Rightarrow> shard_id option \<Rightarrow> string option
   \<Rightarrow> ShiftReply reply \<times> cluster" where
  "shard_shift tc ans1 ans2 c auth shardId to =
     (case requireMachineAuth tc (mc_clusterSecret (mb_config (membership c))) (clock c) auth of
        None \<Rightarrow> (Failure 401 UNAUTHORIZED, c)
      | Some _ \<Rightarrow>
          (let toMachineId = (case to of None \<Rightarrow> [] | Some t \<Rightarrow> js_trim t) in
           case shardId of
             None \<Rightarrow> (Failure 400 INVALID_PAYLOAD, c)
           | Some s \<Rightarrow>
               if s < 0 then (Failure 400 INVALID_PAYLOAD, c)
               else if toMachineId = [] then (Failure 400 INVALID_PAYLOAD, c)
               else if jm_get (workers (membership c)) toMachineId = None then (Failure 404 INVALID_PAYLOAD, c)
               else (case move_redis ans1 ans2 c s toMachineId Manual True of
                       (Inl e, c') \<Rightarrow> (Failure 400 INTERNAL, c')
                     | (Inr from, c') \<Rightarrow>
                         (Reply \<lparr>sr_shardId = s, sr_from = from, sr_to = toMachineId,
                            sr_generation = generation (shardMap c'), sr_dump = dump (shardMap c')\<rparr>, c'))))"

definition guild_owner ::
  "token_codec \<Rightarrow> cluster \<Rightarrow> string option \<Rightarrow> string \<Rightarrow> (shard_id \<times> machine option) reply" where
  "guild_owner tc c auth guildId =
     (case requireMachineAuth tc (mc_clusterSecret (mb_config (membership c))) (clock c) auth of
        None \<Rightarrow> Failure 401 UNAUTHORIZED
      | Some _ \<Rightarrow>
          if \<not> (js_all_digits guildId \<and> 5 \<le> length guildId \<and> length guildId \<le> 32) then Failure 400 INVALID_PAYLOAD
          else (let s = drop_bit 22 (int (nat_of_digits guildId)) mod totalShards (shardMap c)
                in Reply (s, ownerOf (shardMap c) s)))"

subsection \<open>Recovering from dead workers\<close>

lemma removeWorker_ok:
  assumes "mb_ok mb"
  shows "mb_ok (snd (removeWorker mb m))"
    "map wv_machineId (listWorkers (snd (removeWorker mb m))) = filter (\<lambda>x. x \<noteq> m) (map wv_machineId (listWorkers mb))"
proof -
  show ok: "mb_ok (snd (removeWorker mb m))" using assms by (auto simp: removeWorker_def mb_ok_def)
  show "map wv_machineId (listWorkers (snd (removeWorker mb m))) = filter (\<lambda>x. x \<noteq> m) (map wv_machineId (listWorkers mb))"
    unfolding listWorkers_keys [OF ok] listWorkers_keys [OF assms]
    by (simp add: removeWorker_def jm_delete_filter filter_map comp_def)
qed

lemma clear_cluster_frame:
  fixes c :: cluster
  shows "env (clearMachine c m r) = env c" "membership (clearMachine c m r) = membership c"
    "updating (clearMachine c m r) = updating c"
  by (simp_all add: clearMachine_def publish_assignment_def Let_def)

text \<open>What one recovery does alone.\<close>

definition cleared :: "cluster \<Rightarrow> machine \<Rightarrow> cluster" where
  "cleared c m = (clearMachine c m Recovery)\<lparr>membership := snd (removeWorker (membership c) m)\<rparr>"

lemma cleared_facts:
  assumes ok: "cluster_ok c" and nm: "named (shardMap c)"
  shows "cluster_ok (cleared c m)" "named (shardMap (cleared c m))" "members (cleared c m) = filter (\<lambda>x. x \<noteq> m) (members c)"
    "available_ids (cleared c m) = available_ids c - {m}" "env (cleared c m) = env c" "updating (cleared c m) = updating c"
    "totalShards (shardMap (cleared c m)) = totalShards (shardMap c)"
    "ownerOf (shardMap (cleared c m)) s = (if ownerOf (shardMap c) s = Some m then None else ownerOf (shardMap c) s)"
proof -
  have cok: "control_ok c" and mok: "mb_ok (membership c)" and wf: "jm_wf (owner (shardMap c))"
    using ok by (simp_all add: cluster_ok_def control_ok_def shardmap_ok_def)
  show own: "ownerOf (shardMap (cleared c m)) s = (if ownerOf (shardMap c) s = Some m then None else ownerOf (shardMap c) s)" for s
    by (simp add: cleared_def ownerOf_clear [OF wf])
  show "named (shardMap (cleared c m))" using nm unfolding named_def own by simp
  show "cluster_ok (cleared c m)"
    using clear_control_ok [OF cok, of m Recovery] removeWorker_ok(1) [OF mok, of m]
    by (simp add: cluster_ok_def cleared_def control_ok_def)
  show mem: "members (cleared c m) = filter (\<lambda>x. x \<noteq> m) (members c)"
    using removeWorker_ok(2) [OF mok, of m] by (simp add: members_def cleared_def)
  show up: "updating (cleared c m) = updating c" and "env (cleared c m) = env c"
    by (simp_all add: cleared_def clear_cluster_frame)
  show "available_ids (cleared c m) = available_ids c - {m}" unfolding available_ids_def mem up by auto
  show "totalShards (shardMap (cleared c m)) = totalShards (shardMap c)" by (simp add: cleared_def clear_frame)
qed

definition plane_ok :: "cluster \<Rightarrow> bool" where
  "plane_ok c = (cluster_ok c \<and> named (shardMap c) \<and> [] \<notin> set (members c))"

lemma rebalance_plane:
  assumes "plane_ok c"
  obtains c' where "maybeRebalance force c = Inr c'" "plane_ok c'" "members c' = members c" "env c' = env c"
    "updating c' = updating c" "totalShards (shardMap c') = totalShards (shardMap c)"
    "\<forall>s m. ownerOf (shardMap c') s = Some m \<longrightarrow> m \<in> available_ids c \<or> ownerOf (shardMap c) s = Some m"
    "force \<longrightarrow> available_ids c \<noteq> {} \<longrightarrow>
      (\<forall>s. 0 \<le> s \<and> s < totalShards (shardMap c) \<longrightarrow> ownerOf (shardMap c') s \<noteq> None)"
proof -
  have ne: "\<forall>w \<in> set (available c). wv_machineId w \<noteq> []"
    using assms by (auto simp: plane_ok_def members_def available_def image_iff)
  have cl: "cluster_ok c" "named (shardMap c)" using assms by (simp_all add: plane_ok_def)
  from maybeRebalance_done [OF cl ne, of force]
  obtain c' where c': "maybeRebalance force c = Inr c'" "cluster_ok c'" "env c' = env c" "updating c' = updating c"
      "map wv_machineId (listWorkers (membership c')) = map wv_machineId (listWorkers (membership c))"
      "totalShards (shardMap c') = totalShards (shardMap c)"
    and own: "\<forall>s m. ownerOf (shardMap c') s = Some m \<longrightarrow>
       m \<in> wv_machineId ` set (available c) \<or> ownerOf (shardMap c) s = Some m"
    and full: "force \<or> clock c - lastRunAt c \<ge> env_rebalanceCooldownMs (env c) \<longrightarrow> available c \<noteq> [] \<longrightarrow>
      (\<forall>s. 0 \<le> s \<and> s < totalShards (shardMap c) \<longrightarrow> ownerOf (shardMap c') s \<noteq> None)"
    by (elim exE conjE) (rule that)
  have mem: "members c' = members c" using c'(5) by (simp add: members_def)
  have "named (shardMap c')"
    unfolding named_def
  proof
    fix s
    show "ownerOf (shardMap c') s \<noteq> Some []"
    proof
      assume "ownerOf (shardMap c') s = Some []"
      then have "[] \<in> wv_machineId ` set (available c) \<or> ownerOf (shardMap c) s = Some []" using own by blast
      then show False using assms ne by (auto simp: plane_ok_def named_def)
    qed
  qed
  then have "plane_ok c'" using assms c'(2) mem by (simp add: plane_ok_def)
  moreover have "available c \<noteq> [] \<longleftrightarrow> available_ids c \<noteq> {}"
    unfolding available_ids_eq [symmetric] by simp
  ultimately show ?thesis
    using c'(1,3,4,6) mem own full unfolding available_ids_eq by (intro that) blast+
qed

definition recover_worker :: "cluster \<Rightarrow> machine \<Rightarrow> cluster" where
  "recover_worker c m = (case maybeRebalance True (cleared c m) of Inl e \<Rightarrow> cleared c m | Inr c3 \<Rightarrow> c3)"

lemma recover_worker_facts:
  assumes ok: "plane_ok c"
  shows "let c' = recover_worker c m in maybeRebalance True (cleared c m) = Inr c' \<and> plane_ok c' \<and> members c' = filter (\<lambda>x. x \<noteq> m) (members c) \<and> env c' = env c \<and> updating c' = updating c \<and>
    totalShards (shardMap c') = totalShards (shardMap c) \<and>
    (\<forall>s k. ownerOf (shardMap c') s = Some k \<longrightarrow> k \<noteq> m \<and> (k \<in> available_ids c \<or> ownerOf (shardMap c) s = Some k)) \<and>
    (available_ids c - {m} \<noteq> {} \<longrightarrow>
      (\<forall>s. 0 \<le> s \<and> s < totalShards (shardMap c) \<longrightarrow> ownerOf (shardMap c') s \<noteq> None))"
proof -
  have c: "cluster_ok c" "named (shardMap c)" using ok by (simp_all add: plane_ok_def)
  note f = cleared_facts [OF c, of m]
  have "plane_ok (cleared c m)" using ok f(1,2,3) by (simp add: plane_ok_def)
  then obtain c3 where r: "maybeRebalance True (cleared c m) = Inr c3" "plane_ok c3" "members c3 = members (cleared c m)"
      "env c3 = env (cleared c m)" "updating c3 = updating (cleared c m)"
      "totalShards (shardMap c3) = totalShards (shardMap (cleared c m))"
      "\<forall>s k. ownerOf (shardMap c3) s = Some k \<longrightarrow> k \<in> available_ids (cleared c m) \<or> ownerOf (shardMap (cleared c m)) s = Some k"
      "True \<longrightarrow> available_ids (cleared c m) \<noteq> {} \<longrightarrow>
        (\<forall>s. 0 \<le> s \<and> s < totalShards (shardMap (cleared c m)) \<longrightarrow> ownerOf (shardMap c3) s \<noteq> None)"
    by (rule rebalance_plane)
  have "recover_worker c m = c3" using r(1) by (simp add: recover_worker_def)
  moreover have "k \<noteq> m \<and> (k \<in> available_ids c \<or> ownerOf (shardMap c) s = Some k)"
    if "ownerOf (shardMap c3) s = Some k" for s k
    using r(7) that f(4,8) by (auto split: if_splits)
  ultimately show ?thesis using r(1-6,8) f by (simp add: Let_def)
qed

subsection \<open>The failure watch\<close>

definition removed :: "recovery list \<Rightarrow> machine set" where
  "removed rs = {m. \<exists>pc. Rc_run m pc \<in> set rs}"

fun recovery_ok :: "(shard_id \<Rightarrow> machine \<Rightarrow> bool) \<Rightarrow> recovery \<Rightarrow> bool" where
  "recovery_ok R (Rc_run m pc) = pc_ok R pc"
| "recovery_ok R _ = True"

definition watch_inv :: "(shard_id \<Rightarrow> machine \<Rightarrow> bool) \<Rightarrow> int \<Rightarrow> cluster \<Rightarrow> cluster \<times> recovery list \<Rightarrow> bool" where
  "watch_inv R b c st = (run_inv R b (fst st) \<and> members (fst st) = filter (\<lambda>m. m \<notin> removed (snd st)) (members c) \<and>
     (\<forall>r \<in> set (snd st). recovery_ok R r))"

lemma plane_run_inv:
  assumes "plane_ok c"
  shows "run_inv (\<lambda>s m. m \<noteq> [] \<and> (m \<in> available_ids c \<or> ownerOf (shardMap c) s = Some m)) (totalShards (shardMap c)) c"
proof -
  have ok: "control_ok c" "mb_ok (membership c)" "named (shardMap c)" "[] \<notin> set (members c)"
    using assms by (simp_all add: plane_ok_def cluster_ok_def)
  then have sok: "shardmap_ok (shardMap c)" by (simp add: control_ok_def)
  then have "control_inv (totalShards (shardMap c)) c"
    using ok(1) shardmap_ok_owners [OF sok] by (simp add: control_inv_def control_ok_def shardmap_ok_def)
  moreover have "[] \<notin> available_ids c" using ok(4) by (simp add: available_ids_def)
  then have "m \<in> available_ids c \<Longrightarrow> m \<noteq> []" for m by metis
  moreover have "ownerOf (shardMap c) s = Some m \<Longrightarrow> m \<noteq> []" for s m using ok(3) by (auto simp: named_def)
  ultimately show ?thesis using ok(2) unfolding run_inv_def by blast
qed

lemma clear_run_inv:
  assumes inv: "run_inv R b c" and cl: "clear_redis u c m r = (x, c')"
  shows "run_inv R b c' \<and> members c' = members c"
proof -
  have ci: "control_inv b c" using inv by (simp add: run_inv_def)
  then have wf: "jm_wf (owner (shardMap c))" by (simp add: control_inv_def)
  have c': "c' = snd (clear_redis u c m r)" using cl by simp
  have f: "membership c' = membership c" "updating c' = updating c" "shardMap c' = shardMap (clearMachine c m r)"
    unfolding c' by (auto simp: clear_redis_def Let_def clear_cluster_frame)
  have "control_inv b c'" unfolding c' by (rule clear_redis_inv [OF ci])
  moreover have "ownerOf (shardMap c') s = Some k \<Longrightarrow> ownerOf (shardMap c) s = Some k" for s k
    unfolding f(3) by (simp add: ownerOf_clear [OF wf] split: if_splits)
  ultimately show ?thesis using inv clear_frame(2) [of c m r]
    by (auto simp: run_inv_def available_ids_def members_def f)
qed

lemma start_recovery_inv: "watch_inv R b c st \<Longrightarrow> watch_inv R b c (start_recovery up st m)"
proof -
  assume inv: "watch_inv R b c st"
  obtain d rs where st: "st = (d, rs)" by (cases st)
  obtain x d' where cl: "clear_redis (up m) d m Recovery = (x, d')" by fastforce
  have "removed (rs @ [Rc_cleared m]) = removed rs" "removed (rs @ [Rc_stopped m]) = removed rs" by (auto simp: removed_def)
  then show ?thesis
    using inv clear_run_inv [OF _ cl, of R b] by (cases x) (auto simp: st watch_inv_def start_recovery_def cl)
qed

lemma watch_start_inv:
  assumes "run_inv R b c"
  shows "watch_inv R b c (watch_start up c)"
proof -
  have "watch_inv R b c (foldl (start_recovery up) st ms)" if "watch_inv R b c st" for st ms
    using that by (induction ms arbitrary: st) (simp_all add: start_recovery_inv)
  moreover have "watch_inv R b c (c, [])" using assms by (simp add: watch_inv_def removed_def)
  ultimately show ?thesis by (simp add: watch_start_def)
qed

lemma removed_update:
  assumes "i < length rs" "rc_machine r = rc_machine (rs ! i)" "\<exists>pc. r = Rc_run m pc"
  shows "removed (rs[i := r]) = insert m (removed rs)"
proof -
  obtain pc where r: "r = Rc_run m pc" using assms(3) by blast
  have "removed (rs[i := r]) \<subseteq> insert m (removed rs)"
    using set_update_subset_insert [of rs i r] by (auto simp: removed_def r)
  moreover have "m \<in> removed (rs[i := r])"
    using set_update_memI [OF assms(1), of r] by (auto simp: removed_def r)
  moreover have "k \<in> removed (rs[i := r])" if k: "k \<in> removed rs" for k
  proof -
    obtain q j where j: "j < length rs" "rs ! j = Rc_run k q" using k by (auto simp: removed_def in_set_conv_nth)
    show ?thesis
    proof (cases "j = i")
      case True
      then have "k = m" using j assms(2) by (simp add: r)
      then show ?thesis using \<open>m \<in> removed (rs[i := r])\<close> by simp
    next
      case False
      then have "rs[i := r] ! j = Rc_run k q" using j by simp
      then show ?thesis using j(1) by (auto simp: removed_def in_set_conv_nth)
    qed
  qed
  ultimately show ?thesis by blast
qed

lemma remove_run_inv:
  assumes inv: "run_inv R b c"
  shows "run_inv R b (c\<lparr>membership := snd (removeWorker (membership c) m)\<rparr>) \<and>
    members (c\<lparr>membership := snd (removeWorker (membership c) m)\<rparr>) = filter (\<lambda>x. x \<noteq> m) (members c)"
proof -
  have mb: "mb_ok (membership c)" using inv by (simp add: run_inv_def)
  then show ?thesis using removeWorker_ok [OF mb, of m] inv
    by (auto simp: run_inv_def control_inv_def available_ids_def members_def)
qed

lemma recovery_step_inv:
  assumes inv: "watch_inv R b c (d, rs)" and i: "i < length rs" and st: "recovery_step ans d (rs ! i) = (d', r)"
  shows "watch_inv R b c (d', rs[i := r])"
proof -
  have d: "run_inv R b d" "members d = filter (\<lambda>m. m \<notin> removed rs) (members c)" "\<forall>r \<in> set rs. recovery_ok R r"
    using inv by (simp_all add: watch_inv_def)
  have sub: "\<forall>q \<in> set (rs[i := r]). recovery_ok R q" if "recovery_ok R r"
    using set_update_subset_insert [of rs i r] d(3) that by blast
  show ?thesis
  proof (cases "rs ! i")
    case (Rc_cleared m)
    let ?d = "d\<lparr>membership := snd (removeWorker (membership d) m)\<rparr>"
    obtain pc where r: "r = Rc_run m pc" "rb_start True ans ?d = (d', pc)"
      using st by (auto simp: Rc_cleared split: prod.splits)
    note f = remove_run_inv [OF d(1), of m]
    then have k: "run_kept R b ?d (d', pc)" unfolding r(2) [symmetric] by (intro rb_start_kept) simp
    have "removed (rs[i := r]) = insert m (removed rs)"
      using removed_update [OF i, of r m] by (simp add: r(1) Rc_cleared)
    then have "members d' = filter (\<lambda>m. m \<notin> removed (rs[i := r])) (members c)"
      using k f d(2) by (simp add: run_kept_def conj_commute)
    then show ?thesis using k sub by (simp add: watch_inv_def run_kept_def r(1))
  next
    case (Rc_run m q)
    obtain pc where r: "r = Rc_run m pc" "rb_step True ans (d, q) = (d', pc)"
      using st by (auto simp: Rc_run split: prod.splits)
    have "pc_ok R q" using d(3) i Rc_run nth_mem by fastforce
    then have k: "run_kept R b d (d', pc)" using rb_step_kept [OF d(1), of q True ans] r(2) by simp
    have "m \<in> removed rs" using i Rc_run nth_mem by (fastforce simp: removed_def)
    then have "removed (rs[i := r]) = removed rs"
      using removed_update [OF i, of r m] by (auto simp: r(1) Rc_run)
    then show ?thesis using k d(2) sub by (simp add: watch_inv_def run_kept_def r(1))
  next
    case (Rc_stopped m)
    then have "d' = d" "r = rs ! i" using st by auto
    then show ?thesis using inv by simp
  qed
qed

lemma watch_step_inv: "watch_inv R b c st \<Longrightarrow> watch_inv R b c (watch_step st x)"
  by (cases st; cases x) (auto simp: watch_step_def split: prod.splits intro: recovery_step_inv)

lemma failure_watch_inv:
  assumes "run_inv R b c"
  shows "watch_inv R b c (failure_watch up sched c)"
proof -
  have "watch_inv R b c (foldl watch_step st xs)" if "watch_inv R b c st" for st xs
    using that by (induction xs arbitrary: st) (simp_all add: watch_step_inv)
  then show ?thesis using watch_start_inv [OF assms] by (simp add: failure_watch_def)
qed

lemma watch_machines: "map rc_machine (snd (failure_watch up sched c)) = dead_workers c"
proof -
  have "map rc_machine (snd (start_recovery up st m)) = map rc_machine (snd st) @ [m]" for st m
    by (cases st; cases "clear_redis (up m) (fst st) m Recovery") (auto simp: start_recovery_def split: sum.split)
  then have "map rc_machine (snd (foldl (start_recovery up) st ms)) = map rc_machine (snd st) @ ms" for st ms
    by (induction ms arbitrary: st) simp_all
  then have s: "map rc_machine (snd (watch_start up c)) = dead_workers c" by (simp add: watch_start_def)
  have r: "rc_machine (snd (recovery_step ans d r)) = rc_machine r" for ans d r
    by (cases r) (simp_all add: case_prod_unfold Let_def)
  have "map rc_machine (snd (watch_step st x)) = map rc_machine (snd st)" for st x
    using r by (auto simp: watch_step_def Let_def case_prod_unfold map_update) (metis list_update_id map_update nth_map)
  then have "map rc_machine (snd (foldl watch_step st xs)) = map rc_machine (snd st)" for st xs
    by (induction xs arbitrary: st) simp_all
  then show ?thesis by (simp add: failure_watch_def s)
qed

text \<open>One dead worker, nothing else running, every command accepted.\<close>

lemma watch_alone:
  "foldl watch_step (c, [Rc_run m pc]) (replicate n (0, Redis_ok)) =
     (let (c', pc') = rb_iter True n (c, pc) in (c', [Rc_run m pc']))"
proof (induction n arbitrary: c pc)
  case 0
  then show ?case by (simp add: rb_iter_def)
next
  case (Suc n)
  obtain d q where d: "rb_step True Redis_ok (c, pc) = (d, q)" by fastforce
  have "rb_iter True (Suc n) (c, pc) = rb_iter True n (d, q)" unfolding d [symmetric] by (rule rb_iter_step [symmetric])
  then show ?case using Suc.IH [of d q] by (simp add: watch_step_def d)
qed

lemma failure_watch_single:
  assumes "dead_workers c = [m]" "maybeRebalance True (cleared c m) = Inr c'"
  shows "\<exists>n. failure_watch (\<lambda>_. True) (replicate n (0, Redis_ok)) c = (c', [Rc_run m Rb_done])"
proof -
  obtain n where n: "rb_iter True n (rb_start True Redis_ok (cleared c m)) = (c', Rb_done)"
    using run_alone [of True "cleared c m"] assms(2) by auto
  obtain d pc where d: "rb_start True Redis_ok (cleared c m) = (d, pc)" by fastforce
  have s: "watch_start (\<lambda>_. True) c = (clearMachine c m Recovery, [Rc_cleared m])"
    by (simp add: watch_start_def assms(1) start_recovery_def clear_redis_ok)
  have cl: "(clearMachine c m Recovery)\<lparr>membership := snd (removeWorker (membership (clearMachine c m Recovery)) m)\<rparr> = cleared c m"
    by (simp add: cleared_def clear_cluster_frame)
  have "watch_step (clearMachine c m Recovery, [Rc_cleared m]) (0, Redis_ok) = (d, [Rc_run m pc])"
    unfolding watch_step_def using d by (simp add: cl)
  then have "failure_watch (\<lambda>_. True) (replicate (Suc n) (0, Redis_ok)) c = (c', [Rc_run m Rb_done])"
    using watch_alone [of d m pc n] n by (simp add: failure_watch_def s d)
  then show ?thesis by blast
qed

text \<open>
  C6. A check of the failure watch, on a consistent cluster with no empty machine identifier.  In whatever
  order the recoveries it starts advance and whatever Redis answers, it removes only workers silent for
  longer than the dead limit, keeps all others, and a shard ends unowned, with its owner of before, or with
  a worker that was registered and not being updated at the check.  When exactly one worker is dead, Redis
  accepts every command and nothing interferes, its recovery ends, that worker is removed and owns nothing,
  and when a live worker that is not being updated remains every shard is owned.
\<close>

theorem failure_watch_recovers:
  assumes "plane_ok c"
  shows "(\<forall>up sched. let c' = fst (failure_watch up sched c) in
      set (members c) - set (dead_workers c) \<subseteq> set (members c') \<and> set (members c') \<subseteq> set (members c) \<and>
      (\<forall>s m. ownerOf (shardMap c') s = Some m \<longrightarrow> m \<in> available_ids c \<or> ownerOf (shardMap c) s = Some m)) \<and>
    (\<forall>m. dead_workers c = [m] \<longrightarrow>
      (\<exists>n c'. failure_watch (\<lambda>_. True) (replicate n (0, Redis_ok)) c = (c', [Rc_run m Rb_done]) \<and>
        members c' = filter (\<lambda>x. x \<noteq> m) (members c) \<and> (\<forall>s. ownerOf (shardMap c') s \<noteq> Some m) \<and>
        (available_ids c - {m} \<noteq> {} \<longrightarrow>
          (\<forall>s. 0 \<le> s \<and> s < totalShards (shardMap c) \<longrightarrow> ownerOf (shardMap c') s \<noteq> None))))"
proof (intro conjI allI impI)
  fix up sched
  let ?R = "\<lambda>s m. m \<noteq> [] \<and> (m \<in> available_ids c \<or> ownerOf (shardMap c) s = Some m)"
  let ?f = "failure_watch up sched c"
  have inv: "watch_inv ?R (totalShards (shardMap c)) c ?f" by (rule failure_watch_inv [OF plane_run_inv [OF assms]])
  have "rc_machine ` set (snd ?f) = set (dead_workers c)" by (metis list.set_map watch_machines)
  then have "removed (snd ?f) \<subseteq> set (dead_workers c)"
    by (force simp: removed_def)
  then show "let c' = fst ?f in
      set (members c) - set (dead_workers c) \<subseteq> set (members c') \<and> set (members c') \<subseteq> set (members c) \<and>
      (\<forall>s m. ownerOf (shardMap c') s = Some m \<longrightarrow> m \<in> available_ids c \<or> ownerOf (shardMap c) s = Some m)"
    using inv unfolding Let_def watch_inv_def run_inv_def by auto
next
  fix m assume d: "dead_workers c = [m]"
  note r = recover_worker_facts [OF assms, of m, unfolded Let_def]
  show "\<exists>n c'. failure_watch (\<lambda>_. True) (replicate n (0, Redis_ok)) c = (c', [Rc_run m Rb_done]) \<and>
        members c' = filter (\<lambda>x. x \<noteq> m) (members c) \<and> (\<forall>s. ownerOf (shardMap c') s \<noteq> Some m) \<and>
        (available_ids c - {m} \<noteq> {} \<longrightarrow>
          (\<forall>s. 0 \<le> s \<and> s < totalShards (shardMap c) \<longrightarrow> ownerOf (shardMap c') s \<noteq> None))"
    using failure_watch_single [OF d, of "recover_worker c m"] r by blast
qed
definition demo_silent :: cluster where
  "demo_silent =
     (let c = demo_cluster (demo_env LeastLoaded []) [(''a'', [0, 1]), (''b'', [2, 3])]
      in c\<lparr>clock := 30000, membership := touch (membership c) 29000 ''b''\<rparr>)"

lemma demo_silent_ok: "plane_ok demo_silent" "\<forall>m. announced demo_silent m" "control_ok demo_silent"
proof -
  let ?c = "demo_cluster (demo_env LeastLoaded []) [(''a'', [0, 1]), (''b'', [2, 3])]"
  show "control_ok demo_silent"
    using demo_cluster_ok(4) [of "demo_env LeastLoaded []"] by (simp add: demo_silent_def cluster_ok_def control_ok_def Let_def)
  moreover have "mb_ok (membership demo_silent)"
    using demo_cluster_ok(4) [of "demo_env LeastLoaded []"] unfolding touch_def
    by (simp add: demo_silent_def cluster_ok_def update_worker_ok Let_def touch_def)
  moreover have "named (shardMap demo_silent)"
    by (auto simp: demo_silent_def named_def demo_cluster_def ownerOf_def jm_get_def Let_def split: if_splits)
  moreover have "members demo_silent = [''a'', ''b'']" by code_simp
  ultimately show "plane_ok demo_silent" by (simp add: plane_ok_def cluster_ok_def)
  show "\<forall>m. announced demo_silent m"
    by (auto simp: demo_silent_def demo_cluster_def announced_def told_def shardsFor_def js_sort_num_eq Let_def)
qed

theorem failure_watch_recovers_witness:
  "dead_workers demo_silent = [''a''] \<and> (\<exists>n c'. failure_watch (\<lambda>_. True) (replicate n (0, Redis_ok)) demo_silent =
     (c', [Rc_run ''a'' Rb_done]) \<and> members c' = [''b''] \<and> ownerOf (shardMap c') 0 \<noteq> None)"
proof -
  have v: "dead_workers demo_silent = [''a'']" "members demo_silent = [''a'', ''b'']" "updating demo_silent = []"
    "totalShards (shardMap demo_silent) = 4"
    by code_simp+
  have av: "available_ids demo_silent = {''a'', ''b''}" by (simp add: available_ids_def v)
  show ?thesis using failure_watch_recovers [OF demo_silent_ok(1), unfolded v av] v(1) by fastforce
qed

text \<open>Three workers, two of them silent.\<close>

definition demo_two_silent :: cluster where
  "demo_two_silent =
     (let c = demo_cluster (demo_env LeastLoaded []) [(''a'', [0, 1]), (''b'', [2]), (''d'', [3])];
          mb = (membership c)\<lparr>workers := workers (membership c) @ [(''d'', demo_worker ''d'')]\<rparr>
      in c\<lparr>clock := 30000, membership := touch mb 29000 ''d''\<rparr>)"

definition demo_schedule :: "(nat \<times> redis_answer) list" where
  "demo_schedule = map (\<lambda>i. (i, Redis_ok)) [0, 1, 0, 1, 0, 1, 0, 1, 0, 1]"

text \<open>
  C7. When two workers die between two checks, their recoveries run at the same time: the first rebalances
  while the second worker is cleared but still registered, and gives it shards.  In this run Redis accepts
  every command and both recoveries end; the second worker is removed and yet owns two shards, no later
  check finds anybody dead, and another forced rebalance leaves the shards where they are.
\<close>

theorem two_dead_strand_shards:
  "dead_workers demo_two_silent = [''a'', ''b''] \<and> (\<forall>m. announced demo_two_silent m) \<and>
   (let (c, rs) = failure_watch (\<lambda>_. True) demo_schedule demo_two_silent in
      rs = [Rc_run ''a'' Rb_done, Rc_run ''b'' Rb_done] \<and> members c = [''d''] \<and> dead_workers c = [] \<and>
      shardsFor (shardMap c) ''b'' = [0, 1] \<and>
      (case maybeRebalance True c of Inl e \<Rightarrow> False | Inr c' \<Rightarrow> shardsFor (shardMap c') ''b'' = [0, 1]))"
proof (intro conjI)
  show "\<forall>m. announced demo_two_silent m"
    by (auto simp: demo_two_silent_def demo_cluster_def announced_def told_def shardsFor_def js_sort_num_eq Let_def)
qed code_simp+

subsection \<open>Shard shifts\<close>

text \<open>
  On a consistent map (\<open>shardmap_ok\<close>: owned shards are in range) with no empty owner, a shard is shifted
  only for a request that carries a valid machine token and names a shard in range and a registered worker;
  any other request fails with 400, 401 or 404 and changes nothing.  A valid request moves exactly that shard,
  and succeeds when Redis accepts the commands; when Redis rejects one the answer can be 400 although the
  shard has moved.
\<close>

theorem shard_shift_guarded:
  assumes "shardmap_ok (shardMap c)" "named (shardMap c)" and r: "shard_shift tc ans1 ans2 c auth shardId to = (r, c')"
  defines "t \<equiv> (case to of None \<Rightarrow> [] | Some t \<Rightarrow> js_trim t)"
  defines "valid \<equiv> requireMachineAuth tc (mc_clusterSecret (mb_config (membership c))) (clock c) auth \<noteq> None \<and>
      (\<exists>s. shardId = Some s \<and> 0 \<le> s \<and> s < totalShards (shardMap c)) \<and> t \<noteq> [] \<and> jm_get (workers (membership c)) t \<noteq> None"
  shows "(\<not> valid \<longrightarrow> c' = c \<and> (\<exists>code reason. r = Failure code reason \<and> code \<in> {400, 401, 404})) \<and>
    (valid \<longrightarrow> (\<forall>x. ownerOf (shardMap c') x = (if Some x = shardId then Some t else ownerOf (shardMap c) x)) \<and>
       (r = Failure 400 INTERNAL \<or>
        r = Reply \<lparr>sr_shardId = the shardId, sr_from = ownerOf (shardMap c) (the shardId), sr_to = t,
              sr_generation = generation (shardMap c'), sr_dump = dump (shardMap c')\<rparr>) \<and>
       (ans1 = Redis_ok \<and> ans2 = Redis_ok \<longrightarrow> (\<exists>reply. r = Reply reply)))"
proof (cases "requireMachineAuth tc (mc_clusterSecret (mb_config (membership c))) (clock c) auth")
  case None
  then show ?thesis using r by (auto simp: shard_shift_def valid_def)
next
  case auth: (Some m)
  show ?thesis
  proof (cases "\<exists>s. shardId = Some s \<and> 0 \<le> s \<and> t \<noteq> [] \<and> jm_get (workers (membership c)) t \<noteq> None")
    case False
    then have nv: "\<not> valid" by (auto simp: valid_def)
    have "c' = c \<and> (\<exists>code reason. r = Failure code reason \<and> code \<in> {400, 401, 404})"
      using r auth False unfolding shard_shift_def t_def [symmetric] by (auto simp: Let_def split: option.splits if_splits)
    then show ?thesis using nv by blast
  next
    case True
    then obtain s where s: "shardId = Some s" "0 \<le> s" and t: "t \<noteq> []" "jm_get (workers (membership c)) t \<noteq> None"
      by blast
    have run: "(r, c') = (case move_redis ans1 ans2 c s t Manual True of
          (Inl e, c') \<Rightarrow> (Failure 400 INTERNAL, c')
        | (Inr from, c') \<Rightarrow>
            (Reply \<lparr>sr_shardId = s, sr_from = from, sr_to = t, sr_generation = generation (shardMap c'),
               sr_dump = dump (shardMap c')\<rparr>, c'))"
      unfolding r [symmetric] shard_shift_def t_def [symmetric]
      using s(2) by (simp only: Let_def auth s(1) option.case if_not_P [OF t(1)] if_not_P [OF t(2)] not_less [symmetric]
          if_False simp_thms)
    show ?thesis
    proof (cases "s < totalShards (shardMap c)")
      case in_range: True
      have nm: "ownerOf (shardMap c) s \<noteq> Some []" using assms(2) by (simp add: named_def)
      obtain x d where d: "move_redis ans1 ans2 c s t Manual True = (x, d)"
          "\<forall>y. ownerOf (shardMap d) y = (if y = s then Some t else ownerOf (shardMap c) y)"
          "x = Inl RedisFailed \<or> x = Inr (ownerOf (shardMap c) s)"
          "ans1 = Redis_ok \<and> ans2 = Redis_ok \<longrightarrow> x = Inr (ownerOf (shardMap c) s)"
        using move_redis_done [OF assms(1) nm s(2) in_range, of ans1 ans2 t Manual True] by (elim exE conjE) (rule that)
      have v: valid using auth s in_range t by (simp add: valid_def)
      show ?thesis using run v d by (auto simp: s(1))
    next
      case out: False
      then have "move_redis ans1 ans2 c s t Manual True = (Inl (ShardOutOfRange s), c)"
        by (simp add: move_redis_def out_of_range_def)
      then have "r = Failure 400 INTERNAL" "c' = c" using run by simp_all
      moreover have "\<not> valid" using out s(1) by (simp add: valid_def)
      ultimately show ?thesis by simp
    qed
  qed
qed

theorem shard_shift_guarded_witness:
  "ownerOf (shardMap demo_silent) 0 = Some ''a'' \<and>
   (\<exists>d c'. shard_shift demo_codec Redis_ok Redis_ok demo_silent (Some ''Bearer claims.0aclaims'') (Some 0) (Some '' b '') = (Reply d, c') \<and>
      ownerOf (shardMap c') 0 = Some ''b'' \<and> ownerOf (shardMap c') 1 = Some ''a'') \<and>
   (\<exists>c'. shard_shift demo_codec Rejects_publish Redis_ok demo_silent (Some ''Bearer claims.0aclaims'') (Some 0) (Some '' b '') =
        (Failure 400 INTERNAL, c') \<and> ownerOf (shardMap c') 0 = Some ''b'')"
proof -
  have ok: "shardmap_ok (shardMap demo_silent)" "named (shardMap demo_silent)"
    using demo_silent_ok(1) by (simp_all add: plane_ok_def cluster_ok_def control_ok_def)
  let ?a = "Some ''Bearer claims.0aclaims''"
  have v: "requireMachineAuth demo_codec (mc_clusterSecret (mb_config (membership demo_silent))) (clock demo_silent) ?a \<noteq> None"
    "js_trim '' b '' = ''b''" "jm_get (workers (membership demo_silent)) ''b'' \<noteq> None" "totalShards (shardMap demo_silent) = 4"
    "ownerOf (shardMap demo_silent) 0 = Some ''a''" "ownerOf (shardMap demo_silent) 1 = Some ''a''"
    "fst (shard_shift demo_codec Rejects_publish Redis_ok demo_silent ?a (Some 0) (Some '' b '')) = Failure 400 INTERNAL"
    by code_simp+
  let ?r1 = "shard_shift demo_codec Redis_ok Redis_ok demo_silent ?a (Some 0) (Some '' b '')"
  let ?r2 = "shard_shift demo_codec Rejects_publish Redis_ok demo_silent ?a (Some 0) (Some '' b '')"
  note g = shard_shift_guarded [OF ok surjective_pairing, where tc = demo_codec and auth = ?a and shardId = "Some 0" and to = "Some '' b ''"]
  have g1: "\<exists>d. fst ?r1 = Reply d" "ownerOf (shardMap (snd ?r1)) 0 = Some ''b''" "ownerOf (shardMap (snd ?r1)) 1 = Some ''a''"
    using g [where ?ans1.0 = Redis_ok and ?ans2.0 = Redis_ok] v by simp_all
  have g2: "ownerOf (shardMap (snd ?r2)) 0 = Some ''b''"
    using g [where ?ans1.0 = Rejects_publish and ?ans2.0 = Redis_ok] v by (simp cong: if_cong)
  obtain d where d: "fst ?r1 = Reply d" using g1(1) by blast
  have "?r1 = (Reply d, snd ?r1)" using d by (metis prod.collapse)
  moreover have "?r2 = (Failure 400 INTERNAL, snd ?r2)" using v(7) by (metis prod.collapse)
  ultimately show ?thesis using g1 g2 v(5) by blast
qed

subsection \<open>A new orchestrator\<close>

lemma new_cluster_step:
  assumes "listWorkers (membership c) = []" "owner (shardMap c) = []" "generation (shardMap c) = g"
  shows "\<exists>d. cp_step (c, []) ev = (d, []) \<and> listWorkers (membership d) = [] \<and> owner (shardMap d) = [] \<and>
    generation (shardMap d) = g"
proof -
  have w: "workers (membership c) = []" using assms(1) by (simp add: listWorkers_def)
  have none: "update_worker mb m f = mb" if "workers mb = []" for mb m f
    using that by (simp add: update_worker_def)
  have av: "available c = []" using assms(1) by (simp add: available_def)
  have fill: "fillUnownedShards reason c = Inr (False, c)" for reason by (simp add: fillUnownedShards_def av)
  show ?thesis
  proof (cases ev)
    case (Ev_heartbeat hb)
    have "workers (membership (on_heartbeat c hb)) = []"
      by (simp add: on_heartbeat_def Let_def mb_updates none w bumpGeneration_workers split: option.split)
    then show ?thesis using assms by (simp add: Ev_heartbeat listWorkers_def on_heartbeat_def Let_def)
  next
    case (Ev_rebalance force)
    have "maybeRebalance force c \<in> {Inr c, Inr (stamp c)}" by (simp add: maybeRebalance_def fill av)
    then show ?thesis using assms by (auto simp: Ev_rebalance rebalance_timer_def)
  qed (use assms in \<open>simp_all add: on_stats_def recordStats_def watch_start_def watch_step_def dead_workers_def\<close>)
qed

text \<open>
  A new orchestrator does not rebuild its view from heartbeats: whatever the running workers send it,
  it registers none of them and gives out no shard until one asks to register again.
\<close>

theorem restart_forgets_workers:
  "\<exists>c. foldl cp_step (new_cluster e config desired \<lparr>generation = 1, totalShards = n, owner = [], sm_prefix = p\<rparr> q now, []) evs = (c, []) \<and>
     listWorkers (membership c) = [] \<and> (\<forall>s. ownerOf (shardMap c) s = None) \<and> generation (shardMap c) = 1"
proof -
  have "\<exists>d. foldl cp_step (c, []) evs = (d, []) \<and> listWorkers (membership d) = [] \<and> owner (shardMap d) = [] \<and> generation (shardMap d) = 1"
    if "listWorkers (membership c) = []" "owner (shardMap c) = []" "generation (shardMap c) = 1" for c
    using that
  proof (induction evs arbitrary: c)
    case (Cons ev evs)
    obtain d where "cp_step (c, []) ev = (d, [])" "listWorkers (membership d) = []" "owner (shardMap d) = []" "generation (shardMap d) = 1"
      using new_cluster_step [OF Cons.prems, of ev] by blast
    then show ?case using Cons.IH [of d] by simp
  qed simp
  from this [of "new_cluster e config desired \<lparr>generation = 1, totalShards = n, owner = [], sm_prefix = p\<rparr> q now"]
  show ?thesis by (auto simp: new_cluster_def new_Membership_def listWorkers_def ownerOf_def)
qed

end
