(* ===== verification/ShardAdapter.thy ===== *)
theory ShardAdapter
  imports ShardMap
begin

text \<open>
  \<open>src/core/manager/discordShardAdapter.ts\<close>: one Discord client per shard.  Waiting for a grant, setting up
  the client and logging in are the orchestrator's and Discord's part: \<open>outcome\<close> says, for each shard, how
  they end.  \<open>Spawn_no_grant\<close> is a failure before the entry is stored, \<open>Spawn_setup_failed\<close> one between the
  entry and the login (the import, the binding of the events, the token), which leaves the entry behind
  unready, and \<open>Spawn_login_failed\<close> one of the login, which removes it.  A failure leaves the connections
  changed so far, so an operation returns the error, if any, and the state.  One \<open>applyShardSet\<close> runs at a
  time and every login ends; events and logging are left out.
\<close>

subsection \<open>State and operations\<close>

record ManagedShard =
  ms_shardCount :: int
  ms_ready :: bool

record DiscordShardAdapter =
  managed :: "(shard_id, ManagedShard) jsmap"
  sa_totalShards :: int

datatype spawn_outcome = Spawn_ready | Spawn_no_grant | Spawn_setup_failed | Spawn_login_failed

datatype shard_failure = Grant_failed shard_id | Setup_failed shard_id | Login_failed shard_id

definition new_DiscordShardAdapter :: DiscordShardAdapter where
  "new_DiscordShardAdapter = \<lparr>managed = [], sa_totalShards = 1\<rparr>"

definition getShardIds :: "DiscordShardAdapter \<Rightarrow> shard_id list" where
  "getShardIds a = js_sort_num (jm_keys (managed a))"

definition sameSet :: "shard_id list \<Rightarrow> shard_id list \<Rightarrow> bool" where
  "sameSet a b = (length a = length b \<and> js_sort_num a = js_sort_num b)"

definition getPrimaryClient :: "DiscordShardAdapter \<Rightarrow> shard_id option" where
  "getPrimaryClient a = (case getShardIds a of [] \<Rightarrow> None | s # _ \<Rightarrow> Some s)"

definition shardIdForGuild :: "int \<Rightarrow> nat \<Rightarrow> int" where
  "shardIdForGuild n guildId = drop_bit 22 (int guildId) mod n"

definition getClientForGuild :: "DiscordShardAdapter \<Rightarrow> nat \<Rightarrow> ManagedShard option" where
  "getClientForGuild a guildId = jm_get (managed a) (shardIdForGuild (max 1 (sa_totalShards a)) guildId)"

definition is_ready :: "DiscordShardAdapter \<Rightarrow> shard_id \<Rightarrow> bool" where
  "is_ready a s = (case jm_get (managed a) s of None \<Rightarrow> False | Some e \<Rightarrow> ms_ready e)"

definition adapter_ready :: "DiscordShardAdapter \<Rightarrow> bool" where
  "adapter_ready a = (getShardIds a \<noteq> [] \<and> (\<forall>s \<in> set (getShardIds a). is_ready a s))"

definition dropShard :: "DiscordShardAdapter \<Rightarrow> shard_id \<Rightarrow> DiscordShardAdapter" where
  "dropShard a s = a\<lparr>managed := jm_delete (managed a) s\<rparr>"

definition destroyAll :: "DiscordShardAdapter \<Rightarrow> DiscordShardAdapter" where
  "destroyAll a = foldl dropShard a (jm_keys (managed a))"

definition spawnShard ::
  "(shard_id \<Rightarrow> spawn_outcome) \<Rightarrow> DiscordShardAdapter \<Rightarrow> shard_id \<Rightarrow> shard_failure option \<times> DiscordShardAdapter" where
  "spawnShard outcome a s =
     (if is_ready a s then (None, a)
      else (let entry = \<lparr>ms_shardCount = sa_totalShards a, ms_ready = False\<rparr>;
                a1 = a\<lparr>managed := jm_set (managed a) s entry\<rparr>
            in case outcome s of
                 Spawn_no_grant \<Rightarrow> (Some (Grant_failed s), a)
               | Spawn_setup_failed \<Rightarrow> (Some (Setup_failed s), a1)
               | Spawn_login_failed \<Rightarrow> (Some (Login_failed s), a1\<lparr>managed := jm_delete (managed a1) s\<rparr>)
               | Spawn_ready \<Rightarrow> (None, a1\<lparr>managed := jm_set (managed a1) s (entry\<lparr>ms_ready := True\<rparr>)\<rparr>)))"

fun spawn_all ::
  "(shard_id \<Rightarrow> spawn_outcome) \<Rightarrow> DiscordShardAdapter \<Rightarrow> shard_id list \<Rightarrow> shard_failure option \<times> DiscordShardAdapter" where
  "spawn_all outcome a [] = (None, a)"
| "spawn_all outcome a (s # ss) =
     (case spawnShard outcome a s of
        (Some e, a') \<Rightarrow> (Some e, a')
      | (None, a') \<Rightarrow> spawn_all outcome a' ss)"

definition runApply ::
  "(shard_id \<Rightarrow> spawn_outcome) \<Rightarrow> DiscordShardAdapter \<Rightarrow> shard_id list \<Rightarrow> int
   \<Rightarrow> shard_failure option \<times> DiscordShardAdapter" where
  "runApply outcome a nextIds shardCount =
     (let previousTotal = sa_totalShards a;
          a0 = a\<lparr>sa_totalShards := shardCount\<rparr>;
          nxt = js_sort_num nextIds;
          current = jm_keys (managed a0);
          setUnchanged = sameSet current nxt
      in if nxt = [] then (None, foldl dropShard a0 current)
         else if setUnchanged \<and> previousTotal = shardCount \<and> (\<forall>s \<in> set nxt. is_ready a0 s) then (None, a0)
         else (let recreate = (setUnchanged \<and> previousTotal \<noteq> shardCount);
                   toRemove = (if recreate then current else filter (\<lambda>s. s \<notin> set nxt) current);
                   toAdd = (if recreate then nxt else filter (\<lambda>s. s \<notin> set current) nxt)
               in spawn_all outcome (foldl dropShard a0 toRemove) toAdd))"

subsection \<open>What applying a set of shards does\<close>

lemma foldl_dropShard: "foldl dropShard a ss = a\<lparr>managed := jm.del_all (managed a) ss\<rparr>"
  by (induction ss arbitrary: a) (simp_all add: dropShard_def jm.del_all_def)

definition unready :: "DiscordShardAdapter \<Rightarrow> shard_id \<Rightarrow> bool" where
  "unready a s = (s \<in> set (jm_keys (managed a)) \<and> \<not> is_ready a s)"

lemma unready_iff: "unready a s \<longleftrightarrow> (\<exists>e. jm_get (managed a) s = Some e \<and> \<not> ms_ready e)"
  by (auto simp: unready_def is_ready_def set_jm_keys simp del: set_map)

lemma spawnShard_facts:
  assumes "spawnShard outcome a s = (e, a')"
  shows "sa_totalShards a' = sa_totalShards a"
    "\<And>t. t \<noteq> s \<Longrightarrow> jm_get (managed a') t = jm_get (managed a) t"
    "e = None \<Longrightarrow> is_ready a' s" "is_ready a s \<Longrightarrow> a' = a"
    "\<not> is_ready a s \<Longrightarrow> e = None \<Longrightarrow> jm_get (managed a') s = Some \<lparr>ms_shardCount = sa_totalShards a, ms_ready = True\<rparr>"
    "outcome s = Spawn_ready \<Longrightarrow> e = None" "jm_wf (managed a) \<Longrightarrow> jm_wf (managed a')"
  using assms by (auto simp: spawnShard_def Let_def is_ready_def split: if_splits spawn_outcome.splits)

lemma spawn_all_facts:
  assumes "spawn_all outcome a ss = (e, a')"
  shows "sa_totalShards a' = sa_totalShards a \<and> (jm_wf (managed a) \<longrightarrow> jm_wf (managed a')) \<and>
    (\<forall>t. t \<notin> set ss \<or> is_ready a t \<longrightarrow> jm_get (managed a') t = jm_get (managed a) t) \<and>
    (e = None \<longrightarrow> (\<forall>t \<in> set ss. \<not> is_ready a t \<longrightarrow>
       jm_get (managed a') t = Some \<lparr>ms_shardCount = sa_totalShards a, ms_ready = True\<rparr>)) \<and>
    ((\<forall>t \<in> set ss. outcome t = Spawn_ready) \<longrightarrow> e = None)"
  using assms
proof (induction outcome a ss rule: spawn_all.induct)
  case (2 outcome a s ss)
  obtain e1 a1 where sp: "spawnShard outcome a s = (e1, a1)" by (cases "spawnShard outcome a s")
  note f = spawnShard_facts [OF sp]
  have same: "is_ready a1 t = is_ready a t" if "t \<noteq> s \<or> is_ready a s" for t
    using that f(2) [of t] f(4) by (auto simp: is_ready_def)
  have keep: "jm_get (managed a1) t = jm_get (managed a) t" if "t \<noteq> s \<or> is_ready a s" for t
    using that f(2) [of t] f(4) by auto
  show ?case
  proof (cases e1)
    case None
    then have "spawn_all outcome a1 ss = (e, a')" using "2.prems" by (simp add: sp)
    note IH = "2.IH" [OF sp [symmetric] None this]
    have s: "is_ready a1 s" by (rule f(3) [OF None])
    have "jm_get (managed a') s = jm_get (managed a1) s" using IH s by blast
    then have got: "\<not> is_ready a s \<Longrightarrow> jm_get (managed a') s = Some \<lparr>ms_shardCount = sa_totalShards a, ms_ready = True\<rparr>"
      using f(5) None by simp
    show ?thesis
      using IH f(1,7) same keep s got by (auto) metis+
  next
    case (Some x)
    then have "e = e1" "a' = a1" using "2.prems" by (simp_all add: sp)
    moreover have "jm_get (managed a1) t = jm_get (managed a) t" if "is_ready a t" for t
      by (rule keep) (use that in blast)
    ultimately show ?thesis using f(1,6,7) keep Some by auto
  qed
qed simp

text \<open>\<open>adapter_ok\<close>: every connection is ready.\<close>

definition adapter_ok :: "DiscordShardAdapter \<Rightarrow> bool" where
  "adapter_ok a = (jm_wf (managed a) \<and> (\<forall>s e. jm_get (managed a) s = Some e \<longrightarrow> ms_ready e))"

lemma adapter_ok_unready: "adapter_ok a \<longleftrightarrow> jm_wf (managed a) \<and> (\<forall>s. \<not> unready a s)"
  by (auto simp: adapter_ok_def unready_iff)

text \<open>The connections that are not ready are the ones from before and one whose set-up just failed.\<close>

definition blamed :: "(shard_id \<Rightarrow> spawn_outcome) \<Rightarrow> DiscordShardAdapter \<Rightarrow> shard_failure option \<Rightarrow> DiscordShardAdapter \<Rightarrow> bool" where
  "blamed outcome a e a' = (\<forall>t. unready a' t \<longrightarrow> unready a t \<or> outcome t = Spawn_setup_failed \<and> e = Some (Setup_failed t))"

lemma spawnShard_blamed:
  "spawnShard outcome a s = (e, a') \<Longrightarrow> jm_wf (managed a) \<Longrightarrow>
     blamed outcome a e a' \<and> set (jm_keys (managed a')) \<subseteq> insert s (set (jm_keys (managed a)))"
  by (auto simp: spawnShard_def Let_def blamed_def unready_iff set_jm_keys simp del: set_map split: if_splits spawn_outcome.splits)

lemma spawn_all_blamed:
  "spawn_all outcome a ss = (e, a') \<Longrightarrow> jm_wf (managed a) \<Longrightarrow>
     blamed outcome a e a' \<and> set (jm_keys (managed a')) \<subseteq> set ss \<union> set (jm_keys (managed a))"
proof (induction outcome a ss rule: spawn_all.induct)
  case (2 outcome a s ss)
  obtain e1 a1 where sp: "spawnShard outcome a s = (e1, a1)" by (cases "spawnShard outcome a s")
  note f = spawnShard_blamed [OF sp "2.prems"(2)] and wf = spawnShard_facts(7) [OF sp "2.prems"(2)]
  show ?case
  proof (cases e1)
    case None
    then have "spawn_all outcome a1 ss = (e, a')" using "2.prems" by (simp add: sp)
    note IH = "2.IH" [OF sp [symmetric] None this wf]
    have "blamed outcome a e a'" using IH f None by (auto simp: blamed_def)
    moreover have "set (jm_keys (managed a')) \<subseteq> set (s # ss) \<union> set (jm_keys (managed a))"
      using IH [THEN conjunct2] f [THEN conjunct2] by (simp only: list.set) blast
    ultimately show ?thesis by blast
  next
    case (Some x)
    then show ?thesis using "2.prems" f by (auto simp: sp)
  qed
qed (simp add: blamed_def)

lemma drop_ok:
  assumes "jm_wf (managed a)"
  shows "jm_wf (managed (foldl dropShard a ss))"
    "set (jm_keys (managed (foldl dropShard a ss))) = set (jm_keys (managed a)) - set ss"
    "is_ready (foldl dropShard a ss) s = (is_ready a s \<and> s \<notin> set ss)"
    "jm_get (managed (foldl dropShard a ss)) s = (if s \<in> set ss then None else jm_get (managed a) s)"
    "unready (foldl dropShard a ss) s \<longleftrightarrow> unready a s \<and> s \<notin> set ss"
  using assms
  by (auto simp: foldl_dropShard jm.ok_del_all is_ready_def unready_iff set_jm_keys jm.get_del_all simp del: set_map
      split: option.splits)

text \<open>The three ways of applying a set, as one case rule.\<close>

lemma runApply_cases:
  assumes "runApply outcome a ids n = (e, a')"
  obtains (empty) "ids = []" "e = None" "a' = foldl dropShard (a\<lparr>sa_totalShards := n\<rparr>) (jm_keys (managed a))"
  | (unchanged) "ids \<noteq> []" "sameSet (jm_keys (managed a)) (sort ids)" "sa_totalShards a = n" "e = None"
      "a' = a\<lparr>sa_totalShards := n\<rparr>"
  | (recreated) "ids \<noteq> []" "sameSet (jm_keys (managed a)) (sort ids)" "sa_totalShards a \<noteq> n"
      "spawn_all outcome (foldl dropShard (a\<lparr>sa_totalShards := n\<rparr>) (jm_keys (managed a))) (sort ids) = (e, a')"
  | (diff) "ids \<noteq> []" "\<not> sameSet (jm_keys (managed a)) (sort ids) \<or>
        sa_totalShards a = n \<and> \<not> (\<forall>s \<in> set ids. is_ready a s)"
      "spawn_all outcome (foldl dropShard (a\<lparr>sa_totalShards := n\<rparr>) (filter (\<lambda>s. s \<notin> set ids) (jm_keys (managed a))))
        (filter (\<lambda>s. s \<notin> set (jm_keys (managed a))) (sort ids)) = (e, a')"
proof (cases "ids = []")
  case True
  then show ?thesis using assms by (intro empty) (simp_all add: runApply_def js_sort_num_eq)
next
  case False
  have r: "is_ready (a\<lparr>sa_totalShards := n\<rparr>) s = is_ready a s" for s by (simp add: is_ready_def)
  have ne: "sort ids \<noteq> []" using False by (metis set_empty set_sort)
  show ?thesis
    using assms False ne
    by (cases "sameSet (jm_keys (managed a)) (sort ids)"; cases "sa_totalShards a = n"; cases "\<forall>s \<in> set ids. is_ready a s")
      (auto simp: runApply_def Let_def js_sort_num_eq r intro: unchanged recreated diff)
qed

lemma sameSet_iff: "distinct xs \<Longrightarrow> sameSet xs ys \<Longrightarrow> set xs = set ys"
  unfolding sameSet_def by (metis set_js_sort_num)

lemma runApply_ok:
  assumes "runApply outcome a ids n = (e, a')" "jm_wf (managed a)"
  shows "jm_wf (managed a') \<and> set (jm_keys (managed a')) \<subseteq> set ids \<and> sa_totalShards a' = n \<and> blamed outcome a e a'"
proof -
  let ?a = "a\<lparr>sa_totalShards := n\<rparr>"
  have ok0: "jm_wf (managed ?a)" using assms(2) by simp
  have u0: "unready ?a s \<longleftrightarrow> unready a s" for s by (simp add: unready_iff)
  have d: "distinct (jm_keys (managed a))" using assms(2) by (simp add: jm_wf_def)
  have dropped: "sa_totalShards (foldl dropShard ?a ss) = n" for ss by (simp add: foldl_dropShard)
  have keep: "blamed outcome a e a'" if "blamed outcome (foldl dropShard ?a ss) e a'" for ss
    using that drop_ok(5) [OF ok0, of ss] by (auto simp: blamed_def u0)
  have spawned: "jm_wf (managed a') \<and> sa_totalShards a' = n"
    if "spawn_all outcome (foldl dropShard ?a ss) xs = (e, a')" for ss xs
    using spawn_all_facts [OF that, THEN conjunct1] spawn_all_facts [OF that, THEN conjunct2, THEN conjunct1]
      drop_ok(1) [OF ok0] dropped by metis
  from assms(1) show ?thesis
  proof (cases rule: runApply_cases)
    case empty
    then show ?thesis using drop_ok [OF ok0, of "jm_keys (managed a)"] dropped by (auto simp: blamed_def u0)
  next
    case unchanged
    then show ?thesis using sameSet_iff [OF d unchanged(2)] ok0 by (simp add: blamed_def u0)
  next
    case recreated
    note b = spawn_all_blamed [OF recreated(4) drop_ok(1) [OF ok0]]
    have "set (jm_keys (managed a')) \<subseteq> set ids"
      using b [THEN conjunct2] drop_ok(2) [OF ok0, of "jm_keys (managed a)"] by simp
    then show ?thesis
      using keep [OF b [THEN conjunct1]] spawned [OF recreated(4)] by simp
  next
    case diff
    note b = spawn_all_blamed [OF diff(3) drop_ok(1) [OF ok0]]
    have "set (jm_keys (managed a')) \<subseteq> set ids"
      using b [THEN conjunct2] drop_ok(2) [OF ok0, of "filter (\<lambda>s. s \<notin> set ids) (jm_keys (managed a))"] by (auto simp del: set_map)
    then show ?thesis
      using keep [OF b [THEN conjunct1]] spawned [OF diff(3)] by simp
  qed
qed

lemma live_ready: "adapter_ok a \<Longrightarrow> is_ready a s \<longleftrightarrow> s \<in> set (jm_keys (managed a))"
  by (auto simp: adapter_ok_def is_ready_def set_jm_keys simp del: set_map split: option.splits)

text \<open>What is connected after a successful application, and with which shard count.\<close>

lemma runApply_done:
  assumes run: "runApply outcome a ids n = (e, a')" and ok: "adapter_ok a"
    and ready: "\<forall>s \<in> set ids. outcome s = Spawn_ready" and s: "s \<in> set ids"
  shows "e = None \<and> jm_get (managed a') s =
    (if jm_get (managed a) s = None \<or> set (jm_keys (managed a)) = set ids \<and> distinct ids \<and> sa_totalShards a \<noteq> n
     then Some \<lparr>ms_shardCount = n, ms_ready = True\<rparr> else jm_get (managed a) s)"
proof -
  have ok1: "adapter_ok (a\<lparr>sa_totalShards := n\<rparr>)" using ok by (simp add: adapter_ok_def)
  then have ok0: "jm_wf (managed (a\<lparr>sa_totalShards := n\<rparr>))" by (simp add: adapter_ok_def)
  have d: "distinct (jm_keys (managed a))" using ok by (simp add: adapter_ok_def jm_wf_def)
  have dist: "distinct ids" if "sameSet (jm_keys (managed a)) (sort ids)"
    using that sameSet_iff [OF d that] d unfolding sameSet_def
    by (metis card_distinct distinct_card length_sort set_sort)
  have r0: "is_ready (a\<lparr>sa_totalShards := n\<rparr>) t = (t \<in> set (jm_keys (managed a)))" for t
    using live_ready [OF ok1, of t] by simp
  have get: "(t \<in> set (jm_keys (managed a))) = (jm_get (managed a) t \<noteq> None)" for t
    by (simp add: set_jm_keys del: set_map)
  from run show ?thesis
  proof (cases rule: runApply_cases)
    case unchanged
    then show ?thesis using sameSet_iff [OF d unchanged(2)] s get by auto
  next
    case recreated
    note f = spawn_all_facts [OF recreated(4)]
    have nr: "\<not> is_ready (foldl dropShard (a\<lparr>sa_totalShards := n\<rparr>) (jm_keys (managed a))) s"
      unfolding drop_ok(3) [OF ok0] r0 by simp
    have "e = None" using f ready by simp
    moreover have "jm_get (managed a') s = Some \<lparr>ms_shardCount = n, ms_ready = True\<rparr>"
      using f nr s \<open>e = None\<close> by (simp add: foldl_dropShard)
    ultimately show ?thesis
      using sameSet_iff [OF d recreated(2)] dist [OF recreated(2)] recreated(3) by simp
  next
    case diff
    let ?rm = "filter (\<lambda>s. s \<notin> set ids) (jm_keys (managed a))"
    let ?ad = "filter (\<lambda>s. s \<notin> set (jm_keys (managed a))) (sort ids)"
    note f = spawn_all_facts [OF diff(3)]
    have e: "e = None" using f ready by simp
    have not_all: "\<not> (set (jm_keys (managed a)) = set ids \<and> distinct ids \<and> sa_totalShards a \<noteq> n)"
    proof
      assume h: "set (jm_keys (managed a)) = set ids \<and> distinct ids \<and> sa_totalShards a \<noteq> n"
      then have "sameSet (jm_keys (managed a)) (sort ids)"
        unfolding sameSet_def js_sort_num_eq using d distinct_card [of "jm_keys (managed a)"] distinct_card [of ids]
        by (intro conjI sorted_distinct_set_unique) (simp_all del: set_map)
      then show False using diff(2) h by blast
    qed
    show ?thesis
    proof (cases "s \<in> set (jm_keys (managed a))")
      case True
      then have "s \<notin> set ?ad" by simp
      then have "jm_get (managed a') s = jm_get (managed (foldl dropShard (a\<lparr>sa_totalShards := n\<rparr>) ?rm)) s"
        using f by blast
      also have "\<dots> = jm_get (managed a) s" unfolding drop_ok(4) [OF ok0] using s by simp
      finally show ?thesis using e True not_all get by (auto simp del: set_map)
    next
      case False
      then have in_ad: "s \<in> set ?ad" using s by simp
      have "\<not> is_ready (foldl dropShard (a\<lparr>sa_totalShards := n\<rparr>) ?rm) s"
        unfolding drop_ok(3) [OF ok0] r0 using False by simp
      then have "jm_get (managed a') s = Some \<lparr>ms_shardCount = n, ms_ready = True\<rparr>"
        using f in_ad e by (simp add: foldl_dropShard)
      then show ?thesis using e False get by simp
    qed
  qed (use s in simp)
qed

text \<open>
  C36. Applying a set leaves no connection outside it, whatever grants, set-ups and logins do, and a connection
  that is not ready afterwards was there unready before or is the one whose set-up failed in this call.
  When every connection was ready before and all the spawns succeed, the connections are exactly the
  shards asked for, all ready.
\<close>

theorem runApply_correct:
  assumes "runApply outcome a ids n = (e, a')" "jm_wf (managed a)"
  shows "sa_totalShards a' = n \<and> set (getShardIds a') \<subseteq> set ids \<and>
    (\<forall>s \<in> set (getShardIds a'). is_ready a' s \<or> s \<in> set (getShardIds a) \<and> \<not> is_ready a s \<or>
       outcome s = Spawn_setup_failed \<and> e = Some (Setup_failed s)) \<and>
    ((\<forall>s \<in> set ids. outcome s = Spawn_ready) \<and> (\<forall>s \<in> set (getShardIds a). is_ready a s) \<longrightarrow>
       e = None \<and> set (getShardIds a') = set ids \<and> (ids \<noteq> [] \<longrightarrow> adapter_ready a'))"
proof -
  note ok = runApply_ok [OF assms]
  have all: "set ids \<subseteq> set (jm_keys (managed a'))" "e = None" "adapter_ok a'"
    if ready: "\<forall>s \<in> set ids. outcome s = Spawn_ready" and live: "\<forall>s \<in> set (getShardIds a). is_ready a s"
  proof -
    have ak: "adapter_ok a" using live assms(2) by (auto simp: adapter_ok_unready unready_def getShardIds_def)
    have "jm_get (managed a') s \<noteq> None" if "s \<in> set ids" for s
      using runApply_done [OF assms(1) ak ready that] by (auto split: if_splits)
    then show "set ids \<subseteq> set (jm_keys (managed a'))" unfolding set_jm_keys by blast
    show e: "e = None"
    proof (cases ids)
      case Nil
      then show ?thesis using assms(1) by (simp add: runApply_def js_sort_num_eq)
    next
      case (Cons s ss)
      then show ?thesis using runApply_done [OF assms(1) ak ready, of s] by simp
    qed
    show "adapter_ok a'" using ok ak e by (auto simp: adapter_ok_unready blamed_def)
  qed
  have "adapter_ready a' \<longleftrightarrow> set (getShardIds a') \<noteq> {}" if "adapter_ok a'"
    using live_ready [OF that] unfolding adapter_ready_def set_empty
    by (auto simp: getShardIds_def simp del: set_map)
  then have "e = None \<and> set (getShardIds a') = set ids \<and> (ids \<noteq> [] \<longrightarrow> adapter_ready a')"
    if "\<forall>s \<in> set ids. outcome s = Spawn_ready" "\<forall>s \<in> set (getShardIds a). is_ready a s"
    using all [OF that] ok by (auto simp: getShardIds_def simp del: set_map)
  moreover have "is_ready a' s \<or> s \<in> set (getShardIds a) \<and> \<not> is_ready a s \<or>
       outcome s = Spawn_setup_failed \<and> e = Some (Setup_failed s)" if "s \<in> set (getShardIds a')" for s
    using ok that by (auto simp: blamed_def unready_def getShardIds_def simp del: set_map)
  ultimately show ?thesis using ok by (simp add: getShardIds_def del: set_map)
qed

definition demo_adapter :: DiscordShardAdapter where
  "demo_adapter = \<lparr>managed = [(0, \<lparr>ms_shardCount = 2, ms_ready = True\<rparr>), (1, \<lparr>ms_shardCount = 2, ms_ready = True\<rparr>)],
     sa_totalShards = 2\<rparr>"

lemma demo_adapter_ok: "adapter_ok demo_adapter"
  by (auto simp: adapter_ok_def demo_adapter_def jm_wf_def jm_get_def split: if_splits)

lemma demo_adapter_wf: "jm_wf (managed demo_adapter)"
  using demo_adapter_ok by (simp add: adapter_ok_def)

theorem runApply_correct_witness:
  "set (getShardIds (snd (runApply (\<lambda>s. if s = 3 then Spawn_login_failed else Spawn_ready) demo_adapter [1, 2, 3] 2))) = {1, 2} \<and>
   set (getShardIds (snd (runApply (\<lambda>s. Spawn_ready) demo_adapter [1, 2, 3] 2))) = {1, 2, 3}"
proof
  show "set (getShardIds (snd (runApply (\<lambda>s. if s = 3 then Spawn_login_failed else Spawn_ready) demo_adapter [1, 2, 3] 2))) = {1, 2}"
    by code_simp
  show "set (getShardIds (snd (runApply (\<lambda>s. Spawn_ready) demo_adapter [1, 2, 3] 2))) = {1, 2, 3}"
    using runApply_correct [OF surjective_pairing demo_adapter_wf, where outcome = "\<lambda>s. Spawn_ready" and ids = "[1, 2, 3]" and n = 2]
    by (simp add: demo_adapter_def getShardIds_def is_ready_def jm_get_Cons js_sort_num_eq)
qed

text \<open>
  A shard whose set-up failed is never connected again by later assignments: as long as it stays
  assigned and the total stays the same, applying a set keeps its unready entry, whatever grants, set-ups
  and logins do.
\<close>

theorem unready_shard_stuck:
  assumes "unready a s" "jm_wf (managed a)" "\<forall>x \<in> set runs. s \<in> set (snd x)"
  shows "unready (foldl (\<lambda>b x. snd (runApply (fst x) b (snd x) (sa_totalShards a))) a runs) s"
proof -
  have one: "unready (snd (runApply outcome b ids (sa_totalShards b))) s \<and>
      jm_wf (managed (snd (runApply outcome b ids (sa_totalShards b)))) \<and>
      sa_totalShards (snd (runApply outcome b ids (sa_totalShards b))) = sa_totalShards b"
    if u: "unready b s" and wf: "jm_wf (managed b)" and s: "s \<in> set ids" for outcome b ids
  proof -
    obtain e b' where r: "runApply outcome b ids (sa_totalShards b) = (e, b')" by fastforce
    note ok = runApply_ok [OF r wf]
    from r have "unready b' s"
    proof (cases rule: runApply_cases)
      case diff
      let ?rm = "filter (\<lambda>s. s \<notin> set ids) (jm_keys (managed b))"
      let ?b = "foldl dropShard (b\<lparr>sa_totalShards := sa_totalShards b\<rparr>) ?rm"
      have "jm_get (managed b') s = jm_get (managed ?b) s"
        using spawn_all_facts [OF diff(3)] u by (simp add: unready_def)
      also have "\<dots> = jm_get (managed b) s" using drop_ok(4) [of b ?rm s] wf s by simp
      finally show ?thesis using u by (simp add: unready_iff)
    qed (use u s in simp_all)
    then show ?thesis using ok by (simp add: r)
  qed
  have "unready (foldl (\<lambda>b x. snd (runApply (fst x) b (snd x) n)) b runs) s"
    if "unready b s" "jm_wf (managed b)" "\<forall>x \<in> set runs. s \<in> set (snd x)" "sa_totalShards b = n" for b n
    using that
  proof (induction runs arbitrary: b)
    case (Cons x xs)
    show ?case using one [of b "snd x" "fst x"] Cons.prems by (simp add: Cons.IH)
  qed simp
  then show ?thesis using assms by simp
qed

theorem unready_shard_stuck_witness:
  "unready (foldl (\<lambda>b x. snd (runApply (fst x) b (snd x) 2)) (snd (runApply (\<lambda>s. Spawn_setup_failed) (new_DiscordShardAdapter\<lparr>sa_totalShards := 2\<rparr>) [0] 2))
     [(\<lambda>s. Spawn_ready, [0]), (\<lambda>s. Spawn_ready, [0, 1])]) 0"
proof -
  let ?a = "snd (runApply (\<lambda>s. Spawn_setup_failed) (new_DiscordShardAdapter\<lparr>sa_totalShards := 2\<rparr>) [0] 2)"
  have a: "?a = \<lparr>managed = [(0, \<lparr>ms_shardCount = 2, ms_ready = False\<rparr>)], sa_totalShards = 2\<rparr>"
    by (simp add: runApply_def new_DiscordShardAdapter_def js_sort_num_eq sameSet_def spawnShard_def is_ready_def jm_set_def jm_get_def)
  have "unready ?a 0" "jm_wf (managed ?a)" "sa_totalShards ?a = 2"
    unfolding a by (simp_all add: unready_def is_ready_def jm_get_Cons jm_wf_def)
  then show ?thesis
    using unready_shard_stuck [of ?a 0 "[(\<lambda>s. Spawn_ready, [0]), (\<lambda>s. Spawn_ready, [0, 1])]"] by simp
qed

text \<open>
  When the shard count changes together with the shard set, the shards kept keep clients built for the
  old count, although the adapter then routes guilds by the new one.
\<close>

theorem reshard_keeps_old_clients:
  assumes "runApply outcome a ids n = (e, a')" "adapter_ok a" "\<forall>s \<in> set ids. outcome s = Spawn_ready"
    "s \<in> set ids" "jm_get (managed a) s = Some c" "set (getShardIds a) \<noteq> set ids"
  shows "sa_totalShards a' = n \<and> jm_get (managed a') s = Some c \<and>
    (\<forall>t \<in> set ids. jm_get (managed a) t = None \<longrightarrow> jm_get (managed a') t = Some \<lparr>ms_shardCount = n, ms_ready = True\<rparr>)"
  using runApply_done [OF assms(1-3)] runApply_ok [OF assms(1)] assms(2,4-6) unfolding adapter_ok_def
  by (simp add: getShardIds_def js_sort_num_eq)

theorem reshard_keeps_old_clients_witness:
  "managed (snd (runApply (\<lambda>s. Spawn_ready) demo_adapter [1, 2, 3] 4)) =
     [(1, \<lparr>ms_shardCount = 2, ms_ready = True\<rparr>), (2, \<lparr>ms_shardCount = 4, ms_ready = True\<rparr>),
      (3, \<lparr>ms_shardCount = 4, ms_ready = True\<rparr>)] \<and>
   jm_get (managed (snd (runApply (\<lambda>s. Spawn_ready) demo_adapter [1, 2, 3] 4))) 1 = Some \<lparr>ms_shardCount = 2, ms_ready = True\<rparr>"
proof
  show "managed (snd (runApply (\<lambda>s. Spawn_ready) demo_adapter [1, 2, 3] 4)) =
     [(1, \<lparr>ms_shardCount = 2, ms_ready = True\<rparr>), (2, \<lparr>ms_shardCount = 4, ms_ready = True\<rparr>),
      (3, \<lparr>ms_shardCount = 4, ms_ready = True\<rparr>)]" by code_simp
  have "jm_get (managed demo_adapter) 1 = Some \<lparr>ms_shardCount = 2, ms_ready = True\<rparr>"
    "set (getShardIds demo_adapter) \<noteq> set [1, 2, 3]" by code_simp+
  then show "jm_get (managed (snd (runApply (\<lambda>s. Spawn_ready) demo_adapter [1, 2, 3] 4))) 1 = Some \<lparr>ms_shardCount = 2, ms_ready = True\<rparr>"
    using reshard_keeps_old_clients [OF surjective_pairing demo_adapter_ok, where outcome = "\<lambda>s. Spawn_ready" and ids = "[1, 2, 3]" and n = 4 and s = 1] by simp
qed

end
