(* ===== verification/Worker.thy ===== *)
theory Worker
  imports ShardAdapter
begin

text \<open>
  The worker's side of the control plane: waiting for identify grants
  (\<open>src/core/crosshost/worker/identifyClient.ts\<close>), applying assignments (\<open>worker/runtime.ts\<close>) and the
  dispatch of the messages it subscribes to (\<open>worker/adapter.ts\<close>).  Plugins, databases and Discord are
  outside: \<open>worker_env\<close> says which of those calls succeed.  A promise of \<open>waitFor\<close> is a number, and
  \<open>gw_settled\<close> records how each one ended.  The assignment hooks catch their errors and change nothing here.
\<close>

subsection \<open>Waiting for grants\<close>

record pending_wait =
  pw_id :: nat
  pw_deadline :: int

datatype wait_result = Granted IdentifyGrantMessage | Superseded | Timed_out | Cancelled

record IdentifyGrantWaiter =
  gw_pending :: "(shard_id, pending_wait) jsmap"
  gw_buffered :: "(shard_id, IdentifyGrantMessage) jsmap"
  gw_next :: nat
  gw_settled :: "(nat \<times> shard_id \<times> wait_result) list"

definition new_IdentifyGrantWaiter :: IdentifyGrantWaiter where
  "new_IdentifyGrantWaiter = \<lparr>gw_pending = [], gw_buffered = [], gw_next = 0, gw_settled = []\<rparr>"

definition settle :: "IdentifyGrantWaiter \<Rightarrow> shard_id \<Rightarrow> pending_wait \<Rightarrow> wait_result \<Rightarrow> IdentifyGrantWaiter" where
  "settle w s p r = w\<lparr>gw_pending := jm_delete (gw_pending w) s, gw_settled := gw_settled w @ [(pw_id p, s, r)]\<rparr>"

definition take_buffered :: "IdentifyGrantWaiter \<Rightarrow> int \<Rightarrow> shard_id \<Rightarrow> IdentifyGrantMessage option" where
  "take_buffered w now s =
     (case jm_get (gw_buffered w) s of
        None \<Rightarrow> None
      | Some g \<Rightarrow> if ig_expiresAt g \<ge> now then Some g else None)"

definition waitFor :: "IdentifyGrantWaiter \<Rightarrow> int \<Rightarrow> shard_id \<Rightarrow> int \<Rightarrow> IdentifyGrantWaiter" where
  "waitFor w now s timeoutMs =
     (let w1 = w\<lparr>gw_buffered := jm_delete (gw_buffered w) s\<rparr> in
      case take_buffered w now s of
        Some g \<Rightarrow> w1\<lparr>gw_next := gw_next w + 1, gw_settled := gw_settled w1 @ [(gw_next w, s, Granted g)]\<rparr>
      | None \<Rightarrow>
          (let w2 = (case jm_get (gw_pending w1) s of None \<Rightarrow> w1 | Some p \<Rightarrow> settle w1 s p Superseded)
           in w2\<lparr>gw_next := gw_next w + 1, gw_pending := jm_set (gw_pending w2) s \<lparr>pw_id = gw_next w, pw_deadline = now + timeoutMs\<rparr>\<rparr>))"

definition deliver :: "IdentifyGrantWaiter \<Rightarrow> int \<Rightarrow> IdentifyGrantMessage \<Rightarrow> IdentifyGrantWaiter" where
  "deliver w now g =
     (if ig_expiresAt g < now then w
      else (case jm_get (gw_pending w) (ig_shardId g) of
              None \<Rightarrow> w\<lparr>gw_buffered := jm_set (gw_buffered w) (ig_shardId g) g\<rparr>
            | Some p \<Rightarrow> settle (w\<lparr>gw_buffered := jm_delete (gw_buffered w) (ig_shardId g)\<rparr>) (ig_shardId g) p (Granted g)))"

definition wait_timeout :: "IdentifyGrantWaiter \<Rightarrow> int \<Rightarrow> shard_id \<Rightarrow> IdentifyGrantWaiter" where
  "wait_timeout w now s =
     (case jm_get (gw_pending w) s of
        None \<Rightarrow> w
      | Some p \<Rightarrow> if pw_deadline p \<le> now then settle w s p Timed_out else w)"

definition clear_waits :: "IdentifyGrantWaiter \<Rightarrow> IdentifyGrantWaiter" where
  "clear_waits w = w\<lparr>gw_pending := [], gw_buffered := [],
     gw_settled := gw_settled w @ map (\<lambda>e. (pw_id (snd e), fst e, Cancelled)) (gw_pending w)\<rparr>"

text \<open>One tick of the poll: the grant key is read, and not removed.\<close>

definition poll_grant ::
  "('w \<Rightarrow> IdentifyGrantMessage option) \<Rightarrow> 'w option \<Rightarrow> machine \<Rightarrow> IdentifyGrantWaiter \<Rightarrow> int \<Rightarrow> shard_id
   \<Rightarrow> IdentifyGrantWaiter" where
  "poll_grant decode raw m w now s =
     (case loadGrantFromRedis decode raw now m s of None \<Rightarrow> w | Some g \<Rightarrow> deliver w now g)"

datatype 'w wait_op =
    W_wait int shard_id int
  | W_deliver int IdentifyGrantMessage
  | W_poll "'w option" machine int shard_id
  | W_timeout int shard_id
  | W_clear

fun wait_step :: "('w \<Rightarrow> IdentifyGrantMessage option) \<Rightarrow> IdentifyGrantWaiter \<Rightarrow> 'w wait_op \<Rightarrow> IdentifyGrantWaiter" where
  "wait_step decode w (W_wait now s t) = waitFor w now s t"
| "wait_step decode w (W_deliver now g) = deliver w now g"
| "wait_step decode w (W_poll raw m now s) = poll_grant decode raw m w now s"
| "wait_step decode w (W_timeout now s) = wait_timeout w now s"
| "wait_step decode w W_clear = clear_waits w"

subsection \<open>The runtime\<close>

record WorkerRuntimeState =
  rt_machineId :: machine
  rt_adapter :: DiscordShardAdapter
  rt_waiter :: IdentifyGrantWaiter
  rt_generation :: int
  rt_totalShards :: int
  rt_shards :: "shard_id list"
  rt_preloaded :: bool
  rt_booted :: bool
  rt_infrastructure :: bool
  rt_synced :: bool
  rt_client :: "shard_id option"

datatype lock_outcome = Lock_acquired | Lock_held | Lock_unavailable

record worker_env =
  we_preload :: bool
  we_infrastructure :: bool
  we_spawn :: "shard_id \<Rightarrow> spawn_outcome"
  we_boot :: bool
  we_lock :: lock_outcome
  we_sync :: bool

datatype worker_error = Preload_failed | Infrastructure_failed | Shard_failed shard_failure | Boot_failed

definition createWorkerRuntimeState :: "machine \<Rightarrow> int \<Rightarrow> shard_id list \<Rightarrow> int \<Rightarrow> WorkerRuntimeState" where
  "createWorkerRuntimeState m n initialShards gen =
     \<lparr>rt_machineId = m, rt_adapter = new_DiscordShardAdapter, rt_waiter = new_IdentifyGrantWaiter,
      rt_generation = gen, rt_totalShards = n, rt_shards = initialShards, rt_preloaded = False,
      rt_booted = False, rt_infrastructure = False, rt_synced = False, rt_client = None\<rparr>"

definition sameShardSet :: "shard_id list \<Rightarrow> shard_id list \<Rightarrow> bool" where
  "sameShardSet a b = (length a = length b \<and> js_sort_num a = js_sort_num b)"

definition ensurePluginsPreloaded ::
  "worker_env \<Rightarrow> WorkerRuntimeState \<Rightarrow> worker_error option \<times> WorkerRuntimeState" where
  "ensurePluginsPreloaded env st =
     (if rt_preloaded st then (None, st)
      else if we_preload env then (None, st\<lparr>rt_preloaded := True\<rparr>)
      else (Some Preload_failed, st))"

definition ensureWorkerInfrastructure ::
  "worker_env \<Rightarrow> WorkerRuntimeState \<Rightarrow> worker_error option \<times> WorkerRuntimeState" where
  "ensureWorkerInfrastructure env st =
     (if rt_infrastructure st then (None, st)
      else if we_infrastructure env then (None, st\<lparr>rt_infrastructure := True\<rparr>)
      else (Some Infrastructure_failed, st))"

text \<open>\<open>None\<close>: the synchronisation itself threw.\<close>

definition trySyncCommandsOnce :: "worker_env \<Rightarrow> bool option" where
  "trySyncCommandsOnce env =
     (if we_lock env = Lock_held then Some False else if we_sync env then Some True else None)"

definition boot_plugins ::
  "worker_env \<Rightarrow> WorkerRuntimeState \<Rightarrow> worker_error option \<times> WorkerRuntimeState" where
  "boot_plugins env st =
     (if rt_client st \<noteq> None \<and> \<not> rt_booted st
      then (if we_boot env then (None, st\<lparr>rt_booted := True\<rparr>) else (Some Boot_failed, st))
      else (None, st))"

definition sync_commands :: "worker_env \<Rightarrow> WorkerRuntimeState \<Rightarrow> WorkerRuntimeState" where
  "sync_commands env st =
     (if rt_client st \<noteq> None \<and> rt_booted st \<and> \<not> rt_synced st \<and> trySyncCommandsOnce env = Some True
      then st\<lparr>rt_synced := True\<rparr> else st)"

definition connect_shards ::
  "worker_env \<Rightarrow> WorkerRuntimeState \<Rightarrow> worker_error option \<times> WorkerRuntimeState" where
  "connect_shards env st =
     (let (err, ad) = runApply (we_spawn env) (rt_adapter st) (rt_shards st) (rt_totalShards st);
          st1 = st\<lparr>rt_adapter := ad\<rparr>
      in case err of
           Some e \<Rightarrow> (Some (Shard_failed e), st1)
         | None \<Rightarrow>
             (let (err2, st2) = boot_plugins env (st1\<lparr>rt_client := getPrimaryClient ad\<rparr>)
              in if err2 \<noteq> None then (err2, st2) else (None, sync_commands env st2)))"

definition startClientIfNeeded ::
  "worker_env \<Rightarrow> WorkerRuntimeState \<Rightarrow> worker_error option \<times> WorkerRuntimeState" where
  "startClientIfNeeded env st =
     (if rt_shards st = [] then (None, st\<lparr>rt_adapter := destroyAll (rt_adapter st), rt_client := None\<rparr>)
      else (let (err1, st1) = ensurePluginsPreloaded env st in
            if err1 \<noteq> None then (err1, st1)
            else (let (err2, st2) = ensureWorkerInfrastructure env st1 in
                  if err2 \<noteq> None then (err2, st2) else connect_shards env st2)))"

definition applyAssignment ::
  "worker_env \<Rightarrow> WorkerRuntimeState \<Rightarrow> AssignmentUpdateMessage \<Rightarrow> worker_error option \<times> WorkerRuntimeState" where
  "applyAssignment env st upd =
     (if au_generation upd < rt_generation st then (None, st)
      else if au_generation upd = rt_generation st \<and> sameShardSet (rt_shards st) (au_shards upd) then (None, st)
      else startClientIfNeeded env (st\<lparr>rt_generation := au_generation upd, rt_shards := au_shards upd,
             rt_totalShards := au_totalShards upd\<rparr>))"

definition onIdentifyGrant :: "WorkerRuntimeState \<Rightarrow> int \<Rightarrow> IdentifyGrantMessage \<Rightarrow> WorkerRuntimeState" where
  "onIdentifyGrant st now g =
     (if ig_shardId g \<notin> set (rt_shards st) then st else st\<lparr>rt_waiter := deliver (rt_waiter st) now g\<rparr>)"

text \<open>The subscription: messages for other machines are dropped.\<close>

definition on_assignment_message ::
  "worker_env \<Rightarrow> WorkerRuntimeState \<Rightarrow> AssignmentUpdateMessage \<Rightarrow> WorkerRuntimeState" where
  "on_assignment_message env st upd =
     (if au_machineId upd \<noteq> rt_machineId st then st else snd (applyAssignment env st upd))"

definition on_grant_message :: "WorkerRuntimeState \<Rightarrow> int \<Rightarrow> IdentifyGrantMessage \<Rightarrow> WorkerRuntimeState" where
  "on_grant_message st now g = (if ig_machineId g \<noteq> rt_machineId st then st else onIdentifyGrant st now g)"

subsection \<open>Waits end once\<close>

definition wait_ids :: "IdentifyGrantWaiter \<Rightarrow> nat list" where
  "wait_ids w = map fst (gw_settled w) @ map pw_id (jm_values (gw_pending w))"

definition waiter_ok :: "IdentifyGrantWaiter \<Rightarrow> bool" where
  "waiter_ok w = (jm_wf (gw_pending w) \<and> mset (wait_ids w) = mset [0..<gw_next w] \<and>
     (\<forall>s g. jm_get (gw_buffered w) s = Some g \<longrightarrow> ig_shardId g = s) \<and>
     (\<forall>i s g. (i, s, Granted g) \<in> set (gw_settled w) \<longrightarrow> ig_shardId g = s))"

lemma mset_values_delete:
  assumes "jm_wf d" "jm_get d k = Some v"
  shows "mset (map f (jm_values d)) = add_mset (f v) (mset (map f (jm_values (jm_delete d k))))"
  using assms
proof (induction d)
  case (Cons p d)
  show ?case
  proof (cases "fst p = k")
    case True
    then have "k \<notin> set (jm_keys d)" using Cons.prems(1) by (auto simp: jm_wf_def simp del: set_map)
    then have "jm_delete (p # d) k = d"
      using True jm_delete_first [OF Cons.prems(1)] by simp
    then show ?thesis using True Cons.prems(2) by (simp add: jm_get_Cons)
  next
    case False
    moreover have "jm_wf d" using Cons.prems(1) by (simp add: jm_wf_def)
    ultimately show ?thesis using Cons.IH Cons.prems(2) by (simp add: jm_get_Cons jm_delete_filter)
  qed
qed simp

lemma settle_ok:
  assumes "waiter_ok w" "jm_get (gw_pending w) s = Some p" "\<And>g. r = Granted g \<Longrightarrow> ig_shardId g = s"
  shows "waiter_ok (settle w s p r)"
proof -
  have "mset (map pw_id (jm_values (gw_pending w))) =
      add_mset (pw_id p) (mset (map pw_id (jm_values (jm_delete (gw_pending w) s))))"
    using assms by (intro mset_values_delete) (simp_all add: waiter_ok_def)
  then show ?thesis using assms by (auto simp: waiter_ok_def settle_def wait_ids_def)
qed

lemma unbuffer_ok: "waiter_ok w \<Longrightarrow> waiter_ok (w\<lparr>gw_buffered := jm_delete (gw_buffered w) s\<rparr>)"
  by (auto simp: waiter_ok_def wait_ids_def)

lemma deliver_ok: "waiter_ok w \<Longrightarrow> waiter_ok (deliver w now g)"
proof -
  assume ok: "waiter_ok w"
  have "waiter_ok (w\<lparr>gw_buffered := jm_set (gw_buffered w) (ig_shardId g) g\<rparr>)"
    using ok by (auto simp: waiter_ok_def wait_ids_def)
  moreover have "waiter_ok (settle (w\<lparr>gw_buffered := jm_delete (gw_buffered w) (ig_shardId g)\<rparr>) (ig_shardId g) p (Granted g))"
    if "jm_get (gw_pending w) (ig_shardId g) = Some p" for p
    using that by (intro settle_ok unbuffer_ok ok) simp_all
  ultimately show ?thesis using ok by (simp add: deliver_def split: option.split)
qed

lemma waitFor_ok:
  assumes ok: "waiter_ok w"
  shows "waiter_ok (waitFor w now s t)"
proof -
  let ?w0 = "w\<lparr>gw_buffered := jm_delete (gw_buffered w) s\<rparr>"
  let ?p = "\<lparr>pw_id = gw_next w, pw_deadline = now + t\<rparr>"
  have ok0: "waiter_ok ?w0" by (rule unbuffer_ok [OF ok])
  have upto: "mset [0..<gw_next w + 1] = add_mset (gw_next w) (mset [0..<gw_next w])" by simp
  have add: "waiter_ok (v\<lparr>gw_next := gw_next v + 1, gw_pending := jm_set (gw_pending v) s \<lparr>pw_id = gw_next v, pw_deadline = d\<rparr>\<rparr>)"
    if "waiter_ok v" "jm_get (gw_pending v) s = None" for v d
    using that jm_wf_set [of "gw_pending v" s "\<lparr>pw_id = gw_next v, pw_deadline = d\<rparr>"]
    by (auto simp: waiter_ok_def wait_ids_def jm_set_new)
  show ?thesis
  proof (cases "take_buffered w now s")
    case (Some g)
    then have "ig_shardId g = s"
      using ok by (auto simp: take_buffered_def waiter_ok_def split: option.splits if_splits)
    then show ?thesis
      using ok0 by (auto simp: waitFor_def Some Let_def waiter_ok_def wait_ids_def)
  next
    case None
    show ?thesis
    proof (cases "jm_get (gw_pending w) s")
      case none: None
      then show ?thesis using add [OF ok0] by (simp add: waitFor_def None Let_def)
    next
      case (Some p)
      have "waiter_ok (settle ?w0 s p Superseded)" by (rule settle_ok [OF ok0]) (use Some in simp_all)
      from add [OF this] show ?thesis using Some by (simp add: waitFor_def None Let_def settle_def)
    qed
  qed
qed

lemma wait_step_ok:
  assumes ok: "waiter_ok w"
  shows "waiter_ok (wait_step decode w x)"
proof (cases x)
  case (W_timeout now s)
  show ?thesis
    using settle_ok [OF ok, of s _ Timed_out] ok by (simp add: W_timeout wait_timeout_def split: option.split)
next
  case W_clear
  then show ?thesis using ok by (auto simp: clear_waits_def waiter_ok_def wait_ids_def comp_def)
qed (simp_all add: ok waitFor_ok deliver_ok poll_grant_def split: option.split)

text \<open>
  Whatever grants, polls, time-outs and new waits happen, every wait ends at most once, and a wait
  that is granted is granted for its own shard.
\<close>

theorem waits_end_once:
  "let w = foldl (wait_step decode) new_IdentifyGrantWaiter xs in
     distinct (map fst (gw_settled w)) \<and>
     (\<forall>i s g. (i, s, Granted g) \<in> set (gw_settled w) \<longrightarrow> ig_shardId g = s) \<and>
     card (set (map fst (gw_settled w))) + length (gw_pending w) = gw_next w"
proof -
  have "waiter_ok (foldl (wait_step decode) w xs)" if "waiter_ok w" for w
    using that by (induction xs arbitrary: w) (simp_all add: wait_step_ok)
  moreover have "waiter_ok new_IdentifyGrantWaiter"
    by (simp add: waiter_ok_def new_IdentifyGrantWaiter_def wait_ids_def)
  ultimately have ok: "waiter_ok (foldl (wait_step decode) new_IdentifyGrantWaiter xs)" (is "waiter_ok ?w") by blast
  then have "distinct (wait_ids ?w)" and "length (wait_ids ?w) = gw_next ?w"
    unfolding waiter_ok_def by (metis distinct_upt mset_eq_imp_distinct_iff, metis length_upt minus_nat.diff_0 size_mset)
  then show ?thesis
    using ok unfolding Let_def waiter_ok_def by (auto simp: wait_ids_def distinct_card simp del: set_map)
qed

text \<open>
  A grant is not used up by the wait it ends: the stored grant is still there when the shard waits
  again, so until it expires it lets the same shard identify any number of times.
\<close>

theorem grant_reused:
  assumes "loadGrantFromRedis decode raw now m s = Some g" "loadGrantFromRedis decode raw now2 m s = Some g"
  shows "gw_settled (foldl (wait_step decode) new_IdentifyGrantWaiter
           [W_wait now s t, W_poll raw m now s, W_wait now2 s t, W_poll raw m now2 s]) =
         [(0, s, Granted g), (1, s, Granted g)]"
  using assms
  by (auto simp: loadGrantFromRedis_def poll_grant_def waitFor_def deliver_def new_IdentifyGrantWaiter_def
      take_buffered_def settle_def Let_def split: option.splits if_splits)

theorem grant_reused_witness:
  "\<exists>g. gw_settled (foldl (wait_step Some) new_IdentifyGrantWaiter
     [W_wait 0 2 60000, W_poll (Some g) ''a'' 0 2, W_wait 1000 2 60000, W_poll (Some g) ''a'' 1000 2]) =
       [(0, 2, Granted g), (1, 2, Granted g)]"
proof -
  let ?g = "\<lparr>ig_machineId = ''a'', ig_shardId = 2, ig_grantId = ''g'', ig_expiresAt = 60000, ig_allowResume = False\<rparr>"
  have l: "loadGrantFromRedis Some (Some ?g) 0 ''a'' 2 = Some ?g" "loadGrantFromRedis Some (Some ?g) 1000 ''a'' 2 = Some ?g"
    by (simp_all add: loadGrantFromRedis_def)
  show ?thesis by (rule exI, rule grant_reused [OF l])
qed

subsection \<open>Assignments\<close>

lemma startClientIfNeeded_frame:
  assumes "startClientIfNeeded env st = (e, st')"
  shows "rt_machineId st' = rt_machineId st \<and> rt_generation st' = rt_generation st \<and>
    rt_totalShards st' = rt_totalShards st \<and> rt_shards st' = rt_shards st"
  using assms
  by (auto simp: startClientIfNeeded_def connect_shards_def ensurePluginsPreloaded_def ensureWorkerInfrastructure_def
      boot_plugins_def sync_commands_def Let_def split: if_splits prod.splits option.splits)

lemma sameShardSet_iff: "sameShardSet a b \<longleftrightarrow> mset a = mset b"
  unfolding sameShardSet_def js_sort_num_eq by (metis mset_eq_length mset_sort properties_for_sort sorted_sort)

text \<open>What a message leaves of the assignment, whether or not the connections could be made.\<close>

lemma on_assignment_message_fields:
  "let st' = on_assignment_message env st msg in
     rt_machineId st' = rt_machineId st \<and>
     (if au_machineId msg \<noteq> rt_machineId st \<or> au_generation msg < rt_generation st then st' = st
      else rt_generation st' = au_generation msg \<and>
        (if au_generation msg = rt_generation st \<and> mset (rt_shards st) = mset (au_shards msg) then st' = st
         else rt_shards st' = au_shards msg \<and> rt_totalShards st' = au_totalShards msg))"
proof -
  let ?new = "st\<lparr>rt_generation := au_generation msg, rt_shards := au_shards msg, rt_totalShards := au_totalShards msg\<rparr>"
  have "startClientIfNeeded env ?new = (fst (startClientIfNeeded env ?new), snd (startClientIfNeeded env ?new))" by simp
  from startClientIfNeeded_frame [OF this] show ?thesis
    by (simp add: on_assignment_message_def applyAssignment_def Let_def sameShardSet_iff)
qed

definition receive :: "WorkerRuntimeState \<Rightarrow> (worker_env \<times> AssignmentUpdateMessage) list \<Rightarrow> WorkerRuntimeState" where
  "receive st ms = foldl (\<lambda>st p. on_assignment_message (fst p) st (snd p)) st ms"

lemma receive_snoc: "receive st (ms @ [p]) = on_assignment_message (fst p) (receive st ms) (snd p)"
  by (simp add: receive_def)

text \<open>The newest message for the machine among those received decides, in whatever order they came.\<close>

definition newest :: "AssignmentUpdateMessage set \<Rightarrow> machine \<Rightarrow> AssignmentUpdateMessage \<Rightarrow> bool" where
  "newest M m msg = (msg \<in> M \<and> au_machineId msg = m \<and>
     (\<forall>x \<in> M. au_machineId x = m \<longrightarrow> au_generation x \<le> au_generation msg))"

lemma receive_newest:
  assumes inj: "inj_on au_generation M" and ms: "snd ` set ms \<subseteq> M"
    and fresh: "\<forall>msg \<in> M. rt_generation st < au_generation msg"
  shows "rt_machineId (receive st ms) = rt_machineId st \<and>
    (if \<exists>p \<in> set ms. au_machineId (snd p) = rt_machineId st
     then \<exists>msg. newest (snd ` set ms) (rt_machineId st) msg \<and> rt_generation (receive st ms) = au_generation msg \<and>
            rt_shards (receive st ms) = au_shards msg \<and> rt_totalShards (receive st ms) = au_totalShards msg
     else receive st ms = st)"
  using ms
proof (induction ms rule: rev_induct)
  case Nil
  then show ?case by (simp add: receive_def)
next
  case (snoc p ms)
  obtain env x where p: "p = (env, x)" by (cases p)
  let ?m = "rt_machineId st"
  let ?r = "receive st ms"
  have M: "snd ` set ms \<subseteq> M" "x \<in> M" using snoc.prems p by auto
  note IH = snoc.IH [OF M(1)]
  note step = on_assignment_message_fields [of env ?r x, unfolded Let_def]
  have eq: "receive st (ms @ [p]) = on_assignment_message env ?r x" by (simp add: receive_snoc p)
  have m: "rt_machineId ?r = ?m" using IH by blast
  show ?case
  proof (cases "au_machineId x = ?m")
    case False
    then have "receive st (ms @ [p]) = ?r" using step m unfolding eq by simp
    moreover have "newest (snd ` set (ms @ [p])) ?m msg = newest (snd ` set ms) ?m msg" for msg
      using False by (auto simp: newest_def p)
    ultimately show ?thesis using IH False by (simp add: p)
  next
    case True
    show ?thesis
    proof (cases "\<exists>p \<in> set ms. au_machineId (snd p) = ?m")
      case False
      then have "?r = st" using IH by simp
      then have "rt_generation (on_assignment_message env ?r x) = au_generation x \<and>
          rt_shards (on_assignment_message env ?r x) = au_shards x \<and>
          rt_totalShards (on_assignment_message env ?r x) = au_totalShards x"
        using step fresh M(2) True by (auto split: if_splits)
      moreover have "newest (snd ` set (ms @ [p])) ?m x"
        using False True by (auto simp: newest_def p)
      ultimately show ?thesis using step True m unfolding eq by (auto simp: p)
    next
      case earlier: True
      then obtain msg where msg: "newest (snd ` set ms) ?m msg" "rt_generation ?r = au_generation msg"
          "rt_shards ?r = au_shards msg" "rt_totalShards ?r = au_totalShards msg"
        using IH by auto
      have mM: "msg \<in> M" using msg(1) M(1) by (auto simp: newest_def)
      consider (older) "au_generation x < au_generation msg" | (same) "x = msg" | (newer) "au_generation msg < au_generation x"
        using inj_onD [OF inj _ M(2) mM] by linarith
      then show ?thesis
      proof cases
        case older
        then have "on_assignment_message env ?r x = ?r" using step msg(2) by simp
        moreover have "newest (snd ` set (ms @ [p])) ?m msg" using msg(1) older by (auto simp: newest_def p)
        ultimately show ?thesis using msg m True unfolding eq by (auto simp: p)
      next
        case same
        then have "on_assignment_message env ?r x = ?r" using step msg(2,3) True m by simp
        moreover have "newest (snd ` set (ms @ [p])) ?m msg" using msg(1) same by (auto simp: newest_def p)
        ultimately show ?thesis using msg m True unfolding eq by (auto simp: p)
      next
        case newer
        then have "rt_generation (on_assignment_message env ?r x) = au_generation x \<and>
            rt_shards (on_assignment_message env ?r x) = au_shards x \<and>
            rt_totalShards (on_assignment_message env ?r x) = au_totalShards x"
          using step msg(2) True m by simp
        moreover have "newest (snd ` set (ms @ [p])) ?m x" using msg(1) newer True by (auto simp: newest_def p)
        ultimately show ?thesis using step True m unfolding eq by (auto simp: p)
      qed
    qed
  qed
qed

text \<open>
  Whatever is lost, repeated or reordered on the way, and whatever fails while connecting, a worker that
  has received the last assignment addressed to it holds exactly the shards the orchestrator's map gives it.
\<close>

theorem worker_follows_map:
  assumes "control_ok c" "announced c (rt_machineId st)"
    and "snd ` set ms \<subseteq> set (published_assigns (sent c))"
    and "\<forall>msg \<in> set (published_assigns (sent c)). rt_generation st < au_generation msg"
    and "newest (set (published_assigns (sent c))) (rt_machineId st) msg" "msg \<in> snd ` set ms"
  shows "rt_shards (receive st ms) = shardsFor (shardMap c) (rt_machineId st) \<and>
    rt_generation (receive st ms) \<le> generation (shardMap c)"
proof -
  let ?P = "published_assigns (sent c)" and ?m = "rt_machineId st"
  have gens: "sorted_wrt (<) (map au_generation ?P)" using assms(1) by (simp add: control_ok_def)
  then have inj: "inj_on au_generation (set ?P)"
    by (simp add: strict_sorted_iff distinct_map)
  have unique: "x = msg" if "newest (snd ` set ms) ?m x" for x
  proof (rule inj_onD [OF inj])
    have x: "x \<in> set ?P" "au_machineId x = ?m" using that assms(3) unfolding newest_def by blast+
    have m: "msg \<in> set ?P" "au_machineId msg = ?m" using assms(5) unfolding newest_def by blast+
    have "au_generation x \<le> au_generation msg" using assms(5) x unfolding newest_def by blast
    moreover have "au_generation msg \<le> au_generation x" using that assms(6) m(2) unfolding newest_def by blast
    ultimately show "au_generation x = au_generation msg" by simp
    show "x \<in> set ?P" "msg \<in> set ?P" by (fact x(1), fact m(1))
  qed
  have "view_of xs m ss = au_shards x"
    if "newest (set xs) m x" "sorted_wrt (<) (map au_generation xs)" for xs m ss x
    using that
  proof (induction xs arbitrary: ss)
    case (Cons y ys)
    show ?case
    proof (cases "\<exists>z \<in> set ys. au_machineId z = m")
      case True
      then have "x \<noteq> y" using Cons.prems by (fastforce simp: newest_def)
      then have "newest (set ys) m x" using Cons.prems(1) by (auto simp: newest_def)
      then show ?thesis using Cons by simp
    next
      case False
      then have "x = y" using Cons.prems(1) by (auto simp: newest_def)
      moreover have "view_of ys m ss' = ss'" for ss'
        using False by (induction ys arbitrary: ss') auto
      ultimately show ?thesis using Cons.prems(1) by (simp add: newest_def)
    qed
  qed (simp add: newest_def)
  then have "told c ?m = au_shards msg" using assms(5) gens by (simp add: told_def)
  moreover have "\<exists>p \<in> set ms. au_machineId (snd p) = ?m" using assms(5,6) by (auto simp: newest_def)
  moreover from this obtain x where "newest (snd ` set ms) ?m x" "rt_generation (receive st ms) = au_generation x"
      "rt_shards (receive st ms) = au_shards x"
    using receive_newest [OF inj assms(3,4)] by (simp only: if_True) blast
  moreover have "au_generation msg \<le> generation (shardMap c)"
    using assms(1,5) by (simp add: control_ok_def newest_def)
  ultimately show ?thesis
    using unique assms(2) by (simp add: announced_def)
qed

definition demo_worker_env :: worker_env where
  "demo_worker_env = \<lparr>we_preload = True, we_infrastructure = True, we_spawn = (\<lambda>s. Spawn_ready), we_boot = True,
     we_lock = Lock_acquired, we_sync = True\<rparr>"

definition demo_run :: control where
  "demo_run = foldl control_step (new_control \<lparr>generation = 1, totalShards = 4, owner = [], sm_prefix = ''p''\<rparr>
     (new_IdentifyQueue 1 True ''p'' (\<lambda>n. nat_to_str n)) 0)
     [Op_assign ''a'' [0] Join True Redis_ok, Op_assign ''b'' [1] Join True Redis_ok, Op_assign ''a'' [0, 2] Rebalance True Redis_ok]"

definition demo_received :: "(worker_env \<times> AssignmentUpdateMessage) list" where
  "demo_received = (let ms = published_assigns (sent demo_run) in map (Pair demo_worker_env) [ms ! 2, ms ! 0, ms ! 1, ms ! 2])"

theorem worker_follows_map_witness:
  "rt_shards (receive (createWorkerRuntimeState ''a'' 4 [] 1) demo_received) = [0, 2] \<and>
   getShardIds (rt_adapter (receive (createWorkerRuntimeState ''a'' 4 [] 1) demo_received)) = [0, 2]"
proof
  have ok: "control_ok demo_run"
    by code_simp
  have c: "announced demo_run (rt_machineId (createWorkerRuntimeState ''a'' 4 [] 1))"
    "snd ` set demo_received \<subseteq> set (published_assigns (sent demo_run))"
    "\<forall>msg \<in> set (published_assigns (sent demo_run)).
       rt_generation (createWorkerRuntimeState ''a'' 4 [] 1) < au_generation msg"
    "newest (set (published_assigns (sent demo_run))) (rt_machineId (createWorkerRuntimeState ''a'' 4 [] 1))
       (last (published_assigns (sent demo_run)))"
    "last (published_assigns (sent demo_run)) \<in> snd ` set demo_received"
    "shardsFor (shardMap demo_run) (rt_machineId (createWorkerRuntimeState ''a'' 4 [] 1)) = [0, 2]"
    by code_simp+
  show "rt_shards (receive (createWorkerRuntimeState ''a'' 4 [] 1) demo_received) = [0, 2]"
    using worker_follows_map [OF ok c(1-5)] c(6) by simp
  show "getShardIds (rt_adapter (receive (createWorkerRuntimeState ''a'' 4 [] 1) demo_received)) = [0, 2]"
    by code_simp
qed

text \<open>
  An assignment whose connections fail is recorded as done: the worker reports its shards, and the same
  message received again changes nothing.
\<close>

theorem failed_assignment_not_retried:
  assumes "applyAssignment env st msg = (Some e, st')"
  shows "rt_shards st' = au_shards msg \<and> rt_generation st' = au_generation msg \<and>
    applyAssignment env' st' msg = (None, st')"
proof -
  let ?new = "st\<lparr>rt_generation := au_generation msg, rt_shards := au_shards msg, rt_totalShards := au_totalShards msg\<rparr>"
  have "startClientIfNeeded env ?new = (Some e, st')"
    using assms by (auto simp: applyAssignment_def split: if_splits)
  from startClientIfNeeded_frame [OF this] show ?thesis
    by (simp add: applyAssignment_def sameShardSet_iff)
qed

theorem failed_assignment_not_retried_witness:
  "\<exists>e st'. applyAssignment (demo_worker_env\<lparr>we_spawn := \<lambda>s. Spawn_no_grant\<rparr>)
       (createWorkerRuntimeState ''a'' 4 [] 1) (hd (published_assigns (sent demo_run))) = (Some e, st') \<and>
     rt_shards st' = [0] \<and> getShardIds (rt_adapter st') = [] \<and>
     applyAssignment demo_worker_env st' (hd (published_assigns (sent demo_run))) = (None, st')"
proof -
  let ?r = "applyAssignment (demo_worker_env\<lparr>we_spawn := \<lambda>s. Spawn_no_grant\<rparr>)
       (createWorkerRuntimeState ''a'' 4 [] 1) (hd (published_assigns (sent demo_run)))"
  have v: "fst ?r = Some (Shard_failed (Grant_failed 0))" "getShardIds (rt_adapter (snd ?r)) = []"
    "au_shards (hd (published_assigns (sent demo_run))) = [0]"
    by code_simp+
  have r: "?r = (Some (Shard_failed (Grant_failed 0)), snd ?r)" using v(1) by (metis prod.collapse)
  show ?thesis
    by (rule exI, rule exI, rule conjI, rule r) (use failed_assignment_not_retried [OF r] v in simp)
qed

end
