(* ===== verification/Snapshot.thy ===== *)
theory Snapshot
  imports CrossHostTypes
begin

text \<open>
  Configuration snapshots: the orchestrator's versions (\<open>src/core/crosshost/orchestrator/snapshot.ts\<close>) and
  the worker's copy (\<open>worker/snapshotCache.ts\<close>, \<open>handleSnapshotNotify\<close> in \<open>worker/adapter.ts\<close>).  JSON
  patches come from the package \<open>fast-json-patch\<close> and the hash from Node: \<open>json_lib\<close> holds them, and no
  law is assumed of them.  A publication is cut at its awaits: \<open>publish_begin\<close> is what it does before the first
  write to Redis, \<open>publish_finish\<close> the notification it sends after them, and other publications may begin or
  finish in between.  A pull over HTTP is a request and a later response, which may overtake others; a
  document is a JSON value with its key order, and a copy made by parsing a printed document is the document.
  The copies in Redis, inlining and logging are left out.
\<close>

subsection \<open>Versions at the orchestrator\<close>

record ('d, 'p) json_lib =
  jl_compare :: "'d \<Rightarrow> 'd \<Rightarrow> 'p"
  jl_apply :: "'d \<Rightarrow> 'p \<Rightarrow> 'd option"
  jl_hash :: "'d \<Rightarrow> string"

record 'd SnapshotEnvelope =
  se_version :: int
  se_hash :: string
  se_document :: 'd

datatype 'p notify_mode = Mode_full | Mode_diff int 'p

record 'p SnapshotNotifyMessage =
  sn_version :: int
  sn_hash :: string
  sn_mode :: "'p notify_mode"

record 'd SnapshotService =
  ss_version :: int
  ss_history :: "(int, 'd SnapshotEnvelope) jsmap"
  ss_latest :: "'d SnapshotEnvelope option"

definition MAX_RETAINED :: nat where
  "MAX_RETAINED = 5"

definition new_SnapshotService :: "'d SnapshotService" where
  "new_SnapshotService = \<lparr>ss_version = 0, ss_history = [], ss_latest = None\<rparr>"

definition getEnvelope :: "'d SnapshotService \<Rightarrow> int \<Rightarrow> 'd SnapshotEnvelope option" where
  "getEnvelope svc v = jm_get (ss_history svc) v"

function evict_oldest :: "(int, 'd SnapshotEnvelope) jsmap \<Rightarrow> (int, 'd SnapshotEnvelope) jsmap" where
  "evict_oldest h =
     (if length h > MAX_RETAINED then evict_oldest (jm_delete h (Min (set (jm_keys h)))) else h)"
  by pat_completeness auto
termination
proof (relation "measure length")
  fix h :: "(int, 'd SnapshotEnvelope) jsmap"
  assume "MAX_RETAINED < length h"
  then have "set (jm_keys h) \<noteq> {}" by (auto simp: MAX_RETAINED_def)
  then have "Min (set (jm_keys h)) \<in> set (jm_keys h)" by (intro Min_in) simp_all
  then obtain p where "p \<in> set h" "fst p = Min (set (jm_keys h))" by auto
  then show "(jm_delete h (Min (set (jm_keys h))), h) \<in> measure length"
    by (auto simp: jm_delete_filter intro: length_filter_less)
qed simp

declare evict_oldest.simps [simp del]

text \<open>A publication between its two halves.\<close>

record 'd publication =
  pb_base :: "'d SnapshotEnvelope option"
  pb_full :: bool
  pb_envelope :: "'d SnapshotEnvelope"

definition publish_begin ::
  "('d, 'p) json_lib \<Rightarrow> 'd SnapshotService \<Rightarrow> 'd \<Rightarrow> bool \<Rightarrow> 'd publication option \<times> 'd SnapshotService" where
  "publish_begin lib svc document forceFull =
     (let hash = jl_hash lib document in
      if (case ss_latest svc of None \<Rightarrow> False | Some l \<Rightarrow> se_hash l = hash) \<and> \<not> forceFull then (None, svc)
      else (let v = ss_version svc + 1; e = \<lparr>se_version = v, se_hash = hash, se_document = document\<rparr>
            in (Some \<lparr>pb_base = ss_latest svc, pb_full = forceFull, pb_envelope = e\<rparr>,
                \<lparr>ss_version = v, ss_history = evict_oldest (jm_set (ss_history svc) v e), ss_latest = Some e\<rparr>)))"

text \<open>The version in the notification is the service's at this moment, the hash and the patch are the publication's.\<close>

definition publish_finish :: "('d, 'p) json_lib \<Rightarrow> 'd SnapshotService \<Rightarrow> 'd publication \<Rightarrow> 'p SnapshotNotifyMessage" where
  "publish_finish lib svc pb =
     \<lparr>sn_version = ss_version svc, sn_hash = se_hash (pb_envelope pb),
      sn_mode = (case pb_base pb of
                   Some b \<Rightarrow> if pb_full pb then Mode_full
                             else Mode_diff (se_version b) (jl_compare lib (se_document b) (se_document (pb_envelope pb)))
                 | None \<Rightarrow> Mode_full)\<rparr>"

definition buildDiffPatch :: "('d, 'p) json_lib \<Rightarrow> 'd SnapshotService \<Rightarrow> int \<Rightarrow> int \<Rightarrow> 'p option" where
  "buildDiffPatch lib svc from to =
     (case (getEnvelope svc from, getEnvelope svc to) of
        (Some f, Some t) \<Rightarrow> Some (jl_compare lib (se_document f) (se_document t))
      | _ \<Rightarrow> None)"

subsection \<open>The worker's copy\<close>

record 'd SnapshotCache =
  sc_version :: int
  sc_hash :: string
  sc_document :: "'d option"

definition new_SnapshotCache :: "'d SnapshotCache" where
  "new_SnapshotCache = \<lparr>sc_version = 0, sc_hash = [], sc_document = None\<rparr>"

definition applyFull :: "'d SnapshotEnvelope \<Rightarrow> 'd SnapshotCache" where
  "applyFull e = \<lparr>sc_version = se_version e, sc_hash = se_hash e, sc_document = Some (se_document e)\<rparr>"

definition applyDiff ::
  "('d, 'p) json_lib \<Rightarrow> 'd SnapshotCache \<Rightarrow> int \<Rightarrow> int \<Rightarrow> string \<Rightarrow> 'p \<Rightarrow> bool \<times> 'd SnapshotCache" where
  "applyDiff lib c baseVersion nextVersion nextHash patch =
     (case sc_document c of
        None \<Rightarrow> (False, c)
      | Some d \<Rightarrow>
          if sc_version c \<noteq> baseVersion then (False, c)
          else (case jl_apply lib d patch of
                  None \<Rightarrow> (False, c)
                | Some d' \<Rightarrow>
                    if jl_hash lib d' \<noteq> nextHash then (False, c)
                    else (True, \<lparr>sc_version = nextVersion, sc_hash = nextHash, sc_document = Some d'\<rparr>)))"

text \<open>What a notification does at once, and the version it goes on to pull, if any.\<close>

definition handleSnapshotNotify ::
  "('d, 'p) json_lib \<Rightarrow> 'd SnapshotCache \<Rightarrow> 'p SnapshotNotifyMessage \<Rightarrow> int option \<times> 'd SnapshotCache" where
  "handleSnapshotNotify lib c n =
     (if sn_version n \<le> sc_version c then (None, c)
      else (case sn_mode n of
              Mode_full \<Rightarrow> (Some (sn_version n), c)
            | Mode_diff base patch \<Rightarrow>
                (let (ok, c') = applyDiff lib c base (sn_version n) (sn_hash n) patch in
                 if ok then (None, c') else (Some (sn_version n), c))))"

subsection \<open>An orchestrator and a worker\<close>

text \<open>
  \<open>sw_published\<close> remembers every version, \<open>sw_pending\<close> the publications that have begun, \<open>sw_responses\<close> the
  answers on their way to the worker.  A pull of a version no longer retained is answered by an error, which
  leaves the cache alone.
\<close>

record ('d, 'p) snap_world =
  sw_service :: "'d SnapshotService"
  sw_published :: "'d SnapshotEnvelope list"
  sw_pending :: "'d publication list"
  sw_notifies :: "'p SnapshotNotifyMessage list"
  sw_cache :: "'d SnapshotCache"
  sw_responses :: "'d SnapshotEnvelope list"

definition answer :: "'d SnapshotService \<Rightarrow> int option \<Rightarrow> 'd SnapshotEnvelope list" where
  "answer svc v = (case v of None \<Rightarrow> [] | Some n \<Rightarrow> (case getEnvelope svc n of None \<Rightarrow> [] | Some e \<Rightarrow> [e]))"

definition world_begin :: "('d, 'p) json_lib \<Rightarrow> ('d, 'p) snap_world \<Rightarrow> 'd \<Rightarrow> bool \<Rightarrow> ('d, 'p) snap_world" where
  "world_begin lib w doc force =
     (let (pb, svc) = publish_begin lib (sw_service w) doc force in
      case pb of
        None \<Rightarrow> w
      | Some b \<Rightarrow> w\<lparr>sw_service := svc, sw_published := sw_published w @ [pb_envelope b], sw_pending := sw_pending w @ [b]\<rparr>)"

definition world_finish :: "('d, 'p) json_lib \<Rightarrow> ('d, 'p) snap_world \<Rightarrow> 'd publication \<Rightarrow> ('d, 'p) snap_world" where
  "world_finish lib w pb =
     w\<lparr>sw_pending := remove1 pb (sw_pending w), sw_notifies := sw_notifies w @ [publish_finish lib (sw_service w) pb]\<rparr>"

definition world_notify ::
  "('d, 'p) json_lib \<Rightarrow> ('d, 'p) snap_world \<Rightarrow> 'p SnapshotNotifyMessage \<Rightarrow> ('d, 'p) snap_world" where
  "world_notify lib w n =
     (let (pull, c) = handleSnapshotNotify lib (sw_cache w) n in
      w\<lparr>sw_cache := c, sw_responses := sw_responses w @ answer (sw_service w) pull\<rparr>)"

definition world_pull :: "('d, 'p) snap_world \<Rightarrow> int \<Rightarrow> ('d, 'p) snap_world" where
  "world_pull w v = w\<lparr>sw_responses := sw_responses w @ answer (sw_service w) (Some v)\<rparr>"

definition world_response :: "('d, 'p) snap_world \<Rightarrow> 'd SnapshotEnvelope \<Rightarrow> ('d, 'p) snap_world" where
  "world_response w e = w\<lparr>sw_cache := applyFull e, sw_responses := remove1 e (sw_responses w)\<rparr>"

inductive snap_step :: "('d, 'p) json_lib \<Rightarrow> ('d, 'p) snap_world \<Rightarrow> ('d, 'p) snap_world \<Rightarrow> bool" for lib where
  sn_begin: "snap_step lib w (world_begin lib w doc force)"
| sn_finish: "pb \<in> set (sw_pending w) \<Longrightarrow> snap_step lib w (world_finish lib w pb)"
| sn_notify: "n \<in> set (sw_notifies w) \<Longrightarrow> snap_step lib w (world_notify lib w n)"
| sn_pull: "snap_step lib w (world_pull w v)"
| sn_response: "e \<in> set (sw_responses w) \<Longrightarrow> snap_step lib w (world_response w e)"

definition snap_start :: "('d, 'p) snap_world" where
  "snap_start = \<lparr>sw_service = new_SnapshotService, sw_published = [], sw_pending = [], sw_notifies = [],
     sw_cache = new_SnapshotCache, sw_responses = []\<rparr>"

subsection \<open>What the orchestrator retains\<close>

text \<open>The versions are numbered from 1 in the order of publication, and the last five can be pulled.\<close>

definition retained :: "'d SnapshotEnvelope list \<Rightarrow> int \<Rightarrow> 'd SnapshotEnvelope option" where
  "retained ps v = (if 1 \<le> v \<and> int (length ps) - 5 < v \<and> v \<le> int (length ps) then Some (ps ! nat (v - 1)) else None)"

definition history_ok :: "(int, 'd SnapshotEnvelope) jsmap \<Rightarrow> 'd SnapshotEnvelope list \<Rightarrow> bool" where
  "history_ok h ps = (jm_wf h \<and> (\<forall>v. jm_get h v = retained ps v))"

lemma history_keys:
  assumes "history_ok h ps"
  shows "set (jm_keys h) = {max 1 (int (length ps) - 4) .. int (length ps)}"
  using assms by (auto simp: set_jm_keys history_ok_def retained_def simp del: set_map)

lemma jm_wf_length: "jm_wf h \<Longrightarrow> length h = card (set (jm_keys h))"
  unfolding jm_wf_def by (metis distinct_card length_map)

lemma evict_oldest_history:
  assumes ok: "history_ok h ps"
  shows "history_ok (evict_oldest (jm_set h (int (length ps) + 1) e)) (ps @ [e])"
proof -
  let ?n = "int (length ps)"
  let ?h = "jm_set h (?n + 1) e"
  have wf: "jm_wf ?h" using ok by (simp add: history_ok_def)
  have keys: "set (jm_keys ?h) = {max 1 (?n - 4) .. ?n + 1}"
    unfolding jm_keys_set history_keys [OF ok] by auto
  have len: "int (length ?h) = ?n + 1 - max 1 (?n - 4) + 1"
    unfolding jm_wf_length [OF wf] keys by simp
  have get: "jm_get ?h v = (if v = ?n + 1 then Some e else retained ps v)" for v
    using ok by (auto simp: history_ok_def)
  have upd: "retained (ps @ [e]) v = (if v = ?n - 4 then None else jm_get ?h v)" for v
    unfolding get by (auto simp: retained_def nth_append nat_less_iff) (simp_all add: nat_add_distrib)?
  show ?thesis
  proof (cases "?n < 5")
    case True
    then have "evict_oldest ?h = ?h" using len by (simp add: evict_oldest.simps MAX_RETAINED_def)
    moreover have "jm_get ?h (?n - 4) = None" unfolding get using True by (simp add: retained_def)
    ultimately show ?thesis using wf upd by (auto simp: history_ok_def)
  next
    case False
    have l6: "length ?h = 6" using len False by simp
    have mn: "Min (set (jm_keys ?h)) = ?n - 4"
      unfolding keys using False by (intro Min_eqI) auto
    have "?n - 4 \<in> set (jm_keys ?h)" unfolding keys using False by simp
    then have "length (jm_delete ?h (?n - 4)) < 6"
      unfolding l6 [symmetric] jm_delete_filter by (auto intro: length_filter_less)
    then have "evict_oldest ?h = jm_delete ?h (?n - 4)"
      using l6 by (subst evict_oldest.simps, subst evict_oldest.simps) (simp add: mn MAX_RETAINED_def del: set_map)
    then show ?thesis using wf upd by (simp add: history_ok_def)
  qed
qed

subsection \<open>Integrity\<close>

definition known_hash :: "'d SnapshotEnvelope list \<Rightarrow> string \<Rightarrow> bool" where
  "known_hash ps h = (\<exists>e \<in> set ps. se_hash e = h)"

definition world_ok :: "('d, 'p) json_lib \<Rightarrow> ('d, 'p) snap_world \<Rightarrow> bool" where
  "world_ok lib w =
     (let ps = sw_published w; svc = sw_service w; c = sw_cache w in
      history_ok (ss_history svc) ps \<and> ss_version svc = int (length ps) \<and>
      (\<forall>e \<in> set ps. se_version e \<le> ss_version svc \<and> se_hash e = jl_hash lib (se_document e)) \<and>
      (\<forall>b \<in> set (sw_pending w). pb_envelope b \<in> set ps) \<and>
      (\<forall>n \<in> set (sw_notifies w). known_hash ps (sn_hash n) \<and> sn_version n \<le> ss_version svc) \<and>
      (\<forall>e \<in> set (sw_responses w). e \<in> set ps) \<and>
      sc_version c \<le> ss_version svc \<and>
      (\<forall>d. sc_document c = Some d \<longrightarrow> jl_hash lib d = sc_hash c \<and> known_hash ps (sc_hash c)))"

lemma known_hash_append: "known_hash ps h \<Longrightarrow> known_hash (ps @ xs) h"
  by (auto simp: known_hash_def)

lemma answer_published:
  assumes "world_ok lib w" "e \<in> set (answer (sw_service w) v)"
  shows "e \<in> set (sw_published w)"
proof -
  obtain n where "jm_get (ss_history (sw_service w)) n = Some e"
    using assms(2) by (auto simp: answer_def getEnvelope_def split: option.splits)
  then have "retained (sw_published w) n = Some e" using assms(1) by (simp add: world_ok_def history_ok_def Let_def)
  then show ?thesis by (auto simp: retained_def split: if_splits intro!: nth_mem)
qed

lemma world_begin_ok:
  assumes ok: "world_ok lib w"
  shows "world_ok lib (world_begin lib w doc force)"
proof (cases "publish_begin lib (sw_service w) doc force")
  case (Pair pb svc)
  show ?thesis
  proof (cases pb)
    case None
    then show ?thesis using ok by (simp add: world_begin_def Pair)
  next
    case (Some b)
    let ?ps = "sw_published w" and ?old = "sw_service w"
    let ?e = "\<lparr>se_version = ss_version ?old + 1, se_hash = jl_hash lib doc, se_document = doc\<rparr>"
    have ver: "ss_version ?old = int (length ?ps)" using ok by (simp add: world_ok_def Let_def)
    have svc: "svc = \<lparr>ss_version = ss_version ?old + 1,
        ss_history = evict_oldest (jm_set (ss_history ?old) (ss_version ?old + 1) ?e), ss_latest = Some ?e\<rparr>"
      and b: "pb_envelope b = ?e"
      using Pair Some by (auto simp: publish_begin_def Let_def split: if_splits)
    have "history_ok (ss_history svc) (?ps @ [?e])"
      using evict_oldest_history [of "ss_history ?old" ?ps ?e] ok by (simp add: svc ver world_ok_def Let_def)
    then show ?thesis
      using ok by (force simp: world_begin_def Pair Some svc b world_ok_def Let_def known_hash_append)
  qed
qed

lemma world_finish_ok: "world_ok lib w \<Longrightarrow> pb \<in> set (sw_pending w) \<Longrightarrow> world_ok lib (world_finish lib w pb)"
  by (auto simp: world_ok_def world_finish_def publish_finish_def Let_def known_hash_def dest: notin_set_remove1)

lemma world_notify_ok:
  assumes ok: "world_ok lib w" and n: "n \<in> set (sw_notifies w)"
  shows "world_ok lib (world_notify lib w n)"
proof (cases "handleSnapshotNotify lib (sw_cache w) n")
  case (Pair pull c)
  let ?ps = "sw_published w"
  have no: "known_hash ?ps (sn_hash n)" "sn_version n \<le> ss_version (sw_service w)"
    using ok n unfolding world_ok_def Let_def by blast+
  have "c = sw_cache w \<or> (\<exists>d. jl_hash lib d = sn_hash n \<and> c = \<lparr>sc_version = sn_version n, sc_hash = sn_hash n, sc_document = Some d\<rparr>)"
    using Pair by (auto simp: handleSnapshotNotify_def applyDiff_def Let_def split: if_splits notify_mode.splits option.splits)
  then have "sc_version c \<le> ss_version (sw_service w) \<and>
      (\<forall>d. sc_document c = Some d \<longrightarrow> jl_hash lib d = sc_hash c \<and> known_hash ?ps (sc_hash c))"
    using ok no by (auto simp: world_ok_def Let_def)
  then show ?thesis
    using ok answer_published [OF ok] by (auto simp: world_notify_def Pair world_ok_def Let_def)
qed

lemma snap_step_ok:
  assumes "snap_step lib w w'" "world_ok lib w"
  shows "world_ok lib w'"
  using assms(1)
proof (cases rule: snap_step.cases)
  case (sn_pull v)
  then show ?thesis using assms(2) answer_published [OF assms(2)] by (auto simp: world_pull_def world_ok_def Let_def)
next
  case (sn_response e)
  then show ?thesis
    using assms(2) by (auto simp: world_response_def world_ok_def Let_def applyFull_def known_hash_def dest: notin_set_remove1)
next
  case (sn_begin doc force)
  then show ?thesis using world_begin_ok [OF assms(2)] by simp
next
  case (sn_finish pb)
  then show ?thesis using world_finish_ok [OF assms(2)] by simp
next
  case (sn_notify n)
  then show ?thesis using world_notify_ok [OF assms(2)] by simp
qed

lemma snap_start_ok: "world_ok lib snap_start"
  by (simp add: world_ok_def snap_start_def new_SnapshotService_def new_SnapshotCache_def history_ok_def retained_def Let_def)

text \<open>
  C30. Whatever publications overlap, whatever notifications and answers are lost, repeated or reordered, and
  whatever the patch library does: the document a worker holds has the hash the worker stores, and that is
  the hash of a version that was published; its version is not above the orchestrator's; and the
  orchestrator answers for exactly the last five versions.
\<close>

theorem snapshot_integrity:
  assumes "(snap_step lib)\<^sup>*\<^sup>* snap_start w"
  shows "(\<forall>d. sc_document (sw_cache w) = Some d \<longrightarrow> jl_hash lib d = sc_hash (sw_cache w) \<and>
      (\<exists>e \<in> set (sw_published w). se_hash e = jl_hash lib (se_document e) \<and> se_hash e = jl_hash lib d)) \<and>
    sc_version (sw_cache w) \<le> ss_version (sw_service w) \<and>
    (\<forall>v. getEnvelope (sw_service w) v \<noteq> None \<longleftrightarrow>
      1 \<le> v \<and> ss_version (sw_service w) - 5 < v \<and> v \<le> ss_version (sw_service w))"
proof -
  have "world_ok lib w"
    using assms by induction (auto intro: snap_step_ok simp: snap_start_ok)
  then show ?thesis
    by (auto simp: world_ok_def Let_def history_ok_def getEnvelope_def retained_def known_hash_def)
qed

lemma reach_begin: "(snap_step lib)\<^sup>*\<^sup>* s w \<Longrightarrow> (snap_step lib)\<^sup>*\<^sup>* s (world_begin lib w d f)"
  by (rule rtranclp.rtrancl_into_rtrancl) (assumption, rule sn_begin)

lemma reach_finish:
  "pb \<in> set (sw_pending w) \<Longrightarrow> (snap_step lib)\<^sup>*\<^sup>* s w \<Longrightarrow> (snap_step lib)\<^sup>*\<^sup>* s (world_finish lib w pb)"
  by (rule rtranclp.rtrancl_into_rtrancl) (assumption, rule sn_finish)

lemma reach_notify:
  "n \<in> set (sw_notifies w) \<Longrightarrow> (snap_step lib)\<^sup>*\<^sup>* s w \<Longrightarrow> (snap_step lib)\<^sup>*\<^sup>* s (world_notify lib w n)"
  by (rule rtranclp.rtrancl_into_rtrancl) (assumption, rule sn_notify)

lemma reach_response:
  "e \<in> set (sw_responses w) \<Longrightarrow> (snap_step lib)\<^sup>*\<^sup>* s w \<Longrightarrow> (snap_step lib)\<^sup>*\<^sup>* s (world_response w e)"
  by (rule rtranclp.rtrancl_into_rtrancl) (assumption, rule sn_response)

text \<open>A library whose patch is the whole new document.\<close>

definition whole_lib :: "(string, string) json_lib" where
  "whole_lib = \<lparr>jl_compare = (\<lambda>a b. b), jl_apply = (\<lambda>a p. Some p), jl_hash = (\<lambda>d. ''h'' @ d)\<rparr>"

text \<open>The first version reaches the worker; then two publications overlap.\<close>

definition demo_first :: "(string, string) snap_world" where
  "demo_first =
     (let w1 = world_begin whole_lib snap_start ''one'' True;
          w2 = world_finish whole_lib w1 (sw_pending w1 ! 0);
          w3 = world_notify whole_lib w2 (sw_notifies w2 ! 0)
      in world_response w3 (sw_responses w3 ! 0))"

definition demo_overlap :: "(string, string) snap_world" where
  "demo_overlap =
     (let w4 = world_begin whole_lib demo_first ''two'' False;
          w5 = world_begin whole_lib w4 ''three'' False;
          w6 = world_finish whole_lib w5 (sw_pending w5 ! 0);
          w7 = world_finish whole_lib w6 (sw_pending w6 ! 0);
          w8 = world_notify whole_lib w7 (sw_notifies w7 ! 1)
      in world_notify whole_lib w8 (sw_notifies w8 ! 2))"

lemma demo_first_reached: "(snap_step whole_lib)\<^sup>*\<^sup>* snap_start demo_first"
proof -
  let ?w1 = "world_begin whole_lib snap_start ''one'' True"
  let ?w2 = "world_finish whole_lib ?w1 (sw_pending ?w1 ! 0)"
  let ?w3 = "world_notify whole_lib ?w2 (sw_notifies ?w2 ! 0)"
  have m: "sw_pending ?w1 ! 0 \<in> set (sw_pending ?w1)" "sw_notifies ?w2 ! 0 \<in> set (sw_notifies ?w2)"
    "sw_responses ?w3 ! 0 \<in> set (sw_responses ?w3)"
    by code_simp+
  show ?thesis
    unfolding demo_first_def Let_def
    by (intro reach_response [OF m(3)] reach_notify [OF m(2)] reach_finish [OF m(1)] reach_begin rtranclp.rtrancl_refl)
qed

lemma demo_overlap_reached: "(snap_step whole_lib)\<^sup>*\<^sup>* snap_start demo_overlap"
proof -
  let ?w4 = "world_begin whole_lib demo_first ''two'' False"
  let ?w5 = "world_begin whole_lib ?w4 ''three'' False"
  let ?w6 = "world_finish whole_lib ?w5 (sw_pending ?w5 ! 0)"
  let ?w7 = "world_finish whole_lib ?w6 (sw_pending ?w6 ! 0)"
  let ?w8 = "world_notify whole_lib ?w7 (sw_notifies ?w7 ! 1)"
  have m: "sw_pending ?w5 ! 0 \<in> set (sw_pending ?w5)" "sw_pending ?w6 ! 0 \<in> set (sw_pending ?w6)"
    "sw_notifies ?w7 ! 1 \<in> set (sw_notifies ?w7)" "sw_notifies ?w8 ! 2 \<in> set (sw_notifies ?w8)"
    by code_simp+
  show ?thesis
    unfolding demo_overlap_def Let_def
    by (intro reach_notify [OF m(4)] reach_notify [OF m(3)] reach_finish [OF m(2)] reach_finish [OF m(1)] reach_begin demo_first_reached)
qed

theorem snapshot_integrity_witness:
  "sc_document (sw_cache demo_overlap) = Some ''two'' \<and> jl_hash whole_lib ''two'' = sc_hash (sw_cache demo_overlap) \<and>
   getEnvelope (sw_service demo_overlap) 3 \<noteq> None"
proof -
  have v: "sc_document (sw_cache demo_overlap) = Some ''two''" "ss_version (sw_service demo_overlap) = 3" by code_simp+
  show ?thesis using snapshot_integrity [OF demo_overlap_reached] v by simp
qed

text \<open>
  Two publications that overlap label the wrong document: in this run every publication finishes and every
  notification reaches the worker in order, and yet the worker ends with the second document under
  version 3, which is the number of the third one, and nothing is left on its way.
\<close>

theorem overlapping_publish_mislabels:
  "(snap_step whole_lib)\<^sup>*\<^sup>* snap_start demo_overlap \<and> sw_pending demo_overlap = [] \<and> sw_responses demo_overlap = [] \<and>
   sc_version (sw_cache demo_overlap) = 3 \<and> sc_document (sw_cache demo_overlap) = Some ''two'' \<and>
   map_option se_document (getEnvelope (sw_service demo_overlap) 3) = Some ''three'' \<and>
   ss_version (sw_service demo_overlap) = 3"
  by (intro conjI demo_overlap_reached) code_simp+

text \<open>The answer of an earlier pull overwrites a newer document.\<close>

definition demo_back :: "(string, string) snap_world" where
  "demo_back =
     (let w1 = world_begin whole_lib snap_start ''one'' True;
          w2 = world_finish whole_lib w1 (sw_pending w1 ! 0);
          w3 = world_notify whole_lib w2 (sw_notifies w2 ! 0);
          w4 = world_begin whole_lib w3 ''two'' True;
          w5 = world_finish whole_lib w4 (sw_pending w4 ! 0);
          w6 = world_notify whole_lib w5 (sw_notifies w5 ! 1);
          w7 = world_response w6 (sw_responses w6 ! 1)
      in world_response w7 (sw_responses w7 ! 0))"

text \<open>
  The answer of an earlier pull overwrites a newer document: with every notification delivered and nothing
  on its way the worker is back at the first version and stays there until the next publication.
\<close>

theorem snapshot_goes_back:
  "(snap_step whole_lib)\<^sup>*\<^sup>* snap_start demo_back \<and> sw_pending demo_back = [] \<and> sw_responses demo_back = [] \<and>
   sc_version (sw_cache demo_back) = 1 \<and> sc_document (sw_cache demo_back) = Some ''one'' \<and>
   ss_version (sw_service demo_back) = 2"
proof -
  let ?w1 = "world_begin whole_lib snap_start ''one'' True"
  let ?w2 = "world_finish whole_lib ?w1 (sw_pending ?w1 ! 0)"
  let ?w3 = "world_notify whole_lib ?w2 (sw_notifies ?w2 ! 0)"
  let ?w4 = "world_begin whole_lib ?w3 ''two'' True"
  let ?w5 = "world_finish whole_lib ?w4 (sw_pending ?w4 ! 0)"
  let ?w6 = "world_notify whole_lib ?w5 (sw_notifies ?w5 ! 1)"
  let ?w7 = "world_response ?w6 (sw_responses ?w6 ! 1)"
  have m: "sw_pending ?w1 ! 0 \<in> set (sw_pending ?w1)" "sw_notifies ?w2 ! 0 \<in> set (sw_notifies ?w2)"
    "sw_pending ?w4 ! 0 \<in> set (sw_pending ?w4)" "sw_notifies ?w5 ! 1 \<in> set (sw_notifies ?w5)"
    "sw_responses ?w6 ! 1 \<in> set (sw_responses ?w6)" "sw_responses ?w7 ! 0 \<in> set (sw_responses ?w7)"
    by code_simp+
  have "(snap_step whole_lib)\<^sup>*\<^sup>* snap_start demo_back"
    unfolding demo_back_def Let_def
    by (intro reach_response [OF m(6)] reach_response [OF m(5)] reach_notify [OF m(4)] reach_finish [OF m(3)]
        reach_begin reach_notify [OF m(2)] reach_finish [OF m(1)] rtranclp.rtrancl_refl)
  moreover have "sw_pending demo_back = []" "sw_responses demo_back = []" "sc_version (sw_cache demo_back) = 1"
    "sc_document (sw_cache demo_back) = Some ''one''" "ss_version (sw_service demo_back) = 2" by code_simp+
  ultimately show ?thesis by blast
qed

end
