(* ===== verification/PermHierarchy.thy ===== *)
theory PermHierarchy
  imports CrossHostTypes
begin

text \<open>
  Permission bits and the hierarchy: the data of \<open>src/core/types/permissions.ts\<close> and the decisions of
  \<open>src/core/permissions/hierarchy.ts\<close>.  A set of bits is the list of its elements in insertion order, ranks
  are integers with infinity, and \<open>BotOwnerIds\<close> is a parameter, as the secret store is outside.  The
  descriptions of the bits are left out.
\<close>

subsection \<open>Bits and ranks\<close>

datatype perm_scope = Scope_bot | Scope_server | Scope_plugin

definition BUILT_IN_BITS :: "(string \<times> perm_scope \<times> int) list" where
  "BUILT_IN_BITS =
    [(''bot.owner'', Scope_bot, 900),
     (''bot.protected'', Scope_bot, 800),
     (''bot.servers.view'', Scope_bot, 10),
     (''bot.servers.manage'', Scope_bot, 220),
     (''bot.servers.ban'', Scope_bot, 185),
     (''bot.members.view'', Scope_bot, 10),
     (''bot.members.kick'', Scope_bot, 130),
     (''bot.members.ban'', Scope_bot, 180),
     (''bot.members.mute'', Scope_bot, 120),
     (''bot.members.ban_global'', Scope_bot, 190),
     (''bot.members.nick'', Scope_bot, 100),
     (''bot.members.role'', Scope_bot, 110),
     (''bot.plugins.view'', Scope_bot, 10),
     (''bot.plugins.manage'', Scope_bot, 250),
     (''bot.plugins.reload'', Scope_bot, 240),
     (''bot.roles.manage'', Scope_bot, 360),
     (''bot.theme.manage'', Scope_bot, 200),
     (''bot.dash.pages.manage'', Scope_bot, 200),
     (''bot.logs.view'', Scope_bot, 15),
     (''bot.audit.view'', Scope_bot, 15),
     (''bot.errors.view'', Scope_bot, 15),
     (''bot.analytics.view'', Scope_bot, 15),
     (''bot.tokens.view'', Scope_bot, 20),
     (''bot.tokens.manage'', Scope_bot, 300),
     (''bot.permissions.view'', Scope_bot, 20),
     (''bot.permissions.manage'', Scope_bot, 350),
     (''bot.gates.view'', Scope_bot, 20),
     (''bot.gates.manage'', Scope_bot, 340),
     (''bot.emoji.view'', Scope_bot, 15),
     (''bot.emoji.manage'', Scope_bot, 200),
     (''bot.fleet.view'', Scope_bot, 25),
     (''bot.fleet.restart'', Scope_bot, 400),
     (''bot.shard.view'', Scope_bot, 25),
     (''bot.shard.shift'', Scope_bot, 420),
     (''bot.worker.restart'', Scope_bot, 400),
     (''bot.crosshost.view'', Scope_bot, 25),
     (''bot.crosshost.manage'', Scope_bot, 450),
     (''bot.cache.manage'', Scope_bot, 210),
     (''bot.config.reload'', Scope_bot, 230),
     (''bot.lang.reload'', Scope_bot, 230),
     (''bot.audit.export'', Scope_bot, 200),
     (''bot.errors.export'', Scope_bot, 200),
     (''bot.hierarchy.view'', Scope_bot, 20),
     (''bot.role_links.manage'', Scope_bot, 360),
     (''server.owner'', Scope_server, 900),
     (''server.protected'', Scope_server, 800),
     (''server.config.view'', Scope_server, 10),
     (''server.config.manage'', Scope_server, 220),
     (''server.members.view'', Scope_server, 10),
     (''server.members.kick'', Scope_server, 130),
     (''server.members.ban'', Scope_server, 180),
     (''server.members.mute'', Scope_server, 120),
     (''server.members.history'', Scope_server, 20),
     (''server.members.notes'', Scope_server, 20),
     (''server.members.nick'', Scope_server, 100),
     (''server.members.role'', Scope_server, 110),
     (''server.roles.manage'', Scope_server, 300),
     (''server.lang.manage'', Scope_server, 200),
     (''server.logs.view'', Scope_server, 15),
     (''server.analytics.view'', Scope_server, 15),
     (''server.hierarchy.view'', Scope_server, 20),
     (''server.role_links.manage'', Scope_server, 300),
     (''server.discord_mirror.manage'', Scope_server, 250),
     (''plugin.dashboard.members.notes'', Scope_plugin, 50),
     (''plugin.dashboard.infractions.manage'', Scope_plugin, 120)]"

type_synonym ranks = "(string, int) jsmap"

definition RANK_BY_BIT :: ranks where
  "RANK_BY_BIT = foldl (\<lambda>d b. jm_set d (fst b) (snd (snd b))) [] BUILT_IN_BITS"

definition getBitRank :: "ranks \<Rightarrow> string \<Rightarrow> int" where
  "getBitRank rk b = (case jm_get rk b of None \<Rightarrow> 0 | Some r \<Rightarrow> r)"

definition setBitRank :: "ranks \<Rightarrow> string \<Rightarrow> int \<Rightarrow> ranks" where
  "setBitRank rk b r = jm_set rk b r"

record ResolvedPermissions =
  rp_botOwner :: bool
  rp_bits :: "string list"
  rp_guildId :: "string option"
  rp_resolvedAt :: int

datatype PermissionErrorCode = MISSING_BIT | NOT_IN_GUILD | BOT_WIDE_ONLY | INVALID_BIT | INVALID_SCOPE | FORBIDDEN

definition PERMISSION_HTTP_STATUS :: "PermissionErrorCode \<Rightarrow> nat" where
  "PERMISSION_HTTP_STATUS c = (if c \<in> {MISSING_BIT, NOT_IN_GUILD, FORBIDDEN} then 403 else 400)"

subsection \<open>The hierarchy\<close>

datatype hierarchy_scope = H_bot | H_server | H_any

datatype HierarchyDenialCode = Env_owner_protected | Target_rank_too_high | Equal_rank

datatype rank = Finite int | Infinite

record HierarchyDecision =
  hd_allowed :: bool
  hd_code :: "HierarchyDenialCode option"
  hd_actorRank :: rank
  hd_targetRank :: rank

definition envOwnerIds :: "string \<Rightarrow> string list" where
  "envOwnerIds raw = js_nonempty (map js_trim (js_split (CHR '','') raw))"

definition isEnvBotOwner :: "string \<Rightarrow> string option \<Rightarrow> bool" where
  "isEnvBotOwner raw user = (case user of None \<Rightarrow> False | Some u \<Rightarrow> u \<noteq> [] \<and> u \<in> set (envOwnerIds raw))"

definition rankFromBits :: "ranks \<Rightarrow> string list \<Rightarrow> int" where
  "rankFromBits rk bits = foldl (\<lambda>m b. if getBitRank rk b > m then getBitRank rk b else m) 0 bits"

definition rankFromResolved :: "ranks \<Rightarrow> ResolvedPermissions \<Rightarrow> int" where
  "rankFromResolved rk rp = (if rp_botOwner rp then max 900 (rankFromBits rk (rp_bits rp)) else rankFromBits rk (rp_bits rp))"

definition holds_bot_owner :: "ResolvedPermissions \<Rightarrow> bool" where
  "holds_bot_owner rp = (rp_botOwner rp \<or> ''bot.owner'' \<in> set (rp_bits rp))"

definition canActOnMember ::
  "string \<Rightarrow> ranks \<Rightarrow> string \<Rightarrow> string \<Rightarrow> ResolvedPermissions \<Rightarrow> ResolvedPermissions \<Rightarrow> hierarchy_scope \<Rightarrow> HierarchyDecision" where
  "canActOnMember raw rk actorId targetId actor target scope =
     (let envA = isEnvBotOwner raw (Some actorId); envT = isEnvBotOwner raw (Some targetId);
          ra = rankFromResolved rk actor; rt = rankFromResolved rk target
      in if actorId = targetId then \<lparr>hd_allowed = False, hd_code = Some Equal_rank, hd_actorRank = Finite 0, hd_targetRank = Finite 0\<rparr>
         else if envT \<and> \<not> envA
         then \<lparr>hd_allowed = False, hd_code = Some Env_owner_protected, hd_actorRank = Finite ra, hd_targetRank = Infinite\<rparr>
         else if envA then \<lparr>hd_allowed = True, hd_code = None, hd_actorRank = Infinite, hd_targetRank = Finite rt\<rparr>
         else if holds_bot_owner actor \<and> \<not> envT \<and> scope \<in> {H_bot, H_any}
         then \<lparr>hd_allowed = True, hd_code = None, hd_actorRank = Finite 900, hd_targetRank = Finite rt\<rparr>
         else if scope \<in> {H_server, H_any} \<and> ''server.owner'' \<in> set (rp_bits actor)
         then \<lparr>hd_allowed = True, hd_code = None, hd_actorRank = Finite 900, hd_targetRank = Finite rt\<rparr>
         else if holds_bot_owner target \<and> \<not> holds_bot_owner actor
         then \<lparr>hd_allowed = False, hd_code = Some Target_rank_too_high, hd_actorRank = Finite ra, hd_targetRank = Finite 900\<rparr>
         else if ra > rt then \<lparr>hd_allowed = True, hd_code = None, hd_actorRank = Finite ra, hd_targetRank = Finite rt\<rparr>
         else \<lparr>hd_allowed = False, hd_code = Some (if ra = rt then Equal_rank else Target_rank_too_high),
                hd_actorRank = Finite ra, hd_targetRank = Finite rt\<rparr>)"

text \<open>The bits missing, none when the actor holds them all.\<close>

definition actorHoldsAllBits :: "string \<Rightarrow> string option \<Rightarrow> ResolvedPermissions \<Rightarrow> string list \<Rightarrow> string list" where
  "actorHoldsAllBits raw actorId actor required =
     (if isEnvBotOwner raw actorId \<or> rp_botOwner actor \<or> ''bot.owner'' \<in> set (rp_bits actor) then []
      else if ''server.owner'' \<in> set (rp_bits actor) then filter (\<lambda>b. js_starts_with b ''bot.'') required
      else filter (\<lambda>b. b \<notin> set (rp_bits actor)) required)"

definition filterBitsActorMayGrant ::
  "string \<Rightarrow> string option \<Rightarrow> ResolvedPermissions \<Rightarrow> string list \<Rightarrow> string list \<times> string list" where
  "filterBitsActorMayGrant raw actorId actor bits =
     (if isEnvBotOwner raw actorId \<or> rp_botOwner actor \<or> ''bot.owner'' \<in> set (rp_bits actor) then (bits, [])
      else (filter (\<lambda>b. b \<in> set (rp_bits actor)) bits, filter (\<lambda>b. b \<notin> set (rp_bits actor)) bits))"

subsection \<open>The decision\<close>

lemma rankFromBits_Max: "rankFromBits rk bits = Max (insert 0 (getBitRank rk ` set bits))"
proof -
  have "foldl (\<lambda>m b. if getBitRank rk b > m then getBitRank rk b else m) m bits = Max (insert m (getBitRank rk ` set bits))" for m
  proof (induction bits arbitrary: m)
    case (Cons b bits)
    have "Max (insert (if getBitRank rk b > m then getBitRank rk b else m) (getBitRank rk ` set bits)) =
        Max (insert m (insert (getBitRank rk b) (getBitRank rk ` set bits)))"
      by (cases "getBitRank rk ` set bits = {}") (auto simp: max_def)
    then show ?case using Cons by simp
  qed simp
  then show ?thesis by (simp add: rankFromBits_def)
qed

lemma canActOnMember_allowed:
  "hd_allowed (canActOnMember raw rk a t ap tp scope) \<longleftrightarrow>
     a \<noteq> t \<and> (isEnvBotOwner raw (Some t) \<longrightarrow> isEnvBotOwner raw (Some a)) \<and>
     (isEnvBotOwner raw (Some a) \<or> holds_bot_owner ap \<and> scope \<noteq> H_server \<or>
      ''server.owner'' \<in> set (rp_bits ap) \<and> scope \<noteq> H_bot \<or>
      (holds_bot_owner tp \<longrightarrow> holds_bot_owner ap) \<and> rankFromResolved rk ap > rankFromResolved rk tp)"
  by (cases scope) (auto simp: canActOnMember_def Let_def)

text \<open>
  C23. Nobody acts on themselves or, unless an environment owner, on an environment owner.  Three kinds of
  actors are exempt from the ranks: environment owners, holders of \<open>bot.owner\<close> outside server scope, and
  holders of \<open>server.owner\<close> outside bot scope.  Every other actor acts only on members of strictly lower
  rank, and, unless holding it, never on a holder of \<open>bot.owner\<close>; without it each bit of the target ranks
  strictly below some bit of the actor.
\<close>

theorem canActOnMember_sound:
  assumes "hd_allowed (canActOnMember raw rk a t ap tp scope)"
  shows "a \<noteq> t \<and> (isEnvBotOwner raw (Some t) \<longrightarrow> isEnvBotOwner raw (Some a)) \<and>
    (\<not> isEnvBotOwner raw (Some a) \<and> \<not> (holds_bot_owner ap \<and> scope \<noteq> H_server) \<and>
       \<not> (''server.owner'' \<in> set (rp_bits ap) \<and> scope \<noteq> H_bot) \<longrightarrow>
       rankFromResolved rk tp < rankFromResolved rk ap \<and> (holds_bot_owner tp \<longrightarrow> holds_bot_owner ap) \<and>
       (\<not> holds_bot_owner ap \<longrightarrow>
         (\<forall>b \<in> set (rp_bits tp). \<exists>b' \<in> set (rp_bits ap). getBitRank rk b < getBitRank rk b')))"
proof -
  note al = assms [unfolded canActOnMember_allowed]
  have "\<exists>b' \<in> set (rp_bits ap). getBitRank rk b < getBitRank rk b'"
    if nb: "\<not> isEnvBotOwner raw (Some a)" "\<not> holds_bot_owner ap" "\<not> (''server.owner'' \<in> set (rp_bits ap) \<and> scope \<noteq> H_bot)"
      and b: "b \<in> set (rp_bits tp)" for b
  proof -
    have lt: "rankFromResolved rk tp < rankFromResolved rk ap" "\<not> holds_bot_owner tp" using al nb by auto
    have eq: "rankFromResolved rk ap = Max (insert 0 (getBitRank rk ` set (rp_bits ap)))"
        "rankFromResolved rk tp = Max (insert 0 (getBitRank rk ` set (rp_bits tp)))"
      using nb(2) lt(2) by (simp_all add: rankFromResolved_def holds_bot_owner_def rankFromBits_Max)
    have "getBitRank rk b \<le> rankFromResolved rk tp" "0 \<le> rankFromResolved rk tp"
      unfolding eq using b by (auto intro: Max_ge)
    moreover have "rankFromResolved rk ap \<in> insert 0 (getBitRank rk ` set (rp_bits ap))"
      unfolding eq(1) by (rule Max_in) simp_all
    ultimately obtain b' where "b' \<in> set (rp_bits ap)" "rankFromResolved rk ap = getBitRank rk b'"
      using lt(1) by auto
    then show ?thesis using \<open>getBitRank rk b \<le> rankFromResolved rk tp\<close> lt(1) by (intro bexI [of _ b']) simp_all
  qed
  then show ?thesis using al by blast
qed

definition demo_resolved :: "string list \<Rightarrow> ResolvedPermissions" where
  "demo_resolved bits = \<lparr>rp_botOwner = False, rp_bits = bits, rp_guildId = None, rp_resolvedAt = 0\<rparr>"

theorem canActOnMember_sound_witness:
  "hd_allowed (canActOnMember ''1, 2'' RANK_BY_BIT ''5'' ''6'' (demo_resolved [''bot.members.ban'']) (demo_resolved [''bot.members.kick'']) H_any) \<and>
   (\<exists>b' \<in> {''bot.members.ban''}. getBitRank RANK_BY_BIT ''bot.members.kick'' < getBitRank RANK_BY_BIT b')"
proof
  show a: "hd_allowed (canActOnMember ''1, 2'' RANK_BY_BIT ''5'' ''6'' (demo_resolved [''bot.members.ban'']) (demo_resolved [''bot.members.kick'']) H_any)"
    by code_simp
  have e: "\<not> isEnvBotOwner ''1, 2'' (Some ''5'')" by code_simp
  show "\<exists>b' \<in> {''bot.members.ban''}. getBitRank RANK_BY_BIT ''bot.members.kick'' < getBitRank RANK_BY_BIT b'"
    using canActOnMember_sound [OF a] e by (simp add: demo_resolved_def holds_bot_owner_def)
qed

text \<open>
  The hierarchy is not strictly greater-than: two owners of the bot, neither of them an environment
  owner, may each act on the other, and so may two holders of \<open>server.owner\<close> in a server.
\<close>

theorem owners_act_on_each_other:
  assumes "a \<noteq> b" "\<not> isEnvBotOwner raw (Some a)" "\<not> isEnvBotOwner raw (Some b)"
    and "holds_bot_owner ap \<and> holds_bot_owner bp \<and> scope \<noteq> H_server \<or>
      ''server.owner'' \<in> set (rp_bits ap) \<and> ''server.owner'' \<in> set (rp_bits bp) \<and> scope \<noteq> H_bot"
  shows "hd_allowed (canActOnMember raw rk a b ap bp scope) \<and> hd_allowed (canActOnMember raw rk b a bp ap scope)"
  using assms unfolding canActOnMember_allowed by blast

theorem owners_act_on_each_other_witness:
  "let ow = (demo_resolved [''bot.owner''])\<lparr>rp_botOwner := True\<rparr> in
   rankFromResolved RANK_BY_BIT ow = 900 \<and> hd_allowed (canActOnMember ''1'' RANK_BY_BIT ''5'' ''6'' ow ow H_any)"
proof -
  have e: "\<not> isEnvBotOwner ''1'' (Some ''5'')" "\<not> isEnvBotOwner ''1'' (Some ''6'')" by code_simp+
  have r: "rankFromResolved RANK_BY_BIT ((demo_resolved [''bot.owner''])\<lparr>rp_botOwner := True\<rparr>) = 900" by code_simp
  show ?thesis
    using owners_act_on_each_other [OF _ e, of "(demo_resolved [''bot.owner''])\<lparr>rp_botOwner := True\<rparr>"
        "(demo_resolved [''bot.owner''])\<lparr>rp_botOwner := True\<rparr>" H_any RANK_BY_BIT] r
    by (simp add: Let_def holds_bot_owner_def)
qed

end
