(* ===== verification/PermGrants.thy ===== *)
theory PermGrants
  imports CrossHostTypes
begin

text \<open>
  \<open>src/core/manager/permissionRoleLinks.ts\<close>: why a user has a permission role.  A grant is direct or comes
  from a Discord role; a link says which Discord role brings which permission role.  The tables are lists
  without duplicate keys.  \<open>Engine\<close> is SQLite, which stores a missing guild as the empty text, or MongoDB,
  which keeps it.  PostgreSQL, the third engine the code offers, does not keep what these operations rely
  on: see \<open>returned_row\<close> in the theory \<open>PermRoles\<close>.  Creating and rebuilding the schema is left out, and so is
  \<open>syncMemberDiscordRoles\<close>, which nothing calls.
\<close>

subsection \<open>Links and grants\<close>

datatype Engine = SQLite | Mongo

datatype RoleLinkScope = Link_bot | Link_server

datatype GrantSource = Direct | Discord_role

record RoleLinkDoc =
  rl_id :: string
  rl_scope :: RoleLinkScope
  rl_guildId :: "string option"
  rl_discordRoleId :: string
  rl_permRoleId :: string
  rl_createdAt :: int
  rl_createdBy :: string

record GrantDoc =
  gr_userId :: string
  gr_permRoleId :: string
  gr_guildId :: "string option"
  gr_source :: GrantSource
  gr_discordRoleId :: "string option"
  gr_createdAt :: int

definition sqlTextKey :: "string option \<Rightarrow> string" where
  "sqlTextKey v = (case v of None \<Rightarrow> [] | Some s \<Rightarrow> s)"

definition fromSqlTextKey :: "string \<Rightarrow> string option" where
  "fromSqlTextKey s = (if s = [] then None else Some s)"

definition stored_key :: "Engine \<Rightarrow> string option \<Rightarrow> string option" where
  "stored_key eng v = (case eng of SQLite \<Rightarrow> fromSqlTextKey (sqlTextKey v) | Mongo \<Rightarrow> v)"

definition same_link :: "RoleLinkDoc \<Rightarrow> RoleLinkDoc \<Rightarrow> bool" where
  "same_link a b = (rl_scope a = rl_scope b \<and> rl_guildId a = rl_guildId b \<and>
     rl_discordRoleId a = rl_discordRoleId b \<and> rl_permRoleId a = rl_permRoleId b)"

text \<open>The document returned is the new one even when an equal link was there already.\<close>

definition insertLink ::
  "RoleLinkDoc list \<Rightarrow> string \<Rightarrow> int \<Rightarrow> RoleLinkScope \<Rightarrow> string option \<Rightarrow> string \<Rightarrow> string \<Rightarrow> string
   \<Rightarrow> RoleLinkDoc \<times> RoleLinkDoc list" where
  "insertLink links newId now scope guildId discordRoleId permRoleId createdBy =
     (let doc = \<lparr>rl_id = newId, rl_scope = scope, rl_guildId = fromSqlTextKey (sqlTextKey guildId),
                 rl_discordRoleId = discordRoleId, rl_permRoleId = permRoleId, rl_createdAt = now,
                 rl_createdBy = createdBy\<rparr>
      in (doc, if \<exists>l \<in> set links. same_link l doc then links else links @ [doc]))"

text \<open>SQLite reports a deletion whether or not a row was there.\<close>

definition deleteLink ::
  "Engine \<Rightarrow> RoleLinkDoc list \<Rightarrow> RoleLinkScope \<Rightarrow> string option \<Rightarrow> string \<Rightarrow> string \<Rightarrow> bool \<times> RoleLinkDoc list" where
  "deleteLink eng links scope guildId discordRoleId permRoleId =
     (let hit = (\<lambda>l. rl_scope l = scope \<and> rl_guildId l = stored_key eng guildId \<and>
                       rl_discordRoleId l = discordRoleId \<and> rl_permRoleId l = permRoleId)
      in (eng = SQLite \<or> list_ex hit links, filter (\<lambda>l. \<not> hit l) links))"

text \<open>A filter on the guild is \<open>None\<close> when it is not given and \<open>Some None\<close> when it asks for no guild.\<close>

definition listLinks :: "Engine \<Rightarrow> RoleLinkDoc list \<Rightarrow> RoleLinkScope option \<Rightarrow> string option option \<Rightarrow> RoleLinkDoc list" where
  "listLinks eng links scope guildId =
     filter (\<lambda>l. (case scope of None \<Rightarrow> True | Some s \<Rightarrow> rl_scope l = s) \<and>
       (case guildId of None \<Rightarrow> True | Some g \<Rightarrow> rl_guildId l = stored_key eng g)) links"

definition upsertGrant :: "Engine \<Rightarrow> GrantDoc list \<Rightarrow> GrantDoc \<Rightarrow> GrantDoc list" where
  "upsertGrant eng gs g =
     (let g' = g\<lparr>gr_guildId := stored_key eng (gr_guildId g), gr_discordRoleId := stored_key eng (gr_discordRoleId g)\<rparr> in
      if \<exists>x \<in> set gs. gr_userId x = gr_userId g' \<and> gr_permRoleId x = gr_permRoleId g' \<and> gr_guildId x = gr_guildId g' \<and>
           gr_source x = gr_source g' \<and> gr_discordRoleId x = gr_discordRoleId g'
      then gs else gs @ [g'])"

record grant_filter =
  gf_userId :: "string option"
  gf_permRoleId :: "string option"
  gf_guildId :: "string option option"
  gf_source :: "GrantSource option"
  gf_discordRoleId :: "string option option"

text \<open>An empty user or role is falsy in the code, so it does not filter.\<close>

definition matches_filter :: "Engine \<Rightarrow> grant_filter \<Rightarrow> GrantDoc \<Rightarrow> bool" where
  "matches_filter eng f g =
     ((truthy (gf_userId f) \<longrightarrow> gf_userId f = Some (gr_userId g)) \<and>
      (truthy (gf_permRoleId f) \<longrightarrow> gf_permRoleId f = Some (gr_permRoleId g)) \<and>
      (case gf_guildId f of None \<Rightarrow> True | Some k \<Rightarrow> gr_guildId g = stored_key eng k) \<and>
      (case gf_source f of None \<Rightarrow> True | Some s \<Rightarrow> gr_source g = s) \<and>
      (case gf_discordRoleId f of None \<Rightarrow> True | Some k \<Rightarrow> gr_discordRoleId g = stored_key eng k))"

text \<open>SQLite deletes nothing when nothing is given, the document store then deletes all.\<close>

definition deleteGrants :: "Engine \<Rightarrow> GrantDoc list \<Rightarrow> grant_filter \<Rightarrow> nat \<times> GrantDoc list" where
  "deleteGrants eng gs f =
     (let rest = filter (\<lambda>g. \<not> matches_filter eng f g) gs in
      case eng of
        Mongo \<Rightarrow> (length gs - length rest, rest)
      | SQLite \<Rightarrow>
          if \<not> truthy (gf_userId f) \<and> \<not> truthy (gf_permRoleId f) \<and> gf_guildId f = None \<and> gf_source f = None \<and>
             gf_discordRoleId f = None
          then (0, gs) else (1, rest))"

definition listGrantsForRole :: "Engine \<Rightarrow> GrantDoc list \<Rightarrow> string \<Rightarrow> string option \<Rightarrow> GrantDoc list" where
  "listGrantsForRole eng gs role guildId =
     filter (\<lambda>g. gr_permRoleId g = role \<and> gr_guildId g = stored_key eng guildId) gs"

definition userHasAnyGrant :: "Engine \<Rightarrow> GrantDoc list \<Rightarrow> string \<Rightarrow> string \<Rightarrow> string option \<Rightarrow> bool" where
  "userHasAnyGrant eng gs user role guildId =
     (\<exists>g \<in> set gs. gr_userId g = user \<and> gr_permRoleId g = role \<and> gr_guildId g = stored_key eng guildId)"

definition migrate_one :: "Engine \<Rightarrow> int \<Rightarrow> string \<Rightarrow> string option \<Rightarrow> nat \<times> GrantDoc list \<Rightarrow> string \<Rightarrow> nat \<times> GrantDoc list" where
  "migrate_one eng now role guildId st user =
     (if userHasAnyGrant eng (snd st) user role guildId then st
      else (fst st + 1, upsertGrant eng (snd st) \<lparr>gr_userId = user, gr_permRoleId = role, gr_guildId = guildId,
              gr_source = Direct, gr_discordRoleId = None, gr_createdAt = now\<rparr>))"

definition migrateLegacyAssignedAsDirect ::
  "Engine \<Rightarrow> GrantDoc list \<Rightarrow> int \<Rightarrow> (string \<times> string option \<times> string list) list \<Rightarrow> nat \<times> GrantDoc list" where
  "migrateLegacyAssignedAsDirect eng gs now roles =
     foldl (\<lambda>st (role, guildId, users). foldl (migrate_one eng now role guildId) st users) (0, gs) roles"

subsection \<open>The contract of a grant store\<close>

text \<open>
  What the permissions manager needs of grants of one kind: \<open>put\<close> and \<open>drop\<close> concern one user, role and
  guild, where guilds are compared by the key the store keeps for them.
\<close>

locale grant_store =
  fixes has :: "'s \<Rightarrow> string \<Rightarrow> string \<Rightarrow> string option \<Rightarrow> bool"
    and put :: "'s \<Rightarrow> string \<Rightarrow> string \<Rightarrow> string option \<Rightarrow> 's"
    and drop :: "'s \<Rightarrow> string \<Rightarrow> string \<Rightarrow> string option \<Rightarrow> 's"
    and key :: "string option \<Rightarrow> string option"
  assumes has_put: "has (put s u r g) u' r' g' \<longleftrightarrow> (u' = u \<and> r' = r \<and> key g' = key g) \<or> has s u' r' g'"
    and has_drop_other: "u \<noteq> [] \<Longrightarrow> r \<noteq> [] \<Longrightarrow> \<not> (u' = u \<and> r' = r \<and> key g' = key g) \<Longrightarrow>
      has (drop s u r g) u' r' g' = has s u' r' g'"
    and has_drop_mono: "has (drop s u r g) u' r' g' \<Longrightarrow> has s u' r' g'"
begin

definition put_all :: "'s \<Rightarrow> string \<Rightarrow> string option \<Rightarrow> string list \<Rightarrow> 's" where
  "put_all s r g us = foldl (\<lambda>s u. put s u r g) s us"

lemma has_put_all: "has (put_all s r g us) u' r' g' \<longleftrightarrow> (u' \<in> set us \<and> r' = r \<and> key g' = key g) \<or> has s u' r' g'"
  unfolding put_all_def by (induction us arbitrary: s) (auto simp: has_put)

definition drop_each :: "'s \<Rightarrow> string \<Rightarrow> string option \<Rightarrow> string list \<Rightarrow> string list \<Rightarrow> 's \<times> string list" where
  "drop_each s r g us remaining =
     foldl (\<lambda>(s, rem) u. let s' = drop s u r g in (s', if has s' u r g then rem else remove1 u rem)) (s, remaining) us"

lemma drop_each_Cons:
  "drop_each s r g (u # us) remaining =
     drop_each (drop s u r g) r g us (if has (drop s u r g) u r g then remaining else remove1 u remaining)"
  by (simp add: drop_each_def Let_def)

lemma drop_holders:
  assumes "u \<noteq> []" "r \<noteq> []" "distinct remaining" "set remaining = {x. has s x r g}"
  shows "set (if has (drop s u r g) u r g then remaining else remove1 u remaining) = {x. has (drop s u r g) x r g}"
proof (rule set_eqI)
  fix x
  show "x \<in> set (if has (drop s u r g) u r g then remaining else remove1 u remaining) \<longleftrightarrow>
        x \<in> {x. has (drop s u r g) x r g}"
  proof (cases "x = u")
    case True
    then show ?thesis using assms(3,4) has_drop_mono [of s u r g u r g] by simp
  next
    case False
    then have "has (drop s u r g) x r g = has s x r g" by (intro has_drop_other assms) simp
    then show ?thesis using False assms(3,4) by simp
  qed
qed

text \<open>The loop of a revocation keeps the list of holders in step with the store.\<close>

lemma drop_each_holders:
  assumes "\<forall>u \<in> set us. u \<noteq> []" "r \<noteq> []" "distinct remaining" "set remaining = {x. has s x r g}"
  shows "distinct (snd (drop_each s r g us remaining)) \<and>
    set (snd (drop_each s r g us remaining)) = {x. has (fst (drop_each s r g us remaining)) x r g}"
  using assms
proof (induction us arbitrary: s remaining)
  case Nil
  then show ?case by (simp add: drop_each_def)
next
  case (Cons u us)
  show ?case
    unfolding drop_each_Cons
  proof (rule Cons.IH)
    show "\<forall>u \<in> set us. u \<noteq> []" "r \<noteq> []" using Cons.prems by simp_all
    show "distinct (if has (drop s u r g) u r g then remaining else remove1 u remaining)"
      using Cons.prems(3) by simp
    show "set (if has (drop s u r g) u r g then remaining else remove1 u remaining) = {x. has (drop s u r g) x r g}"
      using Cons.prems by (intro drop_holders) simp_all
  qed
qed

lemma drop_each_mono: "has (fst (drop_each s r g us remaining)) u' r' g' \<Longrightarrow> has s u' r' g'"
proof (induction us arbitrary: s remaining)
  case Nil
  then show ?case by (simp add: drop_each_def)
next
  case (Cons u us)
  then show ?case unfolding drop_each_Cons by (blast dest: has_drop_mono)
qed

lemma drop_each_other:
  assumes "\<forall>u \<in> set us. u \<noteq> []" "r \<noteq> []" "r' \<noteq> r \<or> key g' \<noteq> key g"
  shows "has (fst (drop_each s r g us remaining)) u' r' g' = has s u' r' g'"
  using assms(1)
proof (induction us arbitrary: s remaining)
  case Nil
  then show ?case by (simp add: drop_each_def)
next
  case (Cons u us)
  have "has (drop s u r g) u' r' g' = has s u' r' g'"
    by (rule has_drop_other) (use Cons.prems assms(2,3) in auto)
  then show ?case unfolding drop_each_Cons using Cons by simp
qed

end

subsection \<open>Direct grants and grants from a Discord role\<close>

definition put_grant ::
  "Engine \<Rightarrow> int \<Rightarrow> GrantSource \<Rightarrow> string option \<Rightarrow> GrantDoc list \<Rightarrow> string \<Rightarrow> string \<Rightarrow> string option \<Rightarrow> GrantDoc list" where
  "put_grant eng now src d gs u r g = upsertGrant eng gs \<lparr>gr_userId = u, gr_permRoleId = r, gr_guildId = g,
     gr_source = src, gr_discordRoleId = d, gr_createdAt = now\<rparr>"

definition drop_grant ::
  "Engine \<Rightarrow> GrantSource \<Rightarrow> string option option \<Rightarrow> GrantDoc list \<Rightarrow> string \<Rightarrow> string \<Rightarrow> string option \<Rightarrow> GrantDoc list" where
  "drop_grant eng src d gs u r g = snd (deleteGrants eng gs \<lparr>gf_userId = Some u, gf_permRoleId = Some r,
     gf_guildId = Some g, gf_source = Some src, gf_discordRoleId = d\<rparr>)"

lemma userHas_put:
  "userHasAnyGrant eng (put_grant eng now src d gs u r g) u' r' g' \<longleftrightarrow>
     (u' = u \<and> r' = r \<and> stored_key eng g' = stored_key eng g) \<or> userHasAnyGrant eng gs u' r' g'"
  by (auto simp: userHasAnyGrant_def put_grant_def upsertGrant_def Let_def)

lemma drop_grant_eq:
  "drop_grant eng src d gs u r g = filter (\<lambda>x. \<not> matches_filter eng \<lparr>gf_userId = Some u, gf_permRoleId = Some r,
     gf_guildId = Some g, gf_source = Some src, gf_discordRoleId = d\<rparr> x) gs"
  by (simp add: drop_grant_def deleteGrants_def Let_def split: Engine.split)

lemma bex_cong_filter: "(\<And>x. Q x \<Longrightarrow> P x) \<Longrightarrow> (\<exists>x \<in> set (filter P xs). Q x) = (\<exists>x \<in> set xs. Q x)"
  by auto

lemma userHas_drop_other:
  assumes "u \<noteq> []" "r \<noteq> []" "\<not> (u' = u \<and> r' = r \<and> stored_key eng g' = stored_key eng g)"
  shows "userHasAnyGrant eng (drop_grant eng src d gs u r g) u' r' g' = userHasAnyGrant eng gs u' r' g'"
  unfolding userHasAnyGrant_def drop_grant_eq
  by (rule bex_cong_filter) (use assms in \<open>auto simp: matches_filter_def truthy_def\<close>)

lemma userHas_drop_mono:
  "userHasAnyGrant eng (drop_grant eng src d gs u r g) u' r' g' \<Longrightarrow> userHasAnyGrant eng gs u' r' g'"
  by (auto simp: userHasAnyGrant_def drop_grant_eq)

interpretation grants: grant_store "userHasAnyGrant eng" "put_grant eng now src d" "drop_grant eng src dd" "stored_key eng"
  for eng now src d dd
  by unfold_locales (fact userHas_put userHas_drop_mono | rule userHas_drop_other; assumption)+

end
