(* ===== verification/PermRoles.thy ===== *)
theory PermRoles
  imports PermHierarchy PermGrants
begin

text \<open>
  \<open>src/core/manager/permissions.ts\<close> with \<open>src/core/manager/permissionCache.ts\<close>: the roles, who holds
  them, the cache and the bits a user resolves to.  The tables are lists of documents, without the rows'
  JSON text; the cache's store is a map from its keys to an answer and its expiry.  \<open>BotOwnerIds\<close> is a
  parameter, a new role's id and the clock are arguments, and audit records, logs and events are left out.
\<close>

subsection \<open>The state\<close>

record PermBitDoc =
  pb_id :: string
  pb_description :: string
  pb_scope :: perm_scope
  pb_pluginId :: "string option"
  pb_builtIn :: bool
  pb_createdAt :: int

record BotWideRoleDoc =
  br_id :: string
  br_name :: string
  br_color :: string
  br_bits :: "string list"
  br_assignedUserIds :: "string list"
  br_createdAt :: int
  br_createdBy :: string
  br_updatedAt :: int

record ServerRoleDoc =
  sr_id :: string
  sr_guildId :: string
  sr_name :: string
  sr_color :: string
  sr_bits :: "string list"
  sr_assignedUserIds :: "string list"
  sr_createdAt :: int
  sr_createdBy :: string
  sr_updatedAt :: int

record CreateRoleInput =
  ci_name :: string
  ci_color :: string
  ci_bits :: "string list"
  ci_createdBy :: string

record PartialRoleInput =
  pi_name :: "string option"
  pi_color :: "string option"
  pi_bits :: "string list option"
  pi_createdBy :: "string option"

type_synonym perm_cache = "(string, ResolvedPermissions \<times> int) jsmap"

record PermState =
  ps_engine :: Engine
  ps_bits :: "(string, PermBitDoc) jsmap"
  ps_bwroles :: "BotWideRoleDoc list"
  ps_sroles :: "ServerRoleDoc list"
  ps_grants :: "GrantDoc list"
  ps_links :: "RoleLinkDoc list"
  ps_ranks :: ranks
  ps_cache :: "perm_cache option"

definition OWNER_BIT :: string where "OWNER_BIT = ''bot.owner''"
definition BOT_PROTECTED_BIT :: string where "BOT_PROTECTED_BIT = ''bot.protected''"
definition SERVER_PROTECTED_BIT :: string where "SERVER_PROTECTED_BIT = ''server.protected''"

definition ALL_BOT_BITS :: "string list" where
  "ALL_BOT_BITS = map fst (filter (\<lambda>b. fst (snd b) = Scope_bot) BUILT_IN_BITS)"

subsection \<open>Resolving a user's bits\<close>

definition bot_role_bits :: "PermState \<Rightarrow> string \<Rightarrow> string list" where
  "bot_role_bits db user = concat (map br_bits (filter (\<lambda>r. user \<in> set (br_assignedUserIds r)) (ps_bwroles db)))"

definition server_role_bits :: "PermState \<Rightarrow> string \<Rightarrow> string \<Rightarrow> string list" where
  "server_role_bits db user guildId = concat (map sr_bits
     (filter (\<lambda>r. sr_guildId r = guildId \<and> user \<in> set (sr_assignedUserIds r)) (ps_sroles db)))"

definition resolve ::
  "string \<Rightarrow> int \<Rightarrow> PermState \<Rightarrow> string \<Rightarrow> string option \<Rightarrow> string option \<Rightarrow> ResolvedPermissions" where
  "resolve raw now db user guildId discordGuildOwnerId =
     (let owner = \<lparr>rp_botOwner = True, rp_bits = ALL_BOT_BITS, rp_guildId = guildId, rp_resolvedAt = now\<rparr>;
          guildBits = (if truthy guildId
            then (if truthy discordGuildOwnerId \<and> discordGuildOwnerId = Some user then [''server.owner''] else []) @
                 server_role_bits db user (the guildId)
            else []);
          effectiveBits = js_uniq (bot_role_bits db user @ guildBits)
      in if user \<in> set (envOwnerIds raw) then owner
         else if OWNER_BIT \<in> set effectiveBits then owner
         else \<lparr>rp_botOwner = False, rp_bits = effectiveBits, rp_guildId = guildId, rp_resolvedAt = now\<rparr>)"

subsection \<open>The rows on PostgreSQL\<close>

text \<open>
  The statements name their columns without quotes and PostgreSQL folds such names to lower case, in the
  schema and in the rows it returns; the adapter passes the rows on as they are.  A row is read by the names
  the code uses, and a column that is not there is read as an empty list.  The columns are those that
  \<open>resolve\<close> and the assignments read; a list stands for its JSON text.
\<close>

definition fold_char :: "char \<Rightarrow> char" where
  "fold_char c = (let n = (of_char c :: nat) in if 65 \<le> n \<and> n \<le> 90 then char_of (n + 32) else c)"

definition bwrole_row :: "BotWideRoleDoc \<Rightarrow> (string \<times> string list) list" where
  "bwrole_row r = [(''bits'', br_bits r), (''assignedUserIds'', br_assignedUserIds r)]"

definition returned_row :: "bool \<Rightarrow> (string \<times> string list) list \<Rightarrow> (string \<times> string list) list" where
  "returned_row postgres row = (if postgres then map (\<lambda>c. (map fold_char (fst c), snd c)) row else row)"

definition row_array :: "(string \<times> string list) list \<Rightarrow> string \<Rightarrow> string list" where
  "row_array row k = (case map_of row k of None \<Rightarrow> [] | Some l \<Rightarrow> l)"

text \<open>The bits of the roles a user is assigned to, and the list an assignment writes back.\<close>

definition rows_bits :: "(string \<times> string list) list list \<Rightarrow> string \<Rightarrow> string list" where
  "rows_bits rows user =
     concat (map (\<lambda>r. row_array r ''bits'') (filter (\<lambda>r. user \<in> set (row_array r ''assignedUserIds'')) rows))"

definition assigned_after :: "(string \<times> string list) list \<Rightarrow> string list \<Rightarrow> string list" where
  "assigned_after row users = js_uniq (row_array row ''assignedUserIds'' @ users)"

text \<open>
  On PostgreSQL no role gives a bit to anybody, whoever is assigned to it, and an assignment drops the users
  assigned before; on SQLite the rows give what \<open>bot_role_bits\<close> says and an assignment adds to the users.
\<close>

theorem postgres_roles_give_nothing:
  "rows_bits (map (\<lambda>r. returned_row True (bwrole_row r)) (ps_bwroles db)) user = [] \<and>
   assigned_after (returned_row True (bwrole_row r)) users = js_uniq users \<and>
   rows_bits (map (\<lambda>r. returned_row False (bwrole_row r)) (ps_bwroles db)) user = bot_role_bits db user \<and>
   assigned_after (returned_row False (bwrole_row r)) users = js_uniq (br_assignedUserIds r @ users)"
proof -
  have fold: "map fold_char ''assignedUserIds'' = ''assigneduserids''" "map fold_char ''bits'' = ''bits''" by code_simp+
  have none: "row_array (returned_row True (bwrole_row r)) ''assignedUserIds'' = []" for r
    using fold by (simp add: row_array_def returned_row_def bwrole_row_def)
  have some: "row_array (returned_row False (bwrole_row r)) ''assignedUserIds'' = br_assignedUserIds r"
    "row_array (returned_row False (bwrole_row r)) ''bits'' = br_bits r" for r
    by (simp_all add: row_array_def returned_row_def bwrole_row_def)
  show ?thesis
    by (simp add: rows_bits_def assigned_after_def none some filter_map comp_def bot_role_bits_def)
qed

subsection \<open>The cache\<close>

definition DEFAULT_TTL_SECONDS :: int where "DEFAULT_TTL_SECONDS = 300"

definition cacheId :: "string \<Rightarrow> string option \<Rightarrow> string" where
  "cacheId user guildId =
     (if truthy guildId then ''permcache_'' @ the guildId @ ''_'' @ user else ''permcache_'' @ user)"

definition perm_cache_get :: "perm_cache \<Rightarrow> int \<Rightarrow> string \<Rightarrow> ResolvedPermissions option" where
  "perm_cache_get c nowMs key = (case jm_get c key of None \<Rightarrow> None | Some (rp, expiry) \<Rightarrow> if nowMs \<ge> expiry then None else Some rp)"

text \<open>The payload's guild falls back to the one asked for, the live answer is stored and returned.\<close>

definition cachedResolve ::
  "string \<Rightarrow> int \<Rightarrow> PermState \<Rightarrow> string \<Rightarrow> string option \<Rightarrow> string option \<Rightarrow> ResolvedPermissions \<times> PermState" where
  "cachedResolve raw nowMs db user guildId discordGuildOwnerId =
     (let live = resolve raw (nowMs div 1000) db user guildId discordGuildOwnerId in
      case ps_cache db of
        None \<Rightarrow> (live, db)
      | Some c \<Rightarrow>
          (case perm_cache_get c nowMs (cacheId user guildId) of
             Some rp \<Rightarrow> (rp\<lparr>rp_guildId := (case rp_guildId rp of None \<Rightarrow> guildId | Some g \<Rightarrow> Some g)\<rparr>, db)
           | None \<Rightarrow> (live, db\<lparr>ps_cache := Some (jm_set c (cacheId user guildId)
                                (live, nowMs + DEFAULT_TTL_SECONDS * 1000))\<rparr>)))"

definition invalidate :: "perm_cache \<Rightarrow> string \<Rightarrow> string option \<Rightarrow> perm_cache" where
  "invalidate c user guildId =
     (let c1 = jm_delete c (cacheId user None);
          c2 = (if truthy guildId then jm_delete c1 (cacheId user guildId) else c1)
      in filter (\<lambda>p. \<not> (js_starts_with (fst p) ''permcache_'' \<and> js_ends_with (fst p) (''_'' @ user))) c2)"

definition invalidateUserCache :: "string option \<Rightarrow> PermState \<Rightarrow> string \<Rightarrow> PermState" where
  "invalidateUserCache guildId db user = db\<lparr>ps_cache := map_option (\<lambda>c. invalidate c user guildId) (ps_cache db)\<rparr>"

definition invalidateGuild :: "perm_cache \<Rightarrow> string \<Rightarrow> perm_cache" where
  "invalidateGuild c guildId = filter (\<lambda>p. \<not> js_starts_with (fst p) (''permcache_'' @ guildId @ ''_'')) c"

definition invalidateGuildCache :: "PermState \<Rightarrow> string \<Rightarrow> PermState" where
  "invalidateGuildCache db guildId = db\<lparr>ps_cache := map_option (\<lambda>c. invalidateGuild c guildId) (ps_cache db)\<rparr>"

definition clearAll :: "perm_cache \<Rightarrow> perm_cache" where
  "clearAll c = filter (\<lambda>p. \<not> js_starts_with (fst p) ''permcache_'') c"

subsection \<open>Asking for bits\<close>

definition hasBit :: "ResolvedPermissions \<Rightarrow> string \<Rightarrow> bool" where
  "hasBit rp bt = (rp_botOwner rp \<or> bt \<in> set (rp_bits rp))"

definition hasAllBits :: "ResolvedPermissions \<Rightarrow> string list \<Rightarrow> bool" where
  "hasAllBits rp bits = (rp_botOwner rp \<or> list_all (\<lambda>b. b \<in> set (rp_bits rp)) bits)"

definition hasAnyBit :: "ResolvedPermissions \<Rightarrow> string list \<Rightarrow> bool" where
  "hasAnyBit rp bits = (rp_botOwner rp \<or> list_ex (\<lambda>b. b \<in> set (rp_bits rp)) bits)"

definition requireBit :: "ResolvedPermissions \<Rightarrow> string \<Rightarrow> PermissionErrorCode option" where
  "requireBit rp bt = (if hasBit rp bt then None else Some MISSING_BIT)"

text \<open>The hierarchy check resolves both members live.\<close>

definition manager_canActOnMember ::
  "string \<Rightarrow> int \<Rightarrow> PermState \<Rightarrow> string \<Rightarrow> string \<Rightarrow> string option \<Rightarrow> string option \<Rightarrow> HierarchyDecision" where
  "manager_canActOnMember raw now db actor target guildId owner =
     canActOnMember raw (ps_ranks db) actor target (resolve raw now db actor guildId owner)
       (resolve raw now db target guildId owner) (if truthy guildId then H_any else H_bot)"

subsection \<open>The catalogue of bits\<close>

definition upsert_bit :: "(string, PermBitDoc) jsmap \<Rightarrow> Engine \<Rightarrow> PermBitDoc \<Rightarrow> (PermBitDoc \<Rightarrow> PermBitDoc) \<Rightarrow> (string, PermBitDoc) jsmap" where
  "upsert_bit m eng doc onConflict =
     (case (eng, jm_get m (pb_id doc)) of
        (SQLite, Some old) \<Rightarrow> jm_set m (pb_id doc) (onConflict old)
      | _ \<Rightarrow> jm_set m (pb_id doc) doc)"

definition seedBuiltInBits :: "PermState \<Rightarrow> int \<Rightarrow> (string \<Rightarrow> string) \<Rightarrow> PermState" where
  "seedBuiltInBits db now describe = db\<lparr>ps_bits := foldl (\<lambda>m (bt, scope, rank).
     upsert_bit m (ps_engine db)
       \<lparr>pb_id = bt, pb_description = describe bt, pb_scope = scope, pb_pluginId = None, pb_builtIn = True, pb_createdAt = now\<rparr>
       (\<lambda>old. old\<lparr>pb_description := describe bt, pb_scope := scope\<rparr>)) (ps_bits db) BUILT_IN_BITS\<rparr>"

definition registerBit ::
  "PermState \<Rightarrow> int \<Rightarrow> string \<Rightarrow> string \<Rightarrow> string option \<Rightarrow> int option \<Rightarrow> PermState" where
  "registerBit db now bt description pluginId rank =
     (let scope = (if js_starts_with bt ''bot.'' then Scope_bot
                   else if js_starts_with bt ''server.'' then Scope_server else Scope_plugin)
      in db\<lparr>ps_bits := upsert_bit (ps_bits db) (ps_engine db)
              \<lparr>pb_id = bt, pb_description = description, pb_scope = scope, pb_pluginId = pluginId, pb_builtIn = False, pb_createdAt = now\<rparr>
              (\<lambda>old. old\<lparr>pb_description := description\<rparr>),
            ps_ranks := (case rank of None \<Rightarrow> ps_ranks db | Some r \<Rightarrow> setBitRank (ps_ranks db) bt r)\<rparr>)"

definition listBits :: "PermState \<Rightarrow> perm_scope option \<Rightarrow> PermBitDoc list" where
  "listBits db scope =
     (let rows = filter (\<lambda>b. case scope of None \<Rightarrow> True | Some s \<Rightarrow> pb_scope b = s) (jm_values (ps_bits db))
      in case ps_engine db of SQLite \<Rightarrow> sort_key pb_id rows | Mongo \<Rightarrow> rows)"

text \<open>SQLite counts the rows found, the document store looks each bit up: they differ when a bit is repeated.\<close>

definition bitsExist :: "PermState \<Rightarrow> string list \<Rightarrow> bool" where
  "bitsExist db bits =
     (bits = [] \<or> (case ps_engine db of
        Mongo \<Rightarrow> list_all (\<lambda>b. jm_has (ps_bits db) b) bits
      | SQLite \<Rightarrow> length (filter (\<lambda>k. k \<in> set bits) (jm_keys (ps_bits db))) = length bits))"

subsection \<open>Guards\<close>

text \<open>A check is \<open>None\<close> or the error it throws; the first error of a sequence is the one thrown.\<close>

fun first_error :: "PermissionErrorCode option list \<Rightarrow> PermissionErrorCode option" where
  "first_error [] = None"
| "first_error (None # cs) = first_error cs"
| "first_error (Some e # cs) = Some e"

definition assertCanMutateOwnerBit :: "string \<Rightarrow> string option \<Rightarrow> string list \<Rightarrow> PermissionErrorCode option" where
  "assertCanMutateOwnerBit raw actor bits =
     (if OWNER_BIT \<notin> set bits then None else if isEnvBotOwner raw actor then None else Some FORBIDDEN)"

definition assertCanMutateBotProtectedBit ::
  "string \<Rightarrow> int \<Rightarrow> PermState \<Rightarrow> string option \<Rightarrow> string list \<Rightarrow> PermissionErrorCode option" where
  "assertCanMutateBotProtectedBit raw now db actor bits =
     (if BOT_PROTECTED_BIT \<notin> set bits then None
      else if OWNER_BIT \<in> set bits then assertCanMutateOwnerBit raw actor bits
      else if \<not> truthy actor then Some FORBIDDEN
      else if isEnvBotOwner raw actor then None
      else let resolved = resolve raw now db (the actor) None None in
        if rp_botOwner resolved \<or> OWNER_BIT \<in> set (rp_bits resolved) then None else Some FORBIDDEN)"

definition assertCanMutateServerProtectedBit ::
  "string \<Rightarrow> int \<Rightarrow> PermState \<Rightarrow> string option \<Rightarrow> string \<Rightarrow> string list \<Rightarrow> PermissionErrorCode option" where
  "assertCanMutateServerProtectedBit raw now db actor guildId bits =
     (if SERVER_PROTECTED_BIT \<notin> set bits then None
      else if \<not> truthy actor then Some FORBIDDEN
      else let resolved = resolve raw now db (the actor) (Some guildId) None in
        if ''server.owner'' \<in> set (rp_bits resolved) then None
        else if rp_botOwner resolved \<or> OWNER_BIT \<in> set (rp_bits resolved) \<or> isEnvBotOwner raw actor then None
        else Some FORBIDDEN)"

definition assertActorHoldsRoleBits ::
  "string \<Rightarrow> int \<Rightarrow> PermState \<Rightarrow> string option \<Rightarrow> string list \<Rightarrow> string option \<Rightarrow> PermissionErrorCode option" where
  "assertActorHoldsRoleBits raw now db actor bits guildId =
     (if bits = [] then None
      else if \<not> truthy actor then Some FORBIDDEN
      else let resolved = resolve raw now db (the actor) guildId None in
        if actorHoldsAllBits raw actor resolved bits \<noteq> [] then Some FORBIDDEN
        else if truthy guildId \<and> list_ex (\<lambda>b. js_starts_with b ''bot.'') bits then Some INVALID_SCOPE
        else None)"

definition assertServerScopedBits :: "string list \<Rightarrow> PermissionErrorCode option" where
  "assertServerScopedBits bits =
     (case List.find (\<lambda>b. \<not> (js_starts_with b ''server.'' \<or> js_starts_with b ''plugin.'')) bits of
        None \<Rightarrow> None | Some offender \<Rightarrow> if offender = [] then None else Some INVALID_SCOPE)"

definition assertBitsExist :: "PermState \<Rightarrow> string list \<Rightarrow> PermissionErrorCode option" where
  "assertBitsExist db bits = (if bitsExist db bits then None else Some INVALID_BIT)"

subsection \<open>Bot roles\<close>

definition getBotRole :: "PermState \<Rightarrow> string \<Rightarrow> BotWideRoleDoc option" where
  "getBotRole db roleId = List.find (\<lambda>r. br_id r = roleId) (ps_bwroles db)"

definition createBotRole ::
  "string \<Rightarrow> int \<Rightarrow> PermState \<Rightarrow> string \<Rightarrow> CreateRoleInput \<Rightarrow> string option \<Rightarrow> PermissionErrorCode + BotWideRoleDoc \<times> PermState" where
  "createBotRole raw now db newId data actor =
     (case first_error [assertCanMutateOwnerBit raw actor (ci_bits data),
        assertCanMutateBotProtectedBit raw now db actor (ci_bits data),
        assertActorHoldsRoleBits raw now db actor (ci_bits data) None,
        assertBitsExist db (ci_bits data)] of
        Some e \<Rightarrow> Inl e
      | None \<Rightarrow>
          let doc = \<lparr>br_id = newId, br_name = ci_name data, br_color = ci_color data, br_bits = ci_bits data,
                br_assignedUserIds = [], br_createdAt = now, br_createdBy = ci_createdBy data, br_updatedAt = now\<rparr>
          in Inr (doc, db\<lparr>ps_bwroles := ps_bwroles db @ [doc]\<rparr>))"

definition on_bot_role :: "PermState \<Rightarrow> string \<Rightarrow> (BotWideRoleDoc \<Rightarrow> BotWideRoleDoc) \<Rightarrow> PermState" where
  "on_bot_role db roleId f = db\<lparr>ps_bwroles := map (\<lambda>r. if br_id r = roleId then f r else r) (ps_bwroles db)\<rparr>"

definition or_else :: "'a option \<Rightarrow> 'a \<Rightarrow> 'a" where
  "or_else v d = (case v of None \<Rightarrow> d | Some x \<Rightarrow> x)"

text \<open>The document returned carries the request's \<open>createdBy\<close>, the row keeps its own.\<close>

definition updateBotRole ::
  "string \<Rightarrow> int \<Rightarrow> PermState \<Rightarrow> string \<Rightarrow> PartialRoleInput \<Rightarrow> string option \<Rightarrow> PermissionErrorCode + BotWideRoleDoc \<times> PermState" where
  "updateBotRole raw now db roleId data actor =
     (case getBotRole db roleId of
        None \<Rightarrow> Inl INVALID_BIT
      | Some existing \<Rightarrow>
          let involved = br_bits existing @ or_else (pi_bits data) [] in
          (case first_error ([assertCanMutateOwnerBit raw actor involved,
             assertCanMutateBotProtectedBit raw now db actor involved] @
             (case pi_bits data of None \<Rightarrow> []
              | Some bits \<Rightarrow> [assertActorHoldsRoleBits raw now db actor bits None, assertBitsExist db bits])) of
             Some e \<Rightarrow> Inl e
           | None \<Rightarrow>
               let name = or_else (pi_name data) (br_name existing); color = or_else (pi_color data) (br_color existing);
                   bits = or_else (pi_bits data) (br_bits existing);
                   upd = (\<lambda>r. r\<lparr>br_name := name, br_color := color, br_bits := bits, br_updatedAt := now\<rparr>)
               in Inr ((upd existing)\<lparr>br_createdBy := or_else (pi_createdBy data) (br_createdBy existing)\<rparr>,
                       on_bot_role db roleId upd)))"

definition deleteBotRole ::
  "string \<Rightarrow> int \<Rightarrow> PermState \<Rightarrow> string \<Rightarrow> string option \<Rightarrow> PermissionErrorCode + PermState" where
  "deleteBotRole raw now db roleId actor =
     (let existing = getBotRole db roleId; bits = (case existing of None \<Rightarrow> [] | Some r \<Rightarrow> br_bits r) in
      case first_error [assertCanMutateOwnerBit raw actor bits, assertCanMutateBotProtectedBit raw now db actor bits] of
        Some e \<Rightarrow> Inl e
      | None \<Rightarrow>
          let db1 = db\<lparr>ps_bwroles := filter (\<lambda>r. br_id r \<noteq> roleId) (ps_bwroles db)\<rparr> in
          Inr (case existing of None \<Rightarrow> db1 | Some r \<Rightarrow> foldl (invalidateUserCache None) db1 (br_assignedUserIds r)))"

definition writeBotAssigned :: "int \<Rightarrow> PermState \<Rightarrow> string \<Rightarrow> string list \<Rightarrow> PermState" where
  "writeBotAssigned now db roleId assigned =
     on_bot_role db roleId (\<lambda>r. r\<lparr>br_assignedUserIds := assigned, br_updatedAt := now\<rparr>)"

text \<open>Granting a list of users, and the loop of a revocation with the list of those who keep the role.\<close>

definition grant_all :: "int \<Rightarrow> PermState \<Rightarrow> string \<Rightarrow> string option \<Rightarrow> string list \<Rightarrow> PermState" where
  "grant_all now db roleId guildId users = db\<lparr>ps_grants :=
     foldl (\<lambda>gs u. put_grant (ps_engine db) now Direct None gs u roleId guildId) (ps_grants db) users\<rparr>"

definition revoke_all :: "PermState \<Rightarrow> string \<Rightarrow> string option \<Rightarrow> string list \<Rightarrow> string list \<Rightarrow> PermState \<times> string list" where
  "revoke_all db roleId guildId users remaining =
     (let (gs, rest) = foldl (\<lambda>(gs, rest) u.
        let gs' = drop_grant (ps_engine db) Direct None gs u roleId guildId in
        (gs', if userHasAnyGrant (ps_engine db) gs' u roleId guildId then rest else remove1 u rest))
        (ps_grants db, remaining) users
      in (db\<lparr>ps_grants := gs\<rparr>, rest))"

definition assignBotRole ::
  "string \<Rightarrow> int \<Rightarrow> PermState \<Rightarrow> string \<Rightarrow> string list \<Rightarrow> string option \<Rightarrow> PermissionErrorCode + PermState" where
  "assignBotRole raw now db roleId users actor =
     (case getBotRole db roleId of
        None \<Rightarrow> Inl INVALID_BIT
      | Some existing \<Rightarrow>
          (case first_error [assertCanMutateOwnerBit raw actor (br_bits existing),
             assertCanMutateBotProtectedBit raw now db actor (br_bits existing)] of
             Some e \<Rightarrow> Inl e
           | None \<Rightarrow>
               let db1 = grant_all now db roleId None users;
                   merged = js_uniq (br_assignedUserIds existing @ users)
               in Inr (foldl (invalidateUserCache None) (writeBotAssigned now db1 roleId merged) users)))"

definition revokeBotRole ::
  "string \<Rightarrow> int \<Rightarrow> PermState \<Rightarrow> string \<Rightarrow> string list \<Rightarrow> string option \<Rightarrow> PermissionErrorCode + PermState" where
  "revokeBotRole raw now db roleId users actor =
     (case getBotRole db roleId of
        None \<Rightarrow> Inl INVALID_BIT
      | Some existing \<Rightarrow>
          (case first_error [assertCanMutateOwnerBit raw actor (br_bits existing),
             assertCanMutateBotProtectedBit raw now db actor (br_bits existing)] of
             Some e \<Rightarrow> Inl e
           | None \<Rightarrow>
               let (db1, remaining) = revoke_all db roleId None users (br_assignedUserIds existing)
               in Inr (foldl (invalidateUserCache None) (writeBotAssigned now db1 roleId remaining) users)))"

subsection \<open>Server roles\<close>

definition is_srole :: "string \<Rightarrow> string \<Rightarrow> ServerRoleDoc \<Rightarrow> bool" where
  "is_srole guildId roleId r = (sr_id r = roleId \<and> sr_guildId r = guildId)"

definition getServerRole :: "PermState \<Rightarrow> string \<Rightarrow> string \<Rightarrow> ServerRoleDoc option" where
  "getServerRole db guildId roleId = List.find (is_srole guildId roleId) (ps_sroles db)"

definition createServerRole ::
  "string \<Rightarrow> int \<Rightarrow> PermState \<Rightarrow> string \<Rightarrow> string \<Rightarrow> CreateRoleInput \<Rightarrow> string option
   \<Rightarrow> PermissionErrorCode + ServerRoleDoc \<times> PermState" where
  "createServerRole raw now db newId guildId data actor =
     (case first_error [assertServerScopedBits (ci_bits data),
        assertCanMutateServerProtectedBit raw now db actor guildId (ci_bits data),
        assertActorHoldsRoleBits raw now db actor (ci_bits data) (Some guildId),
        assertBitsExist db (ci_bits data)] of
        Some e \<Rightarrow> Inl e
      | None \<Rightarrow>
          let doc = \<lparr>sr_id = newId, sr_guildId = guildId, sr_name = ci_name data, sr_color = ci_color data,
                sr_bits = ci_bits data, sr_assignedUserIds = [], sr_createdAt = now, sr_createdBy = ci_createdBy data,
                sr_updatedAt = now\<rparr>
          in Inr (doc, db\<lparr>ps_sroles := ps_sroles db @ [doc]\<rparr>))"

definition on_server_role :: "PermState \<Rightarrow> string \<Rightarrow> string \<Rightarrow> (ServerRoleDoc \<Rightarrow> ServerRoleDoc) \<Rightarrow> PermState" where
  "on_server_role db guildId roleId f =
     db\<lparr>ps_sroles := map (\<lambda>r. if is_srole guildId roleId r then f r else r) (ps_sroles db)\<rparr>"

text \<open>Without an actor the request's own \<open>createdBy\<close> stands for it; without bits nothing is checked.\<close>

definition updateServerRole ::
  "string \<Rightarrow> int \<Rightarrow> PermState \<Rightarrow> string \<Rightarrow> string \<Rightarrow> PartialRoleInput \<Rightarrow> string option
   \<Rightarrow> PermissionErrorCode + ServerRoleDoc \<times> PermState" where
  "updateServerRole raw now db guildId roleId data actor =
     (case getServerRole db guildId roleId of
        None \<Rightarrow> Inl INVALID_BIT
      | Some existing \<Rightarrow>
          let who = (case actor of None \<Rightarrow> pi_createdBy data | Some a \<Rightarrow> Some a) in
          (case first_error (case pi_bits data of None \<Rightarrow> []
              | Some bits \<Rightarrow> [assertServerScopedBits bits,
                  assertCanMutateServerProtectedBit raw now db who guildId (sr_bits existing @ bits),
                  assertActorHoldsRoleBits raw now db who bits (Some guildId),
                  assertBitsExist db bits]) of
             Some e \<Rightarrow> Inl e
           | None \<Rightarrow>
               let name = or_else (pi_name data) (sr_name existing); color = or_else (pi_color data) (sr_color existing);
                   bits = or_else (pi_bits data) (sr_bits existing);
                   upd = (\<lambda>r. r\<lparr>sr_name := name, sr_color := color, sr_bits := bits, sr_updatedAt := now\<rparr>)
               in Inr ((upd existing)\<lparr>sr_createdBy := or_else (pi_createdBy data) (sr_createdBy existing)\<rparr>,
                       on_server_role db guildId roleId upd)))"

definition deleteServerRole :: "PermState \<Rightarrow> string \<Rightarrow> string \<Rightarrow> PermState" where
  "deleteServerRole db guildId roleId =
     (let db1 = db\<lparr>ps_sroles := filter (\<lambda>r. \<not> is_srole guildId roleId r) (ps_sroles db)\<rparr> in
      case getServerRole db guildId roleId of
        None \<Rightarrow> db1
      | Some r \<Rightarrow> foldl (invalidateUserCache (Some guildId)) db1 (sr_assignedUserIds r))"

definition writeServerAssigned :: "int \<Rightarrow> PermState \<Rightarrow> string \<Rightarrow> string \<Rightarrow> string list \<Rightarrow> PermState" where
  "writeServerAssigned now db guildId roleId assigned =
     on_server_role db guildId roleId (\<lambda>r. r\<lparr>sr_assignedUserIds := assigned, sr_updatedAt := now\<rparr>)"

definition assignServerRole ::
  "int \<Rightarrow> PermState \<Rightarrow> string \<Rightarrow> string \<Rightarrow> string list \<Rightarrow> PermissionErrorCode + PermState" where
  "assignServerRole now db guildId roleId users =
     (case getServerRole db guildId roleId of
        None \<Rightarrow> Inl INVALID_BIT
      | Some existing \<Rightarrow>
          let db1 = grant_all now db roleId (Some guildId) users;
              merged = js_uniq (sr_assignedUserIds existing @ users)
          in Inr (foldl (invalidateUserCache (Some guildId)) (writeServerAssigned now db1 guildId roleId merged) users))"

definition revokeServerRole ::
  "int \<Rightarrow> PermState \<Rightarrow> string \<Rightarrow> string \<Rightarrow> string list \<Rightarrow> PermissionErrorCode + PermState" where
  "revokeServerRole now db guildId roleId users =
     (case getServerRole db guildId roleId of
        None \<Rightarrow> Inl INVALID_BIT
      | Some existing \<Rightarrow>
          let (db1, remaining) = revoke_all db roleId (Some guildId) users (sr_assignedUserIds existing)
          in Inr (foldl (invalidateUserCache (Some guildId)) (writeServerAssigned now db1 guildId roleId remaining) users))"

subsection \<open>Lists of roles and who holds a bit\<close>

text \<open>SQLite orders the rows, the document store gives them as inserted.\<close>

definition listBotRoles :: "PermState \<Rightarrow> BotWideRoleDoc list" where
  "listBotRoles db = (case ps_engine db of SQLite \<Rightarrow> sort_key br_createdAt (ps_bwroles db) | Mongo \<Rightarrow> ps_bwroles db)"

definition listServerRoles :: "PermState \<Rightarrow> string \<Rightarrow> ServerRoleDoc list" where
  "listServerRoles db guildId =
     (let rows = filter (\<lambda>r. sr_guildId r = guildId) (ps_sroles db)
      in case ps_engine db of SQLite \<Rightarrow> sort_key sr_createdAt rows | Mongo \<Rightarrow> rows)"

definition listAllServerRoles :: "PermState \<Rightarrow> ServerRoleDoc list" where
  "listAllServerRoles db =
     (case ps_engine db of SQLite \<Rightarrow> sort_key sr_guildId (sort_key sr_createdAt (ps_sroles db)) | Mongo \<Rightarrow> ps_sroles db)"

definition findHoldersOfBit :: "PermState \<Rightarrow> string \<Rightarrow> string list \<times> (string, string list) jsmap" where
  "findHoldersOfBit db bt =
     (let botWide = js_uniq (concat (map br_assignedUserIds (filter (\<lambda>r. bt \<in> set (br_bits r)) (listBotRoles db))));
          byGuild = foldl (\<lambda>m r. jm_set m (sr_guildId r)
            (js_uniq (or_else (jm_get m (sr_guildId r)) [] @ sr_assignedUserIds r)))
            [] (filter (\<lambda>r. bt \<in> set (sr_bits r)) (listAllServerRoles db))
      in (sort botWide, map (\<lambda>(g, us). (g, sort us)) byGuild))"

end
