(* ===== verification/PermLinks.thy ===== *)
theory PermLinks
  imports PermRoles
begin

text \<open>
  Discord roles that bring permission roles: the link operations of \<open>src/core/manager/permissions.ts\<close>, the
  handler of \<open>src/plugins/permissions/src/events/guildMemberUpdate.ts\<close> and the migration at start-up.  The
  events emitted are left out.
\<close>

subsection \<open>Links and grants from Discord roles\<close>

definition linkDiscordRole ::
  "PermState \<Rightarrow> string \<Rightarrow> int \<Rightarrow> RoleLinkScope \<Rightarrow> string option \<Rightarrow> string \<Rightarrow> string \<Rightarrow> string
   \<Rightarrow> PermissionErrorCode + RoleLinkDoc \<times> PermState" where
  "linkDiscordRole db newId now scope guildId discordRoleId permRoleId createdBy =
     (case (case scope of
              Link_bot \<Rightarrow> if getBotRole db permRoleId = None then Some INVALID_BIT else None
            | Link_server \<Rightarrow>
                if \<not> truthy guildId then Some NOT_IN_GUILD
                else if getServerRole db (the guildId) permRoleId = None then Some INVALID_BIT else None) of
        Some e \<Rightarrow> Inl e
      | None \<Rightarrow>
          let (doc, links) = insertLink (ps_links db) newId now scope guildId discordRoleId permRoleId createdBy
          in Inr (doc, db\<lparr>ps_links := links\<rparr>))"

text \<open>A link dropped takes its grants with it, and whoever has no other grant loses the role.\<close>

definition unlinkDiscordRole ::
  "int \<Rightarrow> PermState \<Rightarrow> RoleLinkScope \<Rightarrow> string option \<Rightarrow> string \<Rightarrow> string \<Rightarrow> PermState" where
  "unlinkDiscordRole now db scope guildId discordRoleId permRoleId =
     (let eng = ps_engine db;
          guildKey = (if scope = Link_bot then None else guildId);
          gs = snd (deleteGrants eng (ps_grants db) \<lparr>gf_userId = None, gf_permRoleId = Some permRoleId,
                 gf_guildId = Some guildKey, gf_source = Some Discord_role, gf_discordRoleId = Some (Some discordRoleId)\<rparr>);
          db1 = db\<lparr>ps_links := snd (deleteLink eng (ps_links db) scope guildId discordRoleId permRoleId), ps_grants := gs\<rparr>;
          still = map gr_userId (listGrantsForRole eng gs permRoleId guildKey)
      in if scope = Link_bot then
           (case getBotRole db1 permRoleId of
              None \<Rightarrow> db1
            | Some role \<Rightarrow> foldl (invalidateUserCache None)
                (writeBotAssigned now db1 permRoleId (filter (\<lambda>u. u \<in> set still) (br_assignedUserIds role)))
                (br_assignedUserIds role))
         else if truthy guildId then
           (case getServerRole db1 (the guildId) permRoleId of
              None \<Rightarrow> db1
            | Some role \<Rightarrow> foldl (invalidateUserCache guildId)
                (writeServerAssigned now db1 (the guildId) permRoleId (filter (\<lambda>u. u \<in> set still) (sr_assignedUserIds role)))
                (sr_assignedUserIds role))
         else db1)"

definition applyDiscordGrant ::
  "int \<Rightarrow> PermState \<Rightarrow> RoleLinkScope \<Rightarrow> string option \<Rightarrow> string \<Rightarrow> string \<Rightarrow> string \<Rightarrow> PermState" where
  "applyDiscordGrant now db scope guildId permRoleId userId discordRoleId =
     (let gId = (if scope = Link_bot then None else guildId);
          db1 = db\<lparr>ps_grants := put_grant (ps_engine db) now Discord_role (Some discordRoleId) (ps_grants db) userId permRoleId gId\<rparr>
      in if scope = Link_bot then
           (case getBotRole db1 permRoleId of
              None \<Rightarrow> db1
            | Some existing \<Rightarrow> invalidateUserCache None
                (if userId \<in> set (br_assignedUserIds existing) then db1
                 else writeBotAssigned now db1 permRoleId (br_assignedUserIds existing @ [userId])) userId)
         else if truthy guildId then
           (case getServerRole db1 (the guildId) permRoleId of
              None \<Rightarrow> db1
            | Some existing \<Rightarrow> invalidateUserCache guildId
                (if userId \<in> set (sr_assignedUserIds existing) then db1
                 else writeServerAssigned now db1 (the guildId) permRoleId (sr_assignedUserIds existing @ [userId])) userId)
         else db1)"

definition revokeDiscordGrantIfOrphan ::
  "int \<Rightarrow> PermState \<Rightarrow> RoleLinkScope \<Rightarrow> string option \<Rightarrow> string \<Rightarrow> string \<Rightarrow> string \<Rightarrow> PermState" where
  "revokeDiscordGrantIfOrphan now db scope guildId permRoleId userId discordRoleId =
     (let eng = ps_engine db;
          gId = (if scope = Link_bot then None else guildId);
          gs = drop_grant eng Discord_role (Some (Some discordRoleId)) (ps_grants db) userId permRoleId gId;
          db1 = db\<lparr>ps_grants := gs\<rparr>
      in if userHasAnyGrant eng gs userId permRoleId gId then db1
         else if scope = Link_bot then
           (case getBotRole db1 permRoleId of
              None \<Rightarrow> db1
            | Some existing \<Rightarrow> invalidateUserCache None
                (writeBotAssigned now db1 permRoleId (filter (\<lambda>u. u \<noteq> userId) (br_assignedUserIds existing))) userId)
         else if truthy guildId then
           (case getServerRole db1 (the guildId) permRoleId of
              None \<Rightarrow> db1
            | Some existing \<Rightarrow> invalidateUserCache guildId
                (writeServerAssigned now db1 (the guildId) permRoleId
                   (filter (\<lambda>u. u \<noteq> userId) (sr_assignedUserIds existing))) userId)
         else db1)"

definition listDiscordRoleLinks :: "PermState \<Rightarrow> RoleLinkScope option \<Rightarrow> string option option \<Rightarrow> RoleLinkDoc list" where
  "listDiscordRoleLinks db scope guildId = listLinks (ps_engine db) (ps_links db) scope guildId"

subsection \<open>A member of a guild changed\<close>

text \<open>The links are read once; those of the guild come first, then every link of bot scope.\<close>

definition sync_link :: "int \<Rightarrow> string \<Rightarrow> string \<Rightarrow> string list \<Rightarrow> PermState \<Rightarrow> RoleLinkDoc \<Rightarrow> PermState" where
  "sync_link now guildId userId memberRoleIds db link =
     (let g = (if rl_scope link = Link_bot then None else Some guildId) in
      if rl_discordRoleId link \<in> set memberRoleIds
      then applyDiscordGrant now db (rl_scope link) g (rl_permRoleId link) userId (rl_discordRoleId link)
      else revokeDiscordGrantIfOrphan now db (rl_scope link) g (rl_permRoleId link) userId (rl_discordRoleId link))"

definition guildMemberUpdate :: "bool \<Rightarrow> int \<Rightarrow> PermState \<Rightarrow> string \<Rightarrow> string \<Rightarrow> string list \<Rightarrow> PermState" where
  "guildMemberUpdate membersIntent now db guildId userId memberRoleIds =
     (if \<not> membersIntent then db
      else foldl (sync_link now guildId userId memberRoleIds) db
        (listDiscordRoleLinks db (Some Link_server) (Some (Some guildId)) @ listDiscordRoleLinks db (Some Link_bot) None))"

subsection \<open>Start-up\<close>

definition init_grants :: "int \<Rightarrow> PermState \<Rightarrow> PermState" where
  "init_grants now db = db\<lparr>ps_grants := snd (migrateLegacyAssignedAsDirect (ps_engine db) (ps_grants db) now
     (map (\<lambda>r. (br_id r, None, br_assignedUserIds r)) (listBotRoles db) @
      map (\<lambda>r. (sr_id r, Some (sr_guildId r), sr_assignedUserIds r)) (ps_sroles db)))\<rparr>"

end
