(* ===== verification/PermInvariants.thy ===== *)
theory PermInvariants
  imports PermLinks
begin

text \<open>
  What every operation on roles, grants and links keeps: the users written into a role are exactly those with
  a grant of it, and no server role carries a bit of the bot.  Then who can become an owner of the bot.
\<close>

subsection \<open>The invariant\<close>

definition holders :: "Engine \<Rightarrow> GrantDoc list \<Rightarrow> string \<Rightarrow> string option \<Rightarrow> string set" where
  "holders eng gs role guildId = {u. userHasAnyGrant eng gs u role guildId}"

definition bot_ok :: "Engine \<Rightarrow> GrantDoc list \<Rightarrow> BotWideRoleDoc list \<Rightarrow> bool" where
  "bot_ok eng gs rs = (distinct (map br_id rs) \<and>
     (\<forall>r \<in> set rs. br_id r \<noteq> [] \<and> distinct (br_assignedUserIds r) \<and> set (br_assignedUserIds r) = holders eng gs (br_id r) None))"

definition server_ok :: "Engine \<Rightarrow> GrantDoc list \<Rightarrow> ServerRoleDoc list \<Rightarrow> bool" where
  "server_ok eng gs rs = (distinct (map (\<lambda>r. (sr_guildId r, sr_id r)) rs) \<and>
     (\<forall>r \<in> set rs. sr_id r \<noteq> [] \<and> sr_guildId r \<noteq> [] \<and> (\<forall>b \<in> set (sr_bits r). \<not> js_starts_with b ''bot.'') \<and>
        distinct (sr_assignedUserIds r) \<and> set (sr_assignedUserIds r) = holders eng gs (sr_id r) (Some (sr_guildId r))))"

definition perm_ok :: "PermState \<Rightarrow> bool" where
  "perm_ok db = (bot_ok (ps_engine db) (ps_grants db) (ps_bwroles db) \<and>
     server_ok (ps_engine db) (ps_grants db) (ps_sroles db))"

text \<open>Grants of one role and guild changed, the others did not.\<close>

definition only_at :: "Engine \<Rightarrow> GrantDoc list \<Rightarrow> GrantDoc list \<Rightarrow> string \<Rightarrow> string option \<Rightarrow> bool" where
  "only_at eng gs gs' role guildId =
     (\<forall>r g. r \<noteq> role \<or> stored_key eng g \<noteq> stored_key eng guildId \<longrightarrow> holders eng gs' r g = holders eng gs r g)"

lemma stored_key_simps [simp]:
  "stored_key eng None = None" "g \<noteq> [] \<Longrightarrow> stored_key eng (Some g) = Some g"
  by (cases eng; simp add: stored_key_def fromSqlTextKey_def sqlTextKey_def)+

lemma bot_ok_write:
  assumes ok: "bot_ok eng gs rs" and at: "only_at eng gs gs' role None"
    and us: "distinct us" "set us = holders eng gs' role None"
    and f: "\<And>r. br_id (f r) = br_id r \<and> br_assignedUserIds (f r) = us"
  shows "bot_ok eng gs' (map (\<lambda>r. if br_id r = role then f r else r) rs)"
proof -
  have ids: "map br_id (map (\<lambda>r. if br_id r = role then f r else r) rs) = map br_id rs"
    using f by (induction rs) auto
  have rest: "holders eng gs' (br_id r) None = holders eng gs (br_id r) None" if "br_id r \<noteq> role" for r
    using at that unfolding only_at_def by blast
  have each: "br_id r \<noteq> [] \<and> distinct (br_assignedUserIds r) \<and> set (br_assignedUserIds r) = holders eng gs' (br_id r) None"
    if "r \<in> set (map (\<lambda>r. if br_id r = role then f r else r) rs)" for r
  proof -
    obtain r0 where r0: "r0 \<in> set rs" "r = (if br_id r0 = role then f r0 else r0)" using \<open>r \<in> _\<close> by auto
    then have "br_id r0 \<noteq> [] \<and> distinct (br_assignedUserIds r0) \<and> set (br_assignedUserIds r0) = holders eng gs (br_id r0) None"
      using ok by (simp add: bot_ok_def)
    then show ?thesis using r0(2) f [of r0] us rest [of r0] by (cases "br_id r0 = role") simp_all
  qed
  show ?thesis
    unfolding bot_ok_def ids using ok each by (simp only: bot_ok_def) blast
qed

lemma bot_ok_other:
  assumes "bot_ok eng gs rs" "only_at eng gs gs' role g" "stored_key eng g \<noteq> None \<or> role \<notin> br_id ` set rs"
  shows "bot_ok eng gs' rs"
proof -
  have "holders eng gs' (br_id r) None = holders eng gs (br_id r) None" if "r \<in> set rs" for r
    using assms(2,3) that unfolding only_at_def by (metis image_eqI stored_key_simps(1))
  then show ?thesis using assms(1) by (simp add: bot_ok_def)
qed

lemma server_ok_write:
  assumes ok: "server_ok eng gs rs" and at: "only_at eng gs gs' role (Some guild)" and g: "guild \<noteq> []"
    and us: "distinct us" "set us = holders eng gs' role (Some guild)"
    and f: "\<And>r. sr_id (f r) = sr_id r \<and> sr_guildId (f r) = sr_guildId r \<and> sr_bits (f r) = sr_bits r \<and> sr_assignedUserIds (f r) = us"
  shows "server_ok eng gs' (map (\<lambda>r. if is_srole guild role r then f r else r) rs)"
proof -
  let ?f = "\<lambda>r. if is_srole guild role r then f r else r"
  have ids: "map (\<lambda>r. (sr_guildId r, sr_id r)) (map ?f rs) = map (\<lambda>r. (sr_guildId r, sr_id r)) rs"
    using f by (induction rs) auto
  have rest: "holders eng gs' (sr_id r) (Some (sr_guildId r)) = holders eng gs (sr_id r) (Some (sr_guildId r))"
    if "\<not> is_srole guild role r" "sr_guildId r \<noteq> []" for r
    using at that g unfolding only_at_def is_srole_def by (metis option.inject stored_key_simps(2))
  have each: "sr_id r \<noteq> [] \<and> sr_guildId r \<noteq> [] \<and> (\<forall>b \<in> set (sr_bits r). \<not> js_starts_with b ''bot.'') \<and>
      distinct (sr_assignedUserIds r) \<and> set (sr_assignedUserIds r) = holders eng gs' (sr_id r) (Some (sr_guildId r))"
    if "r \<in> set (map ?f rs)" for r
  proof -
    obtain r0 where r0: "r0 \<in> set rs" "r = ?f r0" using \<open>r \<in> _\<close> by auto
    then have "sr_id r0 \<noteq> [] \<and> sr_guildId r0 \<noteq> [] \<and> (\<forall>b \<in> set (sr_bits r0). \<not> js_starts_with b ''bot.'') \<and>
        distinct (sr_assignedUserIds r0) \<and> set (sr_assignedUserIds r0) = holders eng gs (sr_id r0) (Some (sr_guildId r0))"
      using ok by (simp add: server_ok_def)
    then have *: "sr_id r0 \<noteq> []" "sr_guildId r0 \<noteq> []" "\<forall>b \<in> set (sr_bits r0). \<not> js_starts_with b ''bot.''"
        "distinct (sr_assignedUserIds r0)" "set (sr_assignedUserIds r0) = holders eng gs (sr_id r0) (Some (sr_guildId r0))"
      by simp_all
    show ?thesis
    proof (cases "is_srole guild role r0")
      case True
      then have "r = f r0" "sr_id r0 = role" "sr_guildId r0 = guild" using r0(2) by (simp_all add: is_srole_def)
      then show ?thesis using * f [of r0] us by simp
    next
      case False
      then have "r = r0" using r0(2) by simp
      then show ?thesis using * rest [OF False] by simp
    qed
  qed
  show ?thesis
    unfolding server_ok_def ids using ok each by (simp only: server_ok_def) blast
qed

lemma server_ok_other:
  assumes "server_ok eng gs rs" "only_at eng gs gs' role g"
    and "\<forall>r \<in> set rs. sr_id r = role \<longrightarrow> stored_key eng g \<noteq> Some (sr_guildId r)"
  shows "server_ok eng gs' rs"
proof -
  have "holders eng gs' (sr_id r) (Some (sr_guildId r)) = holders eng gs (sr_id r) (Some (sr_guildId r))" if "r \<in> set rs" for r
  proof -
    have "sr_guildId r \<noteq> []" using assms(1) that by (simp add: server_ok_def)
    then have "sr_id r \<noteq> role \<or> stored_key eng (Some (sr_guildId r)) \<noteq> stored_key eng g" using assms(3) that by auto
    then show ?thesis using assms(2) unfolding only_at_def by blast
  qed
  then show ?thesis using assms(1) by (simp add: server_ok_def)
qed

subsection \<open>Changing the grants of one role\<close>

lemma invalidate_fields [simp]:
  "ps_engine (invalidateUserCache g db u) = ps_engine db" "ps_grants (invalidateUserCache g db u) = ps_grants db"
  "ps_bwroles (invalidateUserCache g db u) = ps_bwroles db" "ps_sroles (invalidateUserCache g db u) = ps_sroles db"
  "ps_links (invalidateUserCache g db u) = ps_links db" "ps_bits (invalidateUserCache g db u) = ps_bits db"
  by (simp_all add: invalidateUserCache_def)

lemma invalidate_all_fields [simp]:
  "ps_engine (foldl (invalidateUserCache g) db us) = ps_engine db" "ps_grants (foldl (invalidateUserCache g) db us) = ps_grants db"
  "ps_bwroles (foldl (invalidateUserCache g) db us) = ps_bwroles db" "ps_sroles (foldl (invalidateUserCache g) db us) = ps_sroles db"
  "ps_links (foldl (invalidateUserCache g) db us) = ps_links db" "ps_bits (foldl (invalidateUserCache g) db us) = ps_bits db"
  by (induction us arbitrary: db) simp_all

lemma perm_ok_invalidate [simp]:
  "perm_ok (invalidateUserCache g db u) = perm_ok db" "perm_ok (foldl (invalidateUserCache g) db us) = perm_ok db"
  by (simp_all add: perm_ok_def)

lemma getBotRole_D: "getBotRole db role = Some r \<Longrightarrow> r \<in> set (ps_bwroles db) \<and> br_id r = role"
  unfolding getBotRole_def by (auto simp: find_Some_iff)

lemma getServerRole_D: "getServerRole db g role = Some r \<Longrightarrow> r \<in> set (ps_sroles db) \<and> sr_guildId r = g \<and> sr_id r = role"
  unfolding getServerRole_def by (auto simp: find_Some_iff is_srole_def)

lemma getBotRole_None: "getBotRole db role = None \<Longrightarrow> role \<notin> br_id ` set (ps_bwroles db)"
  unfolding getBotRole_def by (auto simp: find_None_iff)

lemma getServerRole_None: "getServerRole db g role = None \<Longrightarrow> r \<in> set (ps_sroles db) \<Longrightarrow> \<not> is_srole g role r"
  unfolding getServerRole_def by (auto simp: find_None_iff)

lemma getBotRole_grants [simp]: "getBotRole (db\<lparr>ps_grants := gs\<rparr>) role = getBotRole db role"
  by (simp add: getBotRole_def)

lemma getServerRole_grants [simp]: "getServerRole (db\<lparr>ps_grants := gs\<rparr>) g role = getServerRole db g role"
  by (simp add: getServerRole_def)

lemma bot_holders:
  assumes "perm_ok db" "getBotRole db role = Some r"
  shows "role \<noteq> [] \<and> distinct (br_assignedUserIds r) \<and> set (br_assignedUserIds r) = holders (ps_engine db) (ps_grants db) role None"
  using assms(1) getBotRole_D [OF assms(2)] by (auto simp: perm_ok_def bot_ok_def)

lemma server_holders:
  assumes "perm_ok db" "getServerRole db g role = Some r"
  shows "role \<noteq> [] \<and> g \<noteq> [] \<and> distinct (sr_assignedUserIds r) \<and>
    set (sr_assignedUserIds r) = holders (ps_engine db) (ps_grants db) role (Some g)"
  using assms(1) getServerRole_D [OF assms(2)] by (auto simp: perm_ok_def server_ok_def)

lemma perm_ok_writeBot:
  assumes "perm_ok db" "only_at (ps_engine db) (ps_grants db) gs' role None"
    and "distinct us" "set us = holders (ps_engine db) gs' role None"
  shows "perm_ok (writeBotAssigned now (db\<lparr>ps_grants := gs'\<rparr>) role us)"
proof -
  have "bot_ok (ps_engine db) gs' (map (\<lambda>r. if br_id r = role then r\<lparr>br_assignedUserIds := us, br_updatedAt := now\<rparr> else r) (ps_bwroles db))"
    by (rule bot_ok_write [of _ "ps_grants db"]) (use assms in \<open>simp_all add: perm_ok_def\<close>)
  moreover have "server_ok (ps_engine db) gs' (ps_sroles db)"
    by (rule server_ok_other [of _ "ps_grants db" _ _ role None]) (use assms in \<open>simp_all add: perm_ok_def\<close>)
  ultimately show ?thesis by (simp add: perm_ok_def writeBotAssigned_def on_bot_role_def)
qed

lemma perm_ok_writeServer:
  assumes "perm_ok db" "only_at (ps_engine db) (ps_grants db) gs' role (Some g)" "g \<noteq> []"
    and "distinct us" "set us = holders (ps_engine db) gs' role (Some g)"
  shows "perm_ok (writeServerAssigned now (db\<lparr>ps_grants := gs'\<rparr>) g role us)"
proof -
  have "server_ok (ps_engine db) gs'
      (map (\<lambda>r. if is_srole g role r then r\<lparr>sr_assignedUserIds := us, sr_updatedAt := now\<rparr> else r) (ps_sroles db))"
    by (rule server_ok_write [of _ "ps_grants db"]) (use assms in \<open>simp_all add: perm_ok_def\<close>)
  moreover have "bot_ok (ps_engine db) gs' (ps_bwroles db)"
    by (rule bot_ok_other [of _ "ps_grants db" _ _ role "Some g"]) (use assms in \<open>simp_all add: perm_ok_def\<close>)
  ultimately show ?thesis by (simp add: perm_ok_def writeServerAssigned_def on_server_role_def)
qed

lemma perm_ok_no_bot:
  assumes "perm_ok db" "only_at (ps_engine db) (ps_grants db) gs' role None" "getBotRole db role = None"
  shows "perm_ok (db\<lparr>ps_grants := gs'\<rparr>)"
proof -
  have "bot_ok (ps_engine db) gs' (ps_bwroles db)"
    by (rule bot_ok_other [of _ "ps_grants db" _ _ role None]) (use assms getBotRole_None in \<open>simp_all add: perm_ok_def\<close>)
  moreover have "server_ok (ps_engine db) gs' (ps_sroles db)"
    by (rule server_ok_other [of _ "ps_grants db" _ _ role None]) (use assms in \<open>simp_all add: perm_ok_def\<close>)
  ultimately show ?thesis by (simp add: perm_ok_def)
qed

lemma perm_ok_no_server:
  assumes "perm_ok db" "only_at (ps_engine db) (ps_grants db) gs' role (Some g)" "g \<noteq> []" "getServerRole db g role = None"
  shows "perm_ok (db\<lparr>ps_grants := gs'\<rparr>)"
proof -
  have "bot_ok (ps_engine db) gs' (ps_bwroles db)"
    by (rule bot_ok_other [of _ "ps_grants db" _ _ role "Some g"]) (use assms in \<open>simp_all add: perm_ok_def\<close>)
  moreover have "server_ok (ps_engine db) gs' (ps_sroles db)"
    by (rule server_ok_other [of _ "ps_grants db" _ _ role "Some g"])
      (use assms getServerRole_None [OF assms(4)] in \<open>auto simp: perm_ok_def is_srole_def\<close>)
  ultimately show ?thesis by (simp add: perm_ok_def)
qed

subsection \<open>Granting and revoking\<close>

lemma grant_all_eq: "grant_all now db role g users = db\<lparr>ps_grants :=
    grant_store.put_all (put_grant (ps_engine db) now Direct None) (ps_grants db) role g users\<rparr>"
  by (simp add: grant_all_def grants.put_all_def)

lemma revoke_all_eq: "revoke_all db role g users rest =
    (let p = grant_store.drop_each (userHasAnyGrant (ps_engine db)) (drop_grant (ps_engine db) Direct None) (ps_grants db) role g users rest
     in (db\<lparr>ps_grants := fst p\<rparr>, snd p))"
  by (simp add: revoke_all_def grants.drop_each_def Let_def case_prod_unfold)

lemma only_at_put_all: "only_at eng gs (grant_store.put_all (put_grant eng now src d) gs role g users) role g"
  by (auto simp: only_at_def holders_def grants.has_put_all)

lemma holders_put_all:
  "holders eng (grant_store.put_all (put_grant eng now src d) gs role g users) role g = set users \<union> holders eng gs role g"
  by (auto simp: holders_def grants.has_put_all)

lemma only_at_drop_each:
  assumes "[] \<notin> set users" "role \<noteq> []"
  shows "only_at eng gs (fst (grant_store.drop_each (userHasAnyGrant eng) (drop_grant eng src dd) gs role g users rest)) role g"
  unfolding only_at_def holders_def
proof (intro allI impI Collect_cong)
  fix r g' u
  assume "r \<noteq> role \<or> stored_key eng g' \<noteq> stored_key eng g"
  then show "userHasAnyGrant eng (fst (grant_store.drop_each (userHasAnyGrant eng) (drop_grant eng src dd) gs role g users rest)) u r g' =
      userHasAnyGrant eng gs u r g'"
    by (rule grants.drop_each_other [rotated 2]) (use assms in auto)
qed

lemma only_at_drop:
  assumes "u \<noteq> []" "role \<noteq> []"
  shows "only_at eng gs (drop_grant eng src dd gs u role g) role g"
  unfolding only_at_def holders_def
proof (intro allI impI Collect_cong)
  fix r g' u'
  assume "r \<noteq> role \<or> stored_key eng g' \<noteq> stored_key eng g"
  then show "userHasAnyGrant eng (drop_grant eng src dd gs u role g) u' r g' = userHasAnyGrant eng gs u' r g'"
    by (intro userHas_drop_other) (use assms in auto)
qed

lemma only_at_put: "only_at eng gs (put_grant eng now src d gs u role g) role g"
  by (auto simp: only_at_def holders_def userHas_put)

lemma holders_put: "holders eng (put_grant eng now src d gs u role g) role g = insert u (holders eng gs role g)"
  by (auto simp: holders_def userHas_put)

lemma holders_drop:
  assumes "u \<noteq> []" "role \<noteq> []"
  shows "holders eng (drop_grant eng src dd gs u role g) role g =
    (if userHasAnyGrant eng (drop_grant eng src dd gs u role g) u role g then holders eng gs role g else holders eng gs role g - {u})"
proof -
  have "userHasAnyGrant eng (drop_grant eng src dd gs u role g) x role g = userHasAnyGrant eng gs x role g" if "x \<noteq> u" for x
    by (rule userHas_drop_other) (use assms that in auto)
  then have "x \<in> holders eng (drop_grant eng src dd gs u role g) role g \<longleftrightarrow> x \<in> holders eng gs role g" if "x \<noteq> u" for x
    using that by (simp add: holders_def)
  moreover have "u \<in> holders eng (drop_grant eng src dd gs u role g) role g \<longrightarrow> u \<in> holders eng gs role g"
    using userHas_drop_mono [of eng src dd gs u role g u role g] by (simp add: holders_def)
  moreover have "userHasAnyGrant eng (drop_grant eng src dd gs u role g) u role g \<longleftrightarrow>
      u \<in> holders eng (drop_grant eng src dd gs u role g) role g"
    by (simp add: holders_def)
  ultimately have "x \<in> holders eng (drop_grant eng src dd gs u role g) role g \<longleftrightarrow>
      x \<in> (if userHasAnyGrant eng (drop_grant eng src dd gs u role g) u role g then holders eng gs role g
            else holders eng gs role g - {u})" for x
    by (cases "x = u") simp_all
  then show ?thesis by blast
qed

lemma assigned_write_bot:
  assumes ok: "perm_ok db" and r: "getBotRole db role = Some r"
  shows "perm_ok (writeBotAssigned now (grant_all now db role None users) role (js_uniq (br_assignedUserIds r @ users)))"
  unfolding grant_all_eq
  by (rule perm_ok_writeBot [OF ok only_at_put_all]) (use bot_holders [OF ok r] in \<open>auto simp: holders_put_all\<close>)

lemma assigned_write_server:
  assumes ok: "perm_ok db" and r: "getServerRole db g role = Some r"
  shows "perm_ok (writeServerAssigned now (grant_all now db role (Some g) users) g role (js_uniq (sr_assignedUserIds r @ users)))"
  unfolding grant_all_eq
  by (rule perm_ok_writeServer [OF ok only_at_put_all]) (use server_holders [OF ok r] in \<open>auto simp: holders_put_all\<close>)

lemma revoked_write_bot:
  assumes ok: "perm_ok db" and r: "getBotRole db role = Some r" and users: "[] \<notin> set users"
  shows "perm_ok (writeBotAssigned now (fst (revoke_all db role None users (br_assignedUserIds r))) role
    (snd (revoke_all db role None users (br_assignedUserIds r))))"
proof -
  note h = bot_holders [OF ok r]
  have d: "distinct rest \<and> set rest = {x. userHasAnyGrant (ps_engine db) (fst p) x role None}"
    if "p = grant_store.drop_each (userHasAnyGrant (ps_engine db)) (drop_grant (ps_engine db) Direct None) (ps_grants db) role None users
          (br_assignedUserIds r)" "rest = snd p" for p rest
    unfolding that by (rule grants.drop_each_holders) (use h users in \<open>auto simp: holders_def\<close>)
  show ?thesis
    unfolding revoke_all_eq Let_def fst_conv snd_conv
    by (rule perm_ok_writeBot [OF ok only_at_drop_each]) (use h users d in \<open>simp_all add: holders_def\<close>)
qed

lemma revoked_write_server:
  assumes ok: "perm_ok db" and r: "getServerRole db g role = Some r" and users: "[] \<notin> set users"
  shows "perm_ok (writeServerAssigned now (fst (revoke_all db role (Some g) users (sr_assignedUserIds r))) g role
    (snd (revoke_all db role (Some g) users (sr_assignedUserIds r))))"
proof -
  note h = server_holders [OF ok r]
  have d: "distinct rest \<and> set rest = {x. userHasAnyGrant (ps_engine db) (fst p) x role (Some g)}"
    if "p = grant_store.drop_each (userHasAnyGrant (ps_engine db)) (drop_grant (ps_engine db) Direct None) (ps_grants db) role (Some g) users
          (sr_assignedUserIds r)" "rest = snd p" for p rest
    unfolding that by (rule grants.drop_each_holders) (use h users in \<open>auto simp: holders_def\<close>)
  show ?thesis
    unfolding revoke_all_eq Let_def fst_conv snd_conv
    by (rule perm_ok_writeServer [OF ok only_at_drop_each]) (use h users d in \<open>simp_all add: holders_def\<close>)
qed

subsection \<open>Every operation keeps the invariant\<close>

definition fresh_role :: "PermState \<Rightarrow> string \<Rightarrow> bool" where
  "fresh_role db newId = (newId \<noteq> [] \<and> newId \<notin> br_id ` set (ps_bwroles db) \<and> newId \<notin> sr_id ` set (ps_sroles db) \<and>
     (\<forall>g \<in> set (ps_grants db). gr_permRoleId g \<noteq> newId))"

lemma fresh_no_holders: "fresh_role db newId \<Longrightarrow> holders eng (ps_grants db) newId g = {}"
  by (auto simp: fresh_role_def holders_def userHasAnyGrant_def)

text \<open>An operation on roles asked for by an actor; users named are not empty, new ids are fresh.\<close>

inductive role_step :: "string \<Rightarrow> string option \<Rightarrow> PermState \<Rightarrow> PermState \<Rightarrow> bool" for raw actor where
  create_bot: "createBotRole raw now db newId data actor = Inr (doc, db') \<Longrightarrow> fresh_role db newId \<Longrightarrow> role_step raw actor db db'"
| update_bot: "updateBotRole raw now db role upd actor = Inr (doc, db') \<Longrightarrow> role_step raw actor db db'"
| delete_bot: "deleteBotRole raw now db role actor = Inr db' \<Longrightarrow> role_step raw actor db db'"
| assign_bot: "assignBotRole raw now db role users actor = Inr db' \<Longrightarrow> role_step raw actor db db'"
| revoke_bot: "revokeBotRole raw now db role users actor = Inr db' \<Longrightarrow> [] \<notin> set users \<Longrightarrow> role_step raw actor db db'"
| create_server: "createServerRole raw now db newId g data actor = Inr (doc, db') \<Longrightarrow> g \<noteq> [] \<Longrightarrow> fresh_role db newId \<Longrightarrow>
    role_step raw actor db db'"
| update_server: "updateServerRole raw now db g role upd actor = Inr (doc, db') \<Longrightarrow> role_step raw actor db db'"
| delete_server: "db' = deleteServerRole db g role \<Longrightarrow> role_step raw actor db db'"
| assign_server: "assignServerRole now db g role users = Inr db' \<Longrightarrow> role_step raw actor db db'"
| revoke_server: "revokeServerRole now db g role users = Inr db' \<Longrightarrow> [] \<notin> set users \<Longrightarrow> role_step raw actor db db'"
| register: "db' = registerBit db now bt desc plugin rk \<Longrightarrow> role_step raw actor db db'"

text \<open>Guild, role and user ids given by Discord are not empty.\<close>

inductive link_step :: "PermState \<Rightarrow> PermState \<Rightarrow> bool" where
  link: "linkDiscordRole db newId now scope g d role cr = Inr (doc, db') \<Longrightarrow> link_step db db'"
| unlink: "db' = unlinkDiscordRole now db scope g d role \<Longrightarrow> role \<noteq> [] \<Longrightarrow> scope = Link_bot \<or> truthy g \<Longrightarrow> link_step db db'"
| apply_grant: "db' = applyDiscordGrant now db scope g role u d \<Longrightarrow> scope = Link_bot \<or> truthy g \<Longrightarrow> link_step db db'"
| revoke_grant: "db' = revokeDiscordGrantIfOrphan now db scope g role u d \<Longrightarrow> role \<noteq> [] \<Longrightarrow> u \<noteq> [] \<Longrightarrow> scope = Link_bot \<or> truthy g \<Longrightarrow>
    link_step db db'"

inductive perm_step :: "string \<Rightarrow> PermState \<Rightarrow> PermState \<Rightarrow> bool" for raw where
  by_actor: "role_step raw actor db db' \<Longrightarrow> perm_step raw db db'"
| by_link: "link_step db db' \<Longrightarrow> perm_step raw db db'"

lemma bot_ok_same_roles:
  assumes "bot_ok eng gs rs" "\<And>r. br_id (f r) = br_id r \<and> br_assignedUserIds (f r) = br_assignedUserIds r"
  shows "bot_ok eng gs (map f rs)"
proof -
  have ids: "map br_id (map f rs) = map br_id rs" using assms(2) by simp
  show ?thesis using assms unfolding bot_ok_def ids by simp
qed

lemma server_ok_same_roles:
  assumes "server_ok eng gs rs"
    and "\<And>r. sr_id (f r) = sr_id r \<and> sr_guildId (f r) = sr_guildId r \<and> sr_assignedUserIds (f r) = sr_assignedUserIds r"
    and "\<And>r b. r \<in> set rs \<Longrightarrow> b \<in> set (sr_bits (f r)) \<Longrightarrow> \<not> js_starts_with b ''bot.''"
  shows "server_ok eng gs (map f rs)"
proof -
  have ids: "map (\<lambda>r. (sr_guildId r, sr_id r)) (map f rs) = map (\<lambda>r. (sr_guildId r, sr_id r)) rs" using assms(2) by simp
  show ?thesis using assms unfolding server_ok_def ids by simp
qed

lemma bot_ok_filter: "bot_ok eng gs rs \<Longrightarrow> bot_ok eng gs (filter P rs)"
  unfolding bot_ok_def by (auto simp: distinct_map inj_on_def)

lemma server_ok_filter: "server_ok eng gs rs \<Longrightarrow> server_ok eng gs (filter P rs)"
  unfolding server_ok_def by (auto simp: distinct_map inj_on_def)

lemma first_error_None: "first_error cs = None \<longleftrightarrow> (\<forall>c \<in> set cs. c = None)"
  by (induction cs rule: first_error.induct) auto

lemma actor_bits_scoped:
  "assertActorHoldsRoleBits raw now db actor bits (Some g) = None \<Longrightarrow> g \<noteq> [] \<Longrightarrow> b \<in> set bits \<Longrightarrow> \<not> js_starts_with b ''bot.''"
  by (auto simp: assertActorHoldsRoleBits_def Let_def truthy_def list_ex_iff split: if_splits)

lemma createBotRole_keeps:
  assumes "perm_ok db" "fresh_role db newId" "createBotRole raw now db newId data actor = Inr (doc, db')"
  shows "perm_ok db'"
proof -
  have db': "db' = db\<lparr>ps_bwroles := ps_bwroles db @ [doc]\<rparr>" and doc: "br_id doc = newId" "br_assignedUserIds doc = []"
    using assms(3) by (auto simp: createBotRole_def Let_def split: option.splits)
  have "bot_ok (ps_engine db) (ps_grants db) (ps_bwroles db @ [doc])"
    using assms(1,2) doc fresh_no_holders [OF assms(2), of "ps_engine db" None]
    by (auto simp: bot_ok_def perm_ok_def fresh_role_def)
  then show ?thesis using assms(1) by (simp add: db' perm_ok_def)
qed

lemma updateBotRole_keeps:
  assumes "perm_ok db" "updateBotRole raw now db role upd actor = Inr (doc, db')"
  shows "perm_ok db'"
proof -
  obtain n c b where db': "db' = on_bot_role db role (\<lambda>r. r\<lparr>br_name := n, br_color := c, br_bits := b, br_updatedAt := now\<rparr>)"
    using assms(2) by (auto simp: updateBotRole_def Let_def split: option.splits)
  have "bot_ok (ps_engine db) (ps_grants db)
      (map (\<lambda>r. if br_id r = role then r\<lparr>br_name := n, br_color := c, br_bits := b, br_updatedAt := now\<rparr> else r) (ps_bwroles db))"
    by (rule bot_ok_same_roles) (use assms(1) in \<open>simp_all add: perm_ok_def\<close>)
  then show ?thesis using assms(1) by (simp add: db' perm_ok_def on_bot_role_def)
qed

lemma deleteBotRole_keeps:
  assumes "perm_ok db" "deleteBotRole raw now db role actor = Inr db'"
  shows "perm_ok db'"
proof -
  have "perm_ok (db\<lparr>ps_bwroles := filter (\<lambda>r. br_id r \<noteq> role) (ps_bwroles db)\<rparr>)"
    using assms(1) by (simp add: perm_ok_def bot_ok_filter)
  then show ?thesis using assms(2) by (auto simp: deleteBotRole_def Let_def split: option.splits)
qed

lemma createServerRole_keeps:
  assumes "perm_ok db" "fresh_role db newId" "g \<noteq> []" "createServerRole raw now db newId g data actor = Inr (doc, db')"
  shows "perm_ok db'"
proof -
  have db': "db' = db\<lparr>ps_sroles := ps_sroles db @ [doc]\<rparr>"
    and doc: "sr_id doc = newId" "sr_guildId doc = g" "sr_assignedUserIds doc = []" "sr_bits doc = ci_bits data"
    and held: "assertActorHoldsRoleBits raw now db actor (ci_bits data) (Some g) = None"
    using assms(4) by (auto simp: createServerRole_def Let_def first_error_None split: option.splits)
  have "server_ok (ps_engine db) (ps_grants db) (ps_sroles db @ [doc])"
    using assms(1-3) doc fresh_no_holders [OF assms(2), of "ps_engine db" "Some g"] actor_bits_scoped [OF held assms(3)]
    by (auto simp: server_ok_def perm_ok_def fresh_role_def)
  then show ?thesis using assms(1) by (simp add: db' perm_ok_def)
qed

lemma updateServerRole_keeps:
  assumes "perm_ok db" "updateServerRole raw now db g role upd actor = Inr (doc, db')"
  shows "perm_ok db'"
proof -
  obtain ex where ex: "getServerRole db g role = Some ex" using assms(2) by (auto simp: updateServerRole_def split: option.splits)
  define n where "n = or_else (pi_name upd) (sr_name ex)"
  define c where "c = or_else (pi_color upd) (sr_color ex)"
  define b where "b = or_else (pi_bits upd) (sr_bits ex)"
  define who where "who = (case actor of None \<Rightarrow> pi_createdBy upd | Some a \<Rightarrow> Some a)"
  note run = assms(2) [unfolded updateServerRole_def ex option.case Let_def, folded n_def c_def b_def who_def]
  have db': "db' = on_server_role db g role (\<lambda>r. r\<lparr>sr_name := n, sr_color := c, sr_bits := b, sr_updatedAt := now\<rparr>)"
    using run by (simp split: option.splits)
  have b: "b = sr_bits ex \<or> (\<exists>who. assertActorHoldsRoleBits raw now db who b (Some g) = None)"
  proof (cases "pi_bits upd")
    case None
    then show ?thesis by (simp add: b_def or_else_def)
  next
    case (Some bits)
    then have "assertActorHoldsRoleBits raw now db who bits (Some g) = None"
      using run by (simp add: first_error_None split: option.splits)
    then show ?thesis using Some by (auto simp: b_def or_else_def)
  qed
  have g: "g \<noteq> []" using server_holders [OF assms(1) ex] by simp
  have scoped: "\<not> js_starts_with x ''bot.''" if "x \<in> set b" for x
    using b
  proof
    assume "b = sr_bits ex"
    then show ?thesis using assms(1) getServerRole_D [OF ex] that by (auto simp: perm_ok_def server_ok_def)
  next
    assume "\<exists>who. assertActorHoldsRoleBits raw now db who b (Some g) = None"
    then show ?thesis using actor_bits_scoped g that by blast
  qed
  have "server_ok (ps_engine db) (ps_grants db)
      (map (\<lambda>r. if is_srole g role r then r\<lparr>sr_name := n, sr_color := c, sr_bits := b, sr_updatedAt := now\<rparr> else r) (ps_sroles db))"
    by (rule server_ok_same_roles) (use assms(1) scoped in \<open>auto simp: perm_ok_def server_ok_def split: if_splits\<close>)
  then show ?thesis using assms(1) by (simp add: db' perm_ok_def on_server_role_def)
qed

lemma deleteServerRole_keeps:
  assumes "perm_ok db"
  shows "perm_ok (deleteServerRole db g role)"
proof -
  have "perm_ok (db\<lparr>ps_sroles := filter (\<lambda>r. \<not> is_srole g role r) (ps_sroles db)\<rparr>)"
    using assms by (simp add: perm_ok_def server_ok_filter)
  then show ?thesis by (auto simp: deleteServerRole_def Let_def split: option.splits)
qed

lemma role_step_keeps:
  assumes "role_step raw actor db db'" "perm_ok db"
  shows "perm_ok db'"
  using assms
proof cases
  case (assign_bot now role users)
  then show ?thesis using assms(2)
    by (auto simp: assignBotRole_def Let_def assigned_write_bot split: option.splits)
next
  case (revoke_bot now role users)
  then show ?thesis using assms(2)
    by (auto simp: revokeBotRole_def Let_def case_prod_unfold revoked_write_bot split: option.splits)
next
  case (assign_server now g role users)
  then show ?thesis using assms(2)
    by (auto simp: assignServerRole_def Let_def assigned_write_server split: option.splits)
next
  case (revoke_server now g role users)
  then show ?thesis using assms(2)
    by (auto simp: revokeServerRole_def Let_def case_prod_unfold revoked_write_server split: option.splits)
next
  case (register now bt desc plugin rk)
  then show ?thesis using assms(2) by (simp add: registerBit_def perm_ok_def Let_def)
next
  case (create_bot now newId data doc)
  then show ?thesis using assms(2) createBotRole_keeps by metis
next
  case (update_bot now role upd doc)
  then show ?thesis using assms(2) updateBotRole_keeps by metis
next
  case (delete_bot now role)
  then show ?thesis using assms(2) deleteBotRole_keeps by metis
next
  case (create_server now newId g data doc)
  then show ?thesis using assms(2) createServerRole_keeps by metis
next
  case (update_server now g role upd doc)
  then show ?thesis using assms(2) updateServerRole_keeps by metis
next
  case (delete_server g role)
  then show ?thesis using assms(2) by (simp add: deleteServerRole_keeps)
qed


subsection \<open>Links keep it too\<close>

lemma holders_key: "stored_key eng g = stored_key eng g' \<Longrightarrow> holders eng gs r g = holders eng gs r g'"
  by (simp add: holders_def userHasAnyGrant_def)

lemma perm_ok_same_holders:
  assumes "perm_ok db" "only_at (ps_engine db) (ps_grants db) gs' role g"
    and "holders (ps_engine db) gs' role g = holders (ps_engine db) (ps_grants db) role g"
  shows "perm_ok (db\<lparr>ps_grants := gs'\<rparr>)"
proof -
  have "holders (ps_engine db) gs' r g' = holders (ps_engine db) (ps_grants db) r g'" for r g'
  proof (cases "r = role \<and> stored_key (ps_engine db) g' = stored_key (ps_engine db) g")
    case True
    then show ?thesis using assms(3) holders_key by metis
  next
    case False
    then show ?thesis using assms(2) unfolding only_at_def by blast
  qed
  then show ?thesis using assms(1) by (simp add: perm_ok_def bot_ok_def server_ok_def)
qed

lemma perm_ok_links [simp]: "perm_ok (db\<lparr>ps_links := ls\<rparr>) = perm_ok db"
  by (simp add: perm_ok_def)

lemma applyDiscordGrant_keeps:
  assumes ok: "perm_ok db" and "scope = Link_bot \<or> truthy g"
  shows "perm_ok (applyDiscordGrant now db scope g role u d)"
proof (cases scope)
  case Link_bot
  let ?gs = "put_grant (ps_engine db) now Discord_role (Some d) (ps_grants db) u role None"
  have at: "only_at (ps_engine db) (ps_grants db) ?gs role None" by (rule only_at_put)
  show ?thesis
  proof (cases "getBotRole db role")
    case None
    then show ?thesis using perm_ok_no_bot [OF ok at None] Link_bot by (simp add: applyDiscordGrant_def)
  next
    case (Some r)
    note h = bot_holders [OF ok Some]
    show ?thesis
    proof (cases "u \<in> set (br_assignedUserIds r)")
      case True
      then have "perm_ok (db\<lparr>ps_grants := ?gs\<rparr>)"
        using h by (intro perm_ok_same_holders [OF ok at]) (auto simp: holders_put)
      then show ?thesis using True Some Link_bot by (simp add: applyDiscordGrant_def Let_def)
    next
      case False
      then have "perm_ok (writeBotAssigned now (db\<lparr>ps_grants := ?gs\<rparr>) role (br_assignedUserIds r @ [u]))"
        using h by (intro perm_ok_writeBot [OF ok at]) (auto simp: holders_put)
      then show ?thesis using False Some Link_bot by (simp add: applyDiscordGrant_def Let_def)
    qed
  qed
next
  case Link_server
  then obtain gid where g: "g = Some gid" "gid \<noteq> []" using assms(2) by (cases g) (auto simp: truthy_def)
  let ?gs = "put_grant (ps_engine db) now Discord_role (Some d) (ps_grants db) u role (Some gid)"
  have at: "only_at (ps_engine db) (ps_grants db) ?gs role (Some gid)" by (rule only_at_put)
  show ?thesis
  proof (cases "getServerRole db gid role")
    case None
    then show ?thesis using perm_ok_no_server [OF ok at g(2) None] Link_server g
      by (simp add: applyDiscordGrant_def truthy_def)
  next
    case (Some r)
    note h = server_holders [OF ok Some]
    show ?thesis
    proof (cases "u \<in> set (sr_assignedUserIds r)")
      case True
      then have "perm_ok (db\<lparr>ps_grants := ?gs\<rparr>)"
        using h by (intro perm_ok_same_holders [OF ok at]) (auto simp: holders_put)
      then show ?thesis using True Some Link_server g by (simp add: applyDiscordGrant_def Let_def truthy_def)
    next
      case False
      then have "perm_ok (writeServerAssigned now (db\<lparr>ps_grants := ?gs\<rparr>) gid role (sr_assignedUserIds r @ [u]))"
        using h by (intro perm_ok_writeServer [OF ok at g(2)]) (auto simp: holders_put)
      then show ?thesis using False Some Link_server g by (simp add: applyDiscordGrant_def Let_def truthy_def)
    qed
  qed
qed

lemma revokeDiscordGrant_keeps:
  assumes ok: "perm_ok db" and "scope = Link_bot \<or> truthy g" and ne: "u \<noteq> []" "role \<noteq> []"
  shows "perm_ok (revokeDiscordGrantIfOrphan now db scope g role u d)"
proof -
  define gid where "gid = (if scope = Link_bot then None else g)"
  let ?gs = "drop_grant (ps_engine db) Discord_role (Some (Some d)) (ps_grants db) u role gid"
  have at: "only_at (ps_engine db) (ps_grants db) ?gs role gid" by (rule only_at_drop) (rule ne)+
  note hd = holders_drop [OF ne, of "ps_engine db" Discord_role "Some (Some d)" "ps_grants db" gid]
  show ?thesis
  proof (cases "userHasAnyGrant (ps_engine db) ?gs u role gid")
    case True
    then have "perm_ok (db\<lparr>ps_grants := ?gs\<rparr>)" using hd by (intro perm_ok_same_holders [OF ok at]) simp
    then show ?thesis using True by (simp add: revokeDiscordGrantIfOrphan_def Let_def gid_def)
  next
    case nograng: False
    show ?thesis
    proof (cases scope)
      case Link_bot
      then have gid: "gid = None" by (simp add: gid_def)
      show ?thesis
      proof (cases "getBotRole db role")
        case None
        then show ?thesis using perm_ok_no_bot [OF ok at [unfolded gid] None] nograng Link_bot gid
          by (simp add: revokeDiscordGrantIfOrphan_def Let_def)
      next
        case (Some r)
        have "perm_ok (writeBotAssigned now (db\<lparr>ps_grants := ?gs\<rparr>) role (filter (\<lambda>x. x \<noteq> u) (br_assignedUserIds r)))"
          unfolding gid using bot_holders [OF ok Some] nograng hd gid
          by (intro perm_ok_writeBot [OF ok at [unfolded gid]]) auto
        then show ?thesis using Some nograng Link_bot gid by (simp add: revokeDiscordGrantIfOrphan_def Let_def)
      qed
    next
      case Link_server
      then obtain k where g: "g = Some k" "k \<noteq> []" "gid = Some k"
        using assms(2) by (cases g) (auto simp: truthy_def gid_def)
      show ?thesis
      proof (cases "getServerRole db k role")
        case None
        then show ?thesis using perm_ok_no_server [OF ok at [unfolded g(3)] g(2) None] nograng Link_server g
          by (simp add: revokeDiscordGrantIfOrphan_def Let_def truthy_def)
      next
        case (Some r)
        have "perm_ok (writeServerAssigned now (db\<lparr>ps_grants := ?gs\<rparr>) k role (filter (\<lambda>x. x \<noteq> u) (sr_assignedUserIds r)))"
          unfolding g(3) using server_holders [OF ok Some] nograng hd g(3)
          by (intro perm_ok_writeServer [OF ok at [unfolded g(3)] g(2)]) auto
        then show ?thesis using Some nograng Link_server g
          by (simp add: revokeDiscordGrantIfOrphan_def Let_def truthy_def)
      qed
    qed
  qed
qed

definition unlinked :: "Engine \<Rightarrow> GrantDoc list \<Rightarrow> string \<Rightarrow> string option \<Rightarrow> string \<Rightarrow> GrantDoc list" where
  "unlinked eng gs role key d = snd (deleteGrants eng gs \<lparr>gf_userId = None, gf_permRoleId = Some role,
     gf_guildId = Some key, gf_source = Some Discord_role, gf_discordRoleId = Some (Some d)\<rparr>)"

lemma unlinked_eq:
  assumes "role \<noteq> []"
  shows "unlinked eng gs role key d = filter (\<lambda>x. \<not> (gr_permRoleId x = role \<and> gr_guildId x = stored_key eng key \<and>
     gr_source x = Discord_role \<and> gr_discordRoleId x = stored_key eng (Some d))) gs"
  using assms by (auto simp: unlinked_def deleteGrants_def matches_filter_def truthy_def Let_def split: Engine.splits intro!: filter_cong)

lemma only_at_unlinked: "role \<noteq> [] \<Longrightarrow> only_at eng gs (unlinked eng gs role key d) role key"
  unfolding only_at_def holders_def userHasAnyGrant_def unlinked_eq
  by (intro allI impI Collect_cong bex_cong_filter) auto

lemma holders_unlinked: "role \<noteq> [] \<Longrightarrow> holders eng (unlinked eng gs role key d) role key \<subseteq> holders eng gs role key"
  by (auto simp: holders_def userHasAnyGrant_def unlinked_eq)

lemma still_holders: "set (map gr_userId (listGrantsForRole eng gs role key)) = holders eng gs role key"
  by (auto simp: listGrantsForRole_def holders_def userHasAnyGrant_def)

lemma unlinkDiscordRole_keeps:
  assumes ok: "perm_ok db" and "scope = Link_bot \<or> truthy g" and ne: "role \<noteq> []"
  shows "perm_ok (unlinkDiscordRole now db scope g d role)"
proof (cases scope)
  case Link_bot
  define db1 where "db1 = db\<lparr>ps_links := snd (deleteLink (ps_engine db) (ps_links db) scope g d role)\<rparr>"
  let ?gs = "unlinked (ps_engine db) (ps_grants db) role None d"
  have ok1: "perm_ok db1" and eq: "ps_engine db1 = ps_engine db" "ps_grants db1 = ps_grants db"
    and get: "getBotRole db1 role = getBotRole db role"
    using ok by (simp_all add: db1_def getBotRole_def)
  have at: "only_at (ps_engine db1) (ps_grants db1) ?gs role None" unfolding eq by (rule only_at_unlinked [OF ne])
  have res: "unlinkDiscordRole now db scope g d role = (case getBotRole db role of None \<Rightarrow> db1\<lparr>ps_grants := ?gs\<rparr>
      | Some r \<Rightarrow> foldl (invalidateUserCache None) (writeBotAssigned now (db1\<lparr>ps_grants := ?gs\<rparr>) role
          (filter (\<lambda>u. u \<in> holders (ps_engine db) ?gs role None) (br_assignedUserIds r))) (br_assignedUserIds r))"
    using Link_bot by (simp add: unlinkDiscordRole_def Let_def db1_def unlinked_def [symmetric] getBotRole_def
        still_holders [unfolded set_map] cong: option.case_cong)
  show ?thesis
  proof (cases "getBotRole db role")
    case None
    then show ?thesis using perm_ok_no_bot [OF ok1 at] get by (simp add: res)
  next
    case (Some r)
    then have "perm_ok (writeBotAssigned now (db1\<lparr>ps_grants := ?gs\<rparr>) role
        (filter (\<lambda>u. u \<in> holders (ps_engine db) ?gs role None) (br_assignedUserIds r)))"
      using bot_holders [OF ok Some] holders_unlinked [OF ne, of "ps_engine db" "ps_grants db" None d]
      by (intro perm_ok_writeBot [OF ok1 at]) (auto simp: eq)
    then show ?thesis using Some by (simp add: res)
  qed
next
  case Link_server
  then obtain k where g: "g = Some k" "k \<noteq> []" using assms(2) by (cases g) (auto simp: truthy_def)
  define db1 where "db1 = db\<lparr>ps_links := snd (deleteLink (ps_engine db) (ps_links db) scope g d role)\<rparr>"
  let ?gs = "unlinked (ps_engine db) (ps_grants db) role (Some k) d"
  have ok1: "perm_ok db1" and eq: "ps_engine db1 = ps_engine db" "ps_grants db1 = ps_grants db"
    and get: "getServerRole db1 k role = getServerRole db k role"
    using ok by (simp_all add: db1_def getServerRole_def)
  have at: "only_at (ps_engine db1) (ps_grants db1) ?gs role (Some k)" unfolding eq by (rule only_at_unlinked [OF ne])
  have res: "unlinkDiscordRole now db scope g d role = (case getServerRole db k role of None \<Rightarrow> db1\<lparr>ps_grants := ?gs\<rparr>
      | Some r \<Rightarrow> foldl (invalidateUserCache g) (writeServerAssigned now (db1\<lparr>ps_grants := ?gs\<rparr>) k role
          (filter (\<lambda>u. u \<in> holders (ps_engine db) ?gs role (Some k)) (sr_assignedUserIds r))) (sr_assignedUserIds r))"
    using Link_server g by (simp add: unlinkDiscordRole_def Let_def db1_def unlinked_def [symmetric] getServerRole_def truthy_def
        still_holders [unfolded set_map] cong: option.case_cong)
  show ?thesis
  proof (cases "getServerRole db k role")
    case None
    then show ?thesis using perm_ok_no_server [OF ok1 at g(2)] get by (simp add: res)
  next
    case (Some r)
    then have "perm_ok (writeServerAssigned now (db1\<lparr>ps_grants := ?gs\<rparr>) k role
        (filter (\<lambda>u. u \<in> holders (ps_engine db) ?gs role (Some k)) (sr_assignedUserIds r)))"
      using server_holders [OF ok Some] holders_unlinked [OF ne, of "ps_engine db" "ps_grants db" "Some k" d]
      by (intro perm_ok_writeServer [OF ok1 at g(2)]) (auto simp: eq)
    then show ?thesis using Some by (simp add: res)
  qed
qed

lemma link_step_keeps:
  assumes "link_step db db'" "perm_ok db"
  shows "perm_ok db'"
  using assms
proof cases
  case (link newId now scope g d role cr doc)
  then obtain ls where "db' = db\<lparr>ps_links := ls\<rparr>"
    by (auto simp: linkDiscordRole_def Let_def case_prod_unfold split: option.splits)
  then show ?thesis using assms(2) by simp
qed (use assms(2) in \<open>simp_all add: unlinkDiscordRole_keeps applyDiscordGrant_keeps revokeDiscordGrant_keeps\<close>)

lemma perm_step_keeps: "perm_step raw db db' \<Longrightarrow> perm_ok db \<Longrightarrow> perm_ok db'"
  by (auto elim!: perm_step.cases intro: role_step_keeps link_step_keeps)

subsection \<open>Owners of the bot\<close>

lemma botOwner_iff:
  assumes "perm_ok db"
  shows "rp_botOwner (resolve raw now db u g ow) \<longleftrightarrow>
    u \<in> set (envOwnerIds raw) \<or> (\<exists>r \<in> set (ps_bwroles db). OWNER_BIT \<in> set (br_bits r) \<and> u \<in> set (br_assignedUserIds r))"
proof -
  have "js_starts_with OWNER_BIT ''bot.''" by (simp add: OWNER_BIT_def)
  then have "OWNER_BIT \<notin> set (sr_bits r)" if "r \<in> set (ps_sroles db)" for r
    using assms that by (auto simp: perm_ok_def server_ok_def)
  then have "OWNER_BIT \<notin> set (server_role_bits db u k)" for k by (auto simp: server_role_bits_def)
  moreover have "OWNER_BIT \<noteq> ''server.owner''" by (simp add: OWNER_BIT_def)
  ultimately show ?thesis by (auto simp: resolve_def Let_def bot_role_bits_def)
qed

definition owner_roles :: "PermState \<Rightarrow> BotWideRoleDoc list" where
  "owner_roles db = filter (\<lambda>r. OWNER_BIT \<in> set (br_bits r)) (ps_bwroles db)"

lemma not_owner_bits: "assertCanMutateOwnerBit raw actor bits = None \<Longrightarrow> \<not> isEnvBotOwner raw actor \<Longrightarrow> OWNER_BIT \<notin> set bits"
  by (simp add: assertCanMutateOwnerBit_def split: if_splits)

lemma owner_roles_map:
  assumes "\<And>r. r \<in> set (ps_bwroles db) \<Longrightarrow> br_id r = role \<Longrightarrow> OWNER_BIT \<notin> set (br_bits r) \<and> OWNER_BIT \<notin> set (br_bits (f r))"
  shows "owner_roles (on_bot_role db role f) = owner_roles db"
proof -
  have "filter P (map (\<lambda>r. if br_id r = role then f r else r) rs) = filter P rs"
    if "\<And>r. r \<in> set rs \<Longrightarrow> br_id r = role \<Longrightarrow> \<not> P r \<and> \<not> P (f r)" for P :: "BotWideRoleDoc \<Rightarrow> bool" and rs
    using that by (induction rs) auto
  then show ?thesis using assms by (simp add: owner_roles_def on_bot_role_def)
qed

lemma bot_role_unique:
  assumes "perm_ok db" "getBotRole db role = Some ex" "r \<in> set (ps_bwroles db)" "br_id r = role"
  shows "r = ex"
  using assms getBotRole_D [OF assms(2)] by (auto simp: perm_ok_def bot_ok_def distinct_map inj_on_def)

lemma owner_roles_invalidate [simp]:
  "owner_roles (foldl (invalidateUserCache g) db us) = owner_roles db" "owner_roles (db\<lparr>ps_grants := gs\<rparr>) = owner_roles db"
  by (simp_all add: owner_roles_def)


lemma owner_roles_bot_step:
  assumes ok: "perm_ok db" and no: "\<not> isEnvBotOwner raw actor"
  shows "createBotRole raw now db newId data actor = Inr (doc, db') \<Longrightarrow> owner_roles db' = owner_roles db"
    and "updateBotRole raw now db role upd actor = Inr (doc, db') \<Longrightarrow> owner_roles db' = owner_roles db"
    and "deleteBotRole raw now db role actor = Inr db' \<Longrightarrow> owner_roles db' = owner_roles db"
    and "assignBotRole raw now db role users actor = Inr db' \<Longrightarrow> owner_roles db' = owner_roles db"
    and "revokeBotRole raw now db role users actor = Inr db' \<Longrightarrow> owner_roles db' = owner_roles db"
proof -
  assume "createBotRole raw now db newId data actor = Inr (doc, db')"
  then have "db' = db\<lparr>ps_bwroles := ps_bwroles db @ [doc]\<rparr>" "br_bits doc = ci_bits data"
      "assertCanMutateOwnerBit raw actor (ci_bits data) = None"
    by (auto simp: createBotRole_def Let_def first_error_None split: option.splits)
  then show "owner_roles db' = owner_roles db" using not_owner_bits [OF _ no] by (simp add: owner_roles_def)
next
  assume run: "updateBotRole raw now db role upd actor = Inr (doc, db')"
  then obtain ex where ex: "getBotRole db role = Some ex" by (auto simp: updateBotRole_def split: option.splits)
  define n where "n = or_else (pi_name upd) (br_name ex)"
  define c where "c = or_else (pi_color upd) (br_color ex)"
  define b where "b = or_else (pi_bits upd) (br_bits ex)"
  have db': "db' = on_bot_role db role (\<lambda>r. r\<lparr>br_name := n, br_color := c, br_bits := b, br_updatedAt := now\<rparr>)"
    and guard: "assertCanMutateOwnerBit raw actor (br_bits ex @ or_else (pi_bits upd) []) = None"
    using run by (auto simp: updateBotRole_def ex Let_def first_error_None n_def c_def b_def split: option.splits)
  have "OWNER_BIT \<notin> set (br_bits ex @ or_else (pi_bits upd) [])" by (rule not_owner_bits [OF guard no])
  then have "OWNER_BIT \<notin> set (br_bits ex)" "OWNER_BIT \<notin> set b" by (auto simp: b_def or_else_def split: option.splits)
  then show "owner_roles db' = owner_roles db"
    unfolding db' using bot_role_unique [OF ok ex] by (intro owner_roles_map) auto
next
  assume run: "deleteBotRole raw now db role actor = Inr db'"
  have "OWNER_BIT \<notin> set (br_bits r)" if "r \<in> set (ps_bwroles db)" "br_id r = role" for r
  proof (cases "getBotRole db role")
    case None
    then show ?thesis using getBotRole_None [OF None] that by auto
  next
    case (Some ex)
    then show ?thesis using run not_owner_bits [OF _ no] bot_role_unique [OF ok Some that]
      by (auto simp: deleteBotRole_def Let_def first_error_None split: option.splits)
  qed
  then have "owner_roles (db\<lparr>ps_bwroles := filter (\<lambda>r. br_id r \<noteq> role) (ps_bwroles db)\<rparr>) = owner_roles db"
    by (auto simp: owner_roles_def intro!: filter_cong)
  then show "owner_roles db' = owner_roles db"
    using run by (auto simp: deleteBotRole_def Let_def split: option.splits)
next
  assume run: "assignBotRole raw now db role users actor = Inr db'"
  then obtain ex where ex: "getBotRole db role = Some ex" by (auto simp: assignBotRole_def split: option.splits)
  then have "OWNER_BIT \<notin> set (br_bits ex)"
    using run not_owner_bits [OF _ no] by (auto simp: assignBotRole_def Let_def first_error_None split: option.splits)
  then have "owner_roles (writeBotAssigned now (grant_all now db role None users) role us) = owner_roles db" for us
    unfolding writeBotAssigned_def using bot_role_unique [OF ok ex]
    by (subst owner_roles_map) (auto simp: grant_all_def)
  then show "owner_roles db' = owner_roles db"
    using run ex by (auto simp: assignBotRole_def Let_def split: option.splits)
next
  assume run: "revokeBotRole raw now db role users actor = Inr db'"
  then obtain ex where ex: "getBotRole db role = Some ex" by (auto simp: revokeBotRole_def split: option.splits)
  then have "OWNER_BIT \<notin> set (br_bits ex)"
    using run not_owner_bits [OF _ no] by (auto simp: revokeBotRole_def Let_def first_error_None split: option.splits)
  then have "owner_roles (writeBotAssigned now (fst (revoke_all db role None users rest)) role us) = owner_roles db" for rest us
    unfolding writeBotAssigned_def using bot_role_unique [OF ok ex]
    by (subst owner_roles_map) (auto simp: revoke_all_eq Let_def)
  then show "owner_roles db' = owner_roles db"
    using run ex by (auto simp: revokeBotRole_def Let_def case_prod_unfold split: option.splits)
qed

lemma owner_roles_server_step:
  "createServerRole raw now db newId g data actor = Inr (doc, db') \<Longrightarrow> owner_roles db' = owner_roles db"
  "updateServerRole raw now db g role upd actor = Inr (doc, db') \<Longrightarrow> owner_roles db' = owner_roles db"
  "owner_roles (deleteServerRole db g role) = owner_roles db"
  "assignServerRole now db g role users = Inr db' \<Longrightarrow> owner_roles db' = owner_roles db"
  "revokeServerRole now db g role users = Inr db' \<Longrightarrow> owner_roles db' = owner_roles db"
  by (auto simp: createServerRole_def updateServerRole_def deleteServerRole_def assignServerRole_def revokeServerRole_def
      on_server_role_def writeServerAssigned_def grant_all_def revoke_all_eq Let_def case_prod_unfold owner_roles_def
      split: option.splits)

lemma owner_roles_step:
  assumes "role_step raw actor db db'" "perm_ok db" "\<not> isEnvBotOwner raw actor"
  shows "owner_roles db' = owner_roles db"
  using assms(1)
proof cases
  case (register now bt desc plugin rk)
  then show ?thesis by (simp add: registerBit_def owner_roles_def Let_def)
qed (use owner_roles_bot_step [OF assms(2,3)] owner_roles_server_step in metis)+

end
