(* ===== verification/PermSafety.thy ===== *)
theory PermSafety
  imports PermInvariants
begin

text \<open>
  What the permission manager promises and where it does not keep it: holders and grants agree, owners of the
  bot come only from environment owners, except through a linked Discord role; server roles; the cache.
\<close>

subsection \<open>Histories\<close>

definition empty_perms :: "Engine \<Rightarrow> PermState" where
  "empty_perms eng = \<lparr>ps_engine = eng, ps_bits = [], ps_bwroles = [], ps_sroles = [], ps_grants = [], ps_links = [],
     ps_ranks = RANK_BY_BIT, ps_cache = Some []\<rparr>"

text \<open>The program starts with whatever catalogue of bits, and no roles, grants or links yet.\<close>

inductive perm_reachable :: "string \<Rightarrow> PermState \<Rightarrow> bool" for raw where
  start: "perm_reachable raw (db\<lparr>ps_bwroles := [], ps_sroles := [], ps_grants := [], ps_links := []\<rparr>)"
| step: "perm_reachable raw db \<Longrightarrow> perm_step raw db db' \<Longrightarrow> perm_reachable raw db'"

lemma perm_ok_reachable: "perm_reachable raw db \<Longrightarrow> perm_ok db"
proof (induction rule: perm_reachable.induct)
  case (start db)
  show ?case by (simp add: perm_ok_def bot_ok_def server_ok_def)
next
  case (step db db')
  then show ?case using perm_step_keeps by blast
qed

text \<open>
  C21. On SQLite and MongoDB, when operations run one at a time: however roles are created, changed, assigned,
  revoked and linked, the users written into a role are at every moment those with some grant of it, direct
  or by a Discord role, each once; so \<open>resolve\<close> gives a bit to a user who is not an owner exactly through the
  roles granted.
\<close>

theorem holders_are_granted:
  assumes "perm_reachable raw db"
  shows "(\<forall>r \<in> set (ps_bwroles db). distinct (br_assignedUserIds r) \<and>
      (\<forall>u. u \<in> set (br_assignedUserIds r) \<longleftrightarrow> userHasAnyGrant (ps_engine db) (ps_grants db) u (br_id r) None)) \<and>
    (\<forall>r \<in> set (ps_sroles db). distinct (sr_assignedUserIds r) \<and>
      (\<forall>u. u \<in> set (sr_assignedUserIds r) \<longleftrightarrow> userHasAnyGrant (ps_engine db) (ps_grants db) u (sr_id r) (Some (sr_guildId r))))"
  using perm_ok_reachable [OF assms] by (simp add: perm_ok_def bot_ok_def server_ok_def holders_def)

text \<open>
  C22. An operation asked for by anybody who is not an environment owner leaves every role with \<open>bot.owner\<close>
  as it is, its users included, and so nobody becomes or stops being an owner of the bot by it.
\<close>

theorem owners_only_by_env_owners:
  assumes "perm_reachable raw db" "role_step raw actor db db'" "\<not> isEnvBotOwner raw actor"
  shows "filter (\<lambda>r. OWNER_BIT \<in> set (br_bits r)) (ps_bwroles db') = filter (\<lambda>r. OWNER_BIT \<in> set (br_bits r)) (ps_bwroles db) \<and>
    rp_botOwner (resolve raw now db' u g ow) = rp_botOwner (resolve raw now db u g ow)"
proof -
  note ok = perm_ok_reachable [OF assms(1)]
  note ok' = role_step_keeps [OF assms(2) ok]
  have same: "owner_roles db' = owner_roles db" by (rule owner_roles_step [OF assms(2) ok assms(3)])
  have "(\<exists>r \<in> set (ps_bwroles d). OWNER_BIT \<in> set (br_bits r) \<and> u \<in> set (br_assignedUserIds r)) =
      (\<exists>r \<in> set (owner_roles d). u \<in> set (br_assignedUserIds r))" for d
    by (auto simp: owner_roles_def)
  then show ?thesis using same by (simp add: botOwner_iff [OF ok] botOwner_iff [OF ok'] flip: owner_roles_def)
qed

subsection \<open>A linked Discord role\<close>

definition owns_through :: "string \<Rightarrow> string \<Rightarrow> string \<Rightarrow> PermState \<Rightarrow> bool" where
  "owns_through role u d db = ((\<exists>r. getBotRole db role = Some r \<and> OWNER_BIT \<in> set (br_bits r) \<and> u \<in> set (br_assignedUserIds r)) \<and>
     (\<exists>x \<in> set (ps_grants db). gr_userId x = u \<and> gr_permRoleId x = role \<and> gr_guildId x = None \<and> gr_source x = Discord_role \<and>
        gr_discordRoleId x = stored_key (ps_engine db) (Some d)))"

lemma getBotRole_write:
  "getBotRole (writeBotAssigned now db role' us) role = (if role' = role
     then map_option (\<lambda>r. r\<lparr>br_assignedUserIds := us, br_updatedAt := now\<rparr>) (getBotRole db role) else getBotRole db role)"
proof -
  have "List.find (\<lambda>r. br_id r = role) (map (\<lambda>r. if br_id r = role' then r\<lparr>br_assignedUserIds := us, br_updatedAt := now\<rparr> else r) rs) =
      (if role' = role then map_option (\<lambda>r. r\<lparr>br_assignedUserIds := us, br_updatedAt := now\<rparr>) (List.find (\<lambda>r. br_id r = role) rs)
       else List.find (\<lambda>r. br_id r = role) rs)" for rs
    by (induction rs) auto
  from this [of "ps_bwroles db"] show ?thesis by (simp add: getBotRole_def writeBotAssigned_def on_bot_role_def)
qed

lemma getBotRole_other [simp]:
  "getBotRole (invalidateUserCache g db u) role = getBotRole db role"
  "getBotRole (writeServerAssigned now db gid role' us) role = getBotRole db role"
  "getBotRole (db\<lparr>ps_links := ls\<rparr>) role = getBotRole db role"
  by (simp_all add: getBotRole_def writeServerAssigned_def on_server_role_def)

lemma write_fields [simp]:
  "ps_grants (writeBotAssigned now db role us) = ps_grants db" "ps_engine (writeBotAssigned now db role us) = ps_engine db"
  "ps_grants (writeServerAssigned now db gid role us) = ps_grants db" "ps_engine (writeServerAssigned now db gid role us) = ps_engine db"
  "ps_links (writeBotAssigned now db role us) = ps_links db" "ps_links (writeServerAssigned now db gid role us) = ps_links db"
  by (simp_all add: writeBotAssigned_def writeServerAssigned_def on_bot_role_def on_server_role_def)

lemma put_grant_mono: "x \<in> set gs \<Longrightarrow> x \<in> set (put_grant eng now src d gs u r g)"
  by (auto simp: put_grant_def upsertGrant_def Let_def)

lemma stored_key_inj: "stored_key eng (Some a) = stored_key eng (Some b) \<longleftrightarrow> a = b"
  by (cases eng) (auto simp: stored_key_def fromSqlTextKey_def sqlTextKey_def)

lemma applyDiscordGrant_grants:
  "ps_grants (applyDiscordGrant now db scope g role u d) =
     put_grant (ps_engine db) now Discord_role (Some d) (ps_grants db) u role (if scope = Link_bot then None else g)"
  "ps_engine (applyDiscordGrant now db scope g role u d) = ps_engine db"
  by (auto simp: applyDiscordGrant_def Let_def split: option.splits)

lemma revokeDiscordGrant_grants:
  "ps_grants (revokeDiscordGrantIfOrphan now db scope g role u d) =
     drop_grant (ps_engine db) Discord_role (Some (Some d)) (ps_grants db) u role (if scope = Link_bot then None else g)"
  "ps_engine (revokeDiscordGrantIfOrphan now db scope g role u d) = ps_engine db"
  by (auto simp: revokeDiscordGrantIfOrphan_def Let_def split: option.splits)


lemma applyDiscordGrant_bot_role:
  assumes "getBotRole db role = Some r"
  shows "\<exists>r'. getBotRole (applyDiscordGrant now db scope g role' u d) role = Some r' \<and> br_bits r' = br_bits r \<and>
    set (br_assignedUserIds r) \<subseteq> set (br_assignedUserIds r') \<and>
    (scope = Link_bot \<and> role' = role \<longrightarrow> u \<in> set (br_assignedUserIds r'))"
  using assms by (cases "role' = role") (auto simp: applyDiscordGrant_def Let_def getBotRole_write split: option.splits)

lemma owns_through_apply:
  assumes "owns_through role u d db"
  shows "owns_through role u d (applyDiscordGrant now db scope g role' u d')"
proof -
  obtain r where r: "getBotRole db role = Some r" "OWNER_BIT \<in> set (br_bits r)" "u \<in> set (br_assignedUserIds r)"
    using assms by (auto simp: owns_through_def)
  have "\<exists>r'. getBotRole (applyDiscordGrant now db scope g role' u d') role = Some r' \<and> OWNER_BIT \<in> set (br_bits r') \<and>
      u \<in> set (br_assignedUserIds r')"
    using applyDiscordGrant_bot_role [OF r(1), of now scope g role' u d'] r(2,3) by auto
  moreover have "\<exists>x \<in> set (ps_grants (applyDiscordGrant now db scope g role' u d')). gr_userId x = u \<and> gr_permRoleId x = role \<and>
      gr_guildId x = None \<and> gr_source x = Discord_role \<and> gr_discordRoleId x = stored_key (ps_engine db) (Some d)"
    using assms unfolding owns_through_def applyDiscordGrant_grants by (blast intro: put_grant_mono)
  ultimately show ?thesis unfolding owns_through_def applyDiscordGrant_grants(2) by blast
qed

lemma owns_through_revoke:
  assumes own: "owns_through role u d db" and d: "d' \<noteq> d"
  shows "owns_through role u d (revokeDiscordGrantIfOrphan now db scope g role' u d')"
proof -
  let ?eng = "ps_engine db"
  obtain r where r: "getBotRole db role = Some r" "OWNER_BIT \<in> set (br_bits r)" "u \<in> set (br_assignedUserIds r)"
    using own by (auto simp: owns_through_def)
  obtain x where x: "x \<in> set (ps_grants db)" "gr_userId x = u" "gr_permRoleId x = role" "gr_guildId x = None"
      "gr_source x = Discord_role" "gr_discordRoleId x = stored_key ?eng (Some d)"
    using own by (auto simp: owns_through_def)
  let ?gs = "drop_grant ?eng Discord_role (Some (Some d')) (ps_grants db) u role' (if scope = Link_bot then None else g)"
  have kept: "x \<in> set ?gs"
    using x d by (auto simp: drop_grant_eq matches_filter_def stored_key_inj)
  then have "userHasAnyGrant ?eng ?gs u role None" using x by (auto simp: userHasAnyGrant_def)
  then have "\<exists>r'. getBotRole (revokeDiscordGrantIfOrphan now db scope g role' u d') role = Some r' \<and>
      OWNER_BIT \<in> set (br_bits r') \<and> u \<in> set (br_assignedUserIds r')"
    using r by (auto simp: revokeDiscordGrantIfOrphan_def Let_def getBotRole_write split: option.splits)
  then show ?thesis unfolding owns_through_def revokeDiscordGrant_grants using kept x by blast
qed

lemma owns_through_sync:
  assumes "owns_through role u d db" "d \<in> set mine"
  shows "owns_through role u d (sync_link now guild u mine db link)"
proof (cases "rl_discordRoleId link \<in> set mine")
  case True
  then show ?thesis using owns_through_apply [OF assms(1)] by (simp add: sync_link_def Let_def)
next
  case False
  then have "rl_discordRoleId link \<noteq> d" using assms(2) by auto
  then show ?thesis using owns_through_revoke [OF assms(1)] False by (simp add: sync_link_def Let_def)
qed

lemma owns_through_fold:
  "owns_through role u d db \<Longrightarrow> d \<in> set mine \<Longrightarrow> owns_through role u d (foldl (sync_link now guild u mine) db links)"
  by (induction links arbitrary: db) (simp_all add: owns_through_sync)

text \<open>A role with \<open>bot.owner\<close> survives the handling of any link.\<close>

lemma owner_role_sync:
  assumes "\<exists>r. getBotRole db role = Some r \<and> OWNER_BIT \<in> set (br_bits r)"
  shows "\<exists>r. getBotRole (sync_link now guild u mine db link) role = Some r \<and> OWNER_BIT \<in> set (br_bits r)"
  using assms
  by (auto simp: sync_link_def applyDiscordGrant_def revokeDiscordGrantIfOrphan_def Let_def getBotRole_write split: option.splits)

lemma owner_role_fold:
  "\<exists>r. getBotRole db role = Some r \<and> OWNER_BIT \<in> set (br_bits r) \<Longrightarrow>
   \<exists>r. getBotRole (foldl (sync_link now guild u mine) db links) role = Some r \<and> OWNER_BIT \<in> set (br_bits r)"
proof (induction links arbitrary: db)
  case (Cons l links)
  show ?case using Cons.IH [OF owner_role_sync [OF Cons.prems]] by simp
qed simp

lemma sync_links_own:
  assumes "\<exists>r. getBotRole db role = Some r \<and> OWNER_BIT \<in> set (br_bits r)" "d \<in> set mine"
    and link: "link \<in> set links" "rl_scope link = Link_bot" "rl_discordRoleId link = d" "rl_permRoleId link = role"
  shows "owns_through role u d (foldl (sync_link now guild u mine) db links)"
proof -
  obtain xs ys where links: "links = xs @ link # ys" using link(1) by (meson split_list)
  let ?db = "foldl (sync_link now guild u mine) db xs"
  obtain r where r: "getBotRole ?db role = Some r" "OWNER_BIT \<in> set (br_bits r)" using owner_role_fold [OF assms(1)] by blast
  have "sync_link now guild u mine ?db link = applyDiscordGrant now ?db Link_bot None role u d"
    using link assms(2) by (simp add: sync_link_def)
  moreover have "owns_through role u d (applyDiscordGrant now ?db Link_bot None role u d)"
  proof -
    have "\<exists>x \<in> set (put_grant eng now Discord_role (Some d) gs u role None). gr_userId x = u \<and> gr_permRoleId x = role \<and>
        gr_guildId x = None \<and> gr_source x = Discord_role \<and> gr_discordRoleId x = stored_key eng (Some d)" for eng gs
      by (auto simp: put_grant_def upsertGrant_def Let_def)
    then show ?thesis
      using applyDiscordGrant_bot_role [OF r(1), of now Link_bot None role u d] r(2)
      unfolding owns_through_def applyDiscordGrant_grants by fastforce
  qed
  ultimately have "owns_through role u d (sync_link now guild u mine ?db link)" by simp
  then show ?thesis unfolding links by (simp add: owns_through_fold [OF _ assms(2)])
qed

lemma linked_owner:
  assumes "getBotRole db role = Some r" "u \<in> set (br_assignedUserIds r)" "OWNER_BIT \<in> set (br_bits r)"
  shows "rp_botOwner (resolve raw now db u g ow)"
  using assms getBotRole_D [OF assms(1)] by (auto simp: resolve_def Let_def bot_role_bits_def)

text \<open>
  The guard on \<open>bot.owner\<close> does not cover links.  On SQLite and MongoDB, for a role with \<open>bot.owner\<close> that
  no link leads to yet: linking a Discord role to it is refused to nobody, whoever asks; the next update of a
  member with that Discord role makes the member an owner of the bot, in whatever guild the Discord role is.
\<close>

theorem link_makes_owners:
  assumes "getBotRole db role = Some r" "OWNER_BIT \<in> set (br_bits r)" "d \<in> set memberRoles"
    and "\<forall>l \<in> set (ps_links db). rl_permRoleId l \<noteq> role"
  shows "\<exists>doc db1. linkDiscordRole db newId now Link_bot None d role anybody = Inr (doc, db1) \<and>
    rp_botOwner (resolve raw t (guildMemberUpdate True now db1 guild u memberRoles) u g ow)"
proof -
  define doc where "doc = \<lparr>rl_id = newId, rl_scope = Link_bot, rl_guildId = None, rl_discordRoleId = d,
    rl_permRoleId = role, rl_createdAt = now, rl_createdBy = anybody\<rparr>"
  define db1 where "db1 = db\<lparr>ps_links := ps_links db @ [doc]\<rparr>"
  have run: "linkDiscordRole db newId now Link_bot None d role anybody = Inr (doc, db1)"
    using assms(1,4) by (auto simp: linkDiscordRole_def insertLink_def Let_def doc_def db1_def same_link_def
        sqlTextKey_def fromSqlTextKey_def)
  have "doc \<in> set (listDiscordRoleLinks db1 (Some Link_bot) None)"
    by (simp add: listDiscordRoleLinks_def listLinks_def db1_def doc_def)
  then have "owns_through role u d (guildMemberUpdate True now db1 guild u memberRoles)"
    unfolding guildMemberUpdate_def using assms(1-3)
    by (simp del: foldl_append, intro sync_links_own [where link = doc]) (auto simp: db1_def doc_def)
  then obtain r' where "getBotRole (guildMemberUpdate True now db1 guild u memberRoles) role = Some r'"
      "u \<in> set (br_assignedUserIds r')" "OWNER_BIT \<in> set (br_bits r')"
    by (auto simp: owns_through_def)
  then have "rp_botOwner (resolve raw t (guildMemberUpdate True now db1 guild u memberRoles) u g ow)" by (rule linked_owner)
  then show ?thesis using run by blast
qed

subsection \<open>A member update elsewhere\<close>

definition grants_of :: "string \<Rightarrow> string \<Rightarrow> GrantDoc list \<Rightarrow> GrantDoc set" where
  "grants_of u role gs = {x \<in> set gs. gr_userId x = u \<and> gr_permRoleId x = role \<and> gr_guildId x = None}"

lemma grants_of_put:
  assumes "\<not> (role' = role \<and> stored_key eng g = None)"
  shows "grants_of u role (put_grant eng now src d gs u role' g) = grants_of u role gs"
proof -
  have "set (put_grant eng now src d gs u role' g) = set gs \<or>
      (\<exists>x. set (put_grant eng now src d gs u role' g) = insert x (set gs) \<and> gr_permRoleId x = role' \<and> gr_guildId x = stored_key eng g)"
    by (simp add: put_grant_def upsertGrant_def Let_def) (metis GrantDoc.select_convs(2,3))
  then show ?thesis
  proof
    assume "\<exists>x. set (put_grant eng now src d gs u role' g) = insert x (set gs) \<and> gr_permRoleId x = role' \<and> gr_guildId x = stored_key eng g"
    then obtain x where "set (put_grant eng now src d gs u role' g) = insert x (set gs)" "gr_permRoleId x = role'"
        "gr_guildId x = stored_key eng g" by blast
    then show ?thesis using assms by (auto simp: grants_of_def)
  qed (simp add: grants_of_def)
qed

lemma grants_of_drop: "grants_of u role (drop_grant eng src dd gs u' role' g) \<subseteq> grants_of u role gs"
  by (auto simp: grants_of_def drop_grant_eq)

lemma grants_of_drop_all:
  assumes "\<forall>x \<in> grants_of u role gs. gr_source x = src \<and> gr_discordRoleId x = stored_key eng k"
  shows "grants_of u role (drop_grant eng src (Some k) gs u role None) = {}"
  using assms by (auto simp: grants_of_def drop_grant_eq matches_filter_def)

lemma sync_link_engine [simp]: "ps_engine (sync_link now guild u mine db l) = ps_engine db"
  by (simp add: sync_link_def Let_def applyDiscordGrant_grants revokeDiscordGrant_grants)

lemma sync_link_grants_of:
  assumes "guild \<noteq> []" "rl_scope l = Link_bot \<and> rl_permRoleId l = role \<longrightarrow> rl_discordRoleId l \<notin> set mine"
  shows "grants_of u role (ps_grants (sync_link now guild u mine db l)) \<subseteq> grants_of u role (ps_grants db)"
proof (cases "rl_discordRoleId l \<in> set mine")
  case True
  then have "\<not> (rl_permRoleId l = role \<and> stored_key (ps_engine db) (if rl_scope l = Link_bot then None else Some guild) = None)"
    using assms by auto
  from grants_of_put [OF this, of u now Discord_role "Some (rl_discordRoleId l)" "ps_grants db"] show ?thesis
    using True by (cases "rl_scope l = Link_bot") (simp_all add: sync_link_def Let_def applyDiscordGrant_grants)
next
  case False
  then show ?thesis using grants_of_drop by (simp add: sync_link_def Let_def revokeDiscordGrant_grants)
qed

lemma sync_links_grants_of:
  assumes "guild \<noteq> []" "\<forall>l \<in> set links. rl_scope l = Link_bot \<and> rl_permRoleId l = role \<longrightarrow> rl_discordRoleId l \<notin> set mine"
  shows "grants_of u role (ps_grants (foldl (sync_link now guild u mine) db links)) \<subseteq> grants_of u role (ps_grants db)"
  using assms(2)
proof (induction links arbitrary: db)
  case (Cons l links)
  have "grants_of u role (ps_grants (sync_link now guild u mine db l)) \<subseteq> grants_of u role (ps_grants db)"
    by (rule sync_link_grants_of) (use assms(1) Cons.prems in simp_all)
  then show ?case using Cons.IH [of "sync_link now guild u mine db l"] Cons.prems by auto
qed simp

lemma sync_links_engine [simp]: "ps_engine (foldl (sync_link now guild u mine) db links) = ps_engine db"
  by (induction links arbitrary: db) simp_all

lemma sync_links_ok:
  assumes "perm_ok db" "guild \<noteq> []" "u \<noteq> []" "\<forall>l \<in> set links. rl_permRoleId l \<noteq> []"
  shows "perm_ok (foldl (sync_link now guild u mine) db links)"
  using assms(1,4)
proof (induction links arbitrary: db)
  case (Cons l links)
  have "perm_ok (sync_link now guild u mine db l)"
    using Cons.prems assms(2,3)
    by (auto simp: sync_link_def Let_def truthy_def intro!: applyDiscordGrant_keeps revokeDiscordGrant_keeps)
  then show ?case using Cons by simp
qed simp

text \<open>
  Bot roles are global but the handler looks at one guild: whoever holds a bot role by a Discord role of
  one guild loses it, and its bits, at the first member update in any other guild, where the member cannot
  have that Discord role.
\<close>

theorem update_elsewhere_revokes:
  assumes "perm_reachable raw db" "guild \<noteq> []" "u \<noteq> []" "\<forall>l \<in> set (ps_links db). rl_permRoleId l \<noteq> []"
    and link: "link \<in> set (ps_links db)" "rl_scope link = Link_bot" "rl_permRoleId link = role" "rl_discordRoleId link = d"
    and lacks: "\<forall>l \<in> set (ps_links db). rl_scope l = Link_bot \<and> rl_permRoleId l = role \<longrightarrow> rl_discordRoleId l \<notin> set rolesHere"
    and only: "\<forall>x \<in> grants_of u role (ps_grants db). gr_source x = Discord_role \<and> gr_discordRoleId x = stored_key (ps_engine db) (Some d)"
    and r: "getBotRole (guildMemberUpdate True now db guild u rolesHere) role = Some r"
  shows "u \<notin> set (br_assignedUserIds r)"
proof -
  define links where "links = listDiscordRoleLinks db (Some Link_server) (Some (Some guild)) @ listDiscordRoleLinks db (Some Link_bot) None"
  define f where "f = foldl (sync_link now guild u rolesHere)"
  have sub: "set links \<subseteq> set (ps_links db)" by (auto simp: links_def listDiscordRoleLinks_def listLinks_def)
  have "link \<in> set links" using link by (simp add: links_def listDiscordRoleLinks_def listLinks_def)
  then obtain xs ys where split: "links = xs @ link # ys" by (meson split_list)
  have lacks': "\<forall>l \<in> set (xs @ link # ys). rl_scope l = Link_bot \<and> rl_permRoleId l = role \<longrightarrow> rl_discordRoleId l \<notin> set rolesHere"
    using lacks sub by (auto simp: split)
  have mono: "grants_of u role (ps_grants (f db' ls)) \<subseteq> grants_of u role (ps_grants db')" if "set ls \<subseteq> set (xs @ link # ys)" for db' ls
    unfolding f_def by (rule sync_links_grants_of [OF assms(2)]) (use lacks' that in blast)
  have "grants_of u role (ps_grants (f db xs)) \<subseteq> grants_of u role (ps_grants db)" by (rule mono) auto
  then have "grants_of u role (ps_grants (sync_link now guild u rolesHere (f db xs) link)) = {}"
    using only link lacks' by (simp add: sync_link_def revokeDiscordGrant_grants f_def, intro grants_of_drop_all) auto
  moreover have "grants_of u role (ps_grants (f (sync_link now guild u rolesHere (f db xs) link) ys)) \<subseteq>
      grants_of u role (ps_grants (sync_link now guild u rolesHere (f db xs) link))"
    by (rule mono) auto
  ultimately have none: "grants_of u role (ps_grants (f db links)) = {}" by (simp add: split f_def)
  have run: "guildMemberUpdate True now db guild u rolesHere = f db links" by (simp add: guildMemberUpdate_def links_def f_def)
  have "perm_ok (f db links)"
    unfolding f_def by (rule sync_links_ok) (use perm_ok_reachable [OF assms(1)] assms(2-4) sub in auto)
  then have "set (br_assignedUserIds r) = holders (ps_engine db) (ps_grants (f db links)) role None"
    using bot_holders r run by (metis f_def sync_links_engine)
  then show ?thesis using none by (auto simp: holders_def userHasAnyGrant_def grants_of_def)
qed

subsection \<open>Server roles\<close>

text \<open>
  A server role with bits cannot be created through the program: no caller passes an actor, and
  without one the request is refused; with one, even the Discord owner of the guild would be refused, since
  the actor's bits are resolved without the guild's owner.
\<close>

theorem server_role_with_bits_refused:
  assumes "ci_bits data \<noteq> []"
  shows "(\<exists>e. createServerRole raw now db newId g data None = Inl e) \<and>
    (\<forall>a. a \<notin> set (envOwnerIds raw) \<and> bot_role_bits db a = [] \<and> server_role_bits db a g = [] \<longrightarrow>
       (\<exists>e. createServerRole raw now db newId g data (Some a) = Inl e))"
proof -
  have miss: "actorHoldsAllBits raw (Some a) rp bits \<noteq> []" if "rp_bits rp = []" "\<not> rp_botOwner rp" "a \<notin> set (envOwnerIds raw)"
      "bits \<noteq> []" for a rp bits
    using that by (cases bits) (auto simp: actorHoldsAllBits_def isEnvBotOwner_def)
  have "assertActorHoldsRoleBits raw now db (Some a) (ci_bits data) (Some g) \<noteq> None"
    if "a \<notin> set (envOwnerIds raw)" "bot_role_bits db a = []" "server_role_bits db a g = []" for a
  proof -
    let ?rp = "resolve raw now db a (Some g) None"
    have "rp_bits ?rp = []" "\<not> rp_botOwner ?rp"
      using that by (auto simp: resolve_def Let_def truthy_def js_uniq_def)
    then show ?thesis using miss that assms by (simp add: assertActorHoldsRoleBits_def Let_def)
  qed
  moreover have "assertActorHoldsRoleBits raw now db None (ci_bits data) (Some g) \<noteq> None"
    using assms by (simp add: assertActorHoldsRoleBits_def truthy_def)
  moreover have "\<exists>e. createServerRole raw now db newId g data actor = Inl e"
    if "assertActorHoldsRoleBits raw now db actor (ci_bits data) (Some g) \<noteq> None" for actor
  proof (cases "createServerRole raw now db newId g data actor")
    case (Inr p)
    then have "assertActorHoldsRoleBits raw now db actor (ci_bits data) (Some g) = None"
      by (auto simp: createServerRole_def first_error_None split: option.splits)
    then show ?thesis using that by simp
  qed simp
  ultimately show ?thesis by blast
qed

lemma server_prefix_not_bot: "js_starts_with b ''server.'' \<or> js_starts_with b ''plugin.'' \<Longrightarrow> \<not> js_starts_with b ''bot.''"
  by (cases b) auto

lemma assertServerScopedBits_ok:
  "\<forall>b \<in> set bits. js_starts_with b ''server.'' \<or> js_starts_with b ''plugin.'' \<Longrightarrow> assertServerScopedBits bits = None"
  by (auto simp: assertServerScopedBits_def find_Some_iff split: option.splits)

text \<open>
  Without an actor, \<open>updateServerRole\<close> takes the request's own \<open>createdBy\<close> for it: a body that names
  an environment owner writes any server bits, protected ones included, onto any server role.
\<close>

theorem server_update_trusts_request:
  assumes ex: "getServerRole db g role = Some ex" "g \<noteq> []" and owner: "owner \<in> set (envOwnerIds raw)" "owner \<noteq> []"
    and bits: "\<forall>b \<in> set bits. js_starts_with b ''server.'' \<or> js_starts_with b ''plugin.''" "bitsExist db bits"
  shows "\<exists>doc db' r. updateServerRole raw now db g role \<lparr>pi_name = None, pi_color = None, pi_bits = Some bits, pi_createdBy = Some owner\<rparr> None
      = Inr (doc, db') \<and> getServerRole db' g role = Some r \<and> sr_bits r = bits \<and> sr_assignedUserIds r = sr_assignedUserIds ex"
proof -
  have env: "isEnvBotOwner raw (Some owner)" using owner by (simp add: isEnvBotOwner_def)
  have "rp_botOwner (resolve raw now db owner (Some g) None)" using owner by (simp add: resolve_def Let_def)
  then have "assertCanMutateServerProtectedBit raw now db (Some owner) g bs = None" for bs
    using owner by (simp add: assertCanMutateServerProtectedBit_def Let_def truthy_def)
  moreover have "assertActorHoldsRoleBits raw now db (Some owner) bits (Some g) = None"
    using env owner server_prefix_not_bot bits(1)
    by (auto simp: assertActorHoldsRoleBits_def Let_def truthy_def actorHoldsAllBits_def list_ex_iff)
  ultimately have run: "updateServerRole raw now db g role \<lparr>pi_name = None, pi_color = None, pi_bits = Some bits, pi_createdBy = Some owner\<rparr> None =
      Inr (ex\<lparr>sr_bits := bits, sr_updatedAt := now, sr_createdBy := owner\<rparr>,
        on_server_role db g role (\<lambda>r. r\<lparr>sr_name := sr_name ex, sr_color := sr_color ex, sr_bits := bits, sr_updatedAt := now\<rparr>))"
    using ex bits assertServerScopedBits_ok [OF bits(1)]
    by (simp add: updateServerRole_def Let_def or_else_def assertBitsExist_def)
  have "List.find (is_srole g role) (map (\<lambda>r. if is_srole g role r then h r else r) rs) = map_option h (List.find (is_srole g role) rs)"
    if "\<And>r. is_srole g role (h r) = is_srole g role r" for h rs
    using that by (induction rs) auto
  from this [of "\<lambda>r. r\<lparr>sr_name := sr_name ex, sr_color := sr_color ex, sr_bits := bits, sr_updatedAt := now\<rparr>" "ps_sroles db"]
  have "getServerRole (on_server_role db g role (\<lambda>r. r\<lparr>sr_name := sr_name ex, sr_color := sr_color ex, sr_bits := bits, sr_updatedAt := now\<rparr>)) g role =
      Some (ex\<lparr>sr_name := sr_name ex, sr_color := sr_color ex, sr_bits := bits, sr_updatedAt := now\<rparr>)"
    using ex(1) by (simp add: getServerRole_def on_server_role_def is_srole_def)
  then show ?thesis unfolding run by auto
qed

subsection \<open>The cache\<close>

lemma invalidate_sub: "set (invalidate c u g) \<subseteq> set c"
  by (auto simp: invalidate_def Let_def jm_delete_filter)


lemma invalidate_gone: "(cacheId u g, v) \<notin> set (invalidate c u g')"
proof -
  have "js_starts_with (''permcache_'' @ s) ''permcache_''" for s by simp
  moreover have starts: "js_starts_with (xs @ ys) xs" for xs ys :: string by (induction xs) auto
  have "js_ends_with (xs @ ''_'' @ u) (''_'' @ u)" for xs
    using starts [of "rev u @ ''_''" "rev xs"] by (simp add: js_ends_with_def)
  from this [of "''permcache''"] this [of "''permcache_'' @ k" for k]
  have "js_ends_with (cacheId u g) (''_'' @ u)" by (simp add: cacheId_def)
  ultimately have "js_starts_with (cacheId u g) ''permcache_'' \<and> js_ends_with (cacheId u g) (''_'' @ u)"
    by (simp add: cacheId_def)
  then show ?thesis by (auto simp: invalidate_def Let_def)
qed

lemma invalidate_all_gone:
  assumes "u \<in> set us" "ps_cache (foldl (invalidateUserCache g') db us) = Some c"
  shows "jm_get c (cacheId u g) = None"
proof -
  have sub: "\<exists>c0. ps_cache db = Some c0 \<and> set c \<subseteq> set c0" if "ps_cache (foldl (invalidateUserCache g') db us) = Some c" for us db c
    using that
  proof (induction us arbitrary: db)
    case (Cons x us)
    then obtain c0 where "ps_cache (invalidateUserCache g' db x) = Some c0" "set c \<subseteq> set c0" by auto
    then show ?case using invalidate_sub by (fastforce simp: invalidateUserCache_def)
  qed simp
  obtain xs ys where us: "us = xs @ u # ys" using assms(1) by (meson split_list)
  obtain c0 where c0: "ps_cache (invalidateUserCache g' (foldl (invalidateUserCache g') db xs) u) = Some c0" "set c \<subseteq> set c0"
    using sub [of _ ys c] assms(2) by (auto simp: us)
  then have "(cacheId u g, v) \<notin> set c" for v using invalidate_gone by (fastforce simp: invalidateUserCache_def)
  then show ?thesis by (force simp: jm_get_None_iff)
qed

lemma cachedResolve_fresh:
  assumes "\<And>c. ps_cache db = Some c \<Longrightarrow> jm_get c (cacheId u g) = None"
  shows "fst (cachedResolve raw nowMs db u g ow) = resolve raw (nowMs div 1000) db u g ow"
  using assms by (auto simp: cachedResolve_def Let_def perm_cache_get_def split: option.splits)

text \<open>
  On SQLite and MongoDB an assignment takes effect at once: whatever was cached, each user named then has
  all bits of the role in every guild, by \<open>hasBit\<close> and its variants.
\<close>

theorem assignment_is_immediate:
  assumes "assignBotRole raw now db role users actor = Inr db'" "getBotRole db role = Some r" "u \<in> set users"
  shows "hasAllBits (fst (cachedResolve raw nowMs db' u g ow)) (br_bits r)"
proof -
  define db1 where "db1 = writeBotAssigned now (grant_all now db role None users) role (js_uniq (br_assignedUserIds r @ users))"
  have db': "db' = foldl (invalidateUserCache None) db1 users"
    using assms(1,2) by (auto simp: assignBotRole_def Let_def db1_def split: option.splits)
  have live: "fst (cachedResolve raw nowMs db' u g ow) = resolve raw (nowMs div 1000) db' u g ow"
    by (rule cachedResolve_fresh) (use invalidate_all_gone assms(3) db' in blast)
  have "getBotRole db1 role = Some (r\<lparr>br_assignedUserIds := js_uniq (br_assignedUserIds r @ users), br_updatedAt := now\<rparr>)"
    using assms(2) by (simp add: db1_def getBotRole_write grant_all_def)
  then have "getBotRole db' role = Some (r\<lparr>br_assignedUserIds := js_uniq (br_assignedUserIds r @ users), br_updatedAt := now\<rparr>)"
    by (simp add: db' getBotRole_def)
  from getBotRole_D [OF this] have "set (br_bits r) \<subseteq> set (bot_role_bits db' u)"
    using assms(3) by (force simp: bot_role_bits_def)
  then have "rp_botOwner (resolve raw (nowMs div 1000) db' u g ow) \<or> set (br_bits r) \<subseteq> set (rp_bits (resolve raw (nowMs div 1000) db' u g ow))"
    by (auto simp: resolve_def Let_def)
  then show ?thesis by (auto simp: live hasAllBits_def list_all_iff)
qed

text \<open>
  Taking a bit out of a role does not take effect: \<open>updateBotRole\<close> drops no cache entry, so a user
  whose answer is cached keeps the bit until the entry expires, however the role was changed.
\<close>

theorem removed_bit_lingers:
  assumes "updateBotRole raw now db role upd actor = Inr (doc, db')"
    and "ps_cache db = Some c" "perm_cache_get c nowMs (cacheId u g) = Some rp" "bt \<in> set (rp_bits rp)"
  shows "hasBit (fst (cachedResolve raw nowMs db' u g ow)) bt"
proof -
  have "ps_cache db' = Some c"
    using assms(1,2) by (auto simp: updateBotRole_def on_bot_role_def Let_def split: option.splits)
  then show ?thesis using assms(3,4) by (simp add: cachedResolve_def Let_def hasBit_def)
qed

subsection \<open>Witnesses\<close>

definition demo_bit :: "string \<Rightarrow> string \<times> PermBitDoc" where
  "demo_bit b = (b, \<lparr>pb_id = b, pb_description = [], pb_scope = Scope_bot, pb_pluginId = None, pb_builtIn = True, pb_createdAt = 0\<rparr>)"

definition demo_seeded :: PermState where
  "demo_seeded = \<lparr>ps_engine = SQLite,
     ps_bits = map demo_bit [''bot.owner'', ''bot.members.ban'', ''bot.members.kick'', ''server.protected''],
     ps_bwroles = [], ps_sroles = [], ps_grants = [], ps_links = [], ps_ranks = [], ps_cache = Some []\<rparr>"

text \<open>The environment owner 1 has made a role of owners and one of moderators; 7 is a moderator.\<close>

definition demo_role :: "string \<Rightarrow> string list \<Rightarrow> BotWideRoleDoc" where
  "demo_role i bits = \<lparr>br_id = i, br_name = i, br_color = [], br_bits = bits, br_assignedUserIds = [], br_createdAt = 10,
     br_createdBy = ''1'', br_updatedAt = 10\<rparr>"

definition demo_role_input :: "string \<Rightarrow> string list \<Rightarrow> CreateRoleInput" where
  "demo_role_input i bits = \<lparr>ci_name = i, ci_color = [], ci_bits = bits, ci_createdBy = ''1''\<rparr>"

definition demo_owners :: BotWideRoleDoc where "demo_owners = demo_role ''ro'' [''bot.owner'']"

definition demo_moderators :: BotWideRoleDoc where
  "demo_moderators = demo_role ''rm'' [''bot.members.ban'', ''bot.members.kick'']"

definition demo_grant :: "string \<Rightarrow> GrantSource \<Rightarrow> string option \<Rightarrow> int \<Rightarrow> GrantDoc" where
  "demo_grant u src d t = \<lparr>gr_userId = u, gr_permRoleId = ''rm'', gr_guildId = None, gr_source = src, gr_discordRoleId = d, gr_createdAt = t\<rparr>"

definition demo_roles :: PermState where
  "demo_roles = demo_seeded\<lparr>ps_bwroles := [demo_owners, demo_moderators]\<rparr>"

definition demo_mods :: PermState where
  "demo_mods = demo_seeded\<lparr>
     ps_bwroles := [demo_owners, demo_moderators\<lparr>br_assignedUserIds := [''7''], br_updatedAt := 11\<rparr>],
     ps_grants := [demo_grant ''7'' Direct None 11]\<rparr>"

lemma reach_role: "perm_reachable raw db \<Longrightarrow> role_step raw actor db db' \<Longrightarrow> perm_reachable raw db'"
  by (blast intro: perm_reachable.step perm_step.by_actor)

lemma reach_link: "perm_reachable raw db \<Longrightarrow> link_step db db' \<Longrightarrow> perm_reachable raw db'"
  by (blast intro: perm_reachable.step perm_step.by_link)

lemma demo_assign: "assignBotRole ''1, 2'' 11 demo_roles ''rm'' [''7''] (Some ''1'') = Inr demo_mods"
  by code_simp

lemma demo_mods_reachable: "perm_reachable ''1, 2'' demo_mods"
proof -
  have "demo_seeded = demo_seeded\<lparr>ps_bwroles := [], ps_sroles := [], ps_grants := [], ps_links := []\<rparr>"
    by (simp add: demo_seeded_def)
  then have "perm_reachable ''1, 2'' demo_seeded" by (metis perm_reachable.start)
  moreover have "createBotRole ''1, 2'' 10 demo_seeded ''ro'' (demo_role_input ''ro'' [''bot.owner'']) (Some ''1'') =
      Inr (demo_owners, demo_seeded\<lparr>ps_bwroles := [demo_owners]\<rparr>)" by code_simp
  moreover have "fresh_role demo_seeded ''ro''" by (simp add: fresh_role_def demo_seeded_def)
  ultimately have r1: "perm_reachable ''1, 2'' (demo_seeded\<lparr>ps_bwroles := [demo_owners]\<rparr>)"
    using reach_role role_step.create_bot by metis
  have "createBotRole ''1, 2'' 10 (demo_seeded\<lparr>ps_bwroles := [demo_owners]\<rparr>) ''rm''
      (demo_role_input ''rm'' [''bot.members.ban'', ''bot.members.kick'']) (Some ''1'') = Inr (demo_moderators, demo_roles)" by code_simp
  moreover have "fresh_role (demo_seeded\<lparr>ps_bwroles := [demo_owners]\<rparr>) ''rm''"
    by (simp add: fresh_role_def demo_seeded_def demo_owners_def demo_role_def)
  ultimately have "perm_reachable ''1, 2'' demo_roles" using r1 reach_role role_step.create_bot by metis
  then show ?thesis using demo_assign reach_role role_step.assign_bot by metis
qed

theorem holders_are_granted_witness:
  "\<forall>u. userHasAnyGrant (ps_engine demo_mods) (ps_grants demo_mods) u ''rm'' None \<longleftrightarrow> u = ''7''"
proof -
  let ?r = "demo_moderators\<lparr>br_assignedUserIds := [''7''], br_updatedAt := 11\<rparr>"
  have r: "?r \<in> set (ps_bwroles demo_mods)" "br_id ?r = ''rm''" "br_assignedUserIds ?r = [''7'']"
    by (simp_all add: demo_mods_def demo_moderators_def demo_role_def)
  from holders_are_granted [OF demo_mods_reachable] r(1)
  have "\<forall>u. u \<in> set (br_assignedUserIds ?r) \<longleftrightarrow> userHasAnyGrant (ps_engine demo_mods) (ps_grants demo_mods) u (br_id ?r) None"
    by blast
  then show ?thesis unfolding r(2,3) by simp
qed

definition demo_kick :: PermState where
  "demo_kick = demo_mods\<lparr>ps_bwroles := ps_bwroles demo_mods @ [demo_role ''rk'' [''bot.members.kick'']]\<rparr>"

theorem owners_only_by_env_owners_witness:
  "filter (\<lambda>r. OWNER_BIT \<in> set (br_bits r)) (ps_bwroles demo_kick) = [demo_owners] \<and>
   \<not> rp_botOwner (resolve ''1, 2'' 21 demo_kick ''7'' None None)"
proof -
  have "createBotRole ''1, 2'' 10 demo_mods ''rk'' (demo_role_input ''rk'' [''bot.members.kick'']) (Some ''7'') =
      Inr (demo_role ''rk'' [''bot.members.kick''], demo_kick)" by code_simp
  moreover have "fresh_role demo_mods ''rk''" by code_simp
  ultimately have st: "role_step ''1, 2'' (Some ''7'') demo_mods demo_kick" by (rule role_step.create_bot)
  have no: "\<not> isEnvBotOwner ''1, 2'' (Some ''7'')" by code_simp
  have "filter (\<lambda>r. OWNER_BIT \<in> set (br_bits r)) (ps_bwroles demo_mods) = [demo_owners]"
      "\<not> rp_botOwner (resolve ''1, 2'' 21 demo_mods ''7'' None None)" by code_simp+
  then show ?thesis using owners_only_by_env_owners [OF demo_mods_reachable st no] by metis
qed

theorem link_makes_owners_witness:
  "\<exists>doc db1. linkDiscordRole demo_mods ''l1'' 30 Link_bot None ''55'' ''ro'' ''7'' = Inr (doc, db1) \<and>
     rp_botOwner (resolve ''1, 2'' 31 (guildMemberUpdate True 30 db1 ''200'' ''7'' [''55'']) ''7'' None None)"
proof -
  have r: "getBotRole demo_mods ''ro'' = Some demo_owners" "OWNER_BIT \<in> set (br_bits demo_owners)"
    by code_simp+
  show ?thesis by (rule link_makes_owners [OF r]) (simp_all add: demo_mods_def demo_seeded_def)
qed

text \<open>The Discord role 77 of guild 100 brings the moderators' role, and 9 has it.\<close>

definition demo_link :: RoleLinkDoc where
  "demo_link = \<lparr>rl_id = ''l2'', rl_scope = Link_bot, rl_guildId = None, rl_discordRoleId = ''77'', rl_permRoleId = ''rm'',
     rl_createdAt = 30, rl_createdBy = ''1''\<rparr>"

definition demo_linked :: PermState where
  "demo_linked = demo_mods\<lparr>
     ps_bwroles := [demo_owners, demo_moderators\<lparr>br_assignedUserIds := [''7'', ''9''], br_updatedAt := 31\<rparr>],
     ps_grants := [demo_grant ''7'' Direct None 11, demo_grant ''9'' Discord_role (Some ''77'') 31],
     ps_links := [demo_link]\<rparr>"

lemma demo_linked_reachable: "perm_reachable ''1, 2'' demo_linked"
proof -
  have "linkDiscordRole demo_mods ''l2'' 30 Link_bot None ''77'' ''rm'' ''1'' = Inr (demo_link, demo_mods\<lparr>ps_links := [demo_link]\<rparr>)"
    by code_simp
  then have "link_step demo_mods (demo_mods\<lparr>ps_links := [demo_link]\<rparr>)" by (rule link_step.link)
  moreover have "demo_linked = applyDiscordGrant 31 (demo_mods\<lparr>ps_links := [demo_link]\<rparr>) Link_bot None ''rm'' ''9'' ''77''"
    by code_simp
  then have "link_step (demo_mods\<lparr>ps_links := [demo_link]\<rparr>) demo_linked"
    by (rule link_step.apply_grant) simp
  ultimately show ?thesis using demo_mods_reachable reach_link by metis
qed

theorem update_elsewhere_revokes_witness:
  "rp_bits (resolve ''1, 2'' 32 demo_linked ''9'' None None) = [''bot.members.ban'', ''bot.members.kick''] \<and>
   ''9'' \<notin> set (br_assignedUserIds (the (getBotRole (guildMemberUpdate True 32 demo_linked ''200'' ''9'' [''88'']) ''rm'')))"
proof
  show "rp_bits (resolve ''1, 2'' 32 demo_linked ''9'' None None) = [''bot.members.ban'', ''bot.members.kick'']" by code_simp
  have links: "ps_links demo_linked = [demo_link]" by (simp add: demo_linked_def)
  have gs: "\<forall>x \<in> set (ps_grants demo_linked). gr_userId x = ''9'' \<longrightarrow>
      gr_source x = Discord_role \<and> gr_discordRoleId x = stored_key (ps_engine demo_linked) (Some ''77'')"
    by (simp add: demo_linked_def demo_mods_def demo_seeded_def demo_grant_def)
  have "getBotRole (guildMemberUpdate True 32 demo_linked ''200'' ''9'' [''88'']) ''rm'' \<noteq> None" by code_simp
  then obtain r where r: "getBotRole (guildMemberUpdate True 32 demo_linked ''200'' ''9'' [''88'']) ''rm'' = Some r" by blast
  have "''9'' \<notin> set (br_assignedUserIds r)"
    by (rule update_elsewhere_revokes [OF demo_linked_reachable _ _ _ _ _ _ _ _ _ r, where link = demo_link and d = "''77''"])
      (use links gs in \<open>simp_all add: grants_of_def demo_link_def\<close>)
  then show "''9'' \<notin> set (br_assignedUserIds (the (getBotRole (guildMemberUpdate True 32 demo_linked ''200'' ''9'' [''88'']) ''rm'')))"
    using r by simp
qed

theorem server_role_with_bits_refused_witness:
  "\<exists>e. createServerRole ''1, 2'' 40 demo_mods ''rs'' ''100'' (demo_role_input ''viewers'' [''server.logs.view'']) (Some ''8'') = Inl e"
proof -
  have "''8'' \<notin> set (envOwnerIds ''1, 2'')" "bot_role_bits demo_mods ''8'' = []" "server_role_bits demo_mods ''8'' ''100'' = []"
    by code_simp+
  moreover have "ci_bits (demo_role_input ''viewers'' [''server.logs.view'']) \<noteq> []" by (simp add: demo_role_input_def)
  ultimately show ?thesis using server_role_with_bits_refused by blast
qed

definition demo_server_role :: ServerRoleDoc where
  "demo_server_role = \<lparr>sr_id = ''rs'', sr_guildId = ''100'', sr_name = ''rs'', sr_color = [], sr_bits = [], sr_assignedUserIds = [''5''],
     sr_createdAt = 10, sr_createdBy = ''8'', sr_updatedAt = 10\<rparr>"

theorem server_update_trusts_request_witness:
  "\<exists>doc db' r. updateServerRole ''1, 2'' 41 (demo_mods\<lparr>ps_sroles := [demo_server_role]\<rparr>) ''100'' ''rs''
      \<lparr>pi_name = None, pi_color = None, pi_bits = Some [''server.protected''], pi_createdBy = Some ''2''\<rparr> None = Inr (doc, db') \<and>
      getServerRole db' ''100'' ''rs'' = Some r \<and> sr_bits r = [''server.protected''] \<and>
      sr_assignedUserIds r = sr_assignedUserIds demo_server_role"
proof -
  have a: "getServerRole (demo_mods\<lparr>ps_sroles := [demo_server_role]\<rparr>) ''100'' ''rs'' = Some demo_server_role"
    "''2'' \<in> set (envOwnerIds ''1, 2'')" "bitsExist (demo_mods\<lparr>ps_sroles := [demo_server_role]\<rparr>) [''server.protected'']"
    by code_simp+
  show ?thesis by (rule server_update_trusts_request [OF a(1) _ a(2)]) (use a(3) in simp_all)
qed

theorem assignment_is_immediate_witness:
  "hasAllBits (fst (cachedResolve ''1, 2'' 11000 demo_mods ''7'' (Some ''100'') None)) (br_bits demo_moderators)"
proof -
  have r: "getBotRole demo_roles ''rm'' = Some demo_moderators" by code_simp
  show ?thesis by (rule assignment_is_immediate [OF demo_assign r]) simp
qed

text \<open>The bits of 7 are cached, then taken out of the role.\<close>

definition demo_cached :: PermState where
  "demo_cached = demo_mods\<lparr>ps_cache := Some [(cacheId ''7'' None, (demo_resolved (br_bits demo_moderators), 312000))]\<rparr>"

theorem removed_bit_lingers_witness:
  "\<exists>doc db'. updateBotRole ''1, 2'' 13 demo_cached ''rm'' \<lparr>pi_name = None, pi_color = None, pi_bits = Some [], pi_createdBy = None\<rparr> (Some ''1'') =
      Inr (doc, db') \<and> hasBit (fst (cachedResolve ''1, 2'' 300000 db' ''7'' None None)) ''bot.members.ban'' \<and>
      br_bits doc = []"
proof -
  define db' where "db' = demo_cached\<lparr>ps_bwroles := [demo_owners, demo_moderators\<lparr>br_bits := [], br_assignedUserIds := [''7''], br_updatedAt := 13\<rparr>]\<rparr>"
  have run: "updateBotRole ''1, 2'' 13 demo_cached ''rm'' \<lparr>pi_name = None, pi_color = None, pi_bits = Some [], pi_createdBy = None\<rparr> (Some ''1'') =
      Inr (demo_moderators\<lparr>br_bits := [], br_assignedUserIds := [''7''], br_updatedAt := 13\<rparr>, db')"
    unfolding db'_def by code_simp
  have "perm_cache_get [(cacheId ''7'' None, (demo_resolved (br_bits demo_moderators), 312000))] 300000 (cacheId ''7'' None) =
      Some (demo_resolved (br_bits demo_moderators))" by (simp add: perm_cache_get_def jm_get_def)
  moreover have "''bot.members.ban'' \<in> set (rp_bits (demo_resolved (br_bits demo_moderators)))"
    by (simp add: demo_resolved_def demo_moderators_def demo_role_def)
  ultimately have "hasBit (fst (cachedResolve ''1, 2'' 300000 db' ''7'' None None)) ''bot.members.ban''"
    by (intro removed_bit_lingers [OF run]) (simp_all add: demo_cached_def)
  then show ?thesis using run by auto
qed

end
