(* ===== verification/PermAccess.thy ===== *)
theory PermAccess
  imports PermRoles
begin

text \<open>
  The access check before a command or a component runs: \<open>canExecute\<close>, \<open>checkPermissionLevel\<close> and the
  mirror of Discord permissions.  Discord's permission fields are a parameter, a test on lists of
  permission names; \<open>None\<close> for an answer of the database means that the call throws.
\<close>

subsection \<open>Mirrored Discord permissions\<close>

definition DEFAULT_DISCORD_TO_SERVER_BITS :: "(string, string) jsmap" where
  "DEFAULT_DISCORD_TO_SERVER_BITS =
    [(''BanMembers'', ''server.members.ban''), (''KickMembers'', ''server.members.kick''),
     (''ModerateMembers'', ''server.members.mute''), (''ManageNicknames'', ''server.members.nick''),
     (''ManageRoles'', ''server.roles.manage''), (''ManageGuild'', ''server.config.manage''),
     (''ViewAuditLog'', ''server.logs.view''), (''ManageMessages'', ''server.members.view'')]"

record GuildMirrorState =
  gm_guildId :: string
  gm_enabled :: bool
  gm_map :: "(string, string) jsmap"
  gm_updatedAt :: int
  gm_updatedBy :: "string option"

record mirror_row =
  mr_enabled :: bool
  mr_map :: "(string, string) jsmap option"
  mr_updatedAt :: int
  mr_updatedBy :: "string option"

definition merge_map :: "('k, 'v) jsmap \<Rightarrow> ('k, 'v) jsmap \<Rightarrow> ('k, 'v) jsmap" where
  "merge_map m new = foldl (\<lambda>m p. jm_set m (fst p) (snd p)) m new"

definition getGuildMirror :: "(string, mirror_row) jsmap \<Rightarrow> string \<Rightarrow> GuildMirrorState" where
  "getGuildMirror rows guildId =
     (case jm_get rows guildId of
        None \<Rightarrow> \<lparr>gm_guildId = guildId, gm_enabled = False, gm_map = DEFAULT_DISCORD_TO_SERVER_BITS, gm_updatedAt = 0,
                 gm_updatedBy = None\<rparr>
      | Some row \<Rightarrow> \<lparr>gm_guildId = guildId, gm_enabled = mr_enabled row,
          gm_map = (case mr_map row of None \<Rightarrow> DEFAULT_DISCORD_TO_SERVER_BITS
                    | Some m \<Rightarrow> merge_map DEFAULT_DISCORD_TO_SERVER_BITS m),
          gm_updatedAt = mr_updatedAt row, gm_updatedBy = mr_updatedBy row\<rparr>)"

definition setGuildMirror ::
  "(string, mirror_row) jsmap \<Rightarrow> int \<Rightarrow> string \<Rightarrow> bool \<Rightarrow> (string, string) jsmap option \<Rightarrow> string option
   \<Rightarrow> GuildMirrorState \<times> (string, mirror_row) jsmap" where
  "setGuildMirror rows now guildId enabled m updatedBy =
     (let rows' = jm_set rows guildId \<lparr>mr_enabled = enabled, mr_map = m, mr_updatedAt = now, mr_updatedBy = updatedBy\<rparr>
      in (getGuildMirror rows' guildId, rows'))"

text \<open>\<open>known\<close> tells the names Discord has a flag for.\<close>

definition mirrorDiscordPermissionsToBits ::
  "(string \<Rightarrow> bool) \<Rightarrow> (string list \<Rightarrow> bool) \<Rightarrow> (string, string) jsmap \<Rightarrow> string list" where
  "mirrorDiscordPermissionsToBits known perms m =
     js_uniq (map snd (filter (\<lambda>p. known (fst p) \<and> perms [fst p]) m))"

definition applyDiscordMirrorBits ::
  "(string \<Rightarrow> bool) \<Rightarrow> GuildMirrorState \<Rightarrow> string list \<Rightarrow> (string list \<Rightarrow> bool) \<Rightarrow> string list" where
  "applyDiscordMirrorBits known state bits perms =
     (if gm_enabled state then js_uniq (bits @ mirrorDiscordPermissionsToBits known perms (gm_map state)) else bits)"

subsection \<open>Requests and rules\<close>

record Interaction =
  in_userId :: string
  in_guildId :: "string option"
  in_guildOwnerId :: "string option"
  in_memberRoles :: "string list option"
  in_memberPermissions :: "(string list \<Rightarrow> bool) option"
  in_appPermissions :: "(string list \<Rightarrow> bool) option"

text \<open>A field of type \<open>string | string[]\<close>; the empty text is falsy, the empty list is not.\<close>

datatype bits_arg = One string | Many "string list"

datatype require_arg = Req_bits bits_arg | Req_fun "ResolvedPermissions \<Rightarrow> bool option"

record RouteAccessConfig =
  rc_permissionLevel :: "string option"
  rc_roleIds :: "string list"
  rc_userIds :: "string list"
  rc_userPermissions :: "string list"
  rc_clientPermissions :: "string list"
  rc_allowInDm :: "bool option"
  rc_denyMessage :: "string option"
  rc_devOnly :: bool
  rc_serverBit :: "bits_arg option"
  rc_require :: "require_arg option"
  rc_requireAll :: "string list"
  rc_requireAny :: "string list"
  rc_denyIf :: "bits_arg option"
  rc_denyIfAny :: "bits_arg option"

record PermissionLevelConfig =
  lc_roleIds :: "string list"
  lc_userIds :: "string list"
  lc_discordPermissions :: "string list"
  lc_denyMessage :: "string option"

record PermissionsConfigShape =
  pc_enabled :: bool
  pc_defaultLevel :: "string option"
  pc_levels :: "(string, PermissionLevelConfig) jsmap"

record PermissionCheckResult =
  cr_allowed :: bool
  cr_reason :: string
  cr_ephemeral :: bool

definition allow :: PermissionCheckResult where
  "allow = \<lparr>cr_allowed = True, cr_reason = [], cr_ephemeral = False\<rparr>"

definition deny :: "string \<Rightarrow> PermissionCheckResult" where
  "deny reason = \<lparr>cr_allowed = False, cr_reason = reason, cr_ephemeral = True\<rparr>"

definition arg_bits :: "bits_arg option \<Rightarrow> string list option" where
  "arg_bits a = (case a of None \<Rightarrow> None | Some (One s) \<Rightarrow> if s = [] then None else Some [s] | Some (Many bs) \<Rightarrow> Some bs)"

definition has_role :: "string list option \<Rightarrow> string list \<Rightarrow> bool" where
  "has_role member wanted = (case member of None \<Rightarrow> True | Some roles \<Rightarrow> list_ex (\<lambda>r. r \<in> set roles) wanted)"

definition has_perms :: "(string list \<Rightarrow> bool) option \<Rightarrow> string list \<Rightarrow> bool" where
  "has_perms perms wanted = (case perms of None \<Rightarrow> True | Some f \<Rightarrow> f wanted)"

subsection \<open>Named levels\<close>

definition checkPermissionLevel ::
  "PermissionsConfigShape option \<Rightarrow> string \<Rightarrow> Interaction \<Rightarrow> PermissionCheckResult" where
  "checkPermissionLevel cfg levelName i =
     (case cfg of
        None \<Rightarrow> allow
      | Some c \<Rightarrow>
          if \<not> pc_enabled c then allow
          else (case jm_get (pc_levels c) levelName of
             None \<Rightarrow>
               if levelName = ''public'' \<or> levelName = or_else (pc_defaultLevel c) ''public'' then allow
               else deny (''Permission level \"'' @ levelName @ ''\" is not configured.'')
           | Some level \<Rightarrow>
               let denyMsg = or_else (lc_denyMessage level) (''You do not have the \"'' @ levelName @ ''\" permission level.'') in
               if lc_roleIds level \<noteq> [] \<and> truthy (in_guildId i) \<and> \<not> has_role (in_memberRoles i) (lc_roleIds level) then deny denyMsg
               else if lc_discordPermissions level \<noteq> [] \<and> truthy (in_guildId i) \<and>
                       \<not> has_perms (in_memberPermissions i) (lc_discordPermissions level) then deny denyMsg
               else allow))"

subsection \<open>The check\<close>

definition require_passed :: "ResolvedPermissions \<Rightarrow> require_arg option \<Rightarrow> bool option" where
  "require_passed rp req =
     (case req of
        None \<Rightarrow> Some True
      | Some (Req_fun f) \<Rightarrow> f rp
      | Some (Req_bits a) \<Rightarrow> (case arg_bits (Some a) of None \<Rightarrow> Some True | Some bs \<Rightarrow> Some (set bs \<subseteq> set (rp_bits rp))))"

definition internal_error :: PermissionCheckResult where
  "internal_error = deny ''An internal permission error occurred.''"

definition canExecute ::
  "PermissionsConfigShape option \<Rightarrow> (string \<Rightarrow> bool) \<Rightarrow> ResolvedPermissions option \<Rightarrow> GuildMirrorState option \<Rightarrow> Interaction
   \<Rightarrow> RouteAccessConfig option \<Rightarrow> PermissionCheckResult" where
  "canExecute cfg known lookup mirror i acc =
     (case acc of
        None \<Rightarrow> allow
      | Some a \<Rightarrow>
      (case lookup of
         None \<Rightarrow> internal_error
       | Some resolved0 \<Rightarrow>
         let inGuild = truthy (in_guildId i);
             mirrors = inGuild \<and> in_memberPermissions i \<noteq> None in
         if mirrors \<and> mirror = None then internal_error
         else
         let resolved = (if mirrors
               then resolved0\<lparr>rp_bits := applyDiscordMirrorBits known (the mirror) (rp_bits resolved0) (the (in_memberPermissions i))\<rparr>
               else resolved0);
             denyMsg = or_else (rc_denyMessage a) ''You do not have permission to do this.'';
             needsGuild = (rc_roleIds a \<noteq> [] \<or> rc_userPermissions a \<noteq> [] \<or> rc_clientPermissions a \<noteq> [] \<or>
                           arg_bits (rc_serverBit a) \<noteq> None);
             holds = (\<lambda>bs. set bs \<subseteq> set (rp_bits resolved));
             level = (case rc_permissionLevel a of None \<Rightarrow> allow
                      | Some l \<Rightarrow> if l = [] then allow else checkPermissionLevel cfg l i)
         in if rp_botOwner resolved then allow
            else if rc_devOnly a then deny denyMsg
            else if rc_userIds a \<noteq> [] \<and> in_userId i \<notin> set (rc_userIds a) then deny denyMsg
            else if \<not> inGuild \<and> \<not> or_else (rc_allowInDm a) (\<not> needsGuild)
            then deny (or_else (rc_denyMessage a) ''This action is not available in DMs.'')
            else if inGuild \<and> rc_roleIds a \<noteq> [] \<and> \<not> has_role (in_memberRoles i) (rc_roleIds a) then deny denyMsg
            else if inGuild \<and> rc_userPermissions a \<noteq> [] \<and> \<not> has_perms (in_memberPermissions i) (rc_userPermissions a) then deny denyMsg
            else if inGuild \<and> rc_clientPermissions a \<noteq> [] \<and> \<not> has_perms (in_appPermissions i) (rc_clientPermissions a)
            then deny ''I lack the required permissions to execute this action.''
            else if \<not> cr_allowed level then level
            else if (case arg_bits (rc_serverBit a) of None \<Rightarrow> False | Some bs \<Rightarrow> \<not> holds bs) then deny denyMsg
            else if (case arg_bits (rc_denyIf a) of None \<Rightarrow> False | Some bs \<Rightarrow> bs \<noteq> [] \<and> holds bs) then deny denyMsg
            else if (case arg_bits (rc_denyIfAny a) of None \<Rightarrow> False
                     | Some bs \<Rightarrow> list_ex (\<lambda>b. b \<in> set (rp_bits resolved)) bs) then deny denyMsg
            else (case require_passed resolved (rc_require a) of
               None \<Rightarrow> internal_error
             | Some False \<Rightarrow> deny denyMsg
             | Some True \<Rightarrow>
                 if rc_requireAll a \<noteq> [] \<and> \<not> holds (rc_requireAll a) then deny denyMsg
                 else if rc_requireAny a \<noteq> [] \<and> \<not> list_ex (\<lambda>b. b \<in> set (rp_bits resolved)) (rc_requireAny a) then deny denyMsg
                 else allow)))"

text \<open>The call as the program makes it, with the cache in between.\<close>

definition check_access ::
  "string \<Rightarrow> int \<Rightarrow> PermState \<Rightarrow> (string, mirror_row) jsmap \<Rightarrow> PermissionsConfigShape option \<Rightarrow> (string \<Rightarrow> bool) \<Rightarrow> Interaction
   \<Rightarrow> RouteAccessConfig option \<Rightarrow> PermissionCheckResult" where
  "check_access raw nowMs db mirrors cfg known i acc =
     canExecute cfg known (Some (fst (cachedResolve raw nowMs db (in_userId i) (in_guildId i) (in_guildOwnerId i))))
       (Some (getGuildMirror mirrors (or_else (in_guildId i) []))) i acc"

subsection \<open>What the check means\<close>

lemma allow_deny [simp]: "cr_allowed allow" "\<not> cr_allowed (deny r)" "\<not> cr_allowed internal_error"
  by (simp_all add: allow_def deny_def internal_error_def)

lemma allowed_branches:
  "cr_allowed (if b then deny r else X) \<longleftrightarrow> \<not> b \<and> cr_allowed X"
  "cr_allowed (if \<not> cr_allowed l then l else X) \<longleftrightarrow> cr_allowed l \<and> cr_allowed X"
  "cr_allowed (if b then allow else X) \<longleftrightarrow> b \<or> cr_allowed X"
  "cr_allowed (if b then internal_error else X) \<longleftrightarrow> \<not> b \<and> cr_allowed X"
  "cr_allowed (case q of None \<Rightarrow> internal_error | Some False \<Rightarrow> deny r | Some True \<Rightarrow> X) \<longleftrightarrow> q = Some True \<and> cr_allowed X"
  by (simp_all split: option.split bool.split)

lemma list_ex_meets: "list_ex (\<lambda>b. b \<in> set xs) bs \<longleftrightarrow> set bs \<inter> set xs \<noteq> {}"
  by (auto simp: list_ex_iff)

text \<open>
  C24. With a rule, a request passes only if its bits could be looked up, and then either it comes from an
  owner of the bot or every part of the rule holds: no developer-only rule, the users listed, the guild and
  its roles, Discord's permissions of the user and of the client, the named level, the server bits, the
  requirement in each of its forms (one bit, a list, a function of the resolved bits), the bits of
  \<open>requireAll\<close>, one of \<open>requireAny\<close>, none of \<open>denyIfAny\<close> and not all of \<open>denyIf\<close>.  Roles and Discord's permissions
  are looked at only in a guild, and pass when Discord sent none (\<open>has_role\<close>, \<open>has_perms\<close>).
\<close>

theorem canExecute_sound:
  assumes "cr_allowed (canExecute cfg known lookup mirror i (Some a))"
  shows "\<exists>rp. lookup = Some rp \<and> (rp_botOwner rp \<or>
    (let bits = (if truthy (in_guildId i) \<and> in_memberPermissions i \<noteq> None
           then applyDiscordMirrorBits known (the mirror) (rp_bits rp) (the (in_memberPermissions i)) else rp_bits rp);
         held = set bits in
     \<not> rc_devOnly a \<and>
     (rc_userIds a = [] \<or> in_userId i \<in> set (rc_userIds a)) \<and>
     (truthy (in_guildId i) \<or> rc_allowInDm a = Some True \<or>
        rc_allowInDm a = None \<and> rc_roleIds a = [] \<and> rc_userPermissions a = [] \<and> rc_clientPermissions a = [] \<and> arg_bits (rc_serverBit a) = None) \<and>
     (truthy (in_guildId i) \<and> rc_roleIds a \<noteq> [] \<longrightarrow> has_role (in_memberRoles i) (rc_roleIds a)) \<and>
     (truthy (in_guildId i) \<and> rc_userPermissions a \<noteq> [] \<longrightarrow> has_perms (in_memberPermissions i) (rc_userPermissions a)) \<and>
     (truthy (in_guildId i) \<and> rc_clientPermissions a \<noteq> [] \<longrightarrow> has_perms (in_appPermissions i) (rc_clientPermissions a)) \<and>
     (\<forall>l. rc_permissionLevel a = Some l \<and> l \<noteq> [] \<longrightarrow> cr_allowed (checkPermissionLevel cfg l i)) \<and>
     (\<forall>bs. arg_bits (rc_serverBit a) = Some bs \<longrightarrow> set bs \<subseteq> held) \<and>
     (\<forall>b. rc_require a = Some (Req_bits (One b)) \<and> b \<noteq> [] \<longrightarrow> b \<in> held) \<and>
     (\<forall>bs. rc_require a = Some (Req_bits (Many bs)) \<longrightarrow> set bs \<subseteq> held) \<and>
     (\<forall>f. rc_require a = Some (Req_fun f) \<longrightarrow> f (rp\<lparr>rp_bits := bits\<rparr>) = Some True) \<and>
     set (rc_requireAll a) \<subseteq> held \<and>
     (rc_requireAny a \<noteq> [] \<longrightarrow> set (rc_requireAny a) \<inter> held \<noteq> {}) \<and>
     (\<forall>bs. arg_bits (rc_denyIfAny a) = Some bs \<longrightarrow> set bs \<inter> held = {}) \<and>
     (\<forall>bs. arg_bits (rc_denyIf a) = Some bs \<and> bs \<noteq> [] \<longrightarrow> \<not> set bs \<subseteq> held)))"
proof -
  obtain rp where rp: "lookup = Some rp" using assms by (cases lookup) (simp_all add: canExecute_def)
  show ?thesis
  proof (cases "rp_botOwner rp")
    case True
    then show ?thesis using rp by simp
  next
    case False
    let ?mirrors = "truthy (in_guildId i) \<and> in_memberPermissions i \<noteq> None"
    define resolved where "resolved = (if ?mirrors
      then rp\<lparr>rp_bits := applyDiscordMirrorBits known (the mirror) (rp_bits rp) (the (in_memberPermissions i))\<rparr> else rp)"
    have no: "\<not> rp_botOwner resolved" using False by (simp add: resolved_def)
    have held: "rp_bits resolved = (if ?mirrors then applyDiscordMirrorBits known (the mirror) (rp_bits rp) (the (in_memberPermissions i))
        else rp_bits rp)"
      by (auto simp: resolved_def)
    note run = assms [unfolded canExecute_def option.case rp Let_def, folded resolved_def, unfolded allowed_branches]
    have dev: "\<not> rc_devOnly a"
      and users: "rc_userIds a = [] \<or> in_userId i \<in> set (rc_userIds a)"
      and dm0: "truthy (in_guildId i) \<or> or_else (rc_allowInDm a) (\<not> (rc_roleIds a \<noteq> [] \<or> rc_userPermissions a \<noteq> [] \<or> rc_clientPermissions a \<noteq> [] \<or>
             arg_bits (rc_serverBit a) \<noteq> None))"
      and roles: "truthy (in_guildId i) \<and> rc_roleIds a \<noteq> [] \<longrightarrow> has_role (in_memberRoles i) (rc_roleIds a)"
      and uperm: "truthy (in_guildId i) \<and> rc_userPermissions a \<noteq> [] \<longrightarrow> has_perms (in_memberPermissions i) (rc_userPermissions a)"
      and cperm: "truthy (in_guildId i) \<and> rc_clientPermissions a \<noteq> [] \<longrightarrow> has_perms (in_appPermissions i) (rc_clientPermissions a)"
      and level0: "cr_allowed (case rc_permissionLevel a of None \<Rightarrow> allow | Some l \<Rightarrow> if l = [] then allow else checkPermissionLevel cfg l i)"
      and serverBit0: "\<not> (case arg_bits (rc_serverBit a) of None \<Rightarrow> False | Some bs \<Rightarrow> \<not> set bs \<subseteq> set (rp_bits resolved))"
      and denyIf0: "\<not> (case arg_bits (rc_denyIf a) of None \<Rightarrow> False | Some bs \<Rightarrow> bs \<noteq> [] \<and> set bs \<subseteq> set (rp_bits resolved))"
      and denyIfAny0: "\<not> (case arg_bits (rc_denyIfAny a) of None \<Rightarrow> False | Some bs \<Rightarrow> list_ex (\<lambda>b. b \<in> set (rp_bits resolved)) bs)"
      and req0: "require_passed resolved (rc_require a) = Some True"
      and all0: "rc_requireAll a = [] \<or> set (rc_requireAll a) \<subseteq> set (rp_bits resolved)"
      and any0: "rc_requireAny a = [] \<or> list_ex (\<lambda>b. b \<in> set (rp_bits resolved)) (rc_requireAny a)"
      using run no by blast+
    have dm: "truthy (in_guildId i) \<or> rc_allowInDm a = Some True \<or>
        rc_allowInDm a = None \<and> rc_roleIds a = [] \<and> rc_userPermissions a = [] \<and> rc_clientPermissions a = [] \<and> arg_bits (rc_serverBit a) = None"
      using dm0 by (cases "rc_allowInDm a") (auto simp: or_else_def)
    have level: "\<forall>l. rc_permissionLevel a = Some l \<and> l \<noteq> [] \<longrightarrow> cr_allowed (checkPermissionLevel cfg l i)"
      using level0 by auto
    have res: "rp\<lparr>rp_bits := rp_bits resolved\<rparr> = resolved" by (simp add: resolved_def)
    have bits: "\<forall>bs. arg_bits (rc_serverBit a) = Some bs \<longrightarrow> set bs \<subseteq> set (rp_bits resolved)"
        "\<forall>b. rc_require a = Some (Req_bits (One b)) \<and> b \<noteq> [] \<longrightarrow> b \<in> set (rp_bits resolved)"
        "\<forall>f. rc_require a = Some (Req_fun f) \<longrightarrow> f (rp\<lparr>rp_bits := rp_bits resolved\<rparr>) = Some True"
        "\<forall>bs. rc_require a = Some (Req_bits (Many bs)) \<longrightarrow> set bs \<subseteq> set (rp_bits resolved)"
        "set (rc_requireAll a) \<subseteq> set (rp_bits resolved)"
        "rc_requireAny a \<noteq> [] \<longrightarrow> set (rc_requireAny a) \<inter> set (rp_bits resolved) \<noteq> {}"
      unfolding res using serverBit0 req0 all0 any0 by (auto simp: require_passed_def arg_bits_def list_ex_iff)
    have denied: "\<forall>bs. arg_bits (rc_denyIfAny a) = Some bs \<longrightarrow> set bs \<inter> set (rp_bits resolved) = {}"
        "\<forall>bs. arg_bits (rc_denyIf a) = Some bs \<and> bs \<noteq> [] \<longrightarrow> \<not> set bs \<subseteq> set (rp_bits resolved)"
      using denyIfAny0 denyIf0 by (auto simp: list_ex_iff)
    show ?thesis
      by (rule exI [of _ rp], unfold Let_def held [symmetric], rule conjI [OF rp], rule disjI2, intro conjI)
        (fact dev users dm roles uperm cperm level bits denied)+
  qed
qed

definition no_rule :: RouteAccessConfig where
  "no_rule = \<lparr>rc_permissionLevel = None, rc_roleIds = [], rc_userIds = [], rc_userPermissions = [], rc_clientPermissions = [],
     rc_allowInDm = None, rc_denyMessage = None, rc_devOnly = False, rc_serverBit = None, rc_require = None, rc_requireAll = [],
     rc_requireAny = [], rc_denyIf = None, rc_denyIfAny = None\<rparr>"

definition demo_interaction :: Interaction where
  "demo_interaction = \<lparr>in_userId = ''7'', in_guildId = Some ''100'', in_guildOwnerId = Some ''8'', in_memberRoles = Some [''r1''],
     in_memberPermissions = Some (\<lambda>ps. ps = [''BanMembers'']), in_appPermissions = None\<rparr>"

theorem canExecute_sound_witness:
  "let mirror = getGuildMirror [(''100'', \<lparr>mr_enabled = True, mr_map = None, mr_updatedAt = 5, mr_updatedBy = None\<rparr>)] ''100'';
       rule = no_rule\<lparr>rc_roleIds := [''r1'', ''r2''], rc_requireAll := [''server.members.ban'', ''plugin.x'']\<rparr> in
   set (rc_requireAll rule) \<subseteq> set (applyDiscordMirrorBits (\<lambda>_. True) mirror [''plugin.x''] (the (in_memberPermissions demo_interaction)))"
proof -
  define mirror where "mirror = getGuildMirror [(''100'', \<lparr>mr_enabled = True, mr_map = None, mr_updatedAt = 5, mr_updatedBy = None\<rparr>)] ''100''"
  define rule where "rule = no_rule\<lparr>rc_roleIds := [''r1'', ''r2''], rc_requireAll := [''server.members.ban'', ''plugin.x'']\<rparr>"
  have "cr_allowed (canExecute None (\<lambda>_. True) (Some (demo_resolved [''plugin.x''])) (Some mirror) demo_interaction (Some rule))"
    unfolding mirror_def rule_def by code_simp
  from canExecute_sound [OF this]
  have "set (rc_requireAll rule) \<subseteq> set (applyDiscordMirrorBits (\<lambda>_. True) mirror [''plugin.x''] (the (in_memberPermissions demo_interaction)))"
    by (simp add: demo_resolved_def Let_def demo_interaction_def truthy_def)
  then show ?thesis by (simp add: mirror_def rule_def Let_def)
qed

text \<open>
  \<open>denyIf\<close> is not what its documentation says.  A rule with only \<open>denyIf\<close> turns away those who hold all
  of its bits, \<open>denyIfAny\<close> those who hold any: a user with one of two \<open>denyIf\<close> bits passes.
\<close>

theorem denyIf_needs_all:
  assumes "\<not> rp_botOwner rp" "in_memberPermissions i = None" "bs \<noteq> []"
  shows "(cr_allowed (canExecute cfg known (Some rp) mirror i (Some (no_rule\<lparr>rc_denyIf := Some (Many bs)\<rparr>))) \<longleftrightarrow> \<not> set bs \<subseteq> set (rp_bits rp)) \<and>
    (cr_allowed (canExecute cfg known (Some rp) mirror i (Some (no_rule\<lparr>rc_denyIfAny := Some (Many bs)\<rparr>))) \<longleftrightarrow> set bs \<inter> set (rp_bits rp) = {})"
  using assms by (auto simp: canExecute_def no_rule_def Let_def arg_bits_def or_else_def require_passed_def list_ex_meets)

theorem denyIf_needs_all_witness:
  "cr_allowed (canExecute None (\<lambda>_. True) (Some (demo_resolved [''a''])) None (demo_interaction\<lparr>in_memberPermissions := None\<rparr>)
     (Some (no_rule\<lparr>rc_denyIf := Some (Many [''a'', ''b''])\<rparr>))) \<and>
   \<not> cr_allowed (canExecute None (\<lambda>_. True) (Some (demo_resolved [''a''])) None (demo_interaction\<lparr>in_memberPermissions := None\<rparr>)
     (Some (no_rule\<lparr>rc_denyIfAny := Some (Many [''a'', ''b''])\<rparr>)))"
  using denyIf_needs_all [of "demo_resolved [''a'']" "demo_interaction\<lparr>in_memberPermissions := None\<rparr>" "[''a'', ''b'']"]
  by (simp add: demo_resolved_def)

text \<open>
  A named level protects nothing outside a guild: its roles and Discord permissions are looked at only
  in a guild, and a rule with only a level admits requests from direct messages, so whoever is not in a
  guild passes every configured level.
\<close>

theorem level_open_outside_guilds:
  assumes "\<not> truthy (in_guildId i)" "jm_get (pc_levels c) name = Some level"
  shows "canExecute (Some c) known (Some rp) mirror i (Some (no_rule\<lparr>rc_permissionLevel := Some name\<rparr>)) = allow"
  using assms by (simp add: canExecute_def no_rule_def Let_def arg_bits_def or_else_def require_passed_def checkPermissionLevel_def)

theorem level_open_outside_guilds_witness:
  "let c = \<lparr>pc_enabled = True, pc_defaultLevel = None, pc_levels = [(''admin'', \<lparr>lc_roleIds = [''999''], lc_userIds = [''1''],
         lc_discordPermissions = [''Administrator''], lc_denyMessage = None\<rparr>)]\<rparr>;
       rule = Some (no_rule\<lparr>rc_permissionLevel := Some ''admin''\<rparr>) in
   canExecute (Some c) (\<lambda>_. True) (Some (demo_resolved [])) None (demo_interaction\<lparr>in_guildId := None\<rparr>) rule = allow \<and>
   \<not> cr_allowed (canExecute (Some c) (\<lambda>_. True) (Some (demo_resolved [])) None (demo_interaction\<lparr>in_memberPermissions := None\<rparr>) rule)"
proof -
  define c where "c = \<lparr>pc_enabled = True, pc_defaultLevel = None, pc_levels = [(''admin'', \<lparr>lc_roleIds = [''999''], lc_userIds = [''1''],
         lc_discordPermissions = [''Administrator''], lc_denyMessage = None\<rparr>)]\<rparr>"
  have "canExecute (Some c) (\<lambda>_. True) (Some (demo_resolved [])) None (demo_interaction\<lparr>in_guildId := None\<rparr>)
      (Some (no_rule\<lparr>rc_permissionLevel := Some ''admin''\<rparr>)) = allow"
    by (rule level_open_outside_guilds) (simp_all add: truthy_def c_def jm_get_def)
  moreover have "\<not> cr_allowed (canExecute (Some c) (\<lambda>_. True) (Some (demo_resolved [])) None (demo_interaction\<lparr>in_memberPermissions := None\<rparr>)
      (Some (no_rule\<lparr>rc_permissionLevel := Some ''admin''\<rparr>)))"
    unfolding c_def by code_simp
  ultimately show ?thesis by (simp add: Let_def c_def)
qed

end
