(* ===== verification/JsJson.thy ===== *)
theory JsJson
  imports JsString
begin

text \<open>
  Values of JSON, as \<open>JSON.parse\<close> returns them: numbers are integers, an object is the list of its
  properties in insertion order, each name once.  Reading a property that is absent is \<open>None\<close>, which
  stands for \<open>undefined\<close>.
\<close>

datatype jval = JNull | JBool bool | JNum int | JStr string | JArr "jval list"
  | JObj "(string \<times> jval) list"

text \<open>Reading a property of a parsed value: \<open>None\<close> is \<open>undefined\<close>.\<close>

fun jfield :: "jval \<Rightarrow> string \<Rightarrow> jval option" where
  "jfield (JObj kvs) k = map_of kvs k"
| "jfield _ k = None"

fun is_jstr :: "jval \<Rightarrow> bool" where
  "is_jstr (JStr s) = True"
| "is_jstr _ = False"

text \<open>
  Spreading a parsed value into an object gives its own properties; those of an array or a text are its
  indices.
\<close>

fun js_spread :: "jval \<Rightarrow> (string \<times> jval) list" where
  "js_spread (JObj kvs) = kvs"
| "js_spread (JArr xs) = map (\<lambda>i. (nat_to_str i, xs ! i)) [0..<length xs]"
| "js_spread (JStr s) = map (\<lambda>i. (nat_to_str i, JStr [s ! i])) [0..<length s]"
| "js_spread _ = []"

text \<open>Every object of a value has each name once.\<close>

fun jval_ok :: "jval \<Rightarrow> bool" where
  "jval_ok (JArr xs) = list_all jval_ok xs"
| "jval_ok (JObj kvs) = (distinct (map fst kvs) \<and> list_all (\<lambda>kv. jval_ok (snd kv)) kvs)"
| "jval_ok _ = True"

text \<open>\<open>String(x)\<close> of a value.\<close>

definition int_to_str :: "int \<Rightarrow> string" where
  "int_to_str n = (if n < 0 then CHR ''-'' # nat_to_str (nat (- n)) else nat_to_str (nat n))"

fun js_String :: "jval \<Rightarrow> string" where
  "js_String JNull = ''null''"
| "js_String (JBool b) = (if b then ''true'' else ''false'')"
| "js_String (JNum n) = int_to_str n"
| "js_String (JStr s) = s"
| "js_String (JArr xs) = js_join '','' (map (\<lambda>x. if x = JNull then [] else js_String x) xs)"
| "js_String (JObj kvs) = ''[object Object]''"

end
