(* ===== verification/TokenTypes.thy ===== *)
theory TokenTypes
  imports PermHierarchy JsJson
begin

text \<open>
  The data and the pure checks of \<open>src/core/manager/token.ts\<close>: the named bit sets, the payload of a
  token, the error codes with their HTTP status, the validation of snowflakes and of payloads parsed from
  JSON, the constant-time comparison of signatures, and the audit events.  Numbers are integers, error
  messages are left out.  Base64, JSON and HMAC-SHA256 belong to the platform: they are the fields of a
  record \<open>codec\<close>, whose documented laws are collected in \<open>codec_ok\<close>.
\<close>

subsection \<open>Bit sets\<close>

definition SERVER_READONLY :: "string list" where
  "SERVER_READONLY =
    [''server.config.view'', ''server.members.view'']"

definition SERVER_MANAGER :: "string list" where
  "SERVER_MANAGER =
    [''server.config.view'', ''server.config.manage'', ''server.members.view'',
     ''server.members.kick'', ''server.members.ban'', ''server.members.mute'',
     ''server.members.history'', ''server.members.notes'', ''server.members.nick'',
     ''server.members.role'', ''server.roles.manage'', ''server.lang.manage'',
     ''server.logs.view'', ''server.analytics.view'']"

definition BOT_READONLY :: "string list" where
  "BOT_READONLY =
    [''bot.servers.view'', ''bot.plugins.view'', ''bot.logs.view'']"

definition BOT_ADMIN :: "string list" where
  "BOT_ADMIN =
    [''bot.servers.view'', ''bot.servers.manage'', ''bot.servers.ban'', ''bot.members.view'',
     ''bot.members.kick'', ''bot.members.ban'', ''bot.members.mute'', ''bot.members.ban_global'',
     ''bot.members.nick'', ''bot.members.role'', ''bot.plugins.view'', ''bot.plugins.manage'',
     ''bot.plugins.reload'', ''bot.roles.manage'', ''bot.theme.manage'',
     ''bot.dash.pages.manage'', ''bot.logs.view'', ''bot.audit.view'', ''bot.audit.export'',
     ''bot.errors.view'', ''bot.errors.export'', ''bot.analytics.view'', ''bot.fleet.view'',
     ''bot.fleet.restart'', ''bot.shard.view'', ''bot.shard.shift'', ''bot.worker.restart'',
     ''bot.crosshost.view'', ''bot.crosshost.manage'', ''bot.cache.manage'',
     ''bot.config.reload'', ''bot.lang.reload'']"

definition BOT_FLEET_OPS :: "string list" where
  "BOT_FLEET_OPS =
    [''bot.fleet.view'', ''bot.fleet.restart'', ''bot.shard.view'', ''bot.shard.shift'',
     ''bot.worker.restart'', ''bot.crosshost.view'', ''bot.crosshost.manage'']"

definition SERVER_MODERATION :: "string list" where
  "SERVER_MODERATION =
    [''server.members.view'', ''server.members.kick'', ''server.members.ban'',
     ''server.members.mute'', ''server.members.nick'', ''server.members.role'',
     ''server.members.history'', ''server.members.notes'']"

definition BitSets :: "(string \<times> string list) list" where
  "BitSets =
    [(''SERVER_READONLY'', SERVER_READONLY), (''SERVER_MANAGER'', SERVER_MANAGER),
     (''BOT_READONLY'', BOT_READONLY), (''BOT_ADMIN'', BOT_ADMIN),
     (''BOT_FLEET_OPS'', BOT_FLEET_OPS), (''SERVER_MODERATION'', SERVER_MODERATION)]"

subsection \<open>Tokens\<close>

record token_payload =
  tp_userId :: string
  tp_iat :: int
  tp_exp :: int
  tp_jti :: string
  tp_deviceId :: string
  tp_deviceLabel :: "string option"
  tp_bits :: "jval list"
  tp_guildId :: "string option"
  tp_tokenVersion :: string
  tp_iss :: string
  tp_aud :: string

record verified_token =
  vt_payload :: token_payload
  vt_raw :: string

text \<open>\<open>JSON.stringify\<close> is applied to the payload as \<open>issue\<close> builds it, in that order of fields.\<close>

definition payload_json :: "token_payload \<Rightarrow> jval" where
  "payload_json p = JObj
    ([(''userId'', JStr (tp_userId p)), (''iat'', JNum (tp_iat p)), (''exp'', JNum (tp_exp p)),
      (''jti'', JStr (tp_jti p)), (''deviceId'', JStr (tp_deviceId p))]
     @ (case tp_deviceLabel p of None \<Rightarrow> [] | Some l \<Rightarrow> [(''deviceLabel'', JStr l)])
     @ [(''bits'', JArr (tp_bits p))]
     @ (case tp_guildId p of None \<Rightarrow> [] | Some g \<Rightarrow> [(''guildId'', JStr g)])
     @ [(''tokenVersion'', JStr (tp_tokenVersion p)), (''iss'', JStr (tp_iss p)),
        (''aud'', JStr (tp_aud p))])"

subsection \<open>Errors\<close>

datatype token_code = INVALID_FORMAT | INVALID_SIGNATURE | INVALID_SNOWFLAKE | INVALID_PERMISSION
  | INVALID_ISSUER | INVALID_AUDIENCE | TOKEN_EXPIRED | TOKEN_REVOKED | PERMISSION_DENIED

text \<open>
  What an operation can throw: a \<open>TokenError\<close>, the \<open>RangeError\<close> of \<open>timingSafeEqual\<close> on buffers
  of different length, the \<open>URIError\<close> of \<open>decodeURIComponent\<close>, or the configuration error of the
  constructor.
\<close>

datatype token_exn = TokenError token_code | RangeError | URIError | ConfigError

fun code_name :: "token_code \<Rightarrow> string" where
  "code_name INVALID_FORMAT = ''INVALID_FORMAT''"
| "code_name INVALID_SIGNATURE = ''INVALID_SIGNATURE''"
| "code_name INVALID_SNOWFLAKE = ''INVALID_SNOWFLAKE''"
| "code_name INVALID_PERMISSION = ''INVALID_PERMISSION''"
| "code_name INVALID_ISSUER = ''INVALID_ISSUER''"
| "code_name INVALID_AUDIENCE = ''INVALID_AUDIENCE''"
| "code_name TOKEN_EXPIRED = ''TOKEN_EXPIRED''"
| "code_name TOKEN_REVOKED = ''TOKEN_REVOKED''"
| "code_name PERMISSION_DENIED = ''PERMISSION_DENIED''"

fun TOKEN_HTTP_STATUS :: "token_code \<Rightarrow> nat" where
  "TOKEN_HTTP_STATUS INVALID_FORMAT = 400"
| "TOKEN_HTTP_STATUS INVALID_SIGNATURE = 401"
| "TOKEN_HTTP_STATUS INVALID_SNOWFLAKE = 400"
| "TOKEN_HTTP_STATUS INVALID_PERMISSION = 400"
| "TOKEN_HTTP_STATUS INVALID_ISSUER = 401"
| "TOKEN_HTTP_STATUS INVALID_AUDIENCE = 401"
| "TOKEN_HTTP_STATUS TOKEN_EXPIRED = 401"
| "TOKEN_HTTP_STATUS TOKEN_REVOKED = 401"
| "TOKEN_HTTP_STATUS PERMISSION_DENIED = 403"

text \<open>The \<open>code\<close> of the error object, as \<open>TokenError\<close> hands it to \<open>NovaError\<close>.\<close>

definition err_code :: "token_code \<Rightarrow> string" where
  "err_code c = ''TOKEN.'' @ code_name c"

subsection \<open>Checks\<close>

text \<open>\<open>/^\<backslash>d{17,19}$/\<close>\<close>

definition is_snowflake :: "string \<Rightarrow> bool" where
  "is_snowflake s = (list_all js_digit s \<and> 17 \<le> length s \<and> length s \<le> 19)"

definition validateSnowflake :: "string \<Rightarrow> token_exn + unit" where
  "validateSnowflake s = (if is_snowflake s then Inr () else Inl (TokenError INVALID_SNOWFLAKE))"

text \<open>\<open>/^\<backslash>d+:\<backslash>d+$/\<close>\<close>

definition is_version :: "string \<Rightarrow> bool" where
  "is_version s = (case js_span js_digit s of (a, r) \<Rightarrow>
     a \<noteq> [] \<and> (case r of [] \<Rightarrow> False | c # b \<Rightarrow> c = CHR '':'' \<and> js_all_digits b))"

text \<open>
  The fields of a payload in the order in which they are checked.  A label that is not a text is dropped:
  \<open>deviceLabel\<close> is the one field the code does not look at.
\<close>

definition str_field :: "jval \<Rightarrow> string \<Rightarrow> token_exn + string" where
  "str_field ob k = (case jfield ob k of Some (JStr s) \<Rightarrow> Inr s | _ \<Rightarrow> Inl (TokenError INVALID_FORMAT))"

definition num_field :: "jval \<Rightarrow> string \<Rightarrow> token_exn + int" where
  "num_field ob k = (case jfield ob k of Some (JNum n) \<Rightarrow> Inr n | _ \<Rightarrow> Inl (TokenError INVALID_FORMAT))"

definition arr_field :: "jval \<Rightarrow> string \<Rightarrow> token_exn + jval list" where
  "arr_field ob k = (case jfield ob k of Some (JArr a) \<Rightarrow> Inr a | _ \<Rightarrow> Inl (TokenError INVALID_FORMAT))"

definition opt_str_field :: "jval \<Rightarrow> string \<Rightarrow> token_exn + string option" where
  "opt_str_field ob k = (case jfield ob k of None \<Rightarrow> Inr None | Some (JStr s) \<Rightarrow> Inr (Some s)
     | _ \<Rightarrow> Inl (TokenError INVALID_FORMAT))"

definition loose_str_field :: "jval \<Rightarrow> string \<Rightarrow> string option" where
  "loose_str_field ob k = (case jfield ob k of Some (JStr s) \<Rightarrow> Some s | _ \<Rightarrow> None)"

definition res_bind :: "'e + 'a \<Rightarrow> ('a \<Rightarrow> 'e + 'b) \<Rightarrow> 'e + 'b" where
  "res_bind m f = (case m of Inl e \<Rightarrow> Inl e | Inr x \<Rightarrow> f x)"

definition MAX_TOKEN_SECONDS :: int where
  "MAX_TOKEN_SECONDS = 7 * 24 * 3600"

definition assertPayloadShape :: "jval \<Rightarrow> token_exn + token_payload" where
  "assertPayloadShape ob =
     res_bind (str_field ob ''userId'') (\<lambda>userId.
     res_bind (num_field ob ''iat'') (\<lambda>iat.
     res_bind (num_field ob ''exp'') (\<lambda>exp.
     res_bind (str_field ob ''jti'') (\<lambda>jti.
     res_bind (str_field ob ''deviceId'') (\<lambda>deviceId.
     res_bind (arr_field ob ''bits'') (\<lambda>bits.
     res_bind (opt_str_field ob ''guildId'') (\<lambda>guildId.
     res_bind (str_field ob ''tokenVersion'') (\<lambda>tokenVersion.
     res_bind (str_field ob ''iss'') (\<lambda>iss.
     res_bind (str_field ob ''aud'') (\<lambda>aud.
       if exp \<le> iat then Inl (TokenError INVALID_FORMAT)
       else if exp - iat > MAX_TOKEN_SECONDS then Inl (TokenError INVALID_FORMAT)
       else if \<not> is_version tokenVersion then Inl (TokenError INVALID_FORMAT)
       else Inr \<lparr>tp_userId = userId, tp_iat = iat, tp_exp = exp, tp_jti = jti,
         tp_deviceId = deviceId, tp_deviceLabel = loose_str_field ob ''deviceLabel'',
         tp_bits = bits, tp_guildId = guildId, tp_tokenVersion = tokenVersion,
         tp_iss = iss, tp_aud = aud\<rparr>))))))))))"

definition packVersion :: "nat \<Rightarrow> nat \<Rightarrow> string" where
  "packVersion g d = nat_to_str g @ '':'' @ nat_to_str d"

subsection \<open>Comparison of signatures\<close>

text \<open>
  The UTF-8 bytes of a text of code units below 256.  \<open>timingSafeEqual\<close> throws when its buffers differ in
  length.
\<close>

definition timingSafeEqual :: "nat list \<Rightarrow> nat list \<Rightarrow> token_exn + bool" where
  "timingSafeEqual a b = (if length a \<noteq> length b then Inl RangeError else Inr (a = b))"

definition SAFE_EQUAL_MIN_PAD :: nat where
  "SAFE_EQUAL_MIN_PAD = 64"

definition padEnd :: "nat \<Rightarrow> string \<Rightarrow> string" where
  "padEnd n s = s @ replicate (n - length s) (CHR 0x00)"

definition safeEqual :: "string \<Rightarrow> string \<Rightarrow> token_exn + bool" where
  "safeEqual a b =
    (let padLen = max (length a) (max (length b) SAFE_EQUAL_MIN_PAD)
     in case timingSafeEqual (utf8 (padEnd padLen a)) (utf8 (padEnd padLen b)) of
          Inl e \<Rightarrow> Inl e
        | Inr r \<Rightarrow> Inr (r \<and> length a = length b))"

subsection \<open>The platform's codecs\<close>

text \<open>
  \<open>hmac key data\<close> is the raw digest of HMAC-SHA256, \<open>b64\<close> and \<open>unb64\<close> convert to and from base64url
  (decoding never throws), \<open>stringify\<close> and \<open>parse\<close> are those of JSON.
\<close>

record codec =
  cd_hmac :: "string \<Rightarrow> string \<Rightarrow> string"
  cd_b64 :: "string \<Rightarrow> string"
  cd_unb64 :: "string \<Rightarrow> string"
  cd_stringify :: "jval \<Rightarrow> string"
  cd_parse :: "string \<Rightarrow> jval option"

definition ascii :: "string \<Rightarrow> bool" where
  "ascii s = list_all (\<lambda>c. (of_char c :: nat) < 128) s"

text \<open>
  What the token format relies on: decoding inverts encoding, encoded text is ASCII without a dot or white
  space, the encoding of decimal digits has no underscore (their sextets never reach 63), a digest is
  never empty, and parsing inverts printing on the payloads that \<open>issue\<close> prints.
\<close>

definition codec_ok :: "codec \<Rightarrow> bool" where
  "codec_ok C \<longleftrightarrow>
     (\<forall>s. cd_unb64 C (cd_b64 C s) = s) \<and>
     (\<forall>s. ascii (cd_b64 C s)) \<and>
     (\<forall>s. CHR ''.'' \<notin> set (cd_b64 C s)) \<and>
     (\<forall>s. list_all js_digit s \<longrightarrow> CHR ''_'' \<notin> set (cd_b64 C s)) \<and>
     (\<forall>k d. cd_b64 C (cd_hmac C k d) \<noteq> []) \<and>
     (\<forall>p. list_all is_jstr (tp_bits p) \<longrightarrow>
        cd_parse C (cd_stringify C (payload_json p)) = Some (payload_json p))"

subsection \<open>Facts\<close>

lemma res_bind_simps [simp]:
  "res_bind (Inl e) f = Inl e"
  "res_bind (Inr x) f = f x"
  by (simp_all add: res_bind_def)

lemma res_bind_Inr: "res_bind m f = Inr y \<longleftrightarrow> (\<exists>x. m = Inr x \<and> f x = Inr y)"
  by (cases m) simp_all

lemma validateSnowflake_Inr [simp]: "validateSnowflake s = Inr u \<longleftrightarrow> is_snowflake s"
  by (simp add: validateSnowflake_def)

lemma validateSnowflake_Inl [simp]:
  "validateSnowflake s = Inl e \<longleftrightarrow> \<not> is_snowflake s \<and> e = TokenError INVALID_SNOWFLAKE"
  by (auto simp: validateSnowflake_def)

lemma packVersion_inj [simp]: "packVersion g d = packVersion g' d' \<longleftrightarrow> g = g' \<and> d = d'"
proof
  assume eq: "packVersion g d = packVersion g' d'"
  have *: "takeWhile js_digit (nat_to_str n @ CHR '':'' # r) = nat_to_str n" for n r
    using nat_to_str_digits [of n]
    by (simp add: takeWhile_append2 list_all_iff js_digit_def)
  have "takeWhile js_digit (packVersion g d) = takeWhile js_digit (packVersion g' d')"
    by (simp add: eq)
  then have "g = g'" by (simp add: packVersion_def *)
  with eq show "g = g' \<and> d = d'" by (simp add: packVersion_def)
qed simp

lemma is_version_pack [simp]: "is_version (packVersion g d)"
proof -
  have *: "js_span js_digit (nat_to_str g @ CHR '':'' # nat_to_str d)
         = (nat_to_str g, CHR '':'' # nat_to_str d)"
    using nat_to_str_digits [of g]
    by (simp add: js_span_def takeWhile_append2 dropWhile_append2 list_all_iff js_digit_def)
  show ?thesis by (simp add: is_version_def packVersion_def *)
qed

lemma wide_ascii: "ascii s \<longleftrightarrow> wide s = 0"
  by (induction s) (auto simp: ascii_def wide_def)

lemma wide_padEnd [simp]: "wide (padEnd n s) = wide s"
  by (simp add: padEnd_def wide_def)

lemma length_padEnd [simp]: "length (padEnd n s) = max n (length s)"
  by (simp add: padEnd_def)

lemma padEnd_inj: "length a = length b \<Longrightarrow> padEnd n a = padEnd n b \<longleftrightarrow> a = b"
  by (simp add: padEnd_def)

lemma safeEqual_eq: "safeEqual a b = (if wide a = wide b then Inr (a = b) else Inl RangeError)"
  by (auto simp: safeEqual_def Let_def timingSafeEqual_def length_utf8 padEnd_inj)

lemma safeEqual_ascii:
  "ascii b \<Longrightarrow> safeEqual a b = (if ascii a then Inr (a = b) else Inl RangeError)"
  by (auto simp: safeEqual_eq wide_ascii)

lemma wide_le: "wide s \<le> length s"
  by (simp add: wide_def)

subsection \<open>Payloads\<close>

definition payload_ok :: "token_payload \<Rightarrow> bool" where
  "payload_ok p \<longleftrightarrow> tp_iat p < tp_exp p \<and> tp_exp p - tp_iat p \<le> MAX_TOKEN_SECONDS \<and>
     is_version (tp_tokenVersion p)"

lemmas field_defs = str_field_def num_field_def arr_field_def opt_str_field_def loose_str_field_def

lemma payload_fields:
  "jfield (payload_json p) ''userId'' = Some (JStr (tp_userId p))"
  "jfield (payload_json p) ''iat'' = Some (JNum (tp_iat p))"
  "jfield (payload_json p) ''exp'' = Some (JNum (tp_exp p))"
  "jfield (payload_json p) ''jti'' = Some (JStr (tp_jti p))"
  "jfield (payload_json p) ''deviceId'' = Some (JStr (tp_deviceId p))"
  "jfield (payload_json p) ''deviceLabel'' = map_option JStr (tp_deviceLabel p)"
  "jfield (payload_json p) ''bits'' = Some (JArr (tp_bits p))"
  "jfield (payload_json p) ''guildId'' = map_option JStr (tp_guildId p)"
  "jfield (payload_json p) ''tokenVersion'' = Some (JStr (tp_tokenVersion p))"
  "jfield (payload_json p) ''iss'' = Some (JStr (tp_iss p))"
  "jfield (payload_json p) ''aud'' = Some (JStr (tp_aud p))"
  by (simp_all add: payload_json_def split: option.split)

lemma assertPayloadShape_payload [simp]:
  "assertPayloadShape (payload_json p)
   = (if payload_ok p then Inr p else Inl (TokenError INVALID_FORMAT))"
proof -
  have "opt_str_field (payload_json p) ''guildId'' = Inr (tp_guildId p)"
    "loose_str_field (payload_json p) ''deviceLabel'' = tp_deviceLabel p"
    by (cases "tp_guildId p"; cases "tp_deviceLabel p";
        simp add: opt_str_field_def loose_str_field_def payload_fields)+
  then show ?thesis
    by (simp add: assertPayloadShape_def str_field_def num_field_def arr_field_def payload_fields
        payload_ok_def)
qed

lemma if_Inl_Inr: "(if b then Inl e else m) = Inr y \<longleftrightarrow> \<not> b \<and> m = Inr y"
  by simp

lemma assertPayloadShape_ok: "assertPayloadShape v = Inr p \<Longrightarrow> payload_ok p"
  by (auto simp: assertPayloadShape_def res_bind_Inr if_Inl_Inr payload_ok_def)

lemma assertPayloadShape_version:
  "assertPayloadShape v = Inr p \<Longrightarrow> jfield v ''tokenVersion'' = Some (JStr (tp_tokenVersion p))"
  by (auto simp: assertPayloadShape_def res_bind_Inr if_Inl_Inr str_field_def
      split: option.splits jval.splits)

lemma assertPayloadShape_code:
  "assertPayloadShape v = Inl e \<Longrightarrow> e = TokenError INVALID_FORMAT"
proof -
  have f: "str_field v k = Inl e \<Longrightarrow> e = TokenError INVALID_FORMAT"
    "num_field v k = Inl e \<Longrightarrow> e = TokenError INVALID_FORMAT"
    "arr_field v k = Inl e \<Longrightarrow> e = TokenError INVALID_FORMAT"
    "opt_str_field v k = Inl e \<Longrightarrow> e = TokenError INVALID_FORMAT" for k e
    by (auto simp: field_defs split: option.splits jval.splits)
  have b: "res_bind m g = Inl e \<Longrightarrow> (\<And>e. m = Inl e \<Longrightarrow> e = X) \<Longrightarrow>
    (\<And>x. g x = Inl e \<Longrightarrow> e = X) \<Longrightarrow> e = X" for m :: "'x + 'y" and g :: "'y \<Rightarrow> 'x + 'z" and e X
    by (cases m) auto
  assume "assertPayloadShape v = Inl e"
  then show ?thesis
    unfolding assertPayloadShape_def
    by (elim b f) (auto split: if_splits)
qed

text \<open>The bits that the named sets hand out are known to the permission system, in their scope.\<close>

lemma bitsets_builtin:
  "list_all (\<lambda>(name, bs). list_all (\<lambda>b. b \<in> set (map fst BUILT_IN_BITS)) bs) BitSets"
  by (simp add: BitSets_def SERVER_READONLY_def SERVER_MANAGER_def BOT_READONLY_def BOT_ADMIN_def
      BOT_FLEET_OPS_def SERVER_MODERATION_def BUILT_IN_BITS_def)

subsection \<open>Audit\<close>

datatype audit_type = Ev_issued | Ev_verified | Ev_refreshed | Ev_revoked_device | Ev_revoked_all
  | Ev_verify_failed | Ev_expired | Ev_rotation_attack

record audit_event =
  ae_type :: audit_type
  ae_userId :: "string option"
  ae_deviceId :: "string option"
  ae_guildId :: "string option"
  ae_jti :: "string option"
  ae_timestamp :: int

end
