(* ===== verification/TokenStore.thy ===== *)
theory TokenStore
  imports TokenTypes
begin

text \<open>
  The two stores of token versions in \<open>src/core/manager/token.ts\<close>: \<open>DbTokenStore\<close> over SQLite, PostgreSQL
  or MongoDB, with the tables \<open>token_global\<close> and \<open>token_devices\<close> as maps by their primary key, and
  \<open>InMemoryTokenStore\<close>.  Both provide a record of operations \<open>token_ops\<close>.  The locale \<open>token_store\<close> holds
  what the token manager expects of such a store, and is interpreted on both.  The time \<open>now\<close> is
  \<open>Date.now()\<close> in milliseconds; failures of the database are not modelled.
\<close>

subsection \<open>Devices\<close>

record device_meta =
  dm_id :: string
  dm_userId :: string
  dm_deviceId :: string
  dm_guildId :: "string option"
  dm_tokenVersion :: nat
  dm_deviceLabel :: "string option"
  dm_issuedAt :: int
  dm_lastSeenAt :: int
  dm_lastJti :: "string option"

text \<open>A partial record: a field that is absent is \<open>None\<close>.\<close>

record meta_patch =
  mp_tokenVersion :: "nat option"
  mp_deviceLabel :: "string option"
  mp_issuedAt :: "int option"
  mp_lastSeenAt :: "int option"
  mp_lastJti :: "string option"

text \<open>What \<open>listDevices\<close> returns; a number is \<open>None\<close> when it is \<open>NaN\<close>.\<close>

record device_info =
  di_id :: string
  di_userId :: string
  di_deviceId :: string
  di_guildId :: "string option"
  di_tokenVersion :: "nat option"
  di_deviceLabel :: "string option"
  di_issuedAt :: "int option"
  di_lastSeenAt :: "int option"
  di_lastJti :: "string option"

record 's token_ops =
  ts_getGlobalVersion :: "'s \<Rightarrow> string \<Rightarrow> nat"
  ts_incrementGlobalVersion :: "'s \<Rightarrow> string \<Rightarrow> 's \<times> nat"
  ts_getDeviceVersion :: "'s \<Rightarrow> string \<Rightarrow> string \<Rightarrow> string option \<Rightarrow> nat"
  ts_incrementDeviceVersion :: "int \<Rightarrow> 's \<Rightarrow> string \<Rightarrow> string \<Rightarrow> string option \<Rightarrow> 's \<times> nat"
  ts_upsertDevice :: "int \<Rightarrow> 's \<Rightarrow> string \<Rightarrow> string \<Rightarrow> meta_patch \<Rightarrow> string option \<Rightarrow> 's"
  ts_listDevices :: "'s \<Rightarrow> string \<Rightarrow> device_info list"
  ts_deleteDevice :: "'s \<Rightarrow> string \<Rightarrow> string \<Rightarrow> string option \<Rightarrow> 's"
  ts_getLastJti :: "'s \<Rightarrow> string \<Rightarrow> string \<Rightarrow> string option \<Rightarrow> string option"

definition now_s :: "int \<Rightarrow> int" where
  "now_s now = now div 1000"

definition nullish :: "'a option \<Rightarrow> 'a \<Rightarrow> 'a" where
  "nullish v d = (case v of None \<Rightarrow> d | Some x \<Rightarrow> x)"

definition nullish2 :: "'a option \<Rightarrow> 'a option \<Rightarrow> 'a option" where
  "nullish2 v w = (case v of None \<Rightarrow> w | Some x \<Rightarrow> Some x)"

definition when_truthy :: "string option \<Rightarrow> string option" where
  "when_truthy v = (if truthy v then v else None)"

lemma nullish_simps [simp]:
  "nullish None d = d" "nullish (Some x) d = x"
  "nullish2 None w = w" "nullish2 (Some x) w = Some x"
  by (simp_all add: nullish_def nullish2_def)

subsection \<open>The database store\<close>

datatype db_engine = Sqlite | Postgres | Mongo

record token_db =
  td_global :: "(string, nat) jsmap"
  td_devices :: "(string, device_meta) jsmap"

text \<open>
  Reading a column of a row.  The statements name their columns without quotes, and PostgreSQL folds such
  names to lower case, in the schema and in the keys of the rows it returns; a name like
  \<open>tokenVersion\<close> is then not a property of the row and reads as \<open>undefined\<close>.  Columns such as \<open>id\<close>,
  which are lower case already, are not affected.
\<close>

definition column :: "db_engine \<Rightarrow> 'a option \<Rightarrow> 'a option" where
  "column e v = (if e = Postgres then None else v)"

definition db_deviceKey :: "string \<Rightarrow> string \<Rightarrow> string option \<Rightarrow> string" where
  "db_deviceKey userId deviceId guildId =
    (if truthy guildId
     then ''device:'' @ the guildId @ '':'' @ userId @ '':'' @ deviceId
     else ''device:'' @ userId @ '':'' @ deviceId)"

definition globalKey :: "string \<Rightarrow> string" where
  "globalKey userId = ''global:'' @ userId"

definition db_getGlobalVersion :: "db_engine \<Rightarrow> token_db \<Rightarrow> string \<Rightarrow> nat" where
  "db_getGlobalVersion e db userId = nullish (column e (jm_get (td_global db) (globalKey userId))) 0"

text \<open>
  MongoDB reads, adds one and writes; the SQL engines insert a row with version 1 or add one to the row
  that is there, and read the result back.
\<close>

definition db_incrementGlobalVersion :: "db_engine \<Rightarrow> token_db \<Rightarrow> string \<Rightarrow> token_db \<times> nat" where
  "db_incrementGlobalVersion e db userId =
    (let id = globalKey userId
     in if e = Mongo then
          (let nxt = nullish (jm_get (td_global db) id) 0 + 1
           in (db\<lparr>td_global := jm_set (td_global db) id nxt\<rparr>, nxt))
        else
          (let v = (case jm_get (td_global db) id of None \<Rightarrow> 1 | Some n \<Rightarrow> n + 1);
               db' = db\<lparr>td_global := jm_set (td_global db) id v\<rparr>
           in (db', nullish (column e (jm_get (td_global db') id)) 0)))"

definition db_getDeviceVersion ::
    "db_engine \<Rightarrow> token_db \<Rightarrow> string \<Rightarrow> string \<Rightarrow> string option \<Rightarrow> nat" where
  "db_getDeviceVersion e db userId deviceId guildId =
    nullish (column e (map_option dm_tokenVersion
      (jm_get (td_devices db) (db_deviceKey userId deviceId guildId)))) 0"

definition db_incrementDeviceVersion ::
    "db_engine \<Rightarrow> int \<Rightarrow> token_db \<Rightarrow> string \<Rightarrow> string \<Rightarrow> string option \<Rightarrow> token_db \<times> nat" where
  "db_incrementDeviceVersion e now db userId deviceId guildId =
    (let id = db_deviceKey userId deviceId guildId; t = now_s now;
         existing = jm_get (td_devices db) id
     in if e = Mongo then
          (let nxt = nullish (map_option dm_tokenVersion existing) 0 + 1;
               row = \<lparr>dm_id = id, dm_userId = userId, dm_deviceId = deviceId, dm_guildId = guildId,
                 dm_tokenVersion = nxt,
                 dm_deviceLabel = (case existing of None \<Rightarrow> None | Some r \<Rightarrow> dm_deviceLabel r),
                 dm_issuedAt = nullish (map_option dm_issuedAt existing) t,
                 dm_lastSeenAt = t,
                 dm_lastJti = (case existing of None \<Rightarrow> None | Some r \<Rightarrow> dm_lastJti r)\<rparr>
           in (db\<lparr>td_devices := jm_set (td_devices db) id row\<rparr>, nxt))
        else
          (let row = (case existing of
                 None \<Rightarrow> \<lparr>dm_id = id, dm_userId = userId, dm_deviceId = deviceId, dm_guildId = guildId,
                   dm_tokenVersion = 1, dm_deviceLabel = None, dm_issuedAt = t, dm_lastSeenAt = t,
                   dm_lastJti = None\<rparr>
               | Some r \<Rightarrow> r\<lparr>dm_tokenVersion := dm_tokenVersion r + 1\<rparr>);
               db' = db\<lparr>td_devices := jm_set (td_devices db) id row\<rparr>
           in (db', db_getDeviceVersion e db' userId deviceId guildId)))"

definition db_upsertDevice ::
    "db_engine \<Rightarrow> int \<Rightarrow> token_db \<Rightarrow> string \<Rightarrow> string \<Rightarrow> meta_patch \<Rightarrow> string option \<Rightarrow> token_db" where
  "db_upsertDevice e now db userId deviceId meta guildId =
    (let id = db_deviceKey userId deviceId guildId; t = now_s now;
         existing = jm_get (td_devices db) id;
         version = nullish (mp_tokenVersion meta)
           (nullish (column e (map_option dm_tokenVersion existing)) 0);
         label = nullish2 (mp_deviceLabel meta)
           (column e (case existing of None \<Rightarrow> None | Some r \<Rightarrow> dm_deviceLabel r));
         issuedAt = nullish (column e (map_option dm_issuedAt existing)) (nullish (mp_issuedAt meta) t);
         lastSeenAt = nullish (mp_lastSeenAt meta) t;
         lastJti = nullish2 (mp_lastJti meta)
           (column e (case existing of None \<Rightarrow> None | Some r \<Rightarrow> dm_lastJti r));
         fresh = \<lparr>dm_id = id, dm_userId = userId, dm_deviceId = deviceId, dm_guildId = guildId,
           dm_tokenVersion = version, dm_deviceLabel = label, dm_issuedAt = issuedAt,
           dm_lastSeenAt = lastSeenAt, dm_lastJti = lastJti\<rparr>;
         row = (if e = Mongo then fresh
           else (case existing of None \<Rightarrow> fresh
             | Some r \<Rightarrow> r\<lparr>dm_tokenVersion := version, dm_deviceLabel := label,
                 dm_lastSeenAt := lastSeenAt, dm_lastJti := lastJti\<rparr>))
     in db\<lparr>td_devices := jm_set (td_devices db) id row\<rparr>)"

text \<open>\<open>String(x)\<close> of an absent column is the text \<open>undefined\<close>.\<close>

definition db_info :: "db_engine \<Rightarrow> device_meta \<Rightarrow> device_info" where
  "db_info e r =
    \<lparr>di_id = dm_id r,
     di_userId = nullish (column e (Some (dm_userId r))) ''undefined'',
     di_deviceId = nullish (column e (Some (dm_deviceId r))) ''undefined'',
     di_guildId = column e (dm_guildId r),
     di_tokenVersion = column e (Some (dm_tokenVersion r)),
     di_deviceLabel = column e (dm_deviceLabel r),
     di_issuedAt = column e (Some (dm_issuedAt r)),
     di_lastSeenAt = column e (Some (dm_lastSeenAt r)),
     di_lastJti = column e (dm_lastJti r)\<rparr>"

definition db_listDevices :: "db_engine \<Rightarrow> token_db \<Rightarrow> string \<Rightarrow> device_info list" where
  "db_listDevices e db userId =
    map (db_info e) (filter (\<lambda>r. dm_userId r = userId) (jm_values (td_devices db)))"

definition db_deleteDevice :: "token_db \<Rightarrow> string \<Rightarrow> string \<Rightarrow> string option \<Rightarrow> token_db" where
  "db_deleteDevice db userId deviceId guildId =
    db\<lparr>td_devices := jm_delete (td_devices db) (db_deviceKey userId deviceId guildId)\<rparr>"

definition db_getLastJti ::
    "db_engine \<Rightarrow> token_db \<Rightarrow> string \<Rightarrow> string \<Rightarrow> string option \<Rightarrow> string option" where
  "db_getLastJti e db userId deviceId guildId =
    column e (case jm_get (td_devices db) (db_deviceKey userId deviceId guildId) of
      None \<Rightarrow> None | Some r \<Rightarrow> dm_lastJti r)"

definition DbTokenStore :: "db_engine \<Rightarrow> token_db token_ops" where
  "DbTokenStore e =
    \<lparr>ts_getGlobalVersion = db_getGlobalVersion e,
     ts_incrementGlobalVersion = db_incrementGlobalVersion e,
     ts_getDeviceVersion = db_getDeviceVersion e,
     ts_incrementDeviceVersion = db_incrementDeviceVersion e,
     ts_upsertDevice = db_upsertDevice e,
     ts_listDevices = db_listDevices e,
     ts_deleteDevice = db_deleteDevice,
     ts_getLastJti = db_getLastJti e\<rparr>"

subsection \<open>The store in memory\<close>

record mem_tokens =
  mt_globalVersions :: "(string, nat) jsmap"
  mt_deviceVersions :: "(string, nat) jsmap"
  mt_deviceMeta :: "(string, device_meta) jsmap"

definition mem_getGlobalVersion :: "mem_tokens \<Rightarrow> string \<Rightarrow> nat" where
  "mem_getGlobalVersion m userId = nullish (jm_get (mt_globalVersions m) userId) 0"

definition mem_incrementGlobalVersion :: "mem_tokens \<Rightarrow> string \<Rightarrow> mem_tokens \<times> nat" where
  "mem_incrementGlobalVersion m userId =
    (let nxt = nullish (jm_get (mt_globalVersions m) userId) 0 + 1
     in (m\<lparr>mt_globalVersions := jm_set (mt_globalVersions m) userId nxt\<rparr>, nxt))"

definition mem_deviceKey :: "string \<Rightarrow> string \<Rightarrow> string option \<Rightarrow> string" where
  "mem_deviceKey userId deviceId guildId =
    (if truthy guildId then the guildId @ '':'' @ userId @ '':'' @ deviceId
     else userId @ '':'' @ deviceId)"

definition mem_getDeviceVersion :: "mem_tokens \<Rightarrow> string \<Rightarrow> string \<Rightarrow> string option \<Rightarrow> nat" where
  "mem_getDeviceVersion m userId deviceId guildId =
    nullish (jm_get (mt_deviceVersions m) (mem_deviceKey userId deviceId guildId)) 0"

definition mem_incrementDeviceVersion ::
    "mem_tokens \<Rightarrow> string \<Rightarrow> string \<Rightarrow> string option \<Rightarrow> mem_tokens \<times> nat" where
  "mem_incrementDeviceVersion m userId deviceId guildId =
    (let key = mem_deviceKey userId deviceId guildId;
         nxt = nullish (jm_get (mt_deviceVersions m) key) 0 + 1
     in (m\<lparr>mt_deviceVersions := jm_set (mt_deviceVersions m) key nxt\<rparr>, nxt))"

definition mem_upsertDevice ::
    "int \<Rightarrow> mem_tokens \<Rightarrow> string \<Rightarrow> string \<Rightarrow> meta_patch \<Rightarrow> string option \<Rightarrow> mem_tokens" where
  "mem_upsertDevice now m userId deviceId meta guildId =
    (let key = mem_deviceKey userId deviceId guildId;
         existing = nullish (jm_get (mt_deviceMeta m) key)
           \<lparr>dm_id = key, dm_userId = userId, dm_deviceId = deviceId, dm_guildId = guildId,
            dm_tokenVersion = 0, dm_deviceLabel = None, dm_issuedAt = now_s now,
            dm_lastSeenAt = now_s now, dm_lastJti = None\<rparr>;
         merged = existing
           \<lparr>dm_tokenVersion := nullish (mp_tokenVersion meta) (dm_tokenVersion existing),
            dm_deviceLabel := nullish2 (mp_deviceLabel meta) (dm_deviceLabel existing),
            dm_issuedAt := nullish (mp_issuedAt meta) (dm_issuedAt existing),
            dm_lastSeenAt := nullish (mp_lastSeenAt meta) (dm_lastSeenAt existing),
            dm_lastJti := nullish2 (mp_lastJti meta) (dm_lastJti existing)\<rparr>
     in m\<lparr>mt_deviceMeta := jm_set (mt_deviceMeta m) key merged\<rparr>)"

definition mem_info :: "device_meta \<Rightarrow> device_info" where
  "mem_info r =
    \<lparr>di_id = dm_id r, di_userId = dm_userId r, di_deviceId = dm_deviceId r, di_guildId = dm_guildId r,
     di_tokenVersion = Some (dm_tokenVersion r), di_deviceLabel = dm_deviceLabel r,
     di_issuedAt = Some (dm_issuedAt r), di_lastSeenAt = Some (dm_lastSeenAt r),
     di_lastJti = dm_lastJti r\<rparr>"

definition mem_listDevices :: "mem_tokens \<Rightarrow> string \<Rightarrow> device_info list" where
  "mem_listDevices m userId =
    map mem_info (filter (\<lambda>v. dm_userId v = userId) (jm_values (mt_deviceMeta m)))"

definition mem_deleteDevice :: "mem_tokens \<Rightarrow> string \<Rightarrow> string \<Rightarrow> string option \<Rightarrow> mem_tokens" where
  "mem_deleteDevice m userId deviceId guildId =
    (let key = mem_deviceKey userId deviceId guildId
     in m\<lparr>mt_deviceVersions := jm_delete (mt_deviceVersions m) key,
          mt_deviceMeta := jm_delete (mt_deviceMeta m) key\<rparr>)"

definition mem_getLastJti :: "mem_tokens \<Rightarrow> string \<Rightarrow> string \<Rightarrow> string option \<Rightarrow> string option" where
  "mem_getLastJti m userId deviceId guildId =
    (case jm_get (mt_deviceMeta m) (mem_deviceKey userId deviceId guildId) of
       None \<Rightarrow> None | Some r \<Rightarrow> dm_lastJti r)"

definition InMemoryTokenStore :: "mem_tokens token_ops" where
  "InMemoryTokenStore =
    \<lparr>ts_getGlobalVersion = mem_getGlobalVersion,
     ts_incrementGlobalVersion = mem_incrementGlobalVersion,
     ts_getDeviceVersion = mem_getDeviceVersion,
     ts_incrementDeviceVersion = (\<lambda>now. mem_incrementDeviceVersion),
     ts_upsertDevice = mem_upsertDevice,
     ts_listDevices = mem_listDevices,
     ts_deleteDevice = mem_deleteDevice,
     ts_getLastJti = mem_getLastJti\<rparr>"

subsection \<open>The contract\<close>

text \<open>
  What the manager relies on.  A device is identified by a key made of user, device and guild, in which an
  empty guild counts as none; the global
  version and the device versions only move by their own increments, and the last \<open>jti\<close> by an upsert
  that brings one.  An upsert may name the version that is current, but no other.
\<close>

locale token_store =
  fixes S :: "'s token_ops"
    and key :: "string \<Rightarrow> string \<Rightarrow> string option \<Rightarrow> string"
  assumes key_truthy: "key u d (when_truthy g) = key u d g"
    and key_version: "key u d g = key u' d' g' \<Longrightarrow>
      ts_getDeviceVersion S st u d g = ts_getDeviceVersion S st u' d' g'"
    and key_jti: "key u d g = key u' d' g' \<Longrightarrow>
      ts_getLastJti S st u d g = ts_getLastJti S st u' d' g'"
    and global_inc: "ts_getGlobalVersion S (fst (ts_incrementGlobalVersion S st u)) u' =
      (if u' = u then Suc (ts_getGlobalVersion S st u) else ts_getGlobalVersion S st u')"
    and global_ret: "snd (ts_incrementGlobalVersion S st u) = Suc (ts_getGlobalVersion S st u)"
    and global_version: "ts_getDeviceVersion S (fst (ts_incrementGlobalVersion S st u)) u' d g =
      ts_getDeviceVersion S st u' d g"
    and global_jti: "ts_getLastJti S (fst (ts_incrementGlobalVersion S st u)) u' d g =
      ts_getLastJti S st u' d g"
    and device_inc: "ts_getDeviceVersion S (fst (ts_incrementDeviceVersion S now st u d g)) u' d' g' =
      (if key u' d' g' = key u d g then Suc (ts_getDeviceVersion S st u d g)
       else ts_getDeviceVersion S st u' d' g')"
    and device_ret: "snd (ts_incrementDeviceVersion S now st u d g) =
      Suc (ts_getDeviceVersion S st u d g)"
    and device_global: "ts_getGlobalVersion S (fst (ts_incrementDeviceVersion S now st u d g)) u' =
      ts_getGlobalVersion S st u'"
    and device_jti: "ts_getLastJti S (fst (ts_incrementDeviceVersion S now st u d g)) u' d' g' =
      ts_getLastJti S st u' d' g'"
    and upsert_global: "ts_getGlobalVersion S (ts_upsertDevice S now st u d m g) u' =
      ts_getGlobalVersion S st u'"
    and upsert_other: "key u' d' g' \<noteq> key u d g \<Longrightarrow>
      ts_getDeviceVersion S (ts_upsertDevice S now st u d m g) u' d' g' =
      ts_getDeviceVersion S st u' d' g'"
    and upsert_same: "mp_tokenVersion m = None \<or>
        mp_tokenVersion m = Some (ts_getDeviceVersion S st u d g) \<Longrightarrow>
      ts_getDeviceVersion S (ts_upsertDevice S now st u d m g) u d g =
      ts_getDeviceVersion S st u d g"
    and upsert_jti: "ts_getLastJti S (ts_upsertDevice S now st u d m g) u' d' g' =
      (if key u' d' g' = key u d g then nullish2 (mp_lastJti m) (ts_getLastJti S st u d g)
       else ts_getLastJti S st u' d' g')"
begin

lemma upsert_version:
  assumes "mp_tokenVersion m = None \<or> mp_tokenVersion m = Some (ts_getDeviceVersion S st u d g)"
  shows "ts_getDeviceVersion S (ts_upsertDevice S now st u d m g) u' d' g' =
    ts_getDeviceVersion S st u' d' g'"
proof (cases "key u' d' g' = key u d g")
  case True
  then show ?thesis
    using upsert_same [OF assms, of now] key_version [OF True] by simp
next
  case False
  then show ?thesis by (rule upsert_other)
qed

lemmas store_simps = global_inc global_ret global_version global_jti device_inc device_ret
  device_global device_jti upsert_global upsert_jti

end

text \<open>The database stores keep the version of a device in its row, so an upsert can also set it.\<close>

locale versioned_store = token_store +
  assumes upsert_sets: "mp_tokenVersion m = Some v \<Longrightarrow>
      ts_getDeviceVersion S (ts_upsertDevice S now st u d m g) u d g = v"
begin

lemma upsert_sets_key:
  "mp_tokenVersion m = Some v \<Longrightarrow> key u' d' g' = key u d g \<Longrightarrow>
   ts_getDeviceVersion S (ts_upsertDevice S now st u d m g) u' d' g' = v"
  using key_version [of u' d' g' u d g] upsert_sets by simp

end

text \<open>In memory versions are kept apart from the rows, and no upsert changes them.\<close>

locale separate_store = token_store +
  assumes upsert_keeps: "ts_getDeviceVersion S (ts_upsertDevice S now st u d m g) u' d' g' =
      ts_getDeviceVersion S st u' d' g'"

lemmas db_defs = DbTokenStore_def db_getGlobalVersion_def db_incrementGlobalVersion_def
  db_getDeviceVersion_def db_incrementDeviceVersion_def db_upsertDevice_def db_getLastJti_def
  db_deleteDevice_def column_def Let_def

lemmas mem_defs = InMemoryTokenStore_def mem_getGlobalVersion_def mem_incrementGlobalVersion_def
  mem_getDeviceVersion_def mem_incrementDeviceVersion_def mem_upsertDevice_def mem_getLastJti_def
  mem_deleteDevice_def Let_def

lemma globalKey_inj [simp]: "globalKey u = globalKey v \<longleftrightarrow> u = v"
  by (simp add: globalKey_def)

lemma truthy_when [simp]: "truthy (when_truthy g) = truthy g" "truthy g \<Longrightarrow> when_truthy g = g"
  by (simp_all add: when_truthy_def truthy_def)

lemma db_versioned_store: "e \<noteq> Postgres \<Longrightarrow> versioned_store (DbTokenStore e) db_deviceKey"
  by (unfold_locales; (simp add: db_defs db_deviceKey_def split: option.splits)?;
      (auto simp: db_defs)?; simp add: when_truthy_def truthy_def db_deviceKey_def split: if_splits)

lemmas db_token_store = db_versioned_store [THEN versioned_store.axioms(1)]

interpretation sqlite: versioned_store "DbTokenStore Sqlite" db_deviceKey
  by (rule db_versioned_store) simp

interpretation mongo: versioned_store "DbTokenStore Mongo" db_deviceKey
  by (rule db_versioned_store) simp

interpretation memory: separate_store InMemoryTokenStore mem_deviceKey
  by (unfold_locales; (simp add: mem_defs mem_deviceKey_def split: option.splits)?;
      (auto simp: mem_defs)?; simp add: when_truthy_def truthy_def mem_deviceKey_def split: if_splits)

end
