(* ===== verification/TokenManager.thy ===== *)
theory TokenManager
  imports TokenStore
begin

text \<open>
  \<open>TokenManager\<close> of \<open>src/core/manager/token.ts\<close>: issuing, verifying, refreshing and revoking tokens over
  any store.  An operation takes the codec \<open>C\<close>, the store operations \<open>S\<close>, the manager \<open>M\<close>, the time and
  the random texts it draws, and returns the new world and its result or exception; it runs without
  interleaving with others.  The world holds the state of the store, the audit events handed to
  \<open>onAudit\<close> and the codes handed to \<open>onVerifyFailure\<close>, both oldest first.
\<close>

subsection \<open>Configuration\<close>

record token_options =
  to_ttlSeconds :: "int option"
  to_maxTtlSeconds :: "int option"
  to_issuer :: "string option"
  to_audience :: "string option"
  to_bitAllowlist :: "string list option"
  to_onAudit :: bool
  to_onVerifyFailure :: bool

record token_manager =
  tm_masterKeyBuf :: string
  tm_ttlSeconds :: int
  tm_maxTtlSeconds :: int
  tm_issuer :: string
  tm_audience :: string
  tm_bitAllowlist :: "string list option"
  tm_onAudit :: bool
  tm_onVerifyFailure :: bool

definition new_TokenManager :: "codec \<Rightarrow> string \<Rightarrow> token_options \<Rightarrow> token_exn + token_manager" where
  "new_TokenManager C masterSecret options =
    (if length masterSecret < 32 then Inl ConfigError
     else Inr
       \<lparr>tm_masterKeyBuf = cd_hmac C ''token-manager-v2'' masterSecret,
        tm_ttlSeconds = nullish (to_ttlSeconds options) 900,
        tm_maxTtlSeconds = nullish (to_maxTtlSeconds options) 86400,
        tm_issuer = nullish (to_issuer options) ''token-manager'',
        tm_audience = nullish (to_audience options) ''default'',
        tm_bitAllowlist = to_bitAllowlist options,
        tm_onAudit = to_onAudit options,
        tm_onVerifyFailure = to_onVerifyFailure options\<rparr>)"

record 's token_world =
  tw_store :: 's
  tw_audit :: "audit_event list"
  tw_failures :: "token_code list"

record issue_options =
  io_bits :: "jval list option"
  io_guildId :: "string option"
  io_deviceId :: "string option"
  io_deviceLabel :: "string option"
  io_ttlSeconds :: "int option"
  io_useDeviceVersion :: bool

definition signingKey :: "codec \<Rightarrow> token_manager \<Rightarrow> string \<Rightarrow> string \<Rightarrow> string" where
  "signingKey C M userId tokenVersion = cd_hmac C (tm_masterKeyBuf M) (userId @ '':'' @ tokenVersion)"

definition sign :: "codec \<Rightarrow> string \<Rightarrow> string \<Rightarrow> string" where
  "sign C data secret = cd_b64 C (cd_hmac C secret data)"

definition emit :: "token_manager \<Rightarrow> audit_event \<Rightarrow> 's token_world \<Rightarrow> 's token_world" where
  "emit M ev w = (if tm_onAudit M then w\<lparr>tw_audit := tw_audit w @ [ev]\<rparr> else w)"

definition validateBits :: "token_manager \<Rightarrow> jval list \<Rightarrow> token_exn + unit" where
  "validateBits M bits = (case tm_bitAllowlist M of
      None \<Rightarrow> Inr ()
    | Some allowed \<Rightarrow> if list_all (\<lambda>b. b \<in> JStr ` set allowed) bits then Inr ()
        else Inl (TokenError INVALID_PERMISSION))"

subsection \<open>Issuing\<close>

definition issue_payload ::
    "token_manager \<Rightarrow> int \<Rightarrow> string \<Rightarrow> string \<Rightarrow> string \<Rightarrow> issue_options \<Rightarrow> string \<Rightarrow> token_payload" where
  "issue_payload M now jti deviceId userId options tokenVersion =
    (let ttl = min (nullish (io_ttlSeconds options) (tm_ttlSeconds M)) (tm_maxTtlSeconds M)
     in \<lparr>tp_userId = userId, tp_iat = now_s now, tp_exp = now_s now + ttl, tp_jti = jti,
         tp_deviceId = deviceId, tp_deviceLabel = when_truthy (io_deviceLabel options),
         tp_bits = nullish (io_bits options) [],
         tp_guildId = when_truthy (io_guildId options), tp_tokenVersion = tokenVersion,
         tp_iss = tm_issuer M, tp_aud = tm_audience M\<rparr>)"

definition token_body :: "codec \<Rightarrow> token_payload \<Rightarrow> string" where
  "token_body C p =
    ''R'' @ cd_b64 C (tp_userId p) @ ''_'' @ cd_b64 C (cd_stringify C (payload_json p))"

definition token_text :: "codec \<Rightarrow> token_manager \<Rightarrow> token_payload \<Rightarrow> string" where
  "token_text C M p = token_body C p @ ''.'' @
     sign C (token_body C p) (signingKey C M (tp_userId p) (tp_tokenVersion p))"

definition issue_meta :: "int \<Rightarrow> string \<Rightarrow> issue_options \<Rightarrow> nat \<Rightarrow> meta_patch" where
  "issue_meta now jti options deviceVersion =
    \<lparr>mp_tokenVersion = Some deviceVersion, mp_deviceLabel = when_truthy (io_deviceLabel options),
     mp_issuedAt = Some (now_s now), mp_lastSeenAt = Some (now_s now), mp_lastJti = Some jti\<rparr>"

definition issue ::
    "codec \<Rightarrow> 's token_ops \<Rightarrow> token_manager \<Rightarrow> int \<Rightarrow> string \<Rightarrow> string \<Rightarrow> 's token_world \<Rightarrow>
     string \<Rightarrow> issue_options \<Rightarrow> 's token_world \<times> (token_exn + string)" where
  "issue C S M now randomDevice jti w userId options =
    (case validateSnowflake userId of Inl e \<Rightarrow> (w, Inl e) | Inr _ \<Rightarrow>
     case validateBits M (nullish (io_bits options) []) of Inl e \<Rightarrow> (w, Inl e) | Inr _ \<Rightarrow>
     let deviceId = nullish (io_deviceId options) randomDevice;
         guildId = io_guildId options;
         globalVersion = ts_getGlobalVersion S (tw_store w) userId;
         deviceVersion = (if io_useDeviceVersion options
           then ts_getDeviceVersion S (tw_store w) userId deviceId guildId else 0);
         p = issue_payload M now jti deviceId userId options (packVersion globalVersion deviceVersion);
         w' = w\<lparr>tw_store := ts_upsertDevice S now (tw_store w) userId deviceId
                  (issue_meta now jti options deviceVersion) guildId\<rparr>
     in (emit M \<lparr>ae_type = Ev_issued, ae_userId = Some userId, ae_deviceId = Some deviceId,
           ae_guildId = guildId, ae_jti = Some jti, ae_timestamp = now\<rparr> w',
         Inr (token_text C M p)))"

subsection \<open>Verifying\<close>

text \<open>\<open>lastIndexOf\<close> and \<open>indexOf\<close> with the two slices around the position.\<close>

definition cut_first :: "char \<Rightarrow> string \<Rightarrow> (string \<times> string) option" where
  "cut_first c s = (case dropWhile (\<lambda>x. x \<noteq> c) s of
     [] \<Rightarrow> None | _ # r \<Rightarrow> Some (takeWhile (\<lambda>x. x \<noteq> c) s, r))"

definition cut_last :: "char \<Rightarrow> string \<Rightarrow> (string \<times> string) option" where
  "cut_last c s = (case cut_first c (rev s) of
     None \<Rightarrow> None | Some (a, b) \<Rightarrow> Some (rev b, rev a))"

definition embeddedVersion :: "jval \<Rightarrow> string" where
  "embeddedVersion v = (case jfield v ''tokenVersion'' of Some (JStr s) \<Rightarrow> s | _ \<Rightarrow> ''0:0'')"

text \<open>
  The checks of \<open>verify\<close> that need no store, up to the payload; the user id in front is reported with
  every error, the payload once it has its shape.
\<close>

definition open_token ::
    "codec \<Rightarrow> token_manager \<Rightarrow> string \<Rightarrow> string option \<times> (token_exn + token_payload)" where
  "open_token C M token =
    (let malformed = Inl (TokenError INVALID_FORMAT)
     in if \<not> js_starts_with token ''R'' then (None, malformed)
        else case cut_last (CHR ''.'') token of None \<Rightarrow> (None, malformed)
        | Some (body, providedSig) \<Rightarrow>
          if providedSig = [] then (None, malformed)
          else case cut_first (CHR ''_'') body of None \<Rightarrow> (None, malformed)
          | Some (front, payloadPart) \<Rightarrow>
            let userId = cd_unb64 C (tl front)
            in (Some userId,
                case cd_parse C (cd_unb64 C payloadPart) of None \<Rightarrow> malformed
                | Some raw \<Rightarrow>
                  res_bind (validateSnowflake userId) (\<lambda>_.
                  res_bind (safeEqual providedSig
                    (sign C body (signingKey C M userId (embeddedVersion raw)))) (\<lambda>same.
                  if \<not> same then Inl (TokenError INVALID_SIGNATURE)
                  else assertPayloadShape raw))))"

definition check_claims :: "token_manager \<Rightarrow> string option \<Rightarrow> token_payload \<Rightarrow> token_exn + unit" where
  "check_claims M parsedUserId p =
    (if Some (tp_userId p) \<noteq> parsedUserId then Inl (TokenError INVALID_FORMAT)
     else if tp_iss p \<noteq> tm_issuer M then Inl (TokenError INVALID_ISSUER)
     else if tp_aud p \<noteq> tm_audience M then Inl (TokenError INVALID_AUDIENCE)
     else Inr ())"

definition payload_event :: "audit_type \<Rightarrow> int \<Rightarrow> token_payload \<Rightarrow> audit_event" where
  "payload_event t now p = \<lparr>ae_type = t, ae_userId = Some (tp_userId p),
     ae_deviceId = Some (tp_deviceId p), ae_guildId = tp_guildId p, ae_jti = Some (tp_jti p),
     ae_timestamp = now\<rparr>"

definition seen_meta :: "int \<Rightarrow> meta_patch" where
  "seen_meta now = \<lparr>mp_tokenVersion = None, mp_deviceLabel = None, mp_issuedAt = None,
     mp_lastSeenAt = Some (now_s now), mp_lastJti = None\<rparr>"

text \<open>
  The catch block: a \<open>TokenError\<close> is reported, by a \<open>token.verify_failed\<close> event unless a more specific
  one was emitted, and to \<open>onVerifyFailure\<close>; other errors pass through.
\<close>

definition fail_verify ::
    "token_manager \<Rightarrow> int \<Rightarrow> bool \<Rightarrow> string option \<Rightarrow> token_payload option \<Rightarrow> 's token_world \<Rightarrow>
     token_exn \<Rightarrow> 's token_world" where
  "fail_verify M now specific userId p w e = (case e of
      TokenError c \<Rightarrow>
        (let w1 = (if specific then w
               else emit M \<lparr>ae_type = Ev_verify_failed, ae_userId = userId,
                 ae_deviceId = map_option tp_deviceId p,
                 ae_guildId = (case p of None \<Rightarrow> None | Some q \<Rightarrow> tp_guildId q),
                 ae_jti = map_option tp_jti p, ae_timestamp = now\<rparr> w)
         in if tm_onVerifyFailure M then w1\<lparr>tw_failures := tw_failures w1 @ [c]\<rparr> else w1)
    | _ \<Rightarrow> w)"

definition verify ::
    "codec \<Rightarrow> 's token_ops \<Rightarrow> token_manager \<Rightarrow> int \<Rightarrow> 's token_world \<Rightarrow> string \<Rightarrow> bool \<Rightarrow>
     's token_world \<times> (token_exn + verified_token)" where
  "verify C S M now w token skipRotationCheck =
    (case open_token C M token of
       (uid, Inl e) \<Rightarrow> (fail_verify M now False uid None w e, Inl e)
     | (uid, Inr p) \<Rightarrow>
       (case check_claims M uid p of
          Inl e \<Rightarrow> (fail_verify M now False uid (Some p) w e, Inl e)
        | Inr _ \<Rightarrow>
          let u = tp_userId p; d = tp_deviceId p; g = tp_guildId p; st = tw_store w
          in if tp_exp p \<le> now_s now then
               (fail_verify M now True uid (Some p) (emit M (payload_event Ev_expired now p) w)
                  (TokenError TOKEN_EXPIRED), Inl (TokenError TOKEN_EXPIRED))
             else if tp_tokenVersion p \<noteq>
                 packVersion (ts_getGlobalVersion S st u) (ts_getDeviceVersion S st u d g) then
               (fail_verify M now False uid (Some p) w (TokenError TOKEN_REVOKED),
                Inl (TokenError TOKEN_REVOKED))
             else if \<not> skipRotationCheck \<and> truthy (ts_getLastJti S st u d g) \<and>
                 ts_getLastJti S st u d g \<noteq> Some (tp_jti p) then
               (fail_verify M now True uid (Some p)
                  (emit M (payload_event Ev_rotation_attack now p)
                    (w\<lparr>tw_store := fst (ts_incrementDeviceVersion S now st u d g)\<rparr>))
                  (TokenError TOKEN_REVOKED), Inl (TokenError TOKEN_REVOKED))
             else
               (emit M (payload_event Ev_verified now p)
                  (w\<lparr>tw_store := ts_upsertDevice S now st u d (seen_meta now) g\<rparr>),
                Inr \<lparr>vt_payload = p, vt_raw = token\<rparr>)))"

subsection \<open>Revoking and refreshing\<close>

definition revokeAll ::
    "'s token_ops \<Rightarrow> token_manager \<Rightarrow> int \<Rightarrow> 's token_world \<Rightarrow> string \<Rightarrow> 's token_world \<times> (token_exn + nat)" where
  "revokeAll S M now w userId =
    (case validateSnowflake userId of Inl e \<Rightarrow> (w, Inl e) | Inr _ \<Rightarrow>
     case ts_incrementGlobalVersion S (tw_store w) userId of (st, newVersion) \<Rightarrow>
       (emit M \<lparr>ae_type = Ev_revoked_all, ae_userId = Some userId, ae_deviceId = None,
           ae_guildId = None, ae_jti = None, ae_timestamp = now\<rparr> (w\<lparr>tw_store := st\<rparr>),
        Inr newVersion))"

definition revokeDevice ::
    "'s token_ops \<Rightarrow> token_manager \<Rightarrow> int \<Rightarrow> 's token_world \<Rightarrow> string \<Rightarrow> string \<Rightarrow> string option \<Rightarrow>
     's token_world \<times> (token_exn + nat)" where
  "revokeDevice S M now w userId deviceId guildId =
    (case validateSnowflake userId of Inl e \<Rightarrow> (w, Inl e) | Inr _ \<Rightarrow>
     case ts_incrementDeviceVersion S now (tw_store w) userId deviceId guildId of (st, newVersion) \<Rightarrow>
       (emit M \<lparr>ae_type = Ev_revoked_device, ae_userId = Some userId, ae_deviceId = Some deviceId,
           ae_guildId = guildId, ae_jti = None, ae_timestamp = now\<rparr>
          (w\<lparr>tw_store := ts_upsertDevice S now st userId deviceId (seen_meta now) guildId\<rparr>),
        Inr newVersion))"

definition token_listDevices ::
    "'s token_ops \<Rightarrow> 's token_world \<Rightarrow> string \<Rightarrow> token_exn + device_info list" where
  "token_listDevices S w userId =
    (case validateSnowflake userId of Inl e \<Rightarrow> Inl e
     | Inr _ \<Rightarrow> Inr (ts_listDevices S (tw_store w) userId))"

text \<open>\<open>getBits\<close> is the optional callback that looks the bits up again; its own effects are not modelled.\<close>

definition refresh_options ::
    "(string \<Rightarrow> string option \<Rightarrow> jval list) option \<Rightarrow> token_payload \<Rightarrow> issue_options" where
  "refresh_options getBits p =
    \<lparr>io_bits = Some (case getBits of Some f \<Rightarrow> f (tp_userId p) (tp_guildId p) | None \<Rightarrow> tp_bits p),
     io_guildId = tp_guildId p, io_deviceId = Some (tp_deviceId p),
     io_deviceLabel = tp_deviceLabel p, io_ttlSeconds = None, io_useDeviceVersion = True\<rparr>"

definition refresh ::
    "codec \<Rightarrow> 's token_ops \<Rightarrow> token_manager \<Rightarrow> int \<Rightarrow> string \<Rightarrow> string \<Rightarrow> 's token_world \<Rightarrow>
     string \<Rightarrow> (string \<Rightarrow> string option \<Rightarrow> jval list) option \<Rightarrow>
     's token_world \<times> (token_exn + string)" where
  "refresh C S M now randomDevice jti w token getBits =
    (case verify C S M now w token True of
       (w1, Inl e) \<Rightarrow> (w1, Inl e)
     | (w1, Inr v) \<Rightarrow>
       let p = vt_payload v
       in (case issue C S M now randomDevice jti w1 (tp_userId p) (refresh_options getBits p) of
             (w2, Inl e) \<Rightarrow> (w2, Inl e)
           | (w2, Inr newToken) \<Rightarrow> (emit M (payload_event Ev_refreshed now p) w2, Inr newToken)))"

definition token_hasBit :: "verified_token \<Rightarrow> string \<Rightarrow> bool" where
  "token_hasBit v b = (JStr b \<in> set (tp_bits (vt_payload v)))"

definition token_requireBit :: "verified_token \<Rightarrow> string \<Rightarrow> token_exn + unit" where
  "token_requireBit v b =
    (if \<not> token_hasBit v b then Inl (TokenError PERMISSION_DENIED) else Inr ())"

fun requireBits :: "verified_token \<Rightarrow> string list \<Rightarrow> token_exn + unit" where
  "requireBits v [] = Inr ()"
| "requireBits v (b # bs) = res_bind (token_requireBit v b) (\<lambda>_. requireBits v bs)"

definition debugDecodeUnsafe :: "codec \<Rightarrow> string \<Rightarrow> (string \<times> jval option) list option" where
  "debugDecodeUnsafe C token =
    (case cut_last (CHR ''.'') token of None \<Rightarrow> None | Some (body, _) \<Rightarrow>
     case cut_first (CHR ''_'') body of None \<Rightarrow> None | Some (_, payloadPart) \<Rightarrow>
     case cd_parse C (cd_unb64 C payloadPart) of None \<Rightarrow> None
     | Some raw \<Rightarrow>
         Some (jm_set (map (\<lambda>(k, v). (k, Some v)) (js_spread raw)) ''tokenVersion'' None))"

subsection \<open>Reading back what \<open>issue\<close> writes\<close>

lemma cut_first_append: "c \<notin> set a \<Longrightarrow> cut_first c (a @ c # b) = Some (a, b)"
proof -
  assume c: "c \<notin> set a"
  have "dropWhile (\<lambda>x. x \<noteq> c) (a @ c # b) = c # b" "takeWhile (\<lambda>x. x \<noteq> c) (a @ c # b) = a"
    using c by (induction a) auto
  then show ?thesis by (simp add: cut_first_def)
qed

lemma cut_last_append: "c \<notin> set b \<Longrightarrow> cut_last c (a @ c # b) = Some (a, b)"
  by (simp add: cut_last_def cut_first_append)

lemma cut_first_Cons:
  "cut_first c (x # s) = (if x = c then Some ([], s)
     else case cut_first c s of None \<Rightarrow> None | Some (a, b) \<Rightarrow> Some (x # a, b))"
  by (cases "dropWhile (\<lambda>y. y \<noteq> c) s")
     (simp_all add: cut_first_def del: dropWhile_eq_Nil_conv)

lemma cut_first_Some: "cut_first c s = Some (a, b) \<Longrightarrow> s = a @ c # b \<and> c \<notin> set a"
proof (induction s arbitrary: a)
  case Nil
  then show ?case by (simp add: cut_first_def)
next
  case (Cons x s)
  show ?case
  proof (cases "x = c")
    case True
    with Cons.prems show ?thesis by (simp add: cut_first_Cons)
  next
    case False
    with Cons.prems obtain a' where "cut_first c s = Some (a', b)" "a = x # a'"
      by (auto simp: cut_first_Cons split: option.splits)
    with Cons.IH False show ?thesis by auto
  qed
qed

lemma codec_okD:
  assumes "codec_ok C"
  shows "cd_unb64 C (cd_b64 C s) = s" "ascii (cd_b64 C s)" "CHR ''.'' \<notin> set (cd_b64 C s)"
    "list_all js_digit s \<Longrightarrow> CHR ''_'' \<notin> set (cd_b64 C s)"
    "cd_b64 C (cd_hmac C k d) \<noteq> []"
    "list_all is_jstr (tp_bits p) \<Longrightarrow>
       cd_parse C (cd_stringify C (payload_json p)) = Some (payload_json p)"
  using assms unfolding codec_ok_def by blast+

lemma embeddedVersion_payload [simp]: "embeddedVersion (payload_json p) = tp_tokenVersion p"
  by (simp add: embeddedVersion_def payload_fields)

lemma open_token_text:
  assumes C: "codec_ok C" and u: "is_snowflake (tp_userId p)" and b: "list_all is_jstr (tp_bits p)"
  shows "open_token C M (token_text C M p) =
    (Some (tp_userId p), if payload_ok p then Inr p else Inl (TokenError INVALID_FORMAT))"
proof -
  note [simp] = codec_okD [OF C]
  have d: "CHR ''_'' \<notin> set (''R'' @ cd_b64 C (tp_userId p))"
    using u by (simp add: is_snowflake_def)
  have sig: "sign C x k \<noteq> []" "CHR ''.'' \<notin> set (sign C x k)" "ascii (sign C x k)" for x k
    by (simp_all add: sign_def)
  have last: "cut_last (CHR ''.'') (token_text C M p) = Some (token_body C p,
      sign C (token_body C p) (signingKey C M (tp_userId p) (tp_tokenVersion p)))"
    unfolding token_text_def append_Cons append_Nil by (rule cut_last_append) (rule sig(2))
  have first: "cut_first (CHR ''_'') (token_body C p) =
      Some (''R'' @ cd_b64 C (tp_userId p), cd_b64 C (cd_stringify C (payload_json p)))"
    using cut_first_append [OF d, of "cd_b64 C (cd_stringify C (payload_json p))"]
    by (simp add: token_body_def)
  have R: "js_starts_with (token_text C M p) ''R''"
    by (simp add: token_text_def token_body_def)
  have v: "validateSnowflake (tp_userId p) = Inr ()"
    using u by (simp add: validateSnowflake_def)
  show ?thesis
    using b by (simp add: open_token_def Let_def last first R sig safeEqual_ascii v)
qed

lemma cut_last_Some: "cut_last c s = Some (a, b) \<Longrightarrow> s = a @ c # b"
proof -
  assume "cut_last c s = Some (a, b)"
  then have "cut_first c (rev s) = Some (rev b, rev a)"
    by (auto simp: cut_last_def split: option.splits)
  then have "rev s = rev b @ c # rev a" by (blast dest: cut_first_Some)
  then have "rev (rev s) = rev (rev b @ c # rev a)" by (rule arg_cong)
  then show ?thesis by simp
qed

text \<open>What an opened token has in common: a signature under the key of its user and version.\<close>

lemma open_token_Inr:
  assumes C: "codec_ok C" and o: "open_token C M token = (uid, Inr p)"
  obtains body u where "uid = Some u" "is_snowflake u" "payload_ok p"
    "token = body @ ''.'' @ sign C body (signingKey C M u (tp_tokenVersion p))"
proof -
  from o obtain body sg where c: "cut_last (CHR ''.'') token = Some (body, sg)" "sg \<noteq> []"
    by (auto simp: open_token_def Let_def split: if_splits option.splits prod.splits)
  from o c obtain front part where f: "cut_first (CHR ''_'') body = Some (front, part)"
    by (auto simp: open_token_def Let_def split: if_splits option.splits prod.splits)
  let ?u = "cd_unb64 C (tl front)"
  from o c f obtain raw where r: "cd_parse C (cd_unb64 C part) = Some raw"
    by (auto simp: open_token_def Let_def split: if_splits option.splits prod.splits)
  let ?sig = "sign C body (signingKey C M ?u (embeddedVersion raw))"
  have "ascii ?sig" by (simp add: sign_def codec_okD [OF C])
  then have s: "safeEqual sg ?sig = (if ascii sg then Inr (sg = ?sig) else Inl RangeError)"
    by (rule safeEqual_ascii)
  from o c f r s have u: "uid = Some ?u" "is_snowflake ?u" "sg = ?sig" "assertPayloadShape raw = Inr p"
    by (auto simp: open_token_def Let_def res_bind_Inr if_Inl_Inr split: if_splits)
  then have v: "embeddedVersion raw = tp_tokenVersion p"
    using assertPayloadShape_version [of raw p] by (simp add: embeddedVersion_def)
  show ?thesis
  proof (rule that [of ?u body])
    show "payload_ok p" using u(4) by (rule assertPayloadShape_ok)
    show "token = body @ ''.'' @ sign C body (signingKey C M ?u (tp_tokenVersion p))"
      using cut_last_Some [OF c(1)] u(3) v by simp
  qed (use u in simp_all)
qed

text \<open>The store accepts a payload: its version is the current one, and the rotation check passes.\<close>

definition current :: "'s token_ops \<Rightarrow> 's \<Rightarrow> token_payload \<Rightarrow> bool" where
  "current S st p \<longleftrightarrow> tp_tokenVersion p = packVersion (ts_getGlobalVersion S st (tp_userId p))
     (ts_getDeviceVersion S st (tp_userId p) (tp_deviceId p) (tp_guildId p))"

definition rotated :: "'s token_ops \<Rightarrow> 's \<Rightarrow> token_payload \<Rightarrow> bool" where
  "rotated S st p \<longleftrightarrow> truthy (ts_getLastJti S st (tp_userId p) (tp_deviceId p) (tp_guildId p)) \<and>
     ts_getLastJti S st (tp_userId p) (tp_deviceId p) (tp_guildId p) \<noteq> Some (tp_jti p)"

definition seen :: "'s token_ops \<Rightarrow> int \<Rightarrow> 's \<Rightarrow> token_payload \<Rightarrow> 's" where
  "seen S now st p =
     ts_upsertDevice S now st (tp_userId p) (tp_deviceId p) (seen_meta now) (tp_guildId p)"

lemma verify_opened:
  assumes o: "open_token C M token = (Some (tp_userId p), Inr p)"
    and i: "tp_iss p = tm_issuer M" "tp_aud p = tm_audience M"
  shows "verify C S M now w token skip =
    (if tp_exp p \<le> now_s now then
       (fail_verify M now True (Some (tp_userId p)) (Some p) (emit M (payload_event Ev_expired now p) w)
          (TokenError TOKEN_EXPIRED), Inl (TokenError TOKEN_EXPIRED))
     else if \<not> current S (tw_store w) p then
       (fail_verify M now False (Some (tp_userId p)) (Some p) w (TokenError TOKEN_REVOKED),
        Inl (TokenError TOKEN_REVOKED))
     else if \<not> skip \<and> rotated S (tw_store w) p then
       (fail_verify M now True (Some (tp_userId p)) (Some p)
          (emit M (payload_event Ev_rotation_attack now p)
            (w\<lparr>tw_store := fst (ts_incrementDeviceVersion S now (tw_store w) (tp_userId p)
               (tp_deviceId p) (tp_guildId p))\<rparr>))
          (TokenError TOKEN_REVOKED), Inl (TokenError TOKEN_REVOKED))
     else (emit M (payload_event Ev_verified now p) (w\<lparr>tw_store := seen S now (tw_store w) p\<rparr>),
           Inr \<lparr>vt_payload = p, vt_raw = token\<rparr>))"
  by (simp add: verify_def o i check_claims_def Let_def current_def rotated_def seen_def)

lemma verify_Inr:
  "verify C S M now w token skip = (w', Inr v) \<longleftrightarrow>
     (let p = vt_payload v
      in open_token C M token = (Some (tp_userId p), Inr p) \<and> tp_iss p = tm_issuer M \<and>
         tp_aud p = tm_audience M \<and> now_s now < tp_exp p \<and> current S (tw_store w) p \<and>
         (skip \<or> \<not> rotated S (tw_store w) p) \<and> v = \<lparr>vt_payload = p, vt_raw = token\<rparr> \<and>
         w' = emit M (payload_event Ev_verified now p) (w\<lparr>tw_store := seen S now (tw_store w) p\<rparr>))"
proof (cases "open_token C M token")
  case (Pair uid r)
  show ?thesis
  proof (cases r)
    case (Inl e)
    then show ?thesis by (auto simp: verify_def Pair Let_def)
  next
    case (Inr p)
    show ?thesis
    proof (cases "check_claims M uid p")
      case (Inl e)
      then show ?thesis
        by (auto simp: verify_def Pair Inr Let_def check_claims_def split: if_splits)
    next
      case c: (Inr u)
      then have c': "uid = Some (tp_userId p)" "tp_iss p = tm_issuer M" "tp_aud p = tm_audience M"
        by (auto simp: check_claims_def split: if_splits)
      have op: "open_token C M token = (Some (tp_userId p), Inr p)"
        by (simp add: Pair Inr c'(1))
      show ?thesis
        by (cases v) (auto simp: verify_opened [OF op c'(2,3)] op c' Let_def)
    qed
  qed
qed

lemma verify_skip:
  "verify C S M now w token False = (w', Inr v) \<Longrightarrow> verify C S M now w token True = (w', Inr v)"
  by (simp add: verify_Inr Let_def)

lemma tw_store_emit [simp]: "tw_store (emit M ev w) = tw_store w"
  by (simp add: emit_def)

lemma tw_store_fail [simp]: "tw_store (fail_verify M now b u p w e) = tw_store w"
  by (simp add: fail_verify_def Let_def split: token_exn.split)

lemma mp_seen [simp]: "mp_tokenVersion (seen_meta now) = None" "mp_lastJti (seen_meta now) = None"
  by (simp_all add: seen_meta_def)

end
