(* ===== verification/TokenSteps.thy ===== *)
theory TokenSteps
  imports TokenManager
begin

text \<open>
  The token manager as a state machine: one step is a call of one of its operations, with any arguments,
  time and random texts.  Inside the contracts of the stores the effect of every operation on the
  versions is worked out once, for all stores.
\<close>

inductive tm_step :: "codec \<Rightarrow> 's token_ops \<Rightarrow> token_manager \<Rightarrow> 's token_world \<Rightarrow> 's token_world \<Rightarrow> bool"
  for C S M where
  step_issue: "issue C S M now rnd jti w userId options = (w', r) \<Longrightarrow> tm_step C S M w w'"
| step_verify: "verify C S M now w token skip = (w', r) \<Longrightarrow> tm_step C S M w w'"
| step_refresh: "refresh C S M now rnd jti w token getBits = (w', r) \<Longrightarrow> tm_step C S M w w'"
| step_revokeAll: "revokeAll S M now w userId = (w', r) \<Longrightarrow> tm_step C S M w w'"
| step_revokeDevice: "revokeDevice S M now w userId deviceId guildId = (w', r) \<Longrightarrow> tm_step C S M w w'"

abbreviation tm_steps :: "codec \<Rightarrow> 's token_ops \<Rightarrow> token_manager \<Rightarrow> 's token_world \<Rightarrow> 's token_world \<Rightarrow> bool" where
  "tm_steps C S M \<equiv> (tm_step C S M)\<^sup>*\<^sup>*"

inductive_cases tm_stepE: "tm_step C S M w w'"

subsection \<open>The operations on the store\<close>

text \<open>The store after an operation, without the audit.\<close>

definition issue_store ::
    "'s token_ops \<Rightarrow> int \<Rightarrow> string \<Rightarrow> string \<Rightarrow> 's \<Rightarrow> string \<Rightarrow> issue_options \<Rightarrow> 's" where
  "issue_store S now rnd jti st u opts =
    (let d = nullish (io_deviceId opts) rnd; g = io_guildId opts
     in ts_upsertDevice S now st u d (issue_meta now jti opts
          (if io_useDeviceVersion opts then ts_getDeviceVersion S st u d g else 0)) g)"

lemma issue_Inr:
  "issue C S M now rnd jti w u opts = (w', Inr token) \<Longrightarrow>
     is_snowflake u \<and> validateBits M (nullish (io_bits opts) []) = Inr () \<and>
     tw_store w' = issue_store S now rnd jti (tw_store w) u opts \<and>
     token = token_text C M (issue_payload M now jti (nullish (io_deviceId opts) rnd) u opts
       (packVersion (ts_getGlobalVersion S (tw_store w) u)
         (if io_useDeviceVersion opts
          then ts_getDeviceVersion S (tw_store w) u (nullish (io_deviceId opts) rnd) (io_guildId opts)
          else 0)))"
  by (auto simp: issue_def Let_def issue_store_def split: sum.splits)

lemma issue_store_cases:
  "tw_store (fst (issue C S M now rnd jti w u opts)) = tw_store w \<or>
   tw_store (fst (issue C S M now rnd jti w u opts)) = issue_store S now rnd jti (tw_store w) u opts"
  by (auto simp: issue_def Let_def issue_store_def split: sum.splits)

lemma issue_allowed:
  "is_snowflake u \<Longrightarrow> validateBits M (nullish (io_bits opts) []) = Inr () \<Longrightarrow>
   \<exists>token. snd (issue C S M now rnd jti w u opts) = Inr token"
  by (simp add: issue_def Let_def validateSnowflake_def)

lemma verify_store_cases:
  "tw_store (fst (verify C S M now w token skip)) = tw_store w \<or>
   (\<exists>p. tw_store (fst (verify C S M now w token skip)) = seen S now (tw_store w) p) \<or>
   (\<exists>u d g. tw_store (fst (verify C S M now w token skip)) =
      fst (ts_incrementDeviceVersion S now (tw_store w) u d g))"
  by (auto simp: verify_def Let_def seen_def split: sum.splits prod.splits)

lemma refresh_cases:
  "(\<exists>w1 p e. verify C S M now w token True = (w1, Inr p) \<and>
      refresh C S M now rnd jti w token getBits = (fst (issue C S M now rnd jti w1
        (tp_userId (vt_payload p)) (refresh_options getBits (vt_payload p))), Inl e)) \<or>
   (\<exists>w1 e. verify C S M now w token True = (w1, Inl e) \<and>
      refresh C S M now rnd jti w token getBits = (w1, Inl e)) \<or>
   (\<exists>w1 w2 p t. verify C S M now w token True = (w1, Inr p) \<and>
      issue C S M now rnd jti w1 (tp_userId (vt_payload p)) (refresh_options getBits (vt_payload p))
        = (w2, Inr t) \<and>
      refresh C S M now rnd jti w token getBits
        = (emit M (payload_event Ev_refreshed now (vt_payload p)) w2, Inr t))"
  by (auto simp: refresh_def Let_def split: sum.splits prod.splits)

lemma refresh_Inr:
  assumes "refresh C S M now rnd jti w token getBits = (w', Inr t)"
  obtains w1 v w2 where "verify C S M now w token True = (w1, Inr v)"
    "issue C S M now rnd jti w1 (tp_userId (vt_payload v)) (refresh_options getBits (vt_payload v))
       = (w2, Inr t)"
    "tw_store w' = tw_store w2"
  using assms by (auto simp: refresh_def Let_def split: sum.splits prod.splits)

lemma revokeAll_store:
  "tw_store (fst (revokeAll S M now w u)) =
     (if is_snowflake u then fst (ts_incrementGlobalVersion S (tw_store w) u) else tw_store w)"
  by (simp add: revokeAll_def validateSnowflake_def split: prod.split)

lemma revokeDevice_store:
  "tw_store (fst (revokeDevice S M now w u d g)) =
     (if is_snowflake u
      then ts_upsertDevice S now (fst (ts_incrementDeviceVersion S now (tw_store w) u d g)) u d
        (seen_meta now) g
      else tw_store w)"
  by (simp add: revokeDevice_def validateSnowflake_def split: prod.split)

subsection \<open>Versions under a step\<close>

text \<open>
  Whatever a step does to the store is a sequence of the three writing operations; a property that all of
  them keep is kept by every step.
\<close>

definition store_closed :: "'s token_ops \<Rightarrow> ('s \<Rightarrow> bool) \<Rightarrow> bool" where
  "store_closed S P \<longleftrightarrow>
     (\<forall>st u. P st \<longrightarrow> P (fst (ts_incrementGlobalVersion S st u))) \<and>
     (\<forall>now st u d g. P st \<longrightarrow> P (fst (ts_incrementDeviceVersion S now st u d g))) \<and>
     (\<forall>now st u d m g. P st \<longrightarrow> P (ts_upsertDevice S now st u d m g))"

lemma store_closedD:
  assumes "store_closed S P" "P st"
  shows "P (fst (ts_incrementGlobalVersion S st u))"
    "P (fst (ts_incrementDeviceVersion S now st u d g))"
    "P (ts_upsertDevice S now st u d m g)"
    "P (issue_store S now rnd jti st u opts)"
    "P (seen S now st p)"
  using assms unfolding store_closed_def issue_store_def seen_def Let_def by blast+

lemma closed_issue:
  "store_closed S P \<Longrightarrow> P (tw_store w) \<Longrightarrow> P (tw_store (fst (issue C S M now rnd jti w u opts)))"
  using issue_store_cases [of C S M now rnd jti w u opts] store_closedD(4) [of S P "tw_store w"]
  by metis

lemma closed_verify:
  "store_closed S P \<Longrightarrow> P (tw_store w) \<Longrightarrow> P (tw_store (fst (verify C S M now w token skip)))"
  using verify_store_cases [of C S M now w token skip] store_closedD(2,5) [of S P "tw_store w"]
  by metis

lemma closed_refresh:
  assumes "store_closed S P" "P (tw_store w)"
  shows "P (tw_store (fst (refresh C S M now rnd jti w token getBits)))"
proof -
  have v: "P (tw_store (fst (verify C S M now w token True)))"
    by (rule closed_verify [OF assms])
  then have i: "P (tw_store (fst (issue C S M now rnd jti (fst (verify C S M now w token True)) u opts)))"
    for u opts by (rule closed_issue [OF assms(1)])
  show ?thesis
    using refresh_cases [of C S M now w token rnd jti getBits]
    by (elim disjE exE conjE) (use v i in \<open>metis fst_conv tw_store_emit\<close>)+
qed

lemma tm_step_closed:
  assumes "store_closed S P" "tm_step C S M w w'" "P (tw_store w)"
  shows "P (tw_store w')"
  using assms(2)
proof cases
  case (step_issue now rnd jti userId options r)
  then show ?thesis using closed_issue [OF assms(1,3)] by (metis fst_conv)
next
  case (step_verify now token skip r)
  then show ?thesis using closed_verify [OF assms(1,3)] by (metis fst_conv)
next
  case (step_refresh now rnd jti token getBits r)
  then show ?thesis using closed_refresh [OF assms(1,3)] by (metis fst_conv)
next
  case (step_revokeAll now userId r)
  then show ?thesis
    using revokeAll_store [of S M now w userId] store_closedD(1) [OF assms(1,3)] assms(3) by auto
next
  case (step_revokeDevice now userId deviceId guildId r)
  then show ?thesis
    using revokeDevice_store [of S M now w userId deviceId guildId]
      store_closedD(2) [OF assms(1,3)] store_closedD(3) [OF assms(1)] assms(3) by auto
qed

lemma tm_steps_closed:
  "tm_steps C S M w w' \<Longrightarrow> store_closed S P \<Longrightarrow> P (tw_store w) \<Longrightarrow> P (tw_store w')"
  by (induction rule: rtranclp_induct) (auto intro: tm_step_closed)

end
