(* ===== verification/TokenCodec.thy ===== *)
theory TokenCodec
  imports TokenTypes
begin

text \<open>
  An executable codec with the laws of \<open>codec_ok\<close>, on which the witnesses about tokens run: texts are
  written as letters, four bits each, and a payload as its fields with a letter for the type of each.
  It stands in for base64url, JSON and HMAC only in the witnesses.
\<close>

definition nib :: "nat \<Rightarrow> char" where
  "nib n = char_of (97 + n)"

definition unnib :: "char \<Rightarrow> nat" where
  "unnib c = of_char c - 97"

fun hexs :: "string \<Rightarrow> string" where
  "hexs [] = []"
| "hexs (c # s) = nib (of_char c div 16) # nib (of_char c mod 16) # hexs s"

fun unhexs :: "string \<Rightarrow> string" where
  "unhexs (a # b # s) = char_of (16 * unnib a + unnib b) # unhexs s"
| "unhexs _ = []"

definition hex_letter :: "char \<Rightarrow> bool" where
  "hex_letter c = (97 \<le> (of_char c :: nat) \<and> (of_char c :: nat) < 113)"

lemma nib_simps [simp]: "n < 16 \<Longrightarrow> unnib (nib n) = n" "n < 16 \<Longrightarrow> hex_letter (nib n)"
  by (simp_all add: nib_def unnib_def hex_letter_def of_char_of)

lemma char_div_16 [simp]: "(of_char (c :: char) :: nat) div 16 < 16"
  by (rule less_mult_imp_div_less) (use nat_of_char_less_256 [of c] in simp)

lemma unhexs_hexs [simp]: "unhexs (hexs s) = s"
  by (induction s) simp_all

lemma hexs_letters: "list_all hex_letter (hexs s)"
  by (induction s) simp_all

lemma hexs_notin: "\<not> hex_letter c \<Longrightarrow> c \<notin> set (hexs s)"
  using hexs_letters [of s] by (auto simp: list_all_iff)

subsection \<open>Payloads as text\<close>

definition item_text :: "jval \<Rightarrow> string" where
  "item_text v = (case v of JStr s \<Rightarrow> hexs s | _ \<Rightarrow> [])"

fun flat_text :: "jval \<Rightarrow> string" where
  "flat_text (JStr s) = CHR ''s'' # hexs s"
| "flat_text (JNum i) = (if i < 0 then ''m'' else ''i'') @ nat_to_str (nat \<bar>i\<bar>)"
| "flat_text (JArr xs) = CHR ''a'' # concat (map (\<lambda>x. CHR ''.'' # item_text x) xs)"
| "flat_text _ = []"

definition flat_value :: "string \<Rightarrow> jval" where
  "flat_value t = (case t of [] \<Rightarrow> JNull | c # r \<Rightarrow>
     if c = CHR ''s'' then JStr (unhexs r)
     else if c = CHR ''i'' then JNum (int (nat_of_digits r))
     else if c = CHR ''m'' then JNum (- int (nat_of_digits r))
     else JArr (map (\<lambda>s. JStr (unhexs s)) (tl (js_split (CHR ''.'') r))))"

fun flat :: "jval \<Rightarrow> bool" where
  "flat (JStr s) = True"
| "flat (JNum i) = True"
| "flat (JArr xs) = list_all is_jstr xs"
| "flat _ = False"

definition field_text :: "string \<times> jval \<Rightarrow> string" where
  "field_text f = hexs (fst f) @ CHR '':'' # flat_text (snd f)"

definition field_value :: "string \<Rightarrow> string \<times> jval" where
  "field_value t = (unhexs (takeWhile (\<lambda>c. c \<noteq> CHR '':'') t),
     flat_value (tl (dropWhile (\<lambda>c. c \<noteq> CHR '':'') t)))"

definition demo_codec :: codec where
  "demo_codec =
    \<lparr>cd_hmac = (\<lambda>k d. k @ ''|'' @ d), cd_b64 = hexs, cd_unb64 = unhexs,
     cd_stringify = (\<lambda>v. case v of JObj kvs \<Rightarrow> js_join '','' (map field_text kvs) | _ \<Rightarrow> []),
     cd_parse = (\<lambda>t. Some (JObj (map field_value (js_split (CHR '','') t))))\<rparr>"

lemma js_split_items:
  "c \<notin> set a \<Longrightarrow> \<forall>x \<in> set xs. c \<notin> set (h x) \<Longrightarrow>
   js_split c (a @ concat (map (\<lambda>x. c # h x) xs)) = a # map h xs"
  by (induction xs arbitrary: a) (simp_all add: js_split_no_sep js_split_append)

lemma item_text_notin: "\<not> hex_letter c \<Longrightarrow> c \<notin> set (item_text v)"
  by (simp add: item_text_def hexs_notin split: jval.split)

lemma flat_array: "js_split (CHR ''.'') (concat (map (\<lambda>x. CHR ''.'' # item_text x) xs)) = [] # map item_text xs"
  using js_split_items [of "CHR ''.''" "[]" xs item_text] item_text_notin [of "CHR ''.''"]
  by (simp add: hex_letter_def)

lemma flat_value_text: "flat v \<Longrightarrow> flat_value (flat_text v) = v"
proof (cases v)
  case (JArr xs)
  assume "flat v"
  then have x: "list_all is_jstr xs" by (simp add: JArr)
  have "map (\<lambda>s. JStr (unhexs s)) (map item_text xs) = xs"
    using x
  proof (induction xs)
    case (Cons y ys)
    then show ?case by (cases y) (simp_all add: item_text_def)
  qed simp
  then show ?thesis by (simp add: JArr flat_value_def flat_array)
qed (auto simp: flat_value_def)

lemma field_value_text: "flat (snd f) \<Longrightarrow> field_value (field_text f) = f"
proof -
  assume f: "flat (snd f)"
  have n: "\<forall>x \<in> set (hexs (fst f)). x \<noteq> CHR '':''"
    using hexs_notin [of "CHR '':''" "fst f"] by (auto simp: hex_letter_def)
  have "takeWhile (\<lambda>c. c \<noteq> CHR '':'') (field_text f) = hexs (fst f)"
    "dropWhile (\<lambda>c. c \<noteq> CHR '':'') (field_text f) = CHR '':'' # flat_text (snd f)"
    using n by (simp_all add: field_text_def takeWhile_append2 dropWhile_append2)
  then show ?thesis by (simp add: field_value_def flat_value_text [OF f])
qed

lemma flat_text_no_comma: "flat v \<Longrightarrow> CHR '','' \<notin> set (flat_text v)"
proof (cases v)
  case (JArr xs)
  assume "flat v"
  show ?thesis
    using item_text_notin [of "CHR '',''"] by (auto simp: JArr hex_letter_def)
next
  case (JNum i)
  have "\<not> js_digit (CHR '','')" by (simp add: js_digit_def)
  then show ?thesis using nat_to_str_digits [of "nat \<bar>i\<bar>"] by (auto simp: JNum list_all_iff)
qed (auto simp: hexs_notin hex_letter_def)

lemma field_text_no_comma: "flat (snd f) \<Longrightarrow> CHR '','' \<notin> set (field_text f)"
  using hexs_notin [of "CHR '',''" "fst f"] flat_text_no_comma [of "snd f"]
  by (auto simp: field_text_def hex_letter_def)

lemma demo_parse:
  assumes "kvs \<noteq> []" "list_all (\<lambda>f. flat (snd f)) kvs"
  shows "cd_parse demo_codec (cd_stringify demo_codec (JObj kvs)) = Some (JObj kvs)"
proof -
  have "js_split (CHR '','') (js_join '','' (map field_text kvs)) = map field_text kvs"
    by (rule js_split_join) (use assms field_text_no_comma in \<open>auto simp: list_all_iff\<close>)
  moreover have "map field_value (map field_text kvs) = kvs"
    using assms(2) by (induction kvs) (simp_all add: field_value_text)
  ultimately show ?thesis by (simp add: demo_codec_def)
qed

lemma demo_codec_ok: "codec_ok demo_codec"
proof -
  have a: "ascii (hexs s)" for s
    using hexs_letters [of s] by (auto simp: ascii_def list_all_iff hex_letter_def)
  have p: "list_all is_jstr (tp_bits p) \<Longrightarrow>
      cd_parse demo_codec (cd_stringify demo_codec (payload_json p)) = Some (payload_json p)" for p
    unfolding payload_json_def
    by (rule demo_parse) (simp_all split: option.split)
  have n: "CHR ''.'' \<notin> set (hexs s)" "CHR ''_'' \<notin> set (hexs s)" for s
    by (rule hexs_notin; simp add: hex_letter_def)+
  have h: "cd_b64 demo_codec = hexs" "cd_unb64 demo_codec = unhexs" "cd_hmac demo_codec k d = k @ ''|'' @ d"
    for k d by (simp_all add: demo_codec_def)
  have e: "hexs (k @ ''|'' @ d) \<noteq> []" for k d by (cases k) simp_all
  show ?thesis
    unfolding codec_ok_def h using a p n e by auto
qed

end
