(* ===== verification/TokenSafety.thy ===== *)
theory TokenSafety
  imports TokenSteps TokenCodec
begin

text \<open>
  What the token manager guarantees, for the stores that keep their contract, and what it does on
  PostgreSQL: issued tokens verify until they expire, accepted tokens are signed and current, revocation
  is final, reuse of a rotated token revokes its device, and the ways around these.
\<close>

subsection \<open>Over any store\<close>

context token_store
begin

lemma seen_simps [simp]:
  "ts_getGlobalVersion S (seen S now st p) u = ts_getGlobalVersion S st u"
  "ts_getDeviceVersion S (seen S now st p) u d g = ts_getDeviceVersion S st u d g"
  by (simp_all add: seen_def upsert_global upsert_version)

lemma seen_jti [simp]: "ts_getLastJti S (seen S now st p) u d g = ts_getLastJti S st u d g"
  using key_jti [of u d g "tp_userId p" "tp_deviceId p" "tp_guildId p" st]
  by (simp add: seen_def upsert_jti)

lemma current_seen [simp]: "current S (seen S now st p) q = current S st q"
  by (simp add: current_def)

lemma rotated_seen [simp]: "rotated S (seen S now st p) q = rotated S st q"
  by (simp add: rotated_def)

lemma issue_store_global [simp]:
  "ts_getGlobalVersion S (issue_store S now rnd jti st u opts) v = ts_getGlobalVersion S st v"
  by (simp add: issue_store_def Let_def upsert_global)

lemma global_closed: "store_closed S (\<lambda>st. n \<le> ts_getGlobalVersion S st u)"
  by (simp add: store_closed_def global_inc device_global upsert_global)

lemma payload_key:
  "key (tp_userId (issue_payload M now jti d u opts v)) d (tp_guildId (issue_payload M now jti d u opts v))
   = key u d (io_guildId opts)"
  by (simp add: issue_payload_def Let_def key_truthy)

lemma issued_jti:
  "jti \<noteq> [] \<Longrightarrow> \<not> rotated S (issue_store S now rnd jti st u opts)
     (issue_payload M now jti (nullish (io_deviceId opts) rnd) u opts v)"
  by (simp add: rotated_def issue_store_def Let_def upsert_jti issue_meta_def issue_payload_def
      key_truthy)

text \<open>A payload of version \<open>g:d\<close> is stale once the global version has passed \<open>g\<close>.\<close>

lemma stale_global:
  assumes "current S st p" "ts_getGlobalVersion S st (tp_userId p) < ts_getGlobalVersion S st' (tp_userId p)"
  shows "\<not> current S st' p"
  using assms by (simp add: current_def)

lemma refused_when_stale:
  assumes "open_token C M token = (Some (tp_userId p), Inr p)" "tp_iss p = tm_issuer M"
    "tp_aud p = tm_audience M" "\<not> current S (tw_store w) p"
  shows "snd (verify C S M now w token skip) =
    Inl (TokenError (if tp_exp p \<le> now_s now then TOKEN_EXPIRED else TOKEN_REVOKED))"
  using assms by (simp add: verify_opened)

lemma revoked_all_refused:
  assumes v: "verify C S M now w token skip = (w0, Inr v)"
    and r: "revokeAll S M now' w (tp_userId (vt_payload v)) = (w1, Inr n)"
    and s: "tm_steps C S M w1 w2"
  shows "snd (verify C S M now'' w2 token skip') = Inl (TokenError
    (if tp_exp (vt_payload v) \<le> now_s now'' then TOKEN_EXPIRED else TOKEN_REVOKED))"
proof -
  let ?p = "vt_payload v"
  let ?u = "tp_userId ?p"
  have v': "open_token C M token = (Some ?u, Inr ?p)" "tp_iss ?p = tm_issuer M"
    "tp_aud ?p = tm_audience M" "current S (tw_store w) ?p"
    using v by (simp_all add: verify_Inr Let_def)
  have "is_snowflake ?u" using r by (auto simp: revokeAll_def validateSnowflake_def split: if_splits)
  then have "tw_store w1 = fst (ts_incrementGlobalVersion S (tw_store w) ?u)"
    using revokeAll_store [of S M now' w ?u] r by simp
  then have "Suc (ts_getGlobalVersion S (tw_store w) ?u) \<le> ts_getGlobalVersion S (tw_store w1) ?u"
    by (simp add: global_inc)
  with s have "Suc (ts_getGlobalVersion S (tw_store w) ?u) \<le> ts_getGlobalVersion S (tw_store w2) ?u"
    by (rule tm_steps_closed [OF _ global_closed])
  then have "\<not> current S (tw_store w2) ?p"
    by (intro stale_global [OF v'(4)]) simp
  with v'(1-3) show ?thesis by (rule refused_when_stale)
qed

lemma revoked_device_refused:
  assumes v: "verify C S M now w token skip = (w0, Inr v)"
    and r: "revokeDevice S M now' w (tp_userId (vt_payload v)) (tp_deviceId (vt_payload v))
      (tp_guildId (vt_payload v)) = (w1, Inr n)"
  shows "snd (verify C S M now'' w1 token skip') = Inl (TokenError
    (if tp_exp (vt_payload v) \<le> now_s now'' then TOKEN_EXPIRED else TOKEN_REVOKED))"
proof -
  let ?p = "vt_payload v"
  have v': "open_token C M token = (Some (tp_userId ?p), Inr ?p)" "tp_iss ?p = tm_issuer M"
    "tp_aud ?p = tm_audience M" "current S (tw_store w) ?p"
    using v by (simp_all add: verify_Inr Let_def)
  have "is_snowflake (tp_userId ?p)"
    using r by (auto simp: revokeDevice_def validateSnowflake_def split: if_splits)
  then have "\<not> current S (tw_store w1) ?p"
    using revokeDevice_store [of S M now' w "tp_userId ?p" "tp_deviceId ?p" "tp_guildId ?p"] r v'(4)
    by (simp add: current_def upsert_global upsert_version device_global device_inc)
  with v'(1-3) show ?thesis by (rule refused_when_stale)
qed

text \<open>Refreshing keeps the version and hands the device over to the new \<open>jti\<close>.\<close>

lemma refresh_effect:
  assumes "refresh C S M now rnd jti w token getBits = (w', Inr t)"
  obtains v where "verify C S M now w token True = (fst (verify C S M now w token True), Inr v)"
    "current S (tw_store w') = current S (tw_store w)"
    "ts_getLastJti S (tw_store w') (tp_userId (vt_payload v)) (tp_deviceId (vt_payload v))
       (tp_guildId (vt_payload v)) = Some jti"
    "is_snowflake (tp_userId (vt_payload v))"
proof -
  from assms obtain w1 v w2 where v: "verify C S M now w token True = (w1, Inr v)"
    and i: "issue C S M now rnd jti w1 (tp_userId (vt_payload v)) (refresh_options getBits (vt_payload v))
       = (w2, Inr t)" and w: "tw_store w' = tw_store w2"
    by (rule refresh_Inr)
  let ?p = "vt_payload v"
  have w1: "tw_store w1 = seen S now (tw_store w) ?p"
    using v by (simp add: verify_Inr Let_def)
  have s: "tw_store w' = issue_store S now rnd jti (seen S now (tw_store w) ?p) (tp_userId ?p)
      (refresh_options getBits ?p)"
    using issue_Inr [OF i] w w1 by simp
  have cur: "current S (tw_store w') q = current S (tw_store w) q" for q
    by (simp add: current_def s issue_store_def Let_def refresh_options_def upsert_version
        issue_meta_def upsert_global)
  have "ts_getLastJti S (tw_store w') (tp_userId ?p) (tp_deviceId ?p) (tp_guildId ?p) = Some jti"
    by (simp add: s issue_store_def Let_def refresh_options_def upsert_jti issue_meta_def)
  then show ?thesis using cur v issue_Inr [OF i] by (intro that [of v]) auto
qed

lemma reuse_detected:
  assumes r: "refresh C S M now rnd jti w token getBits = (w', Inr t)"
    and v: "verify C S M now' w' token False = (w2, res)" and j: "jti \<noteq> []"
    and o: "open_token C M token = (Some u, Inr p)" and n: "tp_jti p \<noteq> jti"
    and e: "now_s now' < tp_exp p"
  shows "res = Inl (TokenError TOKEN_REVOKED) \<and>
    (\<forall>q. tp_userId q = u \<and> tp_deviceId q = tp_deviceId p \<and> tp_guildId q = tp_guildId p \<longrightarrow>
      current S (tw_store w') q \<longrightarrow> \<not> current S (tw_store w2) q)"
proof -
  from r obtain x where x: "verify C S M now w token True = (fst (verify C S M now w token True), Inr x)"
    "current S (tw_store w') = current S (tw_store w)"
    "ts_getLastJti S (tw_store w') (tp_userId (vt_payload x)) (tp_deviceId (vt_payload x))
       (tp_guildId (vt_payload x)) = Some jti"
    by (rule refresh_effect)
  have p: "vt_payload x = p" "tp_userId p = u" "tp_iss p = tm_issuer M" "tp_aud p = tm_audience M"
    "current S (tw_store w) p"
    using iffD1 [OF verify_Inr x(1)] o by (auto simp: Let_def)
  have rot: "rotated S (tw_store w') p"
    using x(3) p(1) j n by (simp add: rotated_def truthy_def)
  have op: "open_token C M token = (Some (tp_userId p), Inr p)" using o p(2) by simp
  have cur: "current S (tw_store w') p" using x(2) p(5) by simp
  from v have "(w2, res) = verify C S M now' w' token False" by simp
  also have "\<dots> = (fail_verify M now' True (Some (tp_userId p)) (Some p)
          (emit M (payload_event Ev_rotation_attack now' p)
            (w'\<lparr>tw_store := fst (ts_incrementDeviceVersion S now' (tw_store w') (tp_userId p)
               (tp_deviceId p) (tp_guildId p))\<rparr>))
          (TokenError TOKEN_REVOKED), Inl (TokenError TOKEN_REVOKED))"
    using e cur rot by (simp add: verify_opened [OF op p(3,4)])
  finally have w2: "tw_store w2 = fst (ts_incrementDeviceVersion S now' (tw_store w') u
      (tp_deviceId p) (tp_guildId p))" and res: "res = Inl (TokenError TOKEN_REVOKED)"
    using p(2) by simp_all
  show ?thesis
    using res by (simp add: current_def w2 device_global device_inc)
qed

lemma reuse_revokes:
  assumes r: "refresh C S M now rnd jti w token getBits = (w', Inr t)"
    and v: "verify C S M now' w' token False = (w2, res)" and j: "jti \<noteq> []"
    and o: "open_token C M token = (Some u, Inr p)" and n: "tp_jti p \<noteq> jti"
    and e: "now_s now' < tp_exp p"
    and x: "verify C S M now2 w' other skip = (w3, Inr x)"
    and q: "tp_userId (vt_payload x) = u" "tp_deviceId (vt_payload x) = tp_deviceId p"
      "tp_guildId (vt_payload x) = tp_guildId p"
  shows "res = Inl (TokenError TOKEN_REVOKED) \<and>
    snd (verify C S M now3 w2 other skip') = Inl (TokenError
      (if tp_exp (vt_payload x) \<le> now_s now3 then TOKEN_EXPIRED else TOKEN_REVOKED))"
proof -
  have x': "open_token C M other = (Some (tp_userId (vt_payload x)), Inr (vt_payload x))"
    "tp_iss (vt_payload x) = tm_issuer M" "tp_aud (vt_payload x) = tm_audience M"
    "current S (tw_store w') (vt_payload x)"
    using x by (simp_all add: verify_Inr Let_def)
  from reuse_detected [OF r v j o n e] x'(4) q
  have "res = Inl (TokenError TOKEN_REVOKED)" "\<not> current S (tw_store w2) (vt_payload x)"
    by blast+
  then show ?thesis using refused_when_stale [OF x'(1-3)] by simp
qed

lemma rotated_refreshes:
  assumes r: "refresh C S M now rnd jti w token getBits = (w', Inr t)"
    and o: "open_token C M token = (Some u, Inr p)" and e: "now_s now' < tp_exp p"
    and b: "tm_bitAllowlist M = None"
  shows "\<exists>t'. snd (refresh C S M now' rnd' jti' w' token getBits') = Inr t'"
proof -
  from r obtain v where v: "verify C S M now w token True = (fst (verify C S M now w token True), Inr v)"
    "current S (tw_store w') = current S (tw_store w)" "is_snowflake (tp_userId (vt_payload v))"
    by (rule refresh_effect)
  have v': "open_token C M token = (Some (tp_userId p), Inr p)" "tp_iss p = tm_issuer M"
    "tp_aud p = tm_audience M" "current S (tw_store w') p"
    and sf: "is_snowflake (tp_userId p)"
    using iffD1 [OF verify_Inr v(1)] o v(2,3) by (auto simp: Let_def)
  define w3 where "w3 = emit M (payload_event Ev_verified now' p) (w'\<lparr>tw_store := seen S now' (tw_store w') p\<rparr>)"
  have ver: "verify C S M now' w' token True = (w3, Inr \<lparr>vt_payload = p, vt_raw = token\<rparr>)"
    using e v'(4) by (simp add: verify_opened [OF v'(1-3)] w3_def)
  have "\<exists>t'. snd (issue C S M now' rnd' jti' w3 (tp_userId p) (refresh_options getBits' p)) = Inr t'"
    by (rule issue_allowed [OF sf]) (simp add: validateBits_def b)
  then obtain t' where "snd (issue C S M now' rnd' jti' w3 (tp_userId p) (refresh_options getBits' p)) = Inr t'" ..
  then have "snd (refresh C S M now' rnd' jti' w' token getBits') = Inr t'"
    by (auto simp: refresh_def ver Let_def split: prod.split sum.split)
  then show ?thesis ..
qed

end

subsection \<open>Over the database stores\<close>

context versioned_store
begin

lemma issued_current:
  "current S (issue_store S now rnd jti st u opts)
     (issue_payload M now jti (nullish (io_deviceId opts) rnd) u opts
       (packVersion (ts_getGlobalVersion S st u)
         (if io_useDeviceVersion opts
          then ts_getDeviceVersion S st u (nullish (io_deviceId opts) rnd) (io_guildId opts) else 0)))"
proof -
  let ?d = "nullish (io_deviceId opts) rnd"
  let ?v = "if io_useDeviceVersion opts then ts_getDeviceVersion S st u ?d (io_guildId opts) else 0"
  have "ts_getDeviceVersion S (issue_store S now rnd jti st u opts) u ?d (when_truthy (io_guildId opts)) = ?v"
    unfolding issue_store_def Let_def
    by (rule upsert_sets_key) (simp_all add: issue_meta_def key_truthy)
  then show ?thesis by (simp add: current_def issue_payload_def Let_def)
qed

lemma issued_verifies:
  assumes C: "codec_ok C" and i: "issue C S M now rnd jti w u opts = (w1, Inr token)"
    and b: "list_all is_jstr (nullish (io_bits opts) [])" and j: "jti \<noteq> []"
    and t: "ttl = min (nullish (io_ttlSeconds opts) (tm_ttlSeconds M)) (tm_maxTtlSeconds M)"
  shows "\<exists>v. snd (verify C S M now' w1 token False) =
      (if ttl \<le> 0 \<or> MAX_TOKEN_SECONDS < ttl then Inl (TokenError INVALID_FORMAT)
       else if now_s now + ttl \<le> now_s now' then Inl (TokenError TOKEN_EXPIRED)
       else Inr \<lparr>vt_payload = issue_payload M now jti (nullish (io_deviceId opts) rnd) u opts v,
                 vt_raw = token\<rparr>)"
proof -
  let ?v = "packVersion (ts_getGlobalVersion S (tw_store w) u)
         (if io_useDeviceVersion opts
          then ts_getDeviceVersion S (tw_store w) u (nullish (io_deviceId opts) rnd) (io_guildId opts)
          else 0)"
  let ?p = "issue_payload M now jti (nullish (io_deviceId opts) rnd) u opts ?v"
  have s: "tw_store w1 = issue_store S now rnd jti (tw_store w) u opts"
    using issue_Inr [OF i] by simp
  have tok: "token = token_text C M ?p" and u: "is_snowflake u" using issue_Inr [OF i] by simp_all
  have f: "tp_userId ?p = u" "tp_bits ?p = nullish (io_bits opts) []" "tp_iss ?p = tm_issuer M"
    "tp_aud ?p = tm_audience M" "tp_exp ?p = now_s now + ttl" "tp_iat ?p = now_s now"
    "tp_tokenVersion ?p = ?v"
    by (simp_all add: issue_payload_def Let_def t)
  have ok: "payload_ok ?p \<longleftrightarrow> \<not> (ttl \<le> 0 \<or> MAX_TOKEN_SECONDS < ttl)"
    by (auto simp: payload_ok_def f)
  have o: "open_token C M token =
      (Some (tp_userId ?p), if payload_ok ?p then Inr ?p else Inl (TokenError INVALID_FORMAT))"
    unfolding tok by (rule open_token_text [OF C]) (use u b f in simp_all)
  show ?thesis
  proof (cases "payload_ok ?p")
    case False
    then show ?thesis using o ok by (simp add: verify_def)
  next
    case True
    then have o': "open_token C M token = (Some (tp_userId ?p), Inr ?p)" using o by simp
    have "current S (tw_store w1) ?p" "\<not> rotated S (tw_store w1) ?p"
      unfolding s by (rule issued_current, rule issued_jti [OF j])
    then show ?thesis
      using True ok f by (intro exI [of _ ?v]) (simp add: verify_opened [OF o' f(3,4)])
  qed
qed

text \<open>
  An issue that does not ask for the device version writes version 0 over the one a revocation has
  reached.
\<close>

lemma version_zero_returns:
  assumes v: "verify C S M t0 w token True = (w0, Inr v)"
    and z: "tp_tokenVersion (vt_payload v) = packVersion g 0"
    and r: "revokeDevice S M t1 w (tp_userId (vt_payload v)) (tp_deviceId (vt_payload v))
      (tp_guildId (vt_payload v)) = (w1, Inr n)"
    and i: "issue C S M t2 rnd jti w1 (tp_userId (vt_payload v)) opts = (w2, Inr token2)"
    and opts: "io_deviceId opts = Some (tp_deviceId (vt_payload v))"
      "io_guildId opts = tp_guildId (vt_payload v)" "\<not> io_useDeviceVersion opts"
    and b: "tm_bitAllowlist M = None" and t: "now_s t3 < tp_exp (vt_payload v)"
  shows "\<exists>token3. snd (refresh C S M t3 rnd' jti' w2 token None) = Inr token3"
proof -
  let ?p = "vt_payload v"
  let ?u = "tp_userId ?p"
  have v': "open_token C M token = (Some ?u, Inr ?p)" "tp_iss ?p = tm_issuer M"
    "tp_aud ?p = tm_audience M" "current S (tw_store w) ?p"
    using v by (simp_all add: verify_Inr Let_def)
  have sf: "is_snowflake ?u" and w2: "tw_store w2 = issue_store S t2 rnd jti (tw_store w1) ?u opts"
    using issue_Inr [OF i] by simp_all
  have w1: "tw_store w1 = ts_upsertDevice S t1 (fst (ts_incrementDeviceVersion S t1 (tw_store w) ?u
      (tp_deviceId ?p) (tp_guildId ?p))) ?u (tp_deviceId ?p) (seen_meta t1) (tp_guildId ?p)"
    using revokeDevice_store [of S M t1 w ?u "tp_deviceId ?p" "tp_guildId ?p"] r sf by simp
  have "ts_getGlobalVersion S (tw_store w2) ?u = ts_getGlobalVersion S (tw_store w) ?u"
    by (simp add: w2 w1 upsert_global device_global)
  moreover have "ts_getDeviceVersion S (tw_store w2) ?u (tp_deviceId ?p) (tp_guildId ?p) = 0"
    unfolding w2 issue_store_def Let_def opts
    by (simp add: opts) (rule upsert_sets, simp add: issue_meta_def)
  ultimately have c: "current S (tw_store w2) ?p" using v'(4) z by (simp add: current_def)
  define w3 where "w3 = emit M (payload_event Ev_verified t3 ?p) (w2\<lparr>tw_store := seen S t3 (tw_store w2) ?p\<rparr>)"
  have ver: "verify C S M t3 w2 token True = (w3, Inr \<lparr>vt_payload = ?p, vt_raw = token\<rparr>)"
    using t c by (simp add: verify_opened [OF v'(1-3)] w3_def)
  have "\<exists>token3. snd (issue C S M t3 rnd' jti' w3 ?u (refresh_options None ?p)) = Inr token3"
    by (rule issue_allowed [OF sf]) (simp add: validateBits_def b)
  then obtain token3 where "snd (issue C S M t3 rnd' jti' w3 ?u (refresh_options None ?p)) = Inr token3" ..
  then have "snd (refresh C S M t3 rnd' jti' w2 token None) = Inr token3"
    by (auto simp: refresh_def ver Let_def split: prod.split sum.split)
  then show ?thesis ..
qed

end

end
