(* ===== verification/TokenProps.thy ===== *)
theory TokenProps
  imports TokenSafety
begin

text \<open>
  The properties of the token manager over the stores of the program, with a demonstration device on
  which each is applied.
\<close>

subsection \<open>A demonstration\<close>

definition demo_tm :: token_manager where
  "demo_tm = \<lparr>tm_masterKeyBuf = ''key'', tm_ttlSeconds = 900, tm_maxTtlSeconds = 86400,
     tm_issuer = ''zene'', tm_audience = ''dashboard'', tm_bitAllowlist = None, tm_onAudit = True,
     tm_onVerifyFailure = False\<rparr>"

definition demo_user :: string where
  "demo_user = ''100000000000000001''"

definition demo_opts :: issue_options where
  "demo_opts = \<lparr>io_bits = Some [JStr ''bot.logs.view''], io_guildId = None, io_deviceId = Some ''laptop'',
     io_deviceLabel = None, io_ttlSeconds = None, io_useDeviceVersion = False\<rparr>"

definition demo_tw :: "token_db token_world" where
  "demo_tw = \<lparr>tw_store = \<lparr>td_global = [], td_devices = []\<rparr>, tw_audit = [], tw_failures = []\<rparr>"

definition demo_login :: "token_db token_world \<times> (token_exn + string)" where
  "demo_login = issue demo_codec (DbTokenStore Sqlite) demo_tm 0 ''rnd'' ''j1'' demo_tw demo_user demo_opts"

lemma demo_user_ok: "is_snowflake demo_user"
  by code_simp

lemma demo_allowed: "validateBits demo_tm bits = Inr ()"
  by (simp add: validateBits_def demo_tm_def)

lemma demo_issue:
  "\<exists>w token. issue C S demo_tm now rnd jti w0 demo_user opts = (w, Inr token)"
  using issue_allowed [OF demo_user_ok demo_allowed] by (metis prod.collapse)

lemma demo_strings: "list_all is_jstr (nullish (io_bits demo_opts) [])"
  by (simp add: demo_opts_def)

lemma demo_ttl: "min (nullish (io_ttlSeconds demo_opts) (tm_ttlSeconds demo_tm)) (tm_maxTtlSeconds demo_tm) = 900"
  by (simp add: demo_opts_def demo_tm_def)

lemma demo_login_verifies:
  assumes "demo_login = (w1, Inr token)" "now_s now < 900"
  shows "\<exists>v. verify demo_codec (DbTokenStore Sqlite) demo_tm now w1 token False =
     (fst (verify demo_codec (DbTokenStore Sqlite) demo_tm now w1 token False), Inr v) \<and>
     tp_userId (vt_payload v) = demo_user \<and> tp_deviceId (vt_payload v) = ''laptop'' \<and>
     tp_guildId (vt_payload v) = None \<and> tp_exp (vt_payload v) = 900 \<and> tp_jti (vt_payload v) = ''j1''"
proof -
  obtain x where x: "snd (verify demo_codec (DbTokenStore Sqlite) demo_tm now w1 token False) =
      Inr \<lparr>vt_payload = issue_payload demo_tm 0 ''j1'' (nullish (io_deviceId demo_opts) ''rnd'') demo_user
        demo_opts x, vt_raw = token\<rparr>"
    using sqlite.issued_verifies [OF demo_codec_ok assms(1) [unfolded demo_login_def] demo_strings _ refl,
        unfolded demo_ttl, of now] assms(2)
    by (auto simp: MAX_TOKEN_SECONDS_def now_s_def)
  then show ?thesis
    by (intro exI [of _ "\<lparr>vt_payload = issue_payload demo_tm 0 ''j1'' (nullish (io_deviceId demo_opts) ''rnd'')
        demo_user demo_opts x, vt_raw = token\<rparr>"])
       (auto simp: issue_payload_def demo_opts_def demo_tm_def Let_def when_truthy_def truthy_def now_s_def
         prod_eq_iff)
qed

definition demo_w1 :: "token_db token_world" where
  "demo_w1 = fst demo_login"

definition demo_token :: string where
  "demo_token = (case snd demo_login of Inr token \<Rightarrow> token | Inl e \<Rightarrow> [])"

lemma demo_login_eq: "demo_login = (demo_w1, Inr demo_token)"
proof -
  obtain w token where l: "demo_login = (w, Inr token)"
    unfolding demo_login_def using demo_issue by blast
  show ?thesis unfolding demo_w1_def demo_token_def l by simp
qed

lemma demo_issued: "issue demo_codec (DbTokenStore Sqlite) demo_tm 0 ''rnd'' ''j1'' demo_tw demo_user demo_opts
    = (demo_w1, Inr demo_token)"
  using demo_login_eq by (simp add: demo_login_def)

lemma demo_verified:
  "\<exists>w v. verify demo_codec (DbTokenStore Sqlite) demo_tm 1000 demo_w1 demo_token False = (w, Inr v) \<and>
     tp_userId (vt_payload v) = demo_user \<and> tp_deviceId (vt_payload v) = ''laptop'' \<and>
     tp_guildId (vt_payload v) = None \<and> tp_exp (vt_payload v) = 900 \<and> tp_jti (vt_payload v) = ''j1''"
  using demo_login_verifies [OF demo_login_eq, of 1000] by (auto simp: now_s_def)

subsection \<open>Issued tokens\<close>

text \<open>
  C14. On SQLite and MongoDB the outcome of verifying a token that was just issued depends on its time
  to live alone: with one outside of 1 second to 7 days it is malformed, after it has passed the token
  has expired, and before it the token verifies with the user, device, bits and expiry it was issued for.
\<close>

theorem issued_token_verifies:
  assumes "e \<noteq> Postgres" "codec_ok C"
    and "issue C (DbTokenStore e) M now rnd jti w u opts = (w1, Inr token)"
    and "list_all is_jstr (nullish (io_bits opts) [])" "jti \<noteq> []"
    and "ttl = min (nullish (io_ttlSeconds opts) (tm_ttlSeconds M)) (tm_maxTtlSeconds M)"
  shows "\<exists>v. snd (verify C (DbTokenStore e) M now' w1 token False) =
      (if ttl \<le> 0 \<or> MAX_TOKEN_SECONDS < ttl then Inl (TokenError INVALID_FORMAT)
       else if now_s now + ttl \<le> now_s now' then Inl (TokenError TOKEN_EXPIRED)
       else Inr \<lparr>vt_payload = issue_payload M now jti (nullish (io_deviceId opts) rnd) u opts v,
                 vt_raw = token\<rparr>)"
  using assms(2-) by (rule versioned_store.issued_verifies [OF db_versioned_store [OF assms(1)]])

lemma issued_token_verifies_witness:
  "\<exists>v. snd (verify demo_codec (DbTokenStore Sqlite) demo_tm 5000 demo_w1 demo_token False) = Inr v \<and>
     tp_userId (vt_payload v) = demo_user"
  using issued_token_verifies [OF _ demo_codec_ok demo_issued demo_strings _ refl, unfolded demo_ttl, of 5000]
  by (auto simp: MAX_TOKEN_SECONDS_def now_s_def issue_payload_def Let_def)

text \<open>
  C13. A token that is accepted names a snowflake as its user, has the issuer and audience of the manager
  and a time to live of at most 7 days that has not passed, carries the versions that are current in the
  store, and ends in the signature under the key of that user and version.
\<close>

theorem accepted_token_sound:
  assumes "codec_ok C" "verify C S M now w token skip = (w', Inr v)" "p = vt_payload v"
  shows "is_snowflake (tp_userId p) \<and> tp_iss p = tm_issuer M \<and> tp_aud p = tm_audience M \<and>
    payload_ok p \<and> now_s now < tp_exp p \<and>
    tp_tokenVersion p = packVersion (ts_getGlobalVersion S (tw_store w) (tp_userId p))
      (ts_getDeviceVersion S (tw_store w) (tp_userId p) (tp_deviceId p) (tp_guildId p)) \<and>
    (\<exists>body. token = body @ ''.'' @ sign C body (signingKey C M (tp_userId p) (tp_tokenVersion p)))"
proof -
  have v: "open_token C M token = (Some (tp_userId p), Inr p)" "tp_iss p = tm_issuer M"
    "tp_aud p = tm_audience M" "now_s now < tp_exp p" "current S (tw_store w) p"
    using assms(2) by (simp_all add: verify_Inr Let_def assms(3))
  from open_token_Inr [OF assms(1) v(1)] v(2-5) show ?thesis
    by (auto simp: current_def)
qed

lemma accepted_token_sound_witness:
  "\<exists>w v. verify demo_codec (DbTokenStore Sqlite) demo_tm 1000 demo_w1 demo_token False = (w, Inr v) \<and>
     is_snowflake (tp_userId (vt_payload v)) \<and> tp_iss (vt_payload v) = ''zene''"
proof -
  obtain w v where v: "verify demo_codec (DbTokenStore Sqlite) demo_tm 1000 demo_w1 demo_token False = (w, Inr v)"
    using demo_verified by blast
  from accepted_token_sound [OF demo_codec_ok v refl] v show ?thesis
    by (auto simp: demo_tm_def)
qed

text \<open>
  The comparison of signatures is equality of the texts whenever both take the same number of UTF-8
  bytes beyond their length, and throws a \<open>RangeError\<close> otherwise.
\<close>

theorem safeEqual_equality:
  "safeEqual a b =
     (if length (utf8 a) - length a = length (utf8 b) - length b then Inr (a = b) else Inl RangeError)"
  by (simp add: safeEqual_eq length_utf8)

text \<open>
  C18. A token whose signature has a character outside ASCII makes \<open>verify\<close> throw the \<open>RangeError\<close> of
  \<open>timingSafeEqual\<close>, with no audit event and no call of \<open>onVerifyFailure\<close>.
\<close>

theorem latin1_signature_escapes:
  assumes "codec_ok C" "is_snowflake (tp_userId p)" "list_all is_jstr (tp_bits p)"
    and "CHR ''.'' \<notin> set sg" "\<not> ascii sg"
  shows "verify C S M now w (token_body C p @ ''.'' @ sg) skip = (w, Inl RangeError)"
proof -
  note [simp] = codec_okD [OF assms(1)]
  have d: "CHR ''_'' \<notin> set (''R'' @ cd_b64 C (tp_userId p))"
    using assms(2) by (simp add: is_snowflake_def)
  have first: "cut_first (CHR ''_'') (token_body C p) =
      Some (''R'' @ cd_b64 C (tp_userId p), cd_b64 C (cd_stringify C (payload_json p)))"
    using cut_first_append [OF d, of "cd_b64 C (cd_stringify C (payload_json p))"]
    by (simp add: token_body_def)
  have "cut_last (CHR ''.'') (token_body C p @ ''.'' @ sg) = Some (token_body C p, sg)"
    unfolding append_Cons append_Nil by (rule cut_last_append) (rule assms(4))
  moreover have "js_starts_with (token_body C p @ ''.'' @ sg) ''R''" by (simp add: token_body_def)
  moreover have "sg \<noteq> []" using assms(5) by (auto simp: ascii_def)
  moreover have "ascii (sign C x k)" for x k by (simp add: sign_def)
  ultimately have "snd (open_token C M (token_body C p @ ''.'' @ sg)) = Inl RangeError"
    using assms(2,3,5) by (simp add: open_token_def Let_def first safeEqual_ascii validateSnowflake_def)
  then show ?thesis
    by (cases "open_token C M (token_body C p @ ''.'' @ sg)") (simp add: verify_def fail_verify_def)
qed

lemma latin1_signature_escapes_witness:
  "verify demo_codec (DbTokenStore Sqlite) demo_tm 1000 demo_w1
     (token_body demo_codec (issue_payload demo_tm 0 ''j1'' ''laptop'' demo_user demo_opts ''0:0'')
      @ ''.'' @ [CHR 0xE9]) False = (demo_w1, Inl RangeError)"
  by (rule latin1_signature_escapes [OF demo_codec_ok])
     (simp_all add: issue_payload_def Let_def demo_user_ok demo_opts_def ascii_def)

subsection \<open>Revocation\<close>

lemma demo_revokeAll: "\<exists>w n. revokeAll S demo_tm now w0 demo_user = (w, Inr n)"
  by (simp add: revokeAll_def validateSnowflake_def demo_user_ok split: prod.split)

lemma demo_revokeDevice: "\<exists>w n. revokeDevice S demo_tm now w0 demo_user d g = (w, Inr n)"
  by (simp add: revokeDevice_def validateSnowflake_def demo_user_ok split: prod.split)

text \<open>
  C15. On SQLite and MongoDB a token that was accepted before \<open>revokeAll\<close> for its user is refused for
  good: no sequence of operations of the manager makes it verify again, nor can it be refreshed.
\<close>

theorem revokeAll_is_final:
  assumes "e \<noteq> Postgres" "verify C (DbTokenStore e) M now w token skip = (w0, Inr v)"
    and "revokeAll (DbTokenStore e) M now' w (tp_userId (vt_payload v)) = (w1, Inr n)"
    and "tm_steps C (DbTokenStore e) M w1 w2"
  shows "snd (verify C (DbTokenStore e) M now'' w2 token skip') = Inl (TokenError
    (if tp_exp (vt_payload v) \<le> now_s now'' then TOKEN_EXPIRED else TOKEN_REVOKED))"
  using assms(2-) by (rule token_store.revoked_all_refused [OF db_token_store [OF assms(1)]])

lemma revokeAll_is_final_witness:
  "\<exists>w2. snd (verify demo_codec (DbTokenStore Sqlite) demo_tm 2000 w2 demo_token False)
     = Inl (TokenError TOKEN_REVOKED)"
proof -
  obtain w v where v: "verify demo_codec (DbTokenStore Sqlite) demo_tm 1000 demo_w1 demo_token False = (w, Inr v)"
    and p: "tp_userId (vt_payload v) = demo_user" "tp_exp (vt_payload v) = 900"
    using demo_verified by blast
  obtain w1 n where r: "revokeAll (DbTokenStore Sqlite) demo_tm 1500 demo_w1 demo_user = (w1, Inr n)"
    using demo_revokeAll by blast
  have "snd (verify demo_codec (DbTokenStore Sqlite) demo_tm 2000 w1 demo_token False)
      = Inl (TokenError (if tp_exp (vt_payload v) \<le> now_s 2000 then TOKEN_EXPIRED else TOKEN_REVOKED))"
    by (rule revokeAll_is_final [OF _ v r [folded p(1)]]) simp_all
  then show ?thesis by (auto simp: p now_s_def)
qed

text \<open>
  Right after \<open>revokeDevice\<close> the tokens of the device are refused.
\<close>

theorem revokeDevice_refuses:
  assumes "e \<noteq> Postgres" "verify C (DbTokenStore e) M now w token skip = (w0, Inr v)"
    and "revokeDevice (DbTokenStore e) M now' w (tp_userId (vt_payload v)) (tp_deviceId (vt_payload v))
      (tp_guildId (vt_payload v)) = (w1, Inr n)"
  shows "snd (verify C (DbTokenStore e) M now'' w1 token skip') = Inl (TokenError
    (if tp_exp (vt_payload v) \<le> now_s now'' then TOKEN_EXPIRED else TOKEN_REVOKED))"
  using assms(2-) by (rule token_store.revoked_device_refused [OF db_token_store [OF assms(1)]])

lemma revokeDevice_refuses_witness:
  "\<exists>w1. snd (verify demo_codec (DbTokenStore Sqlite) demo_tm 2000 w1 demo_token True)
     = Inl (TokenError TOKEN_REVOKED)"
proof -
  obtain w v where v: "verify demo_codec (DbTokenStore Sqlite) demo_tm 1000 demo_w1 demo_token False = (w, Inr v)"
    and p: "tp_userId (vt_payload v) = demo_user" "tp_deviceId (vt_payload v) = ''laptop''"
      "tp_guildId (vt_payload v) = None" "tp_exp (vt_payload v) = 900"
    using demo_verified by blast
  obtain w1 n where r: "revokeDevice (DbTokenStore Sqlite) demo_tm 1500 demo_w1 demo_user ''laptop'' None = (w1, Inr n)"
    using demo_revokeDevice by blast
  have "snd (verify demo_codec (DbTokenStore Sqlite) demo_tm 2000 w1 demo_token True)
      = Inl (TokenError (if tp_exp (vt_payload v) \<le> now_s 2000 then TOKEN_EXPIRED else TOKEN_REVOKED))"
    by (rule revokeDevice_refuses [OF _ v r [folded p(1-3)]]) simp
  then show ?thesis by (auto simp: p now_s_def)
qed

text \<open>
  C16. A later login undoes \<open>revokeDevice\<close>: when the token carries device version 0, as every token of a
  login does, and the same device is issued a new token without \<open>useDeviceVersion\<close>, the revoked token can
  be refreshed into a valid one again.
\<close>

theorem login_revives_revoked:
  assumes "e \<noteq> Postgres" "verify C (DbTokenStore e) M t0 w token True = (w0, Inr v)"
    and "tp_tokenVersion (vt_payload v) = packVersion g 0"
    and "revokeDevice (DbTokenStore e) M t1 w (tp_userId (vt_payload v)) (tp_deviceId (vt_payload v))
      (tp_guildId (vt_payload v)) = (w1, Inr n)"
    and "issue C (DbTokenStore e) M t2 rnd jti w1 (tp_userId (vt_payload v)) opts = (w2, Inr token2)"
    and "io_deviceId opts = Some (tp_deviceId (vt_payload v))"
      "io_guildId opts = tp_guildId (vt_payload v)" "\<not> io_useDeviceVersion opts"
    and "tm_bitAllowlist M = None" "now_s t3 < tp_exp (vt_payload v)"
  shows "\<exists>token3. snd (refresh C (DbTokenStore e) M t3 rnd' jti' w2 token None) = Inr token3"
  using assms(2-) by (rule versioned_store.version_zero_returns [OF db_versioned_store [OF assms(1)]])

lemma demo_version_zero:
  assumes "verify demo_codec (DbTokenStore Sqlite) demo_tm now demo_w1 demo_token skip = (w, Inr v)"
    "tp_userId (vt_payload v) = demo_user" "tp_deviceId (vt_payload v) = ''laptop''"
    "tp_guildId (vt_payload v) = None"
  shows "tp_tokenVersion (vt_payload v) = packVersion 0 0"
proof -
  have s: "tw_store demo_w1 = issue_store (DbTokenStore Sqlite) 0 ''rnd'' ''j1'' (tw_store demo_tw) demo_user demo_opts"
    using issue_Inr [OF demo_issued] by simp
  have "ts_getDeviceVersion (DbTokenStore Sqlite) (tw_store demo_w1) demo_user ''laptop'' None = 0"
    unfolding s issue_store_def Let_def demo_opts_def
    by (simp add: demo_opts_def) (rule sqlite.upsert_sets, simp add: issue_meta_def)
  moreover have "ts_getGlobalVersion (DbTokenStore Sqlite) (tw_store demo_w1) demo_user = 0"
    by (simp add: s sqlite.issue_store_global) (simp add: demo_tw_def db_defs)
  ultimately show ?thesis
    using assms by (simp add: verify_Inr Let_def current_def)
qed

lemma login_revives_revoked_witness:
  "\<exists>w1 w2 n token2 token3.
     revokeDevice (DbTokenStore Sqlite) demo_tm 2000 demo_w1 demo_user ''laptop'' None = (w1, Inr n) \<and>
     issue demo_codec (DbTokenStore Sqlite) demo_tm 3000 ''r'' ''j2'' w1 demo_user demo_opts = (w2, Inr token2) \<and>
     snd (refresh demo_codec (DbTokenStore Sqlite) demo_tm 4000 ''r'' ''j3'' w2 demo_token None) = Inr token3"
proof -
  obtain w v where v: "verify demo_codec (DbTokenStore Sqlite) demo_tm 1000 demo_w1 demo_token True = (w, Inr v)"
    and p: "tp_userId (vt_payload v) = demo_user" "tp_deviceId (vt_payload v) = ''laptop''"
      "tp_guildId (vt_payload v) = None" "tp_exp (vt_payload v) = 900"
    using demo_verified verify_skip by blast
  obtain w1 n where r: "revokeDevice (DbTokenStore Sqlite) demo_tm 2000 demo_w1 demo_user ''laptop'' None = (w1, Inr n)"
    using demo_revokeDevice by blast
  obtain w2 token2 where i: "issue demo_codec (DbTokenStore Sqlite) demo_tm 3000 ''r'' ''j2'' w1 demo_user demo_opts
      = (w2, Inr token2)"
    using demo_issue by blast
  have "\<exists>token3. snd (refresh demo_codec (DbTokenStore Sqlite) demo_tm 4000 ''r'' ''j3'' w2 demo_token None) = Inr token3"
    by (rule login_revives_revoked [OF _ v demo_version_zero [OF v p(1-3)] r [folded p(1-3)] i [folded p(1)]])
       (simp_all add: p demo_opts_def demo_tm_def now_s_def)
  then show ?thesis using r i by blast
qed

subsection \<open>Rotation\<close>

lemma demo_opened:
  "\<exists>p. open_token demo_codec demo_tm demo_token = (Some demo_user, Inr p) \<and>
     tp_userId p = demo_user \<and> tp_deviceId p = ''laptop'' \<and> tp_guildId p = None \<and> tp_exp p = 900 \<and> tp_jti p = ''j1''"
  using demo_verified by (auto simp: verify_Inr Let_def)

lemma demo_refreshed:
  "\<exists>w' t. refresh demo_codec (DbTokenStore Sqlite) demo_tm 2000 ''r'' ''j2'' demo_w1 demo_token None = (w', Inr t)"
proof -
  obtain w v where v: "verify demo_codec (DbTokenStore Sqlite) demo_tm 2000 demo_w1 demo_token True = (w, Inr v)"
    and p: "tp_userId (vt_payload v) = demo_user"
    using demo_login_verifies [OF demo_login_eq, of 2000] verify_skip by (fastforce simp: now_s_def)
  obtain w' t where "issue demo_codec (DbTokenStore Sqlite) demo_tm 2000 ''r'' ''j2'' w demo_user
      (refresh_options None (vt_payload v)) = (w', Inr t)"
    using demo_issue by blast
  then show ?thesis by (simp add: refresh_def v Let_def p)
qed

text \<open>
  Showing a token to \<open>verify\<close> after it was refreshed is taken for a theft: the token is refused, and
  every token of the same user, device and guild that was accepted until then is refused as well.
\<close>

theorem reuse_revokes_device:
  assumes "e \<noteq> Postgres" "refresh C (DbTokenStore e) M now rnd jti w token getBits = (w', Inr t)"
    and "verify C (DbTokenStore e) M now' w' token False = (w2, res)" "jti \<noteq> []"
    and "open_token C M token = (Some u, Inr p)" "tp_jti p \<noteq> jti" "now_s now' < tp_exp p"
    and "verify C (DbTokenStore e) M now2 w' other skip = (w3, Inr x)"
    and "tp_userId (vt_payload x) = u" "tp_deviceId (vt_payload x) = tp_deviceId p"
      "tp_guildId (vt_payload x) = tp_guildId p"
  shows "res = Inl (TokenError TOKEN_REVOKED) \<and>
    snd (verify C (DbTokenStore e) M now3 w2 other skip') = Inl (TokenError
      (if tp_exp (vt_payload x) \<le> now_s now3 then TOKEN_EXPIRED else TOKEN_REVOKED))"
  using assms(2-) by (rule token_store.reuse_revokes [OF db_token_store [OF assms(1)]])

lemma reuse_revokes_device_witness:
  "\<exists>w'. snd (verify demo_codec (DbTokenStore Sqlite) demo_tm 3000 w' demo_token False)
       = Inl (TokenError TOKEN_REVOKED)"
proof -
  let ?S = "DbTokenStore Sqlite"
  obtain w' t where r: "refresh demo_codec ?S demo_tm 2000 ''r'' ''j2'' demo_w1 demo_token None = (w', Inr t)"
    using demo_refreshed by blast
  obtain p where p: "open_token demo_codec demo_tm demo_token = (Some demo_user, Inr p)" "tp_jti p = ''j1''"
    "tp_exp p = 900" "tp_userId p = demo_user"
    using demo_opened by blast
  have "\<exists>t'. snd (refresh demo_codec ?S demo_tm 3000 ''r'' ''j3'' w' demo_token None) = Inr t'"
    by (rule sqlite.rotated_refreshes [OF r p(1)]) (simp_all add: p now_s_def demo_tm_def)
  then obtain t' where "snd (refresh demo_codec ?S demo_tm 3000 ''r'' ''j3'' w' demo_token None) = Inr t'" ..
  then obtain w3 x where x: "verify demo_codec ?S demo_tm 3000 w' demo_token True = (w3, Inr x)"
    by (metis prod.collapse refresh_Inr)
  have q: "vt_payload x = p" using iffD1 [OF verify_Inr x] p(1) by (simp add: Let_def)
  obtain w2 res where v: "verify demo_codec ?S demo_tm 3000 w' demo_token False = (w2, res)"
    by (metis prod.collapse)
  have "res = Inl (TokenError TOKEN_REVOKED) \<and>
    snd (verify demo_codec ?S demo_tm 3000 w2 demo_token False) = Inl (TokenError
      (if tp_exp (vt_payload x) \<le> now_s 3000 then TOKEN_EXPIRED else TOKEN_REVOKED))"
    by (rule reuse_revokes_device [OF _ r v _ p(1) _ _ x]) (simp_all add: p q now_s_def)
  then show ?thesis using v by (intro exI [of _ w']) simp
qed

text \<open>
  \<open>refresh\<close> does not look for reuse: a token that was refreshed already can be refreshed again until
  it expires.
\<close>

theorem rotated_token_refreshes:
  assumes "e \<noteq> Postgres" "refresh C (DbTokenStore e) M now rnd jti w token getBits = (w', Inr t)"
    and "open_token C M token = (Some u, Inr p)" "now_s now' < tp_exp p" "tm_bitAllowlist M = None"
  shows "\<exists>t'. snd (refresh C (DbTokenStore e) M now' rnd' jti' w' token getBits') = Inr t'"
  using assms(2-) by (rule token_store.rotated_refreshes [OF db_token_store [OF assms(1)]])

lemma rotated_token_refreshes_witness:
  "\<exists>w' t t'. refresh demo_codec (DbTokenStore Sqlite) demo_tm 2000 ''r'' ''j2'' demo_w1 demo_token None = (w', Inr t) \<and>
     snd (refresh demo_codec (DbTokenStore Sqlite) demo_tm 3000 ''r'' ''j3'' w' demo_token None) = Inr t'"
proof -
  obtain w' t where r: "refresh demo_codec (DbTokenStore Sqlite) demo_tm 2000 ''r'' ''j2'' demo_w1 demo_token None = (w', Inr t)"
    using demo_refreshed by blast
  obtain p where p: "open_token demo_codec demo_tm demo_token = (Some demo_user, Inr p)" "tp_exp p = 900"
    using demo_opened by blast
  have "\<exists>t'. snd (refresh demo_codec (DbTokenStore Sqlite) demo_tm 3000 ''r'' ''j3'' w' demo_token None) = Inr t'"
    by (rule rotated_token_refreshes [OF _ r p(1)]) (simp_all add: p now_s_def demo_tm_def)
  then show ?thesis using r by blast
qed

subsection \<open>PostgreSQL\<close>

lemma postgres_reads:
  "ts_getGlobalVersion (DbTokenStore Postgres) st u = 0"
  "ts_getDeviceVersion (DbTokenStore Postgres) st u d g = 0"
  "ts_getLastJti (DbTokenStore Postgres) st u d g = None"
  by (simp_all add: db_defs)

text \<open>
  C17. On PostgreSQL the outcome of \<open>verify\<close> does not depend on what the store holds, so neither
  \<open>revokeAll\<close> nor \<open>revokeDevice\<close> nor a rotation ever takes effect.
\<close>

theorem postgres_never_revokes:
  "snd (verify C (DbTokenStore Postgres) M now w token skip)
     = snd (verify C (DbTokenStore Postgres) M now w' token skip')"
  by (cases "open_token C M token"; cases "snd (open_token C M token)")
     (auto simp: verify_def Let_def postgres_reads truthy_def split: sum.split)

subsection \<open>Devices of the store in memory\<close>

text \<open>
  With the store in memory a device that was revoked once is locked out: a token issued for it
  without \<open>useDeviceVersion\<close> is refused at once.
\<close>

theorem memory_login_after_revoke:
  assumes C: "codec_ok C"
    and r: "revokeDevice InMemoryTokenStore M now w u d g = (w1, Inr n)"
    and i: "issue C InMemoryTokenStore M now' rnd jti w1 u opts = (w2, Inr token)"
    and opts: "io_deviceId opts = Some d" "io_guildId opts = g" "\<not> io_useDeviceVersion opts"
      "list_all is_jstr (nullish (io_bits opts) [])"
  shows "\<exists>c. snd (verify C InMemoryTokenStore M now'' w2 token skip) = Inl (TokenError c)"
proof -
  let ?S = InMemoryTokenStore
  let ?p = "issue_payload M now' jti d u opts (packVersion (ts_getGlobalVersion ?S (tw_store w1) u) 0)"
  have tok: "token = token_text C M ?p" and u: "is_snowflake u"
    and w2: "tw_store w2 = issue_store ?S now' rnd jti (tw_store w1) u opts"
    using issue_Inr [OF i] opts by simp_all
  have "ts_getDeviceVersion ?S (tw_store w1) u d g = Suc (ts_getDeviceVersion ?S (tw_store w) u d g)"
    using revokeDevice_store [of ?S M now w u d g] r u
    by (simp add: memory.upsert_keeps memory.device_inc)
  then have "ts_getDeviceVersion ?S (tw_store w2) u d (when_truthy g) \<noteq> 0"
    using memory.key_version [OF memory.key_truthy, of "tw_store w1" u d g]
    by (simp add: w2 issue_store_def Let_def memory.upsert_keeps)
  then have stale: "\<not> current ?S (tw_store w2) ?p"
    by (simp add: current_def issue_payload_def Let_def opts)
  have f: "tp_userId ?p = u" "tp_bits ?p = nullish (io_bits opts) []" "tp_iss ?p = tm_issuer M"
    "tp_aud ?p = tm_audience M"
    by (simp_all add: issue_payload_def Let_def)
  have o: "open_token C M token =
      (Some (tp_userId ?p), if payload_ok ?p then Inr ?p else Inl (TokenError INVALID_FORMAT))"
    unfolding tok by (rule open_token_text [OF C]) (use u opts f in simp_all)
  show ?thesis
  proof (cases "payload_ok ?p")
    case False
    then show ?thesis using o by (simp add: verify_def)
  next
    case True
    then show ?thesis using o memory.refused_when_stale [of C M token ?p w2] stale f by simp
  qed
qed

lemma memory_login_after_revoke_witness:
  "\<exists>w w1 w2 n token c. revokeDevice InMemoryTokenStore demo_tm 0 w demo_user ''laptop'' None = (w1, Inr n) \<and>
     issue demo_codec InMemoryTokenStore demo_tm 1000 ''r'' ''j'' w1 demo_user demo_opts = (w2, Inr token) \<and>
     snd (verify demo_codec InMemoryTokenStore demo_tm 2000 w2 token False) = Inl (TokenError c)"
proof -
  obtain w1 n where r: "revokeDevice InMemoryTokenStore demo_tm 0
      \<lparr>tw_store = \<lparr>mt_globalVersions = [], mt_deviceVersions = [], mt_deviceMeta = []\<rparr>, tw_audit = [],
       tw_failures = []\<rparr> demo_user ''laptop'' None = (w1, Inr n)"
    using demo_revokeDevice by meson
  obtain w2 token where i: "issue demo_codec InMemoryTokenStore demo_tm 1000 ''r'' ''j'' w1 demo_user demo_opts
      = (w2, Inr token)"
    using demo_issue by meson
  have "\<exists>c. snd (verify demo_codec InMemoryTokenStore demo_tm 2000 w2 token False) = Inl (TokenError c)"
    by (rule memory_login_after_revoke [OF demo_codec_ok r i]) (simp_all add: demo_opts_def)
  then show ?thesis using r i by blast
qed

end
