(* ===== verification/TokenHttp.thy ===== *)
theory TokenHttp
  imports TokenProps PermInvariants
begin

text \<open>
  Tokens at the HTTP boundary: \<open>extractBearer\<close>, \<open>extractCookie\<close> and the middleware \<open>requireAuth\<close> of
  \<open>src/core/manager/token.ts\<close>, and the handler and the routes of the token plugin
  (\<open>src/plugins/token/src/handlers/manager.ts\<close>, \<open>src/plugins/token/src/routes/api.ts\<close>), which take the
  bits of a token from the permission system.  A field of a request body is a text, a list of bits or a
  number, and absent when it is falsy where the code tests for that; messages, the actor and the details
  of audit rows are left out.
\<close>

subsection \<open>Headers\<close>

definition extractBearer ::
    "codec \<Rightarrow> 's token_ops \<Rightarrow> token_manager \<Rightarrow> int \<Rightarrow> 's token_world \<Rightarrow> string option \<Rightarrow>
     's token_world \<times> (token_exn + verified_token)" where
  "extractBearer C S M now w authHeader =
    (let malformed = (w, Inl (TokenError INVALID_FORMAT))
     in if \<not> truthy authHeader then malformed
        else case cut_first (CHR '' '') (the authHeader) of None \<Rightarrow> malformed
        | Some (scheme, rest) \<Rightarrow>
          let token = js_trim rest
          in if scheme \<noteq> ''Bearer'' then malformed
             else if token = [] \<or> CHR '' '' \<in> set token then malformed
             else verify C S M now w token False)"

text \<open>\<open>decode\<close> is \<open>decodeURIComponent\<close>, which throws on malformed escapes.\<close>

definition cookie_value :: "string \<Rightarrow> string \<Rightarrow> string option" where
  "cookie_value cookieHeader cookieName =
    (case List.find (\<lambda>kv. hd kv = cookieName)
       (map (\<lambda>part. js_split (CHR ''='') (js_trim part)) (js_split (CHR '';'') cookieHeader)) of
       None \<Rightarrow> None
     | Some kv \<Rightarrow> (case tl kv of [] \<Rightarrow> None | v # _ \<Rightarrow> Some v))"

definition extractCookie ::
    "(string \<Rightarrow> string option) \<Rightarrow> codec \<Rightarrow> 's token_ops \<Rightarrow> token_manager \<Rightarrow> int \<Rightarrow> 's token_world \<Rightarrow>
     string option \<Rightarrow> string \<Rightarrow> 's token_world \<times> (token_exn + verified_token)" where
  "extractCookie decode C S M now w cookieHeader cookieName =
    (let malformed = (w, Inl (TokenError INVALID_FORMAT))
     in if \<not> truthy cookieHeader then malformed
        else let token = cookie_value (the cookieHeader) cookieName
          in if \<not> truthy token then malformed
             else case decode (the token) of None \<Rightarrow> (w, Inl URIError)
               | Some t \<Rightarrow> verify C S M now w t False)"

datatype auth_result = Auth_next verified_token | Auth_reply nat string | Auth_error token_exn

text \<open>The middleware compares \<open>err.code\<close>, which \<open>TokenError\<close> has prefixed with \<open>TOKEN.\<close>.\<close>

definition auth_status :: "string \<Rightarrow> nat" where
  "auth_status c = (if c = ''PERMISSION_DENIED'' then 403
     else if c = ''TOKEN_EXPIRED'' then 401 else if c = ''TOKEN_REVOKED'' then 401 else 401)"

definition auth_catch :: "token_exn \<Rightarrow> auth_result" where
  "auth_catch e = (case e of
      TokenError c \<Rightarrow> Auth_reply (auth_status (err_code c)) (err_code c)
    | _ \<Rightarrow> Auth_error e)"

definition requireAuth ::
    "codec \<Rightarrow> 's token_ops \<Rightarrow> token_manager \<Rightarrow> int \<Rightarrow> 's token_world \<Rightarrow> string list option \<Rightarrow> string option \<Rightarrow>
     's token_world \<times> auth_result" where
  "requireAuth C S M now w bits authorization =
    (case extractBearer C S M now w authorization of
       (w', Inl e) \<Rightarrow> (w', auth_catch e)
     | (w', Inr v) \<Rightarrow>
         (case requireBits v (nullish bits []) of
            Inl e \<Rightarrow> (w', auth_catch e)
          | Inr _ \<Rightarrow> (w', Auth_next v)))"

subsection \<open>The plugin\<close>

record 's token_site =
  si_tokens :: "'s token_world"
  si_perm :: PermState
  si_audit :: "(string \<times> string \<times> bool \<times> string option) list"

text \<open>What does not change: the codec, the store operations, the manager and \<open>BotOwnerIds\<close>.\<close>

record 's token_env =
  en_codec :: codec
  en_ops :: "'s token_ops"
  en_manager :: token_manager
  en_owners :: string

definition issueWithResolvedBits ::
    "'s token_env \<Rightarrow> int \<Rightarrow> string \<Rightarrow> string \<Rightarrow> 's token_site \<Rightarrow> string \<Rightarrow> string option \<Rightarrow> issue_options \<Rightarrow>
     's token_site \<times> (token_exn + string)" where
  "issueWithResolvedBits E now rnd jti s userId guildId options =
    (case cachedResolve (en_owners E) now (si_perm s) userId guildId None of (resolved, perm) \<Rightarrow>
     case issue (en_codec E) (en_ops E) (en_manager E) now rnd jti (si_tokens s) userId
       (options\<lparr>io_bits := Some (map JStr (rp_bits resolved)), io_guildId := guildId\<rparr>) of
       (w, r) \<Rightarrow> (s\<lparr>si_tokens := w, si_perm := perm\<rparr>, r))"

text \<open>
  \<open>refreshWithResolvedBits\<close>: the callback runs after the token has been verified, and only then.
\<close>

definition refreshWithResolvedBits ::
    "'s token_env \<Rightarrow> int \<Rightarrow> string \<Rightarrow> string \<Rightarrow> 's token_site \<Rightarrow> string \<Rightarrow>
     's token_site \<times> (token_exn + string)" where
  "refreshWithResolvedBits E now rnd jti s token =
    (let look = (\<lambda>u g. map JStr (rp_bits (fst (cachedResolve (en_owners E) now (si_perm s) u g None))));
         perm = (case snd (verify (en_codec E) (en_ops E) (en_manager E) now (si_tokens s) token True) of
             Inl e \<Rightarrow> si_perm s
           | Inr v \<Rightarrow> snd (cachedResolve (en_owners E) now (si_perm s) (tp_userId (vt_payload v))
               (tp_guildId (vt_payload v)) None))
     in case refresh (en_codec E) (en_ops E) (en_manager E) now rnd jti (si_tokens s) token (Some look) of
          (w, r) \<Rightarrow> (s\<lparr>si_tokens := w, si_perm := perm\<rparr>, r))"

datatype reply_body = B_missing | B_unavailable | B_token string | B_error string | B_invalid string
  | B_payload token_payload | B_revokedAll string nat | B_revokedDevice string string nat
  | B_devices string "device_info list" | B_bitsets "(string \<times> string list) list"

datatype route_result = Reply nat reply_body | Threw token_exn

definition site_audit :: "string \<Rightarrow> string \<Rightarrow> token_exn option \<Rightarrow> 's token_site \<Rightarrow> 's token_site" where
  "site_audit action target failure s =
    s\<lparr>si_audit := si_audit s @ [(action, target, failure = None,
        (case failure of None \<Rightarrow> None | Some (TokenError c) \<Rightarrow> Some (err_code c) | Some _ \<Rightarrow> Some ''error''))]\<rparr>"

definition route_error :: "nat \<Rightarrow> token_exn \<Rightarrow> route_result" where
  "route_error status e = (case e of TokenError c \<Rightarrow> Reply status (B_error (err_code c)) | _ \<Rightarrow> Threw e)"

text \<open>\<open>ready\<close> tells whether the handler is registered; without it every route answers 503.\<close>

definition route_options ::
    "jval list option \<Rightarrow> string option \<Rightarrow> string option \<Rightarrow> string option \<Rightarrow> int option \<Rightarrow> issue_options" where
  "route_options bits guildId deviceId deviceLabel ttlSeconds =
    \<lparr>io_bits = bits, io_guildId = when_truthy guildId, io_deviceId = when_truthy deviceId,
     io_deviceLabel = when_truthy deviceLabel, io_ttlSeconds = ttlSeconds, io_useDeviceVersion = False\<rparr>"

definition handleIssue ::
    "'s token_env \<Rightarrow> bool \<Rightarrow> int \<Rightarrow> string \<Rightarrow> string \<Rightarrow> 's token_site \<Rightarrow> string option \<Rightarrow> issue_options \<Rightarrow>
     's token_site \<times> route_result" where
  "handleIssue E ready now rnd jti s userId options =
    (if \<not> ready then (s, Reply 503 B_unavailable)
     else if \<not> truthy userId then (s, Reply 400 B_missing)
     else case issue (en_codec E) (en_ops E) (en_manager E) now rnd jti (si_tokens s) (the userId) options of
         (w, Inr token) \<Rightarrow>
           (site_audit ''token.issue'' (the userId) None (s\<lparr>si_tokens := w\<rparr>), Reply 201 (B_token token))
       | (w, Inl e) \<Rightarrow>
           (site_audit ''token.issue'' (the userId) (Some e) (s\<lparr>si_tokens := w\<rparr>), route_error 400 e))"

definition handleIssueResolved ::
    "'s token_env \<Rightarrow> bool \<Rightarrow> int \<Rightarrow> string \<Rightarrow> string \<Rightarrow> 's token_site \<Rightarrow> string option \<Rightarrow> string option \<Rightarrow>
     issue_options \<Rightarrow> 's token_site \<times> route_result" where
  "handleIssueResolved E ready now rnd jti s userId guildId options =
    (if \<not> ready then (s, Reply 503 B_unavailable)
     else if \<not> truthy userId then (s, Reply 400 B_missing)
     else case issueWithResolvedBits E now rnd jti s (the userId) (when_truthy guildId) options of
         (s', Inr token) \<Rightarrow> (site_audit ''token.issue'' (the userId) None s', Reply 201 (B_token token))
       | (s', Inl e) \<Rightarrow> (site_audit ''token.issue'' (the userId) (Some e) s', route_error 400 e))"

definition handleVerify ::
    "'s token_env \<Rightarrow> bool \<Rightarrow> int \<Rightarrow> 's token_site \<Rightarrow> string option \<Rightarrow> 's token_site \<times> route_result" where
  "handleVerify E ready now s token =
    (if \<not> ready then (s, Reply 503 B_unavailable)
     else if \<not> truthy token then (s, Reply 400 B_missing)
     else case verify (en_codec E) (en_ops E) (en_manager E) now (si_tokens s) (the token) False of
         (w, Inr v) \<Rightarrow> (s\<lparr>si_tokens := w\<rparr>, Reply 200 (B_payload (vt_payload v)))
       | (w, Inl (TokenError c)) \<Rightarrow> (s\<lparr>si_tokens := w\<rparr>,
           Reply (if c = TOKEN_EXPIRED \<or> c = TOKEN_REVOKED then 401 else 400) (B_invalid (err_code c)))
       | (w, Inl e) \<Rightarrow> (s\<lparr>si_tokens := w\<rparr>, Threw e))"

text \<open>
  Both refresh routes verify the token first, with the rotation check that \<open>refresh\<close> itself leaves out.
\<close>

definition refresh_route ::
    "('s token_site \<Rightarrow> string \<Rightarrow> 's token_site \<times> (token_exn + string)) \<Rightarrow>
     's token_env \<Rightarrow> bool \<Rightarrow> int \<Rightarrow> 's token_site \<Rightarrow> string option \<Rightarrow> 's token_site \<times> route_result" where
  "refresh_route renew E ready now s token =
    (if \<not> ready then (s, Reply 503 B_unavailable)
     else if \<not> truthy token then (s, Reply 400 B_missing)
     else case verify (en_codec E) (en_ops E) (en_manager E) now (si_tokens s) (the token) False of
         (w, Inl e) \<Rightarrow>
           (site_audit ''token.refresh'' ''unknown'' (Some e) (s\<lparr>si_tokens := w\<rparr>), route_error 401 e)
       | (w, Inr v) \<Rightarrow>
           (case renew (s\<lparr>si_tokens := w\<rparr>) (the token) of
              (s', Inr nxt) \<Rightarrow>
                (site_audit ''token.refresh'' (tp_userId (vt_payload v)) None s', Reply 200 (B_token nxt))
            | (s', Inl e) \<Rightarrow>
                (site_audit ''token.refresh'' (tp_userId (vt_payload v)) (Some e) s', route_error 401 e)))"

definition handleRefresh ::
    "'s token_env \<Rightarrow> bool \<Rightarrow> int \<Rightarrow> string \<Rightarrow> string \<Rightarrow> 's token_site \<Rightarrow> string option \<Rightarrow>
     's token_site \<times> route_result" where
  "handleRefresh E ready now rnd jti =
    refresh_route (\<lambda>s token. case refresh (en_codec E) (en_ops E) (en_manager E) now rnd jti (si_tokens s)
        token None of (w, r) \<Rightarrow> (s\<lparr>si_tokens := w\<rparr>, r)) E ready now"

definition handleRefreshResolved ::
    "'s token_env \<Rightarrow> bool \<Rightarrow> int \<Rightarrow> string \<Rightarrow> string \<Rightarrow> 's token_site \<Rightarrow> string option \<Rightarrow>
     's token_site \<times> route_result" where
  "handleRefreshResolved E ready now rnd jti =
    refresh_route (refreshWithResolvedBits E now rnd jti) E ready now"

definition handleRevokeAll ::
    "'s token_env \<Rightarrow> bool \<Rightarrow> int \<Rightarrow> 's token_site \<Rightarrow> string option \<Rightarrow> 's token_site \<times> route_result" where
  "handleRevokeAll E ready now s userId =
    (if \<not> ready then (s, Reply 503 B_unavailable)
     else if \<not> truthy userId then (s, Reply 400 B_missing)
     else case revokeAll (en_ops E) (en_manager E) now (si_tokens s) (the userId) of
         (w, Inr n) \<Rightarrow> (site_audit ''token.revoke_all'' (the userId) None (s\<lparr>si_tokens := w\<rparr>),
           Reply 200 (B_revokedAll (the userId) n))
       | (w, Inl e) \<Rightarrow> (site_audit ''token.revoke_all'' (the userId) (Some e) (s\<lparr>si_tokens := w\<rparr>),
           route_error 400 e))"

definition handleRevokeDevice ::
    "'s token_env \<Rightarrow> bool \<Rightarrow> int \<Rightarrow> 's token_site \<Rightarrow> string option \<Rightarrow> string option \<Rightarrow> string option \<Rightarrow>
     's token_site \<times> route_result" where
  "handleRevokeDevice E ready now s userId deviceId guildId =
    (if \<not> ready then (s, Reply 503 B_unavailable)
     else if \<not> truthy userId \<or> \<not> truthy deviceId then (s, Reply 400 B_missing)
     else case revokeDevice (en_ops E) (en_manager E) now (si_tokens s) (the userId) (the deviceId)
         (when_truthy guildId) of
         (w, Inr n) \<Rightarrow> (site_audit ''token.revoke_device'' (the userId) None (s\<lparr>si_tokens := w\<rparr>),
           Reply 200 (B_revokedDevice (the userId) (the deviceId) n))
       | (w, Inl e) \<Rightarrow> (site_audit ''token.revoke_device'' (the userId) (Some e) (s\<lparr>si_tokens := w\<rparr>),
           route_error 400 e))"

definition handleListDevices ::
    "'s token_env \<Rightarrow> bool \<Rightarrow> 's token_site \<Rightarrow> string \<Rightarrow> route_result" where
  "handleListDevices E ready s userId =
    (if \<not> ready then Reply 503 B_unavailable
     else case token_listDevices (en_ops E) (si_tokens s) userId of
         Inr ds \<Rightarrow> Reply 200 (B_devices userId ds)
       | Inl e \<Rightarrow> route_error 400 e)"

definition handleBitSets :: "bool \<Rightarrow> route_result" where
  "handleBitSets ready = (if \<not> ready then Reply 503 B_unavailable else Reply 200 (B_bitsets BitSets))"

subsection \<open>Headers and cookies\<close>

lemma requireBits_Inr: "requireBits v bs = Inr u \<longleftrightarrow> list_all (token_hasBit v) bs"
  by (induction bs) (simp_all add: token_requireBit_def)

lemma auth_catch_not_next: "auth_catch e \<noteq> Auth_next v"
  by (simp add: auth_catch_def split: token_exn.split)

text \<open>
  C19. \<open>requireAuth\<close> lets a request pass only with a header whose token verifies now, against the rotation
  check too, and that carries every bit asked for.
\<close>

theorem requireAuth_sound:
  assumes "requireAuth C S M now w bits authorization = (w', Auth_next v)"
  shows "\<exists>header. authorization = Some header \<and> js_starts_with header ''Bearer '' \<and>
    verify C S M now w (vt_raw v) False = (w', Inr v) \<and> list_all (token_hasBit v) (nullish bits [])"
proof -
  from assms have e: "extractBearer C S M now w authorization = (w', Inr v)"
    and b: "list_all (token_hasBit v) (nullish bits [])"
    by (auto simp: requireAuth_def requireBits_Inr auth_catch_not_next split: prod.splits sum.splits)
  from e obtain rest where h: "truthy authorization"
    "cut_first (CHR '' '') (the authorization) = Some (''Bearer'', rest)"
    and v: "verify C S M now w (js_trim rest) False = (w', Inr v)"
    by (auto simp: extractBearer_def Let_def split: if_splits option.splits)
  have "js_starts_with (the authorization) ''Bearer ''"
    using cut_first_Some [OF h(2)] by simp
  moreover have "vt_raw v = js_trim rest"
    using v by (metis verified_token.select_convs(2) verify_Inr)
  ultimately show ?thesis using h(1) v b by (auto simp: truthy_def)
qed

lemma hexs_set: "c \<in> set (hexs s) \<Longrightarrow> hex_letter c"
  using hexs_letters [of s] by (simp add: list_all_iff)

text \<open>The demonstration tokens have no white space.\<close>

lemma demo_token_no_ws: "c \<in> set demo_token \<Longrightarrow> \<not> js_ws c"
proof -
  have "\<exists>p. demo_token = token_text demo_codec demo_tm p"
    using issue_Inr [OF demo_issued] by blast
  then obtain p where p: "demo_token = token_text demo_codec demo_tm p" ..
  assume "c \<in> set demo_token"
  then have "hex_letter c \<or> c = CHR ''R'' \<or> c = CHR ''_'' \<or> c = CHR ''.''"
    by (auto simp: p token_text_def token_body_def sign_def demo_codec_def dest: hexs_set)
  then show ?thesis by (auto simp: hex_letter_def js_ws_def)
qed

lemma demo_token_R: "\<exists>r. demo_token = CHR ''R'' # r"
  using issue_Inr [OF demo_issued] by (auto simp: token_text_def token_body_def)

lemma trim_no_ws: "\<forall>c \<in> set s. \<not> js_ws c \<Longrightarrow> js_trim s = s"
  by (rule js_trim_no_ws) (cases s, auto)

lemma bearer_demo:
  "extractBearer C S M now w (Some (''Bearer '' @ demo_token)) = verify C S M now w demo_token False"
proof -
  have c: "cut_first (CHR '' '') (''Bearer'' @ CHR '' '' # demo_token) = Some (''Bearer'', demo_token)"
    by (rule cut_first_append) simp
  have "js_ws (CHR '' '')" by (simp add: js_ws_def)
  then have n: "CHR '' '' \<notin> set demo_token" "js_trim demo_token = demo_token" "demo_token \<noteq> []"
    using demo_token_no_ws demo_token_R by (auto intro: trim_no_ws)
  show ?thesis using c n by (simp add: extractBearer_def truthy_def Let_def)
qed

lemma demo_bits:
  assumes "verify demo_codec (DbTokenStore Sqlite) demo_tm 1000 demo_w1 demo_token False = (w, Inr v)"
  shows "tp_bits (vt_payload v) = [JStr ''bot.logs.view'']"
proof -
  obtain x where "snd (verify demo_codec (DbTokenStore Sqlite) demo_tm 1000 demo_w1 demo_token False) =
      Inr \<lparr>vt_payload = issue_payload demo_tm 0 ''j1'' (nullish (io_deviceId demo_opts) ''rnd'') demo_user
        demo_opts x, vt_raw = demo_token\<rparr>"
    using sqlite.issued_verifies [OF demo_codec_ok demo_issued demo_strings _ refl, unfolded demo_ttl, of 1000]
    by (auto simp: MAX_TOKEN_SECONDS_def now_s_def)
  then show ?thesis using assms by (auto simp: issue_payload_def Let_def demo_opts_def)
qed

lemma requireAuth_sound_witness:
  "\<exists>w v. requireAuth demo_codec (DbTokenStore Sqlite) demo_tm 1000 demo_w1 (Some [''bot.logs.view''])
       (Some (''Bearer '' @ demo_token)) = (w, Auth_next v) \<and> token_hasBit v ''bot.logs.view''"
proof -
  obtain w v where v: "verify demo_codec (DbTokenStore Sqlite) demo_tm 1000 demo_w1 demo_token False = (w, Inr v)"
    using demo_verified by blast
  have r: "requireAuth demo_codec (DbTokenStore Sqlite) demo_tm 1000 demo_w1 (Some [''bot.logs.view''])
       (Some (''Bearer '' @ demo_token)) = (w, Auth_next v)"
    using demo_bits [OF v]
    by (simp add: requireAuth_def bearer_demo [simplified] v token_requireBit_def token_hasBit_def)
  from requireAuth_sound [OF r] show ?thesis using r by auto
qed

text \<open>
  Every refusal by \<open>requireAuth\<close> has status 401: the comparison of the prefixed code never matches,
  so a token without a bit is not answered by the 403 that its code stands for.
\<close>

theorem requireAuth_only_401:
  assumes "snd (requireAuth C S M now w bits authorization) = Auth_reply status code"
  shows "status = 401"
proof -
  have "auth_catch e = Auth_reply s c \<Longrightarrow> s = 401" for e s c
    by (cases e) (auto simp: auth_catch_def auth_status_def err_code_def)
  then show ?thesis
    using assms by (auto simp: requireAuth_def split: prod.splits sum.splits)
qed

lemma requireAuth_only_401_witness:
  "\<exists>status. snd (requireAuth demo_codec (DbTokenStore Sqlite) demo_tm 1000 demo_w1 (Some [''bot.owner''])
       (Some (''Bearer '' @ demo_token))) = Auth_reply status ''TOKEN.PERMISSION_DENIED'' \<and> status = 401"
proof -
  obtain w v where v: "verify demo_codec (DbTokenStore Sqlite) demo_tm 1000 demo_w1 demo_token False = (w, Inr v)"
    using demo_verified by blast
  have r: "snd (requireAuth demo_codec (DbTokenStore Sqlite) demo_tm 1000 demo_w1 (Some [''bot.owner''])
       (Some (''Bearer '' @ demo_token))) = Auth_reply (auth_status ''TOKEN.PERMISSION_DENIED'') ''TOKEN.PERMISSION_DENIED''"
    using demo_bits [OF v]
    by (simp add: requireAuth_def bearer_demo [simplified] v token_requireBit_def token_hasBit_def
        auth_catch_def err_code_def)
  from requireAuth_only_401 [OF r] r show ?thesis by auto
qed

text \<open>Splitting a cookie header undoes its joining, up to the white space that is trimmed.\<close>

lemma js_trim_space: "js_trim (CHR '' '' # s) = js_trim s"
  by (simp add: js_trim_def js_ws_def)

lemma js_split_space: "js_split (CHR '';'') (CHR '' '' # s) =
    (case js_split (CHR '';'') s of [] \<Rightarrow> [] | y # ys \<Rightarrow> (CHR '' '' # y) # ys)"
  using js_split_nonempty [of "CHR '';''" s] by (cases "js_split (CHR '';'') s") auto

lemma split_cookies:
  "xs \<noteq> [] \<Longrightarrow> \<forall>x \<in> set xs. CHR '';'' \<notin> set x \<Longrightarrow>
   map js_trim (js_split (CHR '';'') (js_join ''; '' xs)) = map js_trim xs"
proof (induction "''; ''" xs rule: js_join.induct)
  case (2 x)
  then show ?case by (simp add: js_split_no_sep)
next
  case (3 x y r)
  let ?rest = "js_join ''; '' (y # r)"
  have j: "js_join ''; '' (x # y # r) = x @ CHR '';'' # CHR '' '' # ?rest" by simp
  have n: "CHR '';'' \<notin> set x" using 3 by simp
  have s: "js_split (CHR '';'') (js_join ''; '' (x # y # r))
      = x # js_split (CHR '';'') (CHR '' '' # ?rest)"
    unfolding j by (rule js_split_append [OF n])
  have t: "map js_trim (x # js_split (CHR '';'') (CHR '' '' # ?rest)) = js_trim x # map js_trim (js_split (CHR '';'') ?rest)"
    unfolding js_split_space using js_split_nonempty [of "CHR '';''" ?rest]
    by (cases "js_split (CHR '';'') ?rest") (simp_all add: js_trim_space)
  have "map js_trim (js_split (CHR '';'') ?rest) = map js_trim (y # r)"
    using 3 by simp
  then show ?case unfolding s t by simp
qed simp

definition cookie_text :: "string \<times> string \<Rightarrow> string" where
  "cookie_text c = fst c @ CHR ''='' # snd c"

definition plain_cookie :: "string \<times> string \<Rightarrow> bool" where
  "plain_cookie c \<longleftrightarrow>
     (\<forall>x \<in> set (fst c) \<union> set (snd c). x \<noteq> CHR '';'' \<and> x \<noteq> CHR ''='' \<and> \<not> js_ws x)"

lemma cookie_parts: "plain_cookie c \<Longrightarrow> js_split (CHR ''='') (js_trim (cookie_text c)) = [fst c, snd c]"
proof -
  assume p: "plain_cookie c"
  have "\<not> js_ws (CHR ''='')" by (simp add: js_ws_def)
  then have "js_trim (cookie_text c) = cookie_text c"
    using p by (intro trim_no_ws) (auto simp: cookie_text_def plain_cookie_def)
  moreover have "CHR ''='' \<notin> set (fst c)" "CHR ''='' \<notin> set (snd c)"
    using p by (auto simp: plain_cookie_def)
  ultimately show ?thesis by (simp add: cookie_text_def js_split_append js_split_no_sep)
qed

lemma cookie_value_join:
  assumes p: "list_all plain_cookie cs" and n: "cs \<noteq> []"
  shows "cookie_value (js_join ''; '' (map cookie_text cs)) name = map_of cs name"
proof -
  have "\<forall>x \<in> set (map cookie_text cs). CHR '';'' \<notin> set x"
    using p by (auto simp: list_all_iff plain_cookie_def cookie_text_def)
  then have "map js_trim (js_split (CHR '';'') (js_join ''; '' (map cookie_text cs)))
      = map js_trim (map cookie_text cs)"
    by (intro split_cookies) (simp add: n)
  then have "map (js_split (CHR ''='')) (map js_trim (js_split (CHR '';'') (js_join ''; '' (map cookie_text cs))))
      = map (js_split (CHR ''='')) (map js_trim (map cookie_text cs))"
    by (rule arg_cong)
  also have "\<dots> = map (\<lambda>c. [fst c, snd c]) cs"
    using p by (simp add: list_all_iff cookie_parts)
  finally have s: "map (\<lambda>part. js_split (CHR ''='') (js_trim part)) (js_split (CHR '';'')
      (js_join ''; '' (map cookie_text cs))) = map (\<lambda>c. [fst c, snd c]) cs"
    by (simp add: comp_def)
  have "(case List.find (\<lambda>kv. hd kv = name) (map (\<lambda>c. [fst c, snd c]) cs) of None \<Rightarrow> None
      | Some kv \<Rightarrow> (case tl kv of [] \<Rightarrow> None | v # _ \<Rightarrow> Some v)) = map_of cs name"
    by (induction cs) auto
  then show ?thesis by (simp add: cookie_value_def s)
qed

text \<open>
  Of a cookie header made of plain cookies, \<open>extractCookie\<close> verifies the value of the first one with
  the name asked for, and refuses the header when there is none or it is empty.
\<close>

theorem extractCookie_reads:
  assumes "list_all plain_cookie cs" "cs \<noteq> []"
    and "\<And>t. CHR ''%'' \<notin> set t \<Longrightarrow> decode t = Some t"
    and "list_all (\<lambda>c. CHR ''%'' \<notin> set (snd c)) cs"
  shows "extractCookie decode C S M now w (Some (js_join ''; '' (map cookie_text cs))) name =
    (if truthy (map_of cs name) then verify C S M now w (the (map_of cs name)) False
     else (w, Inl (TokenError INVALID_FORMAT)))"
proof -
  have "js_join ''; '' (map cookie_text cs) \<noteq> []"
    by (rule js_join_eq_Nil) (use assms(2) in \<open>auto simp: cookie_text_def\<close>)
  moreover have "decode v = Some v" if "map_of cs name = Some v" for v
    using that assms(3,4) map_of_SomeD [OF that] by (auto simp: list_all_iff)
  ultimately show ?thesis
    by (auto simp: extractCookie_def cookie_value_join [OF assms(1,2)] truthy_def Let_def)
qed

lemma extractCookie_reads_witness:
  "extractCookie Some demo_codec (DbTokenStore Sqlite) demo_tm 1000 demo_w1
     (Some ''theme=dark; auth_token=Rabc'') ''auth_token''
   = verify demo_codec (DbTokenStore Sqlite) demo_tm 1000 demo_w1 ''Rabc'' False"
  using extractCookie_reads [of "[(''theme'', ''dark''), (''auth_token'', ''Rabc'')]" Some demo_codec
      "DbTokenStore Sqlite" demo_tm 1000 demo_w1 "''auth_token''"]
  by (simp add: plain_cookie_def js_ws_def cookie_text_def truthy_def)

subsection \<open>Tokens and permissions\<close>

lemma jstr_map: "list_all is_jstr (map JStr xs)"
  by (induction xs) simp_all

text \<open>
  C20. A token issued with resolved bits grants exactly the bits that the permission system, cache
  included, answers for the user and guild at that time, for as long as it verifies.
\<close>

theorem resolved_token_bits:
  assumes "e \<noteq> Postgres" "en_ops E = DbTokenStore e" "codec_ok (en_codec E)" "jti \<noteq> []"
    and i: "issueWithResolvedBits E now rnd jti s u g opts = (s', Inr token)"
    and v: "verify (en_codec E) (en_ops E) (en_manager E) now' (si_tokens s') token False = (w, Inr v)"
  shows "token_hasBit v b \<longleftrightarrow>
    b \<in> set (rp_bits (fst (cachedResolve (en_owners E) now (si_perm s) u g None)))"
proof -
  let ?bits = "rp_bits (fst (cachedResolve (en_owners E) now (si_perm s) u g None))"
  let ?opts = "opts\<lparr>io_bits := Some (map JStr ?bits), io_guildId := g\<rparr>"
  have "issue (en_codec E) (DbTokenStore e) (en_manager E) now rnd jti (si_tokens s) u ?opts
      = (si_tokens s', Inr token)"
    using i assms(2) by (auto simp: issueWithResolvedBits_def split: prod.splits)
  from versioned_store.issued_verifies [OF db_versioned_store [OF assms(1)] assms(3) this _ assms(4) refl, of now']
  have "tp_bits (vt_payload v) = map JStr ?bits"
    using v assms(2) by (auto simp: jstr_map issue_payload_def Let_def split: if_splits)
  then show ?thesis by (auto simp: token_hasBit_def)
qed

definition demo_env :: "token_db token_env" where
  "demo_env = \<lparr>en_codec = demo_codec, en_ops = DbTokenStore Sqlite, en_manager = demo_tm,
     en_owners = ''100000000000000001''\<rparr>"

lemma demo_env_simps [simp]:
  "en_codec demo_env = demo_codec" "en_ops demo_env = DbTokenStore Sqlite" "en_manager demo_env = demo_tm"
  by (simp_all add: demo_env_def)

definition demo_perm :: PermState where
  "demo_perm = \<lparr>ps_engine = SQLite, ps_bits = [],
     ps_bwroles = [\<lparr>br_id = ''rm'', br_name = ''mods'', br_color = [], br_bits = [''bot.logs.view''],
       br_assignedUserIds = [demo_user], br_createdAt = 0, br_createdBy = ''1'', br_updatedAt = 0\<rparr>],
     ps_sroles = [], ps_grants = [], ps_links = [], ps_ranks = [], ps_cache = None\<rparr>"

definition demo_site :: "token_db token_site" where
  "demo_site = \<lparr>si_tokens = demo_tw, si_perm = demo_perm, si_audit = []\<rparr>"

lemma demo_perm_bits: "rp_bits (fst (cachedResolve ''1'' 0 demo_perm demo_user None None)) = [''bot.logs.view'']"
  by code_simp

lemma resolved_token_bits_witness:
  "\<exists>s token w v. issueWithResolvedBits (demo_env\<lparr>en_owners := ''1''\<rparr>) 0 ''rnd'' ''j1'' demo_site demo_user None demo_opts = (s, Inr token) \<and>
     verify demo_codec (DbTokenStore Sqlite) demo_tm 1000 (si_tokens s) token False = (w, Inr v) \<and>
     token_hasBit v ''bot.logs.view'' \<and> \<not> token_hasBit v ''bot.owner''"
proof -
  let ?E = "demo_env\<lparr>en_owners := ''1''\<rparr>"
  let ?opts = "demo_opts\<lparr>io_bits := Some (map JStr [''bot.logs.view'']), io_guildId := None\<rparr>"
  obtain w1 token where i: "issue demo_codec (DbTokenStore Sqlite) demo_tm 0 ''rnd'' ''j1'' demo_tw demo_user ?opts
      = (w1, Inr token)"
    using demo_issue by blast
  obtain resolved perm where c: "cachedResolve ''1'' 0 demo_perm demo_user None None = (resolved, perm)"
    by (metis prod.collapse)
  have rb: "rp_bits resolved = [''bot.logs.view'']" using demo_perm_bits by (simp add: c)
  define s where "s = demo_site\<lparr>si_tokens := w1, si_perm := perm\<rparr>"
  have e: "issueWithResolvedBits ?E 0 ''rnd'' ''j1'' demo_site demo_user None demo_opts = (s, Inr token)"
    using i by (simp add: issueWithResolvedBits_def demo_env_def demo_site_def c rb s_def)
  have o: "?opts = demo_opts" by (simp add: demo_opts_def)
  have "w1 = demo_w1 \<and> token = demo_token" using i demo_issued unfolding o by simp
  then obtain w v where v: "verify demo_codec (DbTokenStore Sqlite) demo_tm 1000 (si_tokens s) token False = (w, Inr v)"
    using demo_verified by (auto simp: s_def)
  then have v': "verify (en_codec ?E) (en_ops ?E) (en_manager ?E) 1000 (si_tokens s) token False = (w, Inr v)"
    by simp
  have "token_hasBit v b \<longleftrightarrow> b \<in> set (rp_bits (fst (cachedResolve (en_owners ?E) 0 (si_perm demo_site) demo_user None None)))"
    for b by (rule resolved_token_bits [OF _ _ _ _ e v', where e = Sqlite]) (simp_all add: demo_codec_ok)
  then have "token_hasBit v ''bot.logs.view''" "\<not> token_hasBit v ''bot.owner''"
    by (simp_all add: demo_env_def demo_site_def demo_perm_bits)
  then show ?thesis using e v by blast
qed

text \<open>
  On SQLite and MongoDB, with nothing between the two requests: a token that was refreshed once at the
  refresh route, and has not expired, is answered there with 401 the second time, and no token that was
  current for the device before that request is current after it.  (On PostgreSQL no version is ever read
  back, see the theory \<open>TokenProps\<close>.)
\<close>

theorem refresh_route_detects_reuse:
  assumes "e \<noteq> Postgres" "en_ops E = DbTokenStore e"
    and r: "handleRefresh E ready now rnd jti s (Some token) = (s', Reply 200 (B_token t))"
    and o: "open_token (en_codec E) (en_manager E) token = (Some u, Inr p)"
    and j: "jti \<noteq> []" "tp_jti p \<noteq> jti" "now_s now' < tp_exp p"
    and r': "handleRefresh E ready now' rnd' jti' s' (Some token) = (s'', res)"
  shows "res = Reply 401 (B_error ''TOKEN.TOKEN_REVOKED'') \<and>
    (\<forall>q. tp_userId q = u \<and> tp_deviceId q = tp_deviceId p \<and> tp_guildId q = tp_guildId p \<longrightarrow>
      current (DbTokenStore e) (tw_store (si_tokens s')) q \<longrightarrow>
      \<not> current (DbTokenStore e) (tw_store (si_tokens s'')) q)"
proof -
  let ?S = "DbTokenStore e"
  have ready: "ready" "truthy (Some token)"
    using r by (auto simp: handleRefresh_def refresh_route_def split: if_splits)
  from r obtain w v w' where v: "verify (en_codec E) ?S (en_manager E) now (si_tokens s) token False = (w, Inr v)"
    and f: "refresh (en_codec E) ?S (en_manager E) now rnd jti w token None = (w', Inr t)"
    and s': "si_tokens s' = w'"
    by (auto simp: handleRefresh_def refresh_route_def site_audit_def route_error_def assms(2)
        split: if_splits prod.splits sum.splits token_exn.splits)
  obtain w2 res2 where v2: "verify (en_codec E) ?S (en_manager E) now' w' token False = (w2, res2)"
    by (metis prod.collapse)
  from token_store.reuse_detected [OF db_token_store [OF assms(1)] f v2 j(1) o j(2,3)]
  have d: "res2 = Inl (TokenError TOKEN_REVOKED)"
    "\<forall>q. tp_userId q = u \<and> tp_deviceId q = tp_deviceId p \<and> tp_guildId q = tp_guildId p \<longrightarrow>
      current ?S (tw_store w') q \<longrightarrow> \<not> current ?S (tw_store w2) q"
    by blast+
  have "res = Reply 401 (B_error ''TOKEN.TOKEN_REVOKED'')" "si_tokens s'' = w2"
    using r' ready v2 d(1)
    by (auto simp: handleRefresh_def refresh_route_def site_audit_def route_error_def assms(2) s'
        err_code_def)
  then show ?thesis using d(2) s' by simp
qed

lemma refresh_route_detects_reuse_witness:
  "\<exists>s t s''. handleRefresh demo_env True 2000 ''r'' ''j2'' (demo_site\<lparr>si_tokens := demo_w1\<rparr>) (Some demo_token)
       = (s, Reply 200 (B_token t)) \<and>
     handleRefresh demo_env True 3000 ''r'' ''j3'' s (Some demo_token)
       = (s'', Reply 401 (B_error ''TOKEN.TOKEN_REVOKED''))"
proof -
  let ?S = "DbTokenStore Sqlite"
  obtain v where v: "verify demo_codec ?S demo_tm 2000 demo_w1 demo_token False =
      (fst (verify demo_codec ?S demo_tm 2000 demo_w1 demo_token False), Inr v)"
    using demo_login_verifies [OF demo_login_eq, of 2000] by (auto simp: now_s_def)
  then obtain w where w: "verify demo_codec ?S demo_tm 2000 demo_w1 demo_token False = (w, Inr v)" ..
  obtain p where p: "open_token demo_codec demo_tm demo_token = (Some demo_user, Inr p)" "tp_jti p = ''j1''"
    "tp_exp p = 900" "tp_userId p = demo_user"
    using demo_opened by blast
  have w': "w = emit demo_tm (payload_event Ev_verified 2000 p) (demo_w1\<lparr>tw_store := seen ?S 2000 (tw_store demo_w1) p\<rparr>)"
    "current ?S (tw_store demo_w1) p" "tp_iss p = tm_issuer demo_tm" "tp_aud p = tm_audience demo_tm"
    using iffD1 [OF verify_Inr w] p(1) by (auto simp: Let_def)
  have p1: "open_token demo_codec demo_tm demo_token = (Some (tp_userId p), Inr p)" using p by simp
  obtain w2 where v2: "verify demo_codec ?S demo_tm 2000 w demo_token True = (w2, Inr \<lparr>vt_payload = p, vt_raw = demo_token\<rparr>)"
    using verify_opened [OF p1 w'(3,4), of ?S 2000 w True] w'(1,2) p(3) by (simp add: now_s_def)
  obtain w3 t where "issue demo_codec ?S demo_tm 2000 ''r'' ''j2'' w2 demo_user (refresh_options None p) = (w3, Inr t)"
    using demo_issue by blast
  then obtain w4 where f: "refresh demo_codec ?S demo_tm 2000 ''r'' ''j2'' w demo_token None = (w4, Inr t)"
    by (simp add: refresh_def v2 Let_def p)
  have ne: "demo_token \<noteq> []" using demo_token_R by auto
  obtain s where r: "handleRefresh demo_env True 2000 ''r'' ''j2'' (demo_site\<lparr>si_tokens := demo_w1\<rparr>) (Some demo_token)
       = (s, Reply 200 (B_token t))"
    using w f ne by (simp add: handleRefresh_def refresh_route_def truthy_def)
  obtain s'' res where r': "handleRefresh demo_env True 3000 ''r'' ''j3'' s (Some demo_token) = (s'', res)"
    by (metis prod.collapse)
  have "res = Reply 401 (B_error ''TOKEN.TOKEN_REVOKED'') \<and>
    (\<forall>q. tp_userId q = demo_user \<and> tp_deviceId q = tp_deviceId p \<and> tp_guildId q = tp_guildId p \<longrightarrow>
      current ?S (tw_store (si_tokens s)) q \<longrightarrow> \<not> current ?S (tw_store (si_tokens s'')) q)"
    by (rule refresh_route_detects_reuse [OF _ _ r _ _ _ _ r'])
       (use p in \<open>simp_all add: now_s_def\<close>)
  then show ?thesis using r r' by blast
qed

end
