(* ===== verification/PluginGraph.thy ===== *)
theory PluginGraph
  imports SemVer JsJson
begin

text \<open>
  The order in which plugins are loaded: \<open>PluginManager.sortDependencies\<close> of
  \<open>src/core/loader/index.ts\<close>.  A manifest keeps the fields that the loader decides on; error messages
  are left out, so a failed visit is one of two errors.  The search is a function whose termination is
  proved: every call either meets a plugin that was seen or adds one of the finitely many plugins to
  those being visited.
\<close>

record plugin_manifest =
  pm_id :: string
  pm_name :: string
  pm_version :: string
  pm_dependencies :: "string list option"
  pm_zene_version :: "RangeInput option"
  pm_node_version :: "string option"
  pm_priority :: "int option"

record discovered =
  di_dir :: string
  di_manifest :: plugin_manifest

datatype dep_error = Circular string | MissingDep string

record visit_state =
  vs_sorted :: "discovered list"
  vs_visited :: "string list"
  vs_visiting :: "string list"

definition deps_of :: "discovered \<Rightarrow> string list" where
  "deps_of p = (case pm_dependencies (di_manifest p) of None \<Rightarrow> [] | Some ds \<Rightarrow> ds)"

definition priority_of :: "discovered \<Rightarrow> int" where
  "priority_of p = (case pm_priority (di_manifest p) of None \<Rightarrow> 0 | Some n \<Rightarrow> n)"

definition enter :: "string \<Rightarrow> visit_state \<Rightarrow> visit_state" where
  "enter pid st = st\<lparr>vs_visiting := vs_visiting st @ [pid]\<rparr>"

definition leave :: "string \<Rightarrow> discovered \<Rightarrow> visit_state \<Rightarrow> visit_state" where
  "leave pid p st = st\<lparr>vs_visiting := removeAll pid (vs_visiting st),
     vs_visited := vs_visited st @ [pid], vs_sorted := vs_sorted st @ [p]\<rparr>"

text \<open>
  The visits of a list of plugins, one after the other, until one throws; the sets keep what they had
  then.  The loop over the dependencies of a plugin is the recursive call on its list.
\<close>

definition seen_ids :: "visit_state \<Rightarrow> string set" where
  "seen_ids st = set (vs_visited st) \<union> set (vs_visiting st)"

function visit_all ::
    "(string, discovered) jsmap \<Rightarrow> string list \<Rightarrow> visit_state \<Rightarrow> visit_state \<times> dep_error option" where
  "visit_all plugins [] st = (st, None)"
| "visit_all plugins (pid # ids) st =
    (if pid \<in> set (vs_visiting st) then (st, Some (Circular pid))
     else if pid \<in> set (vs_visited st) then visit_all plugins ids st
     else case jm_get plugins pid of
         None \<Rightarrow> (enter pid st, Some (MissingDep pid))
       | Some p \<Rightarrow>
           (case visit_all plugins (deps_of p) (enter pid st) of
              (st', Some e) \<Rightarrow> (st', Some e)
            | (st', None) \<Rightarrow> visit_all plugins ids (leave pid p st')))"
  by pat_completeness auto

lemma seen_enter [simp]: "seen_ids (enter pid st) = insert pid (seen_ids st)"
  by (auto simp: seen_ids_def enter_def)

lemma seen_leave: "seen_ids st \<subseteq> seen_ids (leave pid p st)"
  by (auto simp: seen_ids_def leave_def)

lemma visit_all_grows:
  "visit_all_dom (plugins, ids, st) \<Longrightarrow> seen_ids st \<subseteq> seen_ids (fst (visit_all plugins ids st))"
proof (induction plugins ids st rule: visit_all.pinduct)
  case (1 plugins st)
  then show ?case by (simp add: visit_all.psimps)
next
  case (2 plugins pid ids st)
  show ?case
  proof (cases "pid \<in> set (vs_visiting st) \<or> pid \<in> set (vs_visited st)")
    case True
    then show ?thesis using 2 by (auto simp: visit_all.psimps)
  next
    case False
    show ?thesis
    proof (cases "jm_get plugins pid")
      case None
      then show ?thesis using 2(1) False by (auto simp: visit_all.psimps)
    next
      case (Some p)
      obtain st' r where v: "visit_all plugins (deps_of p) (enter pid st) = (st', r)"
        by (metis prod.collapse)
      have s: "seen_ids st \<subseteq> seen_ids st'"
        using 2(3) [of p] False Some v by auto
      show ?thesis
      proof (cases r)
        case None
        then show ?thesis
          using 2(1) False Some v s seen_leave [of st' pid p] 2(4) [of p st'] by (auto simp: visit_all.psimps)
      next
        case e: (Some e)
        then show ?thesis using 2(1) False Some v s by (auto simp: visit_all.psimps)
      qed
    qed
  qed
qed

lemma unseen_less:
  assumes "finite K" "pid \<in> K" "pid \<notin> A"
  shows "card (K - insert pid A) < card (K - A)"
  using assms by (intro psubset_card_mono) auto

termination visit_all
proof (relation "measures [\<lambda>(plugins, ids, st). card (set (jm_keys plugins) - seen_ids st),
    \<lambda>(plugins, ids, st). length ids]", goal_cases)
  case (3 plugins pid ids st p)
  then have "card (set (jm_keys plugins) - insert pid (seen_ids st)) < card (set (jm_keys plugins) - seen_ids st)"
    by (intro unseen_less) (auto simp: seen_ids_def dest: jm_get_key)
  then show ?case by simp
next
  case (4 plugins pid ids st p st')
  have "seen_ids st \<subseteq> seen_ids st'"
    using 4 visit_all_grows [of plugins "deps_of p" "enter pid st"] by (metis fst_conv insert_subset seen_enter)
  then have "seen_ids st \<subseteq> seen_ids (leave pid p st')"
    using seen_leave by blast
  then have "card (set (jm_keys plugins) - seen_ids (leave pid p st')) \<le> card (set (jm_keys plugins) - seen_ids st)"
    by (intro card_mono) auto
  then show ?case by (auto simp: le_less)
qed simp_all

fun sort_loop ::
    "string list \<Rightarrow> (string, discovered) jsmap \<Rightarrow> visit_state \<Rightarrow> (string, discovered) jsmap \<times> visit_state" where
  "sort_loop [] plugins st = (plugins, st)"
| "sort_loop (k # ks) plugins st =
    (case visit_all plugins [k] st of
       (st', None) \<Rightarrow> sort_loop ks plugins st'
     | (st', Some e) \<Rightarrow> sort_loop ks (jm_delete plugins k) st')"

definition orderedKeys :: "(string, discovered) jsmap \<Rightarrow> string list" where
  "orderedKeys plugins = js_sort_by
     (\<lambda>a b. priority_of (the (jm_get plugins a)) - priority_of (the (jm_get plugins b)))
     (jm_keys plugins)"

definition sortDependencies ::
    "(string, discovered) jsmap \<Rightarrow> discovered list \<times> (string, discovered) jsmap" where
  "sortDependencies plugins =
    (case sort_loop (orderedKeys plugins) plugins \<lparr>vs_sorted = [], vs_visited = [], vs_visiting = []\<rparr> of
       (plugins', st) \<Rightarrow> (vs_sorted st, plugins'))"

subsection \<open>Which plugins can be loaded\<close>

text \<open>
  A plugin can be loaded when it was discovered and all its dependencies can: no dependency is missing
  and none leads back to it.
\<close>

inductive resolvable :: "(string, discovered) jsmap \<Rightarrow> string \<Rightarrow> bool" for plugins where
  res: "jm_get plugins pid = Some p \<Longrightarrow> (\<And>d. d \<in> set (deps_of p) \<Longrightarrow> resolvable plugins d) \<Longrightarrow>
    resolvable plugins pid"

inductive_cases resolvableE: "resolvable plugins pid"

definition dep :: "(string, discovered) jsmap \<Rightarrow> string \<Rightarrow> string \<Rightarrow> bool" where
  "dep plugins a b \<longleftrightarrow> (\<exists>p. jm_get plugins a = Some p \<and> b \<in> set (deps_of p))"

lemma resolvable_dep: "resolvable plugins a \<Longrightarrow> dep plugins a b \<Longrightarrow> resolvable plugins b"
  by (auto simp: dep_def elim: resolvableE)

lemma resolvable_deps: "(dep plugins)\<^sup>*\<^sup>* a b \<Longrightarrow> resolvable plugins a \<Longrightarrow> resolvable plugins b"
  by (induction rule: rtranclp_induct) (auto intro: resolvable_dep)

lemma resolvable_acyclic: "resolvable plugins a \<Longrightarrow> \<not> (dep plugins)\<^sup>+\<^sup>+ a a"
proof (induction rule: resolvable.induct)
  case (res pid p)
  show ?case
  proof
    assume "(dep plugins)\<^sup>+\<^sup>+ pid pid"
    then obtain d where d: "dep plugins pid d" "(dep plugins)\<^sup>*\<^sup>* d pid"
      by (auto dest: tranclpD)
    then have "d \<in> set (deps_of p)" using res(1) by (auto simp: dep_def)
    with res(3) have "\<not> (dep plugins)\<^sup>+\<^sup>+ d d" by blast
    moreover have "(dep plugins)\<^sup>+\<^sup>+ d d" using d by (metis rtranclp_into_tranclp1)
    ultimately show False by simp
  qed
qed

text \<open>The plugins that the search still has, compared with those discovered: only hopeless ones are gone.\<close>

definition pruned :: "(string, discovered) jsmap \<Rightarrow> (string, discovered) jsmap \<Rightarrow> bool" where
  "pruned plugins orig \<longleftrightarrow>
     (\<forall>k. jm_get plugins k = jm_get orig k \<or> (jm_get plugins k = None \<and> \<not> resolvable orig k))"

definition topo :: "(string, discovered) jsmap \<Rightarrow> string list \<Rightarrow> bool" where
  "topo orig vs \<longleftrightarrow> (\<forall>xs v ys. vs = xs @ v # ys \<longrightarrow> (\<forall>d. dep orig v d \<longrightarrow> d \<in> set xs))"

definition search_ok :: "(string, discovered) jsmap \<Rightarrow> visit_state \<Rightarrow> bool" where
  "search_ok orig st \<longleftrightarrow> distinct (vs_visited st) \<and> topo orig (vs_visited st) \<and>
     list_all2 (\<lambda>k p. jm_get orig k = Some p) (vs_visited st) (vs_sorted st) \<and>
     set (vs_visited st) \<inter> set (vs_visiting st) = {}"

text \<open>A plugin runs into trouble when it leads to one being visited or to a hopeless one.\<close>

definition trouble :: "(string, discovered) jsmap \<Rightarrow> string set \<Rightarrow> string \<Rightarrow> bool" where
  "trouble orig A y \<longleftrightarrow> (\<exists>x. (dep orig)\<^sup>*\<^sup>* y x \<and> (x \<in> A \<or> \<not> resolvable orig x))"

lemma topo_snoc: "topo orig vs \<Longrightarrow> \<forall>d. dep orig v d \<longrightarrow> d \<in> set vs \<Longrightarrow> topo orig (vs @ [v])"
  unfolding topo_def
proof (intro allI impI)
  fix xs w ys d
  assume t: "\<forall>xs v ys. vs = xs @ v # ys \<longrightarrow> (\<forall>d. dep orig v d \<longrightarrow> d \<in> set xs)"
    and v: "\<forall>d. dep orig v d \<longrightarrow> d \<in> set vs" and e: "vs @ [v] = xs @ w # ys" and d: "dep orig w d"
  show "d \<in> set xs"
  proof (cases ys rule: rev_cases)
    case Nil
    then show ?thesis using e v d by simp
  next
    case (snoc zs z)
    then have "vs = xs @ w # zs" using e by simp
    then show ?thesis using t d by blast
  qed
qed

lemma topo_resolvable:
  "topo orig vs \<Longrightarrow> \<forall>v \<in> set vs. jm_get orig v \<noteq> None \<Longrightarrow> v \<in> set vs \<Longrightarrow> resolvable orig v"
proof (induction "length vs" arbitrary: vs v rule: less_induct)
  case less
  from less.prems(3) obtain xs ys where vs: "vs = xs @ v # ys" by (meson split_list)
  obtain p where p: "jm_get orig v = Some p" using less.prems(2,3) by blast
  show ?case
  proof (rule res [OF p])
    fix d assume "d \<in> set (deps_of p)"
    then have d: "d \<in> set xs" using less.prems(1) vs p unfolding topo_def dep_def by blast
    have "topo orig xs"
      using less.prems(1) unfolding topo_def vs by (metis append.assoc append_Cons)
    then show "resolvable orig d"
      using less.hyps [of xs d] d less.prems(2) by (simp add: vs)
  qed
qed

lemma trouble_self: "x \<in> A \<Longrightarrow> trouble orig A x" "\<not> resolvable orig x \<Longrightarrow> trouble orig A x"
  by (auto simp: trouble_def)

lemma trouble_step: "(dep orig)\<^sup>*\<^sup>* y x \<Longrightarrow> trouble orig A x \<Longrightarrow> trouble orig A y"
  by (auto simp: trouble_def intro: rtranclp_trans)

lemma trouble_cycle:
  assumes "dep orig pid d" "trouble orig (insert pid A) d"
  shows "trouble orig A pid"
proof -
  obtain x where x: "(dep orig)\<^sup>*\<^sup>* d x" "x = pid \<or> x \<in> A \<or> \<not> resolvable orig x"
    using assms(2) by (auto simp: trouble_def)
  have px: "(dep orig)\<^sup>*\<^sup>* pid x" using assms(1) x(1) by (rule converse_rtranclp_into_rtranclp)
  show ?thesis
  proof (cases "x = pid")
    case True
    then have "(dep orig)\<^sup>+\<^sup>+ pid pid" using assms(1) x(1) by (metis rtranclp_into_tranclp2)
    then have "\<not> resolvable orig pid" using resolvable_acyclic by blast
    then show ?thesis by (rule trouble_self)
  next
    case False
    with x(2) px show ?thesis by (auto simp: trouble_def)
  qed
qed

lemma trouble_insert:
  assumes "trouble orig (insert pid A) y" "trouble orig A pid"
  shows "trouble orig A y"
proof -
  obtain x where x: "(dep orig)\<^sup>*\<^sup>* y x" "x = pid \<or> x \<in> A \<or> \<not> resolvable orig x"
    using assms(1) by (auto simp: trouble_def)
  then show ?thesis using assms(2) trouble_step [OF x(1)] by (auto simp: trouble_def)
qed

lemma visit_all_ok:
  assumes "pruned plugins orig" "search_ok orig st" "visit_all plugins ids st = (st', r)"
  shows "search_ok orig st' \<and> set (vs_visited st) \<subseteq> set (vs_visited st') \<and>
    set (vs_visiting st) \<subseteq> set (vs_visiting st') \<and>
    (\<forall>y \<in> set (vs_visiting st') - set (vs_visiting st). trouble orig (set (vs_visiting st)) y) \<and>
    (if r = None then set ids \<subseteq> set (vs_visited st') \<and> set (vs_visiting st') = set (vs_visiting st)
     else \<exists>y \<in> set ids. trouble orig (set (vs_visiting st)) y)"
  using assms
proof (induction plugins ids st arbitrary: st' r rule: visit_all.induct)
  case (1 plugins st)
  then show ?case by simp
next
  case (2 plugins pid ids st)
  let ?V = "set (vs_visiting st)"
  note pr = 2(4) and ok = 2(5)
  consider (circ) "pid \<in> ?V" | (vis) "pid \<notin> ?V" "pid \<in> set (vs_visited st)"
    | (miss) "pid \<notin> ?V" "pid \<notin> set (vs_visited st)" "jm_get plugins pid = None"
    | (go) p where "pid \<notin> ?V" "pid \<notin> set (vs_visited st)" "jm_get plugins pid = Some p"
    by (cases "jm_get plugins pid") blast+
  then show ?case
  proof cases
    case circ
    then show ?thesis using 2(6) ok trouble_self(1) [of pid ?V] by auto
  next
    case vis
    then show ?thesis using 2(1) [OF vis pr ok, of st' r] 2(6) by (auto split: if_splits)
  next
    case miss
    then have "\<not> resolvable orig pid"
      using pr unfolding pruned_def by (metis option.distinct(1) resolvableE)
    then have "trouble orig ?V pid" by (rule trouble_self)
    then show ?thesis using 2(6) miss ok by (auto simp: enter_def search_ok_def)
  next
    case go
    obtain st1 r1 where v: "visit_all plugins (deps_of p) (enter pid st) = (st1, r1)"
      by (metis prod.collapse)
    have p: "jm_get orig pid = Some p" using pr go unfolding pruned_def by (metis option.distinct(1))
    have ok1: "search_ok orig (enter pid st)" using ok go by (simp add: search_ok_def enter_def)
    have V1: "set (vs_visiting (enter pid st)) = insert pid ?V" "vs_visited (enter pid st) = vs_visited st"
      by (simp_all add: enter_def)
    note ih1 = 2(2) [OF go(1,2,3) pr ok1 v, unfolded V1]
    show ?thesis
    proof (cases r1)
      case (Some e)
      then have st': "st' = st1" "r = Some e" using 2(6) go v by auto
      from ih1 Some obtain d where "d \<in> set (deps_of p)" "trouble orig (insert pid ?V) d" by auto
      then have t: "trouble orig ?V pid" using p by (intro trouble_cycle [of orig pid d]) (auto simp: dep_def)
      have "trouble orig ?V y" if "y \<in> set (vs_visiting st1) - ?V" for y
        using ih1 that t trouble_insert [OF _ t, of y] by (cases "y = pid") auto
      then show ?thesis using ih1 t st' by auto
    next
      case None
      have r: "visit_all plugins ids (leave pid p st1) = (st', r)" using 2(6) go v None by simp
      have okv: "set (vs_visiting st1) = insert pid ?V" "set (deps_of p) \<subseteq> set (vs_visited st1)"
        "search_ok orig st1" "set (vs_visited st) \<subseteq> set (vs_visited st1)"
        using ih1 None by auto
      have ok2: "search_ok orig (leave pid p st1)"
        using okv p topo_snoc [of orig "vs_visited st1" pid]
        by (auto simp: search_ok_def leave_def dep_def intro!: list_all2_appendI)
      have V2: "set (vs_visiting (leave pid p st1)) = ?V" using okv(1) go(1) by (auto simp: leave_def)
      have vis2: "set (vs_visited (leave pid p st1)) = insert pid (set (vs_visited st1))"
        by (simp add: leave_def)
      note ih2 = 2(3) [OF go(1,2,3) v [symmetric] None pr ok2 r, unfolded V2 vis2]
      then show ?thesis using okv(4) by auto
    qed
  qed
qed

lemma hopeless:
  "trouble orig A y \<Longrightarrow> \<forall>x \<in> A. \<not> resolvable orig x \<Longrightarrow> \<not> resolvable orig y"
  by (auto simp: trouble_def dest: resolvable_deps)

lemma pruned_delete: "pruned plugins orig \<Longrightarrow> \<not> resolvable orig k \<Longrightarrow> pruned (jm_delete plugins k) orig"
  by (auto simp: pruned_def)

lemma sort_loop_ok:
  assumes "pruned plugins orig" "search_ok orig st" "\<forall>x \<in> set (vs_visiting st). \<not> resolvable orig x"
    "sort_loop ks plugins st = (plugins', st')"
  shows "search_ok orig st' \<and> set (vs_visited st) \<subseteq> set (vs_visited st') \<and>
    (\<forall>k \<in> set ks. k \<in> set (vs_visited st') \<or> \<not> resolvable orig k)"
  using assms
proof (induction ks plugins st rule: sort_loop.induct)
  case (1 plugins st)
  then show ?case by simp
next
  case (2 k ks plugins st)
  obtain st1 r where v: "visit_all plugins [k] st = (st1, r)" by (metis prod.collapse)
  note one = visit_all_ok [OF 2(3,4) v]
  have hop: "\<not> resolvable orig y" if "trouble orig (set (vs_visiting st)) y" for y
    using hopeless [OF that 2(5)] .
  have bad: "\<forall>x \<in> set (vs_visiting st1). \<not> resolvable orig x"
    using one hop 2(5) by blast
  have ok1: "search_ok orig st1" "set (vs_visited st) \<subseteq> set (vs_visited st1)"
    using one by blast+
  show ?case
  proof (cases r)
    case None
    have "sort_loop ks plugins st1 = (plugins', st')" using 2(6) v None by simp
    from 2(1) [OF v [symmetric] None 2(3) ok1(1) bad this] show ?thesis
      using one None ok1(2) by auto
  next
    case (Some e)
    have k: "\<not> resolvable orig k" using one Some hop by auto
    have "sort_loop ks (jm_delete plugins k) st1 = (plugins', st')" using 2(6) v Some by simp
    from 2(2) [OF v [symmetric] Some pruned_delete [OF 2(3) k] ok1(1) bad this] show ?thesis
      using k ok1(2) by auto
  qed
qed

lemma set_orderedKeys: "set (orderedKeys plugins) = set (jm_keys plugins)"
  by (simp add: orderedKeys_def)

text \<open>Discovery files each plugin under the id of its manifest.\<close>

definition keyed :: "(string, discovered) jsmap \<Rightarrow> bool" where
  "keyed plugins \<longleftrightarrow> (\<forall>k p. jm_get plugins k = Some p \<longrightarrow> pm_id (di_manifest p) = k)"

definition plugin_id :: "discovered \<Rightarrow> string" where
  "plugin_id p = pm_id (di_manifest p)"

lemma keyed_ids:
  "keyed plugins \<Longrightarrow> list_all2 (\<lambda>k p. jm_get plugins k = Some p) ks ps \<Longrightarrow> map plugin_id ps = ks"
  by (rotate_tac, induction rule: list_all2_induct) (auto simp: keyed_def plugin_id_def)

lemma sort_exact:
  assumes "keyed plugins"
  shows "distinct (map plugin_id (fst (sortDependencies plugins))) \<and>
    set (map plugin_id (fst (sortDependencies plugins))) = {k. resolvable plugins k} \<and>
    set (fst (sortDependencies plugins)) \<subseteq> {p. jm_get plugins (plugin_id p) = Some p} \<and>
    (\<forall>xs p ys. fst (sortDependencies plugins) = xs @ p # ys \<longrightarrow>
      set (deps_of p) \<subseteq> set (map plugin_id xs))"
proof -
  let ?st0 = "\<lparr>vs_sorted = [], vs_visited = [], vs_visiting = []\<rparr>"
  obtain plugins' st where s: "sort_loop (orderedKeys plugins) plugins ?st0 = (plugins', st)"
    by (metis prod.collapse)
  have f: "fst (sortDependencies plugins) = vs_sorted st" by (simp add: sortDependencies_def s)
  have "search_ok plugins ?st0" "pruned plugins plugins"
    by (simp_all add: search_ok_def topo_def pruned_def)
  from sort_loop_ok [OF this(2,1) _ s]
  have ok: "search_ok plugins st"
    and all: "\<forall>k \<in> set (jm_keys plugins). k \<in> set (vs_visited st) \<or> \<not> resolvable plugins k"
    by (simp_all add: set_orderedKeys)
  from ok have l: "list_all2 (\<lambda>k p. jm_get plugins k = Some p) (vs_visited st) (vs_sorted st)"
    and tp: "topo plugins (vs_visited st)" and di: "distinct (vs_visited st)"
    by (simp_all add: search_ok_def)
  have ids: "map plugin_id (vs_sorted st) = vs_visited st"
    using assms l by (rule keyed_ids)
  have some: "jm_get plugins (plugin_id p) = Some p" if "p \<in> set (vs_sorted st)" for p
    using l that assms unfolding list_all2_conv_all_nth in_set_conv_nth
    by (auto simp: keyed_def plugin_id_def)
  have none: "\<forall>v \<in> set (vs_visited st). jm_get plugins v \<noteq> None"
    using some by (auto simp flip: ids)
  have "k \<in> set (jm_keys plugins)" if "resolvable plugins k" for k
    using that by (cases rule: resolvable.cases) (rule jm_get_key)
  then have "set (vs_visited st) = {k. resolvable plugins k}"
    using topo_resolvable [OF tp none] all by blast
  moreover have "set (deps_of p) \<subseteq> set (map plugin_id xs)" if "vs_sorted st = xs @ p # ys" for xs p ys
  proof -
    have "vs_visited st = map plugin_id xs @ plugin_id p # map plugin_id ys"
      using that by (simp flip: ids)
    with tp have "\<forall>d. dep plugins (plugin_id p) d \<longrightarrow> d \<in> set (map plugin_id xs)"
      unfolding topo_def by blast
    then show ?thesis using some [of p] that by (auto simp: dep_def)
  qed
  ultimately show ?thesis using di ids some by (auto simp: f)
qed

text \<open>
  C25. Whatever the dependencies, the sort ends and yields exactly the plugins that can be loaded, each once
  and after all its dependencies: a missing or circular dependency costs the plugins that lead to it and
  no others, although the search keeps what it was visiting when it failed.
\<close>

theorem sortDependencies_exact:
  assumes "keyed plugins"
  shows "distinct (map plugin_id (fst (sortDependencies plugins))) \<and>
    set (map plugin_id (fst (sortDependencies plugins))) = {k. resolvable plugins k} \<and>
    set (fst (sortDependencies plugins)) \<subseteq> {p. jm_get plugins (plugin_id p) = Some p} \<and>
    (\<forall>xs p ys. fst (sortDependencies plugins) = xs @ p # ys \<longrightarrow>
      set (deps_of p) \<subseteq> set (map plugin_id xs))"
  by (rule sort_exact [OF assms])

definition demo_plugin :: "string \<Rightarrow> string list \<Rightarrow> int \<Rightarrow> string \<times> discovered" where
  "demo_plugin i ds n = (i, \<lparr>di_dir = i, di_manifest = \<lparr>pm_id = i, pm_name = i, pm_version = ''1.0.0'',
     pm_dependencies = Some ds, pm_zene_version = None, pm_node_version = None, pm_priority = Some n\<rparr>\<rparr>)"

text \<open>Two plugins in a cycle, one with a missing dependency, and three that can be loaded.\<close>

definition demo_plugins :: "(string, discovered) jsmap" where
  "demo_plugins = [demo_plugin ''a'' [''b''] 0, demo_plugin ''b'' [''a''] 1, demo_plugin ''c'' [''zz'', ''core''] 0,
     demo_plugin ''dash'' [''api'', ''core''] (-5), demo_plugin ''api'' [''core''] 0, demo_plugin ''core'' [] 10]"

lemma sortDependencies_exact_witness:
  "map plugin_id (fst (sortDependencies demo_plugins)) = [''core'', ''api'', ''dash''] \<and>
   {k. resolvable demo_plugins k} = {''core'', ''api'', ''dash''}"
proof -
  have "keyed demo_plugins"
    by (auto simp: keyed_def demo_plugins_def demo_plugin_def jm_get_def split: if_splits)
  moreover have "map plugin_id (fst (sortDependencies demo_plugins)) = [''core'', ''api'', ''dash'']"
    by code_simp
  ultimately show ?thesis using sortDependencies_exact [of demo_plugins] by auto
qed

end
