(* ===== verification/PluginManager.thy ===== *)
theory PluginManager
  imports PluginGraph
begin

text \<open>
  The life of plugins: \<open>PluginManager\<close> of \<open>src/core/loader/index.ts\<close>.  Discovery takes the directory
  entries in the order in which they are done, each with what is on the disk and what
  \<open>PackageManager.unpackAndVerify\<close> makes of its signed manifest for every key; a boot, a reload and a
  shutdown take the outcome of each plugin's own code.  What the loaders register with the other managers
  (listeners, commands, handlers, routes) is left out, and so are log lines, events, timings and the
  installation of packages.
\<close>

datatype plugin_state = PS_Unloaded | PS_Setup | PS_Enabled | PS_Disabled | PS_Error

datatype boot_status = BS_Pending | BS_Preloaded | BS_Success | BS_Failed | BS_Skipped

datatype integrity = I_signed | I_unsigned | I_failed | I_bypassed

record plugin_inst =
  pl_manifest :: plugin_manifest
  pl_state :: plugin_state

record plugin_mgr =
  mg_registry :: "(string, plugin_inst) jsmap"
  mg_preloaded :: "discovered list"
  mg_status :: "(string, boot_status) jsmap"
  mg_integrity :: "(string, integrity) jsmap"
  mg_dirs :: "(string, string) jsmap"

subsection \<open>Discovery\<close>

text \<open>
  \<open>de_nvx\<close>: no \<open>manifest.nvx\<close>, or one with what \<open>unpackAndVerify\<close> returns for a public key, \<open>None\<close> when it
  throws.  \<open>de_json\<close>: no readable file, one that does not parse, or a parsed one.
\<close>

record dir_entry =
  de_name :: string
  de_isDirectory :: bool
  de_nvx :: "(string \<Rightarrow> plugin_manifest option) option"
  de_json :: "jval option option"

record discovery_env =
  dv_publicKey :: "string option"
  dv_allowUncertified :: bool
  dv_whitelisted :: "string option"
  dv_coreVersion :: string
  dv_nodeVersion :: string

definition whitelistedSet :: "discovery_env \<Rightarrow> string list" where
  "whitelistedSet env = (if truthy (dv_whitelisted env)
     then js_nonempty (map js_trim (js_split (CHR '','') (the (dv_whitelisted env)))) else [])"

definition str_or :: "jval \<Rightarrow> string \<Rightarrow> string option" where
  "str_or raw k = (case jfield raw k of Some (JStr s) \<Rightarrow> Some s | _ \<Rightarrow> None)"

definition manifest_of_json :: "jval \<Rightarrow> plugin_manifest" where
  "manifest_of_json raw =
    \<lparr>pm_id = (case str_or raw ''id'' of None \<Rightarrow> [] | Some s \<Rightarrow> s),
     pm_name = (case str_or raw ''name'' of None \<Rightarrow> [] | Some s \<Rightarrow> s),
     pm_version = (case str_or raw ''version'' of None \<Rightarrow> [] | Some s \<Rightarrow> s),
     pm_dependencies = (case jfield raw ''dependencies'' of
        Some (JArr xs) \<Rightarrow> Some (map js_String (filter is_jstr xs)) | _ \<Rightarrow> None),
     pm_zene_version = (case jfield raw ''zene_version'' of
        Some (JStr s) \<Rightarrow> Some (RStr s) | Some (JArr xs) \<Rightarrow> Some (RArr (map js_String xs)) | _ \<Rightarrow> None),
     pm_node_version = str_or raw ''node_version'',
     pm_priority = (case jfield raw ''priority'' of Some (JNum n) \<Rightarrow> Some n | _ \<Rightarrow> None)\<rparr>"

definition zene_ok :: "discovery_env \<Rightarrow> plugin_manifest \<Rightarrow> bool" where
  "zene_ok env m = (case pm_zene_version m of None \<Rightarrow> True
     | Some r \<Rightarrow> r = RStr [] \<or> SemVer_satisfies (dv_coreVersion env) r False = Inr True)"

definition node_ok :: "discovery_env \<Rightarrow> plugin_manifest \<Rightarrow> bool" where
  "node_ok env m = (\<not> truthy (pm_node_version m) \<or>
     SemVer_satisfies (dv_nodeVersion env) (RStr (the (pm_node_version m))) False = Inr True)"

text \<open>The manifest an entry is loaded by, and how its integrity is filed, which happens before checks fail.\<close>

definition signed_manifest :: "discovery_env \<Rightarrow> dir_entry \<Rightarrow> plugin_manifest option" where
  "signed_manifest env e = (if truthy (dv_publicKey env)
     then (case de_nvx e of Some verify \<Rightarrow> verify (the (dv_publicKey env)) | None \<Rightarrow> None) else None)"

definition bypass_manifest :: "discovery_env \<Rightarrow> dir_entry \<Rightarrow> plugin_manifest option" where
  "bypass_manifest env e =
    (if \<not> dv_allowUncertified env \<and> de_name e \<notin> set (whitelistedSet env) then None
     else case de_json e of
         Some (Some (JObj kvs)) \<Rightarrow> Some (manifest_of_json (JObj kvs))
       | _ \<Rightarrow> None)"

definition file_plugin ::
    "discovery_env \<Rightarrow> string \<Rightarrow> plugin_manifest \<Rightarrow> (string, discovered) jsmap \<times> plugin_mgr \<Rightarrow>
     (string, discovered) jsmap \<times> plugin_mgr" where
  "file_plugin env dir m acc =
    (if zene_ok env m \<and> node_ok env m
     then (jm_set (fst acc) (pm_id m) \<lparr>di_dir = dir, di_manifest = m\<rparr>,
           (snd acc)\<lparr>mg_dirs := jm_set (mg_dirs (snd acc)) (pm_id m) dir,
             mg_status := jm_set (mg_status (snd acc)) (pm_id m) BS_Pending\<rparr>)
     else acc)"

definition discover_entry ::
    "discovery_env \<Rightarrow> (string, discovered) jsmap \<times> plugin_mgr \<Rightarrow> dir_entry \<Rightarrow>
     (string, discovered) jsmap \<times> plugin_mgr" where
  "discover_entry env acc e =
    (if \<not> de_isDirectory e then acc
     else case signed_manifest env e of
         Some m \<Rightarrow> file_plugin env (de_name e) m
           (fst acc, (snd acc)\<lparr>mg_integrity := jm_set (mg_integrity (snd acc)) (pm_id m) I_signed\<rparr>)
       | None \<Rightarrow>
           (case bypass_manifest env e of
              None \<Rightarrow> acc
            | Some m \<Rightarrow>
                let acc' = (if pm_id m = [] then acc
                  else (fst acc, (snd acc)\<lparr>mg_integrity := jm_set (mg_integrity (snd acc)) (pm_id m) I_bypassed\<rparr>))
                in if pm_id m = [] \<or> pm_name m = [] \<or> pm_version m = [] then acc'
                   else file_plugin env (de_name e) m acc'))"

definition discoverPlugins ::
    "discovery_env \<Rightarrow> dir_entry list \<Rightarrow> plugin_mgr \<Rightarrow> (string, discovered) jsmap \<times> plugin_mgr" where
  "discoverPlugins env entries mgr =
    (if \<not> truthy (dv_publicKey env) \<and> \<not> dv_allowUncertified env \<and> whitelistedSet env = [] then ([], mgr)
     else foldl (discover_entry env) ([], mgr) entries)"

subsection \<open>Preloading and booting\<close>

definition set_status :: "string \<Rightarrow> boot_status \<Rightarrow> plugin_mgr \<Rightarrow> plugin_mgr" where
  "set_status pid s mgr = mgr\<lparr>mg_status := jm_set (mg_status mgr) pid s\<rparr>"

text \<open>\<open>loads\<close> tells whether the packages, the assets and the entry point of a plugin are in order.\<close>

definition preload_one :: "(string \<Rightarrow> bool) \<Rightarrow> plugin_mgr \<Rightarrow> discovered \<Rightarrow> plugin_mgr" where
  "preload_one loads mgr p =
    (if loads (plugin_id p)
     then set_status (plugin_id p) BS_Preloaded (mgr\<lparr>mg_preloaded := mg_preloaded mgr @ [p]\<rparr>)
     else set_status (plugin_id p) BS_Failed mgr)"

definition preloadAll ::
    "discovery_env \<Rightarrow> dir_entry list \<Rightarrow> (string \<Rightarrow> bool) \<Rightarrow> plugin_mgr \<Rightarrow> plugin_mgr" where
  "preloadAll env entries loads mgr =
    (case discoverPlugins env entries mgr of (found, mgr') \<Rightarrow>
       if found = [] then mgr'
       else foldl (preload_one loads) mgr' (fst (sortDependencies found)))"

definition getPreloadedPluginDirs :: "plugin_mgr \<Rightarrow> (string \<times> string) list" where
  "getPreloadedPluginDirs mgr = map (\<lambda>p. (di_dir p, plugin_id p)) (mg_preloaded mgr)"

definition excludePreloadedPlugin :: "string \<Rightarrow> plugin_mgr \<Rightarrow> plugin_mgr" where
  "excludePreloadedPlugin pid mgr =
    set_status pid BS_Failed (mgr\<lparr>mg_preloaded := filter (\<lambda>p. plugin_id p \<noteq> pid) (mg_preloaded mgr)\<rparr>)"

text \<open>
  How the boot of a plugin ends: well, or with an error of its constructor, \<open>onSetup\<close>, a loader or
  \<open>onEnable\<close>, or a timeout of one of them.
\<close>

datatype boot_outcome = Boots | Boot_fails

definition start_plugin :: "boot_outcome \<Rightarrow> plugin_manifest \<Rightarrow> plugin_mgr \<Rightarrow> plugin_mgr" where
  "start_plugin outcome m mgr = (case outcome of
     Boots \<Rightarrow> set_status (pm_id m) BS_Success
       (mgr\<lparr>mg_registry := jm_set (mg_registry mgr) (pm_id m) \<lparr>pl_manifest = m, pl_state = PS_Enabled\<rparr>\<rparr>)
   | Boot_fails \<Rightarrow> set_status (pm_id m) BS_Failed mgr)"

definition dep_booted :: "plugin_mgr \<Rightarrow> string \<Rightarrow> bool" where
  "dep_booted mgr d = (jm_get (mg_status mgr) d = Some BS_Success \<or> jm_get (mg_status mgr) d = Some BS_Preloaded)"

text \<open>\<open>invalid\<close> is \<open>shouldDisablePluginForConfig\<close>: a config or language file of the plugin does not validate.\<close>

definition boot_one ::
    "(string \<Rightarrow> bool) \<Rightarrow> (string \<Rightarrow> boot_outcome) \<Rightarrow> plugin_mgr \<Rightarrow> discovered \<Rightarrow> plugin_mgr" where
  "boot_one invalid outcome mgr p =
    (let pid = plugin_id p
     in if invalid pid then set_status pid BS_Skipped mgr
        else if \<not> list_all (dep_booted mgr) (deps_of p) then set_status pid BS_Skipped mgr
        else start_plugin (outcome pid) (di_manifest p) mgr)"

definition bootAll ::
    "(string \<Rightarrow> bool) \<Rightarrow> (string \<Rightarrow> boot_outcome) \<Rightarrow> plugin_mgr \<Rightarrow> plugin_mgr" where
  "bootAll invalid outcome mgr = foldl (boot_one invalid outcome) mgr (mg_preloaded mgr)"

subsection \<open>Disabling, reloading and shutting down\<close>

text \<open>\<open>ends\<close> tells whether \<open>onDisable\<close> returns in time.\<close>

definition disable :: "bool \<Rightarrow> string \<Rightarrow> plugin_mgr \<Rightarrow> plugin_mgr \<times> bool" where
  "disable ends pid mgr =
    (case jm_get (mg_registry mgr) pid of
       None \<Rightarrow> (mgr, False)
     | Some p \<Rightarrow>
         if pl_state p = PS_Enabled \<and> \<not> ends
         then (mgr\<lparr>mg_registry := jm_set (mg_registry mgr) pid (p\<lparr>pl_state := PS_Error\<rparr>)\<rparr>, False)
         else (set_status pid BS_Pending
                 (mgr\<lparr>mg_registry := jm_delete (mg_registry mgr) pid\<rparr>), True))"

definition getIntegrityStatus :: "plugin_mgr \<Rightarrow> string \<Rightarrow> integrity option" where
  "getIntegrityStatus mgr pid = jm_get (mg_integrity mgr) pid"

definition listLoadedPlugins :: "plugin_mgr \<Rightarrow> plugin_inst list" where
  "listLoadedPlugins mgr = jm_values (mg_registry mgr)"

definition getPluginDir :: "plugin_mgr \<Rightarrow> string \<Rightarrow> string option" where
  "getPluginDir mgr pid = jm_get (mg_dirs mgr) pid"

text \<open>The order in which a shutdown calls \<open>onDisable\<close>: the registry backwards, enabled plugins only.\<close>

definition shutdown_order :: "plugin_mgr \<Rightarrow> string list" where
  "shutdown_order mgr = map fst (filter (\<lambda>e. pl_state (snd e) = PS_Enabled) (rev (mg_registry mgr)))"

definition shutdownAll :: "plugin_mgr \<Rightarrow> string list \<times> plugin_mgr" where
  "shutdownAll mgr =
    (shutdown_order mgr, mgr\<lparr>mg_registry := [], mg_status := [], mg_integrity := [], mg_dirs := []\<rparr>)"

text \<open>
  One round of \<open>reload\<close>: \<open>loads\<close> covers the packages, the assets, the entry point and the start of the
  instance up to \<open>onSetup\<close>, as in a boot.
\<close>

definition reload_one ::
    "discovery_env \<Rightarrow> (string \<Rightarrow> bool) \<Rightarrow> dir_entry list \<Rightarrow> bool \<Rightarrow> bool \<Rightarrow> boot_outcome \<Rightarrow> string \<Rightarrow>
     plugin_mgr \<Rightarrow> plugin_mgr \<times> bool" where
  "reload_one env invalid entries ends loads outcome pid mgr =
    (let fail = (\<lambda>m. (set_status pid BS_Failed m, False));
         (mgr1, gone) = (if jm_has (mg_registry mgr) pid then disable ends pid mgr else (mgr, True))
     in if \<not> gone then fail mgr1
        else case discoverPlugins env entries mgr1 of (found, mgr2) \<Rightarrow>
          (case jm_get found pid of
             None \<Rightarrow> fail mgr2
           | Some p \<Rightarrow>
               if \<not> loads \<or> invalid pid then fail mgr2
               else (start_plugin outcome (di_manifest p) mgr2, outcome = Boots)))"

definition reload_ids :: "string \<Rightarrow> string list" where
  "reload_ids s = js_nonempty (map js_trim (js_split (CHR ''$'') s))"

subsection \<open>What is discovered\<close>

definition signed_under :: "discovery_env \<Rightarrow> dir_entry \<Rightarrow> plugin_manifest \<Rightarrow> bool" where
  "signed_under env e m \<longleftrightarrow> (\<exists>key verify. dv_publicKey env = Some key \<and> key \<noteq> [] \<and>
     de_nvx e = Some verify \<and> verify key = Some m)"

definition admitted :: "discovery_env \<Rightarrow> dir_entry list \<Rightarrow> discovered \<Rightarrow> bool" where
  "admitted env entries p \<longleftrightarrow> (\<exists>e \<in> set entries. de_isDirectory e \<and> di_dir p = de_name e \<and>
     zene_ok env (di_manifest p) \<and> node_ok env (di_manifest p) \<and>
     (signed_under env e (di_manifest p) \<or>
      (dv_allowUncertified env \<or> de_name e \<in> set (whitelistedSet env)) \<and>
      (\<exists>v. de_json e = Some (Some v) \<and> di_manifest p = manifest_of_json v)))"

lemma signed_manifest_Some:
  "signed_manifest env e = Some m \<longleftrightarrow> signed_under env e m"
  by (auto simp: signed_manifest_def signed_under_def truthy_def split: option.splits)

lemma bypass_manifest_Some:
  "bypass_manifest env e = Some m \<Longrightarrow>
   (dv_allowUncertified env \<or> de_name e \<in> set (whitelistedSet env)) \<and>
   (\<exists>v. de_json e = Some (Some v) \<and> m = manifest_of_json v)"
  by (auto simp: bypass_manifest_def split: if_splits option.splits jval.splits)

lemma fst_file_plugin:
  "fst (file_plugin env dir m acc) =
    (if zene_ok env m \<and> node_ok env m
     then jm_set (fst acc) (pm_id m) \<lparr>di_dir = dir, di_manifest = m\<rparr> else fst acc)"
  by (simp add: file_plugin_def)

lemma fst_discover_entry:
  "fst (discover_entry env acc e) = fst acc \<or>
   (\<exists>m. fst (discover_entry env acc e) = jm_set (fst acc) (pm_id m) \<lparr>di_dir = de_name e, di_manifest = m\<rparr> \<and>
     admitted env [e] \<lparr>di_dir = de_name e, di_manifest = m\<rparr>)"
proof (cases "signed_manifest env e")
  case (Some m)
  then show ?thesis
    using Some [unfolded signed_manifest_Some]
    by (auto simp: discover_entry_def fst_file_plugin admitted_def)
next
  case None
  show ?thesis
  proof (cases "bypass_manifest env e")
    case None
    then show ?thesis using \<open>signed_manifest env e = None\<close> by (simp add: discover_entry_def)
  next
    case (Some m)
    then show ?thesis using \<open>signed_manifest env e = None\<close> bypass_manifest_Some [OF Some]
      by (auto simp: discover_entry_def fst_file_plugin admitted_def Let_def)
  qed
qed

lemma admitted_mono: "admitted env [e] p \<Longrightarrow> e \<in> set es \<Longrightarrow> admitted env es p"
  by (auto simp: admitted_def)

lemma discover_foldl:
  "\<forall>k p. jm_get (fst acc) k = Some p \<longrightarrow> plugin_id p = k \<and> admitted env all p \<Longrightarrow> set es \<subseteq> set all \<Longrightarrow>
   jm_get (fst (foldl (discover_entry env) acc es)) k = Some p \<Longrightarrow> plugin_id p = k \<and> admitted env all p"
proof (induction es arbitrary: acc)
  case Nil
  then show ?case by simp
next
  case (Cons e es)
  have "\<forall>k p. jm_get (fst (discover_entry env acc e)) k = Some p \<longrightarrow> plugin_id p = k \<and> admitted env all p"
    using fst_discover_entry [of env acc e]
  proof
    assume "fst (discover_entry env acc e) = fst acc"
    then show ?thesis using Cons.prems(1) by simp
  next
    assume "\<exists>m. fst (discover_entry env acc e) = jm_set (fst acc) (pm_id m) \<lparr>di_dir = de_name e, di_manifest = m\<rparr> \<and>
     admitted env [e] \<lparr>di_dir = de_name e, di_manifest = m\<rparr>"
    then show ?thesis
      using Cons.prems(1,2) admitted_mono [of env e _ all] by (auto simp: plugin_id_def split: if_splits)
  qed
  then show ?case using Cons.IH Cons.prems(2,3) by simp
qed

lemma discovered_ok:
  assumes "jm_get (fst (discoverPlugins env entries mgr)) k = Some p"
  shows "plugin_id p = k \<and> admitted env entries p"
  using assms discover_foldl [of "([], mgr)" env entries entries k p]
  by (auto simp: discoverPlugins_def split: if_splits)

lemma discovered_keyed: "keyed (fst (discoverPlugins env entries mgr))"
  using discovered_ok by (auto simp: keyed_def plugin_id_def)

text \<open>
  C27. Discovery files a plugin under the id of its manifest, and only one whose signed manifest
  verified under the configured \<open>PublicKey\<close>, or whose plain manifest came from a directory that is on the
  whitelist or with uncertified plugins allowed; a manifest that is neither is never filed, and the version
  requirements are met either way.  No other key is consulted, whatever the plugin.
\<close>

theorem discovery_sound:
  assumes "jm_get (fst (discoverPlugins env entries mgr)) k = Some p"
  shows "pm_id (di_manifest p) = k \<and> zene_ok env (di_manifest p) \<and> node_ok env (di_manifest p) \<and>
    (\<exists>e \<in> set entries. de_isDirectory e \<and> di_dir p = de_name e \<and>
      ((\<exists>key verify. dv_publicKey env = Some key \<and> key \<noteq> [] \<and> de_nvx e = Some verify \<and>
          verify key = Some (di_manifest p)) \<or>
       (dv_allowUncertified env \<or> de_name e \<in> set (whitelistedSet env)) \<and>
       (\<exists>v. de_json e = Some (Some v) \<and> di_manifest p = manifest_of_json v)))"
  using discovered_ok [OF assms] by (auto simp: admitted_def plugin_id_def signed_under_def)

definition fresh_mgr :: plugin_mgr where
  "fresh_mgr = \<lparr>mg_registry = [], mg_preloaded = [], mg_status = [], mg_integrity = [], mg_dirs = []\<rparr>"

definition demo_discovery :: discovery_env where
  "demo_discovery = \<lparr>dv_publicKey = Some ''key'', dv_allowUncertified = False, dv_whitelisted = Some ''mine, x'',
     dv_coreVersion = ''2.1.0'', dv_nodeVersion = ''20.0.0''\<rparr>"

definition demo_json :: jval where
  "demo_json = JObj [(''id'', JStr ''mine''), (''name'', JStr ''Mine''), (''version'', JStr ''1.0.0''),
     (''dependencies'', JArr [JStr ''core'']), (''zene_version'', JStr ''^2.0.0'')]"

definition demo_core :: plugin_manifest where
  "demo_core = \<lparr>pm_id = ''core'', pm_name = ''Core'', pm_version = ''1.0.0'', pm_dependencies = None,
     pm_zene_version = None, pm_node_version = None, pm_priority = Some 10\<rparr>"

definition demo_entries :: "dir_entry list" where
  "demo_entries =
    [\<lparr>de_name = ''mine'', de_isDirectory = True, de_nvx = None, de_json = Some (Some demo_json)\<rparr>,
     \<lparr>de_name = ''core'', de_isDirectory = True, de_nvx = Some (\<lambda>key. if key = ''key'' then Some demo_core else None), de_json = None\<rparr>,
     \<lparr>de_name = ''other'', de_isDirectory = True, de_nvx = Some (\<lambda>key. None), de_json = Some (Some demo_json)\<rparr>]"

lemma discovery_sound_witness:
  "jm_keys (fst (discoverPlugins demo_discovery demo_entries fresh_mgr)) = [''mine'', ''core''] \<and>
   di_dir (the (jm_get (fst (discoverPlugins demo_discovery demo_entries fresh_mgr)) ''mine'')) = ''mine'' \<and>
   ''mine'' \<in> set (whitelistedSet demo_discovery)"
proof -
  have k: "jm_keys (fst (discoverPlugins demo_discovery demo_entries fresh_mgr)) = [''mine'', ''core'']"
    "di_dir (the (jm_get (fst (discoverPlugins demo_discovery demo_entries fresh_mgr)) ''mine'')) = ''mine''"
    by code_simp+
  then obtain p where p: "jm_get (fst (discoverPlugins demo_discovery demo_entries fresh_mgr)) ''mine'' = Some p"
    by (metis jm_get_None_iff list.set_intros(1) not_Some_eq)
  have "di_dir p = ''mine''" using k(2) p by simp
  then show ?thesis
    using discovery_sound [OF p] k by (auto simp: demo_discovery_def demo_entries_def)
qed

subsection \<open>Booting in order\<close>

lemma set_status_simps [simp]:
  "mg_registry (set_status i s mgr) = mg_registry mgr"
  "mg_preloaded (set_status i s mgr) = mg_preloaded mgr"
  "jm_get (mg_status (set_status i s mgr)) k = (if k = i then Some s else jm_get (mg_status mgr) k)"
  by (auto simp: set_status_def)

text \<open>
  The plugins \<open>done\<close> have been booted and those in \<open>todo\<close> not yet; a plugin counts as usable by others
  when it is enabled or still waiting.
\<close>

definition booting :: "discovered list \<Rightarrow> discovered list \<Rightarrow> plugin_mgr \<Rightarrow> bool" where
  "booting finished todo mgr \<longleftrightarrow>
     (\<forall>k. jm_get (mg_status mgr) k = Some BS_Preloaded \<longleftrightarrow> k \<in> set (map plugin_id todo)) \<and>
     (\<forall>k. jm_get (mg_status mgr) k = Some BS_Success \<longleftrightarrow> k \<in> set (jm_keys (mg_registry mgr))) \<and>
     (\<forall>k \<in> set (jm_keys (mg_registry mgr)). k \<in> set (map plugin_id finished)) \<and>
     (\<forall>xs k pl ys. mg_registry mgr = xs @ (k, pl) # ys \<longrightarrow>
        (\<exists>p \<in> set finished. plugin_id p = k \<and> pl_manifest pl = di_manifest p \<and> pl_state pl = PS_Enabled \<and>
           set (deps_of p) \<subseteq> set (jm_keys xs)))"

lemma append_snoc_cases:
  "xs @ y # ys = zs @ [z] \<Longrightarrow> (ys = [] \<and> y = z \<and> xs = zs) \<or> (\<exists>ys'. ys = ys' @ [z] \<and> zs = xs @ y # ys')"
  by (cases ys rule: rev_cases) auto

lemma booting_failed:
  assumes b: "booting finished (p # todo) mgr" and n: "plugin_id p \<notin> set (map plugin_id todo)"
    and f: "plugin_id p \<notin> set (map plugin_id finished)"
    and m: "mg_registry mgr' = mg_registry mgr" and s: "s \<noteq> BS_Preloaded" "s \<noteq> BS_Success"
    and st: "\<And>k. jm_get (mg_status mgr') k = (if k = plugin_id p then Some s else jm_get (mg_status mgr) k)"
  shows "booting (finished @ [p]) todo mgr'"
proof -
  have r: "plugin_id p \<notin> set (jm_keys (mg_registry mgr))"
    using b f unfolding booting_def by blast
  have 1: "jm_get (mg_status mgr') k = Some BS_Preloaded \<longleftrightarrow> k \<in> set (map plugin_id todo)" for k
    using b n s unfolding booting_def st by (cases "k = plugin_id p") auto
  have 2: "jm_get (mg_status mgr') k = Some BS_Success \<longleftrightarrow> k \<in> set (jm_keys (mg_registry mgr'))" for k
    using b r s unfolding booting_def st m by (cases "k = plugin_id p") auto
  have 3: "\<forall>k \<in> set (jm_keys (mg_registry mgr')). k \<in> set (map plugin_id (finished @ [p]))"
    using b unfolding booting_def m by auto
  have 4: "\<forall>xs k pl ys. mg_registry mgr' = xs @ (k, pl) # ys \<longrightarrow>
        (\<exists>q \<in> set (finished @ [p]). plugin_id q = k \<and> pl_manifest pl = di_manifest q \<and> pl_state pl = PS_Enabled \<and>
           set (deps_of q) \<subseteq> set (jm_keys xs))"
  proof (intro allI impI)
    fix xs k pl ys assume "mg_registry mgr' = xs @ (k, pl) # ys"
    then have "\<exists>q \<in> set finished. plugin_id q = k \<and> pl_manifest pl = di_manifest q \<and> pl_state pl = PS_Enabled \<and>
           set (deps_of q) \<subseteq> set (jm_keys xs)"
      using b unfolding booting_def m by blast
    then show "\<exists>q \<in> set (finished @ [p]). plugin_id q = k \<and> pl_manifest pl = di_manifest q \<and> pl_state pl = PS_Enabled \<and>
           set (deps_of q) \<subseteq> set (jm_keys xs)"
      by auto
  qed
  show ?thesis unfolding booting_def using 1 2 3 4 by blast
qed

lemma booting_started:
  assumes b: "booting finished (p # todo) mgr" and n: "plugin_id p \<notin> set (map plugin_id todo)"
    and f: "plugin_id p \<notin> set (map plugin_id finished)"
    and d: "set (deps_of p) \<subseteq> set (jm_keys (mg_registry mgr))"
  shows "booting (finished @ [p]) todo (start_plugin Boots (di_manifest p) mgr)"
proof -
  let ?pl = "\<lparr>pl_manifest = di_manifest p, pl_state = PS_Enabled\<rparr>"
  let ?m = "start_plugin Boots (di_manifest p) mgr"
  have r: "plugin_id p \<notin> set (jm_keys (mg_registry mgr))"
    using b f unfolding booting_def by blast
  then have "jm_get (mg_registry mgr) (plugin_id p) = None" by (simp add: jm_get_None_iff)
  then have m: "mg_registry ?m = mg_registry mgr @ [(plugin_id p, ?pl)]"
    by (simp add: start_plugin_def Let_def plugin_id_def jm_set_new)
  have st: "jm_get (mg_status ?m) k = (if k = plugin_id p then Some BS_Success else jm_get (mg_status mgr) k)" for k
    by (simp add: start_plugin_def Let_def plugin_id_def)
  have 1: "jm_get (mg_status ?m) k = Some BS_Preloaded \<longleftrightarrow> k \<in> set (map plugin_id todo)" for k
    using b n unfolding booting_def st by (cases "k = plugin_id p") auto
  have 2: "jm_get (mg_status ?m) k = Some BS_Success \<longleftrightarrow> k \<in> set (jm_keys (mg_registry ?m))" for k
    using b unfolding booting_def st m by (cases "k = plugin_id p") auto
  have 3: "\<forall>k \<in> set (jm_keys (mg_registry ?m)). k \<in> set (map plugin_id (finished @ [p]))"
    using b unfolding booting_def m by auto
  have 4: "\<forall>xs k pl ys. mg_registry ?m = xs @ (k, pl) # ys \<longrightarrow>
        (\<exists>q \<in> set (finished @ [p]). plugin_id q = k \<and> pl_manifest pl = di_manifest q \<and> pl_state pl = PS_Enabled \<and>
           set (deps_of q) \<subseteq> set (jm_keys xs))"
  proof (intro allI impI)
    fix xs k pl ys assume e: "mg_registry ?m = xs @ (k, pl) # ys"
    from append_snoc_cases [OF e [unfolded m, symmetric]]
    show "\<exists>q \<in> set (finished @ [p]). plugin_id q = k \<and> pl_manifest pl = di_manifest q \<and> pl_state pl = PS_Enabled \<and>
           set (deps_of q) \<subseteq> set (jm_keys xs)"
    proof
      assume "ys = [] \<and> (k, pl) = (plugin_id p, ?pl) \<and> xs = mg_registry mgr"
      then show ?thesis using d by auto
    next
      assume "\<exists>ys'. ys = ys' @ [(plugin_id p, ?pl)] \<and> mg_registry mgr = xs @ (k, pl) # ys'"
      then obtain ys' where "mg_registry mgr = xs @ (k, pl) # ys'" by blast
      then have "\<exists>q \<in> set finished. plugin_id q = k \<and> pl_manifest pl = di_manifest q \<and> pl_state pl = PS_Enabled \<and>
           set (deps_of q) \<subseteq> set (jm_keys xs)"
        using b unfolding booting_def by blast
      then show ?thesis by auto
    qed
  qed
  show ?thesis unfolding booting_def using 1 2 3 4 by blast
qed

lemma boot_one_booting:
  assumes b: "booting finished (p # todo) mgr" and n: "distinct (map plugin_id (finished @ p # todo))"
    and d: "set (deps_of p) \<inter> set (map plugin_id (p # todo)) = {}"
  shows "booting (finished @ [p]) todo (boot_one invalid outcome mgr p)"
proof -
  have n': "plugin_id p \<notin> set (map plugin_id todo)" "plugin_id p \<notin> set (map plugin_id finished)"
    using n by auto
  note failed = booting_failed [OF b n' _ _ _]
  show ?thesis
  proof (cases "invalid (plugin_id p) \<or> \<not> list_all (dep_booted mgr) (deps_of p)")
    case True
    then have "boot_one invalid outcome mgr p = set_status (plugin_id p) BS_Skipped mgr"
      by (auto simp: boot_one_def Let_def)
    then show ?thesis by (intro failed [where s = BS_Skipped]) simp_all
  next
    case False
    then have o: "boot_one invalid outcome mgr p = start_plugin (outcome (plugin_id p)) (di_manifest p) mgr"
      by (simp add: boot_one_def Let_def)
    have ds: "set (deps_of p) \<subseteq> set (jm_keys (mg_registry mgr))"
    proof
      fix x assume x: "x \<in> set (deps_of p)"
      then have "jm_get (mg_status mgr) x = Some BS_Success \<or> jm_get (mg_status mgr) x = Some BS_Preloaded"
        using False by (simp add: list_all_iff dep_booted_def)
      then show "x \<in> set (jm_keys (mg_registry mgr))"
        using b d x unfolding booting_def by blast
    qed
    show ?thesis
    proof (cases "outcome (plugin_id p)")
      case Boots
      then show ?thesis using booting_started [OF b n' ds] o by simp
    next
      case Boot_fails
      then show ?thesis unfolding o
        by (intro failed [where s = BS_Failed]) (simp_all add: start_plugin_def plugin_id_def)
    qed
  qed
qed

lemma boot_all_booting:
  "booting finished todo mgr \<Longrightarrow> distinct (map plugin_id (finished @ todo)) \<Longrightarrow>
   (\<forall>xs p ys. todo = xs @ p # ys \<longrightarrow> set (deps_of p) \<inter> set (map plugin_id (p # ys)) = {}) \<Longrightarrow>
   booting (finished @ todo) [] (foldl (boot_one invalid outcome) mgr todo)"
proof (induction todo arbitrary: finished mgr)
  case Nil
  then show ?case by simp
next
  case (Cons p todo)
  have "set (deps_of p) \<inter> set (map plugin_id (p # todo)) = {}" using Cons.prems(3) by blast
  from boot_one_booting [OF Cons.prems(1,2) this]
  have b: "booting (finished @ [p]) todo (boot_one invalid outcome mgr p)" .
  have t: "\<forall>xs q ys. todo = xs @ q # ys \<longrightarrow> set (deps_of q) \<inter> set (map plugin_id (q # ys)) = {}"
    using Cons.prems(3) by (metis append_Cons)
  have "booting ((finished @ [p]) @ todo) [] (foldl (boot_one invalid outcome) (boot_one invalid outcome mgr p) todo)"
    by (rule Cons.IH [OF b _ t]) (use Cons.prems(2) in simp)
  then show ?case by simp
qed

text \<open>A manager that is ready to boot: preloaded plugins stand in an order that suits their dependencies.\<close>

definition in_order :: "discovered list \<Rightarrow> bool" where
  "in_order ps \<longleftrightarrow> distinct (map plugin_id ps) \<and>
     (\<forall>xs p ys. ps = xs @ p # ys \<longrightarrow> set (deps_of p) \<inter> set (map plugin_id (p # ys)) = {})"

definition boot_ready :: "plugin_mgr \<Rightarrow> bool" where
  "boot_ready mgr \<longleftrightarrow> mg_registry mgr = [] \<and> in_order (mg_preloaded mgr) \<and>
     (\<forall>k. jm_get (mg_status mgr) k = Some BS_Preloaded \<longleftrightarrow> k \<in> set (map plugin_id (mg_preloaded mgr))) \<and>
     (\<forall>k. jm_get (mg_status mgr) k \<noteq> Some BS_Success)"

lemma filter_eq_append:
  "filter P ps = xs @ p # ys \<Longrightarrow> \<exists>us vs. ps = us @ p # vs \<and> filter P us = xs \<and> filter P vs = ys"
proof (induction ps arbitrary: xs)
  case (Cons a ps)
  show ?case
  proof (cases "P a")
    case True
    show ?thesis
    proof (cases xs)
      case Nil
      then show ?thesis using Cons.prems True by (intro exI [of _ "[]"] exI [of _ ps]) auto
    next
      case (Cons b xs')
      then obtain us vs where "ps = us @ p # vs" "filter P us = xs'" "filter P vs = ys"
        using Cons.IH [of xs'] Cons.prems True by auto
      then show ?thesis using Cons Cons.prems True by (intro exI [of _ "a # us"] exI [of _ vs]) auto
    qed
  next
    case False
    then obtain us vs where "ps = us @ p # vs" "filter P us = xs" "filter P vs = ys"
      using Cons.IH [of xs] Cons.prems by auto
    then show ?thesis using False by (intro exI [of _ "a # us"] exI [of _ vs]) auto
  qed
qed simp

lemma in_order_filter: "in_order ps \<Longrightarrow> in_order (filter P ps)"
  unfolding in_order_def
proof (intro conjI allI impI)
  fix xs p ys
  assume o: "distinct (map plugin_id ps) \<and>
     (\<forall>xs p ys. ps = xs @ p # ys \<longrightarrow> set (deps_of p) \<inter> set (map plugin_id (p # ys)) = {})"
    and "filter P ps = xs @ p # ys"
  then obtain us vs where f: "ps = us @ p # vs" "filter P vs = ys"
    by (blast dest: filter_eq_append)
  then have "set (deps_of p) \<inter> set (map plugin_id (p # vs)) = {}" using o by blast
  then show "set (deps_of p) \<inter> set (map plugin_id (p # ys)) = {}" using f(2) by auto
qed (simp add: distinct_map_filter)

lemma sorted_in_order: "keyed plugins \<Longrightarrow> in_order (fst (sortDependencies plugins))"
  unfolding in_order_def
proof (intro conjI allI impI)
  assume k: "keyed plugins"
  show d: "distinct (map plugin_id (fst (sortDependencies plugins)))"
    using sort_exact [OF k] by blast
  fix xs p ys assume s: "fst (sortDependencies plugins) = xs @ p # ys"
  then have "set (deps_of p) \<subseteq> set (map plugin_id xs)" using sort_exact [OF k] by blast
  moreover have "set (map plugin_id xs) \<inter> set (map plugin_id (p # ys)) = {}"
    using d unfolding s by auto
  ultimately show "set (deps_of p) \<inter> set (map plugin_id (p # ys)) = {}" by blast
qed

lemma discover_entry_mgr:
  "mg_registry (snd (discover_entry env acc e)) = mg_registry (snd acc) \<and>
   mg_preloaded (snd (discover_entry env acc e)) = mg_preloaded (snd acc) \<and>
   (\<forall>k. jm_get (mg_status (snd (discover_entry env acc e))) k = jm_get (mg_status (snd acc)) k \<or>
      jm_get (mg_status (snd (discover_entry env acc e))) k = Some BS_Pending)"
  by (auto simp: discover_entry_def file_plugin_def Let_def split: option.split)

lemma discover_mgr:
  "mg_registry (snd (discoverPlugins env entries mgr)) = mg_registry mgr \<and>
   mg_preloaded (snd (discoverPlugins env entries mgr)) = mg_preloaded mgr \<and>
   (\<forall>k. jm_get (mg_status (snd (discoverPlugins env entries mgr))) k = jm_get (mg_status mgr) k \<or>
      jm_get (mg_status (snd (discoverPlugins env entries mgr))) k = Some BS_Pending)"
proof -
  have "mg_registry (snd (foldl (discover_entry env) acc es)) = mg_registry (snd acc) \<and>
   mg_preloaded (snd (foldl (discover_entry env) acc es)) = mg_preloaded (snd acc) \<and>
   (\<forall>k. jm_get (mg_status (snd (foldl (discover_entry env) acc es))) k = jm_get (mg_status (snd acc)) k \<or>
      jm_get (mg_status (snd (foldl (discover_entry env) acc es))) k = Some BS_Pending)" for acc es
  proof (induction es arbitrary: acc)
    case (Cons e es)
    show ?case
      using Cons.IH [of "discover_entry env acc e"] discover_entry_mgr [of env acc e]
      unfolding foldl.simps by metis
  qed simp
  from this [of "([], mgr)" entries] show ?thesis by (simp add: discoverPlugins_def)
qed

lemma preload_foldl:
  assumes "mg_registry mgr = []" "\<forall>k. jm_get (mg_status mgr) k \<noteq> Some BS_Success"
    "\<forall>k. jm_get (mg_status mgr) k = Some BS_Preloaded \<longleftrightarrow> k \<in> set (map plugin_id (mg_preloaded mgr))"
    "distinct (map plugin_id (mg_preloaded mgr @ ps))"
  shows "mg_registry (foldl (preload_one loads) mgr ps) = [] \<and>
    (\<forall>k. jm_get (mg_status (foldl (preload_one loads) mgr ps)) k \<noteq> Some BS_Success) \<and>
    (\<forall>k. jm_get (mg_status (foldl (preload_one loads) mgr ps)) k = Some BS_Preloaded \<longleftrightarrow>
       k \<in> set (map plugin_id (mg_preloaded (foldl (preload_one loads) mgr ps)))) \<and>
    mg_preloaded (foldl (preload_one loads) mgr ps) = mg_preloaded mgr @ filter (\<lambda>p. loads (plugin_id p)) ps"
  using assms
proof (induction ps arbitrary: mgr)
  case (Cons p ps)
  let ?m = "preload_one loads mgr p"
  have m: "mg_registry ?m = []"
    "mg_preloaded ?m = mg_preloaded mgr @ (if loads (plugin_id p) then [p] else [])"
    "jm_get (mg_status ?m) k = (if k = plugin_id p then Some (if loads (plugin_id p) then BS_Preloaded else BS_Failed)
       else jm_get (mg_status mgr) k)" for k
    using Cons.prems(1) by (auto simp: preload_one_def set_status_def)
  have n: "plugin_id p \<notin> set (map plugin_id (mg_preloaded mgr))" using Cons.prems(4) by auto
  have "mg_registry (foldl (preload_one loads) ?m ps) = [] \<and>
    (\<forall>k. jm_get (mg_status (foldl (preload_one loads) ?m ps)) k \<noteq> Some BS_Success) \<and>
    (\<forall>k. jm_get (mg_status (foldl (preload_one loads) ?m ps)) k = Some BS_Preloaded \<longleftrightarrow>
       k \<in> set (map plugin_id (mg_preloaded (foldl (preload_one loads) ?m ps)))) \<and>
    mg_preloaded (foldl (preload_one loads) ?m ps) = mg_preloaded ?m @ filter (\<lambda>p. loads (plugin_id p)) ps"
  proof (rule Cons.IH)
    show "\<forall>k. jm_get (mg_status ?m) k = Some BS_Preloaded \<longleftrightarrow> k \<in> set (map plugin_id (mg_preloaded ?m))"
      using Cons.prems(3) n unfolding m by auto
    show "distinct (map plugin_id (mg_preloaded ?m @ ps))" using Cons.prems(4) unfolding m by auto
  qed (use Cons.prems(2) m in auto)
  then show ?case using m(2) by auto
qed simp

lemma preloadAll_ready: "boot_ready (preloadAll env entries loads fresh_mgr)"
proof -
  obtain found mgr where d: "discoverPlugins env entries fresh_mgr = (found, mgr)" by (metis prod.collapse)
  have m: "mg_registry mgr = []" "mg_preloaded mgr = []"
    "\<forall>k. jm_get (mg_status mgr) k = None \<or> jm_get (mg_status mgr) k = Some BS_Pending"
    using discover_mgr [of env entries fresh_mgr] unfolding d snd_conv by (simp_all add: fresh_mgr_def)
  have s: "jm_get (mg_status mgr) k \<noteq> Some BS_Success" "jm_get (mg_status mgr) k \<noteq> Some BS_Preloaded" for k
    using m(3) [rule_format, of k] by auto
  have k: "keyed found" using discovered_keyed [of env entries fresh_mgr] by (simp add: d)
  show ?thesis
  proof (cases "found = []")
    case True
    then show ?thesis using m s by (simp add: preloadAll_def d boot_ready_def in_order_def)
  next
    case False
    have o: "in_order (fst (sortDependencies found))" by (rule sorted_in_order [OF k])
    have r: "mg_registry (preloadAll env entries loads fresh_mgr) = [] \<and>
      (\<forall>k. jm_get (mg_status (preloadAll env entries loads fresh_mgr)) k \<noteq> Some BS_Success) \<and>
      (\<forall>k. jm_get (mg_status (preloadAll env entries loads fresh_mgr)) k = Some BS_Preloaded \<longleftrightarrow>
         k \<in> set (map plugin_id (mg_preloaded (preloadAll env entries loads fresh_mgr)))) \<and>
      mg_preloaded (preloadAll env entries loads fresh_mgr)
        = mg_preloaded mgr @ filter (\<lambda>p. loads (plugin_id p)) (fst (sortDependencies found))"
      unfolding preloadAll_def d prod.case if_not_P [OF False]
      by (rule preload_foldl) (use m s o in \<open>auto simp: in_order_def\<close>)
    then have "in_order (mg_preloaded (preloadAll env entries loads fresh_mgr))"
      using in_order_filter [OF o] m(2) by simp
    then show ?thesis unfolding boot_ready_def using r by blast
  qed
qed

lemma exclude_ready: "boot_ready mgr \<Longrightarrow> boot_ready (excludePreloadedPlugin pid mgr)"
  using in_order_filter [of "mg_preloaded mgr" "\<lambda>p. plugin_id p \<noteq> pid"]
  by (auto simp: boot_ready_def excludePreloadedPlugin_def set_status_def)

lemma boot_ready_booting: "boot_ready mgr \<Longrightarrow> booting [] (mg_preloaded mgr) mgr"
  by (auto simp: boot_ready_def booting_def)

text \<open>A start-up: preload, take out the plugins whose migrations failed, boot.\<close>

definition startup ::
    "discovery_env \<Rightarrow> dir_entry list \<Rightarrow> (string \<Rightarrow> bool) \<Rightarrow> string list \<Rightarrow> (string \<Rightarrow> bool) \<Rightarrow>
     (string \<Rightarrow> boot_outcome) \<Rightarrow> plugin_mgr" where
  "startup env entries loads failedMigrations invalid outcome =
    bootAll invalid outcome (foldl (\<lambda>mgr pid. excludePreloadedPlugin pid mgr)
      (preloadAll env entries loads fresh_mgr) failedMigrations)"

lemma startup_booting:
  "\<exists>finished. distinct (map plugin_id finished) \<and> booting finished [] (startup env entries loads ex invalid outcome)"
proof -
  let ?m = "foldl (\<lambda>mgr pid. excludePreloadedPlugin pid mgr) (preloadAll env entries loads fresh_mgr) ex"
  have "boot_ready m \<Longrightarrow> boot_ready (foldl (\<lambda>mgr pid. excludePreloadedPlugin pid mgr) m ex)" for m
    by (induction ex arbitrary: m) (simp_all add: exclude_ready)
  then have r: "boot_ready ?m" using preloadAll_ready by blast
  then have d: "distinct (map plugin_id (mg_preloaded ?m))" by (simp add: boot_ready_def in_order_def)
  have "booting ([] @ mg_preloaded ?m) [] (foldl (boot_one invalid outcome) ?m (mg_preloaded ?m))"
    by (rule boot_all_booting [OF boot_ready_booting [OF r]])
       (use d r in \<open>auto simp: boot_ready_def in_order_def\<close>)
  then show ?thesis using d by (auto simp: startup_def bootAll_def)
qed

text \<open>
  C26. After a start-up every enabled plugin has all its dependencies enabled, and enabled before it: it
  stands behind them in the registry, whatever failed to load, validate, migrate or boot.
\<close>

theorem startup_respects_dependencies:
  assumes "mg_registry (startup env entries loads ex invalid outcome) = xs @ (k, pl) # ys"
  shows "pl_state pl = PS_Enabled \<and> pm_id (pl_manifest pl) = k \<and>
    set (case pm_dependencies (pl_manifest pl) of None \<Rightarrow> [] | Some ds \<Rightarrow> ds) \<subseteq> set (jm_keys xs)"
proof -
  obtain finished where "booting finished [] (startup env entries loads ex invalid outcome)"
    using startup_booting by blast
  then obtain p where "plugin_id p = k" "pl_manifest pl = di_manifest p" "pl_state pl = PS_Enabled"
    "set (deps_of p) \<subseteq> set (jm_keys xs)"
    using assms unfolding booting_def by blast
  then show ?thesis by (simp add: plugin_id_def deps_of_def)
qed

definition demo_startup :: plugin_mgr where
  "demo_startup = startup demo_discovery demo_entries (\<lambda>i. True) [] (\<lambda>i. False) (\<lambda>i. Boots)"

lemma demo_startup_registry: "jm_keys (mg_registry demo_startup) = [''core'', ''mine'']"
  by code_simp

lemma startup_respects_dependencies_witness:
  "\<exists>pl. mg_registry demo_startup = [(''core'', \<lparr>pl_manifest = demo_core, pl_state = PS_Enabled\<rparr>), (''mine'', pl)] \<and>
     pm_dependencies (pl_manifest pl) = Some [''core''] \<and> pl_state pl = PS_Enabled"
proof -
  have r: "mg_registry demo_startup = [(''core'', \<lparr>pl_manifest = demo_core, pl_state = PS_Enabled\<rparr>),
      (''mine'', \<lparr>pl_manifest = manifest_of_json demo_json, pl_state = PS_Enabled\<rparr>)]"
    by code_simp
  then have "mg_registry demo_startup = [(''core'', \<lparr>pl_manifest = demo_core, pl_state = PS_Enabled\<rparr>)] @
      (''mine'', \<lparr>pl_manifest = manifest_of_json demo_json, pl_state = PS_Enabled\<rparr>) # []"
    by simp
  from startup_respects_dependencies [OF this [unfolded demo_startup_def]]
  have "pl_state \<lparr>pl_manifest = manifest_of_json demo_json, pl_state = PS_Enabled\<rparr> = PS_Enabled" by blast
  moreover have "pm_dependencies (manifest_of_json demo_json) = Some [''core'']" by code_simp
  ultimately show ?thesis using r by auto
qed

lemma jm_get_split: "jm_get m k = Some v \<Longrightarrow> \<exists>us vs. m = us @ (k, v) # vs \<and> k \<notin> set (jm_keys us)"
proof (induction m)
  case (Cons e m)
  show ?case
  proof (cases "fst e = k")
    case True
    then show ?thesis using Cons.prems
      by (intro exI [of _ "[]"] exI [of _ m]) (auto simp: jm_get_Cons prod_eq_iff)
  next
    case False
    then obtain us vs where "m = us @ (k, v) # vs" "k \<notin> set (jm_keys us)"
      using Cons by (auto simp: jm_get_Cons)
    then show ?thesis using False by (intro exI [of _ "e # us"] exI [of _ vs]) auto
  qed
qed simp

lemma takeWhile_first: "k \<notin> set xs \<Longrightarrow> takeWhile (\<lambda>x. x \<noteq> k) (xs @ k # ys) = xs"
  by (induction xs) auto

lemma takeWhile_until: "set (takeWhile (\<lambda>x. x \<noteq> k) (xs @ k # ys)) \<subseteq> set xs"
  by (induction xs) auto

lemma boot_one_wf: "jm_wf (mg_registry mgr) \<Longrightarrow> jm_wf (mg_registry (boot_one invalid outcome mgr p))"
  by (auto simp: boot_one_def start_plugin_def Let_def split: boot_outcome.split)

lemma startup_keys_distinct:
  "distinct (jm_keys (mg_registry (startup env entries loads ex invalid outcome)))"
proof -
  have e: "mg_registry (foldl (\<lambda>mgr pid. excludePreloadedPlugin pid mgr) m ids) = mg_registry m" for m ids
    by (induction ids arbitrary: m) (simp_all add: excludePreloadedPlugin_def)
  have f: "jm_wf (mg_registry (foldl (boot_one invalid outcome) m ps))" if "jm_wf (mg_registry m)" for m ps
    using that by (induction ps arbitrary: m) (simp_all add: boot_one_wf)
  have "mg_registry (preloadAll env entries loads fresh_mgr) = []"
    using preloadAll_ready by (simp add: boot_ready_def)
  then show ?thesis
    using f unfolding startup_def bootAll_def jm_wf_def [symmetric] by (simp add: e)
qed

lemma startup_enabled:
  assumes "(i, q) \<in> set (mg_registry (startup env entries loads ex invalid outcome))"
  shows "pl_state q = PS_Enabled"
proof -
  obtain finished where b: "booting finished [] (startup env entries loads ex invalid outcome)"
    using startup_booting by blast
  obtain us vs where "mg_registry (startup env entries loads ex invalid outcome) = us @ (i, q) # vs"
    using assms by (meson split_list)
  then show ?thesis using b unfolding booting_def by blast
qed

lemma shutdown_order_startup:
  "shutdown_order (startup env entries loads ex invalid outcome)
    = rev (jm_keys (mg_registry (startup env entries loads ex invalid outcome)))"
proof -
  let ?r = "mg_registry (startup env entries loads ex invalid outcome)"
  have "filter (\<lambda>e. pl_state (snd e) = PS_Enabled) (rev ?r) = rev ?r"
    using startup_enabled by (auto simp: filter_id_conv)
  then show ?thesis by (simp add: shutdown_order_def rev_map)
qed

lemma shutdown_dependents_first:
  assumes "shutdown_order (startup env entries loads ex invalid outcome) = as @ k # bs"
    and "jm_get (mg_registry (startup env entries loads ex invalid outcome)) k = Some pl"
    and "d \<in> set (case pm_dependencies (pl_manifest pl) of None \<Rightarrow> [] | Some ds \<Rightarrow> ds)"
  shows "d \<in> set bs"
proof -
  let ?r = "mg_registry (startup env entries loads ex invalid outcome)"
  obtain finished where b: "booting finished [] (startup env entries loads ex invalid outcome)"
    using startup_booting by blast
  have "rev (rev (jm_keys ?r)) = rev (as @ k # bs)"
    using assms(1) by (simp only: shutdown_order_startup)
  then have ks: "jm_keys ?r = rev bs @ k # rev as" by simp
  obtain us vs where u: "?r = us @ (k, pl) # vs" "k \<notin> set (jm_keys us)"
    using jm_get_split [OF assms(2)] by blast
  then have "takeWhile (\<lambda>x. x \<noteq> k) (jm_keys ?r) = jm_keys us"
    using takeWhile_first [OF u(2), of "jm_keys vs"] by simp
  then have "set (jm_keys us) \<subseteq> set bs"
    using takeWhile_until [of k "rev bs" "rev as"] by (simp only: ks set_rev)
  moreover obtain p where "pl_manifest pl = di_manifest p" "set (deps_of p) \<subseteq> set (jm_keys us)"
    using b u(1) unfolding booting_def by blast
  moreover have "d \<in> set (deps_of p)"
    using assms(3) \<open>pl_manifest pl = di_manifest p\<close> by (simp only: deps_of_def)
  ultimately show ?thesis by blast
qed

text \<open>
  C28. A shutdown after a start-up calls \<open>onDisable\<close> of every plugin that is enabled, once, and of a
  plugin before the plugins it depends on; then no plugin is registered, and no boot status, integrity status
  or directory is left.
\<close>

theorem shutdown_after_startup:
  assumes "shutdownAll (startup env entries loads ex invalid outcome) = (order, mgr')"
  shows "distinct order \<and> set order = set (jm_keys (mg_registry (startup env entries loads ex invalid outcome))) \<and>
    (\<forall>as k bs pl d. order = as @ k # bs \<longrightarrow>
       jm_get (mg_registry (startup env entries loads ex invalid outcome)) k = Some pl \<longrightarrow>
       d \<in> set (case pm_dependencies (pl_manifest pl) of None \<Rightarrow> [] | Some ds \<Rightarrow> ds) \<longrightarrow> d \<in> set bs) \<and>
    listLoadedPlugins mgr' = [] \<and>
    (\<forall>x. getIntegrityStatus mgr' x = None \<and> getPluginDir mgr' x = None \<and> jm_get (mg_status mgr') x = None)"
proof -
  have o: "order = shutdown_order (startup env entries loads ex invalid outcome)"
    and m: "mgr' = (startup env entries loads ex invalid outcome)
      \<lparr>mg_registry := [], mg_status := [], mg_integrity := [], mg_dirs := []\<rparr>"
    using assms by (simp_all add: shutdownAll_def)
  have k: "rev (jm_keys (mg_registry (startup env entries loads ex invalid outcome))) = order"
    unfolding o by (rule shutdown_order_startup [symmetric])
  have "distinct order" using startup_keys_distinct k by (metis distinct_rev)
  moreover have "set order = set (jm_keys (mg_registry (startup env entries loads ex invalid outcome)))"
    using k by (metis set_rev)
  moreover have "d \<in> set bs" if "order = as @ k # bs"
      "jm_get (mg_registry (startup env entries loads ex invalid outcome)) k = Some pl"
      "d \<in> set (case pm_dependencies (pl_manifest pl) of None \<Rightarrow> [] | Some ds \<Rightarrow> ds)" for as k bs pl d
    using shutdown_dependents_first that unfolding o by blast
  ultimately show ?thesis
    by (simp add: m listLoadedPlugins_def getIntegrityStatus_def getPluginDir_def)
qed

lemma shutdown_after_startup_witness:
  "\<exists>mgr. shutdownAll demo_startup = ([''mine'', ''core''], mgr) \<and> listLoadedPlugins mgr = [] \<and>
     getIntegrityStatus mgr ''core'' = None \<and> ''core'' \<in> set [''core'']"
proof -
  have o: "fst (shutdownAll demo_startup) = [''mine'', ''core'']" by code_simp
  obtain mgr where m: "shutdownAll demo_startup = ([''mine'', ''core''], mgr)"
    using o by (metis prod.collapse)
  from shutdown_after_startup [OF m [unfolded demo_startup_def]] m show ?thesis by auto
qed

text \<open>
  C29. A reload puts the plugin at the end of the registry, so the next shutdown takes it down first,
  before the plugins that depend on it.
\<close>

theorem reloaded_goes_first:
  assumes "reload_one env invalid entries ends loads outcome pid mgr = (mgr', True)"
  shows "\<exists>rest. shutdown_order mgr' = pid # rest"
proof -
  obtain mgr1 gone where g: "(if jm_has (mg_registry mgr) pid then disable ends pid mgr else (mgr, True)) = (mgr1, gone)"
    by (metis prod.collapse)
  obtain found mgr2 where d: "discoverPlugins env entries mgr1 = (found, mgr2)" by (metis prod.collapse)
  have t: gone using assms by (auto simp: reload_one_def g Let_def split: if_splits)
  from assms t obtain p where p: "jm_get found pid = Some p" and m: "mgr' = start_plugin outcome (di_manifest p) mgr2"
    and o: "outcome = Boots"
    by (auto simp: reload_one_def g d Let_def split: if_splits option.splits)
  have i: "pm_id (di_manifest p) = pid"
    using discovered_ok [of env entries mgr1 pid p] d p by (simp add: plugin_id_def)
  have "jm_get (mg_registry mgr1) pid = None"
    using g t by (auto simp: disable_def jm_has_iff set_status_def split: if_splits option.splits)
  then have "jm_get (mg_registry mgr2) pid = None"
    using discover_mgr [of env entries mgr1] d by simp
  then show ?thesis
    by (simp add: m o start_plugin_def Let_def i jm_set_new shutdown_order_def)
qed

lemma reloaded_goes_first_witness:
  "\<exists>mgr. reload_one demo_discovery (\<lambda>i. False) demo_entries True True Boots ''core'' demo_startup = (mgr, True) \<and>
     shutdown_order mgr = [''core'', ''mine'']"
proof -
  have r: "snd (reload_one demo_discovery (\<lambda>i. False) demo_entries True True Boots ''core'' demo_startup)"
    "shutdown_order (fst (reload_one demo_discovery (\<lambda>i. False) demo_entries True True Boots ''core'' demo_startup))
       = [''core'', ''mine'']"
    by code_simp+
  obtain mgr where m: "reload_one demo_discovery (\<lambda>i. False) demo_entries True True Boots ''core'' demo_startup = (mgr, True)"
    using r(1) by (metis (full_types) prod.collapse)
  from reloaded_goes_first [OF m] m r(2) show ?thesis by auto
qed

end
