(* ===== verification/NovaCodec.thy ===== *)
theory NovaCodec
  imports JsJson "HOL-Library.Word"
begin

text \<open>
  The byte formats of NovaDB, \<open>src/database/index.ts\<close>: big-endian numbers (\<open>writeUIntXXBE\<close> throws a
  RangeError on a number that does not fit), CRC-32C, the records of the write-ahead log with the loop
  that reads them back, and the frames that ship records to a replica.  A buffer is a list of bytes and a
  read position is the rest of the buffer.  LSNs and transaction numbers are \<open>bigint\<close>, natural numbers here.
\<close>

unbundle bit_operations_syntax

type_synonym byte = "8 word"
type_synonym buffer = "byte list"

datatype nova_error = OutOfRange | ReadOnlyReplica | AlreadyCommitted | NoIndex string
  | ChecksumMismatch string | BadTable

subsection \<open>Big-endian numbers\<close>

fun be :: "nat \<Rightarrow> nat \<Rightarrow> buffer" where
  "be 0 n = []"
| "be (Suc k) n = be k (n div 256) @ [word_of_nat (n mod 256)]"

definition un_be :: "buffer \<Rightarrow> nat" where
  "un_be bs = foldl (\<lambda>n b. 256 * n + unat b) 0 bs"

lemma length_be [simp]: "length (be k n) = k"
  by (induction k arbitrary: n) simp_all

lemma un_be_snoc: "un_be (bs @ [b]) = 256 * un_be bs + unat b"
  by (simp add: un_be_def)

lemma un_be_be [simp]: "n < 256 ^ k \<Longrightarrow> un_be (be k n) = n"
proof (induction k arbitrary: n)
  case 0
  then show ?case by (simp add: un_be_def)
next
  case (Suc k)
  then have "n div 256 < 256 ^ k" by (simp add: less_mult_imp_div_less mult.commute)
  moreover have "unat (word_of_nat (n mod 256) :: byte) = n mod 256"
    by (simp add: unat_of_nat)
  ultimately show ?case by (simp add: un_be_snoc Suc.IH)
qed

subsection \<open>CRC-32C\<close>

fun crc_shift :: "nat \<Rightarrow> 32 word \<Rightarrow> 32 word" where
  "crc_shift 0 c = c"
| "crc_shift (Suc j) c =
     crc_shift j (if c AND 1 \<noteq> 0 then 0x82F63B78 XOR drop_bit 1 c else drop_bit 1 c)"

definition CRC32C_TABLE :: "32 word \<Rightarrow> 32 word" where
  "CRC32C_TABLE i = crc_shift 8 i"

definition crc_byte :: "32 word \<Rightarrow> byte \<Rightarrow> 32 word" where
  "crc_byte c b = CRC32C_TABLE ((c XOR ucast b) AND 0xFF) XOR drop_bit 8 c"

definition crc32c :: "buffer \<Rightarrow> nat" where
  "crc32c buf = unat (foldl crc_byte 0xFFFFFFFF buf XOR 0xFFFFFFFF)"

lemma crc32c_range [simp]: "crc32c buf < 256 ^ 4"
  using unsigned_less [of "foldl crc_byte 0xFFFFFFFF buf XOR 0xFFFFFFFF"] by (simp add: crc32c_def)

subsection \<open>The write-ahead log\<close>

definition WAL_HEADER_SIZE :: nat where
  "WAL_HEADER_SIZE = 18"

record wal_entry =
  we_lsn :: nat
  we_key :: buffer
  we_doc :: buffer

definition wal_fits :: "wal_entry \<Rightarrow> bool" where
  "wal_fits e \<longleftrightarrow> we_lsn e < 256 ^ 8 \<and> length (we_key e) < 256 ^ 2 \<and> length (we_doc e) < 256 ^ 4"

definition wal_bytes :: "wal_entry \<Rightarrow> buffer" where
  "wal_bytes e = be 8 (we_lsn e) @ be 2 (length (we_key e)) @ be 4 (length (we_doc e)) @
     be 4 (crc32c (we_key e @ we_doc e)) @ we_key e @ we_doc e"

definition wal_encode :: "wal_entry \<Rightarrow> nova_error + buffer" where
  "wal_encode e = (if wal_fits e then Inr (wal_bytes e) else Inl OutOfRange)"

text \<open>The records a recovery reads: it stops at the first one that is cut short or fails its checksum.\<close>

function wal_scan :: "buffer \<Rightarrow> wal_entry list" where
  "wal_scan b =
    (if length b < WAL_HEADER_SIZE then []
     else let lsn = un_be (take 8 b);
              keyLen = un_be (take 2 (drop 8 b));
              docLen = un_be (take 4 (drop 10 b));
              storedCrc = un_be (take 4 (drop 14 b));
              body = drop WAL_HEADER_SIZE b
          in if length body < keyLen + docLen then []
             else let key = take keyLen body; doc = take docLen (drop keyLen body)
                  in if crc32c (key @ doc) \<noteq> storedCrc then []
                     else \<lparr>we_lsn = lsn, we_key = key, we_doc = doc\<rparr> # wal_scan (drop (keyLen + docLen) body))"
  by pat_completeness auto
termination wal_scan
  by (relation "measure length") (auto simp: WAL_HEADER_SIZE_def)

declare wal_scan.simps [simp del]

lemma wal_scan_short: "length b < WAL_HEADER_SIZE \<Longrightarrow> wal_scan b = []"
  by (subst wal_scan.simps) simp

lemma wal_scan_step:
  assumes "WAL_HEADER_SIZE \<le> length b"
    and "un_be (take 8 b) = lsn" and "un_be (take 2 (drop 8 b)) = k" and "un_be (take 4 (drop 10 b)) = d"
    and "un_be (take 4 (drop 14 b)) = c" and "drop WAL_HEADER_SIZE b = body"
  shows "wal_scan b = (if length body < k + d \<or> crc32c (take k body @ take d (drop k body)) \<noteq> c then []
    else \<lparr>we_lsn = lsn, we_key = take k body, we_doc = take d (drop k body)\<rparr> # wal_scan (drop (k + d) body))"
  using assms by (subst wal_scan.simps) (simp add: Let_def)

lemma length_wal_bytes: "length (wal_bytes e) = WAL_HEADER_SIZE + length (we_key e) + length (we_doc e)"
  by (simp add: wal_bytes_def WAL_HEADER_SIZE_def)

lemma wal_fields:
  assumes "wal_fits e"
  shows "un_be (take 8 (wal_bytes e @ r)) = we_lsn e"
    "un_be (take 2 (drop 8 (wal_bytes e @ r))) = length (we_key e)"
    "un_be (take 4 (drop 10 (wal_bytes e @ r))) = length (we_doc e)"
    "un_be (take 4 (drop 14 (wal_bytes e @ r))) = crc32c (we_key e @ we_doc e)"
    "drop WAL_HEADER_SIZE (wal_bytes e @ r) = we_key e @ we_doc e @ r"
proof -
  have "take 8 (wal_bytes e @ r) = be 8 (we_lsn e)" "take 2 (drop 8 (wal_bytes e @ r)) = be 2 (length (we_key e))"
    "take 4 (drop 10 (wal_bytes e @ r)) = be 4 (length (we_doc e))"
    "take 4 (drop 14 (wal_bytes e @ r)) = be 4 (crc32c (we_key e @ we_doc e))"
    by (simp_all add: wal_bytes_def del: be.simps)
  then show "un_be (take 8 (wal_bytes e @ r)) = we_lsn e"
    "un_be (take 2 (drop 8 (wal_bytes e @ r))) = length (we_key e)"
    "un_be (take 4 (drop 10 (wal_bytes e @ r))) = length (we_doc e)"
    "un_be (take 4 (drop 14 (wal_bytes e @ r))) = crc32c (we_key e @ we_doc e)"
    using assms crc32c_range [of "we_key e @ we_doc e"] unfolding wal_fits_def by (metis un_be_be)+
  show "drop WAL_HEADER_SIZE (wal_bytes e @ r) = we_key e @ we_doc e @ r"
    by (simp add: wal_bytes_def WAL_HEADER_SIZE_def)
qed

lemma wal_scan_append:
  assumes "wal_fits e"
  shows "wal_scan (wal_bytes e @ r) = e # wal_scan r"
proof -
  have "WAL_HEADER_SIZE \<le> length (wal_bytes e @ r)" by (simp add: length_wal_bytes)
  from wal_scan_step [OF this wal_fields [OF assms]] show ?thesis by simp
qed

text \<open>A record that is cut short ends the scan.\<close>

lemma wal_scan_torn:
  assumes "wal_fits e" and "n < length (wal_bytes e)"
  shows "wal_scan (take n (wal_bytes e)) = []"
proof (cases "n < WAL_HEADER_SIZE")
  case True
  then show ?thesis by (simp add: wal_scan_short)
next
  case False
  let ?t = "take n (wal_bytes e)"
  have h: "WAL_HEADER_SIZE \<le> length ?t" using assms(2) False by simp
  have "take 2 (drop 8 ?t) = take 2 (drop 8 (wal_bytes e))" "take 4 (drop 10 ?t) = take 4 (drop 10 (wal_bytes e))"
    using False by (simp_all add: drop_take WAL_HEADER_SIZE_def min_def)
  then have "un_be (take 2 (drop 8 ?t)) = length (we_key e)" "un_be (take 4 (drop 10 ?t)) = length (we_doc e)"
    using wal_fields(2,3) [OF assms(1), of "[]"] by simp_all
  moreover have "length (drop WAL_HEADER_SIZE ?t) < length (we_key e) + length (we_doc e)"
    using assms(2) False by (simp add: length_wal_bytes)
  ultimately show ?thesis using wal_scan_step [OF h refl _ _ refl refl] by simp
qed

lemma wal_scan_all: "list_all wal_fits es \<Longrightarrow> wal_scan (concat (map wal_bytes es) @ r) = es @ wal_scan r"
  by (induction es) (simp_all add: wal_scan_append)

lemma wal_scan_Nil [simp]: "wal_scan [] = []"
  by (simp add: wal_scan_short WAL_HEADER_SIZE_def)

subsection \<open>Checksums\<close>

lemma crc_low_bit: "(c :: 32 word) AND 1 \<noteq> 0 \<longleftrightarrow> bit c 0"
  by (simp add: and_one_eq bit_0 mod_2_eq_odd)

definition crc_bit :: "32 word \<Rightarrow> 32 word" where
  "crc_bit c = (if bit c 0 then 0x82F63B78 XOR drop_bit 1 c else drop_bit 1 c)"

lemma crc_shift_Suc: "crc_shift (Suc j) c = crc_shift j (crc_bit c)"
  by (simp add: crc_bit_def crc_low_bit)

lemma crc_bit_linear: "crc_bit (x XOR y) = crc_bit x XOR crc_bit y"
  by (rule bit_word_eqI) (auto simp: crc_bit_def bit_simps)

lemma crc_shift_linear: "crc_shift j (x XOR y) = crc_shift j x XOR crc_shift j y"
  by (induction j arbitrary: x y) (simp_all add: crc_shift_Suc crc_bit_linear del: crc_shift.simps(2))

lemma crc_shift_even: "\<forall>i < j. \<not> bit c i \<Longrightarrow> crc_shift j c = drop_bit j c"
proof (induction j arbitrary: c)
  case (Suc j)
  then have "crc_bit c = drop_bit 1 c" by (simp add: crc_bit_def)
  moreover have "\<forall>i < j. \<not> bit (drop_bit 1 c) i" using Suc.prems by (simp add: bit_drop_bit_eq)
  ultimately show ?case using Suc.IH [of "drop_bit 1 c"] by (simp add: crc_shift_Suc del: crc_shift.simps(2))
qed simp

lemma xor_cancel [simp]: "(a :: 'a::len word) XOR x = a XOR y \<longleftrightarrow> x = y" "x XOR a = y XOR a \<longleftrightarrow> x = y"
  by (metis xor.assoc xor_self_eq xor.left_neutral) (metis xor.assoc xor_self_eq xor.right_neutral)

lemma ucast_byte_inj: "(ucast (b :: byte) :: 32 word) = ucast b' \<longleftrightarrow> b = b'"
proof
  assume eq: "(ucast b :: 32 word) = ucast b'"
  show "b = b'"
  proof (rule bit_word_eqI)
    fix n assume "n < LENGTH(8)"
    then show "bit b n = bit b' n" using arg_cong [OF eq, of "\<lambda>w. bit w n"] by (simp add: bit_simps)
  qed
qed simp

lemma crc_bit_inj: "crc_bit x = crc_bit y \<Longrightarrow> x = y"
proof -
  assume eq: "crc_bit x = crc_bit y"
  have top: "bit (crc_bit z) 31 = bit z 0" for z
    using bit_imp_le_length [of z 32] by (auto simp: crc_bit_def bit_simps)
  then have b: "bit x 0 = bit y 0" using eq by metis
  then have "drop_bit 1 x = drop_bit 1 y" using eq by (auto simp: crc_bit_def split: if_splits)
  then have "bit x (Suc n) = bit y (Suc n)" for n
    by (metis bit_drop_bit_eq plus_1_eq_Suc comp_apply)
  with b show "x = y" by (intro bit_word_eqI) (metis not0_implies_Suc)
qed

lemma crc_shift_inj: "crc_shift j x = crc_shift j y \<Longrightarrow> x = y"
  by (induction j arbitrary: x y) (auto simp: crc_shift_Suc dest: crc_bit_inj simp del: crc_shift.simps(2))

text \<open>The table gives what eight steps of the bitwise definition give.\<close>

lemma crc_byte_bitwise: "crc_byte c b = crc_shift 8 (c XOR ucast b)"
proof -
  let ?x = "c XOR ucast b"
  have split: "?x = (?x AND 0xFF) XOR (?x AND NOT 0xFF)"
    by (rule bit_word_eqI) (auto simp: bit_simps)
  have m: "(0xFF :: 32 word) = mask 8" by (simp add: mask_eq_exp_minus_1)
  have "crc_shift 8 (?x AND NOT 0xFF) = drop_bit 8 (?x AND NOT 0xFF)"
    unfolding m by (intro crc_shift_even) (auto simp: bit_simps)
  also have "\<dots> = drop_bit 8 c"
    unfolding m by (rule bit_word_eqI) (auto simp: bit_simps dest: bit_imp_le_length)
  finally show ?thesis
    by (metis split crc_shift_linear crc_byte_def CRC32C_TABLE_def)
qed

lemma crc_byte_inj: "crc_byte c b = crc_byte c' b \<longleftrightarrow> c = c'"
  by (auto simp: crc_byte_bitwise dest!: crc_shift_inj)

lemma crc_byte_inj2: "crc_byte c b = crc_byte c b' \<longleftrightarrow> b = b'"
  by (auto simp: crc_byte_bitwise ucast_byte_inj dest!: crc_shift_inj)

lemma crc_fold_inj: "foldl crc_byte c bs = foldl crc_byte c' bs \<longleftrightarrow> c = c'"
  by (induction bs arbitrary: c c') (simp_all add: crc_byte_inj)

text \<open>A change of one byte is always seen.\<close>

lemma crc32c_one_byte: "crc32c (xs @ b # ys) = crc32c (xs @ b' # ys) \<longleftrightarrow> b = b'"
proof -
  have "crc32c (xs @ b # ys) = crc32c (xs @ b' # ys) \<longleftrightarrow>
      foldl crc_byte 0xFFFFFFFF (xs @ b # ys) = foldl crc_byte 0xFFFFFFFF (xs @ b' # ys)"
    unfolding crc32c_def by (simp add: word_eq_iff_unsigned [where ?'a = nat, symmetric])
  then show ?thesis by (simp add: crc_fold_inj crc_byte_inj2)
qed

text \<open>The records that lie in the first \<open>n\<close> bytes of a log.\<close>

fun whole_records :: "nat \<Rightarrow> wal_entry list \<Rightarrow> wal_entry list" where
  "whole_records n [] = []"
| "whole_records n (e # es) =
     (if length (wal_bytes e) \<le> n then e # whole_records (n - length (wal_bytes e)) es else [])"

lemma wal_scan_cut:
  "list_all wal_fits es \<Longrightarrow> wal_scan (take n (concat (map wal_bytes es))) = whole_records n es"
proof (induction es arbitrary: n)
  case (Cons e es)
  then show ?case
    by (cases "length (wal_bytes e) \<le> n") (simp_all add: wal_scan_append wal_scan_torn)
qed simp

subsection \<open>Frames for replicas\<close>

record wal_record =
  wr_lsn :: nat
  wr_key :: buffer
  wr_doc :: buffer
  wr_txnId :: "nat option"
  wr_batchSize :: "nat option"
  wr_batchIndex :: "nat option"

definition TCP_FRAME_FIXED :: nat where
  "TCP_FRAME_FIXED = 34"

definition or_default :: "nat \<Rightarrow> nat option \<Rightarrow> nat" where
  "or_default d v = (case v of None \<Rightarrow> d | Some n \<Rightarrow> n)"

definition frame_fits :: "wal_record \<Rightarrow> bool" where
  "frame_fits r \<longleftrightarrow> TCP_FRAME_FIXED + length (wr_key r) + length (wr_doc r) < 256 ^ 4 \<and> wr_lsn r < 256 ^ 8 \<and>
     or_default (wr_lsn r) (wr_txnId r) < 256 ^ 8 \<and> or_default 1 (wr_batchSize r) < 256 ^ 4 \<and>
     or_default 1 (wr_batchIndex r) < 256 ^ 4 \<and> length (wr_key r) < 256 ^ 2"

text \<open>The buffer is allocated for 34 fixed bytes of which 30 are written, so four zeros end a frame.\<close>

definition frame_body :: "wal_record \<Rightarrow> buffer" where
  "frame_body r = be 8 (wr_lsn r) @ be 8 (or_default (wr_lsn r) (wr_txnId r)) @ be 4 (or_default 1 (wr_batchSize r)) @
     be 4 (or_default 1 (wr_batchIndex r)) @ be 2 (length (wr_key r)) @ be 4 (length (wr_doc r)) @
     wr_key r @ wr_doc r @ replicate 4 0"

definition encodeFrame :: "wal_record \<Rightarrow> nova_error + buffer" where
  "encodeFrame r = (if frame_fits r
     then Inr (be 4 (TCP_FRAME_FIXED + (length (wr_key r) + length (wr_doc r))) @ frame_body r) else Inl OutOfRange)"

definition decodeFrame :: "buffer \<Rightarrow> wal_record" where
  "decodeFrame frame =
    (let keyLen = un_be (take 2 (drop 24 frame)); docLen = un_be (take 4 (drop 26 frame))
     in \<lparr>wr_lsn = un_be (take 8 frame), wr_key = take keyLen (drop 30 frame),
         wr_doc = take docLen (drop (30 + keyLen) frame),
         wr_txnId = Some (un_be (take 8 (drop 8 frame))),
         wr_batchSize = Some (un_be (take 4 (drop 16 frame))),
         wr_batchIndex = Some (un_be (take 4 (drop 20 frame)))\<rparr>)"

text \<open>\<open>drainFrames\<close>: the records handed to the replica and the bytes kept for the next chunk.\<close>

function drainFrames :: "buffer \<Rightarrow> wal_record list \<times> buffer" where
  "drainFrames b =
    (if length b < 4 then ([], b)
     else let frameLen = un_be (take 4 b)
          in if length b < 4 + frameLen then ([], b)
             else case drainFrames (drop (4 + frameLen) b) of (rs, rest) \<Rightarrow>
               (decodeFrame (take frameLen (drop 4 b)) # rs, rest))"
  by pat_completeness auto
termination drainFrames
  by (relation "measure length") auto

declare drainFrames.simps [simp del]

text \<open>The data events of the socket, one chunk each.\<close>

fun receive_chunks :: "buffer \<Rightarrow> buffer list \<Rightarrow> wal_record list \<times> buffer" where
  "receive_chunks b [] = ([], b)"
| "receive_chunks b (c # cs) =
     (case drainFrames (b @ c) of (rs, rest) \<Rightarrow>
        (case receive_chunks rest cs of (rs', rest') \<Rightarrow> (rs @ rs', rest')))"

text \<open>What the replica sees of a shipped record: the defaults are filled in.\<close>

definition shipped :: "wal_record \<Rightarrow> wal_record" where
  "shipped r = r\<lparr>wr_txnId := Some (or_default (wr_lsn r) (wr_txnId r)),
     wr_batchSize := Some (or_default 1 (wr_batchSize r)), wr_batchIndex := Some (or_default 1 (wr_batchIndex r))\<rparr>"

lemma decode_frame_body:
  assumes "frame_fits r"
  shows "decodeFrame (frame_body r) = shipped r"
proof -
  let ?f = "frame_body r"
  have cut: "take 8 ?f = be 8 (wr_lsn r)" "take 8 (drop 8 ?f) = be 8 (or_default (wr_lsn r) (wr_txnId r))"
    "take 4 (drop 16 ?f) = be 4 (or_default 1 (wr_batchSize r))"
    "take 4 (drop 20 ?f) = be 4 (or_default 1 (wr_batchIndex r))"
    "take 2 (drop 24 ?f) = be 2 (length (wr_key r))" "take 4 (drop 26 ?f) = be 4 (length (wr_doc r))"
    "drop 30 ?f = wr_key r @ wr_doc r @ replicate 4 0"
    "drop (30 + length (wr_key r)) ?f = wr_doc r @ replicate 4 0"
    by (simp_all add: frame_body_def del: be.simps replicate.simps)
  have doc: "length (wr_doc r) < 256 ^ 4" using assms by (simp add: frame_fits_def)
  have "un_be (take 8 ?f) = wr_lsn r" "un_be (take 8 (drop 8 ?f)) = or_default (wr_lsn r) (wr_txnId r)"
    "un_be (take 4 (drop 16 ?f)) = or_default 1 (wr_batchSize r)"
    "un_be (take 4 (drop 20 ?f)) = or_default 1 (wr_batchIndex r)"
    "un_be (take 2 (drop 24 ?f)) = length (wr_key r)" "un_be (take 4 (drop 26 ?f)) = length (wr_doc r)"
    using assms doc unfolding frame_fits_def by (metis cut un_be_be)+
  then show ?thesis by (simp add: decodeFrame_def Let_def shipped_def cut)
qed

lemma length_frame_body: "length (frame_body r) = TCP_FRAME_FIXED + (length (wr_key r) + length (wr_doc r))"
  by (simp add: frame_body_def TCP_FRAME_FIXED_def)

lemma drain_frame:
  assumes "encodeFrame r = Inr f"
  shows "drainFrames (f @ b) = (shipped r # fst (drainFrames b), snd (drainFrames b))"
proof -
  have fits: "frame_fits r" and f: "f = be 4 (length (frame_body r)) @ frame_body r"
    using assms by (auto simp: encodeFrame_def length_frame_body split: if_splits)
  have n: "un_be (be 4 (length (frame_body r))) = length (frame_body r)"
    using fits by (intro un_be_be) (simp add: frame_fits_def length_frame_body)
  have "take 4 (f @ b) = be 4 (length (frame_body r))" "drop 4 (f @ b) = frame_body r @ b"
    by (simp_all add: f del: be.simps)
  moreover have "drop (4 + length (frame_body r)) (f @ b) = b" by (simp add: f)
  moreover have "length (f @ b) = 4 + length (frame_body r) + length b" by (simp add: f)
  ultimately show ?thesis
    by (subst drainFrames.simps)
      (simp add: n Let_def decode_frame_body [OF fits] case_prod_unfold del: length_append)
qed

lemma drain_short: "length b < 4 \<or> length b < 4 + un_be (take 4 b) \<Longrightarrow> drainFrames b = ([], b)"
  by (subst drainFrames.simps) auto

text \<open>Draining in two chunks gives what draining them at once does.\<close>

lemma drain_append:
  "drainFrames (b @ c) = (fst (drainFrames b) @ fst (drainFrames (snd (drainFrames b) @ c)),
     snd (drainFrames (snd (drainFrames b) @ c)))"
proof (induction b rule: drainFrames.induct)
  case (1 b)
  show ?case
  proof (cases "length b < 4 \<or> length b < 4 + un_be (take 4 b)")
    case True
    then show ?thesis by (simp add: drain_short)
  next
    case False
    let ?n = "un_be (take 4 b)"
    have ih: "drainFrames (drop (4 + ?n) b @ c) =
        (fst (drainFrames (drop (4 + ?n) b)) @ fst (drainFrames (snd (drainFrames (drop (4 + ?n) b)) @ c)),
         snd (drainFrames (snd (drainFrames (drop (4 + ?n) b)) @ c)))"
      using False 1 by simp
    have l: "drainFrames b = (decodeFrame (take ?n (drop 4 b)) # fst (drainFrames (drop (4 + ?n) b)),
        snd (drainFrames (drop (4 + ?n) b)))"
      using False by (subst drainFrames.simps) (simp add: Let_def case_prod_unfold)
    have "drainFrames (b @ c) = (decodeFrame (take ?n (drop 4 b)) # fst (drainFrames (drop (4 + ?n) b @ c)),
        snd (drainFrames (drop (4 + ?n) b @ c)))"
      using False by (subst drainFrames.simps) (simp add: Let_def case_prod_unfold)
    then show ?thesis by (simp add: ih l)
  qed
qed

lemma receive_chunks_drain: "snd (drainFrames b) = b \<Longrightarrow> fst (drainFrames b) = [] \<Longrightarrow>
    receive_chunks b cs = drainFrames (b @ concat cs)"
proof (induction cs arbitrary: b)
  case (Cons c cs)
  have "drainFrames (snd (drainFrames x)) = ([], snd (drainFrames x))" for x
    using drain_append [of x "[]"] by (cases "drainFrames (snd (drainFrames x))") (auto simp: prod_eq_iff)
  then show ?case
    using Cons.IH [of "snd (drainFrames (b @ c))"] drain_append [of "b @ c" "concat cs"]
    by (simp add: case_prod_unfold)
qed (simp add: prod_eq_iff)

lemma drain_Nil [simp]: "drainFrames [] = ([], [])"
  by (simp add: drain_short)

lemma drain_all: "list_all2 (\<lambda>r f. encodeFrame r = Inr f) rs fs \<Longrightarrow> drainFrames (concat fs) = (map shipped rs, [])"
  by (induction rs fs rule: list_all2_induct) (simp_all add: drain_frame)

end
