(* ===== verification/NovaCache.thy ===== *)
theory NovaCache
  imports NovaCodec
begin

text \<open>
  The read structures of NovaDB, \<open>src/database/index.ts\<close>: the Bloom filter of a table file, the block cache
  (a doubly linked list threaded through a \<open>Map\<close>), the cache of open files and the search of a sparse
  index.  MurmurHash is a parameter of the filter; the size of a filter and its number of probes, computed
  with logarithms in the code, are given.  File handles are left out: a cached file is its path.
\<close>

subsection \<open>The Bloom filter\<close>

record bloom =
  bl_bitArray :: buffer
  bl_size :: nat
  bl_hashCount :: nat

definition new_bloom :: "nat \<Rightarrow> nat \<Rightarrow> bloom" where
  "new_bloom bits hashCount =
    \<lparr>bl_bitArray = replicate ((bits + 7) div 8) 0, bl_size = bits, bl_hashCount = hashCount\<rparr>"

definition probe :: "(string \<Rightarrow> 32 word \<Rightarrow> 32 word) \<Rightarrow> bloom \<Rightarrow> string \<Rightarrow> nat list" where
  "probe hash32 bl item =
    (let h1 = hash32 item 0; h2 = hash32 item 0xDEADBEEF
     in map (\<lambda>i. unat (h1 + word_of_nat i * h2) mod bl_size bl) [0..<bl_hashCount bl])"

definition set_probe :: "buffer \<Rightarrow> nat \<Rightarrow> buffer" where
  "set_probe bits b = bits[b div 8 := (bits ! (b div 8)) OR push_bit (b mod 8) 1]"

definition bloom_add :: "(string \<Rightarrow> 32 word \<Rightarrow> 32 word) \<Rightarrow> bloom \<Rightarrow> string \<Rightarrow> bloom" where
  "bloom_add hash32 bl item = bl\<lparr>bl_bitArray := foldl set_probe (bl_bitArray bl) (probe hash32 bl item)\<rparr>"

definition probe_set :: "buffer \<Rightarrow> nat \<Rightarrow> bool" where
  "probe_set bits b \<longleftrightarrow> (bits ! (b div 8)) AND push_bit (b mod 8) 1 \<noteq> 0"

definition bloom_check :: "(string \<Rightarrow> 32 word \<Rightarrow> 32 word) \<Rightarrow> bloom \<Rightarrow> string \<Rightarrow> bool" where
  "bloom_check hash32 bl item = list_all (probe_set (bl_bitArray bl)) (probe hash32 bl item)"

definition bloom_ok :: "bloom \<Rightarrow> bool" where
  "bloom_ok bl \<longleftrightarrow> 0 < bl_size bl \<and> bl_size bl \<le> 8 * length (bl_bitArray bl)"

lemma probe_set_bit: "probe_set bits b \<longleftrightarrow> bit (bits ! (b div 8)) (b mod 8)"
  by (simp add: probe_set_def bit_iff_and_push_bit_not_eq_0)

lemma length_set_probes [simp]: "length (foldl set_probe bits bs) = length bits"
  by (induction bs arbitrary: bits) (simp_all add: set_probe_def)

lemma probe_set_mono: "probe_set bits c \<Longrightarrow> probe_set (set_probe bits b) c"
  by (cases "b div 8 < length bits"; cases "b div 8 = c div 8")
    (auto simp: probe_set_bit set_probe_def bit_simps list_update_beyond nth_list_update)

lemma probes_set_mono: "probe_set bits c \<Longrightarrow> probe_set (foldl set_probe bits bs) c"
  by (induction bs arbitrary: bits) (simp_all add: probe_set_mono)

lemma probe_set_same: "b div 8 < length bits \<Longrightarrow> probe_set (set_probe bits b) b"
  by (simp add: probe_set_bit set_probe_def bit_simps)

lemma probes_set:
  "c \<in> set bs \<Longrightarrow> \<forall>b \<in> set bs. b div 8 < length bits \<Longrightarrow> probe_set (foldl set_probe bits bs) c"
proof (induction bs arbitrary: bits)
  case (Cons b bs)
  show ?case
  proof (cases "c = b")
    case True
    then show ?thesis using Cons.prems by (simp add: probes_set_mono probe_set_same)
  next
    case False
    then show ?thesis using Cons by (simp add: set_probe_def)
  qed
qed simp

lemma bloom_add_frame [simp]:
  "bl_size (bloom_add h bl x) = bl_size bl" "bl_hashCount (bloom_add h bl x) = bl_hashCount bl"
  "bloom_ok (bloom_add h bl x) = bloom_ok bl"
  by (simp_all add: bloom_add_def bloom_ok_def)

lemma probe_add [simp]: "probe h (bloom_add h' bl x) y = probe h bl y"
  by (simp add: probe_def)

lemma bloom_check_add: "bloom_ok bl \<Longrightarrow> bloom_check h (bloom_add h bl x) x"
proof -
  assume ok: "bloom_ok bl"
  have "b div 8 < length (bl_bitArray bl)" if "b \<in> set (probe h bl x)" for b
  proof -
    have "b < bl_size bl" using that ok by (auto simp: probe_def Let_def bloom_ok_def)
    then show ?thesis using ok unfolding bloom_ok_def by linarith
  qed
  then have "probe_set (foldl set_probe (bl_bitArray bl) (probe h bl x)) b" if "b \<in> set (probe h bl x)" for b
    using that by (intro probes_set) auto
  then show ?thesis by (simp add: bloom_check_def list_all_iff) (simp add: bloom_add_def)
qed

lemma bloom_check_mono: "bloom_check h bl y \<Longrightarrow> bloom_check h (bloom_add h bl x) y"
  unfolding bloom_check_def probe_add by (auto simp: list_all_iff bloom_add_def intro: probes_set_mono)

lemma new_bloom_ok: "0 < bits \<Longrightarrow> bloom_ok (new_bloom bits k)"
  by (simp add: bloom_ok_def new_bloom_def)

lemma bloom_added:
  "bloom_ok bl \<Longrightarrow> x \<in> set xs \<or> bloom_check h bl x \<Longrightarrow> bloom_check h (foldl (bloom_add h) bl xs) x"
  by (induction xs arbitrary: bl) (auto simp: bloom_check_add bloom_check_mono)

subsection \<open>The block cache\<close>

record lru_entry =
  le_data :: buffer
  le_prev :: "string option"
  le_next :: "string option"

record lru_cache =
  lc_cache :: "(string, lru_entry) jsmap"
  lc_head :: "string option"
  lc_tail :: "string option"
  lc_capacity :: nat

definition new_LRUBlockCache :: "nat \<Rightarrow> lru_cache" where
  "new_LRUBlockCache capacity = \<lparr>lc_cache = [], lc_head = None, lc_tail = None, lc_capacity = capacity\<rparr>"

text \<open>Assigning to a field of the entry of a key.\<close>

definition on_entry :: "string \<Rightarrow> (lru_entry \<Rightarrow> lru_entry) \<Rightarrow> lru_cache \<Rightarrow> lru_cache" where
  "on_entry k f c = (case jm_get (lc_cache c) k of None \<Rightarrow> c
     | Some e \<Rightarrow> c\<lparr>lc_cache := jm_set (lc_cache c) k (f e)\<rparr>)"

definition unlinkNode :: "string \<Rightarrow> lru_cache \<Rightarrow> lru_cache" where
  "unlinkNode k c = (case jm_get (lc_cache c) k of None \<Rightarrow> c
     | Some e \<Rightarrow>
         let c1 = (if truthy (le_prev e) then on_entry (the (le_prev e)) (\<lambda>p. p\<lparr>le_next := le_next e\<rparr>) c
                   else c\<lparr>lc_head := le_next e\<rparr>);
             c2 = (if truthy (le_next e) then on_entry (the (le_next e)) (\<lambda>n. n\<lparr>le_prev := le_prev e\<rparr>) c1
                   else c1\<lparr>lc_tail := le_prev e\<rparr>)
         in on_entry k (\<lambda>x. x\<lparr>le_prev := None, le_next := None\<rparr>) c2)"

definition drop_entry :: "string \<Rightarrow> lru_cache \<Rightarrow> lru_cache" where
  "drop_entry k c = (unlinkNode k c)\<lparr>lc_cache := jm_delete (lc_cache (unlinkNode k c)) k\<rparr>"

definition evictTail :: "lru_cache \<Rightarrow> lru_cache" where
  "evictTail c = (if truthy (lc_tail c) then drop_entry (the (lc_tail c)) c else c)"

definition moveToHead :: "string \<Rightarrow> lru_cache \<Rightarrow> lru_cache" where
  "moveToHead k c = (if lc_head c = Some k then c
     else let c1 = unlinkNode k c;
              c2 = on_entry k (\<lambda>e. e\<lparr>le_prev := None, le_next := lc_head c1\<rparr>) c1;
              c3 = (if truthy (lc_head c2) then on_entry (the (lc_head c2)) (\<lambda>h. h\<lparr>le_prev := Some k\<rparr>) c2 else c2);
              c4 = c3\<lparr>lc_head := Some k\<rparr>
          in if truthy (lc_tail c4) then c4 else c4\<lparr>lc_tail := Some k\<rparr>)"

definition lru_get :: "string \<Rightarrow> lru_cache \<Rightarrow> lru_cache \<times> buffer option" where
  "lru_get k c = (case jm_get (lc_cache c) k of None \<Rightarrow> (c, None)
     | Some e \<Rightarrow> (moveToHead k c, Some (le_data e)))"

definition lru_set :: "string \<Rightarrow> buffer \<Rightarrow> lru_cache \<Rightarrow> lru_cache" where
  "lru_set k d c =
    (if jm_has (lc_cache c) k then moveToHead k (on_entry k (\<lambda>e. e\<lparr>le_data := d\<rparr>) c)
     else let c1 = (if truthy (lc_head c) then on_entry (the (lc_head c)) (\<lambda>h. h\<lparr>le_prev := Some k\<rparr>) c else c);
              c2 = c1\<lparr>lc_head := Some k\<rparr>;
              c3 = (if truthy (lc_tail c2) then c2 else c2\<lparr>lc_tail := Some k\<rparr>);
              c4 = c3\<lparr>lc_cache := jm_set (lc_cache c3) k
                     \<lparr>le_data = d, le_prev = None, le_next = lc_head c\<rparr>\<rparr>
          in if length (lc_cache c4) > lc_capacity c4 then evictTail c4 else c4)"

definition lru_invalidate :: "string \<Rightarrow> lru_cache \<Rightarrow> lru_cache" where
  "lru_invalidate prefix c = foldl (\<lambda>c k. if js_starts_with k prefix then drop_entry k c else c) c (jm_keys (lc_cache c))"

text \<open>
  What it stands for: the list of its keys and blocks, the most recently used first.  \<open>chain m p ks n\<close> says
  that the entries of the keys \<open>ks\<close> are linked in this order, between \<open>p\<close> and \<open>n\<close>.
\<close>

definition first_key :: "string option \<Rightarrow> string list \<Rightarrow> string option" where
  "first_key n ks = (case ks of [] \<Rightarrow> n | k # _ \<Rightarrow> Some k)"

definition last_key :: "string option \<Rightarrow> string list \<Rightarrow> string option" where
  "last_key p ks = (if ks = [] then p else Some (last ks))"

fun chain :: "(string \<Rightarrow> lru_entry option) \<Rightarrow> string option \<Rightarrow> (string \<times> buffer) list \<Rightarrow> string option \<Rightarrow> bool" where
  "chain m p [] n = True"
| "chain m p (kd # l) n =
     (m (fst kd) = Some \<lparr>le_data = snd kd, le_prev = p, le_next = first_key n (map fst l)\<rparr> \<and>
      chain m (Some (fst kd)) l n)"

definition lru_links :: "lru_cache \<Rightarrow> (string \<times> buffer) list \<Rightarrow> bool" where
  "lru_links c l \<longleftrightarrow> jm_wf (lc_cache c) \<and> distinct (map fst l) \<and> [] \<notin> fst ` set l \<and>
     chain (jm_get (lc_cache c)) None l None \<and>
     lc_head c = first_key None (map fst l) \<and> lc_tail c = last_key None (map fst l)"

definition lru_repr :: "lru_cache \<Rightarrow> (string \<times> buffer) list \<Rightarrow> bool" where
  "lru_repr c l \<longleftrightarrow> lru_links c l \<and> set (jm_keys (lc_cache c)) = fst ` set l"

definition lru_touch :: "string \<Rightarrow> buffer \<Rightarrow> (string \<times> buffer) list \<Rightarrow> (string \<times> buffer) list" where
  "lru_touch k d l = (k, d) # filter (\<lambda>kd. fst kd \<noteq> k) l"

lemma first_key_simps [simp]: "first_key n [] = n" "first_key n (k # ks) = Some k"
  by (simp_all add: first_key_def)

lemma first_key_append: "first_key n (xs @ ys) = first_key (first_key n ys) xs"
  by (cases xs) simp_all

lemma last_key_simps [simp]: "last_key p [] = p" "last_key p (k # ks) = last_key (Some k) ks"
  by (simp_all add: last_key_def)

lemma last_key_append: "last_key p (xs @ ys) = last_key (last_key p xs) ys"
  by (simp add: last_key_def)

lemma chain_append: "chain m p (xs @ ys) n \<longleftrightarrow>
    chain m p xs (first_key n (map fst ys)) \<and> chain m (last_key p (map fst xs)) ys n"
  by (induction xs arbitrary: p) (simp_all add: first_key_append)

lemma chain_cong: "\<forall>k \<in> fst ` set l. m' k = m k \<Longrightarrow> chain m' p l n = chain m p l n"
  by (induction l arbitrary: p) simp_all

lemma chain_next:
  assumes "chain m p xs n" "xs \<noteq> []" "distinct (map fst xs)"
  shows "chain (m(fst (last xs) := map_option (\<lambda>e. e\<lparr>le_next := n'\<rparr>) (m (fst (last xs))))) p xs n'"
  using assms
proof (induction xs arbitrary: p)
  case (Cons kd xs)
  show ?case
  proof (cases xs)
    case Nil
    then show ?thesis using Cons.prems by simp
  next
    case (Cons kd' xs')
    then have "fst kd \<noteq> fst (last xs)" "first_key n' (map fst xs) = first_key n (map fst xs)"
      using \<open>distinct (map fst (kd # xs))\<close> by (auto simp: image_iff)
    then show ?thesis using Cons.IH [of "Some (fst kd)"] Cons.prems Cons by simp
  qed
qed simp

lemma chain_prev:
  assumes "chain m p (y # ys) n" "fst y \<notin> fst ` set ys"
  shows "chain (m(fst y := map_option (\<lambda>e. e\<lparr>le_prev := p'\<rparr>) (m (fst y)))) p' (y # ys) n"
proof -
  have "chain (m(fst y := e)) p'' ys n = chain m p'' ys n" for e p''
    using assms(2) by (intro chain_cong) (auto simp: image_iff)
  then show ?thesis using assms(1) by simp
qed

lemma get_on_entry:
  "jm_get (lc_cache (on_entry k f c)) = (jm_get (lc_cache c))(k := map_option f (jm_get (lc_cache c) k))"
  by (rule ext) (simp add: on_entry_def split: option.splits)

lemma jm_keys_overwrite: "jm_get m k = Some v \<Longrightarrow> jm_keys (jm_set m k v') = jm_keys m"
  unfolding jm_set_def update_keys using jm_get_key [of m k v] by simp

lemma on_entry_keys: "jm_keys (lc_cache (on_entry k f c)) = jm_keys (lc_cache c)"
  by (auto simp: on_entry_def jm_keys_overwrite split: option.splits)

lemma on_entry_frame [simp]:
  "lc_head (on_entry k f c) = lc_head c" "lc_tail (on_entry k f c) = lc_tail c"
  "lc_capacity (on_entry k f c) = lc_capacity c" "jm_wf (lc_cache (on_entry k f c)) = jm_wf (lc_cache c)"
  "fst ` set (lc_cache (on_entry k f c)) = fst ` set (lc_cache c)"
  "length (lc_cache (on_entry k f c)) = length (lc_cache c)"
  unfolding jm_wf_def on_entry_keys
proof -
  show "fst ` set (lc_cache (on_entry k f c)) = fst ` set (lc_cache c)"
    by (metis on_entry_keys list.set_map)
  show "length (lc_cache (on_entry k f c)) = length (lc_cache c)"
    by (metis on_entry_keys length_map)
qed (simp_all add: on_entry_def split: option.splits)

lemma tl_key:
  "j \<in> fst ` set (tl l) \<Longrightarrow> distinct (map fst l) \<Longrightarrow> l \<noteq> [] \<and> j \<noteq> fst (hd l) \<and> j \<in> fst ` set l"
  by (cases l) force+

lemma truthy_ends:
  assumes "[] \<notin> fst ` set l"
  shows "truthy (first_key None (map fst l)) \<longleftrightarrow> l \<noteq> []" "truthy (last_key None (map fst l)) \<longleftrightarrow> l \<noteq> []"
    "l \<noteq> [] \<Longrightarrow> the (first_key None (map fst l)) = fst (hd l)"
    "l \<noteq> [] \<Longrightarrow> the (last_key None (map fst l)) = fst (last l)"
proof -
  have "l \<noteq> [] \<Longrightarrow> fst (last l) \<noteq> []" using assms by (metis image_eqI last_in_set)
  then show "truthy (last_key None (map fst l)) \<longleftrightarrow> l \<noteq> []" by (simp add: last_key_def truthy_def last_map)
  show "truthy (first_key None (map fst l)) \<longleftrightarrow> l \<noteq> []" using assms by (cases l) (auto simp: first_key_def truthy_def)
  show "l \<noteq> [] \<Longrightarrow> the (first_key None (map fst l)) = fst (hd l)" by (cases l) (simp_all add: first_key_def)
  show "l \<noteq> [] \<Longrightarrow> the (last_key None (map fst l)) = fst (last l)" by (simp add: last_key_def last_map)
qed

lemma truthy_simps [simp]: "truthy None = False" "truthy (Some k) = (k \<noteq> [])"
  by (simp_all add: truthy_def)

text \<open>Unlinking a node takes it out of the list and leaves its entry behind.\<close>

lemma unlinkNode_links:
  assumes l: "lru_links c (xs @ (k, d) # ys)"
  shows "lru_links (unlinkNode k c) (xs @ ys) \<and> lc_capacity (unlinkNode k c) = lc_capacity c \<and>
    jm_get (lc_cache (unlinkNode k c)) k = Some \<lparr>le_data = d, le_prev = None, le_next = None\<rparr> \<and>
    set (jm_keys (lc_cache (unlinkNode k c))) = set (jm_keys (lc_cache c))"
proof -
  let ?m = "jm_get (lc_cache c)"
  let ?p = "last_key None (map fst xs)" and ?n = "first_key None (map fst ys)"
  have d: "distinct (map fst xs)" "distinct (map fst ys)" "k \<notin> fst ` set xs" "k \<notin> fst ` set ys"
    "fst ` set xs \<inter> fst ` set ys = {}" "[] \<notin> fst ` set xs" "[] \<notin> fst ` set ys" "k \<noteq> []" "jm_wf (lc_cache c)"
    using l by (auto simp: lru_links_def)
  have e: "?m k = Some \<lparr>le_data = d, le_prev = ?p, le_next = ?n\<rparr>"
    and cx: "chain ?m None xs (Some k)" and cy: "chain ?m (Some k) ys None"
    and ht: "lc_head c = first_key None (map fst (xs @ (k, d) # ys))"
      "lc_tail c = last_key None (map fst (xs @ (k, d) # ys))"
    using l by (auto simp: lru_links_def chain_append)
  define c1 where "c1 = (if truthy ?p then on_entry (the ?p) (\<lambda>p. p\<lparr>le_next := ?n\<rparr>) c else c\<lparr>lc_head := ?n\<rparr>)"
  define c2 where "c2 = (if truthy ?n then on_entry (the ?n) (\<lambda>n. n\<lparr>le_prev := ?p\<rparr>) c1 else c1\<lparr>lc_tail := ?p\<rparr>)"
  have u: "unlinkNode k c = on_entry k (\<lambda>x. x\<lparr>le_prev := None, le_next := None\<rparr>) c2"
    by (simp add: unlinkNode_def e Let_def c1_def c2_def)
  have p: "truthy ?p \<longleftrightarrow> xs \<noteq> []" "xs \<noteq> [] \<Longrightarrow> the ?p = fst (last xs)"
    using truthy_ends [OF d(6)] by simp_all
  have n: "truthy ?n \<longleftrightarrow> ys \<noteq> []" "ys \<noteq> [] \<Longrightarrow> the ?n = fst (hd ys)"
    using truthy_ends [OF d(7)] by simp_all
  have c1: "chain (jm_get (lc_cache c1)) None xs ?n" "\<forall>j. j \<notin> fst ` set xs \<longrightarrow> jm_get (lc_cache c1) j = ?m j"
    "lc_head c1 = first_key None (map fst (xs @ ys))" "lc_tail c1 = lc_tail c" "jm_wf (lc_cache c1)"
    "set (jm_keys (lc_cache c1)) = set (jm_keys (lc_cache c))" "lc_capacity c1 = lc_capacity c"
  proof -
    show "chain (jm_get (lc_cache c1)) None xs ?n" "\<forall>j. j \<notin> fst ` set xs \<longrightarrow> jm_get (lc_cache c1) j = ?m j"
      using chain_next [OF cx _ d(1), of ?n] p by (cases "xs = []"; force simp: c1_def get_on_entry)+
    show "lc_head c1 = first_key None (map fst (xs @ ys))"
      using p ht(1) by (cases xs) (simp_all add: c1_def)
    show "lc_tail c1 = lc_tail c" "jm_wf (lc_cache c1)"
      "set (jm_keys (lc_cache c1)) = set (jm_keys (lc_cache c))" "lc_capacity c1 = lc_capacity c"
      using d(9) by (simp_all add: c1_def)
  qed
  have cy1: "chain (jm_get (lc_cache c1)) (Some k) ys None"
    using cy c1(2) d(5) by (subst chain_cong [where m = ?m]) auto
  have cy2: "chain (jm_get (lc_cache c2)) ?p ys None"
  proof (cases ys)
    case Nil
    then show ?thesis by simp
  next
    case (Cons y ys')
    then show ?thesis using chain_prev [of _ "Some k" y ys' None ?p] cy1 n d(2)
      by (auto simp: c2_def get_on_entry)
  qed
  have same: "\<forall>j. j \<notin> fst ` set ys \<longrightarrow> jm_get (lc_cache c2) j = jm_get (lc_cache c1) j"
    using n by (cases ys) (auto simp: c2_def get_on_entry)
  have cx2: "chain (jm_get (lc_cache c2)) None xs ?n"
    using c1(1) same d(5) by (subst chain_cong [where m = "jm_get (lc_cache c1)"]) auto
  have "chain (jm_get (lc_cache c2)) None (xs @ ys) None"
    using cx2 cy2 by (simp add: chain_append)
  then have "chain (jm_get (lc_cache (unlinkNode k c))) None (xs @ ys) None"
    using d(3,4) by (subst chain_cong [where m = "jm_get (lc_cache c2)"]) (auto simp: u get_on_entry)
  moreover have "lc_tail c2 = last_key None (map fst (xs @ ys))" "lc_head c2 = lc_head c1" "jm_wf (lc_cache c2)"
    "set (jm_keys (lc_cache c2)) = set (jm_keys (lc_cache c1))" "lc_capacity c2 = lc_capacity c1"
    using n c1(4,5) ht(2) by (auto simp: c2_def last_key_append last_key_def)
  moreover have "jm_get (lc_cache c2) k = Some \<lparr>le_data = d, le_prev = ?p, le_next = ?n\<rparr>"
    using same c1(2) e d(3,4) by simp
  ultimately show ?thesis using l d c1 by (auto simp: lru_links_def u get_on_entry)
qed

lemma filter_absent: "k \<notin> fst ` set l \<Longrightarrow> filter (\<lambda>kd. fst kd \<noteq> k) l = l"
  by (induction l) auto

lemma links_member:
  assumes "lru_repr c l" and "(k, d) \<in> set l"
  obtains xs ys where "l = xs @ (k, d) # ys" "k \<notin> fst ` set xs" "k \<notin> fst ` set ys"
    "jm_get (lc_cache c) k = Some \<lparr>le_data = d, le_prev = last_key None (map fst xs),
       le_next = first_key None (map fst ys)\<rparr>"
proof -
  obtain xs ys where "l = xs @ (k, d) # ys" using assms(2) by (meson split_list)
  then show ?thesis using assms(1) that [of xs ys] by (auto simp: lru_repr_def lru_links_def chain_append)
qed

lemma repr_get: "lru_repr c l \<Longrightarrow> map_option le_data (jm_get (lc_cache c) k) = map_of l k"
proof (cases "map_of l k")
  case None
  assume r: "lru_repr c l"
  then have "k \<notin> set (jm_keys (lc_cache c))" using None by (simp add: lru_repr_def map_of_eq_None_iff)
  then show ?thesis using None by (simp add: jm_get_None_iff)
next
  case (Some d)
  assume r: "lru_repr c l"
  then show ?thesis using Some by (metis links_member map_of_SomeD option.map(2) lru_entry.select_convs(1))
qed

lemma drop_entry_repr:
  assumes "lru_repr c l" and "k \<in> fst ` set l"
  shows "lru_repr (drop_entry k c) (filter (\<lambda>kd. fst kd \<noteq> k) l) \<and> lc_capacity (drop_entry k c) = lc_capacity c"
proof -
  obtain d where "(k, d) \<in> set l" using assms(2) by auto
  then obtain xs ys where l: "l = xs @ (k, d) # ys" "k \<notin> fst ` set xs" "k \<notin> fst ` set ys"
    using links_member [OF assms(1)] by metis
  have f: "filter (\<lambda>kd. fst kd \<noteq> k) l = xs @ ys" using l by (simp add: filter_absent)
  have u: "lru_links (unlinkNode k c) (xs @ ys)" "lc_capacity (unlinkNode k c) = lc_capacity c"
    "set (jm_keys (lc_cache (unlinkNode k c))) = set (jm_keys (lc_cache c))"
    using unlinkNode_links [of c xs k d ys] assms(1) by (auto simp: lru_repr_def l(1))
  have "chain (jm_get (lc_cache (drop_entry k c))) None (xs @ ys) None"
    using u(1) l by (subst chain_cong [where m = "jm_get (lc_cache (unlinkNode k c))"])
      (auto simp: drop_entry_def lru_links_def)
  moreover have "set (jm_keys (lc_cache (drop_entry k c))) = fst ` set (xs @ ys)"
  proof -
    have "set (jm_keys (lc_cache (drop_entry k c))) = set (jm_keys (lc_cache (unlinkNode k c))) - {k}"
      using jm_keys_delete [of "lc_cache (unlinkNode k c)" k] by (simp add: drop_entry_def)
    also have "\<dots> = fst ` set l - {k}" using u(3) assms(1) by (simp add: lru_repr_def)
    finally show ?thesis using l by auto
  qed
  ultimately show ?thesis
    using u(1,2) unfolding f lru_repr_def lru_links_def by (auto simp: drop_entry_def)
qed

lemma unlinked_links:
  assumes "lru_repr c l" and "(k, d) \<in> set l"
  shows "lru_links (unlinkNode k c) (filter (\<lambda>kd. fst kd \<noteq> k) l) \<and>
    lc_capacity (unlinkNode k c) = lc_capacity c \<and>
    jm_get (lc_cache (unlinkNode k c)) k = Some \<lparr>le_data = d, le_prev = None, le_next = None\<rparr> \<and>
    set (jm_keys (lc_cache (unlinkNode k c))) = set (jm_keys (lc_cache c))"
proof -
  obtain xs ys where l: "l = xs @ (k, d) # ys" "k \<notin> fst ` set xs" "k \<notin> fst ` set ys"
    using links_member [OF assms] by metis
  have f: "filter (\<lambda>kd. fst kd \<noteq> k) l = xs @ ys" using l by (simp add: filter_absent)
  show ?thesis using unlinkNode_links [of c xs k d ys] assms(1) unfolding f by (simp add: lru_repr_def l(1))
qed

text \<open>Putting an entry in front of the chain.\<close>

lemma push_chain:
  assumes "chain m None l None" "k \<notin> fst ` set l" "distinct (map fst l)"
    and "m' k = Some \<lparr>le_data = d, le_prev = None, le_next = first_key None (map fst l)\<rparr>"
    and "l \<noteq> [] \<Longrightarrow> m' (fst (hd l)) = map_option (\<lambda>e. e\<lparr>le_prev := Some k\<rparr>) (m (fst (hd l)))"
    and "\<forall>j \<in> fst ` set (tl l). m' j = m j"
  shows "chain m' None ((k, d) # l) None"
proof (cases l)
  case (Cons y ys)
  have "chain (m(fst y := map_option (\<lambda>e. e\<lparr>le_prev := Some k\<rparr>) (m (fst y)))) (Some k) (y # ys) None"
    using assms(1,3) Cons by (intro chain_prev) (auto simp: image_iff)
  then have "chain m' (Some k) (y # ys) None"
    using assms(3,5,6) Cons by (subst (asm) chain_cong [where m = m']) auto
  then show ?thesis using assms(4) Cons by simp
qed (use assms(4) in simp)

lemma moveToHead_repr:
  assumes r: "lru_repr c l" and m: "(k, d) \<in> set l"
  shows "lru_repr (moveToHead k c) (lru_touch k d l) \<and> lc_capacity (moveToHead k c) = lc_capacity c"
proof (cases "lc_head c = Some k")
  case True
  then obtain l' where l: "l = (k, d) # l'"
    using r m by (cases l; force simp: lru_repr_def lru_links_def)
  moreover have "filter (\<lambda>kd. fst kd \<noteq> k) l' = l'"
    using r l by (simp add: lru_repr_def lru_links_def filter_absent)
  ultimately show ?thesis using True r by (simp add: moveToHead_def lru_touch_def)
next
  case False
  let ?l = "filter (\<lambda>kd. fst kd \<noteq> k) l"
  define c1 where "c1 = unlinkNode k c"
  define c2 where "c2 = on_entry k (\<lambda>e. e\<lparr>le_prev := None, le_next := lc_head c1\<rparr>) c1"
  define c3 where "c3 = (if truthy (lc_head c2) then on_entry (the (lc_head c2)) (\<lambda>h. h\<lparr>le_prev := Some k\<rparr>) c2 else c2)"
  have mv: "moveToHead k c = (if truthy (lc_tail c3) then c3\<lparr>lc_head := Some k\<rparr> else c3\<lparr>lc_head := Some k, lc_tail := Some k\<rparr>)"
    using False by (simp add: moveToHead_def Let_def c1_def c2_def c3_def)
  have u: "lru_links c1 ?l" "lc_capacity c1 = lc_capacity c"
    "jm_get (lc_cache c1) k = Some \<lparr>le_data = d, le_prev = None, le_next = None\<rparr>"
    "set (jm_keys (lc_cache c1)) = set (jm_keys (lc_cache c))"
    using unlinked_links [OF r m] by (simp_all add: c1_def)
  have h: "lc_head c2 = first_key None (map fst ?l)" "lc_tail c3 = last_key None (map fst ?l)"
    and d: "distinct (map fst ?l)" "[] \<notin> fst ` set ?l"
    using u(1) by (simp_all add: c2_def c3_def lru_links_def)
  have ne: "k \<noteq> []" using r m by (force simp: lru_repr_def lru_links_def)
  have t: "truthy (lc_head c2) \<longleftrightarrow> ?l \<noteq> []" "truthy (lc_tail c3) \<longleftrightarrow> ?l \<noteq> []"
    "?l \<noteq> [] \<Longrightarrow> the (lc_head c2) = fst (hd ?l)"
    using truthy_ends [OF d(2)] by (simp_all add: h)
  have nk: "?l \<noteq> [] \<Longrightarrow> fst (hd ?l) \<noteq> k" using hd_in_set [of ?l] by auto
  have "chain (jm_get (lc_cache c3)) None ((k, d) # ?l) None"
  proof (rule push_chain [where m = "jm_get (lc_cache c1)"])
    show "chain (jm_get (lc_cache c1)) None ?l None" using u(1) by (simp add: lru_links_def)
    show "jm_get (lc_cache c3) k = Some \<lparr>le_data = d, le_prev = None, le_next = first_key None (map fst ?l)\<rparr>"
      using u t nk h(1) by (auto simp: c3_def c2_def get_on_entry)
    show "jm_get (lc_cache c3) (fst (hd ?l)) = map_option (\<lambda>e. e\<lparr>le_prev := Some k\<rparr>) (jm_get (lc_cache c1) (fst (hd ?l)))"
      if "?l \<noteq> []" using that t nk by (auto simp: c3_def c2_def get_on_entry)
    show "\<forall>j \<in> fst ` set (tl ?l). jm_get (lc_cache c3) j = jm_get (lc_cache c1) j"
    proof
      fix j assume j: "j \<in> fst ` set (tl ?l)"
      then have "j \<noteq> k" "j \<noteq> fst (hd ?l)" "?l \<noteq> []"
        using tl_key [OF _ d(1), of j] by auto
      then show "jm_get (lc_cache c3) j = jm_get (lc_cache c1) j"
        using t by (simp add: c3_def c2_def get_on_entry)
    qed
  qed (use d in auto)
  moreover have "fst ` set (lc_cache c3) = fst ` set (lc_cache c)" "jm_wf (lc_cache c3)" "lc_capacity c3 = lc_capacity c"
    using u by (simp_all add: c3_def c2_def lru_links_def)
  moreover have "lc_tail (moveToHead k c) = last_key (Some k) (map fst ?l)"
    using h(2) t(2) by (cases "?l = []") (simp_all add: mv last_key_def)
  moreover have "lc_head (moveToHead k c) = Some k" "lc_cache (moveToHead k c) = lc_cache c3"
    "lc_capacity (moveToHead k c) = lc_capacity c3"
    by (simp_all add: mv)
  moreover have "insert k (fst ` set ?l) = fst ` set l" using m by force
  moreover have "k \<notin> fst ` set ?l" "[] \<notin> fst ` set l" "fst ` set (lc_cache c) = fst ` set l"
    using r by (auto simp: lru_repr_def lru_links_def)
  ultimately show ?thesis
    using d ne unfolding lru_repr_def lru_links_def lru_touch_def by simp
qed

lemma repr_length: "lru_repr c l \<Longrightarrow> length (lc_cache c) = length l"
  using distinct_card [of "jm_keys (lc_cache c)"] distinct_card [of "map fst l"]
  by (simp add: lru_repr_def lru_links_def jm_wf_def)

lemma repr_has: "lru_repr c l \<Longrightarrow> jm_has (lc_cache c) k \<longleftrightarrow> k \<in> fst ` set l"
  using jm_get_None_iff [of "lc_cache c" k] by (simp add: jm_has_def jm_get_def [symmetric] lru_repr_def)

lemma evictTail_repr:
  assumes r: "lru_repr c l" and ne: "l \<noteq> []"
  shows "lru_repr (evictTail c) (butlast l) \<and> lc_capacity (evictTail c) = lc_capacity c"
proof -
  obtain xs kd where l: "l = xs @ [kd]" using ne by (metis rev_exhaust)
  then have t: "lc_tail c = Some (fst kd)" "fst kd \<noteq> []"
    using r by (auto simp: lru_repr_def lru_links_def last_key_def)
  have "filter (\<lambda>x. fst x \<noteq> fst kd) l = xs"
    using r l by (simp add: lru_repr_def lru_links_def filter_absent)
  then show ?thesis using drop_entry_repr [OF r, of "fst kd"] l t by (simp add: evictTail_def)
qed

lemma on_entry_data:
  assumes r: "lru_repr c l" and m: "(k, d') \<in> set l"
  shows "lru_repr (on_entry k (\<lambda>e. e\<lparr>le_data := d\<rparr>) c) (map (\<lambda>kd. if fst kd = k then (k, d) else kd) l)"
proof -
  let ?g = "\<lambda>kd. if fst kd = k then (k, d) else kd"
  have g: "map fst (map ?g l) = map fst l" for l :: "(string \<times> buffer) list" by (induction l) auto
  then have gs: "fst ` set (map ?g l) = fst ` set l" for l :: "(string \<times> buffer) list" by (metis list.set_map)
  have ch: "chain m p xs n \<Longrightarrow> distinct (map fst xs) \<Longrightarrow>
      chain (m(k := map_option (\<lambda>e. e\<lparr>le_data := d\<rparr>) (m k))) p (map ?g xs) n" for m p xs n
  proof (induction xs arbitrary: p)
    case (Cons kd xs)
    show ?case
    proof (cases "fst kd = k")
      case True
      then have k: "k \<notin> fst ` set xs" using Cons.prems(2) by simp
      then have "map ?g xs = xs" by (intro map_idI) force
      moreover have "chain (m(k := e)) (Some k) xs n = chain m (Some k) xs n" for e
        using k by (intro chain_cong) auto
      ultimately show ?thesis using Cons.prems(1) True by (simp add: fun_upd_def)
    next
      case False
      have "first_key n (map fst (map ?g xs)) = first_key n (map fst xs)" by (simp only: g)
      then show ?thesis using False Cons by (simp del: map_map)
    qed
  qed simp
  show ?thesis
    using r ch [of "jm_get (lc_cache c)" None l None]
    unfolding lru_repr_def lru_links_def get_on_entry g gs on_entry_keys on_entry_frame by blast
qed

text \<open>The cache as a list: the specification the linked list implements.\<close>

definition list_set :: "nat \<Rightarrow> string \<Rightarrow> buffer \<Rightarrow> (string \<times> buffer) list \<Rightarrow> (string \<times> buffer) list" where
  "list_set cap k d l =
    (if k \<in> fst ` set l then lru_touch k d l
     else if Suc (length l) > cap then butlast ((k, d) # l) else (k, d) # l)"

definition list_get :: "string \<Rightarrow> (string \<times> buffer) list \<Rightarrow> (string \<times> buffer) list" where
  "list_get k l = (case map_of l k of None \<Rightarrow> l | Some d \<Rightarrow> lru_touch k d l)"

definition list_invalidate :: "string \<Rightarrow> (string \<times> buffer) list \<Rightarrow> (string \<times> buffer) list" where
  "list_invalidate prefix l = filter (\<lambda>kd. \<not> js_starts_with (fst kd) prefix) l"

lemma lru_get_repr:
  assumes "lru_repr c l"
  shows "snd (lru_get k c) = map_of l k \<and> lru_repr (fst (lru_get k c)) (list_get k l) \<and>
    lc_capacity (fst (lru_get k c)) = lc_capacity c"
proof (cases "jm_get (lc_cache c) k")
  case None
  then show ?thesis using repr_get [OF assms, of k] assms by (simp add: lru_get_def list_get_def)
next
  case (Some e)
  then have "map_of l k = Some (le_data e)" using repr_get [OF assms, of k] by simp
  then show ?thesis using Some moveToHead_repr [OF assms, of k "le_data e"]
    by (simp add: lru_get_def list_get_def map_of_SomeD)
qed

lemma touch_replaced:
  "lru_touch k d (map (\<lambda>kd. if fst kd = k then (k, d) else kd) l) = lru_touch k d l"
  by (induction l) (auto simp: lru_touch_def)

lemma lru_push_repr:
  assumes r: "lru_repr c l" and k: "k \<noteq> []" "k \<notin> fst ` set l"
  defines "c1 \<equiv> (if truthy (lc_head c) then on_entry (the (lc_head c)) (\<lambda>h. h\<lparr>le_prev := Some k\<rparr>) c else c)\<lparr>lc_head := Some k\<rparr>"
  defines "c2 \<equiv> if truthy (lc_tail c1) then c1 else c1\<lparr>lc_tail := Some k\<rparr>"
  shows "lru_repr (c2\<lparr>lc_cache := jm_set (lc_cache c2) k \<lparr>le_data = d, le_prev = None, le_next = lc_head c\<rparr>\<rparr>) ((k, d) # l)"
proof -
  let ?m = "jm_get (lc_cache c)"
  define c3 where "c3 = c2\<lparr>lc_cache := jm_set (lc_cache c2) k \<lparr>le_data = d, le_prev = None, le_next = lc_head c\<rparr>\<rparr>"
  have h: "lc_head c = first_key None (map fst l)" "lc_tail c = last_key None (map fst l)"
    and dl: "distinct (map fst l)" "[] \<notin> fst ` set l" "chain ?m None l None" "jm_wf (lc_cache c)"
    "fst ` set (lc_cache c) = fst ` set l"
    using r by (simp_all add: lru_repr_def lru_links_def)
  have t: "truthy (lc_head c) \<longleftrightarrow> l \<noteq> []" "truthy (lc_tail c) \<longleftrightarrow> l \<noteq> []" "l \<noteq> [] \<Longrightarrow> the (lc_head c) = fst (hd l)"
    using truthy_ends [OF dl(2)] by (simp_all add: h)
  have g: "jm_get (lc_cache c2) = (if l = [] then ?m
      else ?m(fst (hd l) := map_option (\<lambda>h. h\<lparr>le_prev := Some k\<rparr>) (?m (fst (hd l)))))"
    using t by (auto simp: c2_def c1_def get_on_entry)
  have nk: "l \<noteq> [] \<Longrightarrow> fst (hd l) \<noteq> k" using k(2) by (metis hd_in_set image_eqI)
  have "chain (jm_get (lc_cache c3)) None ((k, d) # l) None"
  proof (rule push_chain [where m = ?m])
    show "\<forall>j \<in> fst ` set (tl l). jm_get (lc_cache c3) j = ?m j"
    proof
      fix j assume j: "j \<in> fst ` set (tl l)"
      then have "j \<noteq> k" "j \<noteq> fst (hd l)" "l \<noteq> []" using tl_key [OF _ dl(1), of j] k(2) by auto
      then show "jm_get (lc_cache c3) j = ?m j" by (simp add: c3_def g)
    qed
    show "l \<noteq> [] \<Longrightarrow> jm_get (lc_cache c3) (fst (hd l)) = map_option (\<lambda>e. e\<lparr>le_prev := Some k\<rparr>) (?m (fst (hd l)))"
      using nk by (simp add: c3_def g)
  qed (use dl k h in \<open>auto simp: c3_def\<close>)
  moreover have "fst ` set (lc_cache c2) = fst ` set l" "jm_wf (lc_cache c2)" "lc_head c2 = Some k"
    "lc_tail c2 = last_key (Some k) (map fst l)"
    using dl h t by (auto simp: c2_def c1_def last_key_def)
  ultimately show ?thesis
    using dl k jm_keys_set [of "lc_cache c2" k] unfolding c3_def [symmetric] lru_repr_def lru_links_def
    by (simp add: c3_def h(1))
qed

lemma lru_set_repr:
  assumes r: "lru_repr c l" and k: "k \<noteq> []"
  shows "lru_repr (lru_set k d c) (list_set (lc_capacity c) k d l) \<and> lc_capacity (lru_set k d c) = lc_capacity c"
proof (cases "k \<in> fst ` set l")
  case True
  then obtain d' where m: "(k, d') \<in> set l" by auto
  let ?l = "map (\<lambda>kd. if fst kd = k then (k, d) else kd) l"
  have "(k, d) \<in> set ?l" using m by force
  from moveToHead_repr [OF on_entry_data [OF r m, of d] this] show ?thesis
    using True repr_has [OF r, of k] by (simp add: lru_set_def list_set_def touch_replaced)
next
  case False
  define c1 where "c1 = (if truthy (lc_head c) then on_entry (the (lc_head c)) (\<lambda>h. h\<lparr>le_prev := Some k\<rparr>) c else c)\<lparr>lc_head := Some k\<rparr>"
  define c2 where "c2 = (if truthy (lc_tail c1) then c1 else c1\<lparr>lc_tail := Some k\<rparr>)"
  define c3 where "c3 = c2\<lparr>lc_cache := jm_set (lc_cache c2) k \<lparr>le_data = d, le_prev = None, le_next = lc_head c\<rparr>\<rparr>"
  have p: "lru_repr c3 ((k, d) # l)"
    unfolding c3_def c2_def c1_def by (rule lru_push_repr [OF r k False])
  have cap: "lc_capacity c3 = lc_capacity c" by (simp add: c3_def c2_def c1_def)
  have "lru_set k d c = (if length (lc_cache c3) > lc_capacity c3 then evictTail c3 else c3)"
    using False repr_has [OF r] by (simp add: lru_set_def Let_def c1_def c2_def c3_def)
  then show ?thesis
    using p cap evictTail_repr [OF p] repr_length [OF p] False by (simp add: list_set_def)
qed

lemma invalidate_fold:
  "lru_repr c l \<Longrightarrow> distinct ks \<Longrightarrow> set ks \<subseteq> fst ` set l \<Longrightarrow>
    lru_repr (foldl (\<lambda>c k. if js_starts_with k p then drop_entry k c else c) c ks)
      (filter (\<lambda>kd. fst kd \<notin> set ks \<or> \<not> js_starts_with (fst kd) p) l) \<and>
    lc_capacity (foldl (\<lambda>c k. if js_starts_with k p then drop_entry k c else c) c ks) = lc_capacity c"
proof (induction ks arbitrary: c l)
  case (Cons k ks)
  show ?case
  proof (cases "js_starts_with k p")
    case True
    let ?l = "filter (\<lambda>kd. fst kd \<noteq> k) l"
    have d: "lru_repr (drop_entry k c) ?l" "lc_capacity (drop_entry k c) = lc_capacity c"
      using drop_entry_repr [OF Cons.prems(1), of k] Cons.prems(3) by auto
    have "set ks \<subseteq> fst ` set ?l" using Cons.prems(2,3) by force
    with Cons.IH [OF d(1)] Cons.prems(2) d(2) True show ?thesis
      by (simp add: filter_filter) (smt (verit, best) filter_cong)
  next
    case False
    then show ?thesis using Cons.IH [OF Cons.prems(1)] Cons.prems(2,3)
      by simp (smt (verit, best) filter_cong)
  qed
qed simp

lemma lru_invalidate_repr:
  assumes "lru_repr c l"
  shows "lru_repr (lru_invalidate p c) (list_invalidate p l) \<and> lc_capacity (lru_invalidate p c) = lc_capacity c"
proof -
  have ks: "distinct (jm_keys (lc_cache c))" "set (jm_keys (lc_cache c)) = fst ` set l"
    using assms by (simp_all add: lru_repr_def lru_links_def jm_wf_def)
  have "filter (\<lambda>kd. fst kd \<notin> set (jm_keys (lc_cache c)) \<or> \<not> js_starts_with (fst kd) p) l = list_invalidate p l"
    using ks(2) unfolding list_invalidate_def by (intro filter_cong) auto
  then show ?thesis using invalidate_fold [OF assms ks(1), of p] ks(2) by (simp add: lru_invalidate_def)
qed

datatype block_op = BGet string | BSet string buffer | BInvalidate string

fun block_step :: "lru_cache \<Rightarrow> block_op \<Rightarrow> lru_cache \<times> buffer option" where
  "block_step c (BGet k) = lru_get k c"
| "block_step c (BSet k d) = (lru_set k d c, None)"
| "block_step c (BInvalidate p) = (lru_invalidate p c, None)"

fun list_step :: "nat \<Rightarrow> (string \<times> buffer) list \<Rightarrow> block_op \<Rightarrow> (string \<times> buffer) list \<times> buffer option" where
  "list_step cap l (BGet k) = (list_get k l, map_of l k)"
| "list_step cap l (BSet k d) = (list_set cap k d l, None)"
| "list_step cap l (BInvalidate p) = (list_invalidate p l, None)"

fun run_ops :: "('s \<Rightarrow> 'o \<Rightarrow> 's \<times> 'r) \<Rightarrow> 's \<Rightarrow> 'o list \<Rightarrow> 's \<times> 'r list" where
  "run_ops f s [] = (s, [])"
| "run_ops f s (x # xs) = (case f s x of (s', r) \<Rightarrow> (case run_ops f s' xs of (s'', rs) \<Rightarrow> (s'', r # rs)))"

lemma block_step_repr:
  assumes "lru_repr c l" and "\<forall>k d. x = BSet k d \<longrightarrow> k \<noteq> []" and "length l \<le> lc_capacity c"
  shows "lru_repr (fst (block_step c x)) (fst (list_step (lc_capacity c) l x)) \<and>
    snd (block_step c x) = snd (list_step (lc_capacity c) l x) \<and>
    lc_capacity (fst (block_step c x)) = lc_capacity c \<and> length (fst (list_step (lc_capacity c) l x)) \<le> lc_capacity c"
proof (cases x)
  case (BGet k)
  have "length (list_get k l) \<le> length l"
  proof (cases "map_of l k")
    case (Some d)
    then have "length (filter (\<lambda>kd. fst kd \<noteq> k) l) < length l"
      by (intro length_filter_less [of "(k, d)"]) (auto dest: map_of_SomeD)
    then show ?thesis using Some by (simp add: list_get_def lru_touch_def)
  qed (simp add: list_get_def)
  then show ?thesis using lru_get_repr [OF assms(1), of k] assms(3) BGet by simp
next
  case (BSet k d)
  have "length (list_set (lc_capacity c) k d l) \<le> lc_capacity c"
  proof (cases "k \<in> fst ` set l")
    case True
    then obtain kd where "kd \<in> set l" "\<not> fst kd \<noteq> k" by auto
    then have "length (filter (\<lambda>kd. fst kd \<noteq> k) l) < length l" by (rule length_filter_less)
    then show ?thesis using True assms(3) by (simp add: list_set_def lru_touch_def)
  qed (use assms(3) in \<open>simp add: list_set_def\<close>)
  then show ?thesis using lru_set_repr [OF assms(1), of k d] assms(2) BSet by simp
next
  case (BInvalidate p)
  have "length (list_invalidate p l) \<le> length l" by (simp add: list_invalidate_def)
  then show ?thesis using lru_invalidate_repr [OF assms(1), of p] assms(3) BInvalidate by simp
qed

lemma block_run_repr:
  "lru_repr c l \<Longrightarrow> \<forall>k d. BSet k d \<in> set xs \<longrightarrow> k \<noteq> [] \<Longrightarrow> length l \<le> lc_capacity c \<Longrightarrow>
    snd (run_ops block_step c xs) = snd (run_ops (list_step (lc_capacity c)) l xs) \<and>
    length (lc_cache (fst (run_ops block_step c xs))) \<le> lc_capacity c"
proof (induction xs arbitrary: c l)
  case (Cons x xs)
  have s: "lru_repr (fst (block_step c x)) (fst (list_step (lc_capacity c) l x))"
    "snd (block_step c x) = snd (list_step (lc_capacity c) l x)"
    "lc_capacity (fst (block_step c x)) = lc_capacity c"
    "length (fst (list_step (lc_capacity c) l x)) \<le> lc_capacity c"
    using block_step_repr [OF Cons.prems(1) _ Cons.prems(3), of x] Cons.prems(2) by auto
  have "\<forall>k d. BSet k d \<in> set xs \<longrightarrow> k \<noteq> []" using Cons.prems(2) by simp
  from Cons.IH [OF s(1) this] show ?case using s(2,3,4) by (simp add: case_prod_unfold)
qed (simp add: repr_length)

text \<open>
  C12. The block cache, a linked list threaded through a map, answers every sequence of reads, writes and
  invalidations as the list of its blocks in the order of their last use does, from which the last is
  dropped when it is full; it never holds more than its capacity.
\<close>

theorem block_cache_is_lru:
  assumes "\<forall>k d. BSet k d \<in> set xs \<longrightarrow> k \<noteq> []"
  shows "snd (run_ops block_step (new_LRUBlockCache capacity) xs) = snd (run_ops (list_step capacity) [] xs) \<and>
    length (lc_cache (fst (run_ops block_step (new_LRUBlockCache capacity) xs))) \<le> capacity"
proof -
  have "lru_repr (new_LRUBlockCache capacity) []"
    by (simp add: lru_repr_def lru_links_def new_LRUBlockCache_def)
  from block_run_repr [OF this assms] show ?thesis by (simp add: new_LRUBlockCache_def)
qed

definition demo_block_ops :: "block_op list" where
  "demo_block_ops = [BSet ''1:0'' [1], BSet ''1:9'' [2], BGet ''1:0'', BSet ''2:0'' [3], BGet ''1:9'',
     BGet ''1:0'', BInvalidate ''1:'', BGet ''1:0'', BGet ''2:0'']"

theorem block_cache_is_lru_witness:
  "snd (run_ops block_step (new_LRUBlockCache 2) demo_block_ops) =
     [None, None, Some [1], None, None, Some [1], None, None, Some [3]]"
proof -
  have "snd (run_ops block_step (new_LRUBlockCache 2) demo_block_ops) = snd (run_ops (list_step 2) [] demo_block_ops)"
    by (rule block_cache_is_lru [THEN conjunct1]) (auto simp: demo_block_ops_def)
  also have "\<dots> = [None, None, Some [1], None, None, Some [1], None, None, Some [3]]"
    by code_simp
  finally show ?thesis .
qed

subsection \<open>The sparse index\<close>

text \<open>The search halves an interval of the index; \<open>hi\<close> is -1 on an empty index.\<close>

function sparse_loop :: "(string \<times> nat) list \<Rightarrow> string \<Rightarrow> int \<Rightarrow> int \<Rightarrow> nat \<Rightarrow> nat" where
  "sparse_loop index targetId lo hi best =
    (if hi < lo then best
     else let mid = (lo + hi) div 2
          in if fst (index ! nat mid) \<le> targetId
             then sparse_loop index targetId (mid + 1) hi (snd (index ! nat mid))
             else sparse_loop index targetId lo (mid - 1) best)"
  by pat_completeness auto
termination sparse_loop
  by (relation "measure (\<lambda>(index, targetId, lo, hi, best). nat (hi - lo + 1))") auto

declare sparse_loop.simps [simp del]

definition sparseIndexLookup :: "(string \<times> nat) list \<Rightarrow> string \<Rightarrow> nat" where
  "sparseIndexLookup index targetId = sparse_loop index targetId 0 (int (length index) - 1) 0"

text \<open>What it finds: the offset of the last entry whose key is not beyond the target, or 0.\<close>

definition sparse_spec :: "(string \<times> nat) list \<Rightarrow> string \<Rightarrow> nat" where
  "sparse_spec index t = (case rev (filter (\<lambda>e. fst e \<le> t) index) of [] \<Rightarrow> 0 | e # _ \<Rightarrow> snd e)"

lemma sparse_loop_spec:
  assumes "sorted (map fst index)" "0 \<le> lo" "lo \<le> hi + 1" "hi < int (length index)"
    and "\<forall>i < nat lo. fst (index ! i) \<le> t" "\<forall>i. nat (hi + 1) \<le> i \<and> i < length index \<longrightarrow> t < fst (index ! i)"
    and "best = (if lo = 0 then 0 else snd (index ! nat (lo - 1)))"
  shows "sparse_loop index t lo hi best = sparse_spec index t"
  using assms
proof (induction index t lo hi best rule: sparse_loop.induct)
  case (1 index t lo hi best)
  show ?case
  proof (cases "hi < lo")
    case True
    with "1.prems" have h: "hi = lo - 1" by simp
    let ?n = "nat lo"
    have n: "?n \<le> length index" using "1.prems" h by linarith
    have "filter (\<lambda>e. fst e \<le> t) index = take ?n index"
    proof -
      have "filter (\<lambda>e. fst e \<le> t) (take ?n index) = take ?n index"
        using "1.prems"(5) n by (auto simp: filter_id_conv in_set_conv_nth) (metis fst_conv)
      moreover have "filter (\<lambda>e. fst e \<le> t) (drop ?n index) = []"
      proof -
        have "t < fst e" if e: "e \<in> set (drop ?n index)" for e
        proof -
          obtain i where "i < length index - ?n" "e = index ! (?n + i)"
            using e by (auto simp: in_set_conv_nth)
          then show ?thesis using "1.prems"(6) h by simp
        qed
        then show ?thesis by (auto simp: filter_empty_conv not_le)
      qed
      ultimately show ?thesis by (metis append_take_drop_id filter_append append_Nil2)
    qed
    then have "sparse_spec index t = (case rev (take ?n index) of [] \<Rightarrow> 0 | e # _ \<Rightarrow> snd e)"
      by (simp add: sparse_spec_def)
    also have "\<dots> = best"
    proof (cases "lo = 0")
      case False
      then have "take ?n index = take (nat (lo - 1)) index @ [index ! nat (lo - 1)]"
        using n "1.prems"(2) take_Suc_conv_app_nth [of "nat (lo - 1)" index] by (simp add: Suc_nat_eq_nat_zadd1)
      then show ?thesis using "1.prems"(7) False by simp
    qed (use "1.prems"(7) in simp)
    finally show ?thesis using True by (simp add: sparse_loop.simps)
  next
    case False
    let ?m = "(lo + hi) div 2"
    have m: "lo \<le> ?m" "?m \<le> hi" "0 \<le> ?m" "nat ?m < length index" using False "1.prems" by linarith+
    have mono: "i \<le> j \<Longrightarrow> j < length index \<Longrightarrow> fst (index ! i) \<le> fst (index ! j)" for i j
      using sorted_nth_mono [OF "1.prems"(1), of i j] by simp
    show ?thesis
    proof (cases "fst (index ! nat ?m) \<le> t")
      case True
      have "\<forall>i < nat (?m + 1). fst (index ! i) \<le> t"
      proof (intro allI impI)
        fix i assume "i < nat (?m + 1)"
        then have "i \<le> nat ?m" using m(3) by linarith
        from order_trans [OF mono [OF this m(4)] True] show "fst (index ! i) \<le> t" .
      qed
      then show ?thesis using "1.IH"(1) [OF False refl True] "1.prems" m True False
        by (subst sparse_loop.simps) simp
    next
      case gt: False
      have "\<forall>i. nat (?m - 1 + 1) \<le> i \<and> i < length index \<longrightarrow> t < fst (index ! i)"
      proof (intro allI impI)
        fix i assume "nat (?m - 1 + 1) \<le> i \<and> i < length index"
        then have "nat ?m \<le> i" "i < length index" by simp_all
        from less_le_trans [OF gt [unfolded not_le] mono [OF this]] show "t < fst (index ! i)" .
      qed
      then show ?thesis using "1.IH"(2) [OF False refl gt] "1.prems" m gt False
        by (subst sparse_loop.simps) simp
    qed
  qed
qed

lemma sparseIndexLookup_spec: "sorted (map fst index) \<Longrightarrow> sparseIndexLookup index t = sparse_spec index t"
  unfolding sparseIndexLookup_def by (rule sparse_loop_spec) auto

end
