(* ===== verification/NovaMemtable.thy ===== *)
theory NovaMemtable
  imports NovaCodec
begin

text \<open>
  \<open>SortedMemtable\<close> and \<open>SnapshotRegistry\<close> of \<open>src/database/index.ts\<close>: the documents written last, sorted by
  key, each with its versions from the newest to the oldest one an open snapshot may still read.  A
  version is the number of the transaction that wrote it and the packed document.
\<close>

subsection \<open>Snapshots\<close>

type_synonym snapshots = "nat list"

definition NO_SNAPSHOT :: nat where
  "NO_SNAPSHOT = 0xFFFFFFFFFFFFFFFF"

definition snap_open :: "nat \<Rightarrow> snapshots \<Rightarrow> snapshots" where
  "snap_open txnId sn = (if txnId \<in> set sn then sn else sn @ [txnId])"

definition snap_close :: "nat \<Rightarrow> snapshots \<Rightarrow> snapshots" where
  "snap_close txnId sn = removeAll txnId sn"

definition snap_oldest :: "snapshots \<Rightarrow> nat" where
  "snap_oldest sn = foldl (\<lambda>m s. if s < m then s else m) NO_SNAPSHOT sn"

definition snap_hasAny :: "snapshots \<Rightarrow> bool" where
  "snap_hasAny sn = (sn \<noteq> [])"

lemma snap_fold_le: "foldl (\<lambda>m s. if s < m then s else m) (a :: nat) sn \<le> a"
  by (induction sn arbitrary: a) (auto intro: order_trans less_imp_le)

lemma snap_oldest_le: "s \<in> set sn \<Longrightarrow> snap_oldest sn \<le> s"
proof -
  have "s \<in> set sn \<Longrightarrow> foldl (\<lambda>m s. if s < m then s else m) a sn \<le> s" for a :: nat
    by (induction sn arbitrary: a) (auto intro: order_trans [OF snap_fold_le])
  then show "s \<in> set sn \<Longrightarrow> ?thesis" by (simp add: snap_oldest_def)
qed

subsection \<open>The memtable\<close>

record ventry =
  ve_versions :: "(nat \<times> buffer) list"
  ve_totalBytes :: int

record memtable =
  mt_entries :: "(string \<times> ventry) list"
  mt_byteSize :: int

definition new_memtable :: memtable where
  "new_memtable = \<lparr>mt_entries = [], mt_byteSize = 0\<rparr>"

function bisect_loop :: "(string \<times> ventry) list \<Rightarrow> string \<Rightarrow> int \<Rightarrow> int \<Rightarrow> bool \<times> nat" where
  "bisect_loop entries key lo hi =
    (if hi < lo then (False, nat lo)
     else let mid = (lo + hi) div 2
          in if fst (entries ! nat mid) < key then bisect_loop entries key (mid + 1) hi
             else if fst (entries ! nat mid) > key then bisect_loop entries key lo (mid - 1)
             else (True, nat mid))"
  by pat_completeness auto
termination bisect_loop
  by (relation "measure (\<lambda>(entries, key, lo, hi). nat (hi - lo + 1))") auto

declare bisect_loop.simps [simp del]

definition bisect :: "memtable \<Rightarrow> string \<Rightarrow> bool \<times> nat" where
  "bisect m key = bisect_loop (mt_entries m) key 0 (int (length (mt_entries m)) - 1)"

text \<open>The first version an observer at \<open>s\<close> may see.\<close>

fun first_visible :: "nat \<Rightarrow> (nat \<times> buffer) list \<Rightarrow> nat option" where
  "first_visible s [] = None"
| "first_visible s (v # vs) = (if fst v \<le> s then Some 0 else map_option Suc (first_visible s vs))"

text \<open>\<open>trimVersions\<close>: the entry without the versions nobody can read, and the bytes that went.\<close>

definition trimVersions :: "ventry \<Rightarrow> nat \<Rightarrow> ventry \<times> int" where
  "trimVersions ve oldestSnapshot =
    (if length (ve_versions ve) \<le> 1 then (ve, 0)
     else case first_visible oldestSnapshot (ve_versions ve) of
         None \<Rightarrow> (ve, 0)
       | Some cutIdx \<Rightarrow>
           if cutIdx < length (ve_versions ve) - 1
           then let dropped = sum_list (map (int \<circ> length \<circ> snd) (drop (cutIdx + 1) (ve_versions ve)))
                in (\<lparr>ve_versions = take (cutIdx + 1) (ve_versions ve), ve_totalBytes = ve_totalBytes ve - dropped\<rparr>, dropped)
           else (ve, 0))"

definition mt_set :: "string \<Rightarrow> nat \<Rightarrow> buffer \<Rightarrow> nat \<Rightarrow> memtable \<Rightarrow> memtable" where
  "mt_set key txnId v oldestSnapshot m =
    (case bisect m key of
       (True, index) \<Rightarrow>
         let ve = snd (mt_entries m ! index);
             oldTotal = ve_totalBytes ve;
             ve1 = \<lparr>ve_versions = (txnId, v) # ve_versions ve, ve_totalBytes = ve_totalBytes ve + int (length v)\<rparr>
         in (case trimVersions ve1 oldestSnapshot of
               (ve2, dropped) \<Rightarrow>
                 \<lparr>mt_entries = (mt_entries m)[index := (key, ve2)],
                  mt_byteSize = mt_byteSize m - dropped + (ve_totalBytes ve2 - oldTotal)\<rparr>)
     | (False, index) \<Rightarrow>
         \<lparr>mt_entries = take index (mt_entries m) @
            (key, \<lparr>ve_versions = [(txnId, v)], ve_totalBytes = int (length v)\<rparr>) # drop index (mt_entries m),
          mt_byteSize = mt_byteSize m + (int (length key) + int (length v))\<rparr>)"

definition version_at :: "nat \<Rightarrow> (nat \<times> buffer) list \<Rightarrow> buffer option" where
  "version_at s vs = map_option (\<lambda>i. snd (vs ! i)) (first_visible s vs)"

definition mt_get :: "string \<Rightarrow> nat \<Rightarrow> memtable \<Rightarrow> buffer option" where
  "mt_get key snapshot m = (case bisect m key of (True, index) \<Rightarrow> version_at snapshot (ve_versions (snd (mt_entries m ! index)))
     | (False, index) \<Rightarrow> None)"

definition mt_has :: "string \<Rightarrow> memtable \<Rightarrow> bool" where
  "mt_has key m = fst (bisect m key)"

text \<open>\<open>iterSnapshot\<close>, between two keys.\<close>

fun iter_entries :: "nat \<Rightarrow> string \<Rightarrow> string \<Rightarrow> (string \<times> ventry) list \<Rightarrow> (string \<times> buffer) list" where
  "iter_entries snapshot fromKey toKey [] = []"
| "iter_entries snapshot fromKey toKey ((key, ve) # es) =
     (if key < fromKey then iter_entries snapshot fromKey toKey es
      else if key > toKey then []
      else (case version_at snapshot (ve_versions ve) of
              None \<Rightarrow> iter_entries snapshot fromKey toKey es
            | Some buf \<Rightarrow> (key, buf) # iter_entries snapshot fromKey toKey es))"

definition iterSnapshot :: "memtable \<Rightarrow> nat \<Rightarrow> string \<Rightarrow> string \<Rightarrow> (string \<times> buffer) list" where
  "iterSnapshot m snapshot fromKey toKey = iter_entries snapshot fromKey toKey (mt_entries m)"

definition newest_version :: "ventry \<Rightarrow> buffer" where
  "newest_version ve = snd (ve_versions ve ! 0)"

definition mt_toMap :: "memtable \<Rightarrow> (string, buffer) jsmap" where
  "mt_toMap m = foldl (\<lambda>t e. jm_set t (fst e) (newest_version (snd e))) [] (mt_entries m)"

subsection \<open>Keys of old versions\<close>

definition hex_char :: "nat \<Rightarrow> char" where
  "hex_char n = (if n < 10 then char_of (48 + n) else char_of (87 + n))"

fun to_hex :: "nat \<Rightarrow> string" where
  "to_hex n = (if n < 16 then [hex_char n] else to_hex (n div 16) @ [hex_char (n mod 16)])"

declare to_hex.simps [simp del]

definition hex_digit :: "char \<Rightarrow> nat" where
  "hex_digit c = (if (of_char c :: nat) < 58 then of_char c - 48 else of_char c - 87)"

definition of_hex :: "string \<Rightarrow> nat" where
  "of_hex s = foldl (\<lambda>n c. 16 * n + hex_digit c) 0 s"

definition padStart :: "nat \<Rightarrow> string \<Rightarrow> string" where
  "padStart n s = replicate (n - length s) (CHR ''0'') @ s"

definition VERSION_PREFIX :: string where
  "VERSION_PREFIX = CHR 0x00 # ''V''"

definition encodeVersionedKey :: "string \<Rightarrow> nat \<Rightarrow> string" where
  "encodeVersionedKey docId txnId = VERSION_PREFIX @ padStart 16 (to_hex txnId) @ CHR 0x00 # docId"

definition isVersionedKey :: "string \<Rightarrow> bool" where
  "isVersionedKey key = js_starts_with key VERSION_PREFIX"

definition decodeVersionedKey :: "string \<Rightarrow> string \<times> nat" where
  "decodeVersionedKey key = (drop 19 key, of_hex (take 16 (drop 2 key)))"

definition kv_cmp :: "string \<times> buffer \<Rightarrow> string \<times> buffer \<Rightarrow> int" where
  "kv_cmp a b = (if fst a < fst b then -1 else if fst a > fst b then 1 else 0)"

interpretation kv: key_comparator kv_cmp fst
  by unfold_locales (auto simp: kv_cmp_def)

text \<open>The entries whose key was not seen before.\<close>

fun first_seen :: "string set \<Rightarrow> (string \<times> buffer) list \<Rightarrow> (string \<times> buffer) list" where
  "first_seen seen [] = []"
| "first_seen seen (e # es) =
     (if fst e \<in> seen then first_seen seen es else e # first_seen (insert (fst e) seen) es)"

definition flush_entry :: "nat \<Rightarrow> string \<times> ventry \<Rightarrow> (string \<times> buffer) list" where
  "flush_entry oldestSnapshot e =
    map (\<lambda>v. (encodeVersionedKey (fst e) (fst v), snd v)) (filter (\<lambda>v. oldestSnapshot \<le> fst v) (ve_versions (snd e))) @
    [(fst e, newest_version (snd e))]"

definition toFlushEntries :: "nat \<Rightarrow> bool \<Rightarrow> memtable \<Rightarrow> (string \<times> buffer) list" where
  "toFlushEntries oldestSnapshot hasOpenSnapshots m =
    (if \<not> hasOpenSnapshots then map (\<lambda>e. (fst e, newest_version (snd e))) (mt_entries m)
     else first_seen {} (js_sort_by kv_cmp (concat (map (flush_entry oldestSnapshot) (mt_entries m)))))"

subsection \<open>What the operations do\<close>

definition mt_ok :: "memtable \<Rightarrow> bool" where
  "mt_ok m \<longleftrightarrow> sorted_wrt (<) (map fst (mt_entries m)) \<and> (\<forall>e \<in> set (mt_entries m). ve_versions (snd e) \<noteq> [])"

definition mt_versions :: "memtable \<Rightarrow> string \<Rightarrow> (nat \<times> buffer) list" where
  "mt_versions m key = (case map_of (mt_entries m) key of None \<Rightarrow> [] | Some ve \<Rightarrow> ve_versions ve)"

definition trimmed :: "nat \<Rightarrow> (nat \<times> buffer) list \<Rightarrow> (nat \<times> buffer) list" where
  "trimmed s vs = take (Suc (length (takeWhile (\<lambda>v. s < fst v) vs))) vs"

lemma bisect_loop_spec:
  assumes "sorted_wrt (<) (map fst es)" "0 \<le> lo" "lo \<le> hi + 1" "hi < int (length es)"
    and "\<forall>i < nat lo. fst (es ! i) < key" "\<forall>i. nat (hi + 1) \<le> i \<and> i < length es \<longrightarrow> key < fst (es ! i)"
  shows "case bisect_loop es key lo hi of
      (True, i) \<Rightarrow> i < length es \<and> fst (es ! i) = key
    | (False, i) \<Rightarrow> i \<le> length es \<and> (\<forall>j < i. fst (es ! j) < key) \<and> (\<forall>j. i \<le> j \<and> j < length es \<longrightarrow> key < fst (es ! j))"
  using assms
proof (induction es key lo hi rule: bisect_loop.induct)
  case (1 es key lo hi)
  have less: "i < j \<Longrightarrow> j < length es \<Longrightarrow> fst (es ! i) < fst (es ! j)" for i j
    using sorted_wrt_nth_less [OF "1.prems"(1), of i j] by simp
  show ?case
  proof (cases "hi < lo")
    case True
    then have "hi + 1 = lo" using "1.prems" by simp
    then show ?thesis using "1.prems" True by (subst bisect_loop.simps) auto
  next
    case False
    let ?m = "(lo + hi) div 2"
    have m: "lo \<le> ?m" "?m \<le> hi" "0 \<le> ?m" "nat ?m < length es" using False "1.prems" by linarith+
    consider (lt) "fst (es ! nat ?m) < key" | (gt) "key < fst (es ! nat ?m)" | (eq) "fst (es ! nat ?m) = key"
      by fastforce
    then show ?thesis
    proof cases
      case lt
      have "\<forall>i < nat (?m + 1). fst (es ! i) < key"
      proof (intro allI impI)
        fix i assume "i < nat (?m + 1)"
        then have "i = nat ?m \<or> i < nat ?m" using m(3) by linarith
        then show "fst (es ! i) < key" using lt less [of i "nat ?m"] m(4) by auto
      qed
      then have "case bisect_loop es key (?m + 1) hi of
          (True, i) \<Rightarrow> i < length es \<and> fst (es ! i) = key
        | (False, i) \<Rightarrow> i \<le> length es \<and> (\<forall>j < i. fst (es ! j) < key) \<and> (\<forall>j. i \<le> j \<and> j < length es \<longrightarrow> key < fst (es ! j))"
        using "1.IH"(1) [OF False refl lt] "1.prems" m by simp
      then show ?thesis using lt False by (subst bisect_loop.simps) simp
    next
      case gt
      have "\<forall>i. nat (?m - 1 + 1) \<le> i \<and> i < length es \<longrightarrow> key < fst (es ! i)"
      proof (intro allI impI)
        fix i assume "nat (?m - 1 + 1) \<le> i \<and> i < length es"
        then have "i = nat ?m \<or> nat ?m < i" "i < length es" by auto
        then show "key < fst (es ! i)" using gt less [of "nat ?m" i] by auto
      qed
      then have "case bisect_loop es key lo (?m - 1) of
          (True, i) \<Rightarrow> i < length es \<and> fst (es ! i) = key
        | (False, i) \<Rightarrow> i \<le> length es \<and> (\<forall>j < i. fst (es ! j) < key) \<and> (\<forall>j. i \<le> j \<and> j < length es \<longrightarrow> key < fst (es ! j))"
        using "1.IH"(2) [OF False refl less_not_sym [OF gt] gt] "1.prems" m by simp
      then show ?thesis using gt less_not_sym [OF gt] False by (subst bisect_loop.simps) (simp add: Let_def)
    next
      case eq
      then show ?thesis using False m by (subst bisect_loop.simps) simp
    qed
  qed
qed

lemma bisect_spec [consumes 1, case_names found absent]:
  assumes "mt_ok m"
  obtains (found) i where "bisect m key = (True, i)" "i < length (mt_entries m)" "fst (mt_entries m ! i) = key"
  | (absent) i where "bisect m key = (False, i)" "i \<le> length (mt_entries m)"
      "\<forall>e \<in> set (take i (mt_entries m)). fst e < key" "\<forall>e \<in> set (drop i (mt_entries m)). key < fst e"
proof -
  have s: "case bisect m key of
      (True, i) \<Rightarrow> i < length (mt_entries m) \<and> fst (mt_entries m ! i) = key
    | (False, i) \<Rightarrow> i \<le> length (mt_entries m) \<and> (\<forall>j < i. fst (mt_entries m ! j) < key) \<and>
        (\<forall>j. i \<le> j \<and> j < length (mt_entries m) \<longrightarrow> key < fst (mt_entries m ! j))"
    unfolding bisect_def by (rule bisect_loop_spec) (use assms in \<open>auto simp: mt_ok_def\<close>)
  obtain b i where b: "bisect m key = (b, i)" by fastforce
  show thesis
  proof (cases b)
    case True
    then show ?thesis using s b found by simp
  next
    case False
    have "fst e < key" if e: "e \<in> set (take i (mt_entries m))" for e
    proof -
      obtain j where "j < i" "e = mt_entries m ! j" using e by (auto simp: in_set_conv_nth)
      then show ?thesis using s b False by simp
    qed
    moreover have "key < fst e" if e: "e \<in> set (drop i (mt_entries m))" for e
    proof -
      obtain j where "j < length (mt_entries m) - i" "e = mt_entries m ! (i + j)"
        using e by (auto simp: in_set_conv_nth)
      then show ?thesis using s b False by simp
    qed
    ultimately show ?thesis using s b False absent by auto
  qed
qed

lemma first_visible_eq:
  "first_visible s vs = (let n = length (takeWhile (\<lambda>v. s < fst v) vs) in if n < length vs then Some n else None)"
  by (induction vs) (auto simp: Let_def not_less)

lemma trim_found:
  assumes "ve_versions ve \<noteq> []"
  shows "ve_versions (fst (trimVersions ve s)) = trimmed s (ve_versions ve)"
    "ve_totalBytes (fst (trimVersions ve s)) = ve_totalBytes ve - snd (trimVersions ve s)"
    "snd (trimVersions ve s) = sum_list (map (int \<circ> length \<circ> snd) (ve_versions ve)) -
       sum_list (map (int \<circ> length \<circ> snd) (trimmed s (ve_versions ve)))"
proof -
  let ?vs = "ve_versions ve" and ?n = "length (takeWhile (\<lambda>v. s < fst v) (ve_versions ve))"
  have sum: "sum_list (map (int \<circ> length \<circ> snd) ?vs) = sum_list (map (int \<circ> length \<circ> snd) (take k ?vs)) +
      sum_list (map (int \<circ> length \<circ> snd) (drop k ?vs))" for k
    by (metis append_take_drop_id map_append sum_list_append)
  have le: "?n \<le> length ?vs" by (rule length_takeWhile_le)
  have t: "trimVersions ve s = (if ?n < length ?vs - 1
      then (\<lparr>ve_versions = take (Suc ?n) ?vs,
             ve_totalBytes = ve_totalBytes ve - sum_list (map (int \<circ> length \<circ> snd) (drop (Suc ?n) ?vs))\<rparr>,
            sum_list (map (int \<circ> length \<circ> snd) (drop (Suc ?n) ?vs)))
      else (ve, 0))"
    using assms by (cases ?vs) (auto simp: trimVersions_def first_visible_eq Let_def)
  have all: "trimmed s ?vs = ?vs" if "\<not> ?n < length ?vs - 1"
    using that by (simp add: trimmed_def)
  show "ve_versions (fst (trimVersions ve s)) = trimmed s ?vs"
    using all by (auto simp: t trimmed_def)
  show "ve_totalBytes (fst (trimVersions ve s)) = ve_totalBytes ve - snd (trimVersions ve s)"
    by (simp add: t)
  show "snd (trimVersions ve s) = sum_list (map (int \<circ> length \<circ> snd) ?vs) -
       sum_list (map (int \<circ> length \<circ> snd) (trimmed s ?vs))"
    using all sum [of "Suc ?n"] by (auto simp: t trimmed_def)
qed

lemma trimmed_Cons_nonempty [simp]: "trimmed s (v # vs) \<noteq> []" "trimmed s [v] = [v]"
  by (simp_all add: trimmed_def)

lemma first_visible_trimmed: "t \<le> s \<Longrightarrow> first_visible s (trimmed t vs) = first_visible s vs"
proof (induction vs)
  case (Cons v vs)
  show ?case
  proof (cases "t < fst v")
    case True
    then have "trimmed t (v # vs) = v # trimmed t vs" by (simp add: trimmed_def)
    then show ?thesis using Cons by simp
  qed (use Cons.prems in \<open>simp add: trimmed_def\<close>)
qed (simp add: trimmed_def)

lemma first_visible_less: "first_visible s vs = Some i \<Longrightarrow> i < length vs"
  by (induction vs arbitrary: i) (auto split: if_splits)

lemma version_at_trimmed: "t \<le> s \<Longrightarrow> version_at s (trimmed t vs) = version_at s vs"
proof (cases "first_visible s vs")
  case (Some i)
  assume t: "t \<le> s"
  then have f: "first_visible s (trimmed t vs) = Some i" using Some by (simp add: first_visible_trimmed)
  have "i < length (trimmed t vs)" using first_visible_less [OF f] .
  then have "trimmed t vs ! i = vs ! i" by (simp add: trimmed_def)
  then show ?thesis using f Some by (simp add: version_at_def)
qed (simp add: version_at_def first_visible_trimmed)

lemma version_at_Cons [simp]:
  "version_at s [] = None"
  "version_at s (v # vs) = (if fst v \<le> s then Some (snd v) else version_at s vs)"
  by (simp_all add: version_at_def option.map_comp comp_def)

lemma mt_keys_distinct: "mt_ok m \<Longrightarrow> distinct (map fst (mt_entries m))"
  using strict_sorted_iff by (auto simp: mt_ok_def)

lemma mt_found: "mt_ok m \<Longrightarrow> i < length (mt_entries m) \<Longrightarrow> fst (mt_entries m ! i) = key \<Longrightarrow>
    map_of (mt_entries m) key = Some (snd (mt_entries m ! i))"
  using map_of_is_SomeI [OF mt_keys_distinct, of m key "snd (mt_entries m ! i)"]
    nth_mem [of i "mt_entries m"] by (metis prod.collapse)

lemma mt_absent: "\<forall>e \<in> set (take i es). fst e < (key :: string) \<Longrightarrow> \<forall>e \<in> set (drop i es). key < fst e \<Longrightarrow> map_of es key = None"
proof -
  assume a: "\<forall>e \<in> set (take i es). fst e < (key :: string)" "\<forall>e \<in> set (drop i es). key < fst e"
  have "\<forall>e \<in> set (take i es) \<union> set (drop i es). fst e \<noteq> key"
  proof
    fix e assume "e \<in> set (take i es) \<union> set (drop i es)"
    then have "fst e < key \<or> key < fst e" using a by blast
    then show "fst e \<noteq> key" by auto
  qed
  then have "\<forall>e \<in> set es. fst e \<noteq> key" by (metis append_take_drop_id set_append)
  then show ?thesis unfolding map_of_eq_None_iff by blast
qed

lemma mt_get_eq:
  assumes "mt_ok m"
  shows "mt_get key s m = version_at s (mt_versions m key)"
  using assms
proof (cases rule: bisect_spec [where key = key])
  case (found i)
  then show ?thesis using mt_found [OF assms, of i key] by (simp add: mt_get_def mt_versions_def)
next
  case (absent i)
  then show ?thesis using mt_absent [of i "mt_entries m" key] by (simp add: mt_get_def mt_versions_def)
qed

lemma mt_has_eq:
  assumes "mt_ok m"
  shows "mt_has key m \<longleftrightarrow> mt_versions m key \<noteq> []"
  using assms
proof (cases rule: bisect_spec [where key = key])
  case (found i)
  then show ?thesis using mt_found [OF assms, of i key] assms nth_mem [of i "mt_entries m"]
    by (simp add: mt_has_def mt_versions_def mt_ok_def)
next
  case (absent i)
  then show ?thesis using mt_absent [of i "mt_entries m" key] by (simp add: mt_has_def mt_versions_def)
qed

lemma new_memtable_ok [simp]: "mt_ok new_memtable" "mt_versions new_memtable k = []"
  by (simp_all add: mt_ok_def new_memtable_def mt_versions_def)

lemma map_of_insert_at:
  "map_of es key = None \<Longrightarrow> map_of (take i es @ (key, x) # drop i es) = (map_of es)(key \<mapsto> x)"
proof -
  assume n: "map_of es key = None"
  have "map_of es k = map_of (take i es @ drop i es) k" for k by simp
  then have e: "map_of es k = (map_of (drop i es) ++ map_of (take i es)) k" for k by (simp only: map_of_append)
  then have "map_of (take i es) key = None" using n by (metis map_add_None)
  then show ?thesis by (auto simp: fun_eq_iff e map_add_def split: option.splits)
qed

lemma map_of_overwrite:
  "distinct (map fst es) \<Longrightarrow> i < length es \<Longrightarrow> fst (es ! i) = key \<Longrightarrow>
    map_of (es[i := (key, x)]) = (map_of es)(key \<mapsto> x)"
proof (induction es arbitrary: i)
  case (Cons e es)
  show ?case
  proof (cases i)
    case 0
    then show ?thesis using Cons.prems(3) by (simp add: fun_eq_iff)
  next
    case (Suc j)
    then have "key \<in> fst ` set es" using Cons.prems(2,3) by auto
    then have "fst e \<noteq> key" using Cons.prems(1) by auto
    then show ?thesis using Suc Cons by (cases e) (auto simp: fun_upd_twist)
  qed
qed simp

text \<open>What a write does: the invariant is kept and the versions of the key, and of no other, change.\<close>

lemma mt_set_ok:
  assumes ok: "mt_ok m"
  shows "mt_ok (mt_set key t v s m) \<and>
    mt_versions (mt_set key t v s m) = (mt_versions m)(key := trimmed s ((t, v) # mt_versions m key))"
  using ok
proof (cases rule: bisect_spec [where key = key])
  case (found i)
  let ?ve = "snd (mt_entries m ! i)"
  define ve1 where "ve1 = \<lparr>ve_versions = (t, v) # ve_versions ?ve, ve_totalBytes = ve_totalBytes ?ve + int (length v)\<rparr>"
  have e: "mt_entries (mt_set key t v s m) = (mt_entries m)[i := (key, fst (trimVersions ve1 s))]"
    using found(1) by (simp add: mt_set_def ve1_def Let_def case_prod_unfold)
  have old: "map_of (mt_entries m) key = Some ?ve" using mt_found [OF ok found(2,3)] .
  have keys: "map fst ((mt_entries m)[i := (key, x)]) = map fst (mt_entries m)" for x
    using found(2,3) by (metis fst_conv list_update_id map_update)
  have new: "ve_versions (fst (trimVersions ve1 s)) = trimmed s ((t, v) # ve_versions ?ve)"
    using trim_found(1) [of ve1 s] by (simp add: ve1_def)
  have "mt_ok (mt_set key t v s m)"
    using ok new unfolding mt_ok_def e keys by (auto dest!: set_update_subset_insert [THEN subsetD])
  moreover have "mt_versions (mt_set key t v s m) k =
      (if k = key then trimmed s ((t, v) # mt_versions m key) else mt_versions m k)" for k
    using map_of_overwrite [OF mt_keys_distinct [OF ok] found(2,3)] old new by (simp add: mt_versions_def e)
  ultimately show ?thesis by auto
next
  case (absent i)
  let ?es = "mt_entries m"
  have e: "mt_entries (mt_set key t v s m) = take i ?es @ (key, \<lparr>ve_versions = [(t, v)], ve_totalBytes = int (length v)\<rparr>) # drop i ?es"
    using absent(1) by (simp add: mt_set_def)
  have none: "map_of ?es key = None" using absent(3,4) by (rule mt_absent)
  have so: "sorted_wrt (<) (map fst (take i ?es) @ map fst (drop i ?es))"
    using ok unfolding mt_ok_def map_append [symmetric] by simp
  have "mt_ok (mt_set key t v s m)"
    using ok absent(3,4) so unfolding mt_ok_def e
    by (auto simp: sorted_wrt_append dest: in_set_takeD in_set_dropD)
  moreover have "mt_versions (mt_set key t v s m) = (mt_versions m)(key := trimmed s ((t, v) # mt_versions m key))"
    unfolding mt_versions_def e map_of_insert_at [OF none] using none by (auto simp: fun_eq_iff)
  ultimately show ?thesis ..
qed

lemmas mt_set_keeps [simp] = mt_set_ok [THEN conjunct1]
lemmas mt_set_versions [simp] = mt_set_ok [THEN conjunct2]

text \<open>A read after a write, for every observer that is not older than the oldest open snapshot.\<close>

lemma mt_get_set:
  assumes "mt_ok m" and "s' \<le> s"
  shows "mt_get k s (mt_set key t v s' m) = (if k = key \<and> t \<le> s then Some v else mt_get k s m)"
  using assms by (simp add: mt_get_eq version_at_trimmed)

text \<open>A sequence of writes, each with its transaction and the oldest open snapshot at that time.\<close>

definition mt_writes :: "(string \<times> nat \<times> buffer \<times> nat) list \<Rightarrow> memtable \<Rightarrow> memtable" where
  "mt_writes ws m = foldl (\<lambda>m (key, t, v, s). mt_set key t v s m) m ws"

lemma mt_writes_ok: "mt_ok m \<Longrightarrow> mt_ok (mt_writes ws m)"
  by (induction ws arbitrary: m) (auto simp: mt_writes_def)

lemma mt_writes_stable:
  "mt_ok m \<Longrightarrow> \<forall>(key, t, v, o') \<in> set ws. o' \<le> s \<and> s < t \<Longrightarrow> mt_get k s (mt_writes ws m) = mt_get k s m"
proof (induction ws arbitrary: m)
  case (Cons w ws)
  obtain key t v o' where w: "w = (key, t, v, o')" by (cases w)
  then have "mt_get k s (mt_writes ws (mt_set key t v o' m)) = mt_get k s (mt_set key t v o' m)"
    using Cons by auto
  then show ?case using Cons.prems w by (simp add: mt_writes_def mt_get_set)
qed (simp add: mt_writes_def)

lemma mt_get_newest: "mt_ok m \<Longrightarrow> map_of (mt_entries m) key = Some ve \<Longrightarrow> \<forall>v \<in> set (ve_versions ve). fst v \<le> s \<Longrightarrow>
    mt_get key s m = Some (newest_version ve)"
proof -
  assume a: "mt_ok m" "map_of (mt_entries m) key = Some ve" "\<forall>v \<in> set (ve_versions ve). fst v \<le> s"
  then have "ve_versions ve \<noteq> []" unfolding mt_ok_def by (metis map_of_SomeD snd_conv)
  then show ?thesis using a by (cases "ve_versions ve") (simp_all add: mt_get_eq mt_versions_def newest_version_def)
qed

subsection \<open>The byte counter\<close>

text \<open>The size of a memtable by its own measure: its keys and the versions it holds.\<close>

definition mt_held :: "memtable \<Rightarrow> int" where
  "mt_held m = sum_list (map (\<lambda>e. int (length (fst e)) + sum_list (map (int \<circ> length \<circ> snd) (ve_versions (snd e)))) (mt_entries m))"

definition counted :: "memtable \<Rightarrow> bool" where
  "counted m \<longleftrightarrow> (\<forall>e \<in> set (mt_entries m). ve_totalBytes (snd e) = sum_list (map (int \<circ> length \<circ> snd) (ve_versions (snd e))))"

definition bytes_of :: "(nat \<times> buffer) list \<Rightarrow> int" where
  "bytes_of vs = sum_list (map (int \<circ> length \<circ> snd) vs)"

text \<open>An overwrite subtracts the versions it drops twice.\<close>

lemma mt_set_bytes:
  assumes ok: "mt_ok m" and c: "counted m"
  shows "mt_byteSize (mt_set key t v s m) = mt_byteSize m +
      (if mt_versions m key = [] then int (length key) + int (length v)
       else int (length v) - 2 * (bytes_of ((t, v) # mt_versions m key) - bytes_of (trimmed s ((t, v) # mt_versions m key)))) \<and>
    counted (mt_set key t v s m)"
  using ok
proof (cases rule: bisect_spec [where key = key])
  case (found i)
  let ?ve = "snd (mt_entries m ! i)"
  define ve1 where "ve1 = \<lparr>ve_versions = (t, v) # ve_versions ?ve, ve_totalBytes = ve_totalBytes ?ve + int (length v)\<rparr>"
  have old: "mt_versions m key = ve_versions ?ve" "ve_versions ?ve \<noteq> []" "ve_totalBytes ?ve = bytes_of (ve_versions ?ve)"
    using mt_found [OF ok found(2,3)] ok c nth_mem [OF found(2)] by (simp_all add: mt_versions_def mt_ok_def counted_def bytes_of_def)
  have e: "mt_set key t v s m = \<lparr>mt_entries = (mt_entries m)[i := (key, fst (trimVersions ve1 s))],
      mt_byteSize = mt_byteSize m - snd (trimVersions ve1 s) + (ve_totalBytes (fst (trimVersions ve1 s)) - ve_totalBytes ?ve)\<rparr>"
    using found(1) by (simp add: mt_set_def ve1_def Let_def case_prod_unfold)
  have d: "ve_versions (fst (trimVersions ve1 s)) = trimmed s ((t, v) # ve_versions ?ve)"
    "ve_totalBytes (fst (trimVersions ve1 s)) = bytes_of (trimmed s ((t, v) # ve_versions ?ve))"
    "snd (trimVersions ve1 s) = bytes_of ((t, v) # ve_versions ?ve) - bytes_of (trimmed s ((t, v) # ve_versions ?ve))"
    using trim_found [of ve1 s] old(3) by (simp_all add: ve1_def bytes_of_def)
  have "counted (mt_set key t v s m)"
    using c d unfolding counted_def e by (auto simp: bytes_of_def dest!: set_update_subset_insert [THEN subsetD])
  then show ?thesis using d old by (simp add: e bytes_of_def)
next
  case (absent i)
  have "mt_versions m key = []" using mt_absent [OF absent(3,4)] by (simp add: mt_versions_def)
  moreover have "counted (mt_set key t v s m)"
    using c absent(1) by (auto simp: mt_set_def counted_def dest: in_set_takeD in_set_dropD)
  ultimately show ?thesis using absent(1) by (simp add: mt_set_def)
qed

lemma new_memtable_counted [simp]: "counted new_memtable"
  by (simp add: counted_def new_memtable_def)

text \<open>
  Overwriting one key with documents of one size, with no snapshot open: the memtable keeps one version
  while its counter falls by a document each time.
\<close>

lemma trimmed_no_snapshot: "t \<le> s \<Longrightarrow> trimmed s ((t, v) # vs) = [(t, v)]"
  by (simp add: trimmed_def)

lemma overwrite_drift:
  assumes "\<forall>(t, v) \<in> set ws. t \<le> NO_SNAPSHOT \<and> length v = n" and "mt_ok m" "counted m"
    and "mt_versions m key = [(t0, v0)]" and "length v0 = n"
  shows "mt_byteSize (mt_writes (map (\<lambda>(t, v). (key, t, v, NO_SNAPSHOT)) ws) m) = mt_byteSize m - int (length ws) * int n \<and>
    (\<forall>k. length (mt_versions (mt_writes (map (\<lambda>(t, v). (key, t, v, NO_SNAPSHOT)) ws) m) k) = length (mt_versions m k))"
  using assms
proof (induction ws arbitrary: m t0 v0)
  case (Cons w ws)
  obtain t v where w: "w = (t, v)" by (cases w)
  let ?m = "mt_set key t v NO_SNAPSHOT m"
  have tv: "t \<le> NO_SNAPSHOT" "length v = n" using Cons.prems(1) w by auto
  have b: "mt_byteSize ?m = mt_byteSize m - int n" "counted ?m"
    using mt_set_bytes [OF Cons.prems(2,3), of key t v NO_SNAPSHOT] Cons.prems(4,5) tv
    by (simp_all add: trimmed_no_snapshot bytes_of_def)
  have v: "mt_versions ?m = (mt_versions m)(key := [(t, v)])"
    using Cons.prems(2) tv by (simp add: trimmed_no_snapshot)
  have "mt_byteSize (mt_writes (map (\<lambda>(t, v). (key, t, v, NO_SNAPSHOT)) ws) ?m) = mt_byteSize ?m - int (length ws) * int n \<and>
    (\<forall>k. length (mt_versions (mt_writes (map (\<lambda>(t, v). (key, t, v, NO_SNAPSHOT)) ws) ?m) k) = length (mt_versions ?m k))"
    using Cons.IH [of ?m t v] Cons.prems tv b v by simp
  then show ?case using b v Cons.prems(4) w by (simp add: mt_writes_def algebra_simps)
qed (simp add: mt_writes_def)

subsection \<open>Versioned keys\<close>

lemma hex_val_char [simp]: "n < 16 \<Longrightarrow> hex_digit (hex_char n) = n"
  by (auto simp: hex_digit_def hex_char_def)

lemma of_hex_append: "of_hex (s @ [c]) = 16 * of_hex s + hex_digit c"
  by (simp add: of_hex_def)

lemma of_hex_to_hex [simp]: "of_hex (to_hex n) = n"
proof (induction n rule: to_hex.induct)
  case (1 n)
  show ?case
  proof (cases "n < 16")
    case True
    then show ?thesis by (subst to_hex.simps) (simp add: of_hex_def)
  next
    case False
    then have "to_hex n = to_hex (n div 16) @ [hex_char (n mod 16)]" by (subst to_hex.simps) simp
    then show ?thesis using False 1 by (simp add: of_hex_append)
  qed
qed

lemma of_hex_pad: "of_hex (replicate k (CHR ''0'') @ s) = of_hex s"
  by (induction k) (simp_all add: of_hex_def hex_digit_def)

lemma length_to_hex: "n < 16 ^ Suc k \<Longrightarrow> length (to_hex n) \<le> Suc k"
proof (induction k arbitrary: n)
  case 0
  then show ?case by (subst to_hex.simps) simp
next
  case (Suc k)
  then have "n div 16 < 16 ^ Suc k" by (simp add: less_mult_imp_div_less mult.commute)
  from Suc.IH [OF this] show ?case by (subst to_hex.simps) simp
qed

lemma decode_encode_key:
  assumes "txnId < 2 ^ 64"
  shows "decodeVersionedKey (encodeVersionedKey docId txnId) = (docId, txnId)"
proof -
  have "txnId < 16 ^ Suc 15" using assms by simp
  from length_to_hex [OF this] have l: "length (padStart 16 (to_hex txnId)) = 16" by (simp add: padStart_def)
  have "take 16 (drop 2 (encodeVersionedKey docId txnId)) = padStart 16 (to_hex txnId)"
    "drop 19 (encodeVersionedKey docId txnId) = docId"
    by (simp_all add: encodeVersionedKey_def VERSION_PREFIX_def l)
  then show ?thesis by (simp add: decodeVersionedKey_def padStart_def of_hex_pad)
qed

lemma versioned_encode [simp]: "isVersionedKey (encodeVersionedKey docId txnId)"
  by (simp add: isVersionedKey_def encodeVersionedKey_def)

end
