(* ===== verification/NovaSstable.thy ===== *)
theory NovaSstable
  imports NovaCache NovaMemtable
begin

text \<open>
  The sorted table files of NovaDB, \<open>src/database/index.ts\<close>: writing one (\<open>writeSSTableFile\<close>), reading its
  metadata back, looking a document up through the sparse index, and iterating over it.  Packing
  (\<open>msgpackr\<close>), compression (\<open>zlib\<close>), MurmurHash and the logarithms that size a Bloom filter are the fields
  of \<open>nova_lib\<close>, with their laws in \<open>lib_ok\<close>.  The block cache is left out here: files never change, so a
  cached block is the one on disk.
\<close>

record nova_doc =
  doc_id :: string
  doc_deleted :: bool
  doc_txnId :: "nat option"
  doc_lsn :: "nat option"
  doc_fields :: "(string \<times> jval) list"

record nova_lib =
  nl_pack :: "nova_doc \<Rightarrow> buffer"
  nl_unpack :: "buffer \<Rightarrow> nova_doc"
  nl_packIndex :: "(string \<times> nat) list \<Rightarrow> buffer"
  nl_unpackIndex :: "buffer \<Rightarrow> (string \<times> nat) list"
  nl_deflate :: "buffer \<Rightarrow> buffer"
  nl_inflate :: "buffer \<Rightarrow> buffer"
  nl_hash32 :: "string \<Rightarrow> 32 word \<Rightarrow> 32 word"
  nl_bloomSize :: "nat \<Rightarrow> nat"
  nl_hashCount :: "nat \<Rightarrow> nat"

definition lib_ok :: "nova_lib \<Rightarrow> bool" where
  "lib_ok lib \<longleftrightarrow> (\<forall>d. nl_unpack lib (nl_pack lib d) = d) \<and>
     (\<forall>i. nl_unpackIndex lib (nl_packIndex lib i) = i \<and> nl_packIndex lib i \<noteq> []) \<and>
     (\<forall>b. nl_inflate lib (nl_deflate lib b) = b) \<and> (\<forall>n. 0 < nl_bloomSize lib n)"

record nova_config =
  cf_memtableLimitBytes :: int
  cf_blockSize :: nat
  cf_l0CompactionThreshold :: nat
  cf_maxImmutableMemtables :: nat
  cf_blockCompression :: bool
  cf_numLevels :: nat
  cf_levelSizeMultiplier :: nat
  cf_l1MaxBytes :: nat
  cf_targetFileSizeBytes :: nat

record sst_meta =
  sm_id :: nat
  sm_level :: nat
  sm_index :: "(string \<times> nat) list"
  sm_bloom :: bloom
  sm_minKey :: string
  sm_maxKey :: string
  sm_keyCount :: nat
  sm_sizeBytes :: nat

subsection \<open>Texts as bytes\<close>

definition utf8_bytes :: "string \<Rightarrow> buffer" where
  "utf8_bytes s = map word_of_nat (utf8 s)"

text \<open>\<open>toString('utf-8')\<close>; bytes that no text of the model encodes to are \<open>None\<close>.\<close>

fun utf8_text :: "buffer \<Rightarrow> string option" where
  "utf8_text [] = Some []"
| "utf8_text (b # bs) =
     (if unat b < 128 then map_option (Cons (char_of (unat b))) (utf8_text bs)
      else case bs of [] \<Rightarrow> None
        | c # cs \<Rightarrow>
            if (unat b = 194 \<or> unat b = 195) \<and> 128 \<le> unat c \<and> unat c < 192
            then map_option (Cons (char_of (64 * (unat b - 192) + (unat c - 128)))) (utf8_text cs) else None)"

lemma unat_byte: "n < 256 \<Longrightarrow> unat (word_of_nat n :: byte) = n"
  by (simp add: unat_of_nat)

lemma utf8_text_bytes [simp]: "utf8_text (utf8_bytes s) = Some s"
proof (induction s)
  case (Cons c s)
  have c: "(of_char c :: nat) < 256" by (rule nat_of_char_less_256)
  show ?case
  proof (cases "(of_char c :: nat) < 128")
    case True
    then show ?thesis using Cons by (simp add: utf8_bytes_def utf8_char_def unat_of_nat)
  next
    case False
    have "2 \<le> (of_char c :: nat) div 64" "(of_char c :: nat) div 64 < 4" using False c by linarith+
    then have d: "of_char c div 64 = (2 :: nat) \<or> of_char c div 64 = (3 :: nat)" by linarith
    have b: "unat (word_of_nat (192 + of_char c div 64) :: byte) = 192 + of_char c div 64"
      "unat (word_of_nat (128 + of_char c mod 64) :: byte) = 128 + of_char c mod 64"
    proof -
      have "192 + of_char c div 64 < (256 :: nat)" "128 + of_char c mod 64 < (256 :: nat)"
        using d pos_mod_bound [of 64 "of_char c"] by (auto intro: less_le_trans [OF add_strict_left_mono [OF mod_less_divisor]])
      then show "unat (word_of_nat (192 + of_char c div 64) :: byte) = 192 + of_char c div 64"
        "unat (word_of_nat (128 + of_char c mod 64) :: byte) = 128 + of_char c mod 64"
        by (simp_all only: unat_byte)
    qed
    have "64 * (of_char c div 64) + of_char c mod 64 = (of_char c :: nat)" by simp
    then show ?thesis using Cons False d b by (auto simp: utf8_bytes_def utf8_char_def Let_def)
  qed
qed (simp add: utf8_bytes_def)

subsection \<open>Records\<close>

definition RECORD_HEADER_SIZE :: nat where
  "RECORD_HEADER_SIZE = 11"

definition stored_doc :: "nova_lib \<Rightarrow> bool \<Rightarrow> buffer \<Rightarrow> buffer \<times> nat" where
  "stored_doc lib compress raw =
    (if compress \<and> length (nl_deflate lib raw) < length raw then (nl_deflate lib raw, 1) else (raw, 0))"

definition record_bytes :: "nova_lib \<Rightarrow> bool \<Rightarrow> string \<times> buffer \<Rightarrow> buffer" where
  "record_bytes lib compress kv =
    (case stored_doc lib compress (snd kv) of (docBuf, flags) \<Rightarrow>
       be 2 (length (utf8_bytes (fst kv))) @ be 4 (length docBuf) @ be 4 (crc32c (utf8_bytes (fst kv) @ snd kv)) @
       be 1 flags @ utf8_bytes (fst kv) @ docBuf)"

definition record_fits :: "nova_lib \<Rightarrow> bool \<Rightarrow> string \<times> buffer \<Rightarrow> bool" where
  "record_fits lib compress kv \<longleftrightarrow> length (utf8_bytes (fst kv)) < 256 ^ 2 \<and>
     length (fst (stored_doc lib compress (snd kv))) < 256 ^ 4"

record sst_record =
  sr_key :: buffer
  sr_doc :: buffer
  sr_crc :: nat
  sr_flags :: nat

function sst_scan :: "buffer \<Rightarrow> sst_record list" where
  "sst_scan b =
    (if length b < RECORD_HEADER_SIZE then []
     else let keyLen = un_be (take 2 b); docLen = un_be (take 4 (drop 2 b)); body = drop RECORD_HEADER_SIZE b
          in if length body < keyLen + docLen then []
             else \<lparr>sr_key = take keyLen body, sr_doc = take docLen (drop keyLen body),
                    sr_crc = un_be (take 4 (drop 6 b)), sr_flags = un_be (take 1 (drop 10 b))\<rparr> #
                  sst_scan (drop (keyLen + docLen) body))"
  by pat_completeness auto
termination sst_scan
  by (relation "measure length") (auto simp: RECORD_HEADER_SIZE_def)

declare sst_scan.simps [simp del]

definition raw_of :: "nova_lib \<Rightarrow> sst_record \<Rightarrow> buffer" where
  "raw_of lib r = (if odd (sr_flags r) then nl_inflate lib (sr_doc r) else sr_doc r)"

definition record_of :: "nova_lib \<Rightarrow> bool \<Rightarrow> string \<times> buffer \<Rightarrow> sst_record" where
  "record_of lib compress kv = \<lparr>sr_key = utf8_bytes (fst kv), sr_doc = fst (stored_doc lib compress (snd kv)),
     sr_crc = crc32c (utf8_bytes (fst kv) @ snd kv), sr_flags = snd (stored_doc lib compress (snd kv))\<rparr>"

lemma raw_of_record [simp]: "lib_ok lib \<Longrightarrow> raw_of lib (record_of lib compress kv) = snd kv"
  by (simp add: raw_of_def record_of_def stored_doc_def lib_ok_def)

lemma length_record_bytes: "RECORD_HEADER_SIZE \<le> length (record_bytes lib compress kv)"
  by (simp add: record_bytes_def case_prod_unfold RECORD_HEADER_SIZE_def)

lemma sst_scan_step:
  assumes "RECORD_HEADER_SIZE \<le> length b" and "un_be (take 2 b) = k" and "un_be (take 4 (drop 2 b)) = d"
    and "un_be (take 4 (drop 6 b)) = c" and "un_be (take 1 (drop 10 b)) = f" and "drop RECORD_HEADER_SIZE b = body"
  shows "sst_scan b = (if length body < k + d then []
    else \<lparr>sr_key = take k body, sr_doc = take d (drop k body), sr_crc = c, sr_flags = f\<rparr> # sst_scan (drop (k + d) body))"
  using assms by (subst sst_scan.simps) (simp add: Let_def)

lemma sst_scan_record:
  assumes "record_fits lib compress kv"
  shows "sst_scan (record_bytes lib compress kv @ r) = record_of lib compress kv # sst_scan r"
proof -
  obtain docBuf flags where s: "stored_doc lib compress (snd kv) = (docBuf, flags)" by fastforce
  then have f: "flags < 256 ^ 1" by (auto simp: stored_doc_def split: if_splits)
  let ?b = "record_bytes lib compress kv @ r" and ?k = "utf8_bytes (fst kv)"
  have cut: "take 2 ?b = be 2 (length ?k)" "take 4 (drop 2 ?b) = be 4 (length docBuf)"
    "take 4 (drop 6 ?b) = be 4 (crc32c (?k @ snd kv))" "take 1 (drop 10 ?b) = be 1 flags"
    and body: "drop RECORD_HEADER_SIZE ?b = ?k @ docBuf @ r"
    by (simp_all add: record_bytes_def s RECORD_HEADER_SIZE_def del: be.simps)
  have "un_be (take 2 ?b) = length ?k" "un_be (take 4 (drop 2 ?b)) = length docBuf"
    "un_be (take 4 (drop 6 ?b)) = crc32c (?k @ snd kv)" "un_be (take 1 (drop 10 ?b)) = flags"
    using assms s f crc32c_range [of "?k @ snd kv"] unfolding record_fits_def cut by (simp_all del: be.simps power_one_right)
  from sst_scan_step [OF _ this body] show ?thesis
    using length_record_bytes [of lib compress kv] by (simp add: record_of_def s)
qed

lemma sst_scan_Nil [simp]: "sst_scan [] = []"
  by (subst sst_scan.simps) (simp add: RECORD_HEADER_SIZE_def)

lemma sst_scan_all:
  "list_all (record_fits lib compress) kvs \<Longrightarrow>
    sst_scan (concat (map (record_bytes lib compress) kvs)) = map (record_of lib compress) kvs"
  by (induction kvs) (simp_all add: sst_scan_record)

subsection \<open>Writing a file\<close>

definition FOOTER_SIZE :: nat where
  "FOOTER_SIZE = 32"

definition FOOTER_MAGIC :: nat where
  "FOOTER_MAGIC = 0xDB42"

definition FOOTER_VERSION :: nat where
  "FOOTER_VERSION = 6"

text \<open>The sparse index: an entry whenever a block is full, the first at the first record.\<close>

fun sparse_index :: "nova_lib \<Rightarrow> nova_config \<Rightarrow> nat \<Rightarrow> int \<Rightarrow> (string \<times> buffer) list \<Rightarrow> (string \<times> nat) list" where
  "sparse_index lib cf currentOffset lastBlockBoundary [] = []"
| "sparse_index lib cf currentOffset lastBlockBoundary (kv # kvs) =
     (let n = length (record_bytes lib (cf_blockCompression cf) kv)
      in if int currentOffset - lastBlockBoundary \<ge> int (cf_blockSize cf)
         then (fst kv, currentOffset) # sparse_index lib cf (currentOffset + n) (int currentOffset) kvs
         else sparse_index lib cf (currentOffset + n) lastBlockBoundary kvs)"

definition file_index :: "nova_lib \<Rightarrow> nova_config \<Rightarrow> (string \<times> buffer) list \<Rightarrow> (string \<times> nat) list" where
  "file_index lib cf kvs = sparse_index lib cf 0 (- int (cf_blockSize cf)) kvs"

definition real_key :: "string \<Rightarrow> string" where
  "real_key key = (if isVersionedKey key then fst (decodeVersionedKey key) else key)"

definition add_keys :: "nova_lib \<Rightarrow> bloom \<Rightarrow> (string \<times> buffer) list \<Rightarrow> bloom" where
  "add_keys lib bl kvs = foldl (\<lambda>bl kv. bloom_add (nl_hash32 lib) bl (real_key (fst kv))) bl kvs"

definition trailer :: "nat \<Rightarrow> nat \<Rightarrow> bloom \<Rightarrow> nat \<Rightarrow> buffer" where
  "trailer indexOffset bloomOffset bl keyCount =
    be 8 indexOffset @ be 8 bloomOffset @ be 4 (bl_size bl) @ be 2 (bl_hashCount bl) @ be 2 FOOTER_MAGIC @
    be 4 FOOTER_VERSION @ be 4 keyCount"

definition file_data :: "nova_lib \<Rightarrow> nova_config \<Rightarrow> (string \<times> buffer) list \<Rightarrow> buffer" where
  "file_data lib cf kvs = concat (map (record_bytes lib (cf_blockCompression cf)) kvs)"

definition file_bytes :: "nova_lib \<Rightarrow> nova_config \<Rightarrow> bloom \<Rightarrow> (string \<times> buffer) list \<Rightarrow> buffer" where
  "file_bytes lib cf bl kvs =
    (let data = file_data lib cf kvs; index = nl_packIndex lib (file_index lib cf kvs)
     in data @ index @ bl_bitArray bl @ trailer (length data) (length data + length index) bl (length kvs))"

definition file_fits :: "nova_lib \<Rightarrow> nova_config \<Rightarrow> bloom \<Rightarrow> (string \<times> buffer) list \<Rightarrow> bool" where
  "file_fits lib cf bl kvs \<longleftrightarrow> list_all (record_fits lib (cf_blockCompression cf)) kvs \<and>
     length (file_bytes lib cf bl kvs) < 256 ^ 8 \<and> bl_size bl < 256 ^ 4 \<and> bl_hashCount bl < 256 ^ 2 \<and>
     length kvs < 256 ^ 4"

definition sorted_table :: "(string, buffer) jsmap \<Rightarrow> (string \<times> buffer) list" where
  "sorted_table table = map (\<lambda>k. (k, the (jm_get table k))) (sort (jm_keys table))"

definition table_bloom :: "nova_lib \<Rightarrow> (string \<times> buffer) list \<Rightarrow> bloom" where
  "table_bloom lib kvs =
    (let n = max (length (filter (\<lambda>kv. \<not> isVersionedKey (fst kv)) kvs)) 1
     in add_keys lib (new_bloom (nl_bloomSize lib n) (nl_hashCount lib n)) kvs)"

text \<open>The bytes of the file and the metadata kept in memory, or the error of a number that does not fit.\<close>

definition writeSSTableFile ::
    "nova_lib \<Rightarrow> nova_config \<Rightarrow> (string, buffer) jsmap \<Rightarrow> nat \<Rightarrow> nat \<Rightarrow> nova_error + buffer \<times> sst_meta" where
  "writeSSTableFile lib cf table sstableId level =
    (let kvs = sorted_table table; bl = table_bloom lib kvs
     in if \<not> file_fits lib cf bl kvs then Inl OutOfRange
        else Inr (file_bytes lib cf bl kvs,
          \<lparr>sm_id = sstableId, sm_level = level, sm_index = file_index lib cf kvs, sm_bloom = bl,
           sm_minKey = (if kvs = [] then [] else fst (hd kvs)), sm_maxKey = (if kvs = [] then [] else fst (last kvs)),
           sm_keyCount = length kvs, sm_sizeBytes = length (file_bytes lib cf bl kvs)\<rparr>))"

subsection \<open>Reading a file\<close>

definition footer :: "buffer \<Rightarrow> buffer" where
  "footer file = drop (length file - FOOTER_SIZE) file"

definition index_offset :: "buffer \<Rightarrow> nat" where
  "index_offset file = un_be (take 8 (footer file))"

text \<open>The key range of a file read back comes from its sparse index.\<close>

definition readSSTableMetadata :: "nova_lib \<Rightarrow> buffer \<Rightarrow> nat \<Rightarrow> nat \<Rightarrow> nova_error + sst_meta" where
  "readSSTableMetadata lib file sstableId level =
    (let f = footer file; indexOffset = index_offset file; bloomOffset = un_be (take 8 (drop 8 f));
         version = un_be (take 4 (drop 24 f));
         metaBuf = take (length file - FOOTER_SIZE - indexOffset) (drop indexOffset file);
         index = nl_unpackIndex lib (take (bloomOffset - indexOffset) metaBuf)
     in if un_be (take 2 (drop 22 f)) \<noteq> FOOTER_MAGIC then Inl BadTable
        else if length file - FOOTER_SIZE \<le> indexOffset then Inl BadTable
        else Inr \<lparr>sm_id = sstableId, sm_level = level, sm_index = index,
          sm_bloom = \<lparr>bl_bitArray = drop (bloomOffset - indexOffset) metaBuf,
            bl_size = un_be (take 4 (drop 16 f)), bl_hashCount = un_be (take 2 (drop 20 f))\<rparr>,
          sm_minKey = (if index = [] then [] else fst (hd index)),
          sm_maxKey = (if index = [] then [] else fst (last index)),
          sm_keyCount = (if 4 \<le> version then un_be (take 4 (drop 28 f)) else 0),
          sm_sizeBytes = length file\<rparr>)"

definition block_end :: "(string \<times> nat) list \<Rightarrow> nat \<Rightarrow> nat \<Rightarrow> nat" where
  "block_end index blockOffset indexOffset =
    (case filter (\<lambda>e. blockOffset < snd e) index of [] \<Rightarrow> indexOffset | e # _ \<Rightarrow> snd e)"

definition read_block :: "buffer \<Rightarrow> (string \<times> nat) list \<Rightarrow> nat \<Rightarrow> buffer" where
  "read_block file index blockOffset =
    take (block_end index blockOffset (index_offset file) - blockOffset) (drop blockOffset file)"

fun find_record :: "nova_lib \<Rightarrow> string \<Rightarrow> sst_record list \<Rightarrow> nova_error + nova_doc option" where
  "find_record lib targetId [] = Inr None"
| "find_record lib targetId (r # rs) =
     (case utf8_text (sr_key r) of
        None \<Rightarrow> Inr None
      | Some key \<Rightarrow>
          if key = targetId
          then (if crc32c (utf8_bytes key @ raw_of lib r) \<noteq> sr_crc r then Inl (ChecksumMismatch key)
                else Inr (Some (nl_unpack lib (raw_of lib r))))
          else if key > targetId then Inr None else find_record lib targetId rs)"

definition readRecordFromDisk :: "nova_lib \<Rightarrow> buffer \<Rightarrow> sst_meta \<Rightarrow> string \<Rightarrow> nova_error + nova_doc option" where
  "readRecordFromDisk lib file sstable targetId =
    find_record lib targetId
      (sst_scan (read_block file (sm_index sstable) (sparseIndexLookup (sm_index sstable) targetId)))"

text \<open>The block before the one of the wanted version, and the best version found in it.\<close>

fun versioned_offsets :: "string \<Rightarrow> nat \<times> nat \<Rightarrow> (string \<times> nat) list \<Rightarrow> nat \<times> nat" where
  "versioned_offsets key (startOffset, prevOffset) [] = (startOffset, prevOffset)"
| "versioned_offsets key (startOffset, prevOffset) (e # es) =
     (if fst e \<le> key then versioned_offsets key (snd e, startOffset) es else (startOffset, prevOffset))"

fun best_version :: "nova_lib \<Rightarrow> string \<Rightarrow> nat \<Rightarrow> (nat \<times> nova_doc) option \<Rightarrow> sst_record list \<Rightarrow> (nat \<times> nova_doc) option" where
  "best_version lib docId snap best [] = best"
| "best_version lib docId snap best (r # rs) =
     (case utf8_text (sr_key r) of
        None \<Rightarrow> best
      | Some key \<Rightarrow>
          if key \<ge> docId \<and> \<not> isVersionedKey key then best
          else if \<not> isVersionedKey key then best_version lib docId snap best rs
          else (case decodeVersionedKey key of (vId, vTxnId) \<Rightarrow>
            if vId \<noteq> docId \<or> vTxnId > snap then best_version lib docId snap best rs
            else if crc32c (sr_key r @ raw_of lib r) \<noteq> sr_crc r then best_version lib docId snap best rs
            else if (case best of None \<Rightarrow> True | Some b \<Rightarrow> vTxnId > fst b)
            then best_version lib docId snap (Some (vTxnId, nl_unpack lib (raw_of lib r))) rs
            else best_version lib docId snap best rs))"

definition readVersionedFromDisk :: "nova_lib \<Rightarrow> buffer \<Rightarrow> sst_meta \<Rightarrow> string \<Rightarrow> nat \<Rightarrow> nova_doc option" where
  "readVersionedFromDisk lib file sstable docId snap =
    (let offset = snd (versioned_offsets (encodeVersionedKey docId snap) (0, 0) (sm_index sstable))
     in map_option snd (best_version lib docId snap None (sst_scan (read_block file (sm_index sstable) offset))))"

text \<open>\<open>SSTableIterator\<close>: what it yields until its end, a bound or a failed checksum.\<close>

fun iterate_records :: "nova_lib \<Rightarrow> string option \<Rightarrow> string option \<Rightarrow> sst_record list \<Rightarrow> (string \<times> buffer) list" where
  "iterate_records lib fromKey toKey [] = []"
| "iterate_records lib fromKey toKey (r # rs) =
     (if crc32c (sr_key r @ raw_of lib r) \<noteq> sr_crc r then []
      else case utf8_text (sr_key r) of
          None \<Rightarrow> []
        | Some key \<Rightarrow>
            if toKey \<noteq> None \<and> key > the toKey then []
            else if fromKey \<noteq> None \<and> key < the fromKey then iterate_records lib fromKey toKey rs
            else (key, raw_of lib r) # iterate_records lib fromKey toKey rs)"

definition sst_iterate :: "nova_lib \<Rightarrow> buffer \<Rightarrow> sst_meta \<Rightarrow> string option \<Rightarrow> string option \<Rightarrow> (string \<times> buffer) list" where
  "sst_iterate lib file sstable fromKey toKey =
    (let position = (if truthy fromKey \<and> sm_index sstable \<noteq> [] then sparseIndexLookup (sm_index sstable) (the fromKey) else 0)
     in iterate_records lib fromKey toKey (sst_scan (drop position (take (index_offset file) file))))"

subsection \<open>The blocks of a file\<close>

definition data_size :: "nova_lib \<Rightarrow> nova_config \<Rightarrow> (string \<times> buffer) list \<Rightarrow> nat" where
  "data_size lib cf kvs = length (file_data lib cf kvs)"

lemma file_data_simps [simp]:
  "file_data lib cf [] = []"
  "file_data lib cf (kv # kvs) = record_bytes lib (cf_blockCompression cf) kv @ file_data lib cf kvs"
  "file_data lib cf (xs @ ys) = file_data lib cf xs @ file_data lib cf ys"
  by (simp_all add: file_data_def)

lemma data_size_simps [simp]:
  "data_size lib cf [] = 0"
  "data_size lib cf (kv # kvs) = length (record_bytes lib (cf_blockCompression cf) kv) + data_size lib cf kvs"
  "data_size lib cf (xs @ ys) = data_size lib cf xs + data_size lib cf ys"
  by (simp_all add: data_size_def)

lemma data_size_pos: "kvs \<noteq> [] \<Longrightarrow> 0 < data_size lib cf kvs"
  using length_record_bytes [of lib "cf_blockCompression cf" "hd kvs"]
  by (cases kvs) (auto simp: RECORD_HEADER_SIZE_def)

fun block_index :: "nova_lib \<Rightarrow> nova_config \<Rightarrow> nat \<Rightarrow> (string \<times> buffer) list list \<Rightarrow> (string \<times> nat) list" where
  "block_index lib cf off [] = []"
| "block_index lib cf off (B # Bs) = (fst (hd B), off) # block_index lib cf (off + data_size lib cf B) Bs"

lemma sparse_index_blocks:
  "\<exists>B0 Bs. kvs = B0 @ concat Bs \<and> [] \<notin> set Bs \<and>
     sparse_index lib cf off lb kvs = block_index lib cf (off + data_size lib cf B0) Bs \<and>
     (int (cf_blockSize cf) \<le> int off - lb \<longrightarrow> B0 = [])"
proof (induction kvs arbitrary: off lb)
  case Nil
  show ?case by (rule exI [of _ "[]"], rule exI [of _ "[]"]) simp
next
  case (Cons kv kvs)
  let ?n = "length (record_bytes lib (cf_blockCompression cf) kv)"
  show ?case
  proof (cases "int (cf_blockSize cf) \<le> int off - lb")
    case True
    obtain B0 Bs where "kvs = B0 @ concat Bs" "[] \<notin> set Bs"
      "sparse_index lib cf (off + ?n) (int off) kvs = block_index lib cf (off + ?n + data_size lib cf B0) Bs"
      using Cons.IH [of "off + ?n" "int off"] by blast
    then show ?thesis using True
      by (intro exI [of _ "[]"] exI [of _ "(kv # B0) # Bs"]) (simp add: Let_def add.assoc)
  next
    case False
    obtain B0 Bs where "kvs = B0 @ concat Bs" "[] \<notin> set Bs"
      "sparse_index lib cf (off + ?n) lb kvs = block_index lib cf (off + ?n + data_size lib cf B0) Bs"
      using Cons.IH [of "off + ?n" lb] by blast
    then show ?thesis using False
      by (intro exI [of _ "kv # B0"] exI [of _ Bs]) (simp add: Let_def add.assoc)
  qed
qed

lemma file_index_blocks:
  obtains Bs where "kvs = concat Bs" "[] \<notin> set Bs" "file_index lib cf kvs = block_index lib cf 0 Bs"
  using sparse_index_blocks [of kvs lib cf 0 "- int (cf_blockSize cf)"] by (auto simp: file_index_def)

lemma block_index_append:
  "block_index lib cf off (Bs @ Cs) = block_index lib cf off Bs @ block_index lib cf (off + data_size lib cf (concat Bs)) Cs"
  by (induction Bs arbitrary: off) (simp_all add: add.assoc)

lemma block_index_ge: "e \<in> set (block_index lib cf off Bs) \<Longrightarrow> off \<le> snd e"
  by (induction Bs arbitrary: off) fastforce+

lemma block_index_less:
  "[] \<notin> set Bs \<Longrightarrow> e \<in> set (block_index lib cf off Bs) \<Longrightarrow> snd e < off + data_size lib cf (concat Bs)"
proof (induction Bs arbitrary: off)
  case (Cons B Bs)
  have "0 < data_size lib cf B" using Cons.prems(1) by (intro data_size_pos) auto
  then show ?case using Cons by (fastforce simp: add.assoc)
qed simp

lemma block_index_keys: "map fst (block_index lib cf off Bs) = map (\<lambda>B. fst (hd B)) Bs"
  by (induction Bs arbitrary: off) simp_all

lemma block_index_fst: "e \<in> set (block_index lib cf off Bs) \<Longrightarrow> \<exists>B \<in> set Bs. fst e = fst (hd B)"
  by (induction Bs arbitrary: off) fastforce+

lemma footer_file:
  "footer (file_bytes lib cf bl kvs) = trailer (length (file_data lib cf kvs))
     (length (file_data lib cf kvs) + length (nl_packIndex lib (file_index lib cf kvs))) bl (length kvs)"
  by (simp add: footer_def file_bytes_def Let_def trailer_def FOOTER_SIZE_def)

lemma index_offset_file: "file_fits lib cf bl kvs \<Longrightarrow> index_offset (file_bytes lib cf bl kvs) = data_size lib cf kvs"
proof -
  assume f: "file_fits lib cf bl kvs"
  have "length (file_data lib cf kvs) \<le> length (file_bytes lib cf bl kvs)" by (simp add: file_bytes_def Let_def)
  then have "length (file_data lib cf kvs) < 256 ^ 8" using f unfolding file_fits_def by linarith
  then have "un_be (be 8 (length (file_data lib cf kvs))) = length (file_data lib cf kvs)" by (rule un_be_be)
  then show ?thesis by (simp add: index_offset_def footer_file trailer_def data_size_def del: be.simps)
qed

text \<open>Reading the block of a file that starts where one of its blocks does.\<close>

lemma read_block_file:
  assumes f: "file_fits lib cf bl kvs" and kvs: "kvs = concat (Bs @ B # Cs)" and ne: "[] \<notin> set (Bs @ B # Cs)"
    and i: "index = block_index lib cf 0 (Bs @ B # Cs)"
  shows "sst_scan (read_block (file_bytes lib cf bl kvs) index (data_size lib cf (concat Bs))) =
    map (record_of lib (cf_blockCompression cf)) B"
proof -
  let ?o = "data_size lib cf (concat Bs)" and ?n = "data_size lib cf B"
  have pos: "0 < ?n" using ne by (intro data_size_pos) auto
  have "filter (\<lambda>e. ?o < snd e) index = block_index lib cf (?o + ?n) Cs"
  proof -
    have a: "filter (\<lambda>e. ?o < snd e) (block_index lib cf 0 Bs) = []"
      using ne block_index_less [of Bs _ lib cf 0] by (auto simp: filter_empty_conv not_less dest: less_imp_le)
    have b: "filter (\<lambda>e. ?o < snd e) (block_index lib cf (?o + ?n) Cs) = block_index lib cf (?o + ?n) Cs"
      using block_index_ge [of _ lib cf "?o + ?n" Cs] pos by (fastforce simp: filter_id_conv)
    show ?thesis using a b by (simp add: i block_index_append)
  qed
  then have "block_end index ?o (index_offset (file_bytes lib cf bl kvs)) = ?o + ?n"
    using f by (cases Cs) (simp_all add: block_end_def index_offset_file kvs)
  moreover have "file_bytes lib cf bl kvs = file_data lib cf (concat Bs) @ file_data lib cf B @ file_data lib cf (concat Cs) @
      nl_packIndex lib (file_index lib cf kvs) @ bl_bitArray bl @
      trailer (length (file_data lib cf kvs)) (length (file_data lib cf kvs) + length (nl_packIndex lib (file_index lib cf kvs))) bl (length kvs)"
    by (simp add: file_bytes_def Let_def kvs)
  ultimately have "read_block (file_bytes lib cf bl kvs) index ?o = file_data lib cf B"
    by (simp add: read_block_def data_size_def)
  moreover have "list_all (record_fits lib (cf_blockCompression cf)) B"
    using f by (simp add: file_fits_def kvs list_all_iff)
  ultimately show ?thesis by (simp add: file_data_def sst_scan_all)
qed

lemma find_record_sorted:
  "lib_ok lib \<Longrightarrow> sorted_wrt (<) (map fst B) \<Longrightarrow>
    find_record lib t (map (record_of lib c) B) = Inr (map_option (nl_unpack lib) (map_of B t))"
proof (induction B)
  case (Cons kv B)
  have r: "utf8_text (sr_key (record_of lib c kv)) = Some (fst kv)"
    "sr_crc (record_of lib c kv) = crc32c (utf8_bytes (fst kv) @ snd kv)"
    by (simp_all add: record_of_def)
  have ih: "find_record lib t (map (record_of lib c) B) = Inr (map_option (nl_unpack lib) (map_of B t))"
    using Cons by simp
  have above: "\<forall>x \<in> fst ` set B. fst kv < x" using Cons.prems(2) by simp
  consider (eq) "t = fst kv" | (lt) "t < fst kv" | (gt) "fst kv < t" by fastforce
  then show ?case
  proof cases
    case eq
    then show ?thesis using r Cons.prems(1) by (cases kv) simp
  next
    case lt
    then have "t \<notin> fst ` set B" using above by (meson less_asym)
    then have "map_of (kv # B) t = None" using lt by (auto simp: map_of_eq_None_iff)
    then show ?thesis using r lt by (simp add: less_imp_neq [THEN not_sym])
  next
    case gt
    then have "map_of (kv # B) t = map_of B t" by (cases kv) auto
    then show ?thesis using r ih gt by (simp add: less_imp_neq less_not_sym)
  qed
qed simp

lemma sorted_concat_split:
  assumes "sorted_wrt (<) (map fst (concat (Bs @ B # Cs)))" and "[] \<notin> set (Bs @ B # Cs)"
    and "Bs \<noteq> [] \<Longrightarrow> fst (hd B) \<le> (t :: string)" and "\<forall>C \<in> set Cs. t < fst (hd C)"
  shows "map_of (concat (Bs @ B # Cs)) t = map_of B t"
proof -
  have "t \<notin> fst ` set (concat Bs)"
  proof
    assume m: "t \<in> fst ` set (concat Bs)"
    have "sorted_wrt (<) (map fst (concat Bs) @ map fst (B @ concat Cs))" using assms(1) by simp
    then have "\<forall>x \<in> fst ` set (concat Bs). \<forall>y \<in> fst ` set (B @ concat Cs). x < y"
      unfolding sorted_wrt_append list.set_map by blast
    moreover have "fst (hd B) \<in> fst ` set (B @ concat Cs)" using assms(2) by (cases B) auto
    ultimately have "t < fst (hd B)" using m by blast
    moreover have "Bs \<noteq> []" using m by auto
    ultimately show False using assms(3) by auto
  qed
  moreover have "t \<notin> fst ` set (concat Cs)"
  proof
    assume "t \<in> fst ` set (concat Cs)"
    then obtain C kv where C: "C \<in> set Cs" "kv \<in> set C" "fst kv = t" by auto
    then obtain Cs1 Cs2 where "Cs = Cs1 @ C # Cs2" by (meson split_list)
    then have "sorted_wrt (<) (map fst C)" using assms(1) by (simp add: sorted_wrt_append)
    then have "fst (hd C) \<le> fst kv" using C(2) by (cases C) auto
    then show False using assms(4) C by auto
  qed
  ultimately show ?thesis
    by (simp add: map_add_def map_of_eq_None_iff [THEN iffD2] split: option.split)
qed

lemma hd_blocks_sorted:
  "sorted_wrt (<) (map fst (concat Bs)) \<Longrightarrow> [] \<notin> set Bs \<Longrightarrow> sorted_wrt (<) (map (\<lambda>B. fst (hd B)) (Bs :: (string \<times> buffer) list list))"
proof (induction Bs)
  case (Cons B Bs)
  have "fst (hd B) < fst (hd C)" if "C \<in> set Bs" for C
  proof -
    have "hd B \<in> set B" "hd C \<in> set (concat Bs)" using Cons.prems(2) that by (auto intro!: bexI [of _ C] hd_in_set)
    then show ?thesis using Cons.prems(1) by (auto simp: sorted_wrt_append)
  qed
  then show ?case using Cons by (auto simp: sorted_wrt_append)
qed simp

text \<open>The block the sparse index leads to is the one that would hold the key.\<close>

lemma sparse_block:
  assumes s: "sorted_wrt (<) (map fst (concat Bs))" and ne: "[] \<notin> set Bs" and "Bs \<noteq> []"
  obtains Bs1 B Bs2 where "Bs = Bs1 @ B # Bs2"
    "sparseIndexLookup (block_index lib cf 0 Bs) t = data_size lib cf (concat Bs1)"
    "Bs1 \<noteq> [] \<Longrightarrow> fst (hd B) \<le> t" "\<forall>C \<in> set Bs2. t < fst (hd C)"
proof -
  let ?P = "\<lambda>B. fst (hd B) \<le> t"
  have h: "sorted_wrt (<) (map (\<lambda>B. fst (hd B)) Bs)" by (rule hd_blocks_sorted [OF s ne])
  have spec: "sparseIndexLookup (block_index lib cf 0 Bs) t = sparse_spec (block_index lib cf 0 Bs) t"
    using h by (intro sparseIndexLookup_spec) (simp add: block_index_keys strict_sorted_imp_sorted)
  have after: "\<forall>C \<in> set (dropWhile ?P Bs). t < fst (hd C)"
  proof (cases "dropWhile ?P Bs")
    case (Cons C Cs)
    then have "t < fst (hd C)" using hd_dropWhile [of ?P Bs] by (auto simp: not_le)
    moreover have "sorted_wrt (<) (map (\<lambda>B. fst (hd B)) (C # Cs))"
      using h unfolding Cons [symmetric] by (metis map_append sorted_wrt_append takeWhile_dropWhile_id)
    ultimately show ?thesis using Cons by (auto intro: less_trans)
  next
    case Nil
    show ?thesis unfolding Nil by simp
  qed
  show thesis
  proof (cases "takeWhile ?P Bs = []")
    case True
    obtain B Bs2 where B: "Bs = B # Bs2" using assms(3) by (cases Bs) auto
    then have d: "dropWhile ?P Bs = Bs" using True by (metis append_Nil takeWhile_dropWhile_id)
    then have all: "\<forall>C \<in> set Bs. t < fst (hd C)" using after by simp
    then have "filter (\<lambda>e. fst e \<le> t) (block_index lib cf 0 Bs) = []"
      by (auto simp: filter_empty_conv not_le dest!: block_index_fst)
    then have "sparseIndexLookup (block_index lib cf 0 Bs) t = 0" by (simp add: spec sparse_spec_def)
    then show thesis using that [of "[]" B Bs2] B all by simp
  next
    case False
    then obtain Bs1 B where tw: "takeWhile ?P Bs = Bs1 @ [B]" by (metis rev_exhaust)
    let ?Bs2 = "dropWhile ?P Bs"
    have Bs: "Bs = Bs1 @ B # ?Bs2" using takeWhile_dropWhile_id [of ?P Bs] tw by simp
    have "\<forall>C \<in> set (Bs1 @ [B]). fst (hd C) \<le> t" using set_takeWhileD [of _ ?P Bs] tw by metis
    then have k: "\<forall>e \<in> set (block_index lib cf 0 (Bs1 @ [B])). fst e \<le> t"
      by (metis block_index_fst)
    let ?o = "data_size lib cf (concat (Bs1 @ [B]))"
    have "\<forall>e \<in> set (block_index lib cf ?o ?Bs2). \<not> fst e \<le> t"
      using after by (metis block_index_fst not_le)
    then have "filter (\<lambda>e. fst e \<le> t) (block_index lib cf 0 ((Bs1 @ [B]) @ ?Bs2)) = block_index lib cf 0 (Bs1 @ [B])"
      unfolding block_index_append [of lib cf 0 "Bs1 @ [B]" ?Bs2] filter_append
      using k by (simp add: filter_id_conv filter_empty_conv)
    then have "sparse_spec (block_index lib cf 0 Bs) t = data_size lib cf (concat Bs1)"
      using Bs by (simp add: sparse_spec_def block_index_append)
    then show thesis using that [OF Bs] spec k after by (simp add: block_index_append)
  qed
qed

text \<open>A lookup finds exactly the documents of the file.\<close>

lemma readRecord_file:
  assumes "lib_ok lib" "file_fits lib cf bl kvs" "sorted_wrt (<) (map fst kvs)" "sm_index meta = file_index lib cf kvs"
  shows "readRecordFromDisk lib (file_bytes lib cf bl kvs) meta t = Inr (map_option (nl_unpack lib) (map_of kvs t))"
proof -
  obtain Bs where Bs: "kvs = concat Bs" "[] \<notin> set Bs" "file_index lib cf kvs = block_index lib cf 0 Bs"
    by (rule file_index_blocks)
  show ?thesis
  proof (cases "Bs = []")
    case True
    have "index_offset (file_bytes lib cf bl kvs) = 0" using index_offset_file [OF assms(2)] Bs True by simp
    then have "read_block (file_bytes lib cf bl kvs) [] (sparseIndexLookup [] t) = []"
      by (simp add: read_block_def block_end_def)
    then show ?thesis using True Bs assms(4) by (simp add: readRecordFromDisk_def)
  next
    case False
    have s: "sorted_wrt (<) (map fst (concat Bs))" using assms(3) Bs(1) by simp
    obtain Bs1 B Bs2 where b: "Bs = Bs1 @ B # Bs2"
      "sparseIndexLookup (block_index lib cf 0 Bs) t = data_size lib cf (concat Bs1)"
      "Bs1 \<noteq> [] \<Longrightarrow> fst (hd B) \<le> t" "\<forall>C \<in> set Bs2. t < fst (hd C)"
      by (rule sparse_block [OF s Bs(2) False, of lib cf t]) blast
    have "sst_scan (read_block (file_bytes lib cf bl kvs) (sm_index meta) (sparseIndexLookup (sm_index meta) t)) =
        map (record_of lib (cf_blockCompression cf)) B"
      unfolding assms(4) Bs(3) b(2) by (rule read_block_file [OF assms(2)]) (use Bs b in auto)
    moreover have "sorted_wrt (<) (map fst B)" using s b(1) by (simp add: sorted_wrt_append)
    moreover have "map_of kvs t = map_of B t"
      using sorted_concat_split [of Bs1 B Bs2 t] s Bs b by simp
    ultimately show ?thesis using find_record_sorted [OF assms(1)] by (simp add: readRecordFromDisk_def)
  qed
qed

lemma sorted_table_keys: "map fst (sorted_table table) = sort (jm_keys table)"
  by (simp add: sorted_table_def comp_def)

lemma sorted_table_strict: "jm_wf table \<Longrightarrow> sorted_wrt (<) (map fst (sorted_table table))"
  unfolding sorted_table_keys by (simp add: strict_sorted_iff jm_wf_def)

lemma sorted_table_get: "map_of (sorted_table table) k = jm_get table k"
proof (cases "jm_get table k")
  case None
  then have "k \<notin> set (jm_keys table)" by (simp add: jm_get_None_iff)
  moreover have "set (map fst (sorted_table table)) = set (jm_keys table)" by (simp only: sorted_table_keys set_sort)
  ultimately have "map_of (sorted_table table) k = None" by (simp add: map_of_eq_None_iff)
  then show ?thesis using None by simp
next
  case (Some v)
  then have "k \<in> set (sort (jm_keys table))" using jm_get_key [of table k v] by simp
  then show ?thesis using Some by (simp add: sorted_table_def map_of_map_keys map_of_map_restrict restrict_map_def)
qed

lemma add_keys_ok: "bloom_ok bl \<Longrightarrow> bloom_ok (add_keys lib bl kvs)"
  by (induction kvs arbitrary: bl) (simp_all add: add_keys_def)

lemma add_keys_check:
  assumes "bloom_ok bl" and "k \<in> real_key ` fst ` set kvs"
  shows "bloom_check (nl_hash32 lib) (add_keys lib bl kvs) k"
proof -
  have "add_keys lib bl kvs = foldl (bloom_add (nl_hash32 lib)) bl (map (\<lambda>kv. real_key (fst kv)) kvs)"
    by (simp add: add_keys_def foldl_map)
  then show ?thesis using bloom_added [OF assms(1)] assms(2) by (auto simp: image_image)
qed

lemma table_bloom_check:
  "lib_ok lib \<Longrightarrow> k \<in> real_key ` fst ` set kvs \<Longrightarrow> bloom_check (nl_hash32 lib) (table_bloom lib kvs) k"
  unfolding table_bloom_def Let_def by (rule add_keys_check) (auto simp: new_bloom_ok lib_ok_def)

text \<open>A written file, looked up the way \<open>get\<close> does: through the filter, then through the index.\<close>

definition sst_lookup :: "nova_lib \<Rightarrow> buffer \<Rightarrow> sst_meta \<Rightarrow> string \<Rightarrow> nova_error + nova_doc option" where
  "sst_lookup lib file sstable docId =
    (if bloom_check (nl_hash32 lib) (sm_bloom sstable) docId then readRecordFromDisk lib file sstable docId else Inr None)"

lemma written_file:
  assumes "writeSSTableFile lib cf table n level = Inr (file, meta)"
  obtains bl kvs where "kvs = sorted_table table" "bl = table_bloom lib kvs" "file = file_bytes lib cf bl kvs"
    "file_fits lib cf bl kvs" "sm_index meta = file_index lib cf kvs" "sm_bloom meta = bl" "sm_id meta = n" "sm_level meta = level"
    "sm_minKey meta = (if kvs = [] then [] else fst (hd kvs))" "sm_maxKey meta = (if kvs = [] then [] else fst (last kvs))"
  using assms that [OF refl refl] by (auto simp: writeSSTableFile_def Let_def split: if_splits)

lemma written_lookup:
  assumes "lib_ok lib" "jm_wf table" "writeSSTableFile lib cf table n level = Inr (file, meta)" "\<not> isVersionedKey k"
  shows "sst_lookup lib file meta k = Inr (map_option (nl_unpack lib) (jm_get table k))"
proof -
  obtain bl kvs where w: "kvs = sorted_table table" "bl = table_bloom lib kvs" "file = file_bytes lib cf bl kvs"
    "file_fits lib cf bl kvs" "sm_index meta = file_index lib cf kvs" "sm_bloom meta = bl"
    using assms(3) by (rule written_file) blast
  have r: "readRecordFromDisk lib file meta k = Inr (map_option (nl_unpack lib) (jm_get table k))"
    using readRecord_file [OF assms(1) w(4) _ w(5)] sorted_table_strict [OF assms(2)] by (simp add: w(1,3) sorted_table_get)
  show ?thesis
  proof (cases "jm_get table k")
    case (Some v)
    then have "k \<in> fst ` set kvs"
      using jm_get_key [OF Some] sorted_table_keys [of table, THEN arg_cong [where f = set]] by (simp add: w(1))
    then have "k \<in> real_key ` fst ` set kvs" using assms(4) by (auto simp: real_key_def image_iff intro!: bexI)
    then have "bloom_check (nl_hash32 lib) (sm_bloom meta) k"
      unfolding w(2,6) by (intro table_bloom_check [OF assms(1)])
    then show ?thesis using r by (simp add: sst_lookup_def)
  qed (simp add: sst_lookup_def r)
qed

text \<open>The metadata read back: index and filter are the ones written, the key range is not.\<close>

lemma read_metadata:
  assumes "lib_ok lib" "file_fits lib cf bl kvs"
  shows "\<exists>meta. readSSTableMetadata lib (file_bytes lib cf bl kvs) n level = Inr meta \<and>
    sm_index meta = file_index lib cf kvs \<and> sm_bloom meta = bl \<and> sm_id meta = n \<and> sm_level meta = level \<and>
    sm_keyCount meta = length kvs \<and>
    sm_minKey meta = (if kvs = [] then [] else fst (hd (file_index lib cf kvs))) \<and>
    sm_maxKey meta = (if kvs = [] then [] else fst (last (file_index lib cf kvs)))"
proof -
  let ?file = "file_bytes lib cf bl kvs" and ?d = "length (file_data lib cf kvs)"
  let ?i = "nl_packIndex lib (file_index lib cf kvs)"
  have fb: "?file = file_data lib cf kvs @ ?i @ bl_bitArray bl @ trailer ?d (?d + length ?i) bl (length kvs)"
    by (simp add: file_bytes_def Let_def)
  have lt: "length (trailer a b c d) = FOOTER_SIZE" for a b c d by (simp add: trailer_def FOOTER_SIZE_def)
  have len: "length ?file = ?d + length ?i + length (bl_bitArray bl) + FOOTER_SIZE" by (simp add: fb lt)
  have fits: "?d < 256 ^ 8" "?d + length ?i < 256 ^ 8" "bl_size bl < 256 ^ 4" "bl_hashCount bl < 256 ^ 2" "length kvs < 256 ^ 4"
    using assms(2) len unfolding file_fits_def by linarith+
  let ?f = "trailer ?d (?d + length ?i) bl (length kvs)"
  have cut: "take 8 (drop 8 ?f) = be 8 (?d + length ?i)" "take 4 (drop 16 ?f) = be 4 (bl_size bl)"
    "take 2 (drop 20 ?f) = be 2 (bl_hashCount bl)" "take 2 (drop 22 ?f) = be 2 FOOTER_MAGIC"
    "take 4 (drop 24 ?f) = be 4 FOOTER_VERSION" "take 4 (drop 28 ?f) = be 4 (length kvs)"
    by (simp_all add: trailer_def del: be.simps)
  have nums: "un_be (take 8 (drop 8 ?f)) = ?d + length ?i" "un_be (take 4 (drop 16 ?f)) = bl_size bl"
    "un_be (take 2 (drop 20 ?f)) = bl_hashCount bl" "un_be (take 4 (drop 28 ?f)) = length kvs"
    using fits unfolding cut by (simp_all only: un_be_be)
  have magic: "un_be (take 2 (drop 22 ?f)) = FOOTER_MAGIC" "un_be (take 4 (drop 24 ?f)) = FOOTER_VERSION"
    unfolding cut by (rule un_be_be; simp add: FOOTER_MAGIC_def FOOTER_VERSION_def)+
  have io: "index_offset ?file = ?d" using index_offset_file [OF assms(2)] by (simp add: data_size_def)
  have mb: "take (length ?file - FOOTER_SIZE - ?d) (drop ?d ?file) = ?i @ bl_bitArray bl"
    by (simp add: len) (simp add: fb)
  have pos: "0 < length ?i" using assms(1) by (simp add: lib_ok_def)
  have ne: "file_index lib cf kvs = [] \<longleftrightarrow> kvs = []"
    by (rule file_index_blocks [of kvs lib cf]) (metis block_index.simps concat.simps list.distinct(1) list.exhaust concat_eq_Nil_conv list.set_intros(1))
  show ?thesis
    unfolding readSSTableMetadata_def Let_def footer_file io mb nums magic
    using pos assms(1) ne by (simp add: len lib_ok_def FOOTER_VERSION_def)
qed

subsection \<open>Iterating over a file\<close>

lemma iterate_records_all:
  "lib_ok lib \<Longrightarrow> iterate_records lib None None (map (record_of lib c) kvs) = kvs"
proof (induction kvs)
  case (Cons kv kvs)
  then show ?case using raw_of_record [of lib c kv] by (cases kv) (simp add: record_of_def)
qed simp

lemma iterate_file:
  assumes "lib_ok lib" "file_fits lib cf bl kvs"
  shows "sst_iterate lib (file_bytes lib cf bl kvs) meta None None = kvs"
proof -
  have "take (index_offset (file_bytes lib cf bl kvs)) (file_bytes lib cf bl kvs) = file_data lib cf kvs"
    unfolding index_offset_file [OF assms(2)] by (simp add: file_bytes_def Let_def data_size_def)
  moreover have "sst_scan (file_data lib cf kvs) = map (record_of lib (cf_blockCompression cf)) kvs"
    using assms(2) by (simp add: file_data_def file_fits_def sst_scan_all)
  ultimately show ?thesis by (simp add: sst_iterate_def iterate_records_all [OF assms(1)])
qed

text \<open>A versioned lookup only ever finds a version of the document that the snapshot may see.\<close>

lemma best_version_sound:
  assumes "lib_ok lib" "best_version lib docId snap best (map (record_of lib c) kvs) = Some (t, d)"
  shows "best = Some (t, d) \<or> (\<exists>key buf. (key, buf) \<in> set kvs \<and> isVersionedKey key \<and>
    decodeVersionedKey key = (docId, t) \<and> t \<le> snap \<and> d = nl_unpack lib buf)"
  using assms(2)
proof (induction kvs arbitrary: best)
  case (Cons kv kvs)
  have r: "utf8_text (sr_key (record_of lib c kv)) = Some (fst kv)" by (simp add: record_of_def)
  show ?case
    using Cons.prems Cons.IH r raw_of_record [OF assms(1), of c kv]
    by (cases kv) (fastforce split: if_splits prod.splits option.splits)
qed simp

end
