(* ===== verification/NovaMerge.thy ===== *)
theory NovaMerge
  imports NovaSstable "HOL-Library.Product_Lexorder"
begin

text \<open>
  \<open>MergeHeap\<close> of \<open>src/database/index.ts\<close>, and the loop that takes the records of several sorted iterators
  out of it.  An iterator (\<open>KVIterator\<close>) is what it has still to yield, with its priority; the heap is
  an array, ordered by key and then by priority.
\<close>

subsection \<open>The heap\<close>

definition heap_swap :: "nat \<Rightarrow> nat \<Rightarrow> 'a list \<Rightarrow> 'a list" where
  "heap_swap a b h = h[a := h ! b, b := h ! a]"

fun siftUp :: "('a \<Rightarrow> 'a \<Rightarrow> bool) \<Rightarrow> nat \<Rightarrow> 'a list \<Rightarrow> 'a list" where
  "siftUp lt i h =
    (if 0 < i
     then let p = (i - 1) div 2 in if lt (h ! i) (h ! p) then siftUp lt p (heap_swap i p h) else h
     else h)"

declare siftUp.simps [simp del]

definition smallest_child :: "('a \<Rightarrow> 'a \<Rightarrow> bool) \<Rightarrow> nat \<Rightarrow> 'a list \<Rightarrow> nat" where
  "smallest_child lt i h =
    (let n = length h; l = 2 * i + 1; r = 2 * i + 2;
         m = (if l < n \<and> lt (h ! l) (h ! i) then l else i)
     in if r < n \<and> lt (h ! r) (h ! m) then r else m)"

lemma smallest_child_cases:
  "smallest_child lt i h = i \<or>
   (smallest_child lt i h < length h \<and> (smallest_child lt i h = 2 * i + 1 \<or> smallest_child lt i h = 2 * i + 2))"
  by (simp add: smallest_child_def Let_def)

function siftDown :: "('a \<Rightarrow> 'a \<Rightarrow> bool) \<Rightarrow> nat \<Rightarrow> 'a list \<Rightarrow> 'a list" where
  "siftDown lt i h =
    (let m = smallest_child lt i h in if m = i then h else siftDown lt m (heap_swap i m h))"
  by pat_completeness auto
termination siftDown
proof (relation "measure (\<lambda>(lt, i, h). length h - i)")
  fix lt :: "'a \<Rightarrow> 'a \<Rightarrow> bool" and i h m
  assume m: "m = smallest_child lt i h" "m \<noteq> i"
  then show "((lt, m, heap_swap i m h), lt, i, h) \<in> measure (\<lambda>(lt, i, h). length h - i)"
    using smallest_child_cases [of lt i h] by (auto simp: heap_swap_def)
qed simp

declare siftDown.simps [simp del]

definition heap_push :: "('a \<Rightarrow> 'a \<Rightarrow> bool) \<Rightarrow> 'a \<Rightarrow> 'a list \<Rightarrow> 'a list" where
  "heap_push lt x h = siftUp lt (length h) (h @ [x])"

definition heap_pop :: "('a \<Rightarrow> 'a \<Rightarrow> bool) \<Rightarrow> 'a list \<Rightarrow> ('a \<times> 'a list) option" where
  "heap_pop lt h =
    (if h = [] then None
     else let s = heap_swap 0 (length h - 1) h; h' = butlast s
          in Some (last s, if 0 < length h' then siftDown lt 0 h' else h'))"

definition heap_ok :: "('a \<Rightarrow> 'a \<Rightarrow> bool) \<Rightarrow> 'a list \<Rightarrow> bool" where
  "heap_ok lt h \<longleftrightarrow> (\<forall>i < length h. 0 < i \<longrightarrow> \<not> lt (h ! i) (h ! ((i - 1) div 2)))"

definition parents_ok :: "('a \<Rightarrow> 'a \<Rightarrow> bool) \<Rightarrow> nat \<Rightarrow> 'a list \<Rightarrow> bool" where
  "parents_ok lt i h \<longleftrightarrow> i < length h \<and>
     (\<forall>j < length h. 0 < j \<and> j \<noteq> i \<longrightarrow> \<not> lt (h ! j) (h ! ((j - 1) div 2))) \<and>
     (\<forall>j < length h. 0 < j \<and> 0 < i \<and> (j - 1) div 2 = i \<longrightarrow> \<not> lt (h ! j) (h ! ((i - 1) div 2)))"

definition down_ok :: "('a \<Rightarrow> 'a \<Rightarrow> bool) \<Rightarrow> nat \<Rightarrow> 'a list \<Rightarrow> bool" where
  "down_ok lt i h \<longleftrightarrow> i < length h \<and>
     (\<forall>j < length h. 0 < j \<and> (j - 1) div 2 \<noteq> i \<longrightarrow> \<not> lt (h ! j) (h ! ((j - 1) div 2))) \<and>
     (\<forall>j < length h. 0 < j \<and> 0 < i \<and> (j - 1) div 2 = i \<longrightarrow> \<not> lt (h ! j) (h ! ((i - 1) div 2)))"

lemma length_heap_swap [simp]: "length (heap_swap a b h) = length h"
  by (simp add: heap_swap_def)

lemma heap_swap_nth: "a < length h \<Longrightarrow> b < length h \<Longrightarrow> j < length h \<Longrightarrow>
    heap_swap a b h ! j = (if j = b then h ! a else if j = a then h ! b else h ! j)"
  by (simp add: heap_swap_def nth_list_update)

lemma mset_heap_swap [simp]: "a < length h \<Longrightarrow> b < length h \<Longrightarrow> mset (heap_swap a b h) = mset h"
  by (simp add: heap_swap_def mset_swap)

text \<open>A comparison that is a strict weak order is all the heap relies on.\<close>

locale strict_weak =
  fixes lt :: "'a \<Rightarrow> 'a \<Rightarrow> bool"
  assumes irrefl: "\<not> lt x x"
    and less_trans: "lt x y \<Longrightarrow> lt y z \<Longrightarrow> lt x z"
    and le_trans: "\<not> lt y x \<Longrightarrow> \<not> lt z y \<Longrightarrow> \<not> lt z x"
begin

lemma asym: "lt x y \<Longrightarrow> \<not> lt y x"
  using irrefl less_trans by blast

lemma swap_up_ok:
  assumes u: "parents_ok lt i h" and i: "0 < i" and l: "lt (h ! i) (h ! ((i - 1) div 2))"
  shows "parents_ok lt ((i - 1) div 2) (heap_swap i ((i - 1) div 2) h)"
proof -
  define p where "p = (i - 1) div 2"
  let ?h = "heap_swap i p h"
  have n: "i < length h" "p < i" "p < length h" using u i by (auto simp: parents_ok_def p_def)
  have l: "lt (h ! i) (h ! p)" using l by (simp add: p_def)
  have nth: "?h ! j = (if j = p then h ! i else if j = i then h ! p else h ! j)" if "j < length h" for j
    using heap_swap_nth [OF n(1,3) that] .
  have old: "\<not> lt (h ! j) (h ! ((j - 1) div 2))" if "j < length h" "0 < j" "j \<noteq> i" for j
    using u that by (simp add: parents_ok_def)
  have below: "\<not> lt (h ! j) (h ! p)" if "j < length h" "0 < j" "(j - 1) div 2 = i" for j
    using u that i by (simp add: parents_ok_def p_def)
  have a: "\<not> lt (?h ! j) (?h ! ((j - 1) div 2))" if j: "j < length h" "0 < j" "j \<noteq> p" for j
  proof -
    have pj: "(j - 1) div 2 < length h" using j by linarith
    consider "j = i" | "j \<noteq> i" "(j - 1) div 2 = p" | "j \<noteq> i" "(j - 1) div 2 = i" | "j \<noteq> i" "(j - 1) div 2 \<noteq> p" "(j - 1) div 2 \<noteq> i"
      by blast
    then show ?thesis
    proof cases
      case 1
      moreover have "i \<noteq> p" using n(2) by simp
      ultimately show ?thesis using asym [OF l] by (simp add: nth n p_def [symmetric, simplified])
    next
      case 2
      then show ?thesis using le_trans [OF asym [OF l] old [OF j(1,2) 2(1), unfolded 2(2)]] j by (simp add: nth pj n)
    next
      case 3
      then show ?thesis using below [OF j(1,2) 3(2)] j n(2) by (simp add: nth n)
    next
      case 4
      then show ?thesis using old [OF j(1,2) 4(1)] j by (simp add: nth pj)
    qed
  qed
  have b: "\<not> lt (?h ! j) (?h ! ((p - 1) div 2))" if j: "j < length h" "0 < j" "0 < p" "(j - 1) div 2 = p" for j
  proof -
    have q: "(p - 1) div 2 < p" using j(3) by linarith
    then have qh: "?h ! ((p - 1) div 2) = h ! ((p - 1) div 2)" using n by (simp add: nth)
    have pp: "\<not> lt (h ! p) (h ! ((p - 1) div 2))" using old [OF n(3) j(3)] n(2) by auto
    show ?thesis
    proof (cases "j = i")
      case True
      have "?h ! i = h ! p" using n(2) by (subst nth [OF n(1)]) simp
      then show ?thesis using pp by (simp only: qh True not_False_eq_True)
    next
      case False
      have "j \<noteq> p" using j(3,4) by linarith
      then have "?h ! j = h ! j" using False by (subst nth [OF j(1)]) simp
      then show ?thesis using le_trans [OF pp old [OF j(1,2) False, unfolded j(4)]] by (simp only: qh not_False_eq_True)
    qed
  qed
  show ?thesis unfolding parents_ok_def p_def [symmetric] using a b n by simp
qed

lemma siftUp_ok: "parents_ok lt i h \<Longrightarrow> heap_ok lt (siftUp lt i h)"
proof (induction i arbitrary: h rule: less_induct)
  case (less i)
  show ?case
  proof (cases "0 < i \<and> lt (h ! i) (h ! ((i - 1) div 2))")
    case True
    then have "heap_ok lt (siftUp lt ((i - 1) div 2) (heap_swap i ((i - 1) div 2) h))"
      using less.prems by (intro less.IH swap_up_ok) auto
    then show ?thesis using True by (subst siftUp.simps) (simp add: Let_def)
  next
    case False
    then have "siftUp lt i h = h" by (subst siftUp.simps) (auto simp: Let_def)
    then show ?thesis using less.prems False unfolding heap_ok_def parents_ok_def by metis
  qed
qed

lemma mset_siftUp: "i < length h \<Longrightarrow> mset (siftUp lt i h) = mset h"
proof (induction i arbitrary: h rule: less_induct)
  case (less i)
  then show ?case
    by (subst siftUp.simps) (auto simp: Let_def less.IH)
qed

lemma heap_push_ok: "heap_ok lt h \<Longrightarrow> heap_ok lt (heap_push lt x h)"
  unfolding heap_push_def
proof (rule siftUp_ok)
  assume "heap_ok lt h"
  then show "parents_ok lt (length h) (h @ [x])"
    unfolding heap_ok_def parents_ok_def by (auto simp: nth_append less_Suc_eq)
qed

lemma mset_heap_push: "mset (heap_push lt x h) = add_mset x (mset h)"
  by (simp add: heap_push_def mset_siftUp)

lemma smallest_child_least:
  assumes "j < length h" "0 < j" "(j - 1) div 2 = i"
  shows "\<not> lt (h ! j) (h ! smallest_child lt i h)"
proof -
  define m where "m = (if 2 * i + 1 < length h \<and> lt (h ! (2 * i + 1)) (h ! i) then 2 * i + 1 else i)"
  have s: "smallest_child lt i h = (if 2 * i + 2 < length h \<and> lt (h ! (2 * i + 2)) (h ! m) then 2 * i + 2 else m)"
    by (simp add: smallest_child_def Let_def m_def)
  have l: "\<not> lt (h ! (2 * i + 1)) (h ! m)" if "2 * i + 1 < length h" using that irrefl by (auto simp: m_def)
  have r: "\<not> lt (h ! m) (h ! smallest_child lt i h)" unfolding s using irrefl asym by auto
  have r': "\<not> lt (h ! (2 * i + 2)) (h ! smallest_child lt i h)" if "2 * i + 2 < length h"
    unfolding s using irrefl that by auto
  have "j = 2 * i + 1 \<or> j = 2 * i + 2" using assms by linarith
  then show ?thesis using le_trans [OF r l] r' assms(1) by blast
qed

lemma smallest_child_less: "smallest_child lt i h \<noteq> i \<Longrightarrow> lt (h ! smallest_child lt i h) (h ! i)"
  using less_trans [of "h ! (2 * i + 2)" "h ! (2 * i + 1)" "h ! i"]
  by (simp add: smallest_child_def Let_def split: if_splits)

lemma swap_down_ok:
  assumes d: "down_ok lt i h" and m: "m = smallest_child lt i h" "m \<noteq> i"
  shows "down_ok lt m (heap_swap i m h)"
proof -
  let ?h = "heap_swap i m h"
  have n: "i < length h" "m < length h" "0 < m" "(m - 1) div 2 = i"
    using d smallest_child_cases [of lt i h] m by (auto simp: down_ok_def)
  have lm: "lt (h ! m) (h ! i)" using smallest_child_less m by blast
  have nth: "?h ! j = (if j = m then h ! i else if j = i then h ! m else h ! j)" if "j < length h" for j
    using heap_swap_nth [OF n(1,2) that] .
  have old: "\<not> lt (h ! j) (h ! ((j - 1) div 2))" if "j < length h" "0 < j" "(j - 1) div 2 \<noteq> i" for j
    using d that by (simp add: down_ok_def)
  have below: "\<not> lt (h ! j) (h ! ((i - 1) div 2))" if "j < length h" "0 < j" "0 < i" "(j - 1) div 2 = i" for j
    using d that by (simp add: down_ok_def)
  have a: "\<not> lt (?h ! j) (?h ! ((j - 1) div 2))" if j: "j < length h" "0 < j" "(j - 1) div 2 \<noteq> m" for j
  proof -
    have pj: "(j - 1) div 2 < length h" "(j - 1) div 2 \<noteq> j" using j by linarith+
    consider "j = m" | "j \<noteq> m" "(j - 1) div 2 = i" | "j = i" | "j \<noteq> m" "j \<noteq> i" "(j - 1) div 2 \<noteq> i" by blast
    then show ?thesis
    proof cases
      case 1
      then show ?thesis using asym [OF lm] m(2) by (simp add: nth n n(4) [simplified])
    next
      case 2
      then have "j \<noteq> i" using pj by auto
      then show ?thesis using smallest_child_least [OF j(1,2) 2(2)] 2 m(2) j by (simp add: nth n m(1) [symmetric])
    next
      case 3
      then have q: "(i - 1) div 2 < i" "(i - 1) div 2 < length h" "(i - 1) div 2 \<noteq> m" using j n(1) by linarith+
      have "?h ! ((i - 1) div 2) = h ! ((i - 1) div 2)" by (subst nth [OF q(2)]) (use q in auto)
      moreover have "\<not> lt (h ! m) (h ! ((i - 1) div 2))" using below [OF n(2,3) _ n(4)] j 3 by simp
      moreover have "?h ! i = h ! m" using m(2) by (subst nth [OF n(1)]) simp
      ultimately show ?thesis unfolding 3 by simp
    next
      case 4
      then show ?thesis using old [OF j(1,2)] j by (simp add: nth pj(1))
    qed
  qed
  have b: "\<not> lt (?h ! j) (?h ! ((m - 1) div 2))" if j: "j < length h" "0 < j" "(j - 1) div 2 = m" for j
  proof -
    have "j \<noteq> m" "j \<noteq> i" using j n by linarith+
    moreover have "\<not> lt (h ! j) (h ! m)" using old [OF j(1,2)] j(3) m(2) by simp
    ultimately show ?thesis using m(2) j by (simp add: nth n n(4) [simplified])
  qed
  show ?thesis unfolding down_ok_def using a b n by simp
qed

lemma siftDown_ok: "down_ok lt i h \<Longrightarrow> heap_ok lt (siftDown lt i h)"
proof (induction "length h - i" arbitrary: i h rule: less_induct)
  case less
  let ?m = "smallest_child lt i h"
  show ?case
  proof (cases "?m = i")
    case True
    then have "siftDown lt i h = h" by (subst siftDown.simps) simp
    moreover have "\<not> lt (h ! j) (h ! i)" if "j < length h" "0 < j" "(j - 1) div 2 = i" for j
      using smallest_child_least [OF that] True by simp
    ultimately show ?thesis using less.prems unfolding heap_ok_def down_ok_def by metis
  next
    case False
    have "length (heap_swap i ?m h) - ?m < length h - i"
      using less.prems smallest_child_cases [of lt i h] False by (auto simp: down_ok_def)
    then have "heap_ok lt (siftDown lt ?m (heap_swap i ?m h))"
      using less.hyps swap_down_ok [OF less.prems refl False] by blast
    then show ?thesis using False by (subst siftDown.simps) (simp add: Let_def)
  qed
qed

lemma mset_siftDown: "i < length h \<Longrightarrow> mset (siftDown lt i h) = mset h"
proof (induction "length h - i" arbitrary: i h rule: less_induct)
  case less
  let ?m = "smallest_child lt i h"
  show ?case
  proof (cases "?m = i")
    case True
    then show ?thesis by (subst siftDown.simps) simp
  next
    case False
    have m: "?m < length h" "i < ?m" using smallest_child_cases [of lt i h] False by auto
    then have "mset (siftDown lt ?m (heap_swap i ?m h)) = mset (heap_swap i ?m h)"
      using less.prems by (intro less.hyps) auto
    then show ?thesis using m less.prems False by (subst siftDown.simps) (simp add: Let_def)
  qed
qed

lemma heap_root_least: "heap_ok lt h \<Longrightarrow> i < length h \<Longrightarrow> \<not> lt (h ! i) (h ! 0)"
proof (induction i rule: less_induct)
  case (less i)
  show ?case
  proof (cases "i = 0")
    case False
    then have "(i - 1) div 2 < i" "(i - 1) div 2 < length h" using less.prems by linarith+
    moreover have "\<not> lt (h ! i) (h ! ((i - 1) div 2))" using less.prems False by (simp add: heap_ok_def)
    ultimately show ?thesis using less.IH less.prems(1) le_trans by blast
  qed (simp add: irrefl)
qed

text \<open>\<open>pop\<close> takes a least element out and keeps the heap.\<close>

lemma heap_pop_parts:
  assumes "heap_pop lt h = Some (x, h')"
  shows "h \<noteq> []" and "x = h ! 0"
    and "h' = (if 0 < length h - 1 then siftDown lt 0 (butlast (heap_swap 0 (length h - 1) h)) else butlast (heap_swap 0 (length h - 1) h))"
    and "mset h = add_mset x (mset h')"
proof -
  let ?s = "heap_swap 0 (length h - 1) h"
  show ne: "h \<noteq> []" using assms by (auto simp: heap_pop_def)
  then have sn: "?s \<noteq> []" by (metis length_0_conv length_heap_swap)
  have "Some (x, h') = Some (last ?s, if 0 < length (butlast ?s) then siftDown lt 0 (butlast ?s) else butlast ?s)"
    using assms ne unfolding heap_pop_def Let_def by argo
  then have x: "x = last ?s" and h': "h' = (if 0 < length h - 1 then siftDown lt 0 (butlast ?s) else butlast ?s)" by auto
  show "h' = (if 0 < length h - 1 then siftDown lt 0 (butlast ?s) else butlast ?s)" by (rule h')
  have "last ?s = ?s ! (length h - 1)" using sn by (simp add: last_conv_nth)
  then show "x = h ! 0" using x ne by (simp add: heap_swap_nth)
  have "mset ?s = add_mset x (mset (butlast ?s))"
    using arg_cong [OF append_butlast_last_id [OF sn], of mset] x by simp
  moreover have "mset h' = mset (butlast ?s)" unfolding h' by (simp add: mset_siftDown)
  ultimately show "mset h = add_mset x (mset h')" using ne by simp
qed

lemma heap_pop_least:
  assumes "heap_ok lt h" "heap_pop lt h = Some (x, h')" "y \<in> set h'"
  shows "\<not> lt y x"
proof -
  have "y \<in> set h" using arg_cong [OF heap_pop_parts(4) [OF assms(2)], of set_mset] assms(3) by simp
  then show ?thesis using heap_root_least [OF assms(1)] heap_pop_parts(2) [OF assms(2)] by (auto simp: in_set_conv_nth)
qed

lemma heap_pop_ok:
  assumes "heap_ok lt h" "heap_pop lt h = Some (x, h')"
  shows "heap_ok lt h'"
proof -
  let ?b = "butlast (heap_swap 0 (length h - 1) h)"
  note p = heap_pop_parts [OF assms(2)]
  have nth: "?b ! j = h ! j" if "0 < j" "j < length h - 1" for j
    using that p(1) by (simp add: nth_butlast heap_swap_nth)
  have "\<not> lt (?b ! j) (?b ! ((j - 1) div 2))" if "j < length h - 1" "0 < j" "(j - 1) div 2 \<noteq> 0" for j
  proof -
    have "(j - 1) div 2 < length h - 1" using that by linarith
    from nth [OF _ this] have "?b ! ((j - 1) div 2) = h ! ((j - 1) div 2)" using that(3) by simp
    moreover have "?b ! j = h ! j" using nth that by simp
    moreover have "\<not> lt (h ! j) (h ! ((j - 1) div 2))" using that assms(1) by (simp add: heap_ok_def)
    ultimately show ?thesis by simp
  qed
  then have "down_ok lt 0 ?b" if "0 < length h - 1" using that by (simp add: down_ok_def)
  then have "heap_ok lt (siftDown lt 0 ?b)" if "0 < length h - 1" using that siftDown_ok by blast
  moreover have "heap_ok lt ?b" if "\<not> 0 < length h - 1" unfolding heap_ok_def using that by simp
  ultimately show ?thesis unfolding p(3) by presburger
qed

end

subsection \<open>Merging iterators\<close>

record kv_iter =
  ki_rest :: "(string \<times> buffer) list"
  ki_priority :: nat

definition ki_key :: "kv_iter \<Rightarrow> string" where
  "ki_key it = fst (hd (ki_rest it))"

text \<open>\<open>less\<close>: by key, then by priority.\<close>

definition iter_less :: "kv_iter \<Rightarrow> kv_iter \<Rightarrow> bool" where
  "iter_less a b = (if ki_key a \<noteq> ki_key b then ki_key a < ki_key b else ki_priority a < ki_priority b)"

interpretation heap: strict_weak iter_less
  by unfold_locales (auto simp: iter_less_def split: if_splits)

definition advance :: "kv_iter \<Rightarrow> kv_iter" where
  "advance it = it\<lparr>ki_rest := tl (ki_rest it)\<rparr>"

text \<open>An iterator goes into the heap while it has a key.\<close>

definition push_iter :: "kv_iter list \<Rightarrow> kv_iter \<Rightarrow> kv_iter list" where
  "push_iter h it = (if ki_rest it \<noteq> [] then heap_push iter_less it h else h)"

lemma size_push: "sum_list (map (Suc \<circ> length \<circ> ki_rest) (push_iter h it)) \<le>
    sum_list (map (Suc \<circ> length \<circ> ki_rest) h) + Suc (length (ki_rest it))"
proof -
  have "mset (map (Suc \<circ> length \<circ> ki_rest) (heap_push iter_less it h)) =
      mset (map (Suc \<circ> length \<circ> ki_rest) (it # h))"
    by (simp only: mset_map heap.mset_heap_push mset.simps)
  then have "sum_list (map (Suc \<circ> length \<circ> ki_rest) (heap_push iter_less it h)) = sum_list (map (Suc \<circ> length \<circ> ki_rest) (it # h))"
    by (metis sum_mset_sum_list)
  then show ?thesis by (simp add: push_iter_def)
qed

lemma size_pop: "heap_pop iter_less h = Some (x, h') \<Longrightarrow>
    sum_list (map (Suc \<circ> length \<circ> ki_rest) h) = Suc (length (ki_rest x)) + sum_list (map (Suc \<circ> length \<circ> ki_rest) h')"
proof -
  assume "heap_pop iter_less h = Some (x, h')"
  from heap.heap_pop_parts(4) [OF this] have "mset (map (Suc \<circ> length \<circ> ki_rest) h) = mset (map (Suc \<circ> length \<circ> ki_rest) (x # h'))"
    by (simp only: mset_map mset.simps)
  then have "sum_list (map (Suc \<circ> length \<circ> ki_rest) h) = sum_list (map (Suc \<circ> length \<circ> ki_rest) (x # h'))"
    by (metis sum_mset_sum_list)
  then show ?thesis by simp
qed

text \<open>What the loop over the heap sees: key, priority of the iterator it came from, and value.\<close>

type_synonym merged = "(string \<times> nat \<times> buffer) list"

function merge_heap :: "kv_iter list \<Rightarrow> merged" where
  "merge_heap h =
    (case heap_pop iter_less h of
       None \<Rightarrow> []
     | Some (winner, h') \<Rightarrow>
         (if ki_rest winner = [] then []
          else (fst (hd (ki_rest winner)), ki_priority winner, snd (hd (ki_rest winner))) #
            merge_heap (push_iter h' (advance winner))))"
  by pat_completeness auto
termination merge_heap
proof (relation "measure (\<lambda>h. sum_list (map (Suc \<circ> length \<circ> ki_rest) h))")
  fix h p x h'
  assume p: "heap_pop iter_less h = Some p" "(x, h') = p" "ki_rest x \<noteq> []"
  have "Suc (length (ki_rest (advance x))) < Suc (length (ki_rest x))" using p(3) by (simp add: advance_def)
  then show "(push_iter h' (advance x), h) \<in> measure (\<lambda>h. sum_list (map (Suc \<circ> length \<circ> ki_rest) h))"
    using size_push [of h' "advance x"] size_pop [of h x h'] p(1,2) by simp
qed simp

declare merge_heap.simps [simp del]

definition merge_iters :: "kv_iter list \<Rightarrow> merged" where
  "merge_iters its = merge_heap (foldl push_iter [] its)"

text \<open>The loops skip a key they have just handled.\<close>

fun skip_same :: "string option \<Rightarrow> merged \<Rightarrow> (string \<times> buffer) list" where
  "skip_same lastKey [] = []"
| "skip_same lastKey ((key, prio, v) # ms) =
     (if lastKey = Some key then skip_same lastKey ms else (key, v) # skip_same (Some key) ms)"

definition tagged :: "kv_iter \<Rightarrow> merged" where
  "tagged it = map (\<lambda>kv. (fst kv, ki_priority it, snd kv)) (ki_rest it)"

definition merge_rank :: "string \<times> nat \<times> buffer \<Rightarrow> string \<times> nat" where
  "merge_rank e = (fst e, fst (snd e))"

definition iters_ok :: "kv_iter list \<Rightarrow> bool" where
  "iters_ok h \<longleftrightarrow> (\<forall>it \<in> set h. ki_rest it \<noteq> [] \<and> sorted_wrt (<) (map fst (ki_rest it)))"

lemma mset_concat_cong: "mset xs = mset ys \<Longrightarrow> mset (concat xs) = mset (concat ys)"
  by (metis mset_concat mset_map sum_mset_sum_list)

lemma push_iter_ok: "heap_ok iter_less h \<Longrightarrow> heap_ok iter_less (push_iter h it)"
  by (simp add: push_iter_def heap.heap_push_ok)

lemma set_push_iter: "set (push_iter h it) = (if ki_rest it = [] then set h else insert it (set h))"
  using arg_cong [OF heap.mset_heap_push [of it h], of set_mset] by (simp add: push_iter_def)

lemma mset_push_tagged: "mset (concat (map tagged (push_iter h it))) = mset (tagged it) + mset (concat (map tagged h))"
proof (cases "ki_rest it = []")
  case False
  have "mset (map tagged (heap_push iter_less it h)) = mset (map tagged (it # h))"
    by (simp only: mset_map heap.mset_heap_push mset.simps)
  then have "mset (concat (map tagged (heap_push iter_less it h))) = mset (concat (map tagged (it # h)))"
    by (rule mset_concat_cong)
  then show ?thesis using False by (simp add: push_iter_def)
qed (simp add: push_iter_def tagged_def)

lemma mset_pop_tagged: "heap_pop iter_less h = Some (x, h') \<Longrightarrow>
    mset (concat (map tagged h)) = mset (tagged x) + mset (concat (map tagged h'))"
proof -
  assume "heap_pop iter_less h = Some (x, h')"
  from heap.heap_pop_parts(4) [OF this] have "mset (map tagged h) = mset (map tagged (x # h'))" by (simp only: mset_map mset.simps)
  then have "mset (concat (map tagged h)) = mset (concat (map tagged (x # h')))" by (rule mset_concat_cong)
  then show ?thesis by simp
qed

lemma advance_ok: "iters_ok (it # h) \<Longrightarrow> iters_ok (push_iter h (advance it))"
  unfolding iters_ok_def set_push_iter by (cases "ki_rest it") (auto simp: advance_def)

lemma iters_ok_pop: "heap_pop iter_less h = Some (x, h') \<Longrightarrow> iters_ok h \<Longrightarrow> iters_ok (x # h')"
  using arg_cong [OF heap.heap_pop_parts(4), of h x h' set_mset] by (simp add: iters_ok_def)

text \<open>The head of an iterator is the first of its records.\<close>

lemma rank_head:
  assumes "ki_rest it \<noteq> []" "sorted_wrt (<) (map fst (ki_rest it))" "e \<in> set (tagged it)"
  shows "(ki_key it, ki_priority it) \<le> merge_rank e"
  using assms by (cases "ki_rest it") (auto simp: tagged_def merge_rank_def ki_key_def less_eq_prod_def)

lemma rank_iters:
  assumes "\<not> iter_less b a" shows "(ki_key a, ki_priority a) \<le> (ki_key b, ki_priority b)"
  using assms by (auto simp: iter_less_def less_eq_prod_def split: if_splits)

lemma merge_heap_spec:
  "heap_ok iter_less h \<Longrightarrow> iters_ok h \<Longrightarrow>
    mset (merge_heap h) = mset (concat (map tagged h)) \<and> sorted (map merge_rank (merge_heap h))"
proof (induction h rule: merge_heap.induct)
  case (1 h)
  show ?case
  proof (cases "heap_pop iter_less h")
    case None
    then have "h = []" by (simp add: heap_pop_def Let_def split: if_splits)
    then show ?thesis by (subst (1 2) merge_heap.simps) (simp add: heap_pop_def)
  next
    case (Some xh)
    obtain x h' where xh: "xh = (x, h')" by (cases xh)
    have pop: "heap_pop iter_less h = Some (x, h')" using Some xh by simp
    have ok: "iters_ok (x # h')" using iters_ok_pop [OF pop "1.prems"(2)] .
    have hp: "heap_ok iter_less h'" using heap.heap_pop_ok [OF "1.prems"(1) pop] .
    obtain kv r where r: "ki_rest x = kv # r" using ok by (cases "ki_rest x") (auto simp: iters_ok_def)
    let ?m = "merge_heap (push_iter h' (advance x))" and ?e = "(fst kv, ki_priority x, snd kv)"
    have ih: "mset ?m = mset (concat (map tagged (push_iter h' (advance x)))) \<and> sorted (map merge_rank ?m)"
      using "1.IH" [OF Some xh [symmetric]] r push_iter_ok [OF hp] advance_ok [OF ok] by simp
    have step: "merge_heap h = ?e # ?m" by (subst merge_heap.simps) (simp add: pop r)
    have tx: "tagged x = ?e # tagged (advance x)" by (simp add: tagged_def advance_def r)
    have "mset (merge_heap h) = mset (concat (map tagged h))"
      using ih mset_pop_tagged [OF pop] by (simp add: step mset_push_tagged tx)
    moreover have "merge_rank ?e \<le> merge_rank e" if e: "e \<in> set ?m" for e
    proof -
      have "set ?m = set (tagged (advance x)) \<union> set (concat (map tagged h'))"
        using arg_cong [OF conjunct1 [OF ih], of set_mset] by (simp add: mset_push_tagged del: set_concat)
      with e consider "e \<in> set (tagged (advance x))" | it where "it \<in> set h'" "e \<in> set (tagged it)" by auto
      then show ?thesis
      proof cases
        case 1
        then have "e \<in> set (tagged x)" by (simp add: tx)
        then have "(ki_key x, ki_priority x) \<le> merge_rank e" using rank_head ok by (simp add: iters_ok_def)
        then show ?thesis by (simp add: merge_rank_def ki_key_def r)
      next
        case 2
        have "(ki_key x, ki_priority x) \<le> (ki_key it, ki_priority it)"
          using rank_iters heap.heap_pop_least [OF "1.prems"(1) pop 2(1)] by blast
        also have "\<dots> \<le> merge_rank e" using rank_head 2 ok by (simp add: iters_ok_def)
        finally show ?thesis by (simp add: merge_rank_def ki_key_def r)
      qed
    qed
    ultimately show ?thesis using ih by (simp add: step)
  qed
qed

lemma pushed_iters:
  assumes "heap_ok iter_less h" "iters_ok h" "\<forall>it \<in> set its. sorted_wrt (<) (map fst (ki_rest it))"
  shows "heap_ok iter_less (foldl push_iter h its) \<and> iters_ok (foldl push_iter h its) \<and>
    mset (concat (map tagged (foldl push_iter h its))) = mset (concat (map tagged h)) + mset (concat (map tagged its))"
  using assms
proof (induction its arbitrary: h)
  case (Cons it its)
  have "iters_ok (push_iter h it)" using Cons.prems by (auto simp: iters_ok_def set_push_iter)
  then show ?case using Cons.IH [of "push_iter h it"] Cons.prems push_iter_ok by (simp add: mset_push_tagged)
qed simp

lemma rank_inj:
  assumes "\<forall>it \<in> set its. sorted_wrt (<) (map fst (ki_rest it))" and "distinct (map ki_priority its)"
  shows "inj_on merge_rank (set (concat (map tagged its)))"
proof (rule inj_onI)
  fix a b assume ab: "a \<in> set (concat (map tagged its))" "b \<in> set (concat (map tagged its))" "merge_rank a = merge_rank b"
  obtain i j where ij: "i \<in> set its" "a \<in> set (tagged i)" "j \<in> set its" "b \<in> set (tagged j)" using ab by auto
  then have "ki_priority i = ki_priority j" using ab(3) by (auto simp: tagged_def merge_rank_def)
  then have "i = j" using ij assms(2) by (meson distinct_map inj_onD)
  moreover have "distinct (map fst (ki_rest i))" using assms(1) ij(1) strict_sorted_iff by blast
  ultimately show "a = b" using ij ab(3) by (auto simp: tagged_def merge_rank_def dest: eq_key_imp_eq_value)
qed

text \<open>The merge is the records of all iterators, by key and then by priority.\<close>

lemma merge_iters_sorted:
  assumes "\<forall>it \<in> set its. sorted_wrt (<) (map fst (ki_rest it))" and "distinct (map ki_priority its)"
  shows "merge_iters its = sort_key merge_rank (concat (map tagged its))"
proof -
  have "heap_ok iter_less []" "iters_ok []" by (simp_all add: heap_ok_def iters_ok_def)
  note p = pushed_iters [OF this assms(1)]
  have m: "mset (merge_iters its) = mset (concat (map tagged its))" "sorted (map merge_rank (merge_iters its))"
    using merge_heap_spec p unfolding merge_iters_def by simp_all
  show ?thesis using sort_key_inj_key_eq [OF m(1) [symmetric] _ m(2)] rank_inj [OF assms] m(1) by simp
qed

text \<open>
  What a reader of several sources means: the first source that has the key.  A merge that skips the keys
  it has seen gives exactly that, with the sources in the order of their priorities.
\<close>

definition first_source :: "kv_iter list \<Rightarrow> string \<Rightarrow> buffer option" where
  "first_source its k = map_of (concat (map ki_rest (sort_key ki_priority its))) k"

lemma skip_same_sorted:
  "sorted (map fst ms) \<Longrightarrow> (case l of None \<Rightarrow> True | Some k \<Rightarrow> \<forall>e \<in> set ms. k \<le> fst e) \<Longrightarrow>
    sorted_wrt (<) (map fst (skip_same l ms)) \<and>
    (\<forall>kv \<in> set (skip_same l ms). case l of None \<Rightarrow> True | Some k \<Rightarrow> k < fst kv)"
proof (induction l ms rule: skip_same.induct)
  case (2 l key prio v ms)
  show ?case
  proof (cases "l = Some key")
    case True
    then show ?thesis using 2 by simp
  next
    case False
    then have "sorted_wrt (<) (map fst (skip_same (Some key) ms)) \<and> (\<forall>kv \<in> set (skip_same (Some key) ms). key < fst kv)"
      using 2 by simp
    moreover have "k < key" if "l = Some k" for k using that False "2.prems"(2) by auto
    ultimately show ?thesis using False by (auto split: option.splits)
  qed
qed simp

definition untag :: "merged \<Rightarrow> (string \<times> buffer) list" where
  "untag ms = map (\<lambda>e. (fst e, snd (snd e))) ms"

lemma map_of_untag: "map_of (untag ms) k = map_of (untag (filter (\<lambda>e. fst e = k) ms)) k"
  by (induction ms) (simp_all add: untag_def)

lemma map_of_skip_same:
  "sorted (map fst ms) \<Longrightarrow> \<forall>l'. l = Some l' \<longrightarrow> (\<forall>e \<in> set ms. l' \<le> fst e) \<Longrightarrow>
    map_of (skip_same l ms) k = (if l = Some k then None else map_of (untag ms) k)"
proof (induction l ms rule: skip_same.induct)
  case (1 l)
  then show ?case by (simp add: untag_def)
next
  case (2 l key prio v ms)
  show ?case
  proof (cases "l = Some key")
    case True
    then show ?thesis using 2 by (simp add: untag_def)
  next
    case False
    then have ih: "map_of (skip_same (Some key) ms) k = (if key = k then None else map_of (untag ms) k)"
      using 2 by simp
    have "map_of (untag ms) k = None \<and> k \<noteq> key" if "l = Some k"
    proof -
      have "k < key" using that "2.prems"(2) False by (simp add: order.not_eq_order_implies_strict)
      then have "k \<notin> fst ` set (untag ms)" using "2.prems"(1) by (auto simp: untag_def)
      then show ?thesis using \<open>k < key\<close> by (simp add: map_of_eq_None_iff)
    qed
    then show ?thesis using False ih by (auto simp: untag_def)
  qed
qed

lemma rank_fst: "sorted (map merge_rank ms) \<Longrightarrow> sorted (map fst ms)"
  by (induction ms) (auto simp: merge_rank_def less_eq_prod_def)

lemma sorted_tagged: "sorted (map ki_priority its) \<Longrightarrow> sorted (map (\<lambda>e. fst (snd e)) (concat (map tagged its)))"
proof (induction its)
  case (Cons it its)
  have "map (\<lambda>e. fst (snd e)) (tagged it) = replicate (length (ki_rest it)) (ki_priority it)"
    by (simp add: tagged_def comp_def map_replicate_const)
  then show ?case using Cons by (auto simp: sorted_append tagged_def)
qed simp

lemma untag_tagged: "untag (concat (map tagged its)) = concat (map ki_rest its)"
  by (induction its) (simp_all add: untag_def tagged_def comp_def)

lemma sorted_rank_key: "sorted (map (\<lambda>e. fst (snd e)) ms) \<Longrightarrow> \<forall>e \<in> set ms. fst e = k \<Longrightarrow> sorted (map merge_rank ms)"
  by (induction ms) (auto simp: merge_rank_def less_eq_prod_def)

lemma merge_first_source:
  assumes "\<forall>it \<in> set its. sorted_wrt (<) (map fst (ki_rest it))" and "distinct (map ki_priority its)"
  shows "map_of (skip_same None (merge_iters its)) k = first_source its k"
proof -
  let ?S = "concat (map tagged (sort_key ki_priority its))" and ?P = "\<lambda>e. fst e = k"
  have "mset (map tagged its) = mset (map tagged (sort_key ki_priority its))" by simp
  then have "mset (concat (map tagged its)) = mset ?S" by (rule mset_concat_cong)
  then have m: "merge_iters its = sort_key merge_rank ?S"
    unfolding merge_iters_sorted [OF assms] using rank_inj [OF assms] by (rule sort_key_eq_sort_key)
  have "sorted (map (\<lambda>e. fst (snd e)) (filter ?P ?S))" using sorted_tagged [of "sort_key ki_priority its"] by (simp add: sorted_filter)
  then have "sorted (map merge_rank (filter ?P ?S))" by (rule sorted_rank_key [where k = k]) simp
  then have f: "filter ?P (merge_iters its) = filter ?P ?S" unfolding m filter_sort by (rule sort_key_id_if_sorted)
  have "sorted (map fst (merge_iters its))" unfolding m by (intro rank_fst) simp
  then have "map_of (skip_same None (merge_iters its)) k = map_of (untag (merge_iters its)) k"
    by (subst map_of_skip_same) simp_all
  also have "\<dots> = map_of (untag ?S) k" by (subst (1 2) map_of_untag) (simp only: f)
  finally show ?thesis by (simp only: untag_tagged first_source_def)
qed

text \<open>
  C11. The merge heap takes the records of several sorted iterators out in the order of their keys and,
  for one key, of their priorities, each record once; the reader that skips the keys it has seen gets for
  every key the record of the first iterator that has it.
\<close>

theorem merge_exact:
  assumes "\<forall>it \<in> set its. sorted_wrt (<) (map fst (ki_rest it))" and "distinct (map ki_priority its)"
  shows "merge_iters its = sort_key merge_rank (concat (map tagged its)) \<and>
    map_of (skip_same None (merge_iters its)) k = first_source its k"
  using merge_iters_sorted [OF assms] merge_first_source [OF assms] by simp

definition demo_iters :: "kv_iter list" where
  "demo_iters = [\<lparr>ki_rest = [(''a'', [1]), (''c'', [2])], ki_priority = 1\<rparr>, \<lparr>ki_rest = [], ki_priority = 2\<rparr>,
     \<lparr>ki_rest = [(''b'', [3]), (''c'', [4])], ki_priority = 0\<rparr>]"

lemma demo_iters_ok: "\<forall>it \<in> set demo_iters. sorted_wrt (<) (map fst (ki_rest it))" "distinct (map ki_priority demo_iters)"
  by code_simp+

theorem merge_exact_witness:
  "map_of (skip_same None (merge_iters demo_iters)) ''c'' = first_source demo_iters ''c'' \<and>
   first_source demo_iters ''c'' = Some [4] \<and> skip_same None (merge_iters demo_iters) = [(''a'', [1]), (''b'', [3]), (''c'', [4])]"
proof -
  have "first_source demo_iters ''c'' = Some [4]" by code_simp
  moreover have "skip_same None (merge_iters demo_iters) = [(''a'', [1]), (''b'', [3]), (''c'', [4])]" by code_simp
  ultimately show ?thesis using merge_exact [OF demo_iters_ok, of "''c''"] by blast
qed

end
