(* ===== verification/NovaStore.thy ===== *)
theory NovaStore
  imports NovaMerge
begin

text \<open>
  \<open>NovaCollection\<close> of \<open>src/database/index.ts\<close>: a collection as its memtables, its tables by level and its
  files on disk, with the operations that read, write, flush, compact and start it.  Every operation is
  one step, except that a flush is handed over (\<open>triggerBackgroundFlush\<close>) and finished later
  (\<open>runFlush\<close>), and that a write may wait for a free place in the queue (\<open>waitForImmutableSlot\<close>).
\<close>

subsection \<open>The state\<close>

datatype manifest_entry =
    MFlush nat nat nat \<comment> \<open>lsn, table, level\<close>
  | MCompact "nat list" "nat list" nat \<comment> \<open>removed, added, level of the added\<close>
  | MCheckpoint nat "(nat \<times> nat) list" \<comment> \<open>lsn, tables with their levels\<close>

text \<open>A flush that has been handed over: what its closure holds.\<close>

record flush_job =
  fj_id :: nat
  fj_table :: memtable
  fj_lsn :: nat
  fj_oldest :: nat
  fj_hasSnaps :: bool

text \<open>
  The memtables in the queue carry the number of their flush, which stands for their identity.
  \<open>nc_files\<close> holds the table files by number, \<open>nc_flushing\<close> the logs of the flushes under way.
\<close>

record nova_coll =
  nc_memtable :: memtable
  nc_queue :: "(nat \<times> memtable) list"
  nc_levels :: "sst_meta list list"
  nc_snapshots :: snapshots
  nc_walLsn :: nat
  nc_nextTxnId :: nat
  nc_committedTxnId :: nat
  nc_nextSstableId :: nat
  nc_isReplica :: bool
  nc_jobs :: "flush_job list"
  nc_waiting :: nat
  nc_files :: "(nat, buffer) jsmap"
  nc_activeWal :: buffer
  nc_flushing :: "(nat, buffer) jsmap"
  nc_manifest :: "manifest_entry list"

definition new_NovaCollection :: "nova_config \<Rightarrow> nova_coll" where
  "new_NovaCollection cf =
    \<lparr>nc_memtable = new_memtable, nc_queue = [], nc_levels = replicate (cf_numLevels cf) [], nc_snapshots = [],
     nc_walLsn = 0, nc_nextTxnId = 1, nc_committedTxnId = 0, nc_nextSstableId = 0, nc_isReplica = False,
     nc_jobs = [], nc_waiting = 0, nc_files = [], nc_activeWal = [], nc_flushing = [], nc_manifest = []\<rparr>"

definition by_id_desc :: "sst_meta \<Rightarrow> sst_meta \<Rightarrow> int" where
  "by_id_desc a b = int (sm_id b) - int (sm_id a)"

interpretation tables: key_comparator by_id_desc "\<lambda>t. - int (sm_id t)"
  by unfold_locales (auto simp: by_id_desc_def)

definition sstables :: "nova_coll \<Rightarrow> sst_meta list" where
  "sstables c = js_sort_by by_id_desc (concat (nc_levels c))"

subsection \<open>Reading\<close>

definition live :: "nova_doc \<Rightarrow> nova_doc option" where
  "live d = (if doc_deleted d then None else Some d)"

definition visibleTo :: "nova_doc \<Rightarrow> nat \<Rightarrow> bool" where
  "visibleTo d snap = (case doc_txnId d of None \<Rightarrow> True | Some t \<Rightarrow> t \<le> snap)"

fun queue_get :: "string \<Rightarrow> nat \<Rightarrow> (nat \<times> memtable) list \<Rightarrow> buffer option" where
  "queue_get docId snap [] = None"
| "queue_get docId snap (q # qs) =
     (case mt_get docId snap (snd q) of Some b \<Rightarrow> Some b | None \<Rightarrow> queue_get docId snap qs)"

text \<open>One table after another; a missing file is passed over, a checksum that fails is an error.\<close>

fun tables_get :: "nova_lib \<Rightarrow> (nat, buffer) jsmap \<Rightarrow> string \<Rightarrow> nat \<Rightarrow> sst_meta list \<Rightarrow> nova_error + nova_doc option" where
  "tables_get lib files docId snap [] = Inr None"
| "tables_get lib files docId snap (t # ts) =
     (if \<not> bloom_check (nl_hash32 lib) (sm_bloom t) docId then tables_get lib files docId snap ts
      else case jm_get files (sm_id t) of
          None \<Rightarrow> tables_get lib files docId snap ts
        | Some file \<Rightarrow>
            (case readRecordFromDisk lib file t docId of
               Inl e \<Rightarrow> Inl e
             | Inr found \<Rightarrow>
                 if found \<noteq> None \<and> visibleTo (the found) snap then Inr (live (the found))
                 else (case readVersionedFromDisk lib file t docId snap of
                         Some d \<Rightarrow> Inr (live d)
                       | None \<Rightarrow> tables_get lib files docId snap ts)))"

definition nc_get :: "nova_lib \<Rightarrow> string \<Rightarrow> nat option \<Rightarrow> nova_coll \<Rightarrow> nova_error + nova_doc option" where
  "nc_get lib docId snapshot c =
    (let snap = (case snapshot of None \<Rightarrow> nc_committedTxnId c | Some s \<Rightarrow> s)
     in case mt_get docId snap (nc_memtable c) of
          Some b \<Rightarrow> Inr (live (nl_unpack lib b))
        | None \<Rightarrow>
            (case queue_get docId snap (rev (nc_queue c)) of
               Some b \<Rightarrow> Inr (live (nl_unpack lib b))
             | None \<Rightarrow> tables_get lib (nc_files c) docId snap (sstables c)))"

text \<open>\<open>scan\<close>: the merge of everything between two keys, reduced to what the snapshot may see.\<close>

fun versioned_get :: "nova_lib \<Rightarrow> (nat, buffer) jsmap \<Rightarrow> string \<Rightarrow> nat \<Rightarrow> sst_meta list \<Rightarrow> nova_doc option" where
  "versioned_get lib files key snap [] = None"
| "versioned_get lib files key snap (t # ts) =
     (if \<not> bloom_check (nl_hash32 lib) (sm_bloom t) key then versioned_get lib files key snap ts
      else case jm_get files (sm_id t) of
          None \<Rightarrow> versioned_get lib files key snap ts
        | Some file \<Rightarrow>
            (case readVersionedFromDisk lib file t key snap of
               Some d \<Rightarrow> Some d
             | None \<Rightarrow> versioned_get lib files key snap ts))"

fun scan_loop ::
    "nova_lib \<Rightarrow> nat \<Rightarrow> (string \<Rightarrow> nova_doc option) \<Rightarrow> string option \<Rightarrow> string option \<Rightarrow> merged \<Rightarrow> nova_doc list" where
  "scan_loop lib snap older lastEmittedKey lastSeenKey [] = []"
| "scan_loop lib snap older lastEmittedKey lastSeenKey ((key, prio, value) # ms) =
     (if isVersionedKey key \<or> lastEmittedKey = Some key then scan_loop lib snap older lastEmittedKey lastSeenKey ms
      else let doc = nl_unpack lib value
           in if visibleTo doc snap
              then (if doc_deleted doc then [] else [doc]) @ scan_loop lib snap older (Some key) (Some key) ms
              else if lastSeenKey = Some key then scan_loop lib snap older lastEmittedKey lastSeenKey ms
              else (case older key of
                      Some d \<Rightarrow> (if doc_deleted d then [] else [d]) @ scan_loop lib snap older (Some key) (Some key) ms
                    | None \<Rightarrow> scan_loop lib snap older lastEmittedKey (Some key) ms))"

definition in_range :: "string \<Rightarrow> string \<Rightarrow> sst_meta \<Rightarrow> bool" where
  "in_range fromId toId t \<longleftrightarrow> \<not> (sm_maxKey t \<noteq> [] \<and> sm_maxKey t < fromId) \<and> \<not> (sm_minKey t \<noteq> [] \<and> sm_minKey t > toId)"

definition table_records :: "nova_lib \<Rightarrow> (nat, buffer) jsmap \<Rightarrow> string option \<Rightarrow> string option \<Rightarrow> sst_meta \<Rightarrow>
    nova_error + (string \<times> buffer) list" where
  "table_records lib files fromKey toKey t = (case jm_get files (sm_id t) of
      None \<Rightarrow> Inl BadTable | Some file \<Rightarrow> Inr (sst_iterate lib file t fromKey toKey))"

text \<open>The sources with their priorities: the position in the list.\<close>

definition number_iters :: "(string \<times> buffer) list list \<Rightarrow> kv_iter list" where
  "number_iters sources = map (\<lambda>i. \<lparr>ki_rest = sources ! i, ki_priority = i\<rparr>) [0..<length sources]"

definition nc_scan :: "nova_lib \<Rightarrow> string \<Rightarrow> string \<Rightarrow> nat option \<Rightarrow> nova_coll \<Rightarrow> nova_error + nova_doc list" where
  "nc_scan lib fromId toId snapshot c =
    (let snap = (case snapshot of None \<Rightarrow> nc_committedTxnId c | Some s \<Rightarrow> s);
         mems = map (\<lambda>m. iterSnapshot m snap fromId toId) (nc_memtable c # map snd (rev (nc_queue c)))
     in case map_res (table_records lib (nc_files c) (Some fromId) (Some toId)) (filter (in_range fromId toId) (sstables c)) of
          Inl e \<Rightarrow> Inl e
        | Inr tabs \<Rightarrow>
            Inr (scan_loop lib snap (\<lambda>key. versioned_get lib (nc_files c) key snap (sstables c)) None None
              (merge_iters (number_iters (mems @ tabs)))))"

subsection \<open>Flushing\<close>

definition set_all :: "('k, 'v) jsmap \<Rightarrow> ('k \<times> 'v) list \<Rightarrow> ('k, 'v) jsmap" where
  "set_all m kvs = foldl (\<lambda>m kv. jm_set m (fst kv) (snd kv)) m kvs"

text \<open>The memtable is handed over and the log it stands in is set aside with it.\<close>

definition triggerBackgroundFlush :: "nova_coll \<Rightarrow> nova_coll" where
  "triggerBackgroundFlush c =
    (let i = nc_nextSstableId c
     in c\<lparr>nc_memtable := new_memtable, nc_queue := nc_queue c @ [(i, nc_memtable c)], nc_nextSstableId := i + 1,
          nc_flushing := jm_set (nc_flushing c) i (nc_activeWal c), nc_activeWal := [],
          nc_jobs := nc_jobs c @ [\<lparr>fj_id = i, fj_table = nc_memtable c, fj_lsn = nc_walLsn c,
            fj_oldest = snap_oldest (nc_snapshots c), fj_hasSnaps = snap_hasAny (nc_snapshots c)\<rparr>]\<rparr>)"

definition flush_map :: "flush_job \<Rightarrow> (string, buffer) jsmap" where
  "flush_map j = (if fj_hasSnaps j then set_all [] (toFlushEntries (fj_oldest j) True (fj_table j)) else mt_toMap (fj_table j))"

text \<open>\<open>runFlush\<close> up to the compaction it may start; a file that cannot be written leaves the job for a retry.\<close>

definition flush_done :: "flush_job \<Rightarrow> buffer \<Rightarrow> sst_meta \<Rightarrow> nova_coll \<Rightarrow> nova_coll" where
  "flush_done j file meta c =
    c\<lparr>nc_levels := (case nc_levels c of [] \<Rightarrow> [] | l0 # ls \<Rightarrow> (meta # l0) # ls),
      nc_queue := filter (\<lambda>q. fst q \<noteq> fj_id j) (nc_queue c),
      nc_manifest := nc_manifest c @ [MFlush (fj_lsn j) (fj_id j) 0],
      nc_files := jm_set (nc_files c) (fj_id j) file,
      nc_flushing := jm_delete (nc_flushing c) (fj_id j),
      nc_jobs := filter (\<lambda>k. fj_id k \<noteq> fj_id j) (nc_jobs c)\<rparr>"

subsection \<open>Compaction\<close>

definition levelTargetBytes :: "nova_config \<Rightarrow> nat \<Rightarrow> nat" where
  "levelTargetBytes cf level = (if level = 0 then 0 else cf_l1MaxBytes cf * cf_levelSizeMultiplier cf ^ (level - 1))"

definition apart :: "string \<Rightarrow> string \<Rightarrow> sst_meta \<Rightarrow> bool" where
  "apart minKey maxKey t \<longleftrightarrow> sm_maxKey t < minKey \<or> sm_minKey t > maxKey"

definition isBottommostLevel :: "nat \<Rightarrow> string \<Rightarrow> string \<Rightarrow> nova_coll \<Rightarrow> bool" where
  "isBottommostLevel level minKey maxKey c \<longleftrightarrow> list_all (apart minKey maxKey) (concat (drop (level + 1) (nc_levels c)))"

text \<open>The records that are written on: without versions nobody reads, and without tombstones at the bottom.\<close>

definition kept_record :: "nova_lib \<Rightarrow> nat \<Rightarrow> bool \<Rightarrow> string \<times> buffer \<Rightarrow> bool" where
  "kept_record lib gcCutoffTxnId isBottommost kv \<longleftrightarrow>
    (if isVersionedKey (fst kv) then gcCutoffTxnId \<le> snd (decodeVersionedKey (fst kv))
     else \<not> (doc_deleted (nl_unpack lib (snd kv)) \<and> isBottommost))"

text \<open>The outputs: a new file as soon as one has reached its size, so the last may be empty.\<close>

fun split_outputs :: "nova_lib \<Rightarrow> nova_config \<Rightarrow> (string \<times> buffer) list \<Rightarrow> nat \<Rightarrow> (string \<times> buffer) list \<Rightarrow> (string \<times> buffer) list list" where
  "split_outputs lib cf cur currentOffset [] = [rev cur]"
| "split_outputs lib cf cur currentOffset (kv # kvs) =
     (let n = currentOffset + length (record_bytes lib (cf_blockCompression cf) kv)
      in if cf_targetFileSizeBytes cf \<le> n then rev (kv # cur) # split_outputs lib cf [] 0 kvs
         else split_outputs lib cf (kv # cur) n kvs)"

definition finalizeOutput :: "nova_lib \<Rightarrow> nova_config \<Rightarrow> bloom \<Rightarrow> nat \<Rightarrow> nat \<Rightarrow> (string \<times> buffer) list \<Rightarrow> buffer \<times> sst_meta" where
  "finalizeOutput lib cf bl sstableId outputLevel kvs =
    (let index = file_index lib cf kvs; file = file_bytes lib cf bl kvs
     in (file, \<lparr>sm_id = sstableId, sm_level = outputLevel, sm_index = index, sm_bloom = bl,
          sm_minKey = (if index = [] then [] else fst (hd index)),
          sm_maxKey = (if index = [] then [] else fst (last index)),
          sm_keyCount = length kvs, sm_sizeBytes = length file\<rparr>))"

text \<open>The loop over the outputs; a record that does not fit ends it with an error, what is on disk stays.\<close>

fun write_outputs :: "nova_lib \<Rightarrow> nova_config \<Rightarrow> nat \<Rightarrow> nat \<Rightarrow> (string \<times> buffer) list list \<Rightarrow> sst_meta list \<Rightarrow>
    nat \<times> (nat, buffer) jsmap \<Rightarrow> (nat \<times> (nat, buffer) jsmap) \<times> (nova_error + sst_meta list)" where
  "write_outputs lib cf expected outputLevel [] results (nextId, files) = ((nextId, files), Inr results)"
| "write_outputs lib cf expected outputLevel (kvs # rest) results (nextId, files) =
     (let bl = add_keys lib (new_bloom (nl_bloomSize lib expected) (nl_hashCount lib expected)) kvs
      in if kvs = [] \<and> results \<noteq> [] then ((nextId + 1, files), Inr results)
         else if \<not> file_fits lib cf bl kvs then ((nextId + 1, files), Inl OutOfRange)
         else (case finalizeOutput lib cf bl nextId outputLevel kvs of
            (file, meta) \<Rightarrow> write_outputs lib cf expected outputLevel rest (results @ [meta]) (nextId + 1, jm_set files nextId file)))"

definition ceil_div :: "nat \<Rightarrow> nat \<Rightarrow> nat" where
  "ceil_div a b = (a + b - 1) div b"

definition compactSSTablesStreaming :: "nova_lib \<Rightarrow> nova_config \<Rightarrow> sst_meta list \<Rightarrow> nat \<Rightarrow> bool \<Rightarrow> nova_coll \<Rightarrow>
    nova_coll \<times> (nova_error + sst_meta list)" where
  "compactSSTablesStreaming lib cf tables outputLevel isBottommost c =
    (case map_res (table_records lib (nc_files c) None None) tables of
       Inl e \<Rightarrow> (c, Inl e)
     | Inr sources \<Rightarrow>
         (let kvs = filter (kept_record lib (snap_oldest (nc_snapshots c)) isBottommost)
                (skip_same None (merge_iters (number_iters (rev sources))));
              expected = max (ceil_div (sum_list (map sm_keyCount tables)) (max (length tables) 1)) 1
          in case write_outputs lib cf expected outputLevel (split_outputs lib cf [] 0 kvs) [] (nc_nextSstableId c, nc_files c) of
               ((nextId, files), res) \<Rightarrow> (c\<lparr>nc_nextSstableId := nextId, nc_files := files\<rparr>, res)))"

definition by_id :: "sst_meta \<Rightarrow> sst_meta \<Rightarrow> int" where
  "by_id a b = int (sm_id a) - int (sm_id b)"

definition by_size_desc :: "sst_meta \<Rightarrow> sst_meta \<Rightarrow> int" where
  "by_size_desc a b = int (sm_sizeBytes b) - int (sm_sizeBytes a)"

definition by_minKey :: "sst_meta \<Rightarrow> sst_meta \<Rightarrow> int" where
  "by_minKey a b = (if sm_minKey a < sm_minKey b then -1 else 1)"

definition compaction_inputs :: "nova_config \<Rightarrow> nat \<Rightarrow> nova_coll \<Rightarrow> sst_meta list" where
  "compaction_inputs cf level c =
    (if level = 0 then nc_levels c ! 0
     else if sum_list (map sm_sizeBytes (nc_levels c ! level)) \<le> levelTargetBytes cf level then []
     else take 1 (js_sort_by by_size_desc (nc_levels c ! level)))"

definition least_key :: "sst_meta list \<Rightarrow> string" where
  "least_key ts = foldl (\<lambda>m t. if sm_minKey t < m then sm_minKey t else m) (sm_minKey (hd ts)) ts"

definition greatest_key :: "sst_meta list \<Rightarrow> string" where
  "greatest_key ts = foldl (\<lambda>m t. if sm_maxKey t > m then sm_maxKey t else m) (sm_maxKey (hd ts)) ts"

text \<open>One compaction of a level into the next; \<open>None\<close> when there is nothing to do or it failed.\<close>

definition compact_level :: "nova_lib \<Rightarrow> nova_config \<Rightarrow> nat \<Rightarrow> nova_coll \<Rightarrow> nova_coll \<times> bool" where
  "compact_level lib cf level c =
    (let nextLevel = level + 1; inputs = compaction_inputs cf level c
     in if length (nc_levels c) \<le> nextLevel \<or> inputs = [] then (c, False)
        else let minKey = least_key inputs; maxKey = greatest_key inputs;
                 overlapping = filter (\<lambda>t. \<not> apart minKey maxKey t) (nc_levels c ! nextLevel);
                 allInputs = js_sort_by by_id (inputs @ overlapping);
                 removed = map sm_id allInputs;
                 others = filter (\<lambda>t. sm_id t \<notin> set removed)
             in case compactSSTablesStreaming lib cf allInputs nextLevel (isBottommostLevel nextLevel minKey maxKey c) c of
                  (c', Inl e) \<Rightarrow> (c', False)
                | (c', Inr metas) \<Rightarrow>
                    (c'\<lparr>nc_levels := (nc_levels c)[level := others (nc_levels c ! level),
                         nextLevel := js_sort_by by_minKey (metas @ others (nc_levels c ! nextLevel))],
                       nc_manifest := nc_manifest c @ [MCompact removed (map sm_id metas) nextLevel],
                       nc_files := foldl jm_delete (nc_files c') removed\<rparr>, True))"

text \<open>\<open>runLeveledCompaction\<close> goes on to the next level while that is too big; the levels bound it.\<close>

fun runLeveledCompaction :: "nova_lib \<Rightarrow> nova_config \<Rightarrow> nat \<Rightarrow> nat \<Rightarrow> nova_coll \<Rightarrow> nova_coll" where
  "runLeveledCompaction lib cf 0 level c = c"
| "runLeveledCompaction lib cf (Suc n) level c =
     (case compact_level lib cf level c of
        (c', False) \<Rightarrow> c'
      | (c', True) \<Rightarrow>
          if level + 1 < length (nc_levels c') - 1 \<and>
             levelTargetBytes cf (level + 1) < sum_list (map sm_sizeBytes (nc_levels c' ! (level + 1)))
          then runLeveledCompaction lib cf n (level + 1) c' else c')"

definition runFlush :: "nova_lib \<Rightarrow> nova_config \<Rightarrow> flush_job \<Rightarrow> nova_coll \<Rightarrow> nova_coll" where
  "runFlush lib cf j c =
    (case writeSSTableFile lib cf (flush_map j) (fj_id j) 0 of
       Inl e \<Rightarrow> c
     | Inr (file, meta) \<Rightarrow>
         (let c' = flush_done j file meta c
          in if cf_l0CompactionThreshold cf \<le> length (hd (nc_levels c'))
             then runLeveledCompaction lib cf (length (nc_levels c')) 0 c' else c'))"

subsection \<open>Writing\<close>

definition wait_or_flush :: "nova_config \<Rightarrow> nova_coll \<Rightarrow> nova_coll" where
  "wait_or_flush cf c =
    (if mt_byteSize (nc_memtable c) < cf_memtableLimitBytes cf then c
     else if cf_maxImmutableMemtables cf \<le> length (nc_queue c) then c\<lparr>nc_waiting := nc_waiting c + 1\<rparr>
     else triggerBackgroundFlush c)"

text \<open>A write that has waited for a place in the queue hands over the memtable of that time.\<close>

definition slot_free :: "nova_config \<Rightarrow> nova_coll \<Rightarrow> nova_coll" where
  "slot_free cf c = (if 0 < nc_waiting c \<and> length (nc_queue c) < cf_maxImmutableMemtables cf
     then triggerBackgroundFlush (c\<lparr>nc_waiting := nc_waiting c - 1\<rparr>) else c)"

definition memtable_set :: "string \<Rightarrow> nat \<Rightarrow> buffer \<Rightarrow> nova_coll \<Rightarrow> nova_coll" where
  "memtable_set docId txnId b c =
    c\<lparr>nc_memtable := mt_set docId txnId b (snap_oldest (nc_snapshots c)) (nc_memtable c)\<rparr>"

text \<open>\<open>upsert\<close>: the log first, then the memtable.  \<open>freshId\<close> is the random id of a document without one.\<close>

definition doc_to_write :: "string \<Rightarrow> nova_doc \<Rightarrow> nova_coll \<Rightarrow> nova_doc" where
  "doc_to_write freshId doc c =
    doc\<lparr>doc_id := (if doc_id doc = [] then freshId else doc_id doc), doc_txnId := Some (nc_nextTxnId c),
        doc_lsn := (if doc_deleted doc then Some (nc_walLsn c) else doc_lsn doc)\<rparr>"

definition upsert :: "nova_lib \<Rightarrow> nova_config \<Rightarrow> string \<Rightarrow> nova_doc \<Rightarrow> nova_coll \<Rightarrow> nova_coll \<times> (nova_error + string)" where
  "upsert lib cf freshId doc c =
    (if nc_isReplica c then (c, Inl ReadOnlyReplica)
     else let txnId = nc_nextTxnId c; d = doc_to_write freshId doc c;
              entry = \<lparr>we_lsn = nc_walLsn c, we_key = utf8_bytes (doc_id d), we_doc = nl_pack lib d\<rparr>;
              c1 = c\<lparr>nc_nextTxnId := txnId + 1, nc_walLsn := nc_walLsn c + 1\<rparr>
          in case wal_encode entry of
               Inl e \<Rightarrow> (c1, Inl e)
             | Inr record \<Rightarrow>
                 (wait_or_flush cf (memtable_set (doc_id d) txnId (nl_pack lib d)
                    (c1\<lparr>nc_activeWal := nc_activeWal c @ record, nc_committedTxnId := max txnId (nc_committedTxnId c)\<rparr>)),
                  Inr (doc_id d)))"

definition tombstone :: "string \<Rightarrow> nova_doc" where
  "tombstone docId = \<lparr>doc_id = docId, doc_deleted = True, doc_txnId = None, doc_lsn = None, doc_fields = []\<rparr>"

definition nc_delete :: "nova_lib \<Rightarrow> nova_config \<Rightarrow> string \<Rightarrow> string \<Rightarrow> nova_coll \<Rightarrow> nova_coll \<times> (nova_error + string)" where
  "nc_delete lib cf freshId docId c = upsert lib cf freshId (tombstone docId) c"

text \<open>Transactions: staged writes, then one batch in the log.\<close>

record nova_txn =
  tx_writes :: "(string, nova_doc) jsmap"
  tx_committed :: bool

definition beginTransaction :: nova_txn where
  "beginTransaction = \<lparr>tx_writes = [], tx_committed = False\<rparr>"

definition stageWrite :: "string \<Rightarrow> nova_doc \<Rightarrow> nova_txn \<Rightarrow> nova_txn \<times> (nova_error + string)" where
  "stageWrite freshId doc txn =
    (if tx_committed txn then (txn, Inl AlreadyCommitted)
     else let i = (if doc_id doc = [] then freshId else doc_id doc)
          in (txn\<lparr>tx_writes := jm_set (tx_writes txn) i (doc\<lparr>doc_id := i\<rparr>)\<rparr>, Inr i))"

definition stageDelete :: "string \<Rightarrow> string \<Rightarrow> nova_txn \<Rightarrow> nova_txn \<times> (nova_error + string)" where
  "stageDelete freshId docId txn = stageWrite freshId (tombstone docId) txn"

definition rollback :: "nova_txn \<Rightarrow> nova_txn" where
  "rollback txn = \<lparr>tx_writes = [], tx_committed = True\<rparr>"

fun batch_records :: "nova_lib \<Rightarrow> nat \<Rightarrow> nova_doc list \<Rightarrow> wal_entry list" where
  "batch_records lib lsn [] = []"
| "batch_records lib lsn (d # ds) =
     \<lparr>we_lsn = lsn, we_key = utf8_bytes (doc_id d), we_doc = nl_pack lib d\<rparr> # batch_records lib (lsn + 1) ds"

definition commit :: "nova_lib \<Rightarrow> nova_config \<Rightarrow> nova_txn \<Rightarrow> nova_coll \<Rightarrow> (nova_coll \<times> nova_txn) \<times> (nova_error + unit)" where
  "commit lib cf txn c =
    (if tx_committed txn then ((c, txn), Inl AlreadyCommitted)
     else if tx_writes txn = [] then ((c, txn\<lparr>tx_committed := True\<rparr>), Inr ())
     else let txnId = nc_nextTxnId c; docs = map (\<lambda>d. d\<lparr>doc_txnId := Some txnId\<rparr>) (jm_values (tx_writes txn));
              records = batch_records lib (nc_walLsn c) docs;
              fitting = takeWhile wal_fits records
          in if length fitting < length records
             then ((c\<lparr>nc_nextTxnId := txnId + 1, nc_walLsn := nc_walLsn c + length fitting + 1\<rparr>, txn), Inl OutOfRange)
             else let c1 = c\<lparr>nc_nextTxnId := txnId + 1, nc_walLsn := nc_walLsn c + length records,
                        nc_activeWal := nc_activeWal c @ concat (map wal_bytes records),
                        nc_committedTxnId := max txnId (nc_committedTxnId c)\<rparr>;
                      c2 = foldl (\<lambda>c d. memtable_set (doc_id d) txnId (nl_pack lib d) c) c1 docs
                  in ((wait_or_flush cf c2, txn\<lparr>tx_committed := True\<rparr>), Inr ()))"

definition openSnapshot :: "nova_coll \<Rightarrow> nova_coll \<times> nat" where
  "openSnapshot c = (c\<lparr>nc_snapshots := snap_open (nc_committedTxnId c) (nc_snapshots c)\<rparr>, nc_committedTxnId c)"

definition closeSnapshot :: "nat \<Rightarrow> nova_coll \<Rightarrow> nova_coll" where
  "closeSnapshot snap c = c\<lparr>nc_snapshots := snap_close snap (nc_snapshots c)\<rparr>"

subsection \<open>Starting\<close>

text \<open>What the manifest says: the tables with their levels, in the order of a \<open>Map\<close>, and two numbers.\<close>

record manifest_state =
  ms_active :: "(nat, nat) jsmap"
  ms_checkpointLsn :: nat
  ms_walLsn :: nat

fun apply_entry :: "manifest_state \<Rightarrow> manifest_entry \<Rightarrow> manifest_state" where
  "apply_entry m (MCheckpoint lsn tables) = m\<lparr>ms_active := set_all [] tables, ms_checkpointLsn := lsn\<rparr>"
| "apply_entry m (MFlush lsn i level) = m\<lparr>ms_active := jm_set (ms_active m) i level, ms_walLsn := max (ms_walLsn m) (lsn + 1)\<rparr>"
| "apply_entry m (MCompact removed added level) =
     m\<lparr>ms_active := set_all (foldl jm_delete (ms_active m) removed) (map (\<lambda>i. (i, level)) added)\<rparr>"

text \<open>A table that cannot be read is passed over.\<close>

definition load_table :: "nova_lib \<Rightarrow> nova_coll \<Rightarrow> nat \<times> nat \<Rightarrow> nova_coll" where
  "load_table lib c t =
    (case jm_get (nc_files c) (fst t) of
       None \<Rightarrow> c
     | Some file \<Rightarrow>
         (case readSSTableMetadata lib file (fst t) (snd t) of
            Inl e \<Rightarrow> c
          | Inr meta \<Rightarrow>
              if snd t < length (nc_levels c)
              then c\<lparr>nc_levels := (nc_levels c)[snd t := nc_levels c ! snd t @ [meta]],
                     nc_nextSstableId := max (nc_nextSstableId c) (fst t + 1)\<rparr>
              else c))"

text \<open>Without a manifest every file is a table of level 0, and takes its number whether it can be read or not.\<close>

definition loadSSTablesMetadata :: "nova_lib \<Rightarrow> nova_coll \<Rightarrow> nova_coll" where
  "loadSSTablesMetadata lib c = foldl (\<lambda>c i. load_table lib (c\<lparr>nc_nextSstableId := max (nc_nextSstableId c) (i + 1)\<rparr>) (i, 0)) c
     (sort (jm_keys (nc_files c)))"

definition loadFromManifest :: "nova_lib \<Rightarrow> nova_coll \<Rightarrow> nova_coll" where
  "loadFromManifest lib c =
    (if nc_manifest c = [] then loadSSTablesMetadata lib c
     else let m = foldl apply_entry \<lparr>ms_active = [], ms_checkpointLsn = 0, ms_walLsn = nc_walLsn c\<rparr> (nc_manifest c);
              c1 = foldl (load_table lib) (c\<lparr>nc_walLsn := ms_walLsn m\<rparr>) (ms_active m)
          in c1\<lparr>nc_files := filter (\<lambda>f. fst f \<in> set (jm_keys (ms_active m))) (nc_files c1),
               nc_manifest := [MCheckpoint (ms_checkpointLsn m) (map (\<lambda>t. (sm_id t, sm_level t)) (sstables c1))]\<rparr>)"

text \<open>The tombstone a table holds for a document; a checksum that fails is logged and passed over.\<close>

fun probe_tables :: "nova_lib \<Rightarrow> (nat, buffer) jsmap \<Rightarrow> string \<Rightarrow> sst_meta list \<Rightarrow> nat option" where
  "probe_tables lib files docId [] = None"
| "probe_tables lib files docId (t # ts) =
     (if \<not> bloom_check (nl_hash32 lib) (sm_bloom t) docId then probe_tables lib files docId ts
      else case jm_get files (sm_id t) of
          None \<Rightarrow> probe_tables lib files docId ts
        | Some file \<Rightarrow>
            (case readRecordFromDisk lib file t docId of
               Inr (Some d) \<Rightarrow> (if doc_deleted d then Some (case doc_lsn d of None \<Rightarrow> 0 | Some l \<Rightarrow> l)
                 else probe_tables lib files docId ts)
             | _ \<Rightarrow> probe_tables lib files docId ts))"

definition probeSStableForTombstone :: "nova_lib \<Rightarrow> nova_coll \<Rightarrow> string \<Rightarrow> nat option" where
  "probeSStableForTombstone lib c docId = probe_tables lib (nc_files c) docId (sstables c)"

definition doc_key :: "buffer \<Rightarrow> string" where
  "doc_key b = (case utf8_text b of None \<Rightarrow> [] | Some s \<Rightarrow> s)"

definition recover_entry :: "nova_lib \<Rightarrow> nova_coll \<Rightarrow> wal_entry \<Rightarrow> nova_coll" where
  "recover_entry lib c e =
    (let docId = doc_key (we_key e); c1 = c\<lparr>nc_walLsn := max (nc_walLsn c) (we_lsn e + 1)\<rparr>
     in if (case probeSStableForTombstone lib c docId of None \<Rightarrow> False | Some l \<Rightarrow> we_lsn e \<le> l) then c1
        else let txnId = (case doc_txnId (nl_unpack lib (we_doc e)) of None \<Rightarrow> we_lsn e | Some t \<Rightarrow> t)
             in memtable_set docId txnId (we_doc e)
                  (c1\<lparr>nc_committedTxnId := max (nc_committedTxnId c) txnId, nc_nextTxnId := max (nc_nextTxnId c) (txnId + 1)\<rparr>))"

definition recoverFromWAL :: "nova_lib \<Rightarrow> nova_coll \<Rightarrow> buffer \<Rightarrow> nova_coll" where
  "recoverFromWAL lib c wal = foldl (recover_entry lib) c (wal_scan wal)"

definition recoverAllFlushingWals :: "nova_lib \<Rightarrow> nova_coll \<Rightarrow> nova_coll" where
  "recoverAllFlushingWals lib c = foldl (\<lambda>d i. recoverFromWAL lib d (the (jm_get (nc_flushing c) i))) c (sort (jm_keys (nc_flushing c)))"

text \<open>A process that starts on the files of an earlier one.\<close>

definition on_disk :: "nova_config \<Rightarrow> nova_coll \<Rightarrow> nova_coll" where
  "on_disk cf c = (new_NovaCollection cf)\<lparr>nc_files := nc_files c, nc_activeWal := nc_activeWal c,
     nc_flushing := nc_flushing c, nc_manifest := nc_manifest c\<rparr>"

definition boot :: "nova_lib \<Rightarrow> nova_config \<Rightarrow> nova_coll \<Rightarrow> nova_coll" where
  "boot lib cf c = (let c1 = recoverAllFlushingWals lib (loadFromManifest lib (on_disk cf c)) in recoverFromWAL lib c1 (nc_activeWal c1))"

end
