(* ===== verification/NovaLib.thy ===== *)
theory NovaLib
  imports NovaSstable
begin

text \<open>
  An executable instance of \<open>nova_lib\<close> with the laws of \<open>lib_ok\<close>, on which the witnesses about NovaDB
  run: values are packed by a tag and their parts, texts end in a zero, and the compression counts the
  zeros at the start.  It stands in for \<open>msgpackr\<close>, \<open>zlib\<close> and MurmurHash only in the witnesses.
\<close>

subsection \<open>Packing\<close>

fun enc_str :: "string \<Rightarrow> buffer" where
  "enc_str [] = [0]"
| "enc_str (c # s) = 1 # word_of_nat (of_char c) # enc_str s"

fun dec_str :: "buffer \<Rightarrow> string \<times> buffer" where
  "dec_str (t # c # b) = (if t = 0 then ([], c # b) else case dec_str b of (s, r) \<Rightarrow> (char_of (unat c) # s, r))"
| "dec_str b = ([], tl b)"

definition enc_int :: "int \<Rightarrow> buffer" where
  "enc_int n = (if n < 0 then 1 else 0) # enc_str (nat_to_str (nat \<bar>n\<bar>))"

definition dec_int :: "buffer \<Rightarrow> int \<times> buffer" where
  "dec_int b = (case dec_str (tl b) of (s, r) \<Rightarrow>
     ((if hd b = 1 then - int (nat_of_digits s) else int (nat_of_digits s)), r))"

fun enc_jval :: "jval \<Rightarrow> buffer" where
  "enc_jval JNull = [0]"
| "enc_jval (JBool b) = [1, if b then 1 else 0]"
| "enc_jval (JNum n) = 2 # enc_int n"
| "enc_jval (JStr s) = 3 # enc_str s"
| "enc_jval (JArr xs) = 4 # concat (map (\<lambda>x. 1 # enc_jval x) xs) @ [0]"
| "enc_jval (JObj kvs) = 5 # concat (map (\<lambda>kv. 1 # enc_str (fst kv) @ enc_jval (snd kv)) kvs) @ [0]"

text \<open>The decoder's first argument bounds the nesting of its calls.\<close>

fun dec_jval :: "nat \<Rightarrow> buffer \<Rightarrow> jval \<times> buffer"
  and dec_items :: "nat \<Rightarrow> buffer \<Rightarrow> jval list \<times> buffer"
  and dec_fields :: "nat \<Rightarrow> buffer \<Rightarrow> (string \<times> jval) list \<times> buffer" where
  "dec_jval (Suc n) (t # b) =
    (if t = 1 then (JBool (hd b = 1), tl b)
     else if t = 2 then (case dec_int b of (i, r) \<Rightarrow> (JNum i, r))
     else if t = 3 then (case dec_str b of (s, r) \<Rightarrow> (JStr s, r))
     else if t = 4 then (case dec_items n b of (xs, r) \<Rightarrow> (JArr xs, r))
     else if t = 5 then (case dec_fields n b of (kvs, r) \<Rightarrow> (JObj kvs, r))
     else (JNull, b))"
| "dec_jval _ b = (JNull, b)"
| "dec_items (Suc n) (t # b) =
    (if t = 0 then ([], b)
     else case dec_jval n b of (x, r) \<Rightarrow> (case dec_items n r of (xs, r') \<Rightarrow> (x # xs, r')))"
| "dec_items _ b = ([], b)"
| "dec_fields (Suc n) (t # b) =
    (if t = 0 then ([], b)
     else case dec_str b of (k, r) \<Rightarrow> (case dec_jval n r of (x, r') \<Rightarrow>
       (case dec_fields n r' of (kvs, r'') \<Rightarrow> ((k, x) # kvs, r''))))"
| "dec_fields _ b = ([], b)"

lemma dec_enc_str [simp]: "dec_str (enc_str s @ r) = (s, r)"
proof (induction s)
  case Nil
  then show ?case by (cases r) simp_all
next
  case (Cons c s)
  then show ?case by (simp add: unat_of_nat of_char_mod_256)
qed

lemma dec_enc_int [simp]: "dec_int (enc_int n @ r) = (n, r)"
  by (simp add: dec_int_def enc_int_def)

lemma enc_str_pos: "0 < length (enc_str s)"
  by (cases s) simp_all

lemma enc_jval_pos: "0 < length (enc_jval v)"
  by (cases v) simp_all

lemma dec_enc_items:
  assumes "\<And>x n r. x \<in> set xs \<Longrightarrow> length (enc_jval x) \<le> n \<Longrightarrow> dec_jval n (enc_jval x @ r) = (x, r)"
    and "length (concat (map (\<lambda>x. 1 # enc_jval x) xs)) < n"
  shows "dec_items n (concat (map (\<lambda>x. 1 # enc_jval x) xs) @ 0 # r) = (xs, r)"
  using assms
proof (induction xs arbitrary: n)
  case Nil
  then show ?case by (cases n) simp_all
next
  case (Cons x xs)
  then show ?case by (cases n) simp_all
qed

lemma dec_enc_fields:
  assumes "\<And>kv n r. kv \<in> set kvs \<Longrightarrow> length (enc_jval (snd kv)) \<le> n \<Longrightarrow> dec_jval n (enc_jval (snd kv) @ r) = (snd kv, r)"
    and "length (concat (map (\<lambda>kv. 1 # enc_str (fst kv) @ enc_jval (snd kv)) kvs)) < n"
  shows "dec_fields n (concat (map (\<lambda>kv. 1 # enc_str (fst kv) @ enc_jval (snd kv)) kvs) @ 0 # r) = (kvs, r)"
  using assms
proof (induction kvs arbitrary: n)
  case Nil
  then show ?case by (cases n) simp_all
next
  case (Cons kv kvs)
  then show ?case by (cases n) simp_all
qed

lemma dec_enc_jval: "length (enc_jval v) \<le> n \<Longrightarrow> dec_jval n (enc_jval v @ r) = (v, r)"
proof (induction v arbitrary: n r)
  case (JArr xs)
  obtain m where n: "n = Suc m" "length (concat (map (\<lambda>x. 1 # enc_jval x) xs)) < m"
    using JArr.prems by (cases n) simp_all
  then show ?case using dec_enc_items [OF JArr.IH n(2), of r] by simp
next
  case (JObj kvs)
  obtain m where n: "n = Suc m" "length (concat (map (\<lambda>kv. 1 # enc_str (fst kv) @ enc_jval (snd kv)) kvs)) < m"
    using JObj.prems by (cases n) simp_all
  have ih: "dec_jval k (enc_jval (snd kv) @ r) = (snd kv, r)" if "kv \<in> set kvs" "length (enc_jval (snd kv)) \<le> k" for kv k r
    using JObj.IH [of kv "snd kv" k r] that by (cases kv) simp
  from dec_enc_fields [OF ih n(2), of r] show ?case by (simp add: n(1))
qed (auto simp: Suc_le_eq gr0_conv_Suc dest!: gr0_implies_Suc [THEN exE] elim: less_natE)

lemma dec_enc_whole: "fst (dec_jval (length (enc_jval v)) (enc_jval v)) = v"
  using dec_enc_jval [of v "length (enc_jval v)" "[]"] by simp

definition opt_nat :: "nat option \<Rightarrow> jval" where
  "opt_nat v = (case v of None \<Rightarrow> JNull | Some n \<Rightarrow> JNum (int n))"

definition nat_opt :: "jval \<Rightarrow> nat option" where
  "nat_opt v = (case v of JNum n \<Rightarrow> Some (nat n) | _ \<Rightarrow> None)"

lemma nat_opt_nat [simp]: "nat_opt (opt_nat v) = v"
  by (cases v) (simp_all add: nat_opt_def opt_nat_def)

definition demo_pack :: "nova_doc \<Rightarrow> buffer" where
  "demo_pack d = enc_jval (JArr [JStr (doc_id d), JBool (doc_deleted d), opt_nat (doc_txnId d), opt_nat (doc_lsn d), JObj (doc_fields d)])"

definition demo_unpack :: "buffer \<Rightarrow> nova_doc" where
  "demo_unpack b = (case fst (dec_jval (length b) b) of
     JArr [JStr i, JBool d, t, l, JObj f] \<Rightarrow>
       \<lparr>doc_id = i, doc_deleted = d, doc_txnId = nat_opt t, doc_lsn = nat_opt l, doc_fields = f\<rparr>
   | _ \<Rightarrow> \<lparr>doc_id = [], doc_deleted = False, doc_txnId = None, doc_lsn = None, doc_fields = []\<rparr>)"

lemma demo_unpack_pack [simp]: "demo_unpack (demo_pack d) = d"
  unfolding demo_unpack_def demo_pack_def dec_enc_whole by simp

definition demo_packIndex :: "(string \<times> nat) list \<Rightarrow> buffer" where
  "demo_packIndex i = enc_jval (JObj (map (\<lambda>e. (fst e, JNum (int (snd e)))) i))"

definition demo_unpackIndex :: "buffer \<Rightarrow> (string \<times> nat) list" where
  "demo_unpackIndex b = (case fst (dec_jval (length b) b) of
     JObj f \<Rightarrow> map (\<lambda>e. (fst e, case snd e of JNum n \<Rightarrow> nat n | _ \<Rightarrow> 0)) f | _ \<Rightarrow> [])"

lemma demo_unpackIndex_pack [simp]: "demo_unpackIndex (demo_packIndex i) = i"
  unfolding demo_unpackIndex_def demo_packIndex_def dec_enc_whole by (simp add: comp_def)

subsection \<open>Compression and the instance\<close>

definition demo_deflate :: "buffer \<Rightarrow> buffer" where
  "demo_deflate b = (let k = min 255 (length (takeWhile (\<lambda>x. x = 0) b)) in word_of_nat k # drop k b)"

definition demo_inflate :: "buffer \<Rightarrow> buffer" where
  "demo_inflate b = (case b of [] \<Rightarrow> [] | c # r \<Rightarrow> replicate (unat c) 0 @ r)"

lemma demo_inflate_deflate [simp]: "demo_inflate (demo_deflate b) = b"
proof -
  let ?k = "min 255 (length (takeWhile (\<lambda>x. x = 0) b))"
  have "unat (word_of_nat ?k :: byte) = ?k" by (simp add: unat_of_nat)
  moreover have "replicate ?k 0 = take ?k b"
  proof (rule nth_equalityI)
    show "length (replicate ?k 0) = length (take ?k b)" using length_takeWhile_le [of "\<lambda>x. x = 0" b] by simp
    fix i assume "i < length (replicate ?k (0 :: byte))"
    then have i: "i < length (takeWhile (\<lambda>x. x = 0) b)" "i < ?k" by simp_all
    then have "takeWhile (\<lambda>x. x = 0) b ! i = 0" using nth_mem set_takeWhileD by fastforce
    then show "replicate ?k 0 ! i = take ?k b ! i" using i by (simp add: takeWhile_nth)
  qed
  ultimately show ?thesis by (simp add: demo_inflate_def demo_deflate_def Let_def)
qed

definition demo_hash :: "string \<Rightarrow> 32 word \<Rightarrow> 32 word" where
  "demo_hash s seed = foldl (\<lambda>h c. 31 * h + word_of_nat (of_char c)) (seed + 7) s"

definition demo_lib :: nova_lib where
  "demo_lib = \<lparr>nl_pack = demo_pack, nl_unpack = demo_unpack, nl_packIndex = demo_packIndex,
     nl_unpackIndex = demo_unpackIndex, nl_deflate = demo_deflate, nl_inflate = demo_inflate,
     nl_hash32 = demo_hash, nl_bloomSize = (\<lambda>n. 10 * n + 6), nl_hashCount = (\<lambda>n. 2)\<rparr>"

lemma demo_packIndex_ne: "demo_packIndex i \<noteq> []"
  by (simp add: demo_packIndex_def)

lemma demo_lib_ok: "lib_ok demo_lib"
  by (simp add: lib_ok_def demo_lib_def demo_packIndex_ne)

definition demo_nova :: nova_config where
  "demo_nova = \<lparr>cf_memtableLimitBytes = 4096, cf_blockSize = 64, cf_l0CompactionThreshold = 4,
     cf_maxImmutableMemtables = 2, cf_blockCompression = True, cf_numLevels = 3, cf_levelSizeMultiplier = 10,
     cf_l1MaxBytes = 1000, cf_targetFileSizeBytes = 10000\<rparr>"

definition demo_doc :: "string \<Rightarrow> nat \<Rightarrow> nova_doc" where
  "demo_doc i t = \<lparr>doc_id = i, doc_deleted = False, doc_txnId = Some t, doc_lsn = None, doc_fields = [(''v'', JNum 1)]\<rparr>"

end
