(* ===== verification/NovaReads.thy ===== *)
theory NovaReads
  imports NovaStore NovaLib
begin

text \<open>
  What readers of a collection see.  Each memtable and each table is a layer, a map from keys to packed
  documents, the newest first; a read returns the first layer's value.
\<close>

subsection \<open>Layers\<close>

definition mt_top :: "memtable \<Rightarrow> string \<Rightarrow> buffer option" where
  "mt_top m k = (case mt_versions m k of [] \<Rightarrow> None | v # vs \<Rightarrow> Some (snd v))"

fun first_layer :: "('k \<Rightarrow> 'v option) list \<Rightarrow> 'k \<Rightarrow> 'v option" where
  "first_layer [] k = None"
| "first_layer (f # fs) k = (case f k of None \<Rightarrow> first_layer fs k | Some v \<Rightarrow> Some v)"

definition table_content :: "nova_lib \<Rightarrow> (nat, buffer) jsmap \<Rightarrow> sst_meta \<Rightarrow> string \<Rightarrow> buffer option" where
  "table_content lib files t k = (case jm_get files (sm_id t) of None \<Rightarrow> None
     | Some file \<Rightarrow> map_of (sst_iterate lib file t None None) k)"

definition mt_below :: "nova_lib \<Rightarrow> nat \<Rightarrow> memtable \<Rightarrow> bool" where
  "mt_below lib n m \<longleftrightarrow> mt_ok m \<and>
     (\<forall>k. \<forall>v \<in> set (mt_versions m k). fst v \<le> n \<and> visibleTo (nl_unpack lib (snd v)) n \<and> \<not> isVersionedKey k)"

definition table_ok :: "nova_lib \<Rightarrow> nova_config \<Rightarrow> nat \<Rightarrow> (nat, buffer) jsmap \<Rightarrow> sst_meta \<Rightarrow> bool" where
  "table_ok lib cf n files t \<longleftrightarrow> (\<exists>tab file. jm_wf tab \<and> (\<forall>k b. jm_get tab k = Some b \<longrightarrow> visibleTo (nl_unpack lib b) n \<and> \<not> isVersionedKey k) \<and>
     jm_get files (sm_id t) = Some file \<and> writeSSTableFile lib cf tab (sm_id t) 0 = Inr (file, t))"

lemma first_layer_append: "first_layer (fs @ gs) k = (case first_layer fs k of None \<Rightarrow> first_layer gs k | Some v \<Rightarrow> Some v)"
  by (induction fs) (simp_all split: option.splits)

lemma visibleTo_mono: "visibleTo d m \<Longrightarrow> m \<le> n \<Longrightarrow> visibleTo d n"
  by (auto simp: visibleTo_def split: option.splits)

lemma mt_below_mono: "mt_below lib m mt \<Longrightarrow> m \<le> n \<Longrightarrow> mt_below lib n mt"
  unfolding mt_below_def by (meson order_trans visibleTo_mono)

lemma table_ok_mono: "table_ok lib cf m files t \<Longrightarrow> m \<le> n \<Longrightarrow> table_ok lib cf n files t"
  unfolding table_ok_def by (meson visibleTo_mono)

lemma table_ok_files: "table_ok lib cf n files t \<Longrightarrow> jm_get files' (sm_id t) = jm_get files (sm_id t) \<Longrightarrow> table_ok lib cf n files' t"
  unfolding table_ok_def by simp

lemma new_memtable_below [simp]: "mt_below lib n new_memtable"
  by (simp add: mt_below_def)

lemma mt_top_new [simp]: "mt_top new_memtable = Map.empty"
  by (rule ext) (simp add: mt_top_def)

lemma trimmed_head: "\<exists>ws. trimmed s (v # vs) = v # ws \<and> set ws \<subseteq> set vs"
  by (auto simp: trimmed_def dest: in_set_takeD)

lemma mt_top_set: "mt_ok m \<Longrightarrow> mt_top (mt_set key t v s m) = (mt_top m)(key \<mapsto> v)"
  using trimmed_head [of s "(t, v)" "mt_versions m key"] by (auto simp: mt_top_def)

lemma mt_below_set:
  assumes "mt_below lib n m" "t \<le> n" "visibleTo (nl_unpack lib v) n" "\<not> isVersionedKey key"
  shows "mt_below lib n (mt_set key t v s m)"
proof -
  have "mt_ok m" using assms(1) by (simp add: mt_below_def)
  moreover have "u \<in> set (mt_versions (mt_set key t v s m) k) \<Longrightarrow> u = (t, v) \<and> k = key \<or> u \<in> set (mt_versions m k)" for u k
    using trimmed_head [of s "(t, v)" "mt_versions m key"] \<open>mt_ok m\<close> by (auto split: if_splits)
  ultimately show ?thesis using assms unfolding mt_below_def by fastforce
qed

lemma mt_get_top: "mt_below lib n m \<Longrightarrow> mt_get k n m = mt_top m k"
proof (cases "mt_versions m k")
  case (Cons v vs)
  assume m: "mt_below lib n m"
  then have "v \<in> set (mt_versions m k)" "mt_ok m" using Cons by (simp_all add: mt_below_def)
  then have "fst v \<le> n" using m unfolding mt_below_def by blast
  then show ?thesis using Cons \<open>mt_ok m\<close> by (simp add: mt_get_eq mt_top_def)
qed (simp add: mt_below_def mt_get_eq mt_top_def)

lemma queue_get_first: "\<forall>q \<in> set qs. mt_below lib n (snd q) \<Longrightarrow> queue_get k n qs = first_layer (map (mt_top \<circ> snd) qs) k"
  by (induction qs) (simp_all add: mt_get_top [of lib] split: option.splits)

lemma mt_top_entries: "mt_ok m \<Longrightarrow> mt_top m k = map_option newest_version (map_of (mt_entries m) k)"
proof (cases "map_of (mt_entries m) k")
  case (Some ve)
  assume "mt_ok m"
  then have "ve_versions ve \<noteq> []" using Some unfolding mt_ok_def by (metis map_of_SomeD snd_conv)
  then show ?thesis using Some by (cases "ve_versions ve") (simp_all add: mt_top_def mt_versions_def newest_version_def)
qed (simp add: mt_top_def mt_versions_def)

lemma get_set_all: "distinct (map fst kvs) \<Longrightarrow> jm_get (set_all m kvs) k = (case map_of kvs k of None \<Rightarrow> jm_get m k | Some v \<Rightarrow> Some v)"
proof (induction kvs arbitrary: m)
  case (Cons kv kvs)
  then show ?case by (cases kv) (auto simp: set_all_def map_of_eq_None_iff image_iff split: option.splits)
qed (simp add: set_all_def)

lemma toMap_set_all: "mt_toMap m = set_all [] (map (\<lambda>e. (fst e, newest_version (snd e))) (mt_entries m))"
  by (simp add: mt_toMap_def set_all_def foldl_map)

lemma wf_set_all: "jm_wf m \<Longrightarrow> jm_wf (set_all m kvs)"
  by (induction kvs arbitrary: m) (simp_all add: set_all_def)

lemma toMap_get: "mt_ok m \<Longrightarrow> jm_get (mt_toMap m) k = mt_top m k"
proof -
  assume m: "mt_ok m"
  have "map_of (map (\<lambda>e. (fst e, newest_version (snd e))) es) k = map_option newest_version (map_of es k)" for es :: "(string \<times> ventry) list"
    by (induction es) simp_all
  then show ?thesis unfolding toMap_set_all using m
    by (subst get_set_all) (simp_all add: comp_def mt_keys_distinct mt_top_entries option.case_eq_if)
qed

subsection \<open>Tables\<close>

text \<open>In a file without versioned keys a versioned lookup finds nothing.\<close>

lemma versioned_offsets_in:
  "snd (versioned_offsets key (a, b) es) \<in> {a, b} \<union> snd ` set es"
proof (induction es arbitrary: a b)
  case (Cons e es)
  show ?case using Cons.IH [of "snd e" a] by (cases "fst e \<le> key") auto
qed simp

lemma block_index_split:
  assumes "off' \<in> snd ` set (block_index lib cf off Bs)"
  shows "\<exists>Bs1 B Bs2. Bs = Bs1 @ B # Bs2 \<and> off' = off + data_size lib cf (concat Bs1)"
  using assms
proof (induction Bs arbitrary: off)
  case (Cons B Bs)
  show ?case
  proof (cases "off' = off")
    case True
    then show ?thesis by (intro exI [of _ "[]"] exI [of _ B] exI [of _ Bs]) simp
  next
    case False
    then obtain Bs1 C Bs2 where "Bs = Bs1 @ C # Bs2" "off' = off + data_size lib cf B + data_size lib cf (concat Bs1)"
      using Cons.IH [of "off + data_size lib cf B"] Cons.prems by auto
    then show ?thesis by (intro exI [of _ "B # Bs1"] exI [of _ C] exI [of _ Bs2]) simp
  qed
qed simp

lemma readVersioned_none:
  assumes "lib_ok lib" "file_fits lib cf bl kvs" "sm_index meta = file_index lib cf kvs" "\<forall>kv \<in> set kvs. \<not> isVersionedKey (fst kv)"
  shows "readVersionedFromDisk lib (file_bytes lib cf bl kvs) meta docId snap = None"
proof -
  obtain Bs where Bs: "kvs = concat Bs" "[] \<notin> set Bs" "file_index lib cf kvs = block_index lib cf 0 Bs"
    by (rule file_index_blocks)
  let ?o = "snd (versioned_offsets (encodeVersionedKey docId snap) (0, 0) (sm_index meta))"
  have scan: "\<exists>B. set B \<subseteq> set kvs \<and> sst_scan (read_block (file_bytes lib cf bl kvs) (sm_index meta) ?o) =
      map (record_of lib (cf_blockCompression cf)) B"
  proof (cases "Bs = []")
    case True
    have "index_offset (file_bytes lib cf bl kvs) = 0" using index_offset_file [OF assms(2)] Bs True by simp
    then have "read_block (file_bytes lib cf bl kvs) [] ?o = []" using True Bs assms(3)
      by (simp add: read_block_def block_end_def)
    then show ?thesis using True Bs assms(3) by (intro exI [of _ "[]"]) simp
  next
    case False
    have "?o \<in> {0, 0} \<union> snd ` set (block_index lib cf 0 Bs)" using versioned_offsets_in assms(3) Bs(3) by metis
    moreover have "0 \<in> snd ` set (block_index lib cf 0 Bs)" using False by (cases Bs) auto
    ultimately have "?o \<in> snd ` set (block_index lib cf 0 Bs)" by (elim UnE insertE emptyE) simp_all
    from block_index_split [OF this] obtain Bs1 B Bs2 where b: "Bs = Bs1 @ B # Bs2" "?o = 0 + data_size lib cf (concat Bs1)"
      by (elim exE conjE)
    have "sst_scan (read_block (file_bytes lib cf bl kvs) (sm_index meta) (data_size lib cf (concat Bs1))) =
        map (record_of lib (cf_blockCompression cf)) B"
      unfolding assms(3) Bs(3) b(1) by (rule read_block_file [OF assms(2)]) (use Bs b(1) in auto)
    moreover have "set B \<subseteq> set kvs" using Bs(1) b(1) by auto
    ultimately show ?thesis using b(2) by auto
  qed
  then obtain B where B: "set B \<subseteq> set kvs" "sst_scan (read_block (file_bytes lib cf bl kvs) (sm_index meta) ?o) =
      map (record_of lib (cf_blockCompression cf)) B" by blast
  have "best_version lib docId snap None (map (record_of lib (cf_blockCompression cf)) B) = None"
  proof (cases "best_version lib docId snap None (map (record_of lib (cf_blockCompression cf)) B)")
    case (Some td)
    then show ?thesis using best_version_sound [OF assms(1), of docId snap None _ B "fst td" "snd td"] B(1) assms(4) by fastforce
  qed
  then show ?thesis by (simp add: readVersionedFromDisk_def Let_def B(2))
qed

lemma table_content_eq:
  assumes "lib_ok lib" "jm_get files (sm_id t) = Some file" "writeSSTableFile lib cf tab i level = Inr (file, t)"
  shows "table_content lib files t k = jm_get tab k"
proof -
  obtain bl kvs where w: "kvs = sorted_table tab" "bl = table_bloom lib kvs" "file = file_bytes lib cf bl kvs" "file_fits lib cf bl kvs"
    using assms(3) by (rule written_file) blast
  have "sst_iterate lib file t None None = kvs" using iterate_file [OF assms(1) w(4)] w(3) by simp
  then show ?thesis using assms(2) by (simp add: table_content_def w(1) sorted_table_get)
qed

text \<open>One good table: what the loop over the tables does at it.\<close>

lemma tables_get_ok:
  assumes lib: "lib_ok lib" and k: "\<not> isVersionedKey k" and "\<forall>t \<in> set ts. table_ok lib cf n files t"
  shows "tables_get lib files k n ts = Inr (case first_layer (map (table_content lib files) ts) k of
     None \<Rightarrow> None | Some b \<Rightarrow> live (nl_unpack lib b))"
  using assms(3)
proof (induction ts)
  case (Cons t ts)
  then obtain tab b0 where t: "jm_wf tab" "\<forall>k b. jm_get tab k = Some b \<longrightarrow> visibleTo (nl_unpack lib b) n \<and> \<not> isVersionedKey k"
    "jm_get files (sm_id t) = Some b0" "writeSSTableFile lib cf tab (sm_id t) 0 = Inr (b0, t)"
    by (auto simp: table_ok_def)
  obtain bl kvs where w: "kvs = sorted_table tab" "bl = table_bloom lib kvs" "b0 = file_bytes lib cf bl kvs" "file_fits lib cf bl kvs"
    "sm_index t = file_index lib cf kvs"
    using t(4) by (rule written_file) blast
  have plain: "\<forall>kv \<in> set kvs. \<not> isVersionedKey (fst kv)"
  proof
    fix kv assume "kv \<in> set kvs"
    then have "fst kv \<in> set (map fst (sorted_table tab))" unfolding w(1) by simp
    then have "fst kv \<in> set (jm_keys tab)" unfolding sorted_table_keys by simp
    then obtain b where "jm_get tab (fst kv) = Some b"
      using jm_get_None_iff [of tab "fst kv"] by (cases "jm_get tab (fst kv)") auto
    then show "\<not> isVersionedKey (fst kv)" using t(2) by blast
  qed
  have none: "readVersionedFromDisk lib b0 t k n = None" unfolding w(3) by (rule readVersioned_none [OF lib w(4,5) plain])
  have c: "table_content lib files t k = jm_get tab k" by (rule table_content_eq [OF lib t(3,4)])
  have l: "sst_lookup lib b0 t k = Inr (map_option (nl_unpack lib) (jm_get tab k))" by (rule written_lookup [OF lib t(1,4) k])
  show ?case
  proof (cases "jm_get tab k")
    case None
    then show ?thesis using l Cons t(3) none c by (auto simp: sst_lookup_def split: if_splits)
  next
    case (Some b)
    then have "bloom_check (nl_hash32 lib) (sm_bloom t) k" using l by (auto simp: sst_lookup_def split: if_splits)
    then show ?thesis using l Some t(2,3) c by (simp add: sst_lookup_def)
  qed
qed simp

subsection \<open>Collections without snapshots and compactions\<close>

definition layers :: "nova_lib \<Rightarrow> nova_coll \<Rightarrow> (string \<Rightarrow> buffer option) list" where
  "layers lib c = mt_top (nc_memtable c) # map (mt_top \<circ> snd) (rev (nc_queue c)) @
     map (table_content lib (nc_files c)) (hd (nc_levels c))"

definition coll_ok :: "nova_lib \<Rightarrow> nova_config \<Rightarrow> nova_coll \<Rightarrow> bool" where
  "coll_ok lib cf c \<longleftrightarrow> nc_snapshots c = [] \<and> nc_levels c \<noteq> [] \<and> concat (tl (nc_levels c)) = [] \<and>
     mt_below lib (nc_committedTxnId c) (nc_memtable c) \<and> (\<forall>q \<in> set (nc_queue c). mt_below lib (nc_committedTxnId c) (snd q)) \<and>
     nc_queue c = map (\<lambda>j. (fj_id j, fj_table j)) (nc_jobs c) \<and> (\<forall>j \<in> set (nc_jobs c). \<not> fj_hasSnaps j) \<and>
     nc_committedTxnId c < nc_nextTxnId c \<and>
     sorted_wrt (<) (rev (map sm_id (hd (nc_levels c))) @ map fj_id (nc_jobs c) @ [nc_nextSstableId c]) \<and>
     (\<forall>t \<in> set (hd (nc_levels c)). table_ok lib cf (nc_committedTxnId c) (nc_files c) t)"

lemma sort_desc_id: "sorted_wrt (>) (map sm_id ts) \<Longrightarrow> js_sort_by by_id_desc ts = ts"
  unfolding tables.js_sort_by_sort_key
  by (rule sort_key_id_if_sorted) (auto simp: sorted_wrt_map intro: sorted_wrt_mono_rel [rotated])

lemma sstables_ok:
  assumes "coll_ok lib cf c" shows "sstables c = hd (nc_levels c)"
proof -
  have "sorted_wrt (<) (rev (map sm_id (hd (nc_levels c))))" using assms by (simp add: coll_ok_def sorted_wrt_append)
  then have "sorted_wrt (>) (map sm_id (hd (nc_levels c)))" using sorted_wrt_rev [of "(<)" "map sm_id (hd (nc_levels c))"] by simp
  moreover have "concat (nc_levels c) = hd (nc_levels c)" using assms by (cases "nc_levels c") (simp_all add: coll_ok_def)
  ultimately show ?thesis by (simp add: sstables_def sort_desc_id)
qed

lemma nc_get_layers:
  assumes "lib_ok lib" "coll_ok lib cf c" "\<not> isVersionedKey k"
  shows "nc_get lib k None c = Inr (case first_layer (layers lib c) k of None \<Rightarrow> None | Some b \<Rightarrow> live (nl_unpack lib b))"
proof -
  let ?n = "nc_committedTxnId c"
  have "mt_get k ?n (nc_memtable c) = mt_top (nc_memtable c) k" using assms(2) by (intro mt_get_top [of lib]) (simp add: coll_ok_def)
  moreover have "queue_get k ?n (rev (nc_queue c)) = first_layer (map (mt_top \<circ> snd) (rev (nc_queue c))) k"
    using assms(2) by (intro queue_get_first [of _ lib]) (simp add: coll_ok_def)
  moreover have "tables_get lib (nc_files c) k ?n (sstables c) = Inr (case first_layer (map (table_content lib (nc_files c)) (hd (nc_levels c))) k of
      None \<Rightarrow> None | Some b \<Rightarrow> live (nl_unpack lib b))"
    unfolding sstables_ok [OF assms(2)] using assms by (intro tables_get_ok [where cf = cf]) (simp_all add: coll_ok_def)
  ultimately show ?thesis
    by (simp add: nc_get_def layers_def first_layer_append split: option.splits)
qed

text \<open>What a reader of the newest state finds: the contents of a collection as one map.\<close>

definition contents :: "nova_lib \<Rightarrow> nova_coll \<Rightarrow> string \<Rightarrow> buffer option" where
  "contents lib c = first_layer (layers lib c)"

lemma txn_bump_ok:
  assumes "coll_ok lib cf c" "n \<le> m" "nc_committedTxnId c \<le> n" "n < m"
  shows "coll_ok lib cf (c\<lparr>nc_nextTxnId := m, nc_walLsn := l, nc_activeWal := w, nc_committedTxnId := n\<rparr>)"
    "contents lib (c\<lparr>nc_nextTxnId := m, nc_walLsn := l, nc_activeWal := w, nc_committedTxnId := n\<rparr>) = contents lib c"
  using assms mt_below_mono [OF _ assms(3)] table_ok_mono [OF _ assms(3)] by (auto simp: coll_ok_def contents_def layers_def)

lemma wait_ok: "coll_ok lib cf c \<Longrightarrow> coll_ok lib cf (c\<lparr>nc_waiting := n\<rparr>)" "contents lib (c\<lparr>nc_waiting := n\<rparr>) = contents lib c"
  by (simp_all add: coll_ok_def contents_def layers_def)

lemma fail_ok: "coll_ok lib cf c \<Longrightarrow> nc_nextTxnId c \<le> n \<Longrightarrow> coll_ok lib cf (c\<lparr>nc_nextTxnId := n, nc_walLsn := l\<rparr>)"
  "contents lib (c\<lparr>nc_nextTxnId := n, nc_walLsn := l\<rparr>) = contents lib c"
  by (simp_all add: coll_ok_def contents_def layers_def)

lemma memtable_set_ok:
  assumes "coll_ok lib cf c" "t \<le> nc_committedTxnId c" "visibleTo (nl_unpack lib b) (nc_committedTxnId c)" "\<not> isVersionedKey k"
  shows "coll_ok lib cf (memtable_set k t b c)" "contents lib (memtable_set k t b c) = (contents lib c)(k \<mapsto> b)"
proof -
  have m: "mt_below lib (nc_committedTxnId c) (nc_memtable c)" using assms(1) by (simp add: coll_ok_def)
  then have "mt_below lib (nc_committedTxnId c) (mt_set k t b (snap_oldest (nc_snapshots c)) (nc_memtable c))"
    using assms(2-4) by (rule mt_below_set)
  then show "coll_ok lib cf (memtable_set k t b c)" using assms(1) by (simp add: coll_ok_def memtable_set_def)
  have "mt_ok (nc_memtable c)" using m by (simp add: mt_below_def)
  then show "contents lib (memtable_set k t b c) = (contents lib c)(k \<mapsto> b)"
    by (auto simp: contents_def layers_def memtable_set_def mt_top_set)
qed

lemma trigger_ok:
  assumes "coll_ok lib cf c"
  shows "coll_ok lib cf (triggerBackgroundFlush c)" "contents lib (triggerBackgroundFlush c) = contents lib c"
proof -
  have "x < nc_nextSstableId c" if "x \<in> set (rev (map sm_id (hd (nc_levels c))) @ map fj_id (nc_jobs c))" for x
    using assms that by (auto simp: coll_ok_def sorted_wrt_append)
  then show "coll_ok lib cf (triggerBackgroundFlush c)"
    using assms by (auto simp: coll_ok_def triggerBackgroundFlush_def Let_def sorted_wrt_append snap_hasAny_def less_Suc_eq)
  show "contents lib (triggerBackgroundFlush c) = contents lib c"
    by (rule ext) (simp add: contents_def layers_def triggerBackgroundFlush_def Let_def)
qed

lemma wait_or_flush_ok:
  assumes "coll_ok lib cf c"
  shows "coll_ok lib cf (wait_or_flush cf c)" "contents lib (wait_or_flush cf c) = contents lib c"
  using assms by (simp_all add: wait_or_flush_def wait_ok trigger_ok)

lemma slot_free_ok:
  assumes "coll_ok lib cf c"
  shows "coll_ok lib cf (slot_free cf c)" "contents lib (slot_free cf c) = contents lib c"
  using assms trigger_ok [OF wait_ok(1)] by (simp_all add: slot_free_def wait_ok(2))

text \<open>The oldest flush, when it is done, turns the oldest memtable into the newest table.\<close>

lemma runFlush_ok:
  assumes lib: "lib_ok lib" and c: "coll_ok lib cf c" and j: "nc_jobs c = j # js"
    and few: "length (hd (nc_levels c)) + 1 < cf_l0CompactionThreshold cf"
  shows "coll_ok lib cf (runFlush lib cf j c)" "contents lib (runFlush lib cf j c) = contents lib c"
    "length (hd (nc_levels (runFlush lib cf j c))) \<le> length (hd (nc_levels c)) + 1"
proof -
  let ?n = "nc_committedTxnId c"
  have "coll_ok lib cf (runFlush lib cf j c) \<and> contents lib (runFlush lib cf j c) = contents lib c \<and>
    length (hd (nc_levels (runFlush lib cf j c))) \<le> length (hd (nc_levels c)) + 1"
  proof (cases "writeSSTableFile lib cf (flush_map j) (fj_id j) 0")
    case (Inl e)
    then show ?thesis using c by (simp add: runFlush_def)
  next
    case (Inr fm)
    obtain b0 meta where w: "writeSSTableFile lib cf (flush_map j) (fj_id j) 0 = Inr (b0, meta)" using Inr by (cases fm) simp
    have idm: "sm_id meta = fj_id j" using w by (rule written_file) simp
    have mb: "mt_below lib ?n (fj_table j)" using c j by (auto simp: coll_ok_def)
    have fm: "flush_map j = mt_toMap (fj_table j)" using c j by (simp add: coll_ok_def flush_map_def)
    have get: "jm_get (flush_map j) k = mt_top (fj_table j) k" for k
      using mb unfolding fm by (intro toMap_get) (simp add: mt_below_def)
    have vis: "jm_get (flush_map j) k = Some b \<Longrightarrow> visibleTo (nl_unpack lib b) ?n \<and> \<not> isVersionedKey k" for k b
    proof -
      assume "jm_get (flush_map j) k = Some b"
      then have "\<exists>v \<in> set (mt_versions (fj_table j) k). b = snd v"
        by (cases "mt_versions (fj_table j) k") (auto simp: get mt_top_def)
      then show ?thesis using mb unfolding mt_below_def by blast
    qed
    have wf: "jm_wf (flush_map j)" unfolding fm toMap_set_all by (intro wf_set_all) simp
    obtain l0 ls where l: "nc_levels c = l0 # ls" using c by (cases "nc_levels c") (simp_all add: coll_ok_def)
    have run: "runFlush lib cf j c = flush_done j b0 meta c"
      using few w l by (simp add: runFlush_def flush_done_def Let_def)
    have s: "sorted_wrt (<) (rev (map sm_id l0) @ fj_id j # map fj_id js @ [nc_nextSstableId c])"
      using c by (simp add: coll_ok_def j l)
    have other: "sm_id t \<noteq> fj_id j" if "t \<in> set l0" for t using s that by (auto simp: sorted_wrt_append)
    have js: "filter (\<lambda>k. fj_id k \<noteq> fj_id j) js = js" using s by (auto simp: filter_id_conv sorted_wrt_append)
    then have q: "filter (\<lambda>q. fst q \<noteq> fj_id j) (nc_queue c) = map (\<lambda>j. (fj_id j, fj_table j)) js"
      using c j by (simp add: coll_ok_def filter_map comp_def)
    have old: "table_ok lib cf ?n (jm_set (nc_files c) (fj_id j) b0) t" if "t \<in> set l0" for t
      by (rule table_ok_files [of _ _ _ "nc_files c"]) (use c l that other in \<open>auto simp: coll_ok_def\<close>)
    have new: "table_ok lib cf ?n (jm_set (nc_files c) (fj_id j) b0) meta"
      unfolding table_ok_def using wf vis w idm by (intro exI [of _ "flush_map j"] exI [of _ b0]) auto
    have "coll_ok lib cf (flush_done j b0 meta c)"
      using c s old new q js idm
      by (simp add: coll_ok_def flush_done_def j l sorted_wrt_append ball_conj_distrib)
    moreover have "layers lib (flush_done j b0 meta c) = layers lib c"
    proof -
      have "table_content lib (jm_set (nc_files c) (fj_id j) b0) meta = mt_top (fj_table j)"
      proof (rule ext)
        fix k
        have "table_content lib (jm_set (nc_files c) (fj_id j) b0) meta k = jm_get (flush_map j) k"
          by (rule table_content_eq [OF lib _ w]) (simp add: idm)
        then show "table_content lib (jm_set (nc_files c) (fj_id j) b0) meta k = mt_top (fj_table j) k" by (simp add: get)
      qed
      moreover have "map (table_content lib (jm_set (nc_files c) (fj_id j) b0)) l0 = map (table_content lib (nc_files c)) l0"
        using other by (auto simp: table_content_def fun_eq_iff)
      moreover have "nc_queue c = (fj_id j, fj_table j) # map (\<lambda>j. (fj_id j, fj_table j)) js" using c j by (simp add: coll_ok_def)
      ultimately show ?thesis using q by (simp add: layers_def flush_done_def l rev_map comp_def)
    qed
    ultimately show ?thesis unfolding run by (simp add: contents_def flush_done_def l)
  qed
  then show "coll_ok lib cf (runFlush lib cf j c)" "contents lib (runFlush lib cf j c) = contents lib c"
    "length (hd (nc_levels (runFlush lib cf j c))) \<le> length (hd (nc_levels c)) + 1" by blast+
qed

subsection \<open>Runs of operations\<close>

text \<open>
  One operation at a time, and what it has acknowledged: the documents by id, without the numbers the
  collection adds.  \<open>OFlush\<close> is the oldest flush that has been handed over.
\<close>

datatype nova_op = OUpsert string nova_doc | ODelete string | OCommit nova_txn | OSlot | OFlush

definition user_doc :: "nova_doc \<Rightarrow> nova_doc" where
  "user_doc d = d\<lparr>doc_txnId := None, doc_lsn := None\<rparr>"

fun nova_step :: "nova_lib \<Rightarrow> nova_config \<Rightarrow> nova_coll \<Rightarrow> nova_op \<Rightarrow> nova_coll \<times> (string \<times> nova_doc) list" where
  "nova_step lib cf c (OUpsert freshId doc) =
     (case upsert lib cf freshId doc c of
        (c', Inr i) \<Rightarrow> (c', [(i, user_doc (doc\<lparr>doc_id := i\<rparr>))])
      | (c', Inl e) \<Rightarrow> (c', []))"
| "nova_step lib cf c (ODelete docId) =
     (case nc_delete lib cf docId docId c of (c', Inr i) \<Rightarrow> (c', [(i, tombstone docId)]) | (c', Inl e) \<Rightarrow> (c', []))"
| "nova_step lib cf c (OCommit txn) =
     (case commit lib cf txn c of
        ((c', txn'), Inr u) \<Rightarrow> (c', map (\<lambda>d. (doc_id d, user_doc d)) (jm_values (tx_writes txn)))
      | ((c', txn'), Inl e) \<Rightarrow> (c', []))"
| "nova_step lib cf c OSlot = (slot_free cf c, [])"
| "nova_step lib cf c OFlush = (case nc_jobs c of [] \<Rightarrow> (c, []) | j # js \<Rightarrow> (runFlush lib cf j c, []))"

fun nova_run :: "nova_lib \<Rightarrow> nova_config \<Rightarrow> nova_coll \<Rightarrow> nova_op list \<Rightarrow> nova_coll \<times> (string \<times> nova_doc) list" where
  "nova_run lib cf c [] = (c, [])"
| "nova_run lib cf c (op # ops) =
     (case nova_step lib cf c op of (c', ack) \<Rightarrow> (case nova_run lib cf c' ops of (c'', acks) \<Rightarrow> (c'', ack @ acks)))"

text \<open>The specification: a map that holds for each key the document acknowledged last.\<close>

definition acknowledged :: "(string \<Rightarrow> nova_doc option) \<Rightarrow> (string \<times> nova_doc) list \<Rightarrow> string \<Rightarrow> nova_doc option" where
  "acknowledged s acks = foldl (\<lambda>s a. s(fst a \<mapsto> snd a)) s acks"

fun plain_op :: "nova_op \<Rightarrow> bool" where
  "plain_op (OUpsert freshId doc) \<longleftrightarrow> \<not> isVersionedKey freshId \<and> \<not> isVersionedKey (doc_id doc)"
| "plain_op (ODelete docId) \<longleftrightarrow> docId \<noteq> [] \<and> \<not> isVersionedKey docId"
| "plain_op (OCommit txn) \<longleftrightarrow> \<not> tx_committed txn \<and> list_all (\<lambda>d. \<not> isVersionedKey (doc_id d)) (jm_values (tx_writes txn))"
| "plain_op OSlot \<longleftrightarrow> True"
| "plain_op OFlush \<longleftrightarrow> True"

definition user_contents :: "nova_lib \<Rightarrow> nova_coll \<Rightarrow> string \<Rightarrow> nova_doc option" where
  "user_contents lib c k = map_option (\<lambda>b. user_doc (nl_unpack lib b)) (contents lib c k)"

lemma acknowledged_simps [simp]:
  "acknowledged s [] = s" "acknowledged s (a # as) = acknowledged (s(fst a \<mapsto> snd a)) as"
  "acknowledged s (as @ bs) = acknowledged (acknowledged s as) bs"
  by (simp_all add: acknowledged_def)

lemma user_doc_simps [simp]: "user_doc (user_doc d) = user_doc d" "user_doc (d\<lparr>doc_txnId := t\<rparr>) = user_doc d"
  "user_doc (d\<lparr>doc_lsn := l\<rparr>) = user_doc d" "user_doc (tombstone i) = tombstone i" "doc_deleted (user_doc d) = doc_deleted d"
  by (simp_all add: user_doc_def tombstone_def)

lemma contents_user: "contents lib c' = (contents lib c)(k \<mapsto> b) \<Longrightarrow>
    user_contents lib c' = (user_contents lib c)(k \<mapsto> user_doc (nl_unpack lib b))"
  by (auto simp: user_contents_def)

lemma same_user: "contents lib c' = contents lib c \<Longrightarrow> user_contents lib c' = user_contents lib c"
  by (auto simp: user_contents_def)

lemma upsert_ok:
  assumes lib: "lib_ok lib" and c: "coll_ok lib cf c" and k: "\<not> isVersionedKey freshId" "\<not> isVersionedKey (doc_id doc)"
  shows "coll_ok lib cf (fst (upsert lib cf freshId doc c)) \<and> nc_levels (fst (upsert lib cf freshId doc c)) = nc_levels c \<and>
    (case snd (upsert lib cf freshId doc c) of
       Inl e \<Rightarrow> user_contents lib (fst (upsert lib cf freshId doc c)) = user_contents lib c
     | Inr i \<Rightarrow> i = (if doc_id doc = [] then freshId else doc_id doc) \<and>
         user_contents lib (fst (upsert lib cf freshId doc c)) = (user_contents lib c)(i \<mapsto> user_doc (doc\<lparr>doc_id := i\<rparr>)))"
proof (cases "nc_isReplica c")
  case True
  then show ?thesis using c by (simp add: upsert_def)
next
  case False
  define d where "d = doc_to_write freshId doc c"
  define e where "e = \<lparr>we_lsn = nc_walLsn c, we_key = utf8_bytes (doc_id d), we_doc = nl_pack lib d\<rparr>"
  have n: "nc_committedTxnId c < nc_nextTxnId c" using c by (simp add: coll_ok_def)
  show ?thesis
  proof (cases "wal_encode e")
    case (Inl err)
    then have "upsert lib cf freshId doc c = (c\<lparr>nc_nextTxnId := nc_nextTxnId c + 1, nc_walLsn := nc_walLsn c + 1\<rparr>, Inl err)"
      using False by (simp add: upsert_def Let_def d_def e_def)
    then show ?thesis using fail_ok(1) [OF c] same_user [OF fail_ok(2)] by simp
  next
    case (Inr rec)
    define c1 where "c1 = c\<lparr>nc_nextTxnId := nc_nextTxnId c + 1, nc_walLsn := nc_walLsn c + 1, nc_activeWal := nc_activeWal c @ rec,
      nc_committedTxnId := nc_nextTxnId c\<rparr>"
    have u: "upsert lib cf freshId doc c = (wait_or_flush cf (memtable_set (doc_id d) (nc_nextTxnId c) (nl_pack lib d) c1), Inr (doc_id d))"
      using False Inr n by (simp add: upsert_def Let_def d_def e_def c1_def max_def)
    have c1: "coll_ok lib cf c1" "contents lib c1 = contents lib c"
      unfolding c1_def using n by (intro txn_bump_ok [OF c]; simp)+
    have id: "doc_id d = (if doc_id doc = [] then freshId else doc_id doc)" by (simp add: d_def doc_to_write_def)
    have ud: "user_doc d = user_doc (doc\<lparr>doc_id := doc_id d\<rparr>)" by (simp add: d_def doc_to_write_def user_doc_def)
    have up: "nl_unpack lib (nl_pack lib d) = d" using lib by (simp add: lib_ok_def)
    have m: "coll_ok lib cf (memtable_set (doc_id d) (nc_nextTxnId c) (nl_pack lib d) c1)"
      "contents lib (memtable_set (doc_id d) (nc_nextTxnId c) (nl_pack lib d) c1) = (contents lib c1)(doc_id d \<mapsto> nl_pack lib d)"
      using k by (intro memtable_set_ok [OF c1(1)]; simp add: up id c1_def visibleTo_def; simp add: d_def doc_to_write_def)+
    have "user_contents lib (memtable_set (doc_id d) (nc_nextTxnId c) (nl_pack lib d) c1) =
        (user_contents lib c)(doc_id d \<mapsto> user_doc (doc\<lparr>doc_id := doc_id d\<rparr>))"
      using contents_user [OF m(2)] same_user [OF c1(2)] up ud by simp
    moreover have "nc_levels (wait_or_flush cf (memtable_set (doc_id d) (nc_nextTxnId c) (nl_pack lib d) c1)) = nc_levels c"
      by (simp add: wait_or_flush_def triggerBackgroundFlush_def Let_def memtable_set_def c1_def)
    ultimately show ?thesis
      using wait_or_flush_ok [OF m(1)] same_user [OF wait_or_flush_ok(2) [OF m(1)]] by (simp add: u id)
  qed
qed

lemma wait_or_flush_levels [simp]: "nc_levels (wait_or_flush cf c) = nc_levels c" "nc_levels (slot_free cf c) = nc_levels c"
  "nc_levels (memtable_set k t b c) = nc_levels c" "nc_committedTxnId (memtable_set k t b c) = nc_committedTxnId c"
  by (simp_all add: wait_or_flush_def slot_free_def triggerBackgroundFlush_def Let_def memtable_set_def)

lemma set_docs_ok:
  assumes "lib_ok lib" "coll_ok lib cf c" "t \<le> nc_committedTxnId c" "\<forall>d \<in> set ds. doc_txnId d = Some t \<and> \<not> isVersionedKey (doc_id d)"
  shows "coll_ok lib cf (foldl (\<lambda>c d. memtable_set (doc_id d) t (nl_pack lib d) c) c ds) \<and>
    nc_levels (foldl (\<lambda>c d. memtable_set (doc_id d) t (nl_pack lib d) c) c ds) = nc_levels c \<and>
    user_contents lib (foldl (\<lambda>c d. memtable_set (doc_id d) t (nl_pack lib d) c) c ds) =
      acknowledged (user_contents lib c) (map (\<lambda>d. (doc_id d, user_doc d)) ds)"
  using assms(2-4)
proof (induction ds arbitrary: c)
  case (Cons d ds)
  have up: "nl_unpack lib (nl_pack lib d) = d" using assms(1) by (simp add: lib_ok_def)
  have m: "coll_ok lib cf (memtable_set (doc_id d) t (nl_pack lib d) c)"
    "contents lib (memtable_set (doc_id d) t (nl_pack lib d) c) = (contents lib c)(doc_id d \<mapsto> nl_pack lib d)"
    using Cons.prems by (intro memtable_set_ok [OF Cons.prems(1)]; simp add: up visibleTo_def)+
  show ?case using Cons.IH [OF m(1)] Cons.prems contents_user [OF m(2)] by (simp add: up fun_upd_def)
qed simp

lemma commit_ok:
  assumes lib: "lib_ok lib" and c: "coll_ok lib cf c" and t: "\<not> tx_committed txn" "list_all (\<lambda>d. \<not> isVersionedKey (doc_id d)) (jm_values (tx_writes txn))"
  shows "coll_ok lib cf (fst (fst (commit lib cf txn c))) \<and> nc_levels (fst (fst (commit lib cf txn c))) = nc_levels c \<and>
    user_contents lib (fst (fst (commit lib cf txn c))) = (case snd (commit lib cf txn c) of
       Inl e \<Rightarrow> user_contents lib c
     | Inr u \<Rightarrow> acknowledged (user_contents lib c) (map (\<lambda>d. (doc_id d, user_doc d)) (jm_values (tx_writes txn))))"
proof (cases "tx_writes txn = []")
  case True
  then show ?thesis using t(1) c by (simp add: commit_def)
next
  case False
  define t where "t = nc_nextTxnId c"
  define docs where "docs = map (\<lambda>d. d\<lparr>doc_txnId := Some t\<rparr>) (jm_values (tx_writes txn))"
  define rs where "rs = batch_records lib (nc_walLsn c) docs"
  have n: "nc_committedTxnId c < t" using c by (simp add: coll_ok_def t_def)
  show ?thesis
  proof (cases "length (takeWhile wal_fits rs) < length rs")
    case True
    then have "commit lib cf txn c = ((c\<lparr>nc_nextTxnId := t + 1, nc_walLsn := nc_walLsn c + length (takeWhile wal_fits rs) + 1\<rparr>, txn), Inl OutOfRange)"
      using False t(1) by (simp add: commit_def Let_def t_def docs_def rs_def)
    then show ?thesis using fail_ok(1) [OF c, of "t + 1"] same_user [OF fail_ok(2)] by (simp add: t_def)
  next
    case fits: False
    define c1 where "c1 = c\<lparr>nc_nextTxnId := t + 1, nc_walLsn := nc_walLsn c + length rs,
      nc_activeWal := nc_activeWal c @ concat (map wal_bytes rs), nc_committedTxnId := t\<rparr>"
    define c2 where "c2 = foldl (\<lambda>c d. memtable_set (doc_id d) t (nl_pack lib d) c) c1 docs"
    have m: "max t (nc_committedTxnId c) = t" using n by simp
    have u: "commit lib cf txn c = ((wait_or_flush cf c2, txn\<lparr>tx_committed := True\<rparr>), Inr ())"
      unfolding c2_def c1_def rs_def docs_def t_def
      using False t(1) fits m unfolding rs_def docs_def t_def by (simp add: commit_def Let_def)
    have c1: "coll_ok lib cf c1" "contents lib c1 = contents lib c"
      unfolding c1_def using n by (intro txn_bump_ok [OF c]; simp)+
    have ids: "map (\<lambda>d. (doc_id d, user_doc d)) docs = map (\<lambda>d. (doc_id d, user_doc d)) (jm_values (tx_writes txn))"
      by (simp add: docs_def)
    have d: "\<forall>d \<in> set docs. doc_txnId d = Some t \<and> \<not> isVersionedKey (doc_id d)"
      using t(2) by (auto simp: docs_def list_all_iff)
    have "t \<le> nc_committedTxnId c1" by (simp add: c1_def)
    from set_docs_ok [OF lib c1(1) this d]
    have c2: "coll_ok lib cf c2" "nc_levels c2 = nc_levels c1"
      "user_contents lib c2 = acknowledged (user_contents lib c1) (map (\<lambda>d. (doc_id d, user_doc d)) docs)"
      unfolding c2_def by blast+
    have "user_contents lib c1 = user_contents lib c" by (rule same_user [OF c1(2)])
    moreover have "user_contents lib (wait_or_flush cf c2) = user_contents lib c2" by (rule same_user [OF wait_or_flush_ok(2) [OF c2(1)]])
    moreover have "nc_levels c1 = nc_levels c" by (simp add: c1_def)
    ultimately show ?thesis using wait_or_flush_ok(1) [OF c2(1)] c2(2,3) by (simp add: u ids)
  qed
qed

lemma nova_step_ok:
  assumes lib: "lib_ok lib" and c: "coll_ok lib cf c" and op: "plain_op op"
    and few: "op = OFlush \<longrightarrow> length (hd (nc_levels c)) + 1 < cf_l0CompactionThreshold cf"
    and s: "nova_step lib cf c op = (c', ack)"
  shows "coll_ok lib cf c' \<and> user_contents lib c' = acknowledged (user_contents lib c) ack \<and>
    length (hd (nc_levels c')) \<le> length (hd (nc_levels c)) + (if op = OFlush then 1 else 0)"
proof (cases op)
  case (OUpsert freshId doc)
  then show ?thesis using upsert_ok [OF lib c, of freshId doc] op s by (auto split: prod.splits sum.splits)
next
  case (ODelete docId)
  then have k: "\<not> isVersionedKey docId" "\<not> isVersionedKey (doc_id (tombstone docId))" "docId \<noteq> []" using op by (simp_all add: tombstone_def)
  have "user_doc (tombstone docId\<lparr>doc_id := docId\<rparr>) = tombstone docId" "doc_id (tombstone docId) = docId" by (simp_all add: tombstone_def user_doc_def)
  then show ?thesis using upsert_ok [OF lib c k(1,2)] k(3) s ODelete by (auto simp: nc_delete_def split: prod.splits sum.splits)
next
  case (OCommit txn)
  then show ?thesis using commit_ok [OF lib c, of txn] op s by (auto split: prod.splits sum.splits)
next
  case OSlot
  then show ?thesis using slot_free_ok [OF c] same_user [OF slot_free_ok(2) [OF c]] s by auto
next
  case OFlush
  show ?thesis
  proof (cases "nc_jobs c")
    case Nil
    then show ?thesis using OFlush s c by simp
  next
    case (Cons j js)
    note r = runFlush_ok [OF lib c Cons mp [OF few OFlush]]
    then show ?thesis using same_user [OF r(2)] OFlush Cons s by auto
  qed
qed

lemma nova_run_ok:
  assumes "lib_ok lib" "coll_ok lib cf c" "list_all plain_op ops"
    "length (hd (nc_levels c)) + length (filter (\<lambda>op. op = OFlush) ops) < cf_l0CompactionThreshold cf"
    "nova_run lib cf c ops = (c', acks)"
  shows "coll_ok lib cf c' \<and> user_contents lib c' = acknowledged (user_contents lib c) acks"
  using assms(2-5)
proof (induction ops arbitrary: c acks)
  case (Cons op ops)
  obtain c1 a where s: "nova_step lib cf c op = (c1, a)" by (cases "nova_step lib cf c op")
  obtain as where r: "nova_run lib cf c1 ops = (c', as)" and acks: "acks = a @ as"
    using Cons.prems(4) s by (auto split: prod.splits)
  have few: "op = OFlush \<longrightarrow> length (hd (nc_levels c)) + 1 < cf_l0CompactionThreshold cf" using Cons.prems(3) by auto
  have op: "plain_op op" using Cons.prems(2) by simp
  note k = nova_step_ok [OF assms(1) Cons.prems(1) op few s]
  have "length (hd (nc_levels c1)) + length (filter (\<lambda>op. op = OFlush) ops) < cf_l0CompactionThreshold cf"
    using k Cons.prems(3) by (auto split: if_splits)
  with Cons.IH [of c1 as] k Cons.prems(2) r show ?case by (simp add: acks)
qed simp

lemma new_collection_ok:
  assumes "0 < cf_numLevels cf"
  shows "coll_ok lib cf (new_NovaCollection cf)" "user_contents lib (new_NovaCollection cf) = Map.empty"
    "length (hd (nc_levels (new_NovaCollection cf))) = 0"
  using assms by (cases "cf_numLevels cf"; auto simp: coll_ok_def new_NovaCollection_def user_contents_def contents_def layers_def)+

text \<open>
  C8. A collection is a map of documents: whatever upserts, deletions, transactions and flushes have
  run, in any order and with any sizes, a read returns the document acknowledged last for its id, or
  nothing when that was a deletion.  Flushes finish in the order in which they were handed over, no
  snapshot is open, and there are too few of them for a compaction.
\<close>

theorem nova_last_write_wins:
  assumes "lib_ok lib" and "0 < cf_numLevels cf" and "list_all plain_op ops"
    and "length (filter (\<lambda>op. op = OFlush) ops) < cf_l0CompactionThreshold cf"
    and "nova_run lib cf (new_NovaCollection cf) ops = (c, acks)" and "\<not> isVersionedKey k"
  shows "\<exists>r. nc_get lib k None c = Inr r \<and> map_option user_doc r = Option.bind (acknowledged Map.empty acks k) live"
proof -
  note n = new_collection_ok(1) [OF assms(2), of lib] new_collection_ok(2) [OF assms(2), of lib] new_collection_ok(3) [OF assms(2)]
  have r: "coll_ok lib cf c \<and> user_contents lib c = acknowledged Map.empty acks"
    using nova_run_ok [OF assms(1) n(1) assms(3) _ assms(5)] assms(4) n(2,3) by simp
  then have "acknowledged Map.empty acks k = map_option (\<lambda>b. user_doc (nl_unpack lib b)) (contents lib c k)"
    by (metis user_contents_def)
  then show ?thesis using nc_get_layers [OF assms(1) conjunct1 [OF r] assms(6)]
    by (cases "contents lib c k") (simp_all add: contents_def live_def)
qed

lemma flush_acks_nothing: "snd (nova_step lib cf c OFlush) = []"
  by (simp split: list.split)

definition demo_ops :: "nova_op list" where
  "demo_ops = [OUpsert ''u'' (demo_doc ''a'' 0), OFlush, OFlush]"

lemma upsert_accepted:
  assumes "\<not> nc_isReplica c" and "d = doc_to_write freshId doc c"
    and "wal_fits \<lparr>we_lsn = nc_walLsn c, we_key = utf8_bytes (doc_id d), we_doc = nl_pack lib d\<rparr>"
  shows "snd (upsert lib cf freshId doc c) = Inr (doc_id d)"
  using assms by (simp add: upsert_def Let_def wal_encode_def)

lemma demo_written:
  "doc_to_write ''u'' (demo_doc ''a'' 0) (new_NovaCollection cf) =
    \<lparr>doc_id = ''a'', doc_deleted = False, doc_txnId = Some 1, doc_lsn = None, doc_fields = [(''v'', JNum 1)]\<rparr>"
  by (simp add: doc_to_write_def demo_doc_def new_NovaCollection_def)

lemma demo_upsert: "snd (upsert demo_lib cf ''u'' (demo_doc ''a'' 0) (new_NovaCollection cf)) = Inr ''a''"
proof -
  have "length (nl_pack demo_lib (doc_to_write ''u'' (demo_doc ''a'' 0) (new_NovaCollection cf))) < 256 ^ 4"
    by (simp add: demo_written demo_lib_def demo_pack_def opt_nat_def enc_int_def) (simp add: nat_to_str.simps)
  moreover have "length (utf8_bytes ''a'') < 256 ^ 2" by (simp add: utf8_bytes_def utf8_def utf8_char_def)
  moreover have "nc_walLsn (new_NovaCollection cf) < 256 ^ 8" "\<not> nc_isReplica (new_NovaCollection cf)" by (simp_all add: new_NovaCollection_def)
  ultimately show ?thesis
    using upsert_accepted [OF _ refl, of "new_NovaCollection cf" "''u''" "demo_doc ''a'' 0" demo_lib cf]
    by (simp add: wal_fits_def demo_written)
qed

lemma demo_acks: "snd (nova_run demo_lib demo_nova (new_NovaCollection demo_nova) demo_ops) = [(''a'', user_doc (demo_doc ''a'' 0))]"
proof -
  obtain c where u: "upsert demo_lib demo_nova ''u'' (demo_doc ''a'' 0) (new_NovaCollection demo_nova) = (c, Inr ''a'')"
    using demo_upsert by (metis prod.collapse)
  have "user_doc (demo_doc ''a'' 0\<lparr>doc_id := ''a''\<rparr>) = user_doc (demo_doc ''a'' 0)" by (simp add: user_doc_def demo_doc_def)
  then show ?thesis using u flush_acks_nothing by (simp add: demo_ops_def case_prod_unfold del: nova_step.simps(5))
qed

theorem nova_last_write_wins_witness:
  "\<exists>d. nc_get demo_lib ''a'' None (fst (nova_run demo_lib demo_nova (new_NovaCollection demo_nova) demo_ops)) = Inr (Some d) \<and>
     user_doc d = user_doc (demo_doc ''a'' 0)"
proof -
  have "list_all plain_op demo_ops" "\<not> isVersionedKey ''a''" "0 < cf_numLevels demo_nova"
    "length (filter (\<lambda>op. op = OFlush) demo_ops) < cf_l0CompactionThreshold demo_nova"
    by (simp_all add: demo_ops_def demo_doc_def isVersionedKey_def VERSION_PREFIX_def demo_nova_def)
  from nova_last_write_wins [OF demo_lib_ok this(3,1,4) prod.collapse [symmetric] this(2)]
  show ?thesis by (auto simp: demo_acks live_def user_doc_def demo_doc_def)
qed

end
