(* ===== verification/NovaRecovery.thy ===== *)
theory NovaRecovery
  imports NovaReads
begin

text \<open>
  Starting a collection again on the files an earlier process has left: what the logs bring back, also
  when the last of them is cut off, and what the tables of earlier flushes bring back.
\<close>

subsection \<open>The logs hold what was acknowledged\<close>

definition ack_of :: "nova_lib \<Rightarrow> wal_entry \<Rightarrow> string \<times> nova_doc" where
  "ack_of lib e = (doc_key (we_key e), user_doc (nl_unpack lib (we_doc e)))"

definition log_bytes :: "wal_entry list \<Rightarrow> buffer" where
  "log_bytes es = concat (map wal_bytes es)"

text \<open>The entries of the logs that are set aside, one list each, and of the active log.\<close>

definition logs_ok :: "nova_lib \<Rightarrow> nova_coll \<Rightarrow> wal_entry list list \<Rightarrow> wal_entry list \<Rightarrow> bool" where
  "logs_ok lib c Fs es \<longleftrightarrow> map snd (nc_flushing c) = map log_bytes Fs \<and> nc_activeWal c = log_bytes es \<and>
     list_all wal_fits (concat Fs @ es) \<and> sorted_wrt (<) (jm_keys (nc_flushing c) @ [nc_nextSstableId c]) \<and>
     nc_manifest c = [] \<and> nc_files c = []"

lemma log_bytes_simps [simp]: "log_bytes [] = []" "log_bytes (es @ fs) = log_bytes es @ log_bytes fs"
  by (simp_all add: log_bytes_def)

lemma logs_trigger:
  assumes "logs_ok lib c Fs es"
  shows "logs_ok lib (triggerBackgroundFlush c) (Fs @ [es]) []"
proof -
  have s: "sorted_wrt (<) (jm_keys (nc_flushing c) @ [nc_nextSstableId c])" using assms by (simp add: logs_ok_def)
  then have "nc_nextSstableId c \<notin> set (jm_keys (nc_flushing c))" by (auto simp: sorted_wrt_append)
  then have "jm_set (nc_flushing c) (nc_nextSstableId c) (nc_activeWal c) = nc_flushing c @ [(nc_nextSstableId c, nc_activeWal c)]"
    by (intro jm_set_new) (simp add: jm_get_None_iff)
  then show ?thesis using assms s
    by (auto simp: logs_ok_def triggerBackgroundFlush_def Let_def sorted_wrt_append less_Suc_eq)
qed

definition logged :: "nova_lib \<Rightarrow> nova_coll \<Rightarrow> (string \<times> nova_doc) list \<Rightarrow> bool" where
  "logged lib c acks \<longleftrightarrow> (\<exists>Fs es. logs_ok lib c Fs es \<and> acks = map (ack_of lib) (concat Fs @ es))"

lemma logged_trigger: "logged lib c acks \<Longrightarrow> logged lib (triggerBackgroundFlush c) acks"
  unfolding logged_def using logs_trigger by fastforce

lemma logged_same:
  "logged lib c acks \<Longrightarrow> nc_flushing c' = nc_flushing c \<Longrightarrow> nc_activeWal c' = nc_activeWal c \<Longrightarrow>
    nc_nextSstableId c' = nc_nextSstableId c \<Longrightarrow> nc_manifest c' = nc_manifest c \<Longrightarrow> nc_files c' = nc_files c \<Longrightarrow> logged lib c' acks"
  by (simp add: logged_def logs_ok_def)

lemma logged_append:
  assumes "logged lib c acks" "list_all wal_fits es" "nc_activeWal c' = nc_activeWal c @ log_bytes es"
    "nc_flushing c' = nc_flushing c" "nc_nextSstableId c' = nc_nextSstableId c" "nc_manifest c' = nc_manifest c" "nc_files c' = nc_files c"
  shows "logged lib c' (acks @ map (ack_of lib) es)"
proof -
  obtain Fs ds where "logs_ok lib c Fs ds" "acks = map (ack_of lib) (concat Fs @ ds)" using assms(1) by (auto simp: logged_def)
  then have "logs_ok lib c' Fs (ds @ es)" "acks @ map (ack_of lib) es = map (ack_of lib) (concat Fs @ (ds @ es))"
    using assms(2-) by (simp_all add: logs_ok_def)
  then show ?thesis unfolding logged_def by blast
qed

lemma logged_set [simp]: "logged lib (memtable_set k t b c) acks = logged lib c acks"
  by (simp add: logged_def logs_ok_def memtable_set_def)

lemma logged_wait: "logged lib c acks \<Longrightarrow> logged lib (wait_or_flush cf c) acks"
  using logged_trigger [of lib c acks] logged_same [of lib c acks "c\<lparr>nc_waiting := nc_waiting c + 1\<rparr>"] by (simp add: wait_or_flush_def)

lemma logged_slot: "logged lib c acks \<Longrightarrow> logged lib (slot_free cf c) acks"
  using logged_trigger [of lib "c\<lparr>nc_waiting := nc_waiting c - 1\<rparr>" acks]
    logged_same [of lib c acks "c\<lparr>nc_waiting := nc_waiting c - 1\<rparr>"] by (simp add: slot_free_def)

lemma logged_upsert:
  assumes "lib_ok lib" "logged lib c acks"
  shows "logged lib (fst (upsert lib cf freshId doc c)) (case snd (upsert lib cf freshId doc c) of
    Inl e \<Rightarrow> acks | Inr i \<Rightarrow> acks @ [(i, user_doc (doc\<lparr>doc_id := i\<rparr>))])"
proof (cases "nc_isReplica c")
  case True
  then show ?thesis using assms by (simp add: upsert_def)
next
  case False
  define d where "d = doc_to_write freshId doc c"
  define e where "e = \<lparr>we_lsn = nc_walLsn c, we_key = utf8_bytes (doc_id d), we_doc = nl_pack lib d\<rparr>"
  show ?thesis
  proof (cases "wal_fits e")
    case fits: False
    then have "upsert lib cf freshId doc c = (c\<lparr>nc_nextTxnId := nc_nextTxnId c + 1, nc_walLsn := nc_walLsn c + 1\<rparr>, Inl OutOfRange)"
      using False by (simp add: upsert_def Let_def d_def e_def wal_encode_def)
    then show ?thesis using assms(2) by (auto intro: logged_same)
  next
    case True
    define c1 where "c1 = c\<lparr>nc_nextTxnId := nc_nextTxnId c + 1, nc_walLsn := nc_walLsn c + 1, nc_activeWal := nc_activeWal c @ wal_bytes e,
      nc_committedTxnId := max (nc_nextTxnId c) (nc_committedTxnId c)\<rparr>"
    have u: "upsert lib cf freshId doc c = (wait_or_flush cf (memtable_set (doc_id d) (nc_nextTxnId c) (nl_pack lib d) c1), Inr (doc_id d))"
      using False True by (simp add: upsert_def Let_def d_def e_def c1_def wal_encode_def)
    have "ack_of lib e = (doc_id d, user_doc (doc\<lparr>doc_id := doc_id d\<rparr>))"
      using assms(1) by (simp add: ack_of_def e_def doc_key_def lib_ok_def) (simp add: d_def doc_to_write_def user_doc_def)
    moreover have "logged lib c1 (acks @ map (ack_of lib) [e])"
      by (rule logged_append [OF assms(2)]) (use True in \<open>simp_all add: c1_def log_bytes_def\<close>)
    ultimately show ?thesis by (simp add: u logged_wait)
  qed
qed

lemma takeWhile_all: "\<not> length (takeWhile P xs) < length xs \<Longrightarrow> list_all P xs"
  by (metis Ball_set linorder_cases length_takeWhile_le not_le takeWhile_eq_all_conv takeWhile_eq_take take_all)

lemma batch_acks: "lib_ok lib \<Longrightarrow> map (ack_of lib) (batch_records lib lsn ds) = map (\<lambda>d. (doc_id d, user_doc d)) ds"
  by (induction ds arbitrary: lsn) (simp_all add: ack_of_def doc_key_def lib_ok_def)

lemma logged_sets [simp]: "logged lib (foldl (\<lambda>c d. memtable_set (doc_id d) t (nl_pack lib d) c) c ds) acks = logged lib c acks"
  by (induction ds arbitrary: c) simp_all

lemma logged_commit:
  assumes "lib_ok lib" "logged lib c acks" "\<not> tx_committed txn"
  shows "logged lib (fst (fst (commit lib cf txn c))) (case snd (commit lib cf txn c) of
    Inl e \<Rightarrow> acks | Inr u \<Rightarrow> acks @ map (\<lambda>d. (doc_id d, user_doc d)) (jm_values (tx_writes txn)))"
proof (cases "tx_writes txn = []")
  case True
  then show ?thesis using assms by (simp add: commit_def)
next
  case False
  define t where "t = nc_nextTxnId c"
  define docs where "docs = map (\<lambda>d. d\<lparr>doc_txnId := Some t\<rparr>) (jm_values (tx_writes txn))"
  define rs where "rs = batch_records lib (nc_walLsn c) docs"
  show ?thesis
  proof (cases "length (takeWhile wal_fits rs) < length rs")
    case True
    then have "commit lib cf txn c = ((c\<lparr>nc_nextTxnId := t + 1, nc_walLsn := nc_walLsn c + length (takeWhile wal_fits rs) + 1\<rparr>, txn), Inl OutOfRange)"
      using False assms(3) by (simp add: commit_def Let_def t_def docs_def rs_def)
    then show ?thesis using assms(2) by (auto intro: logged_same)
  next
    case fits: False
    define c1 where "c1 = c\<lparr>nc_nextTxnId := t + 1, nc_walLsn := nc_walLsn c + length rs,
      nc_activeWal := nc_activeWal c @ log_bytes rs, nc_committedTxnId := max t (nc_committedTxnId c)\<rparr>"
    have u: "commit lib cf txn c = ((wait_or_flush cf (foldl (\<lambda>c d. memtable_set (doc_id d) t (nl_pack lib d) c) c1 docs), txn\<lparr>tx_committed := True\<rparr>), Inr ())"
      unfolding c1_def rs_def docs_def t_def log_bytes_def
      using False assms(3) fits unfolding rs_def docs_def t_def by (simp add: commit_def Let_def)
    have "logged lib c1 (acks @ map (ack_of lib) rs)"
      by (rule logged_append [OF assms(2) takeWhile_all [OF fits]]) (simp_all add: c1_def)
    moreover have "map (ack_of lib) rs = map (\<lambda>d. (doc_id d, user_doc d)) (jm_values (tx_writes txn))"
      using batch_acks [OF assms(1)] by (simp add: rs_def docs_def)
    ultimately show ?thesis by (simp add: u logged_wait)
  qed
qed

text \<open>Until a first flush is done, the logs hold every acknowledged write, in order.\<close>

lemma logged_step:
  assumes "lib_ok lib" "logged lib c acks" "plain_op op" "op \<noteq> OFlush" "nova_step lib cf c op = (c', ack)"
  shows "logged lib c' (acks @ ack)"
proof (cases op)
  case (OUpsert freshId doc)
  then show ?thesis using logged_upsert [OF assms(1,2), of cf freshId doc] assms(5) by (auto split: prod.splits sum.splits)
next
  case (ODelete docId)
  have t: "user_doc (tombstone i\<lparr>doc_id := i\<rparr>) = tombstone i" for i by (simp add: tombstone_def user_doc_def)
  have i: "snd (upsert lib cf docId (tombstone docId) c) = Inr i \<Longrightarrow> i = docId" for i
    by (auto simp: upsert_def Let_def doc_to_write_def tombstone_def split: if_splits sum.splits)
  show ?thesis using logged_upsert [OF assms(1,2), of cf docId "tombstone docId"] assms(5) i t ODelete
    by (auto simp: nc_delete_def split: prod.splits sum.splits)
next
  case (OCommit txn)
  then show ?thesis using logged_commit [OF assms(1,2), of txn cf] assms(3,5) by (auto split: prod.splits sum.splits)
next
  case OSlot
  then show ?thesis using logged_slot assms(2,5) by auto
qed (use assms(4) in simp)

lemma logged_run:
  assumes "lib_ok lib" "list_all plain_op ops" "OFlush \<notin> set ops"
  shows "logged lib c acks \<Longrightarrow> nova_run lib cf c ops = (c', acks') \<Longrightarrow> logged lib c' (acks @ acks')"
  using assms(2,3)
proof (induction ops arbitrary: c acks acks')
  case (Cons op ops)
  obtain c1 a where s: "nova_step lib cf c op = (c1, a)" by (cases "nova_step lib cf c op")
  obtain as where r: "nova_run lib cf c1 ops = (c', as)" and acks: "acks' = a @ as"
    using Cons.prems(2) s by (auto split: prod.splits)
  have "logged lib c1 (acks @ a)" using logged_step [OF assms(1) Cons.prems(1) _ _ s] Cons.prems(3,4) by auto
  then show ?case using Cons.IH [OF _ r, of "acks @ a"] Cons.prems(3,4) by (simp add: acks)
qed simp

lemma logged_new: "logged lib (new_NovaCollection cf) []"
  unfolding logged_def logs_ok_def by (intro exI [of _ "[]"]) (simp add: new_NovaCollection_def)

subsection \<open>Replaying the logs\<close>

lemma recover_entry_ok:
  assumes "coll_ok lib cf c" "hd (nc_levels c) = []" "\<not> isVersionedKey (doc_key (we_key e))"
  shows "coll_ok lib cf (recover_entry lib c e) \<and> nc_levels (recover_entry lib c e) = nc_levels c \<and>
    user_contents lib (recover_entry lib c e) = (user_contents lib c)(fst (ack_of lib e) \<mapsto> snd (ack_of lib e))"
proof -
  define t where "t = (case doc_txnId (nl_unpack lib (we_doc e)) of None \<Rightarrow> we_lsn e | Some t \<Rightarrow> t)"
  define c1 where "c1 = c\<lparr>nc_walLsn := max (nc_walLsn c) (we_lsn e + 1), nc_committedTxnId := max (nc_committedTxnId c) t,
    nc_nextTxnId := max (nc_nextTxnId c) (t + 1)\<rparr>"
  have "sstables c = []" using assms(1,2) sstables_ok by metis
  then have r: "recover_entry lib c e = memtable_set (doc_key (we_key e)) t (we_doc e) c1"
    by (simp add: recover_entry_def Let_def probeSStableForTombstone_def t_def c1_def)
  have le: "nc_committedTxnId c \<le> max (nc_committedTxnId c) t" by simp
  have c1: "coll_ok lib cf c1" "contents lib c1 = contents lib c"
    using assms(1) mt_below_mono [OF _ le] table_ok_mono [OF _ le] by (auto simp: coll_ok_def contents_def layers_def c1_def)
  have "visibleTo (nl_unpack lib (we_doc e)) (nc_committedTxnId c1)" by (simp add: visibleTo_def c1_def t_def split: option.splits)
  then have m: "coll_ok lib cf (memtable_set (doc_key (we_key e)) t (we_doc e) c1)"
    "contents lib (memtable_set (doc_key (we_key e)) t (we_doc e) c1) = (contents lib c1)(doc_key (we_key e) \<mapsto> we_doc e)"
    using assms(3) by (intro memtable_set_ok [OF c1(1)]; simp add: c1_def)+
  show ?thesis
    using m(1) contents_user [OF m(2)] same_user [OF c1(2)] by (simp add: r ack_of_def) (simp add: c1_def)
qed

lemma recover_entries_ok:
  assumes "coll_ok lib cf c" "hd (nc_levels c) = []" "\<forall>e \<in> set es. \<not> isVersionedKey (doc_key (we_key e))"
  shows "coll_ok lib cf (foldl (recover_entry lib) c es) \<and> hd (nc_levels (foldl (recover_entry lib) c es)) = [] \<and>
    user_contents lib (foldl (recover_entry lib) c es) = acknowledged (user_contents lib c) (map (ack_of lib) es)"
  using assms
proof (induction es arbitrary: c)
  case (Cons e es)
  have "coll_ok lib cf (recover_entry lib c e)" "hd (nc_levels (recover_entry lib c e)) = []"
    "user_contents lib (recover_entry lib c e) = (user_contents lib c)(fst (ack_of lib e) \<mapsto> snd (ack_of lib e))"
    using recover_entry_ok [OF Cons.prems(1,2), of e] Cons.prems(2,3) by simp_all
  then show ?case using Cons.IH [of "recover_entry lib c e"] Cons.prems(3) by (simp add: fun_upd_def)
qed simp

lemma recover_entry_disk [simp]: "nc_flushing (recover_entry lib c e) = nc_flushing c" "nc_activeWal (recover_entry lib c e) = nc_activeWal c"
  by (simp_all add: recover_entry_def Let_def memtable_set_def)

lemma recover_entries_disk [simp]: "nc_flushing (foldl (recover_entry lib) c es) = nc_flushing c"
  "nc_activeWal (foldl (recover_entry lib) c es) = nc_activeWal c"
  by (induction es arbitrary: c) simp_all

lemma recover_flushing:
  assumes "map snd fl = map log_bytes Fs" "list_all wal_fits (concat Fs)" "distinct (jm_keys fl)"
  shows "foldl (\<lambda>c i. recoverFromWAL lib c (the (jm_get fl i))) c (jm_keys fl) = foldl (recover_entry lib) c (concat Fs)"
proof -
  have eq: "map (\<lambda>i. the (jm_get fl i)) (jm_keys fl) = map log_bytes Fs"
    unfolding assms(1) [symmetric] using assms(3) by (auto simp: jm_get_def)
  have "foldl (\<lambda>c i. recoverFromWAL lib c (the (jm_get fl i))) c (jm_keys fl) = foldl (recoverFromWAL lib) c (map log_bytes Fs)"
    unfolding eq [symmetric] foldl_map ..
  also have "\<dots> = foldl (recover_entry lib) c (concat Fs)" using assms(2)
  proof (induction Fs arbitrary: c)
    case (Cons F Fs)
    have "wal_scan (log_bytes F) = F" using wal_scan_all [of F "[]"] Cons.prems by (simp add: log_bytes_def)
    then show ?case using Cons by (simp add: recoverFromWAL_def)
  qed simp
  finally show ?thesis .
qed

lemma whole_records_take: "\<exists>m. whole_records n es = take m es \<and> m \<le> length es \<and> (length (log_bytes es) \<le> n \<longrightarrow> m = length es)"
proof (induction es arbitrary: n)
  case (Cons e es)
  show ?case
  proof (cases "length (wal_bytes e) \<le> n")
    case True
    obtain m where "whole_records (n - length (wal_bytes e)) es = take m es \<and> m \<le> length es \<and>
        (length (log_bytes es) \<le> n - length (wal_bytes e) \<longrightarrow> m = length es)" using Cons by blast
    then show ?thesis using True by (intro exI [of _ "Suc m"]) (auto simp: log_bytes_def)
  qed (auto intro!: exI [of _ 0] simp: log_bytes_def)
qed (simp add: log_bytes_def)

lemma boot_logged:
  assumes "logs_ok lib c Fs es"
  shows "boot lib cf (c\<lparr>nc_activeWal := take n (nc_activeWal c)\<rparr>) =
    foldl (recover_entry lib) (on_disk cf (c\<lparr>nc_activeWal := take n (nc_activeWal c)\<rparr>)) (concat Fs @ whole_records n es)"
proof -
  let ?d = "on_disk cf (c\<lparr>nc_activeWal := take n (nc_activeWal c)\<rparr>)"
  have f: "map snd (nc_flushing c) = map log_bytes Fs" "nc_activeWal c = log_bytes es" "list_all wal_fits (concat Fs)" "list_all wal_fits es"
    "sorted_wrt (<) (jm_keys (nc_flushing c))" "nc_manifest c = []" "nc_files c = []"
    using assms by (simp_all add: logs_ok_def sorted_wrt_append)
  have k: "distinct (jm_keys (nc_flushing c))" "sort (jm_keys (nc_flushing c)) = jm_keys (nc_flushing c)"
    using f(5) by (simp_all add: strict_sorted_iff sorted_sort_id)
  have "loadFromManifest lib ?d = ?d" using f(6,7) by (simp add: loadFromManifest_def loadSSTablesMetadata_def on_disk_def)
  moreover have "recoverAllFlushingWals lib ?d = foldl (recover_entry lib) ?d (concat Fs)"
    using recover_flushing [OF f(1,3) k(1)] k(2) by (simp add: recoverAllFlushingWals_def on_disk_def)
  moreover have "wal_scan (take n (log_bytes es)) = whole_records n es"
    unfolding log_bytes_def using f(4) by (rule wal_scan_cut)
  ultimately show ?thesis by (simp add: boot_def Let_def recoverFromWAL_def) (simp add: on_disk_def f(2))
qed

lemma upsert_id: "snd (upsert lib cf freshId doc c) = Inr i \<Longrightarrow> i = (if doc_id doc = [] then freshId else doc_id doc)"
  by (simp add: upsert_def Let_def doc_to_write_def split: if_splits sum.splits)

lemma plain_acks: "plain_op op \<Longrightarrow> a \<in> set (snd (nova_step lib cf c op)) \<Longrightarrow> \<not> isVersionedKey (fst a)"
proof (cases op)
  case (OUpsert freshId doc)
  assume "plain_op op" "a \<in> set (snd (nova_step lib cf c op))"
  then show ?thesis using OUpsert upsert_id [of lib cf freshId doc c] by (auto split: prod.splits sum.splits if_splits)
next
  case (ODelete docId)
  assume "plain_op op" "a \<in> set (snd (nova_step lib cf c op))"
  then show ?thesis using ODelete upsert_id [of lib cf docId "tombstone docId" c]
    by (auto simp: nc_delete_def tombstone_def split: prod.splits sum.splits if_splits)
qed (auto simp: list_all_iff split: prod.splits sum.splits list.splits)

lemma plain_run: "list_all plain_op ops \<Longrightarrow> nova_run lib cf c ops = (c', acks) \<Longrightarrow> \<forall>a \<in> set acks. \<not> isVersionedKey (fst a)"
proof (induction ops arbitrary: c acks)
  case (Cons op ops)
  obtain c1 a where s: "nova_step lib cf c op = (c1, a)" by (cases "nova_step lib cf c op")
  obtain as where r: "nova_run lib cf c1 ops = (c', as)" and acks: "acks = a @ as"
    using Cons.prems(2) s by (auto split: prod.splits)
  have "\<forall>x \<in> set a. \<not> isVersionedKey (fst x)" using plain_acks [of op _ lib cf c] s Cons.prems(1) by auto
  then show ?case using Cons.IH [OF _ r] Cons.prems(1) by (auto simp: acks)
qed simp

lemma on_disk_ok:
  assumes "0 < cf_numLevels cf" "nc_files c = []"
  shows "coll_ok lib cf (on_disk cf c)" "user_contents lib (on_disk cf c) = Map.empty" "hd (nc_levels (on_disk cf c)) = []"
  using assms by (cases "cf_numLevels cf"; auto simp: on_disk_def coll_ok_def new_NovaCollection_def user_contents_def contents_def layers_def)+



subsection \<open>Tables after a restart\<close>

text \<open>A state with one table and nothing else, read by an observer that is older than all documents.\<close>

lemma tables_get_future:
  assumes lib: "lib_ok lib" and fits: "file_fits lib cf bl kvs" and s: "sorted_wrt (<) (map fst kvs)"
    and i: "sm_index t = file_index lib cf kvs" and f: "jm_get files (sm_id t) = Some (file_bytes lib cf bl kvs)"
    and plain: "\<forall>kv \<in> set kvs. \<not> isVersionedKey (fst kv) \<and> \<not> visibleTo (nl_unpack lib (snd kv)) snap"
  shows "tables_get lib files k snap [t] = Inr None"
proof -
  have "readVersionedFromDisk lib (file_bytes lib cf bl kvs) t k snap = None"
    using plain by (intro readVersioned_none [OF lib fits i]) simp
  moreover have "\<not> visibleTo (nl_unpack lib b) snap" if "map_of kvs k = Some b" for b
    using map_of_SomeD [OF that] plain by force
  ultimately show ?thesis
    using f readRecord_file [OF lib fits s i, of k] by (cases "map_of kvs k") simp_all
qed

lemma boot_one_table:
  assumes lib: "lib_ok lib" and fits: "file_fits lib cf bl kvs" and n: "0 < cf_numLevels cf"
    and c: "nc_files c = [(i, file_bytes lib cf bl kvs)]" "nc_manifest c = [MFlush l i 0]" "nc_flushing c = []" "nc_activeWal c = []"
  shows "\<exists>t. sm_index t = file_index lib cf kvs \<and> sm_id t = i \<and> sstables (boot lib cf c) = [t] \<and>
    nc_files (boot lib cf c) = nc_files c \<and> nc_memtable (boot lib cf c) = new_memtable \<and> nc_queue (boot lib cf c) = [] \<and>
    nc_committedTxnId (boot lib cf c) = 0"
proof -
  obtain t where t: "readSSTableMetadata lib (file_bytes lib cf bl kvs) i 0 = Inr t" "sm_index t = file_index lib cf kvs" "sm_id t = i"
    using read_metadata [OF lib fits, of i 0] by blast
  obtain m where m: "cf_numLevels cf = Suc m" using n gr0_implies_Suc by blast
  have load: "load_table lib (on_disk cf c\<lparr>nc_walLsn := l'\<rparr>) (i, 0) =
      on_disk cf c\<lparr>nc_walLsn := l', nc_levels := [t] # replicate m [], nc_nextSstableId := i + 1\<rparr>" for l'
    using t m by (simp add: load_table_def on_disk_def new_NovaCollection_def c(1) jm_get_def)
  have ms: "foldl apply_entry \<lparr>ms_active = [], ms_checkpointLsn = 0, ms_walLsn = nc_walLsn (on_disk cf c)\<rparr> (nc_manifest (on_disk cf c)) =
      \<lparr>ms_active = [(i, 0)], ms_checkpointLsn = 0, ms_walLsn = l + 1\<rparr>"
    by (simp add: c(2) on_disk_def new_NovaCollection_def jm_set_def)
  have man: "nc_manifest (on_disk cf c) \<noteq> []" by (simp add: c(2) on_disk_def)
  have sst: "sstables (on_disk cf c\<lparr>nc_walLsn := l', nc_levels := [t] # replicate m [], nc_nextSstableId := j\<rparr>) = [t]" for l' j
    by (simp add: sstables_def)
  have "loadFromManifest lib (on_disk cf c) =
      on_disk cf c\<lparr>nc_walLsn := l + 1, nc_levels := [t] # replicate m [], nc_nextSstableId := i + 1, nc_manifest := [MCheckpoint 0 [(i, sm_level t)]]\<rparr>"
    using man by (simp add: loadFromManifest_def Let_def ms load sst t(3)) (simp add: on_disk_def c(1))
  then have b: "boot lib cf c =
      on_disk cf c\<lparr>nc_walLsn := l + 1, nc_levels := [t] # replicate m [], nc_nextSstableId := i + 1, nc_manifest := [MCheckpoint 0 [(i, sm_level t)]]\<rparr>"
    by (simp add: boot_def Let_def recoverAllFlushingWals_def recoverFromWAL_def on_disk_def c(3,4))
  then show ?thesis using t by (intro exI [of _ t]) (simp add: sstables_def on_disk_def new_NovaCollection_def)
qed

text \<open>A document that was written, flushed and is on disk, after the process has started again.\<close>

lemma written_state:
  assumes "0 < cf_numLevels cf" "upsert lib cf freshId doc (new_NovaCollection cf) = (c, Inr i)" "nc_jobs c = []" "nc_waiting c = 0"
  shows "c = memtable_set i 1 (nl_pack lib (doc_to_write freshId doc (new_NovaCollection cf)))
    ((new_NovaCollection cf)\<lparr>nc_nextTxnId := 2, nc_walLsn := 1, nc_activeWal := nc_activeWal c, nc_committedTxnId := 1\<rparr>)"
  using assms(2-4)
  by (auto simp: upsert_def Let_def new_NovaCollection_def memtable_set_def wait_or_flush_def triggerBackgroundFlush_def numeral_2_eq_2
      split: if_splits sum.splits)

lemma first_flush_read:
  assumes lib: "lib_ok lib" and n: "0 < cf_numLevels cf" "1 < cf_l0CompactionThreshold cf"
    and doc: "\<not> doc_deleted doc" "\<not> isVersionedKey freshId" "\<not> isVersionedKey (doc_id doc)"
    and up: "upsert lib cf freshId doc (new_NovaCollection cf) = (c, Inr i)" and t: "nc_jobs (triggerBackgroundFlush c) = [j]"
    and few: "length (hd (nc_levels (triggerBackgroundFlush c))) + 1 < cf_l0CompactionThreshold cf" and k: "\<not> isVersionedKey i"
  shows "\<exists>d. nc_get lib i None (runFlush lib cf j (triggerBackgroundFlush c)) = Inr (Some d)"
proof -
  let ?c = "runFlush lib cf j (triggerBackgroundFlush c)"
  have run: "nova_run lib cf (new_NovaCollection cf) [OUpsert freshId doc] = (c, [(i, user_doc (doc\<lparr>doc_id := i\<rparr>))])"
    using up by simp
  have ok: "coll_ok lib cf c" "user_contents lib c = [i \<mapsto> user_doc (doc\<lparr>doc_id := i\<rparr>)]"
    using nova_run_ok [OF lib new_collection_ok(1) [OF n(1)] _ _ run] doc(2,3) n new_collection_ok(2,3) [OF n(1)] by simp_all
  note r = runFlush_ok [OF lib trigger_ok(1) [OF ok(1)] t few]
  have u: "user_contents lib ?c i = Some (user_doc (doc\<lparr>doc_id := i\<rparr>))"
    using same_user [OF r(2)] same_user [OF trigger_ok(2) [OF ok(1)]] ok(2) by simp
  obtain b where b: "contents lib ?c i = Some b" "user_doc (nl_unpack lib b) = user_doc (doc\<lparr>doc_id := i\<rparr>)"
    using u by (auto simp: user_contents_def)
  have "doc_deleted (user_doc (nl_unpack lib b)) = doc_deleted (user_doc (doc\<lparr>doc_id := i\<rparr>))" by (simp only: b(2))
  then have "\<not> doc_deleted (nl_unpack lib b)" using doc(1) by (simp only: user_doc_simps) simp
  then show ?thesis using nc_get_layers [OF lib r(1) k] b(1) by (simp add: contents_def live_def)
qed

text \<open>The flush of a memtable with one document, handed over by a new collection.\<close>

definition first_job :: "string \<Rightarrow> buffer \<Rightarrow> flush_job" where
  "first_job i b = \<lparr>fj_id = 0, fj_table = mt_set i 1 b NO_SNAPSHOT new_memtable, fj_lsn = 1, fj_oldest = NO_SNAPSHOT, fj_hasSnaps = False\<rparr>"

lemma first_handover:
  assumes "0 < cf_numLevels cf" "c = memtable_set i 1 b
    ((new_NovaCollection cf)\<lparr>nc_nextTxnId := 2, nc_walLsn := 1, nc_activeWal := w, nc_committedTxnId := 1\<rparr>)"
  shows "nc_jobs (triggerBackgroundFlush c) = [first_job i b]" "nc_flushing (triggerBackgroundFlush c) = [(0, w)]"
    "nc_activeWal (triggerBackgroundFlush c) = []" "nc_files (triggerBackgroundFlush c) = []" "nc_manifest (triggerBackgroundFlush c) = []"
    "length (hd (nc_levels (triggerBackgroundFlush c))) = 0" "nc_levels (triggerBackgroundFlush c) \<noteq> []"
  using assms(1) by (simp_all add: assms(2) triggerBackgroundFlush_def Let_def new_NovaCollection_def memtable_set_def jm_set_def
      first_job_def snap_oldest_def snap_hasAny_def gr0_conv_Suc del: replicate_0)

lemma first_flush_disk:
  assumes "nc_jobs c = [first_job i b]" "nc_flushing c = [(0, w)]" "nc_files c = []" "nc_manifest c = []"
    and "length (hd (nc_levels c)) + 1 < cf_l0CompactionThreshold cf" "nc_levels c \<noteq> []"
    and "nc_jobs (runFlush lib cf (first_job i b) c) = []"
  shows "\<exists>bl. file_fits lib cf bl [(i, b)] \<and> nc_files (runFlush lib cf (first_job i b) c) = [(0, file_bytes lib cf bl [(i, b)])] \<and>
    nc_manifest (runFlush lib cf (first_job i b) c) = [MFlush 1 0 0] \<and> nc_flushing (runFlush lib cf (first_job i b) c) = [] \<and>
    nc_activeWal (runFlush lib cf (first_job i b) c) = nc_activeWal c"
proof (cases "writeSSTableFile lib cf (flush_map (first_job i b)) 0 0")
  case (Inl e)
  then have "runFlush lib cf (first_job i b) c = c" by (simp add: runFlush_def first_job_def)
  then show ?thesis using assms(1,7) by simp
next
  case (Inr fm)
  obtain b0 meta where w: "writeSSTableFile lib cf (flush_map (first_job i b)) 0 0 = Inr (b0, meta)" using Inr by (cases fm) simp
  obtain bl kvs where kvs: "kvs = sorted_table (flush_map (first_job i b))" "b0 = file_bytes lib cf bl kvs" "file_fits lib cf bl kvs"
    using w by (rule written_file) blast
  have "flush_map (first_job i b) = [(i, b)]"
    by (simp add: flush_map_def first_job_def mt_toMap_def mt_set_def bisect_def bisect_loop.simps new_memtable_def newest_version_def jm_set_def)
  then have kv: "kvs = [(i, b)]" by (simp add: kvs(1) sorted_table_def jm_get_def)
  obtain l0 ls where l: "nc_levels c = l0 # ls" using assms(6) by (cases "nc_levels c") simp_all
  have "fj_id (first_job i b) = 0" by (simp add: first_job_def)
  then have "runFlush lib cf (first_job i b) c = flush_done (first_job i b) b0 meta c"
    using w assms(5) l by (simp add: runFlush_def Let_def) (simp add: flush_done_def)
  then show ?thesis
    using kvs(2,3) assms(2-4) by (auto simp: kv flush_done_def first_job_def jm_set_def jm_delete_def)
qed


text \<open>A small document fits into the memtable and into a table file.\<close>

lemma demo_file_fits:
  assumes "length b < 1000"
  shows "file_fits demo_lib demo_nova (table_bloom demo_lib [(''a'', b)]) [(''a'', b)]"
proof -
  have s: "length (fst (stored_doc demo_lib True b)) \<le> length b" by (simp add: stored_doc_def)
  have k: "length (utf8_bytes ''a'') = 1" by (simp add: utf8_bytes_def utf8_def utf8_char_def)
  have r: "length (record_bytes demo_lib True (''a'', b)) \<le> 12 + length b"
    using s k by (simp add: record_bytes_def case_prod_unfold)
  have x: "file_index demo_lib demo_nova [(''a'', b)] = [(''a'', 0)]"
    by (simp add: file_index_def demo_nova_def Let_def)
  have i: "length (nl_packIndex demo_lib [(''a'', 0)]) < 100"
    by (simp add: demo_lib_def demo_packIndex_def enc_int_def nat_to_str.simps)
  have bl: "bl_size (table_bloom demo_lib [(''a'', b)]) = 16" "bl_hashCount (table_bloom demo_lib [(''a'', b)]) = 2"
    "length (bl_bitArray (table_bloom demo_lib [(''a'', b)])) = 2"
    by (simp_all add: table_bloom_def add_keys_def demo_lib_def new_bloom_def bloom_add_def)
  have t: "length (trailer p q bl n) = 32" for p q bl n by (simp add: trailer_def)
  have "length (file_bytes demo_lib demo_nova (table_bloom demo_lib [(''a'', b)]) [(''a'', b)]) < 2000"
    using r i bl assms by (simp add: file_bytes_def Let_def file_data_def x t) (simp add: demo_nova_def)
  then show ?thesis using s k bl assms by (simp add: file_fits_def record_fits_def) (simp add: demo_nova_def)
qed

definition demo_bytes :: buffer where
  "demo_bytes = nl_pack demo_lib (doc_to_write ''u'' (demo_doc ''a'' 0) (new_NovaCollection demo_nova))"

lemma demo_bytes_short: "length demo_bytes < 1000"
  by (simp add: demo_bytes_def demo_written demo_lib_def demo_pack_def opt_nat_def enc_int_def) (simp add: nat_to_str.simps)

definition demo_memtable :: memtable where
  "demo_memtable = mt_set ''a'' 1 demo_bytes NO_SNAPSHOT new_memtable"

lemma demo_memtable_simps:
  "mt_byteSize demo_memtable = 1 + int (length demo_bytes)" "mt_toMap demo_memtable = [(''a'', demo_bytes)]"
  by (simp_all add: demo_memtable_def mt_set_def bisect_def bisect_loop.simps new_memtable_def mt_toMap_def newest_version_def jm_set_def)

lemma demo_first_write:
  assumes "upsert demo_lib demo_nova ''u'' (demo_doc ''a'' 0) (new_NovaCollection demo_nova) = (c, Inr ''a'')"
  shows "c = (new_NovaCollection demo_nova)\<lparr>nc_memtable := demo_memtable, nc_nextTxnId := 2, nc_walLsn := 1,
    nc_activeWal := nc_activeWal c, nc_committedTxnId := 1\<rparr>"
proof -
  let ?n = "new_NovaCollection demo_nova"
  have d: "doc_id (doc_to_write ''u'' (demo_doc ''a'' 0) ?n) = ''a''" by (simp add: demo_written)
  have m: "wait_or_flush demo_nova (memtable_set ''a'' 1 demo_bytes (?n\<lparr>nc_nextTxnId := 2, nc_walLsn := 1, nc_activeWal := w, nc_committedTxnId := 1\<rparr>))
      = ?n\<lparr>nc_memtable := demo_memtable, nc_nextTxnId := 2, nc_walLsn := 1, nc_activeWal := w, nc_committedTxnId := 1\<rparr>" for w
    using demo_bytes_short demo_memtable_simps(1)
    by (simp add: memtable_set_def wait_or_flush_def new_NovaCollection_def snap_oldest_def demo_memtable_def)
      (simp add: demo_nova_def)
  have f: "\<not> nc_isReplica ?n" "nc_nextTxnId ?n = 1" "nc_walLsn ?n = 0" "nc_committedTxnId ?n = 0" "nc_activeWal ?n = []"
    by (simp_all add: new_NovaCollection_def)
  obtain w where "c = wait_or_flush demo_nova (memtable_set ''a'' 1 demo_bytes
      (?n\<lparr>nc_nextTxnId := 2, nc_walLsn := 1, nc_activeWal := w, nc_committedTxnId := 1\<rparr>))"
    using assms unfolding upsert_def Let_def d f demo_bytes_def [symmetric]
    by (simp add: f numeral_2_eq_2 split: sum.splits) blast
  then show ?thesis using m by simp
qed

text \<open>The states around the first flush of the small document.\<close>

lemma demo_first_flush:
  assumes "upsert demo_lib demo_nova ''u'' (demo_doc ''a'' 0) (new_NovaCollection demo_nova) = (c, Inr ''a'')"
  shows "nc_jobs c = []" "nc_waiting c = 0"
    "nc_jobs (runFlush demo_lib demo_nova (hd (nc_jobs (triggerBackgroundFlush c))) (triggerBackgroundFlush c)) = []"
proof -
  note c = demo_first_write [OF assms]
  let ?j = "\<lparr>fj_id = 0, fj_table = demo_memtable, fj_lsn = 1, fj_oldest = NO_SNAPSHOT, fj_hasSnaps = False\<rparr>"
  show "nc_jobs c = []" "nc_waiting c = 0" by (subst c; simp add: new_NovaCollection_def)+
  have t: "nc_jobs (triggerBackgroundFlush c) = [?j]" "nc_levels (triggerBackgroundFlush c) = [[], [], []]"
    by (subst c; simp add: triggerBackgroundFlush_def Let_def new_NovaCollection_def snap_oldest_def snap_hasAny_def
        demo_nova_def numeral_3_eq_3)+
  have "flush_map ?j = [(''a'', demo_bytes)]" by (simp add: flush_map_def demo_memtable_simps)
  then have k: "sorted_table (flush_map ?j) = [(''a'', demo_bytes)]" by (simp add: sorted_table_def jm_get_def)
  obtain b0 meta where w: "writeSSTableFile demo_lib demo_nova (flush_map ?j) 0 0 = Inr (b0, meta)"
    unfolding writeSSTableFile_def Let_def k using demo_file_fits [OF demo_bytes_short] by simp
  have "runFlush demo_lib demo_nova ?j (triggerBackgroundFlush c) = flush_done ?j b0 meta (triggerBackgroundFlush c)"
    using w t(2) by (simp add: runFlush_def Let_def) (simp add: flush_done_def demo_nova_def)
  then show "nc_jobs (runFlush demo_lib demo_nova (hd (nc_jobs (triggerBackgroundFlush c))) (triggerBackgroundFlush c)) = []"
    using t(1) by (simp add: flush_done_def)
qed


end
