(* ===== verification/Spec2Isabelle.thy ===== *)
theory Spec2Isabelle
  imports SemVer TTLCache ControlPlane Worker Snapshot PermSafety PermAccess TokenHttp PluginManager NovaRecovery
begin

text \<open>
  A verification library for the core of NovaX (Zene), a plugin framework for Discord bots written in
  TypeScript.  All paths are below \<open>src/\<close>.

  \<^bold>\<open>The program and its parts.\<close>  A process loads plugins in the order of their dependencies, checks every
  command and route against permission roles, authenticates HTTP clients by signed tokens, keeps documents in
  databases of which one, NovaDB, is its own, and may run as one of many workers whose Discord shards an
  orchestrator assigns.  The theories follow these parts; every definition carries the name of the function,
  method or type it models where Isabelle allows it.

  \<^item> \<^bold>\<open>Shared.\<close> \<open>Prelude\<close>: insertion-ordered maps (the locale \<open>keyed_store\<close>), stable sorting (the locale
    \<open>key_comparator\<close>), results that may be errors.  \<open>JsString\<close>, \<open>JsJson\<close>: texts and parsed JSON.
  \<^item> \<^bold>\<open>Versions.\<close> \<open>SemVer\<close>: \<open>src/core/utils/semver.ts\<close>, versions, their precedence and requirement ranges.
  \<^item> \<^bold>\<open>Cache.\<close> \<open>TTLCache\<close>: \<open>src/core/helpers/cache.ts\<close>, a bounded cache with expiry.
  \<^item> \<^bold>\<open>Control plane\<close>, \<open>src/core/crosshost/\<close>.  \<open>CrossHostTypes\<close> (\<open>types.ts\<close>), \<open>Auth\<close> (\<open>auth/\<close>, \<open>compat\<close>),
    \<open>IdentifyQueue\<close> (\<open>orchestrator/identifyQueue.ts\<close>), \<open>ShardMap\<close> (\<open>orchestrator/shardMap.ts\<close>),
    \<open>Strategies\<close> (\<open>orchestrator/strategies/\<close>, \<open>metrics.ts\<close>), \<open>Membership\<close> (\<open>orchestrator/membership.ts\<close>),
    \<open>Rebalance\<close> (\<open>orchestrator/rebalance.ts\<close>, \<open>deepCheck.ts\<close>) and \<open>RebalanceRun\<close> (the same cycle cut at its
    awaits), \<open>Updates\<close> (\<open>orchestrator/updateController.ts\<close>), \<open>ControlPlane\<close> (\<open>bootstrap.ts\<close>,
    \<open>orchestrator/server.ts\<close>), \<open>Snapshot\<close> (\<open>orchestrator/snapshot.ts\<close>, \<open>worker/snapshotCache.ts\<close>), \<open>Worker\<close>
    (\<open>worker/identifyClient.ts\<close>, \<open>runtime.ts\<close>, \<open>adapter.ts\<close>) and \<open>ShardAdapter\<close>
    (\<open>src/core/manager/discordShardAdapter.ts\<close>).
  \<^item> \<^bold>\<open>Permissions.\<close> \<open>PermHierarchy\<close> (\<open>src/core/types/permissions.ts\<close>, \<open>permissions/hierarchy.ts\<close>),
    \<open>PermGrants\<close> (\<open>manager/permissionRoleLinks.ts\<close>), \<open>PermRoles\<close>, \<open>PermLinks\<close> and \<open>PermAccess\<close>
    (\<open>manager/permissions.ts\<close>, \<open>permissionCache.ts\<close>, \<open>permissions/discordMirror.ts\<close>); \<open>PermInvariants\<close> and
    \<open>PermSafety\<close> hold what all operations keep.
  \<^item> \<^bold>\<open>Tokens.\<close> \<open>TokenTypes\<close>, \<open>TokenStore\<close>, \<open>TokenManager\<close> (\<open>src/core/manager/token.ts\<close>), \<open>TokenSteps\<close> (the
    operations as a step relation), \<open>TokenCodec\<close> (an instance of the codec), \<open>TokenSafety\<close>, \<open>TokenProps\<close>, and
    \<open>TokenHttp\<close> (the middleware and the routes of \<open>src/plugins/token/\<close>).
  \<^item> \<^bold>\<open>Plugins.\<close> \<open>PluginGraph\<close> and \<open>PluginManager\<close>: \<open>src/core/loader/index.ts\<close>.
  \<^item> \<^bold>\<open>NovaDB\<close>, \<open>src/database/index.ts\<close>, a log-structured store.  \<open>NovaCodec\<close> (bytes, CRC-32C, the log, frames for
    replicas), \<open>NovaMemtable\<close> (the sorted memtable and its versions), \<open>NovaCache\<close> (Bloom filter, block cache,
    sparse index), \<open>NovaSstable\<close> (table files), \<open>NovaMerge\<close> (the heap that merges iterators), \<open>NovaStore\<close> (a
    collection: reads, writes, transactions, flushes, compactions, the start), \<open>NovaReads\<close> (what a reader sees),
    \<open>NovaRecovery\<close> (starting again), \<open>NovaLib\<close> (an instance of the libraries for the witnesses).
\<close>

text \<open>
  \<^bold>\<open>How the code is modelled.\<close>  A class is a record, an operation a function from the record to the new one
  with its result; an operation that throws returns a sum, \<open>Inl\<close> the error.  A \<open>Map\<close> is a list of pairs in
  insertion order, a set of its keys where only membership counts.  Times and counts are \<open>int\<close> or \<open>nat\<close>;
  bytes, checksums and hashes are words of their width.  Scores of the strategies are rationals where the code
  has doubles.  An operation that awaits is one step where nothing can interfere; where interleaving matters it
  is cut at its awaits: grants of the identify queue (\<open>iq_step\<close>), rebalance cycles and the recoveries of the
  failure watch (\<open>rb_step\<close>, \<open>recovery_step\<close>), publications of snapshots (\<open>publish_begin\<close>, \<open>publish_finish\<close>, and
  \<open>snap_step\<close> for the messages under way), token operations (\<open>TokenSteps\<close>), flushes of NovaDB
  (\<open>triggerBackgroundFlush\<close>, \<open>runFlush\<close>).  Redis answers a command or rejects it (\<open>redis_answer\<close>), which leaves a
  changed shard map unannounced; \<open>Rebalance\<close> states what one cycle does when Redis accepts everything and nothing
  interferes, and \<open>run_alone\<close> ties it to the interleaved model.

  \<^bold>\<open>Parameters and their laws.\<close>  The token codec (JSON, base64url, HMAC, random bytes) with \<open>codec_ok\<close>; the
  libraries of NovaDB (\<open>msgpackr\<close>, \<open>zlib\<close>, MurmurHash, the logarithms that size a filter) with \<open>lib_ok\<close>: packing
  and compression are inverted, a filter is not empty; the JSON patch library and the hash of snapshots, without
  any law; the outcome of plugin code, of Discord logins and of Redis.  Each law has an executable instance on
  which the witnesses run.

  \<^bold>\<open>Storage engines.\<close>  The permission and token stores are modelled for SQLite, MongoDB and, where the code
  depends on it, PostgreSQL, which folds unquoted column names: \<open>postgres_roles_give_nothing\<close> and
  \<open>postgres_never_revokes\<close> show what that does.  Properties that need the other two say so.

  \<^bold>\<open>Termination.\<close>  Loops are structural or have a measure: the queue of a merge its remaining records, a search
  the width of its interval, a parser the bytes left, the depth-first search of the dependency graph the plugins
  not seen yet, on every graph, cycles included.  Compaction from level to level is bounded by the number of
  levels, which it cannot exceed.  No definition takes fuel that could run out.
\<close>

text \<open>
  \<^bold>\<open>What the lemmas show.\<close>  \<open>SemVer\<close>: a total order that is the precedence of SemVer 2.0, and that printing is
  undone by parsing.  \<open>TTLCache\<close>: the bound, and that a read returns the last live write.  \<open>ShardMap\<close>,
  \<open>Strategies\<close>, \<open>Rebalance\<close>: the map stays in range, published generations increase, a strategy keeps its
  contract (\<open>strategy_contract\<close>), and a cycle that runs alone gives every shard an owner; \<open>RebalanceRun\<close> and
  \<open>ControlPlane\<close>: what survives interleaving, and the shards that two simultaneous recoveries strand.
  \<open>Membership\<close>, \<open>Auth\<close>: who is registered, and token round trips.  \<open>Updates\<close>: the bound on parallel updates.
  \<open>Snapshot\<close>: a worker's document always is one that was published.  \<open>PermInvariants\<close>, \<open>PermSafety\<close>: the
  holders of roles and their grants agree, owners are made only by owners; \<open>PermAccess\<close>: what a passed check
  implies.  \<open>TokenProps\<close>, \<open>TokenHttp\<close>: what an accepted token implies, and what revocation does.  \<open>PluginGraph\<close>,
  \<open>PluginManager\<close>: the dependency order through discovery, boot, reload and shutdown.  \<open>NovaMerge\<close>, \<open>NovaCache\<close>:
  the optimised structures equal their specifications; \<open>NovaReads\<close>: a collection refines a map of documents;
  \<open>NovaRecovery\<close>: what a restart brings back from the logs, and what it loses from the tables.

  \<^bold>\<open>Not modelled.\<close>  The event bus, the paginator, loaders of configuration, languages, emojis, commands, events
  and routes, the updater, the scheduler, migrations, the dashboard and its API plugins, the HTTP server, the
  secret store and the signature check, the adapters of other databases and the generated FlatBuffers code; of
  the control plane registration over HTTP on the worker's side, the API gateway, rosters and shutdown; of NovaDB
  secondary indexes, what a replica applies, rate limiting and open file handles, and operations that
  interleave at their awaits other than flushes.
\<close>

end
